(* ===== verification/Prelude.thy ===== *)
theory Prelude
  imports Main "HOL-Library.Word"
begin

text \<open>
  Shared vocabulary of the development: the machine types of the C++ sources, the
  constants of \<open>include/config.h\<close>, byte memories with their little-endian views, and the
  generic lemmas on words, memories and lists that the component theories use.

  A byte buffer (a \<open>Block\<close>, a \<open>DirBlock\<close>, the caller's \<open>uint8_t *buf\<close>) is a function
  from byte offsets to bytes, an array without bounds; the code's structs that are laid
  over such a buffer by pointer casts are read and written through \<open>get_le\<close> and
  \<open>put_le\<close>, the x86 little-endian representation.
\<close>

unbundle bit_operations_syntax

section \<open>Machine types and constants\<close>

type_synonym u8 = "8 word"
type_synonym u16 = "16 word"
type_synonym u32 = "32 word"
type_synonym u64 = "64 word"

text \<open>\<open>using blk_id_t = uint32_t\<close>\<close>

type_synonym blk_id_t = u32

text \<open>A byte memory; \<open>struct Block\<close> is the memory of its \<open>kBlockSize\<close> bytes.\<close>

type_synonym mem = "nat \<Rightarrow> u8"
type_synonym block = mem

definition kBlockSize :: nat where
  "kBlockSize = 4096"

definition KB :: "nat \<Rightarrow> nat" where
  "KB x = x * 1024"

definition MB :: "nat \<Rightarrow> nat" where
  "MB x = x * 1024 * 1024"

definition GB :: "nat \<Rightarrow> nat" where
  "GB x = x * 1024 * 1024 * 1024"

definition kBlockCacheSize :: nat where
  "kBlockCacheSize = MB 768"

definition kFail :: int where
  "kFail = -1"

definition kSuccess :: int where
  "kSuccess = 0"

text \<open>\<open>kFail\<close> stored into a \<open>blk_id_t\<close> or compared with one: all bits set.\<close>

definition kFail32 :: u32 where
  "kFail32 = word_of_int kFail"

definition kFSMagic :: u32 where
  "kFSMagic = 0x53425355"

definition kInodeDirectCnt :: nat where
  "kInodeDirectCnt = 23"

definition kMaxDirNameLength :: nat where
  "kMaxDirNameLength = 251"

definition kPathCacheSize :: nat where
  "kPathCacheSize = MB 32"

definition kDiskSize :: nat where
  "kDiskSize = GB 16"

definition kLogBlocks :: nat where
  "kLogBlocks = 0"

definition kFSDataBlocks :: nat where
  "kFSDataBlocks = kDiskSize div kBlockSize - kLogBlocks"

definition kInodeBitmapBlocks :: nat where
  "kInodeBitmapBlocks = 1"

named_theorems const_defs "the numeric constants of config.h, unfolded on demand"

declare kBlockSize_def [const_defs] KB_def [const_defs] MB_def [const_defs] GB_def [const_defs]
  kBlockCacheSize_def [const_defs] kInodeDirectCnt_def [const_defs]
  kMaxDirNameLength_def [const_defs] kPathCacheSize_def [const_defs] kDiskSize_def [const_defs]
  kLogBlocks_def [const_defs] kFSDataBlocks_def [const_defs] kInodeBitmapBlocks_def [const_defs]

lemma kFail_neq_kSuccess [simp]: "kFail \<noteq> kSuccess" "kSuccess \<noteq> kFail"
  by (simp_all add: kFail_def kSuccess_def)

lemma kFail32_eq: "kFail32 = -1"
  by (simp add: kFail32_def kFail_def)

section \<open>Byte memories\<close>

text \<open>\<open>memcpy(dst + dp, src + sp, n)\<close>\<close>

definition memcpy :: "mem \<Rightarrow> nat \<Rightarrow> mem \<Rightarrow> nat \<Rightarrow> nat \<Rightarrow> mem" where
  "memcpy dst dp src sp n = (\<lambda>i. if dp \<le> i \<and> i < dp + n then src (sp + (i - dp)) else dst i)"

text \<open>An \<open>n\<close>-byte little-endian integer at byte offset \<open>p\<close>.\<close>

primrec get_le :: "nat \<Rightarrow> mem \<Rightarrow> nat \<Rightarrow> 'a::len word" where
  "get_le 0 m p = 0"
| "get_le (Suc n) m p = ucast (m p) OR push_bit 8 (get_le n m (Suc p))"

definition put_le :: "nat \<Rightarrow> mem \<Rightarrow> nat \<Rightarrow> 'a::len word \<Rightarrow> mem" where
  "put_le n m p v = (\<lambda>i. if p \<le> i \<and> i < p + n then ucast (drop_bit (8 * (i - p)) v) else m i)"

text \<open>\<open>((uint16_t *)p)[..]\<close>, \<open>((uint32_t *)p)[..]\<close>, \<open>((uint64_t *)p)[..]\<close> by byte offset\<close>

definition get_u16 :: "mem \<Rightarrow> nat \<Rightarrow> u16" where
  "get_u16 m p = get_le 2 m p"

definition get_u32 :: "mem \<Rightarrow> nat \<Rightarrow> u32" where
  "get_u32 m p = get_le 4 m p"

definition get_u64 :: "mem \<Rightarrow> nat \<Rightarrow> u64" where
  "get_u64 m p = get_le 8 m p"

definition put_u16 :: "mem \<Rightarrow> nat \<Rightarrow> u16 \<Rightarrow> mem" where
  "put_u16 m p v = put_le 2 m p v"

definition put_u32 :: "mem \<Rightarrow> nat \<Rightarrow> u32 \<Rightarrow> mem" where
  "put_u32 m p v = put_le 4 m p v"

definition put_u64 :: "mem \<Rightarrow> nat \<Rightarrow> u64 \<Rightarrow> mem" where
  "put_u64 m p v = put_le 8 m p v"

definition zero_block :: block where
  "zero_block = (\<lambda>_. 0)"

lemma memcpy_apply:
  "memcpy dst dp src sp n i = (if dp \<le> i \<and> i < dp + n then src (sp + (i - dp)) else dst i)"
  by (simp add: memcpy_def)

lemma memcpy_0 [simp]: "memcpy dst dp src sp 0 = dst"
  by (auto simp: memcpy_def fun_eq_iff)

lemma bit_get_le:
  "bit (get_le n m p :: 'a::len word) k \<longleftrightarrow>
     k < 8 * n \<and> k < LENGTH('a) \<and> bit (m (p + k div 8)) (k mod 8)"
proof (induction n arbitrary: p k)
  case 0
  then show ?case by simp
next
  case (Suc n)
  show ?case
  proof (cases "k < 8")
    case True
    then show ?thesis
      by (auto simp: bit_or_iff bit_ucast_iff bit_push_bit_iff)
  next
    case False
    then have k: "k div 8 = Suc ((k - 8) div 8)" "k mod 8 = (k - 8) mod 8"
      by (simp_all add: le_div_geq le_mod_geq)
    have "\<not> bit (m p) k" using False by (auto dest: bit_imp_le_length)
    then show ?thesis
      using False Suc.IH[of "Suc p" "k - 8"]
      by (auto simp: bit_or_iff bit_ucast_iff bit_push_bit_iff k)
  qed
qed

lemma bit_put_le:
  assumes "p \<le> i" "i < p + n" "b < 8"
  shows "bit (put_le n m p (v :: 'a::len word) i) b \<longleftrightarrow> bit v (8 * (i - p) + b)"
  using assms by (auto simp: put_le_def bit_ucast_iff bit_drop_bit_eq ac_simps)

lemma put_le_outside: "\<not> (p \<le> i \<and> i < p + n) \<Longrightarrow> put_le n m p v i = m i"
  by (auto simp: put_le_def)

lemma get_put_le_same:
  assumes "LENGTH('a::len) = 8 * n"
  shows "get_le n (put_le n m p (v :: 'a word)) p = v"
proof (rule bit_word_eqI)
  fix k assume k: "k < LENGTH('a)"
  then have "k div 8 < n" using assms by (simp add: less_mult_imp_div_less mult.commute)
  then show "bit (get_le n (put_le n m p v) p :: 'a word) k = bit v k"
    using k assms by (simp add: bit_get_le bit_put_le)
qed

lemma get_le_cong:
  assumes "\<And>i. p \<le> i \<Longrightarrow> i < p + n \<Longrightarrow> m i = m' i"
  shows "get_le n m p = get_le n m' p"
  using assms by (induction n arbitrary: p) auto

lemma get_put_le_other:
  assumes "p + n \<le> q \<or> q + n' \<le> p"
  shows "get_le n (put_le n' m q v) p = get_le n m p"
  using assms by (intro get_le_cong) (auto simp: put_le_def)

lemma get_le_put_get:
  assumes "LENGTH('a::len) = 8 * n"
  shows "put_le n m p (get_le n m p :: 'a word) = m"
proof
  fix i
  show "put_le n m p (get_le n m p :: 'a word) i = m i"
  proof (cases "p \<le> i \<and> i < p + n")
    case True
    show ?thesis
    proof (rule bit_word_eqI)
      fix b assume "b < LENGTH(8)"
      then have b: "b < 8" by simp
      then have d: "(8 * (i - p) + b) div 8 = i - p" "(8 * (i - p) + b) mod 8 = b" by auto
      have "8 * (i - p) + b < 8 * n" using True b by auto
      then show "bit (put_le n m p (get_le n m p :: 'a word) i) b = bit (m i) b"
        using True b assms by (simp add: bit_put_le bit_get_le d)
    qed
  next
    case False
    then show ?thesis by (rule put_le_outside)
  qed
qed

named_theorems mem_simps "reading back what was stored in a byte memory"

lemma get_put_u16 [mem_simps]: "get_u16 (put_u16 m p v) p = v"
  by (simp add: get_u16_def put_u16_def get_put_le_same)

lemma get_put_u32 [mem_simps]: "get_u32 (put_u32 m p v) p = v"
  by (simp add: get_u32_def put_u32_def get_put_le_same)

lemma get_put_u64 [mem_simps]: "get_u64 (put_u64 m p v) p = v"
  by (simp add: get_u64_def put_u64_def get_put_le_same)

lemma get_u16_other [mem_simps]:
  "p + 2 \<le> q \<or> q + 4 \<le> p \<Longrightarrow> get_u16 (put_u32 m q v) p = get_u16 m p"
  "p + 2 \<le> q \<or> q + 2 \<le> p \<Longrightarrow> get_u16 (put_u16 m q v') p = get_u16 m p"
  by (simp_all add: get_u16_def put_u32_def put_u16_def get_put_le_other)

lemma get_u32_other [mem_simps]:
  "p + 4 \<le> q \<or> q + 4 \<le> p \<Longrightarrow> get_u32 (put_u32 m q v) p = get_u32 m p"
  "p + 4 \<le> q \<or> q + 2 \<le> p \<Longrightarrow> get_u32 (put_u16 m q v') p = get_u32 m p"
  by (simp_all add: get_u32_def put_u32_def put_u16_def get_put_le_other)

lemma get_u64_other [mem_simps]:
  "p + 8 \<le> q \<or> q + 8 \<le> p \<Longrightarrow> get_u64 (put_u64 m q v) p = get_u64 m p"
  by (simp add: get_u64_def put_u64_def get_put_le_other)

lemma put_u32_outside: "i < p \<or> p + 4 \<le> i \<Longrightarrow> put_u32 m p v i = m i"
  by (auto simp: put_u32_def put_le_def)

lemma put_u16_outside: "i < p \<or> p + 2 \<le> i \<Longrightarrow> put_u16 m p v i = m i"
  by (auto simp: put_u16_def put_le_def)

lemma get_u16_cong:
  "(\<And>i. p \<le> i \<Longrightarrow> i < p + 2 \<Longrightarrow> m i = m' i) \<Longrightarrow> get_u16 m p = get_u16 m' p"
  unfolding get_u16_def by (rule get_le_cong) simp

lemma get_u32_cong:
  "(\<And>i. p \<le> i \<Longrightarrow> i < p + 4 \<Longrightarrow> m i = m' i) \<Longrightarrow> get_u32 m p = get_u32 m' p"
  unfolding get_u32_def by (rule get_le_cong) simp

lemma get_u64_cong:
  "(\<And>i. p \<le> i \<Longrightarrow> i < p + 8 \<Longrightarrow> m i = m' i) \<Longrightarrow> get_u64 m p = get_u64 m' p"
  unfolding get_u64_def by (rule get_le_cong) simp

lemma bit_get_u64: "bit (get_u64 m p) k \<longleftrightarrow> k < 64 \<and> bit (m (p + k div 8)) (k mod 8)"
  by (auto simp: get_u64_def bit_get_le dest: bit_imp_le_length)

section \<open>Machine arithmetic\<close>

lemma word_of_int_sint [simp]: "word_of_int (sint (w :: 'a::len word)) = w"
  by simp

lemma sint_inject_u32: "sint (a :: u32) = sint b \<longleftrightarrow> a = b"
  by (metis word_of_int_sint)

lemma sint_u32_bounds: "- (2 ^ 31) \<le> sint (a :: u32)" "sint a < 2 ^ 31"
  using sint_range_size[of a] by (simp_all add: word_size)

lemma unat_add_u32: "unat (a :: u32) + unat b < 2 ^ 32 \<Longrightarrow> unat (a + b) = unat a + unat b"
  by (simp add: unat_word_ariths)

lemma unat_of_nat_u32: "n < 2 ^ 32 \<Longrightarrow> unat (of_nat n :: u32) = n"
  by (simp add: unat_of_nat)

end
