(* ===== verification/Disk.thy ===== *)
theory Disk
  imports Prelude
begin

text \<open>
  The simulated disk file behind \<open>BlockDevice::fd_\<close> and the two raw accesses of
  \<open>src/blk_dev.cpp\<close>, \<open>write_to_disk\<close> and \<open>read_from_disk\<close>.

  The operating system is the environment of the model: a file is its blocks, its length in
  blocks and a fault schedule. The \<open>n\<close>-th \<open>pread\<close> or \<open>pwrite\<close> on the file fails when
  \<open>dk_fault n\<close> holds, so that every pattern of transient I/O errors is an instance; a
  fault-free file has the schedule that is nowhere true. As documented for regular files, a
  read at or beyond the end of the file is short (it does not return \<open>kBlockSize\<close>), and a
  write beyond the end extends the file.
\<close>

record disk =
  dk_data :: "blk_id_t \<Rightarrow> block"
  dk_blocks :: nat
  dk_fault :: "nat \<Rightarrow> bool"
  dk_ios :: nat

text \<open>\<open>pread(fd_, buf, kBlockSize, block_id * kBlockSize)\<close>: whether it returned
  \<open>kBlockSize\<close>, and the buffer afterwards.\<close>

definition pread_blk :: "blk_id_t \<Rightarrow> block \<Rightarrow> disk \<Rightarrow> bool \<times> block \<times> disk" where
  "pread_blk block_id buf dk =
     (let dk' = dk\<lparr>dk_ios := Suc (dk_ios dk)\<rparr> in
      if dk_fault dk (dk_ios dk) \<or> \<not> unat block_id < dk_blocks dk then (False, buf, dk')
      else (True, dk_data dk block_id, dk'))"

definition pwrite_blk :: "blk_id_t \<Rightarrow> block \<Rightarrow> disk \<Rightarrow> bool \<times> disk" where
  "pwrite_blk block_id buf dk =
     (let dk' = dk\<lparr>dk_ios := Suc (dk_ios dk)\<rparr> in
      if dk_fault dk (dk_ios dk) then (False, dk')
      else (True, dk'\<lparr>dk_data := (dk_data dk)(block_id := buf),
                      dk_blocks := max (dk_blocks dk) (Suc (unat block_id))\<rparr>))"

definition write_to_disk :: "blk_id_t \<Rightarrow> block \<Rightarrow> disk \<Rightarrow> int \<times> disk" where
  "write_to_disk block_id buf dk =
     (case pwrite_blk block_id buf dk of (ok, dk') \<Rightarrow>
        if \<not> ok then (kFail, dk') else (kSuccess, dk'))"

definition read_from_disk :: "blk_id_t \<Rightarrow> block \<Rightarrow> disk \<Rightarrow> int \<times> block \<times> disk" where
  "read_from_disk block_id buf dk =
     (case pread_blk block_id buf dk of (ok, buf', dk') \<Rightarrow>
        if \<not> ok then (kFail, buf', dk') else (kSuccess, buf', dk'))"

text \<open>\<open>ftruncate(fd_, size)\<close>: the file keeps what it has below the new length and reads as
  zeros above its old one.\<close>

definition ftruncate :: "nat \<Rightarrow> disk \<Rightarrow> disk" where
  "ftruncate n dk = dk\<lparr>dk_blocks := n,
     dk_data := (\<lambda>b. if unat b < min n (dk_blocks dk) then dk_data dk b else zero_block)\<rparr>"

definition no_faults :: "disk \<Rightarrow> bool" where
  "no_faults dk \<longleftrightarrow> (\<forall>n. \<not> dk_fault dk n)"

section \<open>Behaviour of the raw accesses\<close>

lemma write_to_disk_ok:
  "\<not> dk_fault dk (dk_ios dk) \<Longrightarrow> unat b < dk_blocks dk \<Longrightarrow>
   write_to_disk b buf dk =
     (kSuccess, dk\<lparr>dk_ios := Suc (dk_ios dk), dk_data := (dk_data dk)(b := buf)\<rparr>)"
  by (simp add: write_to_disk_def pwrite_blk_def Let_def max_def)

lemma read_from_disk_ok:
  "\<not> dk_fault dk (dk_ios dk) \<Longrightarrow> unat b < dk_blocks dk \<Longrightarrow>
   read_from_disk b buf dk = (kSuccess, dk_data dk b, dk\<lparr>dk_ios := Suc (dk_ios dk)\<rparr>)"
  by (simp add: read_from_disk_def pread_blk_def Let_def)

lemma read_from_disk_beyond:
  "\<not> unat b < dk_blocks dk \<Longrightarrow>
   read_from_disk b buf dk = (kFail, buf, dk\<lparr>dk_ios := Suc (dk_ios dk)\<rparr>)"
  by (simp add: read_from_disk_def pread_blk_def Let_def)

lemma no_faultsD [dest]: "no_faults dk \<Longrightarrow> \<not> dk_fault dk n"
  by (simp add: no_faults_def)

lemma no_faults_ios [simp]: "no_faults (dk\<lparr>dk_ios := n\<rparr>) = no_faults dk"
  by (simp add: no_faults_def)

lemma no_faults_data [simp]: "no_faults (dk\<lparr>dk_data := f\<rparr>) = no_faults dk"
  by (simp add: no_faults_def)

end
