(* ===== verification/Lru_Cache.thy ===== *)
theory Lru_Cache
  imports Disk
begin

text \<open>
  The block cache: \<open>struct BlockStatus\<close> of \<open>include/blk.h\<close> and \<open>class LRUCacheManager\<close> of
  \<open>include/lru_cache.h\<close> and \<open>src/lru_cache.cpp\<close>. The cache object lives inside its
  \<open>BlockDevice\<close> and calls back into it (\<open>_dev\<close>), so the operations pass the enclosing
  device state \<open>dev\<close> along: the cache, the disk file and the number of data blocks.

  The buffer is an array of slots (block contents and status); slot numbers are C \<open>int\<close>s
  with \<open>-1\<close> for "none", and the free list and the LRU list are threaded through the
  \<open>prev\<close> and \<open>next\<close> fields of the statuses. The lemmas establish the coherence invariant
  \<open>cache_inv\<close> and how every operation acts on the contents a client of the device sees,
  \<open>dev_view\<close>.
\<close>

section \<open>State\<close>

record BlockStatus =
  bs_status :: u8
  bs_prev :: int
  bs_next :: int
  bs_id :: int

definition is_dirty :: "BlockStatus \<Rightarrow> bool" where
  "is_dirty s \<longleftrightarrow> bs_status s AND 1 \<noteq> 0"

definition rev_dirty :: "BlockStatus \<Rightarrow> BlockStatus" where
  "rev_dirty s = s\<lparr>bs_status := bs_status s XOR 1\<rparr>"

definition bs_init :: "BlockStatus \<Rightarrow> BlockStatus" where
  "bs_init s = s\<lparr>bs_status := 0, bs_prev := -1, bs_next := -1, bs_id := -1\<rparr>"

record lru =
  FREE_first :: int
  LRU_first :: int
  LRU_last :: int
  hashtable :: "blk_id_t \<rightharpoonup> int"
  buf_blk :: "int \<Rightarrow> block"
  buf_st :: "int \<Rightarrow> BlockStatus"
  lru_size :: nat

record dev =
  dev_cache :: lru
  dev_file :: disk
  num_data_blocks :: u32

section \<open>Operations\<close>

text \<open>\<open>_buffer[i].second = f(_buffer[i].second)\<close>\<close>

definition set_st :: "int \<Rightarrow> (BlockStatus \<Rightarrow> BlockStatus) \<Rightarrow> lru \<Rightarrow> lru" where
  "set_st i f c = c\<lparr>buf_st := (buf_st c)(i := f (buf_st c i))\<rparr>"

text \<open>The constructor; \<open>junk\<close> is what the freshly allocated blocks hold.\<close>

definition LRUCacheManager :: "(int \<Rightarrow> block) \<Rightarrow> nat \<Rightarrow> lru" where
  "LRUCacheManager junk cache_size =
     (let size = cache_size div kBlockSize in
      \<lparr>FREE_first = 0, LRU_first = -1, LRU_last = -1, hashtable = Map.empty, buf_blk = junk,
       buf_st = (\<lambda>i. \<lparr>bs_status = 0,
                      bs_prev = (if i = 0 then -1 else i - 1),
                      bs_next = (if i = int size - 1 then -1 else i + 1),
                      bs_id = 0\<rparr>),
       lru_size = size\<rparr>)"

definition FREE_add :: "int \<Rightarrow> lru \<Rightarrow> lru" where
  "FREE_add slot c =
     (set_st slot (\<lambda>s. s\<lparr>bs_next := FREE_first c\<rparr>) c)\<lparr>FREE_first := slot\<rparr>"

text \<open>The statements of \<open>LRU_add\<close>.\<close>

definition link_self :: "int \<Rightarrow> lru \<Rightarrow> lru" where
  "link_self slot c = set_st slot (\<lambda>s. s\<lparr>bs_next := LRU_first c, bs_prev := -1\<rparr>) c"

definition link_first :: "int \<Rightarrow> lru \<Rightarrow> lru" where
  "link_first slot c =
     (if LRU_first c \<noteq> -1 then set_st (LRU_first c) (\<lambda>s. s\<lparr>bs_prev := slot\<rparr>) c
      else c)\<lparr>LRU_first := slot\<rparr>"

definition link_last :: "int \<Rightarrow> lru \<Rightarrow> lru" where
  "link_last slot c = (if LRU_last c = -1 then c\<lparr>LRU_last := slot\<rparr> else c)"

definition LRU_add :: "int \<Rightarrow> lru \<Rightarrow> lru" where
  "LRU_add slot c = link_last slot (link_first slot (link_self slot c))"

text \<open>The five statements of \<open>LRU_remove\<close>, in their order.\<close>

definition unlink_first :: "int \<Rightarrow> lru \<Rightarrow> lru" where
  "unlink_first slot c =
     (if slot = LRU_first c then c\<lparr>LRU_first := bs_next (buf_st c slot)\<rparr> else c)"

definition unlink_last :: "int \<Rightarrow> lru \<Rightarrow> lru" where
  "unlink_last slot c =
     (if slot = LRU_last c then c\<lparr>LRU_last := bs_prev (buf_st c slot)\<rparr> else c)"

definition unlink_next :: "int \<Rightarrow> lru \<Rightarrow> lru" where
  "unlink_next slot c =
     (if bs_next (buf_st c slot) \<noteq> -1
      then set_st (bs_next (buf_st c slot)) (\<lambda>s. s\<lparr>bs_prev := bs_prev (buf_st c slot)\<rparr>) c
      else c)"

definition unlink_prev :: "int \<Rightarrow> lru \<Rightarrow> lru" where
  "unlink_prev slot c =
     (if bs_prev (buf_st c slot) \<noteq> -1
      then set_st (bs_prev (buf_st c slot)) (\<lambda>s. s\<lparr>bs_next := bs_next (buf_st c slot)\<rparr>) c
      else c)"

definition unlink_self :: "int \<Rightarrow> lru \<Rightarrow> lru" where
  "unlink_self slot c = set_st slot (\<lambda>s. s\<lparr>bs_next := -1, bs_prev := -1\<rparr>) c"

definition LRU_remove :: "int \<Rightarrow> lru \<Rightarrow> lru" where
  "LRU_remove slot c =
     unlink_self slot (unlink_prev slot (unlink_next slot
       (unlink_last slot (unlink_first slot c))))"

text \<open>\<open>alloc(slot)\<close>: the return value and the slot. The eviction loop leaves at its first
  iteration on every path (its test is \<open>if (true)\<close>).\<close>

definition lru_alloc :: "dev \<Rightarrow> int \<times> int \<times> dev" where
  "lru_alloc d =
     (let c = dev_cache d in
      if FREE_first c \<noteq> -1 then
        (let slot = FREE_first c;
             c1 = c\<lparr>FREE_first := bs_next (buf_st c slot)\<rparr>;
             c2 = set_st slot bs_init c1;
             c3 = LRU_add slot (LRU_remove slot c2)
         in (kSuccess, slot, d\<lparr>dev_cache := c3\<rparr>))
      else
        (let slot = LRU_last c in
         if slot \<noteq> -1 then
           (let stu = buf_st c slot;
                (r, dk) = (if is_dirty stu
                           then write_to_disk (word_of_int (bs_id stu)) (buf_blk c slot) (dev_file d)
                           else (kSuccess, dev_file d))
            in if r \<noteq> kSuccess then (kFail, slot, d\<lparr>dev_file := dk\<rparr>)
               else
                 (let c1 = c\<lparr>hashtable := (hashtable c)(word_of_int (bs_id stu) := None)\<rparr>;
                      c2 = set_st slot bs_init c1;
                      c3 = LRU_add slot (LRU_remove slot c2)
                  in (kSuccess, slot, d\<lparr>dev_cache := c3, dev_file := dk\<rparr>)))
         else (kFail, slot, d)))"

text \<open>\<open>get_page(id, slot)\<close>; the result of \<open>alloc\<close> is not looked at.\<close>

definition get_page :: "blk_id_t \<Rightarrow> dev \<Rightarrow> int \<times> int \<times> dev" where
  "get_page bid d =
     (case hashtable (dev_cache d) bid of
        None \<Rightarrow>
          (let (_, slot, d1) = lru_alloc d;
               c1 = set_st slot (\<lambda>s. s\<lparr>bs_id := sint bid\<rparr>) (dev_cache d1);
               (r, b, dk) = read_from_disk bid (buf_blk c1 slot) (dev_file d1);
               c2 = c1\<lparr>buf_blk := (buf_blk c1)(slot := b)\<rparr>
           in if r \<noteq> kSuccess then (kFail, slot, d1\<lparr>dev_cache := c2, dev_file := dk\<rparr>)
              else (kSuccess, slot,
                    d1\<lparr>dev_cache := c2\<lparr>hashtable := (hashtable c2)(bid \<mapsto> slot)\<rparr>, dev_file := dk\<rparr>))
      | Some slot \<Rightarrow>
          (kSuccess, slot, d\<lparr>dev_cache := LRU_add slot (LRU_remove slot (dev_cache d))\<rparr>))"

definition lru_upsert :: "blk_id_t \<Rightarrow> block \<Rightarrow> dev \<Rightarrow> int \<times> dev" where
  "lru_upsert block_id blk d =
     (let (r, slot, d1) = get_page block_id d in
      if r \<noteq> kSuccess then (kFail, d1)
      else
        (let c = dev_cache d1;
             c1 = c\<lparr>buf_blk := (buf_blk c)(slot := blk)\<rparr>;
             c2 = (if \<not> is_dirty (buf_st c1 slot) then set_st slot rev_dirty c1 else c1)
         in (kSuccess, d1\<lparr>dev_cache := c2\<rparr>)))"

definition lru_get :: "blk_id_t \<Rightarrow> block \<Rightarrow> dev \<Rightarrow> int \<times> block \<times> dev" where
  "lru_get block_id blk d =
     (case hashtable (dev_cache d) block_id of
        Some slot \<Rightarrow>
          (kSuccess, buf_blk (dev_cache d) slot,
           d\<lparr>dev_cache := LRU_add slot (LRU_remove slot (dev_cache d))\<rparr>)
      | None \<Rightarrow> (kFail, blk, d))"

definition remove_page :: "blk_id_t \<Rightarrow> dev \<Rightarrow> int \<times> dev" where
  "remove_page bid d =
     (let c = dev_cache d in
      case hashtable c bid of
        None \<Rightarrow> (kFail, d)
      | Some slot \<Rightarrow>
          (let (r, dk) = (if is_dirty (buf_st c slot)
                          then write_to_disk bid (buf_blk c slot) (dev_file d)
                          else (kSuccess, dev_file d))
           in if r \<noteq> kSuccess then (kFail, d\<lparr>dev_file := dk\<rparr>)
              else
                (let c1 = c\<lparr>hashtable := (hashtable c)(bid := None)\<rparr>
                 in (kSuccess,
                     d\<lparr>dev_cache := FREE_add slot (LRU_remove slot c1), dev_file := dk\<rparr>))))"

definition lru_remove :: "blk_id_t \<Rightarrow> dev \<Rightarrow> int \<times> dev" where
  "lru_remove block_id d = remove_page block_id d"

definition lru_sync :: "blk_id_t \<Rightarrow> dev \<Rightarrow> int \<times> dev" where
  "lru_sync block_id d =
     (case hashtable (dev_cache d) block_id of
        Some slot \<Rightarrow>
          (let c = LRU_add slot (LRU_remove slot (dev_cache d)) in
           if is_dirty (buf_st c slot) then
             (let c1 = set_st slot rev_dirty c;
                  (r, dk) = write_to_disk block_id (buf_blk c1 slot) (dev_file d)
              in (r, d\<lparr>dev_cache := c1, dev_file := dk\<rparr>))
           else (kSuccess, d\<lparr>dev_cache := c\<rparr>))
      | None \<Rightarrow> (kFail, d))"

text \<open>The loop of \<open>sync_all\<close> over the slots still to visit.\<close>

fun lru_sync_slots :: "nat list \<Rightarrow> dev \<Rightarrow> int \<times> dev" where
  "lru_sync_slots [] d = (kSuccess, d)"
| "lru_sync_slots (i # rest) d =
     (let c = dev_cache d; stu = buf_st c (int i) in
      if is_dirty stu then
        (let (r, dk) = write_to_disk (word_of_int (bs_id stu)) (buf_blk c (int i)) (dev_file d)
         in if r \<noteq> 0 then (kFail, d\<lparr>dev_file := dk\<rparr>)
            else lru_sync_slots rest (d\<lparr>dev_file := dk\<rparr>))
      else lru_sync_slots rest d)"

definition lru_sync_all :: "dev \<Rightarrow> int \<times> dev" where
  "lru_sync_all d = lru_sync_slots [0..<lru_size (dev_cache d)] d"

section \<open>The list operations\<close>

text \<open>Linking and unlinking touches nothing but the links.\<close>

lemma set_st_frame [simp]:
  "hashtable (set_st i f c) = hashtable c" "buf_blk (set_st i f c) = buf_blk c"
  "FREE_first (set_st i f c) = FREE_first c" "LRU_first (set_st i f c) = LRU_first c"
  "LRU_last (set_st i f c) = LRU_last c" "lru_size (set_st i f c) = lru_size c"
  by (simp_all add: set_st_def)

lemma buf_st_set_st [simp]:
  "buf_st (set_st i f c) j = (if j = i then f (buf_st c i) else buf_st c j)"
  by (simp add: set_st_def)

lemmas unlink_defs = unlink_first_def unlink_last_def unlink_next_def unlink_prev_def unlink_self_def
lemmas link_defs = link_self_def link_first_def link_last_def

lemma LRU_add_frame [simp]:
  "hashtable (LRU_add s c) = hashtable c" "buf_blk (LRU_add s c) = buf_blk c"
  "FREE_first (LRU_add s c) = FREE_first c" "lru_size (LRU_add s c) = lru_size c"
  "bs_status (buf_st (LRU_add s c) i) = bs_status (buf_st c i)"
  "bs_id (buf_st (LRU_add s c) i) = bs_id (buf_st c i)"
  by (simp_all add: LRU_add_def link_defs)

lemma unlink_frame:
  assumes "f \<in> {unlink_first, unlink_last, unlink_next, unlink_prev, unlink_self}"
  shows "hashtable (f s c) = hashtable c" "buf_blk (f s c) = buf_blk c"
    "FREE_first (f s c) = FREE_first c" "lru_size (f s c) = lru_size c"
    "bs_status (buf_st (f s c) i) = bs_status (buf_st c i)"
    "bs_id (buf_st (f s c) i) = bs_id (buf_st c i)"
  using assms by (auto simp: unlink_defs)

lemma LRU_remove_frame [simp]:
  "hashtable (LRU_remove s c) = hashtable c" "buf_blk (LRU_remove s c) = buf_blk c"
  "FREE_first (LRU_remove s c) = FREE_first c" "lru_size (LRU_remove s c) = lru_size c"
  "bs_status (buf_st (LRU_remove s c) i) = bs_status (buf_st c i)"
  "bs_id (buf_st (LRU_remove s c) i) = bs_id (buf_st c i)"
  by (simp_all add: LRU_remove_def unlink_frame)

lemma is_dirty_LRU [simp]:
  "is_dirty (buf_st (LRU_add s c) i) = is_dirty (buf_st c i)"
  "is_dirty (buf_st (LRU_remove s c) i) = is_dirty (buf_st c i)"
  by (simp_all add: is_dirty_def)

text \<open>Among the first \<open>k\<close> slots every link is a slot below \<open>k\<close> or \<open>-1\<close>.\<close>

definition links_ok :: "int \<Rightarrow> lru \<Rightarrow> bool" where
  "links_ok k c \<longleftrightarrow> LRU_first c \<in> {-1..<k} \<and> LRU_last c \<in> {-1..<k} \<and>
     (\<forall>i \<in> {0..<k}. bs_next (buf_st c i) \<in> {-1..<k} \<and> bs_prev (buf_st c i) \<in> {-1..<k})"

lemma links_okD:
  assumes "links_ok k c"
  shows "-1 \<le> LRU_first c" "LRU_first c < k" "-1 \<le> LRU_last c" "LRU_last c < k"
    "0 \<le> i \<Longrightarrow> i < k \<Longrightarrow> -1 \<le> bs_next (buf_st c i) \<and> bs_next (buf_st c i) < k"
    "0 \<le> i \<Longrightarrow> i < k \<Longrightarrow> -1 \<le> bs_prev (buf_st c i) \<and> bs_prev (buf_st c i) < k"
  using assms by (auto simp: links_ok_def)

lemma links_ok_unlink:
  assumes "links_ok k c" "0 \<le> s" "s < k"
    and "f \<in> {unlink_first, unlink_last, unlink_next, unlink_prev, unlink_self}"
  shows "links_ok k (f s c)"
  using assms by (auto simp: links_ok_def unlink_defs)

lemma unlink_above:
  assumes "links_ok k c" "0 \<le> s" "s < k" "k \<le> i"
    and "f \<in> {unlink_first, unlink_last, unlink_next, unlink_prev, unlink_self}"
  shows "buf_st (f s c) i = buf_st c i"
  using assms links_okD(5,6)[OF assms(1-3)] by (auto simp: unlink_defs)

lemma links_ok_LRU_remove:
  assumes "links_ok k c" "0 \<le> s" "s < k"
  shows "links_ok k (LRU_remove s c)" "k \<le> i \<Longrightarrow> buf_st (LRU_remove s c) i = buf_st c i"
  using assms by (simp_all add: LRU_remove_def links_ok_unlink unlink_above[of k])

lemma links_ok_LRU_add:
  assumes "links_ok k c" "0 \<le> s" "s < k"
  shows "links_ok k (LRU_add s c)" "k \<le> i \<Longrightarrow> buf_st (LRU_add s c) i = buf_st c i"
  using assms by (auto simp: links_ok_def LRU_add_def link_defs)

lemma links_ok_extend:
  assumes "links_ok k c" "0 \<le> k"
  shows "links_ok (k + 1) (set_st k bs_init c)"
proof -
  have "{0..<k + 1} = insert k {0..<k}" using assms(2) by auto
  then show ?thesis using assms by (fastforce simp: links_ok_def bs_init_def)
qed

lemma LRU_last_LRU_add: "s \<noteq> -1 \<Longrightarrow> LRU_last (LRU_add s c) \<noteq> -1"
  by (simp add: LRU_add_def link_defs)

lemma is_dirty_odd: "is_dirty s \<longleftrightarrow> bit (bs_status s) 0"
  by (simp add: is_dirty_def and_one_eq bit_0 odd_iff_mod_2_eq_one)

lemma is_dirty_rev [simp]: "is_dirty (rev_dirty s) \<longleftrightarrow> \<not> is_dirty s"
  by (simp add: is_dirty_odd rev_dirty_def bit_xor_iff bit_1_iff)

lemma status_simps [simp]:
  "bs_id (rev_dirty s) = bs_id s" "bs_next (rev_dirty s) = bs_next s"
  "bs_prev (rev_dirty s) = bs_prev s" "is_dirty (s\<lparr>bs_id := i\<rparr>) = is_dirty s"
  "\<not> is_dirty (bs_init s)" "bs_next (bs_init s) = -1" "bs_prev (bs_init s) = -1"
  by (simp_all add: rev_dirty_def is_dirty_def bs_init_def)

section \<open>Coherence of cache and disk\<close>

text \<open>What a client of the device sees in block \<open>b\<close>.\<close>

definition dev_view :: "dev \<Rightarrow> blk_id_t \<Rightarrow> block" where
  "dev_view d b = (case hashtable (dev_cache d) b of
      Some s \<Rightarrow> buf_blk (dev_cache d) s | None \<Rightarrow> dk_data (dev_file d) b)"

abbreviation dev_blocks :: "dev \<Rightarrow> nat" where
  "dev_blocks d \<equiv> dk_blocks (dev_file d)"

text \<open>The slots below \<open>k\<close> have been handed out, the others form the free list in order.\<close>

definition free_ok :: "int \<Rightarrow> lru \<Rightarrow> bool" where
  "free_ok k c \<longleftrightarrow> 0 < lru_size c \<and> 0 \<le> k \<and> k \<le> int (lru_size c) \<and>
     FREE_first c = (if k < int (lru_size c) then k else -1) \<and>
     (\<forall>i \<in> {k..<int (lru_size c)}. \<not> is_dirty (buf_st c i) \<and>
        bs_next (buf_st c i) = (if i + 1 < int (lru_size c) then i + 1 else -1))"

text \<open>Every hashed block is in the slot that carries its id, and a clean one equals the disk.\<close>

definition hash_ok :: "int \<Rightarrow> lru \<Rightarrow> disk \<Rightarrow> bool" where
  "hash_ok k c dk \<longleftrightarrow> (\<forall>b s. hashtable c b = Some s \<longrightarrow>
     0 \<le> s \<and> s < k \<and> bs_id (buf_st c s) = sint b \<and> unat b < dk_blocks dk \<and>
     (is_dirty (buf_st c s) \<or> buf_blk c s = dk_data dk b))"

text \<open>Every used slot outside \<open>X\<close> is hashed under its id, or is the clean left-over of a
  read beyond the end of the disk.\<close>

definition slots_ok :: "int set \<Rightarrow> int \<Rightarrow> lru \<Rightarrow> disk \<Rightarrow> bool" where
  "slots_ok X k c dk \<longleftrightarrow> (\<forall>s \<in> {0..<k} - X.
     hashtable c (word_of_int (bs_id (buf_st c s))) = Some s \<or>
     (\<not> is_dirty (buf_st c s) \<and> \<not> unat (word_of_int (bs_id (buf_st c s)) :: u32) < dk_blocks dk))"

definition cache_inv_at :: "int set \<Rightarrow> int \<Rightarrow> lru \<Rightarrow> disk \<Rightarrow> bool" where
  "cache_inv_at X k c dk \<longleftrightarrow> free_ok k c \<and> links_ok k c \<and> (0 < k \<longrightarrow> LRU_last c \<noteq> -1) \<and>
     hash_ok k c dk \<and> slots_ok X k c dk"

definition cache_inv :: "dev \<Rightarrow> bool" where
  "cache_inv d \<longleftrightarrow> (\<exists>k. cache_inv_at {} k (dev_cache d) (dev_file d))"

text \<open>A device on a fault-free disk file with a coherent cache.\<close>

definition dev_ok :: "dev \<Rightarrow> bool" where
  "dev_ok d \<longleftrightarrow> no_faults (dev_file d) \<and> cache_inv d"

lemma hash_okD:
  assumes "hash_ok k c dk" "hashtable c b = Some s"
  shows "0 \<le> s" "s < k" "bs_id (buf_st c s) = sint b" "unat b < dk_blocks dk"
    "\<not> is_dirty (buf_st c s) \<Longrightarrow> buf_blk c s = dk_data dk b"
  using assms by (auto simp: hash_ok_def)

lemma slots_okD:
  assumes "slots_ok X k c dk" "0 \<le> s" "s < k" "s \<notin> X"
  shows "hashtable c (word_of_int (bs_id (buf_st c s))) = Some s \<or>
     (\<not> is_dirty (buf_st c s) \<and> \<not> unat (word_of_int (bs_id (buf_st c s)) :: u32) < dk_blocks dk)"
  using assms by (auto simp: slots_ok_def)

lemma cache_inv_atD:
  assumes "cache_inv_at X k c dk"
  shows "free_ok k c" "links_ok k c" "hash_ok k c dk" "slots_ok X k c dk"
    "0 < k \<Longrightarrow> LRU_last c \<noteq> -1"
  using assms by (auto simp: cache_inv_at_def)

text \<open>Moving a used slot to the front of the LRU list keeps all of it.\<close>

lemma touch_inv:
  assumes "cache_inv_at X k c dk" "0 \<le> s" "s < k"
  shows "cache_inv_at X k (LRU_add s (LRU_remove s c)) dk"
  using assms LRU_last_LRU_add[of s]
  by (auto simp: cache_inv_at_def free_ok_def hash_ok_def slots_ok_def links_ok_LRU_add
      links_ok_LRU_remove(1) links_ok_LRU_add(2)[of k] links_ok_LRU_remove(2)[of k])

lemma dev_view_touch [simp]:
  "dev_view (d\<lparr>dev_cache := LRU_add s (LRU_remove s (dev_cache d))\<rparr>) = dev_view d"
  by (rule ext) (simp add: dev_view_def split: option.split)

lemma dev_view_ios [simp]:
  "dev_view (d\<lparr>dev_file := (dev_file d)\<lparr>dk_ios := n\<rparr>\<rparr>) = dev_view d"
  by (rule ext) (simp add: dev_view_def split: option.split)

subsection \<open>Allocation of a slot\<close>

lemma alloc_free_inv:
  assumes "cache_inv_at {} k c dk" "FREE_first c \<noteq> -1"
  defines "s \<equiv> FREE_first c"
  defines "c' \<equiv> LRU_add s (LRU_remove s (set_st s bs_init (c\<lparr>FREE_first := bs_next (buf_st c s)\<rparr>)))"
  shows "cache_inv_at {s} (k + 1) c' dk" "0 \<le> s" "s < k + 1" "\<not> is_dirty (buf_st c' s)"
    "hashtable c' b \<noteq> Some s"
proof -
  let ?c = "set_st s bs_init (c\<lparr>FREE_first := bs_next (buf_st c s)\<rparr>)"
  have k: "s = k" "k < int (lru_size c)" "0 \<le> k"
    using assms by (auto simp: cache_inv_at_def free_ok_def split: if_splits)
  have "links_ok k (c\<lparr>FREE_first := bs_next (buf_st c s)\<rparr>)"
    using assms(1) by (simp add: cache_inv_at_def links_ok_def)
  then have "links_ok (k + 1) ?c"
    using k links_ok_extend by simp
  moreover have "free_ok (k + 1) ?c"
    using assms(1) k by (auto simp: cache_inv_at_def free_ok_def)
  moreover have "hash_ok (k + 1) ?c dk"
    using assms(1) k by (fastforce simp: cache_inv_at_def hash_ok_def)
  moreover have "slots_ok {s} (k + 1) ?c dk"
    using assms(1) k by (auto simp: cache_inv_at_def slots_ok_def)
  ultimately show "cache_inv_at {s} (k + 1) c' dk"
    unfolding c'_def using k LRU_last_LRU_add[of s]
    by (auto simp: cache_inv_at_def free_ok_def hash_ok_def slots_ok_def links_ok_LRU_add(1)
      links_ok_LRU_remove(1) links_ok_LRU_add(2)[of "k + 1"] links_ok_LRU_remove(2)[of "k + 1"])
  show "0 \<le> s" "s < k + 1" using k by auto
  show "\<not> is_dirty (buf_st c' s)" by (simp add: c'_def)
  show "hashtable c' b \<noteq> Some s" using assms(1) k
    by (auto simp: c'_def cache_inv_at_def hash_ok_def)
qed

lemma alloc_evict_inv:
  assumes "cache_inv_at {} k c dk" "FREE_first c = -1"
  defines "s \<equiv> LRU_last c"
  defines "b0 \<equiv> word_of_int (bs_id (buf_st c s)) :: u32"
  defines "c' \<equiv> LRU_add s (LRU_remove s
     (set_st s bs_init (c\<lparr>hashtable := (hashtable c)(b0 := None)\<rparr>)))"
  shows "cache_inv_at {s} k c' dk" "0 \<le> s" "s < k" "\<not> is_dirty (buf_st c' s)"
    "hashtable c' b \<noteq> Some s"
proof -
  let ?c = "set_st s bs_init (c\<lparr>hashtable := (hashtable c)(b0 := None)\<rparr>)"
  have k: "k = int (lru_size c)" "0 < k"
    using assms by (auto simp: cache_inv_at_def free_ok_def split: if_splits)
  then have s: "0 \<le> s" "s < k"
    using assms(1) links_okD(3,4)[of k c] by (auto simp: s_def cache_inv_at_def)
  have "links_ok k ?c" "free_ok k ?c"
    using assms(1) k s by (auto simp: cache_inv_at_def links_ok_def free_ok_def)
  moreover have "hash_ok k ?c dk"
    using assms(1) by (fastforce simp: cache_inv_at_def hash_ok_def b0_def)
  moreover have "slots_ok {s} k ?c dk"
    unfolding slots_ok_def
  proof
    fix t assume t: "t \<in> {0..<k} - {s}"
    let ?b = "word_of_int (bs_id (buf_st c t)) :: u32"
    have "?b \<noteq> b0" if "hashtable c ?b = Some t"
      using slots_okD[OF cache_inv_atD(4)[OF assms(1)] s] that t
        hash_okD(4)[OF cache_inv_atD(3)[OF assms(1)] that] unfolding b0_def by force
    then show "hashtable ?c (word_of_int (bs_id (buf_st ?c t))) = Some t \<or>
      (\<not> is_dirty (buf_st ?c t) \<and>
       \<not> unat (word_of_int (bs_id (buf_st ?c t)) :: u32) < dk_blocks dk)"
      using slots_okD[OF cache_inv_atD(4)[OF assms(1)], of t] t by auto
  qed
  ultimately show "cache_inv_at {s} k c' dk"
    unfolding c'_def using s LRU_last_LRU_add[of s]
    by (auto simp: cache_inv_at_def free_ok_def hash_ok_def slots_ok_def links_ok_LRU_add(1)
      links_ok_LRU_remove(1) links_ok_LRU_add(2)[of k] links_ok_LRU_remove(2)[of k])
  show "0 \<le> s" "s < k" by (fact s)+
  show "\<not> is_dirty (buf_st c' s)" by (simp add: c'_def)
  show "hashtable c' b \<noteq> Some s" using assms(1)
    by (auto simp: c'_def cache_inv_at_def hash_ok_def b0_def)
qed

lemma cache_inv_at_disk:
  assumes "cache_inv_at X k c dk" "dk_blocks dk' = dk_blocks dk"
    and "\<And>b s. hashtable c b = Some s \<Longrightarrow> dk_data dk' b = dk_data dk b"
  shows "cache_inv_at X k c dk'"
  using assms by (auto simp: cache_inv_at_def hash_ok_def slots_ok_def)

lemma cache_inv_at_ios [simp]:
  "cache_inv_at X k c (dk\<lparr>dk_ios := n\<rparr>) = cache_inv_at X k c dk"
  by (simp add: cache_inv_at_def hash_ok_def slots_ok_def)

text \<open>The geometry of the device, which no operation changes.\<close>

definition same_geometry :: "dev \<Rightarrow> dev \<Rightarrow> bool" where
  "same_geometry d d' \<longleftrightarrow> dev_blocks d' = dev_blocks d \<and> num_data_blocks d' = num_data_blocks d \<and>
     lru_size (dev_cache d') = lru_size (dev_cache d)"

lemma same_geometry_refl [simp]: "same_geometry d d"
  by (simp add: same_geometry_def)

lemma same_geometry_trans: "same_geometry a b \<Longrightarrow> same_geometry b c \<Longrightarrow> same_geometry a c"
  by (simp add: same_geometry_def)

text \<open>A slot just handed out: clean, and no block is hashed to it.\<close>

definition fresh_slot :: "int \<Rightarrow> int \<Rightarrow> dev \<Rightarrow> bool" where
  "fresh_slot k s d \<longleftrightarrow> 0 \<le> s \<and> s < k \<and> \<not> is_dirty (buf_st (dev_cache d) s) \<and>
     (\<forall>b. hashtable (dev_cache d) b \<noteq> Some s) \<and>
     cache_inv_at {s} k (dev_cache d) (dev_file d)"

lemma lru_alloc_free:
  assumes "cache_inv_at {} k (dev_cache d) (dev_file d)" "FREE_first (dev_cache d) \<noteq> -1"
  obtains s d' where "lru_alloc d = (kSuccess, s, d')" "fresh_slot (k + 1) s d'"
    "dev_view d' = dev_view d" "same_geometry d d'" "dev_file d' = dev_file d"
    "\<And>b. hashtable (dev_cache d) b = None \<Longrightarrow> hashtable (dev_cache d') b = None"
proof -
  define c where "c = dev_cache d"
  define s where "s = FREE_first c"
  define c' where "c' = LRU_add s (LRU_remove s
     (set_st s bs_init (c\<lparr>FREE_first := bs_next (buf_st c s)\<rparr>)))"
  note inv = alloc_free_inv[OF assms, folded c_def, folded s_def, folded c'_def]
  have h': "hashtable c' = hashtable c" "buf_blk c' = buf_blk c" "lru_size c' = lru_size c"
    by (simp_all add: c'_def)
  show ?thesis
  proof (rule that[of s "d\<lparr>dev_cache := c'\<rparr>"])
    show "lru_alloc d = (kSuccess, s, d\<lparr>dev_cache := c'\<rparr>)"
      using assms(2) by (simp add: lru_alloc_def Let_def c'_def s_def c_def)
    show "fresh_slot (k + 1) s (d\<lparr>dev_cache := c'\<rparr>)"
      using inv by (simp add: fresh_slot_def)
    show "dev_view (d\<lparr>dev_cache := c'\<rparr>) = dev_view d"
      by (rule ext) (simp add: dev_view_def h' c_def split: option.split)
  qed (simp_all add: same_geometry_def h' c_def)
qed

lemma lru_alloc_evict:
  assumes inv: "cache_inv_at {} k (dev_cache d) (dev_file d)"
    and nf: "no_faults (dev_file d)" and full: "FREE_first (dev_cache d) = -1"
  obtains s d' where "lru_alloc d = (kSuccess, s, d')" "fresh_slot k s d'"
    "dev_view d' = dev_view d" "same_geometry d d'" "no_faults (dev_file d')"
    "\<And>b. hashtable (dev_cache d) b = None \<Longrightarrow> hashtable (dev_cache d') b = None"
proof -
  define c where "c = dev_cache d"
  define dk where "dk = dev_file d"
  define s where "s = LRU_last c"
  define b0 where "b0 = (word_of_int (bs_id (buf_st c s)) :: u32)"
  define c' where "c' = LRU_add s (LRU_remove s
     (set_st s bs_init (c\<lparr>hashtable := (hashtable c)(b0 := None)\<rparr>)))"
  note inv' = alloc_evict_inv[OF inv full, folded c_def dk_def, folded s_def, folded b0_def,
      folded c'_def]
  have sk: "0 \<le> s" "s < k" using inv' by auto
  note sl = slots_okD[OF cache_inv_atD(4)[OF inv] sk, folded c_def dk_def, folded b0_def]
  have hb: "hashtable c b0 = Some s" "unat b0 < dk_blocks dk" if "is_dirty (buf_st c s)"
    using that sl hash_okD(4)[OF cache_inv_atD(3)[OF inv], folded c_def dk_def] by auto
  define dk' where "dk' = (if is_dirty (buf_st c s)
     then dk\<lparr>dk_ios := Suc (dk_ios dk), dk_data := (dk_data dk)(b0 := buf_blk c s)\<rparr> else dk)"
  let ?d = "d\<lparr>dev_cache := c', dev_file := dk'\<rparr>"
  have "(if is_dirty (buf_st c s) then write_to_disk b0 (buf_blk c s) dk else (kSuccess, dk)) =
      (kSuccess, dk')"
    using hb(2) nf write_to_disk_ok[of dk b0 "buf_blk c s"] by (auto simp: dk'_def dk_def)
  then have run: "lru_alloc d = (kSuccess, s, ?d)"
    using full sk by (simp add: lru_alloc_def Let_def c_def[symmetric] dk_def[symmetric]
        s_def[symmetric] b0_def[symmetric] c'_def[symmetric] split: if_splits)
  have h': "hashtable c' = (hashtable c)(b0 := None)" "buf_blk c' = buf_blk c"
    "lru_size c' = lru_size c"
    by (simp_all add: c'_def)
  have "cache_inv_at {s} k c' dk'"
    by (rule cache_inv_at_disk[OF inv'(1)]) (auto simp: dk'_def h')
  then have fresh: "fresh_slot k s ?d"
    using inv' by (simp add: fresh_slot_def)
  have b0: "hashtable c b0 = Some t \<Longrightarrow> t = s \<and> (is_dirty (buf_st c s) \<or> buf_blk c s = dk_data dk b0)"
    for t
    using sl hash_okD(4,5)[OF cache_inv_atD(3)[OF inv], folded c_def dk_def] by fastforce
  have view: "dev_view ?d = dev_view d"
  proof
    fix b
    show "dev_view ?d b = dev_view d b"
    proof (cases "b = b0")
      case True
      then show ?thesis
        using b0 hb(1) by (cases "hashtable c b0") (auto simp: dev_view_def h' dk'_def
            c_def[symmetric] dk_def[symmetric])
    next
      case False
      then show ?thesis
        by (simp add: dev_view_def h' dk'_def c_def[symmetric] dk_def[symmetric] split: option.split)
    qed
  qed
  show ?thesis
    by (rule that[OF run fresh view]) (use nf in \<open>auto simp: same_geometry_def h' dk'_def
      c_def[symmetric] dk_def[symmetric]\<close>)
qed

lemma lru_alloc_ok:
  assumes "cache_inv_at {} k (dev_cache d) (dev_file d)" "no_faults (dev_file d)"
  obtains s k' d' where "lru_alloc d = (kSuccess, s, d')" "fresh_slot k' s d'"
    "dev_view d' = dev_view d" "same_geometry d d'" "no_faults (dev_file d')"
    "\<And>b. hashtable (dev_cache d) b = None \<Longrightarrow> hashtable (dev_cache d') b = None"
proof (cases "FREE_first (dev_cache d) = -1")
  case True
  show ?thesis by (rule lru_alloc_evict[OF assms True]) (rule that)
next
  case False
  show ?thesis
    by (rule lru_alloc_free[OF assms(1) False], rule that, assumption+)
      (use assms(2) in simp_all)
qed

subsection \<open>Pages\<close>

text \<open>After \<open>get_page\<close> of a block of the disk, the block is hashed to the slot, which holds
  what the client saw before; a block beyond the disk leaves the view alone and fails.\<close>

lemma get_page_hit:
  assumes inv: "dev_ok d" and h: "hashtable (dev_cache d) b = Some s"
  obtains d' where "get_page b d = (kSuccess, s, d')" "dev_ok d'" "dev_view d' = dev_view d"
    "same_geometry d d'" "hashtable (dev_cache d') b = Some s"
proof -
  obtain k where k: "cache_inv_at {} k (dev_cache d) (dev_file d)" "no_faults (dev_file d)"
    using inv by (auto simp: dev_ok_def cache_inv_def)
  note sk = hash_okD(1,2)[OF cache_inv_atD(3)[OF k(1)] h]
  let ?d = "d\<lparr>dev_cache := LRU_add s (LRU_remove s (dev_cache d))\<rparr>"
  have "dev_ok ?d"
    unfolding dev_ok_def cache_inv_def using k(2) touch_inv[OF k(1) sk] by simp (rule exI)
  then show ?thesis
    by (intro that[of ?d]) (simp_all add: h get_page_def same_geometry_def)
qed

lemma get_page_miss:
  assumes inv: "dev_ok d" and h: "hashtable (dev_cache d) b = None"
    and b: "unat b < dev_blocks d"
  obtains s d' where "get_page b d = (kSuccess, s, d')" "dev_ok d'" "dev_view d' = dev_view d"
    "same_geometry d d'" "hashtable (dev_cache d') b = Some s"
proof -
  obtain k where k: "cache_inv_at {} k (dev_cache d) (dev_file d)" "no_faults (dev_file d)"
    using inv by (auto simp: dev_ok_def cache_inv_def)
  from lru_alloc_ok[OF k] obtain s k' d1 where al: "lru_alloc d = (kSuccess, s, d1)"
    "fresh_slot k' s d1" "dev_view d1 = dev_view d" "same_geometry d d1" "no_faults (dev_file d1)"
    "hashtable (dev_cache d1) b = None"
    using h by metis
  define c1 where "c1 = set_st s (\<lambda>st. st\<lparr>bs_id := sint b\<rparr>) (dev_cache d1)"
  define c2 where "c2 = c1\<lparr>buf_blk := (buf_blk c1)(s := dk_data (dev_file d1) b),
    hashtable := (hashtable c1)(b \<mapsto> s)\<rparr>"
  define dk where "dk = (dev_file d1)\<lparr>dk_ios := Suc (dk_ios (dev_file d1))\<rparr>"
  have b1: "unat b < dev_blocks d1" using b al(4) by (simp add: same_geometry_def)
  have run: "get_page b d = (kSuccess, s, d1\<lparr>dev_cache := c2, dev_file := dk\<rparr>)"
    using h al(1) read_from_disk_ok[OF no_faultsD[OF al(5)] b1]
    by (simp add: get_page_def Let_def c1_def c2_def dk_def)
  have fr: "0 \<le> s" "s < k'" "\<not> is_dirty (buf_st (dev_cache d1) s)"
    "\<And>b. hashtable (dev_cache d1) b \<noteq> Some s" "cache_inv_at {s} k' (dev_cache d1) (dev_file d1)"
    using al(2) by (auto simp: fresh_slot_def)
  have "free_ok k' c2" "links_ok k' c2" "LRU_last c2 \<noteq> -1"
    using fr cache_inv_atD[OF fr(5)]
    by (auto simp: c2_def c1_def free_ok_def links_ok_def)
  moreover have "hash_ok k' c2 dk"
    using fr b1 cache_inv_atD(3)[OF fr(5)]
    unfolding hash_ok_def by (auto simp: c2_def c1_def dk_def)
  moreover have "slots_ok {} k' c2 dk"
    unfolding slots_ok_def
  proof
    fix t assume "t \<in> {0..<k'} - {}"
    then show "hashtable c2 (word_of_int (bs_id (buf_st c2 t))) = Some t \<or>
       (\<not> is_dirty (buf_st c2 t) \<and> \<not> unat (word_of_int (bs_id (buf_st c2 t)) :: u32) < dk_blocks dk)"
      using slots_okD[OF cache_inv_atD(4)[OF fr(5)], of t] b1 al(6)
      by (auto simp: c2_def c1_def dk_def)
  qed
  ultimately have ok: "dev_ok (d1\<lparr>dev_cache := c2, dev_file := dk\<rparr>)"
    using al(5) unfolding dev_ok_def cache_inv_def cache_inv_at_def by (auto simp: dk_def)
  have view: "dev_view (d1\<lparr>dev_cache := c2, dev_file := dk\<rparr>) = dev_view d"
    using fr(4) al(6) unfolding al(3)[symmetric]
    by (auto simp: dev_view_def fun_eq_iff c2_def c1_def dk_def split: option.split)
  show ?thesis
    by (rule that[OF run ok view])
      (use al(4) in \<open>auto simp: same_geometry_def c2_def c1_def dk_def\<close>)
qed

lemma get_page_beyond:
  assumes inv: "dev_ok d" and b: "\<not> unat b < dev_blocks d"
  obtains s d' where "get_page b d = (kFail, s, d')" "dev_ok d'" "dev_view d' = dev_view d"
    "same_geometry d d'"
proof -
  obtain k where k: "cache_inv_at {} k (dev_cache d) (dev_file d)" "no_faults (dev_file d)"
    using inv by (auto simp: dev_ok_def cache_inv_def)
  have h: "hashtable (dev_cache d) b = None"
    using b hash_okD(4)[OF cache_inv_atD(3)[OF k(1)]] by (cases "hashtable (dev_cache d) b") auto
  from lru_alloc_ok[OF k] obtain s k' d1 where al: "lru_alloc d = (kSuccess, s, d1)"
    "fresh_slot k' s d1" "dev_view d1 = dev_view d" "same_geometry d d1" "no_faults (dev_file d1)"
    "hashtable (dev_cache d1) b = None"
    using h by metis
  define c1 where "c1 = set_st s (\<lambda>st. st\<lparr>bs_id := sint b\<rparr>) (dev_cache d1)"
  define dk where "dk = (dev_file d1)\<lparr>dk_ios := Suc (dk_ios (dev_file d1))\<rparr>"
  have b1: "\<not> unat b < dev_blocks d1" using b al(4) by (simp add: same_geometry_def)
  have run: "get_page b d = (kFail, s, d1\<lparr>dev_cache := c1, dev_file := dk\<rparr>)"
    using h al(1) read_from_disk_beyond[OF b1]
    by (simp add: get_page_def Let_def c1_def set_st_def dk_def)
  have fr: "0 \<le> s" "s < k'" "\<not> is_dirty (buf_st (dev_cache d1) s)"
    "\<And>b. hashtable (dev_cache d1) b \<noteq> Some s" "cache_inv_at {s} k' (dev_cache d1) (dev_file d1)"
    using al(2) by (auto simp: fresh_slot_def)
  have "free_ok k' c1" "links_ok k' c1" "LRU_last c1 \<noteq> -1"
    using fr cache_inv_atD[OF fr(5)] by (auto simp: c1_def free_ok_def links_ok_def)
  moreover have "hash_ok k' c1 dk"
    using fr cache_inv_atD(3)[OF fr(5)] unfolding hash_ok_def by (auto simp: c1_def dk_def)
  moreover have "slots_ok {} k' c1 dk"
    unfolding slots_ok_def
  proof
    fix t assume "t \<in> {0..<k'} - {}"
    then show "hashtable c1 (word_of_int (bs_id (buf_st c1 t))) = Some t \<or>
       (\<not> is_dirty (buf_st c1 t) \<and> \<not> unat (word_of_int (bs_id (buf_st c1 t)) :: u32) < dk_blocks dk)"
      using slots_okD[OF cache_inv_atD(4)[OF fr(5)], of t] b1 fr(3)
      by (auto simp: c1_def dk_def)
  qed
  ultimately have ok: "dev_ok (d1\<lparr>dev_cache := c1, dev_file := dk\<rparr>)"
    using al(5) unfolding dev_ok_def cache_inv_def cache_inv_at_def by (auto simp: dk_def)
  have view: "dev_view (d1\<lparr>dev_cache := c1, dev_file := dk\<rparr>) = dev_view d"
    unfolding al(3)[symmetric]
    by (rule ext) (simp add: dev_view_def c1_def dk_def split: option.split)
  show ?thesis
    by (rule that[OF run ok view]) (use al(4) in \<open>auto simp: same_geometry_def c1_def dk_def\<close>)
qed

lemma dev_view_eqI:
  assumes "\<And>b. hashtable (dev_cache d') b = hashtable (dev_cache d) b"
    and "\<And>b s. hashtable (dev_cache d) b = Some s \<Longrightarrow> buf_blk (dev_cache d') s = buf_blk (dev_cache d) s"
    and "\<And>b. hashtable (dev_cache d) b = None \<Longrightarrow> dk_data (dev_file d') b = dk_data (dev_file d) b"
  shows "dev_view d' = dev_view d"
  by (rule ext) (simp add: dev_view_def assms split: option.split)

lemma get_page_ok:
  assumes "dev_ok d" "unat b < dev_blocks d"
  obtains s d' where "get_page b d = (kSuccess, s, d')" "dev_ok d'" "dev_view d' = dev_view d"
    "same_geometry d d'" "hashtable (dev_cache d') b = Some s"
proof (cases "hashtable (dev_cache d) b")
  case None
  show ?thesis by (rule get_page_miss[OF assms(1) None assms(2)]) (rule that)
next
  case (Some s)
  show ?thesis by (rule get_page_hit[OF assms(1) Some]) (rule that)
qed

text \<open>Overwriting the contents of a hashed slot and marking it dirty.\<close>

lemma store_slot:
  assumes ok: "dev_ok d" and h: "hashtable (dev_cache d) b = Some s"
    and c': "c' = (dev_cache d)\<lparr>buf_blk := (buf_blk (dev_cache d))(s := blk), buf_st := st'\<rparr>"
    and st: "\<And>i. bs_id (st' i) = bs_id (buf_st (dev_cache d) i)"
      "\<And>i. bs_next (st' i) = bs_next (buf_st (dev_cache d) i)"
      "\<And>i. bs_prev (st' i) = bs_prev (buf_st (dev_cache d) i)"
      "\<And>i. is_dirty (st' i) \<longleftrightarrow> i = s \<or> is_dirty (buf_st (dev_cache d) i)"
  shows "dev_ok (d\<lparr>dev_cache := c'\<rparr>)" "dev_view (d\<lparr>dev_cache := c'\<rparr>) = (dev_view d)(b := blk)"
proof -
  obtain k where k: "cache_inv_at {} k (dev_cache d) (dev_file d)" "no_faults (dev_file d)"
    using ok by (auto simp: dev_ok_def cache_inv_def)
  note ho = hash_okD[OF cache_inv_atD(3)[OF k(1)]]
  have inj: "b' = b" if "hashtable (dev_cache d) b' = Some s" for b'
    using ho(3)[OF that] ho(3)[OF h] by (simp add: sint_inject_u32)
  have "free_ok k c'" "links_ok k c'" "LRU_last c' = LRU_last (dev_cache d)"
    using cache_inv_atD[OF k(1)] ho(1,2)[OF h] by (auto simp: c' free_ok_def links_ok_def st)
  moreover have "hash_ok k c' (dev_file d)"
    unfolding hash_ok_def using ho by (auto simp: c' st)
  moreover have "slots_ok {} k c' (dev_file d)"
    unfolding slots_ok_def
  proof
    fix t assume "t \<in> {0..<k} - {}"
    then show "hashtable c' (word_of_int (bs_id (buf_st c' t))) = Some t \<or>
       (\<not> is_dirty (buf_st c' t) \<and> \<not> unat (word_of_int (bs_id (buf_st c' t)) :: u32) < dev_blocks d)"
      using slots_okD[OF cache_inv_atD(4)[OF k(1)], of t] h ho(3)[OF h] by (auto simp: c' st)
  qed
  ultimately have "cache_inv_at {} k c' (dev_file d)"
    using cache_inv_atD(5)[OF k(1)] by (simp add: cache_inv_at_def)
  then show "dev_ok (d\<lparr>dev_cache := c'\<rparr>)"
    using k(2) by (auto simp: dev_ok_def cache_inv_def)
  show "dev_view (d\<lparr>dev_cache := c'\<rparr>) = (dev_view d)(b := blk)"
  proof
    fix b'
    show "dev_view (d\<lparr>dev_cache := c'\<rparr>) b' = ((dev_view d)(b := blk)) b'"
      using h inj[of b'] by (cases "hashtable (dev_cache d) b'") (auto simp: dev_view_def c')
  qed
qed

lemma lru_upsert_ok:
  assumes "dev_ok d" "unat b < dev_blocks d"
  obtains d' where "lru_upsert b blk d = (kSuccess, d')" "dev_ok d'"
    "dev_view d' = (dev_view d)(b := blk)" "same_geometry d d'"
    "hashtable (dev_cache d') b \<noteq> None"
proof -
  from get_page_ok[OF assms] obtain s d1 where g: "get_page b d = (kSuccess, s, d1)" "dev_ok d1"
    "dev_view d1 = dev_view d" "same_geometry d d1" "hashtable (dev_cache d1) b = Some s"
    by blast
  define st' where "st' = (if is_dirty (buf_st (dev_cache d1) s) then buf_st (dev_cache d1)
     else (buf_st (dev_cache d1))(s := rev_dirty (buf_st (dev_cache d1) s)))"
  define c' where "c' = (dev_cache d1)\<lparr>buf_blk := (buf_blk (dev_cache d1))(s := blk), buf_st := st'\<rparr>"
  have "dev_ok (d1\<lparr>dev_cache := c'\<rparr>)" "dev_view (d1\<lparr>dev_cache := c'\<rparr>) = (dev_view d1)(b := blk)"
    by (rule store_slot[OF g(2,5) c'_def]; auto simp: st'_def)+
  moreover have "lru_upsert b blk d = (kSuccess, d1\<lparr>dev_cache := c'\<rparr>)"
    by (simp add: lru_upsert_def g(1) Let_def c'_def st'_def set_st_def)
  ultimately show ?thesis
    using g by (intro that[of "d1\<lparr>dev_cache := c'\<rparr>"]) (auto simp: same_geometry_def c'_def)
qed

lemma lru_upsert_beyond:
  assumes "dev_ok d" "\<not> unat b < dev_blocks d"
  obtains d' where "lru_upsert b blk d = (kFail, d')" "dev_ok d'" "dev_view d' = dev_view d"
    "same_geometry d d'"
  by (rule get_page_beyond[OF assms], rule that) (simp_all add: lru_upsert_def)

lemma lru_get_hit:
  assumes "dev_ok d" "hashtable (dev_cache d) b = Some s"
  obtains d' where "lru_get b buf d = (kSuccess, dev_view d b, d')" "dev_ok d'"
    "dev_view d' = dev_view d" "same_geometry d d'"
proof -
  from get_page_hit[OF assms] obtain d' where d': "get_page b d = (kSuccess, s, d')" "dev_ok d'"
    "dev_view d' = dev_view d" "same_geometry d d'" by blast
  then show ?thesis
    using assms(2) by (intro that[of d']) (auto simp: lru_get_def get_page_def dev_view_def)
qed

lemma lru_get_miss: "hashtable (dev_cache d) b = None \<Longrightarrow> lru_get b buf d = (kFail, buf, d)"
  by (simp add: lru_get_def)

subsection \<open>Write-back\<close>

text \<open>Writing a cached block to the disk keeps the cache coherent, and so does marking the slot clean
  afterwards.\<close>

lemma write_back_inv:
  assumes inv: "cache_inv_at {} k c dk" and h: "hashtable c b = Some s"
    and dk': "dk_blocks dk' = dk_blocks dk" "dk_data dk' = (dk_data dk)(b := buf_blk c s)"
  shows "cache_inv_at {} k c dk'"
    "is_dirty (buf_st c s) \<Longrightarrow> cache_inv_at {} k (set_st s rev_dirty c) dk'"
proof -
  note I = cache_inv_atD[OF inv] and H = hash_okD[OF cache_inv_atD(3)[OF inv]]
  have inj: "b' = b" if "hashtable c b' = Some s" for b'
    using H(3)[OF that] H(3)[OF h] by (simp add: sint_inject_u32)
  have data: "buf_blk c t = dk_data dk' b'" if t: "hashtable c b' = Some t" "is_dirty (buf_st c t) \<longrightarrow> t = s" for b' t
  proof (cases "t = s")
    case True
    then have "b' = b" using inj t(1) by simp
    then show ?thesis using True by (simp add: dk'(2))
  next
    case False
    then have "b' \<noteq> b" using h t(1) by auto
    then show ?thesis using H(5)[OF t(1)] t(2) False by (simp add: dk'(2))
  qed
  have "hash_ok k c dk'"
    unfolding hash_ok_def dk'(1) using H(1-4) data by blast
  then show "cache_inv_at {} k c dk'" using I by (simp add: cache_inv_at_def slots_ok_def dk'(1))
  assume d: "is_dirty (buf_st c s)"
  let ?c = "set_st s rev_dirty c"
  have "free_ok k ?c" "links_ok k ?c" "0 < k \<longrightarrow> LRU_last ?c \<noteq> -1"
    using I H(1,2)[OF h] by (auto simp: free_ok_def links_ok_def)
  moreover have "hash_ok k ?c dk'"
  proof (unfold hash_ok_def, intro allI impI)
    fix b' t assume "hashtable ?c b' = Some t"
    then have t: "hashtable c b' = Some t" by simp
    show "0 \<le> t \<and> t < k \<and> bs_id (buf_st ?c t) = sint b' \<and> unat b' < dk_blocks dk' \<and>
        (is_dirty (buf_st ?c t) \<or> buf_blk ?c t = dk_data dk' b')"
      using H(1-4)[OF t] data[OF t] d by (cases "t = s") (auto simp: dk'(1))
  qed
  moreover have "slots_ok {} k ?c dk'"
    unfolding slots_ok_def
  proof
    fix t assume "t \<in> {0..<k} - {}"
    then show "hashtable ?c (word_of_int (bs_id (buf_st ?c t))) = Some t \<or>
      (\<not> is_dirty (buf_st ?c t) \<and> \<not> unat (word_of_int (bs_id (buf_st ?c t)) :: u32) < dk_blocks dk')"
      using slots_okD[OF I(4), of t] d by (auto simp: dk'(1))
  qed
  ultimately show "cache_inv_at {} k ?c dk'" by (simp add: cache_inv_at_def)
qed

text \<open>\<open>sync\<close> of a cached block brings the disk up to date for that block; of any other
  block it fails without effect.\<close>

lemma lru_sync_hit:
  assumes ok: "dev_ok d" and h: "hashtable (dev_cache d) b = Some s"
  obtains d' where "lru_sync b d = (kSuccess, d')" "dev_ok d'" "dev_view d' = dev_view d"
    "same_geometry d d'" "dk_data (dev_file d') b = dev_view d b"
    "\<And>b'. hashtable (dev_cache d') b' = hashtable (dev_cache d) b'"
proof -
  obtain k where k: "cache_inv_at {} k (dev_cache d) (dev_file d)" "no_faults (dev_file d)"
    using ok by (auto simp: dev_ok_def cache_inv_def)
  note ho = hash_okD[OF cache_inv_atD(3)[OF k(1)]]
  define c where "c = LRU_add s (LRU_remove s (dev_cache d))"
  have c: "hashtable c = hashtable (dev_cache d)" "buf_blk c = buf_blk (dev_cache d)"
    "lru_size c = lru_size (dev_cache d)"
    "\<And>i. is_dirty (buf_st c i) = is_dirty (buf_st (dev_cache d) i)"
    by (simp_all add: c_def)
  have inv: "cache_inv_at {} k c (dev_file d)"
    unfolding c_def by (rule touch_inv[OF k(1) ho(1,2)[OF h]])
  show ?thesis
  proof (cases "is_dirty (buf_st c s)")
    case False
    then have "dk_data (dev_file d) b = dev_view d b"
      using ho(5)[OF h] h by (simp add: c dev_view_def)
    moreover have "dev_view (d\<lparr>dev_cache := c\<rparr>) = dev_view d"
      by (rule dev_view_eqI) (simp_all add: c)
    moreover have "dev_ok (d\<lparr>dev_cache := c\<rparr>)"
      using inv k(2) by (auto simp: dev_ok_def cache_inv_def)
    ultimately show ?thesis
      using False h by (intro that[of "d\<lparr>dev_cache := c\<rparr>"])
        (simp_all add: lru_sync_def c_def[symmetric] Let_def same_geometry_def c)
  next
    case True
    define c1 where "c1 = set_st s rev_dirty c"
    define dk where "dk = (dev_file d)\<lparr>dk_ios := Suc (dk_ios (dev_file d)),
      dk_data := (dk_data (dev_file d))(b := buf_blk c s)\<rparr>"
    have run: "lru_sync b d = (kSuccess, d\<lparr>dev_cache := c1, dev_file := dk\<rparr>)"
      using True h write_to_disk_ok[OF no_faultsD[OF k(2)] ho(4)[OF h]]
      by (simp add: lru_sync_def c_def[symmetric] Let_def c1_def dk_def)
    have "cache_inv_at {} k c1 dk"
      unfolding c1_def by (rule write_back_inv(2)[OF inv _ _ _ True]) (use h in \<open>simp_all add: dk_def c\<close>)
    then have "dev_ok (d\<lparr>dev_cache := c1, dev_file := dk\<rparr>)"
      unfolding dev_ok_def cache_inv_def using k(2) by (auto simp: dk_def)
    moreover have "dev_view (d\<lparr>dev_cache := c1, dev_file := dk\<rparr>) = dev_view d"
      by (rule dev_view_eqI) (use h in \<open>auto simp: c1_def c dk_def\<close>)
    ultimately show ?thesis
      using h by (intro that[OF run])
        (auto simp: same_geometry_def c1_def dk_def dev_view_def c simp del: LRU_add_frame)
  qed
qed

lemma lru_sync_miss: "hashtable (dev_cache d) b = None \<Longrightarrow> lru_sync b d = (kFail, d)"
  by (simp add: lru_sync_def)

text \<open>Writing back one dirty slot without touching the cache.\<close>

lemma write_back_slot:
  assumes ok: "dev_ok d" and i: "i < lru_size (dev_cache d)"
    and dirty: "is_dirty (buf_st (dev_cache d) (int i))"
  obtains b d' where "b = word_of_int (bs_id (buf_st (dev_cache d) (int i)))"
    "hashtable (dev_cache d) b = Some (int i)"
    "write_to_disk b (buf_blk (dev_cache d) (int i)) (dev_file d) = (kSuccess, dev_file d')"
    "d' = d\<lparr>dev_file := dev_file d'\<rparr>" "dev_ok d'" "dev_view d' = dev_view d" "same_geometry d d'"
    "dk_data (dev_file d') = (dk_data (dev_file d))(b := buf_blk (dev_cache d) (int i))"
proof -
  obtain k where k: "cache_inv_at {} k (dev_cache d) (dev_file d)" "no_faults (dev_file d)"
    using ok by (auto simp: dev_ok_def cache_inv_def)
  define b where "b = (word_of_int (bs_id (buf_st (dev_cache d) (int i))) :: u32)"
  have "int i < k"
    using cache_inv_atD(1)[OF k(1)] i dirty by (force simp: free_ok_def)
  then have h: "hashtable (dev_cache d) b = Some (int i)"
    using slots_okD[OF cache_inv_atD(4)[OF k(1)], of "int i"] dirty by (simp add: b_def)
  note ho = hash_okD[OF cache_inv_atD(3)[OF k(1)]]
  define dk where "dk = (dev_file d)\<lparr>dk_ios := Suc (dk_ios (dev_file d)),
      dk_data := (dk_data (dev_file d))(b := buf_blk (dev_cache d) (int i))\<rparr>"
  have "cache_inv_at {} k (dev_cache d) dk"
    by (rule write_back_inv(1)[OF k(1) h]) (simp_all add: dk_def)
  then have ok': "dev_ok (d\<lparr>dev_file := dk\<rparr>)"
    using k(2) by (auto simp: dev_ok_def cache_inv_def dk_def)
  have view: "dev_view (d\<lparr>dev_file := dk\<rparr>) = dev_view d"
    by (rule dev_view_eqI) (use h in \<open>auto simp: dk_def\<close>)
  have "write_to_disk b (buf_blk (dev_cache d) (int i)) (dev_file d) = (kSuccess, dk)"
    using write_to_disk_ok[OF no_faultsD[OF k(2)] ho(4)[OF h]] by (simp add: dk_def)
  then show ?thesis
    using h ok' view by (intro that[of b "d\<lparr>dev_file := dk\<rparr>"])
      (simp_all add: b_def same_geometry_def dk_def)
qed

lemma lru_sync_slots_ok:
  assumes "dev_ok d" "set js \<subseteq> {..<lru_size (dev_cache d)}"
  shows "\<exists>d'. lru_sync_slots js d = (kSuccess, d') \<and> dev_ok d' \<and> dev_view d' = dev_view d \<and>
     same_geometry d d' \<and> dev_cache d' = dev_cache d \<and>
     (\<forall>b s. hashtable (dev_cache d) b = Some s \<longrightarrow>
        nat s \<in> set js \<or> dk_data (dev_file d) b = buf_blk (dev_cache d) s \<longrightarrow>
        dk_data (dev_file d') b = buf_blk (dev_cache d) s)"
  using assms
proof (induction js arbitrary: d)
  case Nil
  then show ?case by auto
next
  case (Cons i js)
  obtain k where k: "cache_inv_at {} k (dev_cache d) (dev_file d)"
    using Cons.prems(1) by (auto simp: dev_ok_def cache_inv_def)
  note ho = hash_okD[OF cache_inv_atD(3)[OF k]]
  show ?case
  proof (cases "is_dirty (buf_st (dev_cache d) (int i))")
    case False
    then have clean: "dk_data (dev_file d) b = buf_blk (dev_cache d) s"
      if "hashtable (dev_cache d) b = Some s" "nat s = i" for b s
      using ho(1,5)[OF that(1)] that(2) by auto
    have "lru_sync_slots (i # js) d = lru_sync_slots js d" using False by simp
    moreover have "set js \<subseteq> {..<lru_size (dev_cache d)}" using Cons.prems(2) by simp
    ultimately show ?thesis
      using Cons.IH[OF Cons.prems(1)] clean by (metis list.set_intros set_ConsD)
  next
    case True
    have "i < lru_size (dev_cache d)" using Cons.prems(2) by simp
    from write_back_slot[OF Cons.prems(1) this True] obtain b0 d1 where
      b0: "b0 = word_of_int (bs_id (buf_st (dev_cache d) (int i)))"
      "hashtable (dev_cache d) b0 = Some (int i)"
      "write_to_disk b0 (buf_blk (dev_cache d) (int i)) (dev_file d) = (kSuccess, dev_file d1)"
      "d1 = d\<lparr>dev_file := dev_file d1\<rparr>" and d1: "dev_ok d1" "dev_view d1 = dev_view d"
      "same_geometry d d1"
      "dk_data (dev_file d1) = (dk_data (dev_file d))(b0 := buf_blk (dev_cache d) (int i))" .
    have c1: "dev_cache d1 = dev_cache d" by (subst b0(4)) simp
    have "lru_sync_slots (i # js) d = lru_sync_slots js (d\<lparr>dev_file := dev_file d1\<rparr>)"
      using True b0(3) unfolding b0(1) by (simp add: Let_def kSuccess_def)
    then have step: "lru_sync_slots (i # js) d = lru_sync_slots js d1" using b0(4) by simp
    have "set js \<subseteq> {..<lru_size (dev_cache d1)}" using Cons.prems(2) by (simp add: c1)
    from Cons.IH[OF d1(1) this] obtain d' where d': "lru_sync_slots js d1 = (kSuccess, d')"
      "dev_ok d'" "dev_view d' = dev_view d1" "same_geometry d1 d'" "dev_cache d' = dev_cache d1"
      "\<forall>b s. hashtable (dev_cache d1) b = Some s \<longrightarrow>
        nat s \<in> set js \<or> dk_data (dev_file d1) b = buf_blk (dev_cache d1) s \<longrightarrow>
        dk_data (dev_file d') b = buf_blk (dev_cache d1) s" by blast
    have "dk_data (dev_file d') b = buf_blk (dev_cache d) s"
      if hb: "hashtable (dev_cache d) b = Some s"
        and c: "nat s \<in> set (i # js) \<or> dk_data (dev_file d) b = buf_blk (dev_cache d) s" for b s
    proof -
      have "nat s \<in> set js \<or> dk_data (dev_file d1) b = buf_blk (dev_cache d) s"
      proof (cases "s = int i")
        case True
        then have "b = b0" using ho(3)[OF hb] ho(3)[OF b0(2)] by (simp add: sint_inject_u32)
        then show ?thesis using True by (simp add: d1(4))
      next
        case False
        then have "nat s \<noteq> i" "b \<noteq> b0" using ho(1)[OF hb] hb b0(2) by auto
        then show ?thesis using c by (auto simp: d1(4))
      qed
      then show ?thesis using d'(6) hb by (auto simp: c1)
    qed
    then show ?thesis
      using step d'(1-5) d1(2) same_geometry_trans[OF d1(3) d'(4)] c1 by auto
  qed
qed

lemma lru_sync_all_ok:
  assumes "dev_ok d"
  obtains d' where "lru_sync_all d = (kSuccess, d')" "dev_ok d'" "dev_view d' = dev_view d"
    "same_geometry d d'" "dk_data (dev_file d') = dev_view d'"
proof -
  obtain k where k: "cache_inv_at {} k (dev_cache d) (dev_file d)"
    using assms by (auto simp: dev_ok_def cache_inv_def)
  have all: "set [0..<lru_size (dev_cache d)] \<subseteq> {..<lru_size (dev_cache d)}" by auto
  from lru_sync_slots_ok[OF assms all] obtain d' where d': "lru_sync_all d = (kSuccess, d')"
    "dev_ok d'" "dev_view d' = dev_view d" "same_geometry d d'" "dev_cache d' = dev_cache d"
    "\<And>b s. hashtable (dev_cache d) b = Some s \<Longrightarrow> nat s < lru_size (dev_cache d) \<Longrightarrow>
        dk_data (dev_file d') b = buf_blk (dev_cache d) s"
    unfolding lru_sync_all_def by fastforce
  have "dk_data (dev_file d') b = dev_view d' b" for b
  proof (cases "hashtable (dev_cache d) b")
    case None
    then show ?thesis by (simp add: dev_view_def d'(5))
  next
    case (Some s)
    have "nat s < lru_size (dev_cache d)"
      using hash_okD(1,2)[OF cache_inv_atD(3)[OF k] Some] cache_inv_atD(1)[OF k]
      by (auto simp: free_ok_def)
    then show ?thesis using d'(6)[OF Some] Some by (simp add: dev_view_def d'(5))
  qed
  then show ?thesis using d' by (intro that) auto
qed

subsection \<open>The constructor\<close>

lemma LRUCacheManager_inv:
  assumes "kBlockSize \<le> cache_size"
  shows "cache_inv_at {} 0 (LRUCacheManager junk cache_size) dk"
  using assms
  by (auto simp: LRUCacheManager_def Let_def cache_inv_at_def free_ok_def links_ok_def hash_ok_def
      slots_ok_def is_dirty_def kBlockSize_def div_greater_zero_iff)

lemma hashtable_LRUCacheManager [simp]: "hashtable (LRUCacheManager junk n) = Map.empty"
  by (simp add: LRUCacheManager_def Let_def)

end
