(* ===== verification/Blk_Dev.thy ===== *)
theory Blk_Dev
  imports Lru_Cache
begin

text \<open>
  \<open>class BlockDevice\<close> of \<open>src/blk_dev.cpp\<close> in its two builds: with \<open>BLOCK_CACHE\<close> defined
  (as \<open>CMakeLists.txt\<close> does) the cache manager is the \<open>LRUCacheManager\<close> of theory
  \<open>Lru_Cache\<close>, without it the pass-through \<open>BlockCacheManager\<close> of \<open>src/blk_cache.cpp\<close>.

  The contract both builds give to the layers above is the locale \<open>block_store\<close>: reads
  return the view, writes update it at one block. It is interpreted on both builds, and
  client lemmas about sequences of accesses are proved once in the locale.
\<close>

section \<open>The cached device\<close>

text \<open>The constructor on a disk file that opened; \<open>sz\<close> is the size in bytes.\<close>

definition BlockDevice :: "(int \<Rightarrow> block) \<Rightarrow> disk \<Rightarrow> nat \<Rightarrow> dev" where
  "BlockDevice junk dk sz =
     \<lparr>dev_cache = LRUCacheManager junk kBlockCacheSize,
      dev_file = ftruncate (sz div kBlockSize) dk,
      num_data_blocks = of_nat (sz div kBlockSize)\<rparr>"

definition dev_read :: "blk_id_t \<Rightarrow> block \<Rightarrow> dev \<Rightarrow> int \<times> block \<times> dev" where
  "dev_read block_id buf d =
     (let (r, b, d1) = lru_get block_id buf d in
      if r = kFail then
        (let (ok, b1, dk) = pread_blk block_id b (dev_file d1);
             d2 = d1\<lparr>dev_file := dk\<rparr>
         in if \<not> ok then (kFail, b1, d2)
            else (let (_, d3) = lru_upsert block_id b1 d2 in (kSuccess, b1, d3)))
      else (kSuccess, b, d1))"

definition dev_write :: "blk_id_t \<Rightarrow> block \<Rightarrow> dev \<Rightarrow> int \<times> dev" where
  "dev_write block_id buf d =
     (let (r, d1) = lru_upsert block_id buf d in
      if r = kFail then (kFail, d1) else (kSuccess, d1))"

text \<open>The loop of \<open>write_tx\<close> over the indices still to do.\<close>

fun write_tx_from :: "nat list \<Rightarrow> blk_id_t list \<Rightarrow> block list \<Rightarrow> dev \<Rightarrow> int \<times> dev" where
  "write_tx_from [] block_ids bufs d = (kSuccess, d)"
| "write_tx_from (i # js) block_ids bufs d =
     (let (r, d1) = dev_write (block_ids ! i) (bufs ! i) d in
      if r = kFail then (kFail, d1) else write_tx_from js block_ids bufs d1)"

definition write_tx :: "blk_id_t list \<Rightarrow> block list \<Rightarrow> dev \<Rightarrow> int \<times> dev" where
  "write_tx block_ids bufs d = write_tx_from [0..<length block_ids] block_ids bufs d"

definition dev_sync :: "blk_id_t \<Rightarrow> dev \<Rightarrow> int \<times> dev" where
  "dev_sync block_id d = lru_sync block_id d"

definition dev_sync_all :: "dev \<Rightarrow> int \<times> dev" where
  "dev_sync_all d = lru_sync_all d"

section \<open>The uncached device\<close>

text \<open>\<open>BlockCacheManager\<close> keeps no blocks: its state is the disk file of its parent.\<close>

definition bcm_upsert :: "blk_id_t \<Rightarrow> block \<Rightarrow> disk \<Rightarrow> int \<times> disk" where
  "bcm_upsert block_id blk dk = (let (_, dk1) = write_to_disk block_id blk dk in (kSuccess, dk1))"

definition bcm_get :: "blk_id_t \<Rightarrow> block \<Rightarrow> disk \<Rightarrow> int \<times> block \<times> disk" where
  "bcm_get block_id blk dk = (kFail, blk, dk)"

definition bcm_remove :: "blk_id_t \<Rightarrow> disk \<Rightarrow> int \<times> disk" where
  "bcm_remove block_id dk = (kSuccess, dk)"

definition bcm_sync :: "blk_id_t \<Rightarrow> disk \<Rightarrow> int \<times> disk" where
  "bcm_sync block_id dk = (kSuccess, dk)"

definition bcm_sync_all :: "disk \<Rightarrow> int \<times> disk" where
  "bcm_sync_all dk = (kSuccess, dk)"

text \<open>\<open>BlockDevice::read\<close> and \<open>write\<close> compiled with that manager.\<close>

definition raw_read :: "blk_id_t \<Rightarrow> block \<Rightarrow> disk \<Rightarrow> int \<times> block \<times> disk" where
  "raw_read block_id buf dk =
     (let (r, b, dk1) = bcm_get block_id buf dk in
      if r = kFail then
        (let (ok, b1, dk2) = pread_blk block_id b dk1
         in if \<not> ok then (kFail, b1, dk2)
            else (let (_, dk3) = bcm_upsert block_id b1 dk2 in (kSuccess, b1, dk3)))
      else (kSuccess, b, dk1))"

definition raw_write :: "blk_id_t \<Rightarrow> block \<Rightarrow> disk \<Rightarrow> int \<times> disk" where
  "raw_write block_id buf dk =
     (let (r, dk1) = bcm_upsert block_id buf dk in
      if r = kFail then (kFail, dk1) else (kSuccess, dk1))"

section \<open>The contract of a block device\<close>

text \<open>A client's sequence of accesses, and its outcome on a plain map of blocks: the blocks
  the reads return, and the map afterwards.\<close>

datatype access = Read blk_id_t | Write blk_id_t block

fun access_id :: "access \<Rightarrow> blk_id_t" where
  "access_id (Read b) = b"
| "access_id (Write b blk) = b"

fun map_run :: "access list \<Rightarrow> (blk_id_t \<Rightarrow> block) \<Rightarrow> block list \<times> (blk_id_t \<Rightarrow> block)" where
  "map_run [] m = ([], m)"
| "map_run (Read b # as) m = (let (bs, m') = map_run as m in (m b # bs, m'))"
| "map_run (Write b blk # as) m = map_run as (m(b := blk))"

text \<open>The same sequence on a device with operations \<open>rd\<close> and \<open>wr\<close>; the client stops with
  \<open>None\<close> at the first access that fails. The buffer passed to a read is \<open>buf\<close>.\<close>

fun dev_run ::
  "(blk_id_t \<Rightarrow> block \<Rightarrow> 'd \<Rightarrow> int \<times> block \<times> 'd) \<Rightarrow> (blk_id_t \<Rightarrow> block \<Rightarrow> 'd \<Rightarrow> int \<times> 'd) \<Rightarrow>
   block \<Rightarrow> access list \<Rightarrow> 'd \<Rightarrow> (block list \<times> 'd) option" where
  "dev_run rd wr buf [] d = Some ([], d)"
| "dev_run rd wr buf (Read b # as) d =
     (case rd b buf d of (r, x, d1) \<Rightarrow>
        if r = kFail then None
        else map_option (\<lambda>(bs, d'). (x # bs, d')) (dev_run rd wr buf as d1))"
| "dev_run rd wr buf (Write b blk # as) d =
     (case wr b blk d of (r, d1) \<Rightarrow> if r = kFail then None else dev_run rd wr buf as d1)"

locale block_store =
  fixes rd :: "blk_id_t \<Rightarrow> block \<Rightarrow> 'd \<Rightarrow> int \<times> block \<times> 'd"
    and wr :: "blk_id_t \<Rightarrow> block \<Rightarrow> 'd \<Rightarrow> int \<times> 'd"
    and view :: "'d \<Rightarrow> blk_id_t \<Rightarrow> block"
    and blocks :: "'d \<Rightarrow> nat"
    and ok :: "'d \<Rightarrow> bool"
  assumes rd_spec: "ok d \<Longrightarrow> unat b < blocks d \<Longrightarrow>
      \<exists>d'. rd b buf d = (kSuccess, view d b, d') \<and> ok d' \<and> view d' = view d \<and> blocks d' = blocks d"
    and wr_spec: "ok d \<Longrightarrow> unat b < blocks d \<Longrightarrow>
      \<exists>d'. wr b blk d = (kSuccess, d') \<and> ok d' \<and> view d' = (view d)(b := blk) \<and> blocks d' = blocks d"
begin

lemma run_refines:
  assumes "ok d" "\<forall>a \<in> set as. unat (access_id a) < blocks d"
  shows "\<exists>d'. dev_run rd wr buf as d = Some (fst (map_run as (view d)), d') \<and> ok d' \<and>
     view d' = snd (map_run as (view d)) \<and> blocks d' = blocks d"
  using assms
proof (induction as arbitrary: d)
  case Nil
  then show ?case by simp
next
  case (Cons a as)
  show ?case
  proof (cases a)
    case (Read b)
    with rd_spec[of d b buf] Cons.prems obtain d1 where d1: "rd b buf d = (kSuccess, view d b, d1)"
      "ok d1" "view d1 = view d" "blocks d1 = blocks d" by auto
    from Cons.IH[of d1] d1 Cons.prems obtain d' where
      "dev_run rd wr buf as d1 = Some (fst (map_run as (view d)), d')" "ok d'"
      "view d' = snd (map_run as (view d))" "blocks d' = blocks d" by auto
    then show ?thesis by (simp add: Read d1(1) split: prod.split)
  next
    case (Write b blk)
    with wr_spec[of d b blk] Cons.prems obtain d1 where d1: "wr b blk d = (kSuccess, d1)"
      "ok d1" "view d1 = (view d)(b := blk)" "blocks d1 = blocks d" by auto
    have "\<forall>a \<in> set as. unat (access_id a) < blocks d1" using Cons.prems(2) d1(4) by simp
    from Cons.IH[OF d1(2) this] obtain d' where
      "dev_run rd wr buf as d1 = Some (fst (map_run as ((view d)(b := blk))), d')" "ok d'"
      "view d' = snd (map_run as ((view d)(b := blk)))" "blocks d' = blocks d"
      unfolding d1(3,4) by blast
    then show ?thesis by (simp add: Write d1(1))
  qed
qed

lemma read_after_write:
  assumes "ok d" "unat b < blocks d" "unat b' < blocks d"
  shows "\<exists>d1 d2. wr b blk d = (kSuccess, d1) \<and>
     rd b' buf d1 = (kSuccess, if b' = b then blk else view d b', d2)"
proof -
  from wr_spec[OF assms(1,2), of blk] obtain d1 where d1: "wr b blk d = (kSuccess, d1)" "ok d1"
    "view d1 = (view d)(b := blk)" "blocks d1 = blocks d" by blast
  with rd_spec[of d1 b' buf] assms(3) show ?thesis by auto
qed

end

text \<open>Two devices with the same contract and the same contents cannot be told apart.\<close>

locale two_block_stores =
  A: block_store rd wr view blocks ok + B: block_store rd' wr' view' blocks' ok'
  for rd :: "blk_id_t \<Rightarrow> block \<Rightarrow> 'd \<Rightarrow> int \<times> block \<times> 'd" and wr view blocks ok
    and rd' :: "blk_id_t \<Rightarrow> block \<Rightarrow> 'e \<Rightarrow> int \<times> block \<times> 'e" and wr' view' blocks' ok'
begin

lemma same_results:
  assumes "ok d" "ok' e" "view d = view' e"
    and "\<forall>a \<in> set as. unat (access_id a) < blocks d \<and> unat (access_id a) < blocks' e"
  shows "\<exists>bs d' e'. dev_run rd wr buf as d = Some (bs, d') \<and> dev_run rd' wr' buf as e = Some (bs, e') \<and>
     view d' = view' e'"
  using A.run_refines[OF assms(1), of as buf] B.run_refines[OF assms(2), of as buf] assms(3,4)
  by auto

end

section \<open>The cached device keeps the contract\<close>

lemma dev_read_ok:
  assumes "dev_ok d" "unat b < dev_blocks d"
  obtains d' where "dev_read b buf d = (kSuccess, dev_view d b, d')" "dev_ok d'"
    "dev_view d' = dev_view d" "same_geometry d d'" "hashtable (dev_cache d') b \<noteq> None"
proof (cases "hashtable (dev_cache d) b")
  case (Some s)
  show ?thesis
  proof (rule lru_get_hit[OF assms(1) Some, of buf])
    fix d' assume "lru_get b buf d = (kSuccess, dev_view d b, d')" "dev_ok d'"
      "dev_view d' = dev_view d" "same_geometry d d'"
    with Some show ?thesis
      by (intro that[of d']) (auto simp: dev_read_def lru_get_def)
  qed
next
  case None
  define d1 where "d1 = d\<lparr>dev_file := (dev_file d)\<lparr>dk_ios := Suc (dk_ios (dev_file d))\<rparr>\<rparr>"
  have d1: "dev_ok d1" "dev_view d1 = dev_view d" "same_geometry d d1" "dev_blocks d1 = dev_blocks d"
    using assms(1) by (auto simp: d1_def dev_ok_def cache_inv_def same_geometry_def)
  have "pread_blk b buf (dev_file d) = (True, dev_view d b, dev_file d1)"
    using assms None by (auto simp: pread_blk_def dev_view_def d1_def dev_ok_def no_faults_def)
  moreover have "d\<lparr>dev_file := dev_file d1\<rparr> = d1" by (simp add: d1_def)
  ultimately have run: "dev_read b buf d =
      (case lru_upsert b (dev_view d b) d1 of (_, d3) \<Rightarrow> (kSuccess, dev_view d b, d3))"
    using lru_get_miss[OF None] by (simp add: dev_read_def Let_def)
  show ?thesis
    by (rule lru_upsert_ok[OF d1(1), of b "dev_view d b"])
      (use assms(2) d1 run in \<open>auto intro!: that intro: same_geometry_trans[OF d1(3)]\<close>)
qed

lemma dev_read_beyond:
  assumes "dev_ok d" "\<not> unat b < dev_blocks d"
  obtains d' where "dev_read b buf d = (kFail, buf, d')" "dev_ok d'" "dev_view d' = dev_view d"
    "same_geometry d d'"
proof -
  obtain k where k: "cache_inv_at {} k (dev_cache d) (dev_file d)"
    using assms(1) by (auto simp: dev_ok_def cache_inv_def)
  have "hashtable (dev_cache d) b = None"
    using assms(2) hash_okD(4)[OF cache_inv_atD(3)[OF k]] by (cases "hashtable (dev_cache d) b") auto
  moreover define d1 where "d1 = d\<lparr>dev_file := (dev_file d)\<lparr>dk_ios := Suc (dk_ios (dev_file d))\<rparr>\<rparr>"
  ultimately show ?thesis
    using assms
    by (intro that[of d1]) (auto simp: d1_def dev_read_def lru_get_miss pread_blk_def Let_def dev_ok_def
        cache_inv_def same_geometry_def)
qed

lemma dev_write_ok:
  assumes "dev_ok d" "unat b < dev_blocks d"
  obtains d' where "dev_write b blk d = (kSuccess, d')" "dev_ok d'"
    "dev_view d' = (dev_view d)(b := blk)" "same_geometry d d'" "hashtable (dev_cache d') b \<noteq> None"
  by (rule lru_upsert_ok[OF assms, of blk], rule that) (simp_all add: dev_write_def)

lemma dev_write_beyond:
  assumes "dev_ok d" "\<not> unat b < dev_blocks d"
  obtains d' where "dev_write b blk d = (kFail, d')" "dev_ok d'" "dev_view d' = dev_view d"
    "same_geometry d d'"
  by (rule lru_upsert_beyond[OF assms, of blk], rule that) (simp_all add: dev_write_def)

interpretation cached: block_store dev_read dev_write dev_view "\<lambda>d. dk_blocks (dev_file d)" dev_ok
proof (unfold_locales, goal_cases)
  case (1 d b buf)
  show ?case by (rule dev_read_ok[OF 1]) (auto simp: same_geometry_def)
next
  case (2 d b blk)
  show ?case by (rule dev_write_ok[OF 2]) (auto simp: same_geometry_def)
qed

interpretation raw: block_store raw_read raw_write dk_data dk_blocks no_faults
proof (unfold_locales, goal_cases)
  case (1 d b buf)
  then show ?case
    by (auto simp: raw_read_def bcm_get_def pread_blk_def bcm_upsert_def write_to_disk_ok Let_def
        no_faults_def)
next
  case (2 d b blk)
  then show ?case
    by (auto simp: raw_write_def bcm_upsert_def write_to_disk_ok no_faultsD Let_def)
qed

interpretation cached_raw: two_block_stores
  dev_read dev_write dev_view "\<lambda>d. dk_blocks (dev_file d)" dev_ok
  raw_read raw_write dk_data dk_blocks no_faults
  by unfold_locales

lemma BlockDevice_ok:
  assumes "no_faults dk"
  shows "dev_ok (BlockDevice junk dk sz)"
proof -
  have "cache_inv_at {} 0 (LRUCacheManager junk kBlockCacheSize) (ftruncate (sz div kBlockSize) dk)"
    by (rule LRUCacheManager_inv) (simp add: const_defs)
  then show ?thesis
    using assms by (auto simp: dev_ok_def cache_inv_def BlockDevice_def ftruncate_def no_faults_def)
qed

lemma BlockDevice_view: "dev_view (BlockDevice junk dk sz) = dk_data (ftruncate (sz div kBlockSize) dk)"
  by (simp add: dev_view_def BlockDevice_def fun_eq_iff)

lemma BlockDevice_blocks [simp]: "dev_blocks (BlockDevice junk dk sz) = sz div kBlockSize"
  by (simp add: BlockDevice_def ftruncate_def)

text \<open>A small device for concrete runs: sixteen zeroed blocks behind a cache of
  \<open>n\<close> slots, with fault schedule \<open>f\<close>.\<close>

definition small_dev :: "nat \<Rightarrow> (nat \<Rightarrow> bool) \<Rightarrow> dev" where
  "small_dev n f = \<lparr>dev_cache = LRUCacheManager (\<lambda>_. zero_block) (n * kBlockSize),
     dev_file = \<lparr>dk_data = \<lambda>_. zero_block, dk_blocks = 16, dk_fault = f, dk_ios = 0\<rparr>,
     num_data_blocks = 16\<rparr>"

lemma small_dev_ok: "0 < n \<Longrightarrow> dev_ok (small_dev n (\<lambda>_. False))"
  using LRUCacheManager_inv[of "n * kBlockSize" "\<lambda>_. zero_block"]
  by (auto simp: small_dev_def dev_ok_def cache_inv_def no_faults_def)

lemma small_dev_simps [simp]:
  "dev_blocks (small_dev n f) = 16" "dev_view (small_dev n f) = (\<lambda>_. zero_block)"
  "hashtable (dev_cache (small_dev n f)) = Map.empty"
  by (simp_all add: small_dev_def dev_view_def fun_eq_iff)

section \<open>Properties of the device\<close>

text \<open>On a fault-free disk with a coherent cache, \<open>BlockDevice::read\<close> of a block of the
  disk succeeds and returns the contents last written to that block, whatever is cached or has
  been evicted; it changes no block, and the cache stays coherent.\<close>

theorem dev_read_spec:
  assumes "dev_ok d" "unat b < dev_blocks d"
  shows "\<exists>d'. dev_read b buf d = (kSuccess, dev_view d b, d') \<and> dev_ok d' \<and>
     dev_view d' = dev_view d \<and> same_geometry d d'"
  by (rule dev_read_ok[OF assms, of buf]) blast

theorem dev_read_spec_witness:
  "\<exists>d'. dev_read 3 zero_block (small_dev 2 (\<lambda>_. False)) = (kSuccess, zero_block, d') \<and> dev_ok d'"
  using dev_read_spec[OF small_dev_ok[of 2], of 3 zero_block] by auto

text \<open>\<open>BlockDevice::write\<close> succeeds for the blocks of the disk and changes exactly the
  block it names; beyond the disk it returns \<open>kFail\<close> and changes nothing.\<close>

theorem dev_write_spec:
  assumes "dev_ok d"
  shows "\<exists>d'. dev_write b blk d = (if unat b < dev_blocks d then kSuccess else kFail, d') \<and> dev_ok d' \<and>
     dev_view d' = (if unat b < dev_blocks d then (dev_view d)(b := blk) else dev_view d) \<and>
     same_geometry d d'"
proof (cases "unat b < dev_blocks d")
  case True
  show ?thesis by (rule dev_write_ok[OF assms True, of blk]) (use True in auto)
next
  case False
  show ?thesis by (rule dev_write_beyond[OF assms False, of blk]) (use False in auto)
qed

theorem dev_write_spec_witness:
  "\<exists>d'. dev_write 3 (\<lambda>_. 7) (small_dev 2 (\<lambda>_. False)) = (kSuccess, d') \<and>
     dev_view d' = (\<lambda>_. zero_block)(3 := (\<lambda>_. 7))"
  using dev_write_spec[OF small_dev_ok[of 2], of 3 "\<lambda>_. 7"] by auto

text \<open>C33: the LRU cache is transparent. Any sequence of reads and writes of blocks of the disk
  gives the same results on a newly opened device with the cache and on one built without it,
  namely those of a plain map of blocks, and leaves both with the same contents.\<close>

theorem cache_transparent:
  assumes "no_faults dk" "\<forall>a \<in> set as. unat (access_id a) < sz div kBlockSize"
  shows "\<exists>d' dk' bs. dev_run dev_read dev_write buf as (BlockDevice junk dk sz) = Some (bs, d') \<and>
     dev_run raw_read raw_write buf as (ftruncate (sz div kBlockSize) dk) = Some (bs, dk') \<and>
     (bs, dev_view d') = map_run as (dk_data (ftruncate (sz div kBlockSize) dk)) \<and>
     dev_view d' = dk_data dk'"
proof -
  let ?d = "BlockDevice junk dk sz" and ?dk = "ftruncate (sz div kBlockSize) dk"
  have "no_faults ?dk" "\<forall>a \<in> set as. unat (access_id a) < dk_blocks ?dk"
    using assms by (auto simp: ftruncate_def no_faults_def)
  then show ?thesis
    using cached.run_refines[OF BlockDevice_ok[OF assms(1)], of as junk sz buf] assms(2)
      raw.run_refines[of ?dk as buf]
    by (fastforce simp: BlockDevice_view)
qed

theorem cache_transparent_witness:
  "\<exists>d' dk'. dev_run dev_read dev_write zero_block [Write 1 (\<lambda>_. 5), Read 1, Read 0]
      (BlockDevice (\<lambda>_. zero_block) (dev_file (small_dev 1 (\<lambda>_. False))) (4 * 4096)) =
        Some ([\<lambda>_. 5, zero_block], d') \<and>
     dev_run raw_read raw_write zero_block [Write 1 (\<lambda>_. 5), Read 1, Read 0]
      (ftruncate 4 (dev_file (small_dev 1 (\<lambda>_. False)))) = Some ([\<lambda>_. 5, zero_block], dk')"
proof -
  have "no_faults (dev_file (small_dev 1 (\<lambda>_. False)))" by (simp add: small_dev_def no_faults_def)
  from cache_transparent[OF this, of "[Write 1 (\<lambda>_. 5), Read 1, Read 0]" "4 * 4096" zero_block
      "\<lambda>_. zero_block"] show ?thesis
    by (auto simp: kBlockSize_def ftruncate_def small_dev_def)
qed

text \<open>C34: after \<open>sync_all\<close>, which succeeds on a fault-free disk, the disk file holds every block
  as the client saw it: a device opened anew on that file (with an empty cache) reads the same
  contents.\<close>

theorem sync_all_durable:
  assumes "dev_ok d"
  shows "\<exists>d'. dev_sync_all d = (kSuccess, d') \<and> dev_ok d' \<and> dev_view d' = dev_view d \<and>
     (\<forall>b junk. unat b < dev_blocks d \<longrightarrow>
        dev_view (BlockDevice junk (dev_file d') (dev_blocks d * kBlockSize)) b = dev_view d b)"
  by (rule lru_sync_all_ok[OF assms])
    (auto simp: dev_sync_all_def BlockDevice_view ftruncate_def same_geometry_def kBlockSize_def)

theorem sync_all_durable_witness:
  "\<exists>d1 d'. dev_write 3 (\<lambda>_. 7) (small_dev 2 (\<lambda>_. False)) = (kSuccess, d1) \<and>
     dev_sync_all d1 = (kSuccess, d') \<and>
     dev_view (BlockDevice (\<lambda>_. zero_block) (dev_file d') (16 * 4096)) 3 = (\<lambda>_. 7)"
proof -
  from dev_write_ok[OF small_dev_ok[of 2], of 3 "\<lambda>_. 7"] obtain d1 where
    d1: "dev_write 3 (\<lambda>_. 7) (small_dev 2 (\<lambda>_. False)) = (kSuccess, d1)" "dev_ok d1"
      "dev_view d1 = (\<lambda>_. zero_block)(3 := (\<lambda>_. 7))" "dev_blocks d1 = 16"
    by (auto simp: same_geometry_def)
  from sync_all_durable[OF d1(2)] d1 show ?thesis by (auto simp: kBlockSize_def)
qed

text \<open>\<open>sync\<close> of one block succeeds exactly when the block is in the cache, and then the disk
  file holds its current contents; a block that is not cached, so is already on disk, makes
  \<open>sync\<close> return \<open>kFail\<close>. No client-visible contents change.\<close>

theorem dev_sync_spec:
  assumes "dev_ok d"
  shows "\<exists>d'. dev_sync b d = (if hashtable (dev_cache d) b = None then kFail else kSuccess, d') \<and>
     dev_ok d' \<and> dev_view d' = dev_view d \<and> dk_data (dev_file d') b = dev_view d b"
proof (cases "hashtable (dev_cache d) b")
  case None
  then show ?thesis using assms by (simp add: dev_sync_def lru_sync_miss) (simp add: dev_view_def)
next
  case (Some s)
  show ?thesis by (rule lru_sync_hit[OF assms Some]) (auto simp: dev_sync_def Some)
qed

theorem dev_sync_spec_witness:
  "\<exists>d'. dev_sync 3 (small_dev 2 (\<lambda>_. False)) = (kFail, d') \<and> dev_view d' = (\<lambda>_. zero_block)"
  using dev_sync_spec[OF small_dev_ok[of 2], of 3] by auto

lemma write_tx_from_prefix:
  assumes "dev_ok d" "\<forall>i \<in> set js. unat (ids ! i) < dev_blocks d"
  shows "\<exists>d'. write_tx_from (js @ ks) ids bufs d = write_tx_from ks ids bufs d' \<and> dev_ok d' \<and>
     same_geometry d d' \<and> dev_view d' = fold (\<lambda>i m. m(ids ! i := bufs ! i)) js (dev_view d)"
  using assms
proof (induction js arbitrary: d)
  case Nil
  then show ?case by auto
next
  case (Cons i js)
  then have "unat (ids ! i) < dev_blocks d" by simp
  from dev_write_ok[OF Cons.prems(1) this, of "bufs ! i"] obtain d1 where
    d1: "dev_write (ids ! i) (bufs ! i) d = (kSuccess, d1)" "dev_ok d1"
      "dev_view d1 = (dev_view d)(ids ! i := bufs ! i)" "same_geometry d d1" .
  have "\<forall>i \<in> set js. unat (ids ! i) < dev_blocks d1"
    using Cons.prems(2) d1(4) by (simp add: same_geometry_def)
  from Cons.IH[OF d1(2) this] obtain d' where
    "write_tx_from (js @ ks) ids bufs d1 = write_tx_from ks ids bufs d'" "dev_ok d'"
    "same_geometry d1 d'" "dev_view d' = fold (\<lambda>i m. m(ids ! i := bufs ! i)) js (dev_view d1)"
    by blast
  then show ?case
    using d1 same_geometry_trans by (auto simp: fun_upd_def)
qed

text \<open>\<open>write_tx\<close> is not atomic, against its comment: when the block at index \<open>n\<close> is the first
  one beyond the disk, it returns \<open>kFail\<close> with the \<open>n\<close> writes before it in effect.\<close>

theorem write_tx_not_atomic:
  assumes "dev_ok d" "n < length ids" "\<forall>i < n. unat (ids ! i) < dev_blocks d"
    and "\<not> unat (ids ! n) < dev_blocks d"
  shows "\<exists>d'. write_tx ids bufs d = (kFail, d') \<and>
     dev_view d' = fold (\<lambda>i m. m(ids ! i := bufs ! i)) [0..<n] (dev_view d)"
proof -
  have split: "[0..<length ids] = [0..<n] @ n # [Suc n..<length ids]"
    using upt_add_eq_append[of 0 n "length ids - n"] assms(2) by (simp add: upt_conv_Cons)
  have "\<forall>i \<in> set [0..<n]. unat (ids ! i) < dev_blocks d" using assms(3) by simp
  from write_tx_from_prefix[OF assms(1) this, of "n # [Suc n..<length ids]" bufs] obtain d1 where
    d1: "write_tx ids bufs d = write_tx_from (n # [Suc n..<length ids]) ids bufs d1" "dev_ok d1"
      "same_geometry d d1" "dev_view d1 = fold (\<lambda>i m. m(ids ! i := bufs ! i)) [0..<n] (dev_view d)"
    unfolding write_tx_def split by blast
  have "\<not> unat (ids ! n) < dev_blocks d1" using assms(4) d1(3) by (simp add: same_geometry_def)
  from dev_write_beyond[OF d1(2) this, of "bufs ! n"] obtain d' where
    "dev_write (ids ! n) (bufs ! n) d1 = (kFail, d')" "dev_view d' = dev_view d1" .
  then show ?thesis by (simp add: d1(1,4))
qed

theorem write_tx_not_atomic_witness:
  "\<exists>d'. write_tx [2, 99] [\<lambda>_. 1, \<lambda>_. 2] (small_dev 2 (\<lambda>_. False)) = (kFail, d') \<and>
     dev_view d' 2 = (\<lambda>_. 1)"
  using write_tx_not_atomic[OF small_dev_ok[of 2], of 1 "[2, 99]" "[\<lambda>_. 1, \<lambda>_. 2]"] by auto

section \<open>What eviction does\<close>

text \<open>An eviction re-initialises the victim's links before it unlinks it, so the list end
  \<open>LRU_last\<close> becomes the victim itself.\<close>

lemma evict_relinks:
  assumes "s = LRU_last c" "s \<noteq> -1"
  shows "LRU_last (LRU_add s (LRU_remove s (set_st s bs_init c))) = s"
  using assms
  by (simp add: LRU_add_def LRU_remove_def unlink_defs link_defs)

lemma lru_alloc_full:
  assumes "FREE_first (dev_cache d) = -1" "lru_alloc d = (kSuccess, s, d')"
  shows "s = LRU_last (dev_cache d)" "LRU_last (dev_cache d') = s" "FREE_first (dev_cache d') = -1"
    "hashtable (dev_cache d') =
       (hashtable (dev_cache d))(word_of_int (bs_id (buf_st (dev_cache d) s)) := None)"
  using assms evict_relinks[of s "(dev_cache d)\<lparr>hashtable :=
       (hashtable (dev_cache d))(word_of_int (bs_id (buf_st (dev_cache d) s)) := None)\<rparr>"]
  by (auto simp: lru_alloc_def Let_def split: if_splits prod.splits)

lemma get_page_miss_full:
  assumes "dev_ok d" "unat b < dev_blocks d" "FREE_first (dev_cache d) = -1"
    and "hashtable (dev_cache d) b = None"
  shows "\<exists>d'. get_page b d = (kSuccess, LRU_last (dev_cache d), d') \<and> dev_ok d' \<and>
     LRU_last (dev_cache d') = LRU_last (dev_cache d) \<and> FREE_first (dev_cache d') = -1 \<and>
     same_geometry d d' \<and>
     bs_id (buf_st (dev_cache d') (LRU_last (dev_cache d))) = sint b \<and>
     hashtable (dev_cache d') = (hashtable (dev_cache d))
       (word_of_int (bs_id (buf_st (dev_cache d) (LRU_last (dev_cache d)))) := None,
        b := Some (LRU_last (dev_cache d)))"
proof -
  from get_page_ok[OF assms(1,2)] obtain s d' where g: "get_page b d = (kSuccess, s, d')"
    "dev_ok d'" "same_geometry d d'" by blast
  obtain k where "cache_inv_at {} k (dev_cache d) (dev_file d)" "no_faults (dev_file d)"
    using assms(1) by (auto simp: dev_ok_def cache_inv_def)
  from lru_alloc_ok[OF this] obtain s1 d1 where al: "lru_alloc d = (kSuccess, s1, d1)" by metis
  note full = lru_alloc_full[OF assms(3) al]
  have "s1 = s" "LRU_last (dev_cache d') = LRU_last (dev_cache d1)"
    "FREE_first (dev_cache d') = FREE_first (dev_cache d1)"
    "bs_id (buf_st (dev_cache d') s) = sint b"
    "hashtable (dev_cache d') = (hashtable (dev_cache d1))(b := Some s)"
    using g(1) assms(4) al by (auto simp: get_page_def Let_def split: prod.splits if_splits)
  then show ?thesis using g full by auto
qed

text \<open>The eviction order is not LRU. When the cache is full, two consecutive misses use the
  same slot: the block that was just brought in is the one the next miss evicts, and the older
  blocks stay.\<close>

theorem eviction_takes_newest:
  assumes "dev_ok d" "FREE_first (dev_cache d) = -1"
    and "unat b1 < dev_blocks d" "unat b2 < dev_blocks d" "b1 \<noteq> b2"
    and "hashtable (dev_cache d) b1 = None" "hashtable (dev_cache d) b2 = None"
  shows "\<exists>s d1 d2. get_page b1 d = (kSuccess, s, d1) \<and> get_page b2 d1 = (kSuccess, s, d2) \<and>
     hashtable (dev_cache d2) b1 = None \<and> hashtable (dev_cache d2) b2 = Some s"
proof -
  let ?s = "LRU_last (dev_cache d)"
  from get_page_miss_full[OF assms(1,3,2,6)] obtain d1 where
    d1: "get_page b1 d = (kSuccess, ?s, d1)" "dev_ok d1" "LRU_last (dev_cache d1) = ?s"
      "FREE_first (dev_cache d1) = -1" "same_geometry d d1"
      "bs_id (buf_st (dev_cache d1) ?s) = sint b1"
      "hashtable (dev_cache d1) = (hashtable (dev_cache d))
         (word_of_int (bs_id (buf_st (dev_cache d) ?s)) := None, b1 := Some ?s)"
    by blast
  have "unat b2 < dev_blocks d1" "hashtable (dev_cache d1) b2 = None"
    using assms(4,5,7) d1(5,7) by (auto simp: same_geometry_def)
  from get_page_miss_full[OF d1(2) this(1) d1(4) this(2)] d1 assms(5) show ?thesis by auto
qed

text \<open>A two-slot cache after blocks 0 and 1 have been written is full.\<close>

definition full_dev :: dev where
  "full_dev = snd (dev_write 1 zero_block (snd (dev_write 0 zero_block (small_dev 2 (\<lambda>_. False)))))"

lemmas run_defs = dev_write_def dev_read_def lru_upsert_def lru_get_def get_page_def lru_alloc_def
  LRU_add_def LRU_remove_def unlink_defs link_defs set_st_def bs_init_def rev_dirty_def is_dirty_def
  read_from_disk_def pread_blk_def write_to_disk_def pwrite_blk_def LRUCacheManager_def Let_def

lemma full_dev_facts:
  "dev_ok full_dev" "dev_blocks full_dev = 16" "FREE_first (dev_cache full_dev) = -1"
  "hashtable (dev_cache full_dev) = [0 \<mapsto> 0, 1 \<mapsto> 1]"
proof -
  from dev_write_ok[OF small_dev_ok[of 2], of 0 zero_block] obtain d1 where
    d1: "dev_write 0 zero_block (small_dev 2 (\<lambda>_. False)) = (kSuccess, d1)" "dev_ok d1"
      "same_geometry (small_dev 2 (\<lambda>_. False)) d1" by auto
  then have "unat (1 :: blk_id_t) < dev_blocks d1" by (simp add: same_geometry_def)
  from dev_write_ok[OF d1(2) this, of zero_block] obtain d2 where
    "dev_write 1 zero_block d1 = (kSuccess, d2)" "dev_ok d2" "same_geometry d1 d2" by auto
  with d1 show "dev_ok full_dev" "dev_blocks full_dev = 16"
    by (auto simp: full_dev_def same_geometry_def)
  show "FREE_first (dev_cache full_dev) = -1" "hashtable (dev_cache full_dev) = [0 \<mapsto> 0, 1 \<mapsto> 1]"
    by (simp_all add: full_dev_def small_dev_def run_defs kBlockSize_def)
qed

theorem eviction_takes_newest_witness:
  "\<exists>s d1 d2. get_page 5 full_dev = (kSuccess, s, d1) \<and> get_page 6 d1 = (kSuccess, s, d2) \<and>
     hashtable (dev_cache d2) 5 = None \<and> hashtable (dev_cache d2) 6 = Some s"
  using eviction_takes_newest[OF full_dev_facts(1,3), of 5 6]
  by (simp add: full_dev_facts(2,4))

text \<open>\<open>get_page\<close> ignores a failed \<open>alloc\<close>. If the cache is full, the victim slot holds a dirty
  block \<open>b0\<close> and its write-back fails, then a write to another block \<open>b1\<close> still reports
  success, and the next read of \<open>b0\<close> reports success with the contents of \<open>b1\<close>.\<close>

theorem failed_write_back_aliases:
  assumes "FREE_first (dev_cache d) = -1" "LRU_last (dev_cache d) = s" "s \<noteq> -1"
    and "hashtable (dev_cache d) b0 = Some s" "is_dirty (buf_st (dev_cache d) s)"
    and "hashtable (dev_cache d) b1 = None" "unat b1 < dev_blocks d"
    and "dk_fault (dev_file d) (dk_ios (dev_file d))"
    and "\<not> dk_fault (dev_file d) (Suc (dk_ios (dev_file d)))"
  shows "\<exists>d1 d2. dev_write b1 blk d = (kSuccess, d1) \<and> dev_read b0 buf d1 = (kSuccess, blk, d2)"
proof -
  let ?dk = "(dev_file d)\<lparr>dk_ios := Suc (dk_ios (dev_file d))\<rparr>"
  have al: "lru_alloc d = (kFail, s, d\<lparr>dev_file := ?dk\<rparr>)"
    using assms by (simp add: lru_alloc_def write_to_disk_def pwrite_blk_def Let_def)
  have "read_from_disk b1 x ?dk = (kSuccess, dk_data ?dk b1, ?dk\<lparr>dk_ios := Suc (dk_ios ?dk)\<rparr>)" for x
    using assms(7,9) by (intro read_from_disk_ok) simp_all
  then obtain d' where g: "get_page b1 d = (kSuccess, s, d')"
    "hashtable (dev_cache d') = (hashtable (dev_cache d))(b1 \<mapsto> s)"
    using assms(6) by (simp add: get_page_def al Let_def)
  obtain d1 where d1: "dev_write b1 blk d = (kSuccess, d1)"
    "hashtable (dev_cache d1) b0 = Some s" "buf_blk (dev_cache d1) s = blk"
    using assms(4,6) g by (simp add: dev_write_def lru_upsert_def Let_def)
  then show ?thesis by (simp add: dev_read_def lru_get_def)
qed

text \<open>One slot, block 0 dirty in it, and a schedule in which the fourth access fails.\<close>

definition faulty_dev :: dev where
  "faulty_dev = snd (dev_write 0 (\<lambda>_. 1) (small_dev 1 (\<lambda>n. n = 1)))"

theorem failed_write_back_aliases_witness:
  "\<exists>d1 d2. dev_write 4 (\<lambda>_. 9) faulty_dev = (kSuccess, d1) \<and>
     dev_read 0 zero_block d1 = (kSuccess, (\<lambda>_. 9), d2)"
  by (rule failed_write_back_aliases[where s = 0])
    (simp_all add: faulty_dev_def small_dev_def run_defs kBlockSize_def)

text \<open>\<open>remove\<close> of a dirty block writes it back and frees its slot, but leaves the slot marked
  dirty under the old id with the old contents: \<open>sync_all\<close>, which looks at every slot, writes
  this copy again, over whatever the block has received since through another slot.\<close>

theorem remove_leaves_slot_dirty:
  assumes "hashtable (dev_cache d) b = Some s" "bs_id (buf_st (dev_cache d) s) = sint b"
    and "is_dirty (buf_st (dev_cache d) s)" "\<not> dk_fault (dev_file d) (dk_ios (dev_file d))"
    and "unat b < dev_blocks d" "s < int (lru_size (dev_cache d))" "0 \<le> s"
  shows "\<exists>d'. lru_remove b d = (kSuccess, d') \<and> hashtable (dev_cache d') b = None \<and>
     FREE_first (dev_cache d') = s \<and> dk_data (dev_file d') b = buf_blk (dev_cache d) s \<and>
     (\<forall>dk. \<not> dk_fault dk (dk_ios dk) \<longrightarrow> unat b < dk_blocks dk \<longrightarrow>
        (\<exists>d2. lru_sync_slots [nat s] (d'\<lparr>dev_file := dk\<rparr>) = (kSuccess, d2) \<and>
              dk_data (dev_file d2) b = buf_blk (dev_cache d) s))"
proof -
  let ?c = "dev_cache d" and ?blk = "buf_blk (dev_cache d) s"
  define c' where "c' = FREE_add s (LRU_remove s (?c\<lparr>hashtable := (hashtable ?c)(b := None)\<rparr>))"
  define dk' where "dk' = (dev_file d)\<lparr>dk_ios := Suc (dk_ios (dev_file d)),
    dk_data := (dk_data (dev_file d))(b := ?blk)\<rparr>"
  have run: "lru_remove b d = (kSuccess, d\<lparr>dev_cache := c', dev_file := dk'\<rparr>)"
    using assms(1,3) write_to_disk_ok[OF assms(4,5)]
    by (simp add: lru_remove_def remove_page_def Let_def c'_def dk'_def)
  have c': "hashtable c' b = None" "FREE_first c' = s" "buf_blk c' = buf_blk ?c"
    "is_dirty (buf_st c' s)" "bs_id (buf_st c' s) = sint b"
    using assms(2,3) by (simp_all add: c'_def FREE_add_def is_dirty_def)
  have "\<exists>d2. lru_sync_slots [nat s] (d\<lparr>dev_cache := c', dev_file := dk\<rparr>) = (kSuccess, d2) \<and>
      dk_data (dev_file d2) b = ?blk"
    if "\<not> dk_fault dk (dk_ios dk)" "unat b < dk_blocks dk" for dk
    using assms(7) c'(3-5) write_to_disk_ok[OF that, of ?blk] by (simp add: Let_def kSuccess_def)
  with run c'(1,2) show ?thesis by (simp add: dk'_def del: lru_sync_slots.simps)
qed

theorem remove_leaves_slot_dirty_witness:
  "\<exists>d'. lru_remove 0 (snd (dev_write 0 (\<lambda>_. 1) (small_dev 1 (\<lambda>_. False)))) = (kSuccess, d') \<and>
     FREE_first (dev_cache d') = 0"
proof -
  let ?d = "snd (dev_write 0 (\<lambda>_. 1) (small_dev 1 (\<lambda>_. False)))"
  have "hashtable (dev_cache ?d) 0 = Some 0" "bs_id (buf_st (dev_cache ?d) 0) = sint (0 :: blk_id_t)"
    "is_dirty (buf_st (dev_cache ?d) 0)" "\<not> dk_fault (dev_file ?d) (dk_ios (dev_file ?d))"
    "unat (0 :: blk_id_t) < dev_blocks ?d" "0 < int (lru_size (dev_cache ?d))"
    by (simp_all add: small_dev_def run_defs kBlockSize_def)
  from remove_leaves_slot_dirty[OF this order_refl] show ?thesis by blast
qed

end
