(* ===== verification/Bitmap.thy ===== *)
theory Bitmap
  imports Blk_Dev
begin

text \<open>
  The on-disk allocation bitmaps: \<open>struct Bitmap\<close> of \<open>include/fs_layout.h\<close> and
  \<open>src/bitmap.cpp\<close>. A bitmap of \<open>num_blocks\<close> blocks starting at \<open>start_block_id\<close> has one
  bit per slot, 64-bit word by word; \<open>alloc\<close> sets the first clear bit and returns the slot
  number plus \<open>data_segment_offset\<close>, \<open>free\<close> clears a bit.

  The lemmas show that both operations implement a set of used slots, that \<open>alloc\<close> is
  first-fit and fails only when every slot is used. The contract is the locale
  \<open>allocator\<close>, interpreted on the two operations.
\<close>

record Bitmap =
  start_block_id :: blk_id_t
  bm_num_blocks :: u32
  data_segment_offset :: blk_id_t

section \<open>Operations\<close>

text \<open>\<open>__builtin_ctzll\<close>: the number of trailing zero bits of a non-zero word.\<close>

definition ctzll :: "u64 \<Rightarrow> nat" where
  "ctzll x = length (takeWhile (\<lambda>i. \<not> bit x i) [0..<64])"

definition leading_zero :: "u64 \<Rightarrow> int" where
  "leading_zero x = (if x = -1 then -1 else int (ctzll (NOT x)))"

definition slot_per_block :: nat where
  "slot_per_block = kBlockSize * 8"

text \<open>The inner loop of \<open>alloc\<close>: the first word \<open>j\<close> with a clear bit \<open>k\<close>.\<close>

fun alloc_words :: "nat list \<Rightarrow> block \<Rightarrow> (nat \<times> int) option" where
  "alloc_words [] buf = None"
| "alloc_words (j # js) buf =
     (let k = leading_zero (get_u64 buf (8 * j)) in
      if k \<noteq> -1 then Some (j, k) else alloc_words js buf)"

text \<open>The outer loop, over the bitmap blocks still to look at.\<close>

fun alloc_blocks :: "nat list \<Rightarrow> Bitmap \<Rightarrow> dev \<Rightarrow> blk_id_t \<times> dev" where
  "alloc_blocks [] bm d = (kFail32, d)"
| "alloc_blocks (i # js) bm d =
     (let (r, buf, d1) = dev_read (start_block_id bm + of_nat i) zero_block d in
      if r \<noteq> kSuccess then (kFail32, d1)
      else (case alloc_words [0..<kBlockSize div 8] buf of
              Some (j, k) \<Rightarrow>
                (let buf' = put_u64 buf (8 * j) (get_u64 buf (8 * j) OR push_bit (nat k) 1);
                     (r', d2) = dev_write (start_block_id bm + of_nat i) buf' d1
                 in if r' \<noteq> kSuccess then (kFail32, d2)
                    else (of_nat (i * slot_per_block + j * 8 * 8 + nat k) + data_segment_offset bm, d2))
            | None \<Rightarrow> alloc_blocks js bm d1))"

definition bitmap_alloc :: "Bitmap \<Rightarrow> dev \<Rightarrow> blk_id_t \<times> dev" where
  "bitmap_alloc bm d = alloc_blocks [0..<unat (bm_num_blocks bm)] bm d"

definition bitmap_free :: "blk_id_t \<Rightarrow> Bitmap \<Rightarrow> dev \<Rightarrow> int \<times> dev" where
  "bitmap_free block_id bm d =
     (let n = unat (block_id - data_segment_offset bm);
          block_id_in_bitmap = n div slot_per_block;
          slot_id_in_bitmap = n mod slot_per_block;
          b = start_block_id bm + of_nat block_id_in_bitmap;
          (r, buf, d1) = dev_read b zero_block d
      in if r \<noteq> kSuccess then (kFail, d1)
         else
           (let p = 8 * (slot_id_in_bitmap div 64);
                buf' = put_u64 buf p (get_u64 buf p AND NOT (push_bit (slot_id_in_bitmap mod 64) 1));
                (r', d2) = dev_write b buf' d1
            in if r' \<noteq> kSuccess then (kFail, d2) else (kSuccess, d2)))"

section \<open>Bits of one block\<close>

text \<open>Bit \<open>m\<close> of a block seen as an array of 64-bit words.\<close>

definition blk_bit :: "block \<Rightarrow> nat \<Rightarrow> bool" where
  "blk_bit buf m = bit (get_u64 buf (8 * (m div 64))) (m mod 64)"

lemma div_mod_window:
  assumes "c * a \<le> m" "m < c * a + (c :: nat)"
  shows "m div c = a" "m mod c = m - c * a"
  using assms div_nat_eqI[of c a m] by (auto simp: mult.commute minus_mult_div_eq_mod[symmetric])

lemma ctzll_spec:
  assumes "x \<noteq> 0"
  shows "ctzll x < 64" "bit x (ctzll x)" "i < ctzll x \<Longrightarrow> \<not> bit x i"
proof -
  let ?P = "\<lambda>i. \<not> bit x i"
  obtain n where n: "bit x n" using assms bit_word_eqI[of x 0] by auto
  then have n64: "n < 64" using bit_imp_le_length by fastforce
  have "\<not> (\<forall>i \<in> set [0..<64]. ?P i)" using n n64 by auto
  then have "takeWhile ?P [0..<64] \<noteq> [0..<64]" by (metis takeWhile_eq_all_conv)
  then have lt: "length (takeWhile ?P [0..<64]) < length [0..<64]"
    by (metis length_takeWhile_le nat_less_le takeWhile_eq_take take_all order_refl)
  then show "ctzll x < 64" by (simp add: ctzll_def)
  from nth_length_takeWhile[OF lt] show "bit x (ctzll x)"
    using lt by (simp add: ctzll_def)
  show "\<not> bit x i" if "i < ctzll x"
    using that lt takeWhile_nth[of i ?P "[0..<64]"] nth_mem[of i "takeWhile ?P [0..<64]"]
    by (auto simp: ctzll_def dest!: set_takeWhileD)
qed

lemma leading_zero_full: "leading_zero x = -1 \<longleftrightarrow> x = -1"
  by (simp add: leading_zero_def)

lemma leading_zero_spec:
  assumes "leading_zero x = int k"
  shows "k < 64" "\<not> bit x k" "i < k \<Longrightarrow> bit x i"
proof -
  have "x \<noteq> -1" and k: "k = ctzll (NOT x)"
    using assms by (auto simp: leading_zero_def split: if_splits)
  then have "NOT x \<noteq> 0" by (metis bit.compl_zero bit.double_compl)
  note c = ctzll_spec[OF this, folded k]
  show "k < 64" "\<not> bit x k" using c by (auto simp: bit_not_iff)
  show "bit x i" if "i < k" using c(1) c(3)[OF that] that by (auto simp: bit_not_iff)
qed

lemma alloc_words_Some:
  assumes "alloc_words [a..<n] buf = Some (j, k)" "\<forall>m < 64 * a. blk_bit buf m"
  shows "a \<le> j" "j < n" "0 \<le> k" "nat k < 64" "\<not> blk_bit buf (64 * j + nat k)"
    "\<forall>m < 64 * j + nat k. blk_bit buf m"
proof -
  have "a \<le> j \<and> j < n \<and> 0 \<le> k \<and> nat k < 64 \<and> \<not> blk_bit buf (64 * j + nat k) \<and>
      (\<forall>m < 64 * j + nat k. blk_bit buf m)"
    using assms
  proof (induction "n - a" arbitrary: a)
    case 0
    then show ?case by simp
  next
    case (Suc x)
    then have upt: "[a..<n] = a # [Suc a..<n]" by (simp add: upt_conv_Cons)
    let ?w = "get_u64 buf (8 * a)"
    show ?case
    proof (cases "leading_zero ?w = -1")
      case True
      then have "\<forall>m < 64 * Suc a. blk_bit buf m"
      proof (intro allI impI)
        fix m assume "m < 64 * Suc a"
        then show "blk_bit buf m"
          using Suc.prems(2) True div_mod_window[of 64 a m] by (cases "m < 64 * a")
            (auto simp: blk_bit_def leading_zero_full bit_minus_1_iff)
      qed
      moreover have "alloc_words [Suc a..<n] buf = Some (j, k)" "x = n - Suc a"
        using Suc.hyps(2) Suc.prems(1) True upt by (simp_all add: Let_def)
      ultimately show ?thesis using Suc.hyps(1)[of "Suc a"] by simp
    next
      case False
      then have jk: "j = a" "k = leading_zero ?w" using Suc.prems(1) upt by (auto simp: Let_def)
      have "0 \<le> k" using False jk(2) by (auto simp: leading_zero_def split: if_splits)
      then have k: "leading_zero ?w = int (nat k)" using jk by simp
      have "blk_bit buf m" if "m < 64 * a + nat k" for m
        using that Suc.prems(2) leading_zero_spec(1,3)[OF k] div_mod_window[of 64 a m]
        by (cases "m < 64 * a") (auto simp: blk_bit_def)
      then show ?thesis
        using jk Suc.hyps(2) \<open>0 \<le> k\<close> leading_zero_spec[OF k] by (auto simp: blk_bit_def)
    qed
  qed
  then show "a \<le> j" "j < n" "0 \<le> k" "nat k < 64" "\<not> blk_bit buf (64 * j + nat k)"
    "\<forall>m < 64 * j + nat k. blk_bit buf m" by auto
qed

lemma alloc_words_None:
  assumes "alloc_words js buf = None" "j \<in> set js" "b < 64"
  shows "blk_bit buf (64 * j + b)"
  using assms
  by (induction js) (auto simp: Let_def leading_zero_full blk_bit_def bit_minus_1_iff split: if_splits)

lemma blk_bit_put:
  assumes "\<And>b. b < 64 \<Longrightarrow> bit w b = (if b = k then v else bit (get_u64 buf (8 * j)) b)" "k < 64"
  shows "blk_bit (put_u64 buf (8 * j) w) m = (if m = 64 * j + k then v else blk_bit buf m)"
proof (cases "m div 64 = j")
  case True
  then have "m = 64 * j + k \<longleftrightarrow> m mod 64 = k" by (metis add_left_cancel mult_div_mod_eq)
  then show ?thesis using True assms by (simp add: blk_bit_def get_put_u64)
next
  case False
  then have "get_u64 (put_u64 buf (8 * j) w) (8 * (m div 64)) = get_u64 buf (8 * (m div 64))"
    by (intro get_u64_other) auto
  then show ?thesis using False assms(2) by (auto simp: blk_bit_def)
qed

lemma blk_bit_set:
  "k < 64 \<Longrightarrow> blk_bit (put_u64 buf (8 * j) (get_u64 buf (8 * j) OR push_bit k 1)) m \<longleftrightarrow>
     m = 64 * j + k \<or> blk_bit buf m"
  using blk_bit_put[of "get_u64 buf (8 * j) OR push_bit k 1" k True buf j m]
  by (auto simp: bit_or_iff bit_exp_iff)

lemma blk_bit_clear:
  "k < 64 \<Longrightarrow> blk_bit (put_u64 buf (8 * j) (get_u64 buf (8 * j) AND NOT (push_bit k 1))) m \<longleftrightarrow>
     m \<noteq> 64 * j + k \<and> blk_bit buf m"
  using blk_bit_put[of "get_u64 buf (8 * j) AND NOT (push_bit k 1)" k False buf j m]
  by (auto simp: bit_and_iff bit_not_iff bit_exp_iff)


section \<open>The bitmap as a set of slots\<close>

definition bm_slots :: "Bitmap \<Rightarrow> nat" where
  "bm_slots bm = unat (bm_num_blocks bm) * slot_per_block"

definition bm_bit :: "Bitmap \<Rightarrow> (blk_id_t \<Rightarrow> block) \<Rightarrow> nat \<Rightarrow> bool" where
  "bm_bit bm V n = blk_bit (V (start_block_id bm + of_nat (n div slot_per_block))) (n mod slot_per_block)"

text \<open>The slots in use, as a set.\<close>

definition bm_used :: "Bitmap \<Rightarrow> (blk_id_t \<Rightarrow> block) \<Rightarrow> nat set" where
  "bm_used bm V = {n. n < bm_slots bm \<and> bm_bit bm V n}"

text \<open>The blocks the bitmap occupies.\<close>

definition bm_region :: "Bitmap \<Rightarrow> blk_id_t set" where
  "bm_region bm = {b. unat (start_block_id bm) \<le> unat b \<and>
     unat b < unat (start_block_id bm) + unat (bm_num_blocks bm)}"

text \<open>The bitmap lies on the device, without wrap-around.\<close>

definition bm_ok :: "Bitmap \<Rightarrow> dev \<Rightarrow> bool" where
  "bm_ok bm d \<longleftrightarrow> dev_ok d \<and> unat (start_block_id bm) + unat (bm_num_blocks bm) \<le> dev_blocks d \<and>
     unat (start_block_id bm) + unat (bm_num_blocks bm) < 2 ^ 32"

lemma bm_ok_dev_ok: "bm_ok bm d \<Longrightarrow> dev_ok d"
  by (simp add: bm_ok_def)

lemma bm_ok_same: "bm_ok bm d \<Longrightarrow> dev_ok d' \<Longrightarrow> same_geometry d d' \<Longrightarrow> bm_ok bm d'"
  by (simp add: bm_ok_def same_geometry_def)

lemma bm_block:
  assumes "bm_ok bm d" "i < unat (bm_num_blocks bm)"
  shows "unat (start_block_id bm + of_nat i) = unat (start_block_id bm) + i"
    "unat (start_block_id bm + of_nat i) < dev_blocks d" "start_block_id bm + of_nat i \<in> bm_region bm"
proof -
  have "unat (of_nat i :: u32) = i" using assms by (intro unat_of_nat_u32) (auto simp: bm_ok_def)
  then show u: "unat (start_block_id bm + of_nat i) = unat (start_block_id bm) + i"
    using assms by (subst unat_add_u32) (auto simp: bm_ok_def)
  then show "unat (start_block_id bm + of_nat i) < dev_blocks d"
    "start_block_id bm + of_nat i \<in> bm_region bm"
    using assms by (auto simp: bm_ok_def bm_region_def)
qed

lemma slot_block_less: "n < bm_slots bm \<Longrightarrow> n div slot_per_block < unat (bm_num_blocks bm)"
  by (simp add: bm_slots_def less_mult_imp_div_less)

lemma slot_per_block_pos [simp]: "0 < slot_per_block"
  by (simp add: slot_per_block_def kBlockSize_def)

text \<open>Replacing one block of the bitmap by one that differs in a single bit.\<close>

lemma bm_bit_upd:
  assumes ok: "bm_ok bm d" and i: "i < unat (bm_num_blocks bm)" and s: "s < slot_per_block"
    and V': "V' = V(start_block_id bm + of_nat i := buf')"
    and bits: "\<And>m. m < slot_per_block \<Longrightarrow>
      blk_bit buf' m = (if m = s then v else blk_bit (V (start_block_id bm + of_nat i)) m)"
    and n: "n < bm_slots bm"
  shows "bm_bit bm V' n = (if n = i * slot_per_block + s then v else bm_bit bm V n)"
proof (cases "n div slot_per_block = i")
  case True
  have "n = i * slot_per_block + s \<longleftrightarrow> n mod slot_per_block = s"
    using True by (metis add_left_cancel div_mult_mod_eq)
  then show ?thesis
    using True bits[of "n mod slot_per_block"] by (simp add: bm_bit_def V')
next
  case False
  then have "start_block_id bm + of_nat (n div slot_per_block) \<noteq> start_block_id bm + of_nat i"
    using bm_block(1)[OF ok i] bm_block(1)[OF ok slot_block_less[OF n]] by (metis add_left_cancel)
  moreover have "n \<noteq> i * slot_per_block + s" using False s by auto
  ultimately show ?thesis by (simp add: bm_bit_def V')
qed

lemma bm_bit_cong:
  assumes "bm_ok bm d" "\<And>b. b \<in> bm_region bm \<Longrightarrow> V b = V' b" "n < bm_slots bm"
  shows "bm_bit bm V n = bm_bit bm V' n"
  using assms(2)[OF bm_block(3)[OF assms(1) slot_block_less[OF assms(3)]]] by (simp add: bm_bit_def)

lemma bm_used_cong:
  assumes "bm_ok bm d" "\<And>b. b \<in> bm_region bm \<Longrightarrow> V b = V' b"
  shows "bm_used bm V = bm_used bm V'"
  using bm_bit_cong[OF assms(1), of V V'] assms(2) by (auto simp: bm_used_def)

section \<open>Allocation and release\<close>

text \<open>Device \<open>d'\<close> is \<open>d\<close> with the used set of the bitmap changed to \<open>U\<close> and no block
  outside the bitmap changed.\<close>

definition bm_step :: "Bitmap \<Rightarrow> dev \<Rightarrow> nat set \<Rightarrow> dev \<Rightarrow> bool" where
  "bm_step bm d U d' \<longleftrightarrow> dev_ok d' \<and> same_geometry d d' \<and> bm_used bm (dev_view d') = U \<and>
     (\<forall>b. b \<notin> bm_region bm \<longrightarrow> dev_view d' b = dev_view d b)"

lemma slot_bound: "i < unat (bm_num_blocks bm) \<Longrightarrow> m < slot_per_block \<Longrightarrow> i * slot_per_block + m < bm_slots bm"
  using mult_le_mono1[of "Suc i" "unat (bm_num_blocks bm)" slot_per_block] by (simp add: bm_slots_def)

lemma set_one_bit:
  assumes ok: "bm_ok bm d" and i: "i < unat (bm_num_blocks bm)" and s: "s < slot_per_block"
    and bits: "\<And>m. m < slot_per_block \<Longrightarrow>
      blk_bit buf' m = (if m = s then v else blk_bit (dev_view d (start_block_id bm + of_nat i)) m)"
  obtains d' where "dev_write (start_block_id bm + of_nat i) buf' d = (kSuccess, d')"
    "bm_step bm d ({n. n = i * slot_per_block + s \<and> v} \<union>
        (bm_used bm (dev_view d) - {i * slot_per_block + s})) d'"
proof -
  note b = bm_block[OF ok i]
  from dev_write_ok[OF bm_ok_dev_ok[OF ok] b(2), of buf'] obtain d' where
    d': "dev_write (start_block_id bm + of_nat i) buf' d = (kSuccess, d')" "dev_ok d'"
      "dev_view d' = (dev_view d)(start_block_id bm + of_nat i := buf')" "same_geometry d d'" .
  have bnd: "i * slot_per_block + s < bm_slots bm" by (rule slot_bound[OF i s])
  have "bm_used bm (dev_view d') = {n. n = i * slot_per_block + s \<and> v} \<union>
        (bm_used bm (dev_view d) - {i * slot_per_block + s})"
    using bm_bit_upd[OF ok i s d'(3) bits] bnd by (auto simp: bm_used_def split: if_splits)
  then show ?thesis using that d' b(3) by (auto simp: bm_step_def)
qed

lemma bm_bit_block:
  assumes "m < slot_per_block"
  shows "bm_bit bm V (i * slot_per_block + m) = blk_bit (V (start_block_id bm + of_nat i)) m"
  using assms by (simp add: bm_bit_def)

text \<open>What an allocation may return: the first slot not in use, which is in use afterwards, or
  \<open>kFail\<close> without effect when all slots are in use.\<close>

definition alloc_outcome :: "Bitmap \<Rightarrow> dev \<Rightarrow> blk_id_t \<times> dev \<Rightarrow> bool" where
  "alloc_outcome bm d res \<longleftrightarrow> (case res of (r, d') \<Rightarrow>
     (\<exists>n. r = of_nat n + data_segment_offset bm \<and> n < bm_slots bm \<and> n \<notin> bm_used bm (dev_view d) \<and>
          {..<n} \<subseteq> bm_used bm (dev_view d) \<and>
          bm_step bm d (insert n (bm_used bm (dev_view d))) d') \<or>
     (r = kFail32 \<and> bm_used bm (dev_view d) = {..<bm_slots bm} \<and> dev_ok d' \<and> same_geometry d d' \<and>
      dev_view d' = dev_view d))"

lemma alloc_outcome_view:
  assumes "alloc_outcome bm d1 res" "dev_view d1 = dev_view d" "same_geometry d d1"
  shows "alloc_outcome bm d res"
  using assms by (auto simp: alloc_outcome_def bm_step_def intro: same_geometry_trans)

lemma alloc_outcomeI:
  assumes "n < bm_slots bm" "\<not> bm_bit bm (dev_view d) n" "\<And>m. m < n \<Longrightarrow> bm_bit bm (dev_view d) m"
    and "bm_step bm d (insert n (bm_used bm (dev_view d))) d'"
  shows "alloc_outcome bm d (of_nat n + data_segment_offset bm, d')"
  unfolding alloc_outcome_def prod.case
  by (rule disjI1, rule exI[of _ n]) (use assms in \<open>auto simp: bm_used_def\<close>)

text \<open>The slots before a slot of block \<open>i\<close> are those of the blocks before and those of the block.\<close>

lemma bm_bits_below:
  assumes "\<forall>n < i * slot_per_block. bm_bit bm V n" "k \<le> slot_per_block"
    and "\<And>q. q < k \<Longrightarrow> blk_bit (V (start_block_id bm + of_nat i)) q" "n < i * slot_per_block + k"
  shows "bm_bit bm V n"
proof (cases "n < i * slot_per_block")
  case True
  then show ?thesis using assms(1) by simp
next
  case False
  define q where "q = n - i * slot_per_block"
  have "n = i * slot_per_block + q" "q < k" using False assms(4) by (auto simp: q_def)
  then show ?thesis using assms(2,3) by (simp add: bm_bit_block)
qed

lemma alloc_words_full:
  assumes "alloc_words [0..<kBlockSize div 8] B = None" "q < slot_per_block"
  shows "blk_bit B q"
proof -
  have "q div 64 \<in> set [0..<kBlockSize div 8]" "q mod 64 < 64"
    using assms(2) by (auto simp: slot_per_block_def kBlockSize_def)
  from alloc_words_None[OF assms(1) this] show ?thesis by simp
qed

text \<open>A block with a free slot: the search ends there.\<close>

lemma alloc_hit:
  assumes ok: "bm_ok bm d" and i: "i < unat (bm_num_blocks bm)"
    and below: "\<forall>n < i * slot_per_block. bm_bit bm (dev_view d) n"
    and jk: "alloc_words [0..<kBlockSize div 8] (dev_view d (start_block_id bm + of_nat i)) = Some (j, k)"
    and d1: "dev_read (start_block_id bm + of_nat i) zero_block d =
      (kSuccess, dev_view d (start_block_id bm + of_nat i), d1)" "bm_ok bm d1" "dev_view d1 = dev_view d" "same_geometry d d1"
  shows "alloc_outcome bm d (alloc_blocks (i # is) bm d)"
proof -
  let ?b = "start_block_id bm + of_nat i :: blk_id_t" and ?m = "64 * j + nat k"
  let ?buf = "dev_view d ?b" and ?n = "i * slot_per_block + ?m"
  note w = alloc_words_Some[OF jk]
  have m: "?m < slot_per_block" using w(2-4) by (simp add: slot_per_block_def kBlockSize_def)
  let ?buf' = "put_u64 ?buf (8 * j) (get_u64 ?buf (8 * j) OR push_bit (nat k) 1)"
  have "blk_bit ?buf' m' = (if m' = ?m then True else blk_bit (dev_view d1 ?b) m')" for m'
    using blk_bit_set[of "nat k" ?buf j m'] w(4) by (auto simp: d1(3))
  from set_one_bit[OF d1(2) i m this] obtain d2 where d2: "dev_write ?b ?buf' d1 = (kSuccess, d2)"
    "bm_step bm d1 ({n. n = ?n \<and> True} \<union> (bm_used bm (dev_view d1) - {?n})) d2" by metis
  have run: "alloc_blocks (i # is) bm d = (of_nat ?n + data_segment_offset bm, d2)"
    using jk d1(1) d2(1) by (simp add: mult.commute[of j 64])
  have "bm_step bm d (insert ?n (bm_used bm (dev_view d))) d2"
    using d2(2) d1(3) same_geometry_trans[OF d1(4)] by (auto simp: bm_step_def)
  moreover have "\<not> bm_bit bm (dev_view d) ?n" using w(5) m by (simp add: bm_bit_block)
  moreover have "bm_bit bm (dev_view d) n" if "n < ?n" for n
    by (rule bm_bits_below[OF below less_imp_le[OF m] _ that]) (use w(6) in simp)
  ultimately show ?thesis unfolding run using slot_bound[OF i m] by (intro alloc_outcomeI)
qed

lemma alloc_blocks_spec:
  assumes "bm_ok bm d" "i \<le> unat (bm_num_blocks bm)"
    and "\<forall>n < i * slot_per_block. bm_bit bm (dev_view d) n"
  shows "alloc_outcome bm d (alloc_blocks [i..<unat (bm_num_blocks bm)] bm d)"
  using assms
proof (induction "unat (bm_num_blocks bm) - i" arbitrary: i d)
  case 0
  then have nil: "[i..<unat (bm_num_blocks bm)] = []"
    and "\<forall>n < bm_slots bm. bm_bit bm (dev_view d) n"
    by (auto simp: bm_slots_def)
  then show ?case
    using bm_ok_dev_ok[OF "0.prems"(1)] unfolding nil by (auto simp: alloc_outcome_def bm_used_def)
next
  case (Suc x)
  let ?N = "unat (bm_num_blocks bm)" and ?b = "start_block_id bm + of_nat i :: blk_id_t"
  have i: "i < ?N" using Suc.hyps(2) by simp
  have upt: "[i..<?N] = i # [Suc i..<?N]" using i by (simp add: upt_conv_Cons)
  from dev_read_ok[OF bm_ok_dev_ok[OF Suc.prems(1)] bm_block(2)[OF Suc.prems(1) i], of zero_block]
  obtain d1 where d1: "dev_read ?b zero_block d = (kSuccess, dev_view d ?b, d1)" "dev_ok d1"
    "dev_view d1 = dev_view d" "same_geometry d d1" .
  have ok1: "bm_ok bm d1" by (rule bm_ok_same[OF Suc.prems(1) d1(2,4)])
  show ?case
  proof (cases "alloc_words [0..<kBlockSize div 8] (dev_view d ?b)")
    case None
    have "bm_bit bm (dev_view d) n" if "n < Suc i * slot_per_block" for n
      by (rule bm_bits_below[OF Suc.prems(3) order_refl]) (use that alloc_words_full[OF None] in simp_all)
    moreover have "alloc_blocks [i..<?N] bm d = alloc_blocks [Suc i..<?N] bm d1"
      using None d1(1) by (simp add: upt)
    ultimately have "alloc_outcome bm d1 (alloc_blocks [i..<?N] bm d)"
      using Suc.hyps(1)[of "Suc i" d1] Suc.hyps(2) ok1 d1(3) i by simp
    then show ?thesis by (rule alloc_outcome_view[OF _ d1(3,4)])
  next
    case (Some jk)
    then show ?thesis unfolding upt by (cases jk) (use alloc_hit[OF Suc.prems(1) i Suc.prems(3) _ d1(1) ok1 d1(3,4)] in blast)
  qed
qed

lemma bitmap_alloc_outcome: "bm_ok bm d \<Longrightarrow> alloc_outcome bm d (bitmap_alloc bm d)"
  unfolding bitmap_alloc_def by (rule alloc_blocks_spec) auto

lemma bitmap_free_ok:
  assumes ok: "bm_ok bm d" and n: "n < bm_slots bm" "n < 2 ^ 32"
  obtains d' where "bitmap_free (of_nat n + data_segment_offset bm) bm d = (kSuccess, d')"
    "bm_step bm d (bm_used bm (dev_view d) - {n}) d'"
proof -
  define i where "i = n div slot_per_block"
  define s where "s = n mod slot_per_block"
  have ns: "i < unat (bm_num_blocks bm)" "s < slot_per_block" "n = i * slot_per_block + s"
    using slot_block_less[OF n(1)] by (auto simp: i_def s_def)
  let ?b = "start_block_id bm + of_nat i :: blk_id_t"
  let ?buf = "dev_view d ?b"
  from dev_read_ok[OF bm_ok_dev_ok[OF ok] bm_block(2)[OF ok ns(1)], of zero_block]
  obtain d1 where d1: "dev_read ?b zero_block d = (kSuccess, ?buf, d1)" "dev_ok d1"
    "dev_view d1 = dev_view d" "same_geometry d d1" .
  have ok1: "bm_ok bm d1" by (rule bm_ok_same[OF ok d1(2,4)])
  let ?buf' = "put_u64 ?buf (8 * (s div 64))
     (get_u64 ?buf (8 * (s div 64)) AND NOT (push_bit (s mod 64) 1))"
  have "blk_bit ?buf' m = (if m = s then False else blk_bit (dev_view d1 ?b) m)" for m
    using blk_bit_clear[of "s mod 64" ?buf "s div 64" m] by (auto simp: d1(3))
  from set_one_bit[OF ok1 ns(1,2) this] obtain d2 where d2: "dev_write ?b ?buf' d1 = (kSuccess, d2)"
    "bm_step bm d1 ({n. n = i * slot_per_block + s \<and> False} \<union>
      (bm_used bm (dev_view d1) - {i * slot_per_block + s})) d2" by metis
  have "bitmap_free (of_nat n + data_segment_offset bm) bm d = (kSuccess, d2)"
    using d1(1) d2(1) unat_of_nat_u32[OF n(2)]
    by (simp add: bitmap_free_def Let_def i_def[symmetric] s_def[symmetric])
  then show ?thesis
    using d2(2) d1(3) same_geometry_trans[OF d1(4)] ns(3)
    by (intro that) (auto simp: bm_step_def)
qed


section \<open>The contract of an allocator\<close>

text \<open>Slots are handed out fresh and marked used; releasing one makes it available again. The
  client's invariant is \<open>ok\<close>, the slots in use are \<open>used\<close>, \<open>cap\<close> bounds them, and \<open>name\<close> gives
  the identifier under which a slot is handed out.\<close>

locale allocator =
  fixes alloc :: "'d \<Rightarrow> 'i \<times> 'd" and release :: "'i \<Rightarrow> 'd \<Rightarrow> int \<times> 'd"
    and used :: "'d \<Rightarrow> nat set" and cap :: nat and name :: "nat \<Rightarrow> 'i" and ok :: "'d \<Rightarrow> bool"
  assumes alloc_spec: "ok d \<Longrightarrow> used d \<noteq> {..<cap} \<Longrightarrow>
      \<exists>n d'. alloc d = (name n, d') \<and> n < cap \<and> n \<notin> used d \<and> {..<n} \<subseteq> used d \<and>
        used d' = insert n (used d) \<and> ok d'"
    and release_spec: "ok d \<Longrightarrow> n < cap \<Longrightarrow>
      \<exists>d'. release (name n) d = (kSuccess, d') \<and> used d' = used d - {n} \<and> ok d'"
    and used_cap: "ok d \<Longrightarrow> used d \<subseteq> {..<cap}"
begin

lemma used_finite: "ok d \<Longrightarrow> finite (used d)"
  using used_cap finite_subset by blast

text \<open>As long as fewer than \<open>cap\<close> slots are in use, a slot is returned.\<close>

lemma alloc_if_room:
  assumes "ok d" "card (used d) < cap"
  shows "\<exists>n d'. alloc d = (name n, d') \<and> n < cap \<and> n \<notin> used d \<and> used d' = insert n (used d) \<and>
     ok d' \<and> card (used d') = Suc (card (used d))"
proof -
  have "used d \<noteq> {..<cap}" using assms(2) by (metis card_lessThan less_irrefl)
  with alloc_spec[OF assms(1)] obtain n d' where "alloc d = (name n, d')" "n < cap" "n \<notin> used d"
    "used d' = insert n (used d)" "ok d'" by blast
  then show ?thesis using used_finite[OF assms(1)] by (intro exI[of _ n] exI[of _ d']) simp
qed

text \<open>Allocating and releasing at once restores the set of used slots.\<close>

lemma alloc_release:
  assumes "ok d" "used d \<noteq> {..<cap}"
  shows "\<exists>i d1 d2. alloc d = (i, d1) \<and> release i d1 = (kSuccess, d2) \<and> used d2 = used d \<and> ok d2"
proof -
  from alloc_spec[OF assms] obtain n d1 where n: "alloc d = (name n, d1)" "n < cap" "n \<notin> used d"
    "used d1 = insert n (used d)" "ok d1" by blast
  from release_spec[OF n(5,2)] obtain d2 where "release (name n) d1 = (kSuccess, d2)"
    "used d2 = used d1 - {n}" "ok d2" by blast
  with n show ?thesis by auto
qed

text \<open>A slot released is the next one handed out, if no smaller one is free.\<close>

lemma release_alloc:
  assumes "ok d" "n < cap" "{..<n} \<subseteq> used d"
  shows "\<exists>d1 d2. release (name n) d = (kSuccess, d1) \<and> alloc d1 = (name n, d2) \<and>
     used d2 = insert n (used d) \<and> ok d2"
proof -
  from release_spec[OF assms(1,2)] obtain d1 where d1: "release (name n) d = (kSuccess, d1)"
    "used d1 = used d - {n}" "ok d1" by blast
  then have "used d1 \<noteq> {..<cap}" using assms(2) by auto
  from alloc_spec[OF d1(3) this] obtain m d2 where m: "alloc d1 = (name m, d2)" "m < cap"
    "m \<notin> used d1" "{..<m} \<subseteq> used d1" "used d2 = insert m (used d1)" "ok d2" by blast
  have "n \<le> m" using assms(3) m(3) d1(2) by (metis Diff_iff lessThan_iff linorder_not_less
        singletonD subsetD less_irrefl)
  moreover have "m \<le> n" using m(4) d1(2) by (metis Diff_iff insertI1 lessThan_iff linorder_not_less subsetD)
  ultimately show ?thesis using d1 m by auto
qed

end

text \<open>The bitmap operations keep this contract. The capacity is below \<open>2 ^ 32\<close> slots, so that the
  32-bit identifiers do not repeat.\<close>

interpretation bitmap: allocator "bitmap_alloc bm" "\<lambda>i. bitmap_free i bm"
  "\<lambda>d. bm_used bm (dev_view d)" "bm_slots bm" "\<lambda>n. of_nat n + data_segment_offset bm"
  "\<lambda>d. bm_ok bm d \<and> bm_slots bm \<le> 2 ^ 32"
  for bm
proof (unfold_locales, goal_cases)
  case (1 d)
  then have "alloc_outcome bm d (bitmap_alloc bm d)" by (simp add: bitmap_alloc_outcome)
  with 1 show ?case
    by (auto simp: alloc_outcome_def bm_step_def split: prod.splits intro: bm_ok_same)
next
  case (2 d n)
  show ?case
    by (rule bitmap_free_ok[of bm d n]) (use 2 in \<open>auto simp: bm_step_def intro: bm_ok_same\<close>)
next
  case (3 d)
  show ?case by (auto simp: bm_used_def)
qed

section \<open>Properties of the bitmaps\<close>

text \<open>C35: \<open>Bitmap::alloc\<close> is first-fit and exact. If some slot is unused it returns the identifier
  of the least unused slot, marks that slot and no other, and changes no block outside the bitmap;
  if all slots are used it returns \<open>kFail\<close> and changes nothing.\<close>

theorem bitmap_alloc_spec:
  assumes "bm_ok bm d"
  shows "case bitmap_alloc bm d of (r, d') \<Rightarrow> bm_ok bm d' \<and>
     (if bm_used bm (dev_view d) = {..<bm_slots bm} then r = kFail32 \<and> dev_view d' = dev_view d
      else (\<exists>n < bm_slots bm. r = of_nat n + data_segment_offset bm \<and>
        n \<notin> bm_used bm (dev_view d) \<and> {..<n} \<subseteq> bm_used bm (dev_view d) \<and>
        bm_used bm (dev_view d') = insert n (bm_used bm (dev_view d)) \<and>
        (\<forall>b. b \<notin> bm_region bm \<longrightarrow> dev_view d' b = dev_view d b)))"
  using bitmap_alloc_outcome[OF assms] assms
  by (auto simp: alloc_outcome_def bm_step_def split: prod.splits intro: bm_ok_same)

text \<open>A bitmap of one block at block 3 of the small device; its slots are named from 100.\<close>

definition small_bitmap :: Bitmap where
  "small_bitmap = \<lparr>start_block_id = 3, bm_num_blocks = 1, data_segment_offset = 100\<rparr>"

lemma small_bitmap_ok: "bm_ok small_bitmap (small_dev 2 (\<lambda>_. False))"
  using small_dev_ok[of 2] by (simp add: bm_ok_def small_bitmap_def)

lemma small_bitmap_slots [simp]: "bm_slots small_bitmap = 32768"
  by (simp add: bm_slots_def small_bitmap_def slot_per_block_def kBlockSize_def)

lemma small_bitmap_used [simp]: "bm_used small_bitmap (\<lambda>_. zero_block) = {}"
  by (simp add: bm_used_def bm_bit_def blk_bit_def bit_get_u64 zero_block_def)

theorem bitmap_alloc_spec_witness:
  "case bitmap_alloc small_bitmap (small_dev 2 (\<lambda>_. False)) of (r, d') \<Rightarrow>
     r = 100 \<and> bm_used small_bitmap (dev_view d') = {0}"
proof -
  have "{} \<noteq> {..<32768 :: nat}" by (metis lessThan_empty_iff zero_neq_numeral)
  then show ?thesis
    using bitmap_alloc_spec[OF small_bitmap_ok]
    by (auto simp: small_bitmap_def[THEN arg_cong[where f = data_segment_offset]] lessThan_empty_iff
        split: prod.splits if_splits)
qed

text \<open>\<open>Bitmap::free\<close> of the identifier of a slot succeeds, clears that slot's bit and no
  other, and changes no block outside the bitmap.\<close>

theorem bitmap_free_spec:
  assumes "bm_ok bm d" "n < bm_slots bm" "n < 2 ^ 32"
  shows "\<exists>d'. bitmap_free (of_nat n + data_segment_offset bm) bm d = (kSuccess, d') \<and> bm_ok bm d' \<and>
     bm_used bm (dev_view d') = bm_used bm (dev_view d) - {n} \<and>
     (\<forall>b. b \<notin> bm_region bm \<longrightarrow> dev_view d' b = dev_view d b)"
  by (rule bitmap_free_ok[OF assms]) (use assms in \<open>auto simp: bm_step_def intro: bm_ok_same\<close>)

theorem bitmap_free_spec_witness:
  "\<exists>d'. bitmap_free (of_nat 5 + data_segment_offset small_bitmap) small_bitmap
       (small_dev 2 (\<lambda>_. False)) = (kSuccess, d') \<and> bm_used small_bitmap (dev_view d') = {}"
  using bitmap_free_spec[OF small_bitmap_ok, of 5] by auto

text \<open>Allocation and release are inverse. From a bitmap with a free slot, freeing what
  \<open>alloc\<close> returned succeeds and leaves exactly the slots in use that were in use before.\<close>

theorem bitmap_alloc_free:
  assumes "bm_ok bm d" "bm_slots bm \<le> 2 ^ 32" "bm_used bm (dev_view d) \<noteq> {..<bm_slots bm}"
  shows "\<exists>i d1 d2. bitmap_alloc bm d = (i, d1) \<and> bitmap_free i bm d1 = (kSuccess, d2) \<and>
     bm_used bm (dev_view d2) = bm_used bm (dev_view d)"
  using bitmap.alloc_release[of bm d] assms by blast

theorem bitmap_alloc_free_witness:
  "\<exists>i d1 d2. bitmap_alloc small_bitmap (small_dev 2 (\<lambda>_. False)) = (i, d1) \<and>
     bitmap_free i small_bitmap d1 = (kSuccess, d2) \<and> bm_used small_bitmap (dev_view d2) = {}"
proof -
  have "{..<32768 :: nat} \<noteq> {}" by (simp add: lessThan_empty_iff)
  then show ?thesis using bitmap_alloc_free[OF small_bitmap_ok] by simp
qed

end
