(* ===== verification/Fs_Layout.thy ===== *)
theory Fs_Layout
  imports Bitmap
begin

text \<open>
  The on-disk structures of \<open>include/fs_layout.h\<close> as records, with their byte layout:
  \<open>Position\<close>, \<open>SuperBlock\<close> (one block), \<open>DiskInode\<close> (128 bytes) and \<open>DirEntry\<close> (256
  bytes). The code moves them between memory and blocks by \<open>memcpy\<close> and pointer casts; here
  that is an encoder and a decoder per structure, with the round trips as lemmas.
\<close>

section \<open>Positions and the super block\<close>

record Position =
  pos_block_id :: blk_id_t
  pos_block_offset :: u32

definition Position_invalid :: Position where
  "Position_invalid = \<lparr>pos_block_id = -1, pos_block_offset = -1\<rparr>"

definition Position_isValid :: "Position \<Rightarrow> bool" where
  "Position_isValid p \<longleftrightarrow> pos_block_id p \<noteq> -1"

text \<open>\<open>sb_padding\<close> is the memory of the structure; its bytes from 32 on are the padding.\<close>

record SuperBlock =
  sb_magic :: u32
  sb_total_blocks :: u32
  sb_inode_bitmap_blocks :: u32
  sb_inode_area_blocks :: u32
  sb_data_bitmap_blocks :: u32
  sb_data_area_blocks :: u32
  sb_root_inode_pos :: Position
  sb_padding :: mem

definition SuperBlock_isValid :: "SuperBlock \<Rightarrow> bool" where
  "SuperBlock_isValid sb \<longleftrightarrow> sb_magic sb = kFSMagic"

text \<open>\<open>(Block *)&super_block_\<close> as the source of a write, and as the target of a read.\<close>

definition put_super :: "SuperBlock \<Rightarrow> block" where
  "put_super sb =
     put_u32 (put_u32 (put_u32 (put_u32 (put_u32 (put_u32 (put_u32 (put_u32 (sb_padding sb)
       0 (sb_magic sb)) 4 (sb_total_blocks sb)) 8 (sb_inode_bitmap_blocks sb))
       12 (sb_inode_area_blocks sb)) 16 (sb_data_bitmap_blocks sb)) 20 (sb_data_area_blocks sb))
       24 (pos_block_id (sb_root_inode_pos sb))) 28 (pos_block_offset (sb_root_inode_pos sb))"

definition get_super :: "block \<Rightarrow> SuperBlock" where
  "get_super m =
     \<lparr>sb_magic = get_u32 m 0, sb_total_blocks = get_u32 m 4, sb_inode_bitmap_blocks = get_u32 m 8,
      sb_inode_area_blocks = get_u32 m 12, sb_data_bitmap_blocks = get_u32 m 16,
      sb_data_area_blocks = get_u32 m 20,
      sb_root_inode_pos = \<lparr>pos_block_id = get_u32 m 24, pos_block_offset = get_u32 m 28\<rparr>,
      sb_padding = m\<rparr>"

section \<open>Disk inodes\<close>

text \<open>\<open>enum DiskInodeType : uint32_t\<close>; a value read from disk may be any 32-bit number.\<close>

definition kFile :: u32 where
  "kFile = 0"

definition kDirectory :: u32 where
  "kDirectory = 1"

record DiskInode =
  di_size :: u32
  access_time :: u32
  change_time :: u32
  modify_time :: u32
  di_uid :: u16
  di_gid :: u16
  link_cnt :: u16
  di_mode :: u16
  direct :: "blk_id_t list"
  indirect1 :: blk_id_t
  indirect2 :: blk_id_t
  di_type :: u32

definition sizeof_DiskInode :: nat where
  "sizeof_DiskInode = 128"

text \<open>The array \<open>direct\<close> has \<open>kInodeDirectCnt\<close> entries.\<close>

definition DiskInode_wf :: "DiskInode \<Rightarrow> bool" where
  "DiskInode_wf ino \<longleftrightarrow> length (direct ino) = kInodeDirectCnt"

text \<open>Arrays of 32-bit words in memory.\<close>

fun put_u32s :: "mem \<Rightarrow> nat \<Rightarrow> u32 list \<Rightarrow> mem" where
  "put_u32s m p [] = m"
| "put_u32s m p (v # vs) = put_u32s (put_u32 m p v) (p + 4) vs"

definition get_u32s :: "mem \<Rightarrow> nat \<Rightarrow> nat \<Rightarrow> u32 list" where
  "get_u32s m p n = map (\<lambda>i. get_u32 m (p + 4 * i)) [0..<n]"

text \<open>\<open>memcpy(buf, blk.data + p, sizeof(DiskInode))\<close> and its converse.\<close>

definition get_inode :: "mem \<Rightarrow> nat \<Rightarrow> DiskInode" where
  "get_inode m p =
     \<lparr>di_size = get_u32 m p, access_time = get_u32 m (p + 4), change_time = get_u32 m (p + 8),
      modify_time = get_u32 m (p + 12), di_uid = get_u16 m (p + 16), di_gid = get_u16 m (p + 18),
      link_cnt = get_u16 m (p + 20), di_mode = get_u16 m (p + 22),
      direct = get_u32s m (p + 24) kInodeDirectCnt,
      indirect1 = get_u32 m (p + 116), indirect2 = get_u32 m (p + 120),
      di_type = get_u32 m (p + 124)\<rparr>"

definition put_inode :: "mem \<Rightarrow> nat \<Rightarrow> DiskInode \<Rightarrow> mem" where
  "put_inode m p ino =
     (let m1 = put_u32 (put_u32 (put_u32 (put_u32 m p (di_size ino)) (p + 4) (access_time ino))
                 (p + 8) (change_time ino)) (p + 12) (modify_time ino);
          m2 = put_u16 (put_u16 (put_u16 (put_u16 m1 (p + 16) (di_uid ino)) (p + 18) (di_gid ino))
                 (p + 20) (link_cnt ino)) (p + 22) (di_mode ino);
          m3 = put_u32s m2 (p + 24) (direct ino)
      in put_u32 (put_u32 (put_u32 m3 (p + 116) (indirect1 ino)) (p + 120) (indirect2 ino))
           (p + 124) (di_type ino))"

section \<open>Directory entries\<close>

text \<open>A C string is its bytes without the terminating NUL.\<close>

type_synonym cstring = "u8 list"

definition sizeof_DirEntry :: nat where
  "sizeof_DirEntry = 256"

text \<open>\<open>DirEntry(const char *name, uint32_t inode)\<close>: zeroed, the name cut to
  \<open>kMaxDirNameLength\<close> bytes by \<open>strncpy\<close>.\<close>

definition DirEntry :: "cstring \<Rightarrow> u32 \<Rightarrow> mem" where
  "DirEntry name inode =
     put_u32 (\<lambda>i. if i < min (length name) kMaxDirNameLength then name ! i else 0) 252 inode"

text \<open>\<open>DirEntry()\<close> at offset \<open>p\<close> of uninitialised memory \<open>m\<close>.\<close>

definition DirEntry_default :: "mem \<Rightarrow> nat \<Rightarrow> mem" where
  "DirEntry_default m p = put_u32 (m(p := 0)) (p + 252) 0"

definition DirEntry_isValid :: "mem \<Rightarrow> nat \<Rightarrow> bool" where
  "DirEntry_isValid m p \<longleftrightarrow> m p \<noteq> 0"

definition DirEntry_inode :: "mem \<Rightarrow> nat \<Rightarrow> u32" where
  "DirEntry_inode m p = get_u32 m (p + 252)"

text \<open>\<open>strcmp(entry.name, name) == 0\<close> for the entry at offset \<open>p\<close>.\<close>

definition strcmp_eq :: "mem \<Rightarrow> nat \<Rightarrow> cstring \<Rightarrow> bool" where
  "strcmp_eq m p name \<longleftrightarrow> (\<forall>i \<in> {..<length name}. m (p + i) = name ! i) \<and> m (p + length name) = 0"

section \<open>Round trips\<close>

lemma put_u32s_outside: "i < p \<or> p + 4 * length vs \<le> i \<Longrightarrow> put_u32s m p vs i = m i"
  by (induction vs arbitrary: m p) (auto simp: put_u32_outside)

lemma get_u32_put_u32s_other:
  "q + 4 \<le> p \<or> p + 4 * length vs \<le> q \<Longrightarrow> get_u32 (put_u32s m p vs) q = get_u32 m q"
  by (rule get_u32_cong) (auto simp: put_u32s_outside)

lemma get_u16_put_u32s_other:
  "q + 2 \<le> p \<or> p + 4 * length vs \<le> q \<Longrightarrow> get_u16 (put_u32s m p vs) q = get_u16 m q"
  by (rule get_u16_cong) (auto simp: put_u32s_outside)

lemma get_put_u32s_nth: "k < length vs \<Longrightarrow> get_u32 (put_u32s m p vs) (p + 4 * k) = vs ! k"
proof (induction vs arbitrary: m p k)
  case Nil
  then show ?case by simp
next
  case (Cons v vs)
  show ?case
  proof (cases k)
    case 0
    then show ?thesis by (simp add: get_u32_put_u32s_other get_put_u32)
  next
    case (Suc k')
    then show ?thesis using Cons.IH[of k' "put_u32 m p v" "p + 4"] Cons.prems by (simp add: ac_simps)
  qed
qed

lemma get_put_u32s: "get_u32s (put_u32s m p vs) p (length vs) = vs"
  by (rule nth_equalityI) (auto simp: get_u32s_def get_put_u32s_nth)

lemma get_u32s_cong:
  "(\<And>i. p \<le> i \<Longrightarrow> i < p + 4 * n \<Longrightarrow> m i = m' i) \<Longrightarrow> get_u32s m p n = get_u32s m' p n"
  by (auto simp: get_u32s_def intro!: get_u32_cong)

lemma put_inode_outside:
  assumes "DiskInode_wf ino" "i < p \<or> p + sizeof_DiskInode \<le> i"
  shows "put_inode m p ino i = m i"
  using assms
  by (auto simp: put_inode_def Let_def DiskInode_wf_def kInodeDirectCnt_def sizeof_DiskInode_def
      put_u32_outside put_u16_outside put_u32s_outside)

lemma get_inode_wf [simp]: "DiskInode_wf (get_inode m p)"
  by (simp add: DiskInode_wf_def get_inode_def get_u32s_def)

lemma get_put_inode:
  assumes "DiskInode_wf ino"
  shows "get_inode (put_inode m p ino) p = ino"
proof -
  have len: "length (direct ino) = 23" using assms by (simp add: DiskInode_wf_def kInodeDirectCnt_def)
  have "get_u32s (put_inode m p ino) (p + 24) 23 = direct ino"
  proof -
    define m2 where "m2 = put_u16 (put_u16 (put_u16 (put_u16 (put_u32 (put_u32 (put_u32
       (put_u32 m p (di_size ino)) (p + 4) (access_time ino)) (p + 8) (change_time ino)) (p + 12)
       (modify_time ino)) (p + 16) (di_uid ino)) (p + 18) (di_gid ino)) (p + 20) (link_cnt ino))
       (p + 22) (di_mode ino)"
    have "get_u32s (put_inode m p ino) (p + 24) 23 = get_u32s (put_u32s m2 (p + 24) (direct ino)) (p + 24) 23"
      by (rule get_u32s_cong) (simp add: put_inode_def Let_def m2_def put_u32_outside)
    then show ?thesis using get_put_u32s[of m2 "p + 24" "direct ino"] len by simp
  qed
  then show ?thesis
    by (simp add: get_inode_def kInodeDirectCnt_def)
      (simp add: put_inode_def Let_def mem_simps get_u32_put_u32s_other get_u16_put_u32s_other len)
qed

lemma get_inode_cong:
  assumes "\<And>i. p \<le> i \<Longrightarrow> i < p + sizeof_DiskInode \<Longrightarrow> m i = m' i"
  shows "get_inode m p = get_inode m' p"
  using assms
  by (auto simp: get_inode_def sizeof_DiskInode_def kInodeDirectCnt_def
      intro!: get_u32_cong get_u16_cong get_u32s_cong)

text \<open>A disk inode stored at some offset of a block is read back as it was, and no byte
  outside its 128 bytes changes.\<close>

theorem inode_round_trip:
  assumes "DiskInode_wf ino"
  shows "get_inode (put_inode m p ino) p = ino \<and>
     (\<forall>i. i < p \<or> p + sizeof_DiskInode \<le> i \<longrightarrow> put_inode m p ino i = m i)"
  using get_put_inode[OF assms] put_inode_outside[OF assms] by blast

definition zero_inode :: DiskInode where
  "zero_inode = \<lparr>di_size = 0, access_time = 0, change_time = 0, modify_time = 0, di_uid = 0,
     di_gid = 0, link_cnt = 0, di_mode = 0, direct = replicate 23 0, indirect1 = 0, indirect2 = 0,
     di_type = 0\<rparr>"

lemma zero_inode_wf [simp]: "DiskInode_wf zero_inode"
  by (simp add: DiskInode_wf_def zero_inode_def kInodeDirectCnt_def)

theorem inode_round_trip_witness:
  "get_inode (put_inode zero_block 128 (zero_inode\<lparr>di_size := 5\<rparr>)) 128 = zero_inode\<lparr>di_size := 5\<rparr>"
  using inode_round_trip[of "zero_inode\<lparr>di_size := 5\<rparr>" zero_block 128]
  by (simp add: DiskInode_wf_def zero_inode_def kInodeDirectCnt_def)

lemma get_put_super: "get_super (put_super sb) = sb\<lparr>sb_padding := put_super sb\<rparr>"
  by (simp add: get_super_def put_super_def mem_simps)

text \<open>A stored entry matches exactly the names that agree with its own on the first
  \<open>kMaxDirNameLength\<close> bytes, for names without an embedded NUL.\<close>

lemma DirEntry_inode_DirEntry: "DirEntry_inode (DirEntry name inode) 0 = inode"
  by (simp add: DirEntry_inode_def DirEntry_def get_put_u32)

lemma DirEntry_byte:
  "i < 252 \<Longrightarrow> DirEntry name inode i = (if i < min (length name) kMaxDirNameLength then name ! i else 0)"
  by (simp add: DirEntry_def put_u32_outside)

lemma strcmp_DirEntry:
  assumes "length name \<le> kMaxDirNameLength" "length name' \<le> kMaxDirNameLength"
    and "0 \<notin> set name" "0 \<notin> set name'"
  shows "strcmp_eq (DirEntry name inode) 0 name' \<longleftrightarrow> name' = name"
proof
  assume eq: "strcmp_eq (DirEntry name inode) 0 name'"
  have b: "DirEntry name inode i = (if i < length name then name ! i else 0)" if "i < 252" for i
    using DirEntry_byte[OF that] assms(1) by simp
  have l: "length name' < 252" "length name < 252" using assms by (auto simp: kMaxDirNameLength_def)
  have nth: "i < length name' \<Longrightarrow> (if i < length name then name ! i else 0) = name' ! i" for i
    using eq b[of i] l by (auto simp: strcmp_eq_def)
  have "\<not> length name < length name'"
    using nth[of "length name"] nth_mem[of "length name" name'] assms(4) by auto
  moreover have "\<not> length name' < length name"
  proof
    assume l': "length name' < length name"
    have "DirEntry name inode (length name') = 0" using eq by (simp add: strcmp_eq_def)
    then have "name ! length name' = 0" using b[of "length name'"] l l' by simp
    then show False using nth_mem[OF l'] assms(3) by metis
  qed
  ultimately have "length name = length name'" by simp
  then show "name' = name" using nth by (auto intro: nth_equalityI)
next
  assume "name' = name"
  then show "strcmp_eq (DirEntry name inode) 0 name'"
    using assms(1) by (auto simp: strcmp_eq_def DirEntry_byte kMaxDirNameLength_def)
qed

end
