(* ===== verification/Disk_Inode.thy ===== *)
theory Disk_Inode
  imports Fs_Layout
begin

text \<open>
  The operations of \<open>src/disk_inode.cpp\<close>: the map from block numbers within a file to block
  numbers of the device (\<open>block_id\<close>), growing and shrinking a file (\<open>increase\<close>, \<open>decrease\<close>,
  \<open>resize\<close>, \<open>clear\<close>), reading, writing and syncing its data, and the two operations of
  \<open>src/inode.cpp\<close> that move a disk inode between memory and its block, which \<open>decrease\<close> calls.

  A method of \<open>DiskInode\<close> takes the inode and the device and returns both with its result.
  Block counts are ints in the code and natural numbers here: they are quotients of 32-bit
  sizes by 4096. The block buffers on the stack that \<open>BlockDevice::read\<close> fills are passed as
  \<open>zero_block\<close>: their contents are not looked at when the read fails. \<open>time(nullptr)\<close> is the
  argument \<open>now\<close>.
\<close>

section \<open>Constants and counts\<close>

definition INODE_DIRECT_COUNT :: nat where
  "INODE_DIRECT_COUNT = kInodeDirectCnt"

definition INODE_INDIRECT_COUNT :: nat where
  "INODE_INDIRECT_COUNT = kBlockSize div 4"

definition MAX_BLOCK_SIZE :: u32 where
  "MAX_BLOCK_SIZE = of_nat (INODE_DIRECT_COUNT + INODE_INDIRECT_COUNT + INODE_INDIRECT_COUNT * INODE_INDIRECT_COUNT)"

definition S_IFDIR :: u16 where
  "S_IFDIR = 0x4000"

definition S_IFREG :: u16 where
  "S_IFREG = 0x8000"

definition DiskInode_new :: "u32 \<Rightarrow> u32 \<Rightarrow> u16 \<Rightarrow> u16 \<Rightarrow> DiskInode" where
  "DiskInode_new type now uid gid =
     \<lparr>di_size = 0, access_time = now, change_time = now, modify_time = now, di_uid = uid,
      di_gid = gid, link_cnt = 1, di_mode = (if type = kDirectory then S_IFDIR else S_IFREG),
      direct = replicate kInodeDirectCnt 0, indirect1 = 0, indirect2 = 0, di_type = type\<rparr>"

text \<open>The sum is computed in 64 bits, since \<open>kBlockSize\<close> is a \<open>uint64_t\<close>.\<close>

definition data_blocks :: "u32 \<Rightarrow> u32" where
  "data_blocks sz = of_nat ((unat sz + kBlockSize - 1) div kBlockSize)"

definition total_blocks :: "u32 \<Rightarrow> u32" where
  "total_blocks sz =
     (let data = data_blocks sz;
          dir = of_nat INODE_DIRECT_COUNT;
          ind = of_nat INODE_INDIRECT_COUNT
      in if data < dir then data
         else if data - dir < ind then data + 1
         else (let rest = data - dir - ind in data + 2 + (rest + ind - 1) div ind))"

text \<open>Flag bits: 1 access, 2 modify, 4 change.\<close>

definition update_meta :: "int \<Rightarrow> u32 \<Rightarrow> DiskInode \<Rightarrow> DiskInode" where
  "update_meta flag now ino =
     (let a = (if flag AND 1 \<noteq> 0 then ino\<lparr>access_time := now\<rparr> else ino);
          b = (if flag AND 2 \<noteq> 0 then a\<lparr>modify_time := now\<rparr> else a)
      in if flag AND 4 \<noteq> 0 then b\<lparr>change_time := now\<rparr> else b)"

section \<open>From file blocks to device blocks\<close>

definition block_id :: "u32 \<Rightarrow> DiskInode \<Rightarrow> dev \<Rightarrow> blk_id_t \<times> dev" where
  "block_id inner_id ino d =
     (if MAX_BLOCK_SIZE \<le> inner_id then (kFail32, d)
      else if unat inner_id < INODE_DIRECT_COUNT then (direct ino ! unat inner_id, d)
      else if unat inner_id < INODE_DIRECT_COUNT + INODE_INDIRECT_COUNT then
        (let idx = unat inner_id - INODE_DIRECT_COUNT;
             (r, buf, d1) = dev_read (indirect1 ino) zero_block d
         in if r \<noteq> kSuccess then (kFail32, d1) else (get_u32 buf (4 * idx), d1))
      else
        (let idx = unat inner_id - INODE_DIRECT_COUNT - INODE_INDIRECT_COUNT;
             blk = idx div INODE_INDIRECT_COUNT;
             (r, buf, d1) = dev_read (indirect2 ino) zero_block d
         in if r \<noteq> kSuccess then (kFail32, d1)
            else
              (let blk_id = get_u32 buf (4 * blk);
                   (r2, buf2, d2) = dev_read blk_id zero_block d1
               in if r2 \<noteq> kSuccess then (kFail32, d2)
                  else (get_u32 buf2 (4 * (idx mod INODE_INDIRECT_COUNT)), d2))))"

section \<open>Inodes in their blocks\<close>

text \<open>\<open>Inode::read_inode\<close> into \<open>buf\<close> and \<open>Inode::write_inode\<close>, for the inode at \<open>pos\<close>.\<close>

definition read_inode :: "Position \<Rightarrow> DiskInode \<Rightarrow> dev \<Rightarrow> int \<times> DiskInode \<times> dev" where
  "read_inode pos buf d =
     (let (r, blk, d1) = dev_read (pos_block_id pos) zero_block d in
      if r = kFail then (kFail, buf, d1)
      else (kSuccess, get_inode blk (unat (pos_block_offset pos)), d1))"

definition write_inode :: "Position \<Rightarrow> DiskInode \<Rightarrow> dev \<Rightarrow> int \<times> dev" where
  "write_inode pos buf d =
     (let (r, blk, d1) = dev_read (pos_block_id pos) zero_block d in
      if r = kFail then (kFail, d1)
      else
        (let (r2, d2) = dev_write (pos_block_id pos) (put_inode blk (unat (pos_block_offset pos)) buf) d1
         in if r2 = kFail then (kFail, d2) else (kSuccess, d2)))"

section \<open>Growing\<close>

text \<open>The three loops of \<open>increase\<close>, each over the file blocks still to allocate. In the third
  one \<open>blk_limit\<close> is the last entry of the second-level index that is in use.\<close>

primrec increase_direct :: "nat list \<Rightarrow> Bitmap \<Rightarrow> DiskInode \<Rightarrow> dev \<Rightarrow> int \<times> DiskInode \<times> dev" where
  "increase_direct [] bm ino d = (kSuccess, ino, d)"
| "increase_direct (i # js) bm ino d =
     (let (new_blk, d1) = bitmap_alloc bm d in
      if new_blk = kFail32 then (kFail, ino, d1)
      else increase_direct js bm (ino\<lparr>direct := (direct ino)[i := new_blk]\<rparr>) d1)"

primrec increase_ind1 :: "nat list \<Rightarrow> Bitmap \<Rightarrow> block \<Rightarrow> dev \<Rightarrow> int \<times> block \<times> dev" where
  "increase_ind1 [] bm p d = (kSuccess, p, d)"
| "increase_ind1 (i # js) bm p d =
     (let (new_blk, d1) = bitmap_alloc bm d in
      if new_blk = kFail32 then (kFail, p, d1)
      else increase_ind1 js bm (put_u32 p (4 * (i - INODE_DIRECT_COUNT)) new_blk) d1)"

text \<open>The part of an iteration of the third loop after the index block \<open>p[blk]\<close> is known.\<close>

definition increase_ind21 :: "nat \<Rightarrow> blk_id_t \<Rightarrow> Bitmap \<Rightarrow> dev \<Rightarrow> int \<times> dev" where
  "increase_ind21 j pblk bm d =
     (let (r, ind21, d1) = dev_read pblk zero_block d in
      if r \<noteq> kSuccess then (kFail, d1)
      else
        (let (new_blk, d2) = bitmap_alloc bm d1 in
         if new_blk = kFail32 then (kFail, d2)
         else
           (let (r2, d3) = dev_write pblk (put_u32 ind21 (4 * (j mod INODE_INDIRECT_COUNT)) new_blk) d2
            in if r2 \<noteq> kSuccess then (kFail, d3) else (kSuccess, d3))))"

primrec increase_ind2 ::
  "nat list \<Rightarrow> Bitmap \<Rightarrow> blk_id_t \<Rightarrow> int \<Rightarrow> block \<Rightarrow> dev \<Rightarrow> int \<times> dev" where
  "increase_ind2 [] bm ind2_id blk_limit p d = (kSuccess, d)"
| "increase_ind2 (i # js) bm ind2_id blk_limit p d =
     (let j = i - INODE_DIRECT_COUNT - INODE_INDIRECT_COUNT;
          blk = j div INODE_INDIRECT_COUNT
      in if int blk > blk_limit then
           (let (new_ind1, d1) = bitmap_alloc bm d in
            if new_ind1 = kFail32 then (kFail, d1)
            else
              (let p' = put_u32 p (4 * blk) new_ind1;
                   (r, d2) = dev_write ind2_id p' d1
               in if r \<noteq> kSuccess then (kFail, d2)
                  else
                    (let (r3, d3) = increase_ind21 j (get_u32 p' (4 * blk)) bm d2 in
                     if r3 \<noteq> kSuccess then (kFail, d3)
                     else increase_ind2 js bm ind2_id (blk_limit + 1) p' d3)))
         else
           (let (r3, d3) = increase_ind21 j (get_u32 p (4 * blk)) bm d in
            if r3 \<noteq> kSuccess then (kFail, d3)
            else increase_ind2 js bm ind2_id blk_limit p d3))"

text \<open>Steps two and three of \<open>increase\<close>, with the allocation of the index block if the inode
  has none yet.\<close>

definition increase_step2 :: "nat \<Rightarrow> nat \<Rightarrow> Bitmap \<Rightarrow> DiskInode \<Rightarrow> dev \<Rightarrow> int \<times> DiskInode \<times> dev" where
  "increase_step2 old_data_blocks new_data_blocks bm ino d =
     (let (b, d0) = (if indirect1 ino = 0 then bitmap_alloc bm d else (indirect1 ino, d));
          ino0 = ino\<lparr>indirect1 := b\<rparr>
      in if indirect1 ino = 0 \<and> b = kFail32 then (kFail, ino0, d0)
         else
           (let (r, ind1, d1) = dev_read b zero_block d0 in
            if r \<noteq> kSuccess then (kFail, ino0, d1)
            else
              (let (r2, p, d2) = increase_ind1 [max old_data_blocks INODE_DIRECT_COUNT..<
                     min new_data_blocks (INODE_DIRECT_COUNT + INODE_INDIRECT_COUNT)] bm ind1 d1
               in if r2 \<noteq> kSuccess then (kFail, ino0, d2)
                  else
                    (let (r3, d3) = dev_write b p d2
                     in if r3 \<noteq> kSuccess then (kFail, ino0, d3) else (kSuccess, ino0, d3)))))"

definition increase_step3 :: "nat \<Rightarrow> nat \<Rightarrow> Bitmap \<Rightarrow> DiskInode \<Rightarrow> dev \<Rightarrow> int \<times> DiskInode \<times> dev" where
  "increase_step3 old_data_blocks new_data_blocks bm ino d =
     (let (b, d0) = (if indirect2 ino = 0 then bitmap_alloc bm d else (indirect2 ino, d));
          ino0 = ino\<lparr>indirect2 := b\<rparr>
      in if indirect2 ino = 0 \<and> b = kFail32 then (kFail, ino0, d0)
         else
           (let (r, ind2, d1) = dev_read b zero_block d0 in
            if r \<noteq> kSuccess then (kFail, ino0, d1)
            else
              (let old_idx_limit = int old_data_blocks - int INODE_DIRECT_COUNT - int INODE_INDIRECT_COUNT - 1;
                   blk_limit = (if old_idx_limit < 0 then -1 else old_idx_limit div int INODE_INDIRECT_COUNT);
                   (r2, d2) = increase_ind2 [max old_data_blocks (INODE_DIRECT_COUNT + INODE_INDIRECT_COUNT)..<
                     new_data_blocks] bm b blk_limit ind2 d1
               in (r2, ino0, d2))))"

definition increase :: "nat \<Rightarrow> nat \<Rightarrow> Bitmap \<Rightarrow> DiskInode \<Rightarrow> dev \<Rightarrow> int \<times> DiskInode \<times> dev" where
  "increase old_data_blocks new_data_blocks bm ino d =
     (let (r1, ino1, d1) =
        increase_direct [old_data_blocks..<min new_data_blocks INODE_DIRECT_COUNT] bm ino d
      in if r1 \<noteq> kSuccess then (kFail, ino1, d1)
         else
           (let (r2, ino2, d2) =
              (if new_data_blocks > INODE_DIRECT_COUNT
               then increase_step2 old_data_blocks new_data_blocks bm ino1 d1
               else (kSuccess, ino1, d1))
            in if r2 \<noteq> kSuccess then (kFail, ino2, d2)
               else if new_data_blocks > INODE_DIRECT_COUNT + INODE_INDIRECT_COUNT
               then increase_step3 old_data_blocks new_data_blocks bm ino2 d2
               else (kSuccess, ino2, d2)))"

section \<open>Shrinking\<close>

text \<open>\<open>bitmap_to_free\<close> collects the blocks to release, in order. The inner loops of
  \<open>decrease\<close> push the entries of an index block and overwrite them with -1.\<close>

primrec push_entries :: "nat list \<Rightarrow> u32 list \<Rightarrow> block \<Rightarrow> u32 list \<times> block" where
  "push_entries [] fr p = (fr, p)"
| "push_entries (j # js) fr p = push_entries js (fr @ [get_u32 p (4 * j)]) (put_u32 p (4 * j) (-1))"

primrec decrease_direct :: "nat list \<Rightarrow> u32 list \<Rightarrow> DiskInode \<Rightarrow> u32 list \<times> DiskInode" where
  "decrease_direct [] fr ino = (fr, ino)"
| "decrease_direct (i # js) fr ino =
     decrease_direct js (fr @ [direct ino ! i]) (ino\<lparr>direct := (direct ino)[i := -1]\<rparr>)"

definition decrease_step2 ::
  "nat \<Rightarrow> nat \<Rightarrow> u32 list \<Rightarrow> DiskInode \<Rightarrow> dev \<Rightarrow> int \<times> u32 list \<times> DiskInode \<times> dev" where
  "decrease_step2 old_data_blocks new_data_blocks fr ino d =
     (if indirect1 ino = 0 then (kSuccess, fr, ino, d)
      else
        (let (r, ind1, d1) = dev_read (indirect1 ino) zero_block d in
         if r \<noteq> kSuccess then (kFail, fr, ino, d1)
         else
           (let (fr1, p) = push_entries
                  (map (\<lambda>i. i - INODE_DIRECT_COUNT) [max new_data_blocks INODE_DIRECT_COUNT..<
                     min old_data_blocks (INODE_DIRECT_COUNT + INODE_INDIRECT_COUNT)]) fr ind1
            in if new_data_blocks \<le> INODE_DIRECT_COUNT
               then (kSuccess, fr1 @ [indirect1 ino], ino\<lparr>indirect1 := 0\<rparr>, d1)
               else
                 (let (r2, d2) = dev_write (indirect1 ino) p d1
                  in if r2 \<noteq> kSuccess then (kFail, fr1, ino, d2) else (kSuccess, fr1, ino, d2)))))"

text \<open>Step three when the whole second-level index is released; \<open>p\<close> is that index and
  \<open>(jb, jo)\<close> is \<open>posj\<close>, the last entry in use.\<close>

primrec decrease_all_ind2 ::
  "nat list \<Rightarrow> nat \<times> nat \<Rightarrow> block \<Rightarrow> u32 list \<Rightarrow> dev \<Rightarrow> int \<times> u32 list \<times> dev" where
  "decrease_all_ind2 [] posj p fr d = (kSuccess, fr, d)"
| "decrease_all_ind2 (i # js) posj p fr d =
     (let (r, p2, d1) = dev_read (get_u32 p (4 * i)) zero_block d in
      if r \<noteq> kSuccess then (kFail, fr, d1)
      else
        (let (fr1, _) = push_entries
               (if i \<noteq> fst posj then [0..<INODE_INDIRECT_COUNT] else [0..<snd posj + 1]) fr p2
         in decrease_all_ind2 js posj p (fr1 @ [get_u32 p (4 * i)]) d1))"

text \<open>Step three when part of the second-level index stays in use. An index block that stays
  is written to block number \<open>i\<close>, its position in the index, as in the code.\<close>

primrec decrease_part_ind2 ::
  "nat list \<Rightarrow> nat \<times> nat \<Rightarrow> nat \<times> nat \<Rightarrow> block \<Rightarrow> u32 list \<Rightarrow> dev \<Rightarrow> int \<times> u32 list \<times> dev" where
  "decrease_part_ind2 [] posi posj p fr d = (kSuccess, fr, d)"
| "decrease_part_ind2 (i # js) posi posj p fr d =
     (let (r, p2, d1) = dev_read (get_u32 p (4 * i)) zero_block d in
      if r \<noteq> kSuccess then (kFail, fr, d1)
      else if i \<noteq> fst posi \<and> i \<noteq> fst posj then
        (let (fr1, _) = push_entries [0..<INODE_INDIRECT_COUNT] fr p2
         in decrease_part_ind2 js posi posj p (fr1 @ [get_u32 p (4 * i)]) d1)
      else if i = fst posi \<and> i \<noteq> fst posj then
        (let (fr1, p2') = push_entries [snd posi + 1..<INODE_INDIRECT_COUNT] fr p2;
             (r2, d2) = dev_write (of_nat i) p2' d1
         in if r2 \<noteq> kSuccess then (kFail, fr1, d2)
            else decrease_part_ind2 js posi posj p fr1 d2)
      else if i = fst posj \<and> i \<noteq> fst posi then
        (let (fr1, _) = push_entries [0..<snd posj + 1] fr p2
         in decrease_part_ind2 js posi posj p (fr1 @ [get_u32 p (4 * i)]) d1)
      else
        (let (fr1, p2') = push_entries [snd posi + 1..<snd posj + 1] fr p2;
             (r2, d2) = dev_write (of_nat i) p2' d1
         in if r2 \<noteq> kSuccess then (kFail, fr1, d2)
            else decrease_part_ind2 js posi posj p fr1 d2))"

definition decrease_step3 ::
  "nat \<Rightarrow> nat \<Rightarrow> u32 list \<Rightarrow> DiskInode \<Rightarrow> dev \<Rightarrow> int \<times> u32 list \<times> DiskInode \<times> dev" where
  "decrease_step3 old_data_blocks new_data_blocks fr ino d =
     (if indirect2 ino = 0 then (kSuccess, fr, ino, d)
      else
        (let ri = int new_data_blocks - int INODE_DIRECT_COUNT - int INODE_INDIRECT_COUNT - 1;
             rj = int old_data_blocks - int INODE_DIRECT_COUNT - int INODE_INDIRECT_COUNT - 1;
             posi = (nat ri div INODE_INDIRECT_COUNT, nat ri mod INODE_INDIRECT_COUNT);
             posj = (nat rj div INODE_INDIRECT_COUNT, nat rj mod INODE_INDIRECT_COUNT)
         in if ri < 0 \<and> rj \<ge> 0 then
              (let (r, p, d1) = dev_read (indirect2 ino) zero_block d in
               if r \<noteq> kSuccess then (kFail, fr, ino, d1)
               else
                 (let (r2, fr2, d2) = decrease_all_ind2 [0..<fst posj + 1] posj p fr d1
                  in if r2 \<noteq> kSuccess then (kFail, fr2, ino, d2)
                     else (kSuccess, fr2 @ [indirect2 ino], ino\<lparr>indirect2 := 0\<rparr>, d2)))
            else if ri \<ge> 0 \<and> rj \<ge> 0 then
              (let (r, p, d1) = dev_read (indirect2 ino) zero_block d in
               if r \<noteq> kSuccess then (kFail, fr, ino, d1)
               else
                 (let (r2, fr2, d2) = decrease_part_ind2 [fst posi..<fst posj + 1] posi posj p fr d1
                  in if r2 \<noteq> kSuccess then (kFail, fr2, ino, d2)
                     else
                       (let (r3, d3) = dev_write (indirect2 ino) p d2
                        in if r3 \<noteq> kSuccess then (kFail, fr2, ino, d3) else (kSuccess, fr2, ino, d3))))
            else (kSuccess, fr, ino, d)))"

primrec free_blocks :: "u32 list \<Rightarrow> Bitmap \<Rightarrow> dev \<Rightarrow> int \<times> dev" where
  "free_blocks [] bm d = (kSuccess, d)"
| "free_blocks (i # js) bm d =
     (let (r, d1) = bitmap_free i bm d in
      if r \<noteq> kSuccess then (kFail, d1) else free_blocks js bm d1)"

text \<open>\<open>inode\<close> is the position of the inode when the caller passes it; the result of
  \<open>write_inode\<close> is not looked at.\<close>

definition write_inode_opt :: "Position option \<Rightarrow> DiskInode \<Rightarrow> dev \<Rightarrow> dev" where
  "write_inode_opt inode ino d = (case inode of None \<Rightarrow> d | Some pos \<Rightarrow> snd (write_inode pos ino d))"

definition decrease ::
  "nat \<Rightarrow> nat \<Rightarrow> Bitmap \<Rightarrow> Position option \<Rightarrow> DiskInode \<Rightarrow> dev \<Rightarrow> int \<times> DiskInode \<times> dev" where
  "decrease old_data_blocks new_data_blocks bm inode ino d =
     (let (fr1, ino1) = decrease_direct [new_data_blocks..<min old_data_blocks INODE_DIRECT_COUNT] [] ino;
          (r2, fr2, ino2, d2) = decrease_step2 old_data_blocks new_data_blocks fr1 ino1 d
      in if r2 \<noteq> kSuccess then (kFail, ino2, d2)
         else
           (let (r3, fr3, ino3, d3) = decrease_step3 old_data_blocks new_data_blocks fr2 ino2 d2
            in if r3 \<noteq> kSuccess then (kFail, ino3, d3)
               else
                 (let (r4, d4) = free_blocks fr3 bm (write_inode_opt inode ino3 d3)
                  in (r4, ino3, d4))))"

definition resize ::
  "u32 \<Rightarrow> Bitmap \<Rightarrow> Position option \<Rightarrow> u32 \<Rightarrow> DiskInode \<Rightarrow> dev \<Rightarrow> int \<times> DiskInode \<times> dev" where
  "resize new_size bm inode now ino d =
     (let old_size = di_size ino;
          ino1 = (update_meta 7 now ino)\<lparr>di_size := new_size\<rparr>;
          old_data_blocks = unat (data_blocks old_size);
          new_data_blocks = unat (data_blocks new_size);
          old_blocks = total_blocks old_size;
          new_blocks = total_blocks new_size
      in if old_blocks = new_blocks then (kSuccess, ino1, write_inode_opt inode ino1 d)
         else if old_blocks > new_blocks then decrease old_data_blocks new_data_blocks bm inode ino1 d
         else increase old_data_blocks new_data_blocks bm ino1 d)"

text \<open>\<open>clear\<close> is private and has no caller. Its last loop steps \<open>i\<close> by 1024 and uses it as an
  index into the 1024 entries of the second-level index; what lies past the buffer is the
  argument \<open>past\<close>.\<close>

primrec clear_direct :: "nat list \<Rightarrow> Bitmap \<Rightarrow> DiskInode \<Rightarrow> dev \<Rightarrow> int \<times> DiskInode \<times> dev" where
  "clear_direct [] bm ino d = (kSuccess, ino, d)"
| "clear_direct (i # js) bm ino d =
     (let (r, d1) = bitmap_free (direct ino ! i) bm d in
      if r \<noteq> kSuccess then (kFail, ino, d1)
      else clear_direct js bm (ino\<lparr>direct := (direct ino)[i := -1]\<rparr>) d1)"

definition p2_entry :: "(nat \<Rightarrow> u32) \<Rightarrow> block \<Rightarrow> nat \<Rightarrow> u32" where
  "p2_entry past p2 i = (if i < INODE_INDIRECT_COUNT then get_u32 p2 (4 * i) else past i)"

primrec clear_ind2 :: "nat list \<Rightarrow> nat \<Rightarrow> (nat \<Rightarrow> u32) \<Rightarrow> block \<Rightarrow> Bitmap \<Rightarrow> dev \<Rightarrow> int \<times> dev" where
  "clear_ind2 [] rest past p2 bm d = (kSuccess, d)"
| "clear_ind2 (i # js) rest past p2 bm d =
     (let (r, p, d1) = dev_read (p2_entry past p2 i) zero_block d in
      if r \<noteq> kSuccess then (kFail, d1)
      else
        (let (r2, d2) = free_blocks (map (\<lambda>j. get_u32 p (4 * j)) [0..<min INODE_INDIRECT_COUNT (rest - i)]) bm d1 in
         if r2 \<noteq> kSuccess then (kFail, d2)
         else
           (let (r3, d3) = bitmap_free (p2_entry past p2 i) bm d2 in
            if r3 \<noteq> kSuccess then (kFail, d3) else clear_ind2 js rest past p2 bm d3)))"

definition clear_step2 :: "nat \<Rightarrow> Bitmap \<Rightarrow> DiskInode \<Rightarrow> dev \<Rightarrow> int \<times> dev" where
  "clear_step2 data_blks bm ino d =
     (if indirect1 ino \<noteq> 0 \<and> data_blks > INODE_INDIRECT_COUNT then
        (let (r, p, d1) = dev_read (indirect1 ino) zero_block d in
         if r \<noteq> kSuccess then (kFail, d1)
         else
           (let (r2, d2) = free_blocks (map (\<lambda>i. get_u32 p (4 * (i - INODE_DIRECT_COUNT)))
                  [INODE_DIRECT_COUNT..<min data_blks (INODE_DIRECT_COUNT + INODE_INDIRECT_COUNT)]) bm d1
            in if r2 \<noteq> kSuccess then (kFail, d2) else bitmap_free (indirect1 ino) bm d2))
      else (kSuccess, d))"

definition clear_step3 :: "nat \<Rightarrow> (nat \<Rightarrow> u32) \<Rightarrow> Bitmap \<Rightarrow> DiskInode \<Rightarrow> dev \<Rightarrow> int \<times> dev" where
  "clear_step3 data_blks past bm ino d =
     (if indirect2 ino \<noteq> 0 \<and> data_blks > INODE_DIRECT_COUNT + INODE_INDIRECT_COUNT then
        (let (r, p2, d1) = dev_read (indirect2 ino) zero_block d in
         if r \<noteq> kSuccess then (kFail, d1)
         else
           (let rest = data_blks - INODE_DIRECT_COUNT - INODE_INDIRECT_COUNT;
                (r2, d2) = clear_ind2 (filter (\<lambda>i. i mod INODE_INDIRECT_COUNT = 0) [0..<rest]) rest past p2 bm d1
            in if r2 \<noteq> kSuccess then (kFail, d2) else bitmap_free (indirect2 ino) bm d2))
      else (kSuccess, d))"

definition clear :: "(nat \<Rightarrow> u32) \<Rightarrow> Bitmap \<Rightarrow> DiskInode \<Rightarrow> dev \<Rightarrow> int \<times> DiskInode \<times> dev" where
  "clear past bm ino d =
     (let data_blks = unat (data_blocks (di_size ino));
          (r1, ino1, d1) = clear_direct [0..<min data_blks INODE_DIRECT_COUNT] bm ino d
      in if r1 \<noteq> kSuccess then (kFail, ino1, d1)
         else
           (let (r2, d2) = clear_step2 data_blks bm ino1 d1 in
            if r2 \<noteq> kSuccess then (kFail, ino1, d2)
            else (let (r3, d3) = clear_step3 data_blks past bm ino1 d2 in (r3, ino1, d3))))"

section \<open>Reading and writing data\<close>

text \<open>A file position converted to \<open>int\<close> and divided by the \<open>uint64_t\<close> block size: the int is
  sign-extended to 64 bits and the quotient cut to 32 bits again. Positions from \<open>2 ^ 31\<close> on
  are negative ints.\<close>

definition pos_block :: "u32 \<Rightarrow> u32" where
  "pos_block l = ucast ((scast l :: u64) div of_nat kBlockSize)"

definition pos_off :: "u32 \<Rightarrow> nat" where
  "pos_off l = unat ((scast l :: u64) mod of_nat kBlockSize)"

text \<open>The block of the file with number \<open>i\<close>: \<open>dev->read(block_id(i, dev), &data)\<close> and
  \<open>dev->write(block_id(i, dev), &data)\<close>.\<close>

definition read_blk :: "u32 \<Rightarrow> DiskInode \<Rightarrow> dev \<Rightarrow> int \<times> block \<times> dev" where
  "read_blk i ino d = (let (b, d1) = block_id i ino d in dev_read b zero_block d1)"

definition write_blk :: "u32 \<Rightarrow> block \<Rightarrow> DiskInode \<Rightarrow> dev \<Rightarrow> int \<times> dev" where
  "write_blk i data ino d = (let (b, d1) = block_id i ino d in dev_write b data d1)"

text \<open>The loop over the blocks strictly between the first and the last one.\<close>

primrec read_middle :: "int list \<Rightarrow> nat \<Rightarrow> mem \<Rightarrow> DiskInode \<Rightarrow> dev \<Rightarrow> int \<times> nat \<times> mem \<times> dev" where
  "read_middle [] bufoffset buf ino d = (kSuccess, bufoffset, buf, d)"
| "read_middle (i # js) bufoffset buf ino d =
     (let (r, data, d1) = read_blk (of_int i) ino d in
      if r \<noteq> kSuccess then (kFail, bufoffset, buf, d1)
      else read_middle js (bufoffset + kBlockSize) (memcpy buf bufoffset data 0 kBlockSize) ino d1)"

text \<open>\<open>read_data\<close> fills \<open>buf\<close>. The C code requires \<open>loff \<le> roff\<close> when both positions are in one
  block (the length of \<open>memcpy\<close> is unsigned); that fails only when \<open>offset + len\<close> wraps around.\<close>

definition read_data ::
  "u32 \<Rightarrow> mem \<Rightarrow> u32 \<Rightarrow> u32 \<Rightarrow> DiskInode \<Rightarrow> dev \<Rightarrow> int \<times> mem \<times> DiskInode \<times> dev" where
  "read_data offset buf len0 now ino0 d =
     (let ino = update_meta 1 now ino0 in
      if len0 = 0 then (kSuccess, buf, ino, d)
      else if offset > di_size ino then (kFail, buf, ino, d)
      else
        (let len = (if offset + len0 \<ge> di_size ino then di_size ino - offset else len0);
             lid = pos_block offset; rid = pos_block (offset + len);
             loff = pos_off offset; roff = pos_off (offset + len)
         in if lid = rid then
              (let (r, data, d1) = read_blk lid ino d in
               if r \<noteq> kSuccess then (kFail, buf, ino, d1)
               else (sint len, memcpy buf 0 data loff (roff - loff), ino, d1))
            else
              (let (r, data, d1) = read_blk lid ino d in
               if r \<noteq> kSuccess then (kFail, buf, ino, d1)
               else
                 (let (r2, bufoffset, buf2, d2) = read_middle [sint lid + 1..sint rid - 1]
                        (kBlockSize - loff) (memcpy buf 0 data loff (kBlockSize - loff)) ino d1
                  in if r2 \<noteq> kSuccess then (kFail, buf2, ino, d2)
                     else if roff > 0 then
                       (let (r3, data3, d3) = read_blk rid ino d2 in
                        if r3 \<noteq> kSuccess then (kFail, buf2, ino, d3)
                        else (sint len, memcpy buf2 bufoffset data3 0 roff, ino, d3))
                     else (sint len, buf2, ino, d2)))))"

text \<open>In the middle loop of \<open>write_data\<close> the block buffer \<open>data\<close> is overwritten whole.\<close>

primrec write_middle :: "int list \<Rightarrow> nat \<Rightarrow> mem \<Rightarrow> block \<Rightarrow> DiskInode \<Rightarrow> dev \<Rightarrow> int \<times> nat \<times> dev" where
  "write_middle [] bufoffset buf data ino d = (kSuccess, bufoffset, d)"
| "write_middle (i # js) bufoffset buf data ino d =
     (let data' = memcpy data 0 buf bufoffset kBlockSize;
          (r, d1) = write_blk (of_int i) data' ino d
      in if r \<noteq> kSuccess then (kFail, bufoffset + kBlockSize, d1)
         else write_middle js (bufoffset + kBlockSize) buf data' ino d1)"

text \<open>Where a block is changed in place, its number is looked up once.\<close>

definition patch_blk :: "u32 \<Rightarrow> nat \<Rightarrow> mem \<Rightarrow> nat \<Rightarrow> nat \<Rightarrow> DiskInode \<Rightarrow> dev \<Rightarrow> int \<times> block \<times> dev" where
  "patch_blk i off buf bufoffset n ino d =
     (let (b, d1) = block_id i ino d;
          (r, data, d2) = dev_read b zero_block d1
      in if r \<noteq> kSuccess then (kFail, data, d2)
         else
           (let data' = memcpy data off buf bufoffset n;
                (r2, d3) = dev_write b data' d2
            in if r2 \<noteq> kSuccess then (kFail, data', d3) else (kSuccess, data', d3)))"

definition write_data ::
  "u32 \<Rightarrow> mem \<Rightarrow> u32 \<Rightarrow> u32 \<Rightarrow> DiskInode \<Rightarrow> dev \<Rightarrow> int \<times> DiskInode \<times> dev" where
  "write_data offset buf len0 now ino0 d =
     (let ino = update_meta 3 now ino0 in
      if len0 = 0 then (kSuccess, ino, d)
      else if offset > di_size ino then (kFail, ino, d)
      else
        (let len = (if offset + len0 \<ge> di_size ino then di_size ino - offset else len0);
             lid = pos_block offset; rid = pos_block (offset + len);
             loff = pos_off offset; roff = pos_off (offset + len)
         in if lid = rid then
              (let (r, _, d1) = patch_blk lid loff buf 0 (roff - loff) ino d in
               if r \<noteq> kSuccess then (kFail, ino, d1) else (sint len, ino, d1))
            else
              (let (r, data, d1) = patch_blk lid loff buf 0 (kBlockSize - loff) ino d in
               if r \<noteq> kSuccess then (kFail, ino, d1)
               else
                 (let (r2, bufoffset, d2) = write_middle [sint lid + 1..sint rid - 1]
                        (kBlockSize - loff) buf data ino d1
                  in if r2 \<noteq> kSuccess then (kFail, ino, d2)
                     else if roff > 0 then
                       (let (r3, _, d3) = patch_blk rid 0 buf bufoffset roff ino d2 in
                        if r3 \<noteq> kSuccess then (kFail, ino, d3) else (sint len, ino, d3))
                     else (sint len, ino, d2)))))"

section \<open>Syncing\<close>

primrec sync_data_blocks :: "nat list \<Rightarrow> DiskInode \<Rightarrow> dev \<Rightarrow> int \<times> dev" where
  "sync_data_blocks [] ino d = (kSuccess, d)"
| "sync_data_blocks (i # js) ino d =
     (let (b, d1) = block_id (of_nat i) ino d;
          (r, d2) = dev_sync b d1
      in if r \<noteq> kSuccess then (kFail, d2) else sync_data_blocks js ino d2)"

primrec sync_blocks :: "u32 list \<Rightarrow> dev \<Rightarrow> int \<times> dev" where
  "sync_blocks [] d = (kSuccess, d)"
| "sync_blocks (b # bs) d =
     (let (r, d1) = dev_sync b d in if r \<noteq> kSuccess then (kFail, d1) else sync_blocks bs d1)"

definition sync_indirect :: "DiskInode \<Rightarrow> dev \<Rightarrow> int \<times> dev" where
  "sync_indirect ino d =
     (let (r1, d1) = (if indirect1 ino \<noteq> 0 then dev_sync (indirect1 ino) d else (kSuccess, d)) in
      if r1 \<noteq> kSuccess then (kFail, d1)
      else if indirect2 ino \<noteq> 0 then
        (let rest = sint (total_blocks (di_size ino) - data_blocks (di_size ino) - 2);
             (r2, buf, d2) = dev_read (indirect2 ino) zero_block d1
         in if r2 \<noteq> kSuccess then (kFail, d2)
            else
              (let (r3, d3) = sync_blocks (map (\<lambda>i. get_u32 buf (4 * i)) [0..<nat rest]) d2
               in if r3 \<noteq> kSuccess then (kFail, d3)
                  else
                    (let (r4, d4) = dev_sync (indirect2 ino) d3
                     in if r4 \<noteq> kSuccess then (kFail, d4) else (kSuccess, d4))))
      else (kSuccess, d1))"

definition sync_data :: "bool \<Rightarrow> DiskInode \<Rightarrow> dev \<Rightarrow> int \<times> dev" where
  "sync_data indirect ino d =
     (let (r, d1) = sync_data_blocks [0..<unat (data_blocks (di_size ino))] ino d
      in if r \<noteq> kSuccess then (kFail, d1)
         else if indirect then sync_indirect ino d1 else (kSuccess, d1))"

end
