(* ===== verification/Inode_Map.thy ===== *)
theory Inode_Map
  imports Disk_Inode
begin

text \<open>
  What the block map of an inode means. The blocks of a file form a tree of data blocks and
  index blocks; \<open>nodes n\<close> are the nodes of the tree for \<open>n\<close> data blocks and \<open>node_blk\<close> is the
  device block of a node, read off the inode and the contents of the device. An inode is well
  formed (\<open>inode_ok\<close>) when its nodes lie on the device and no two share a block. Under this
  invariant the lemmas show that \<open>block_id\<close> computes \<open>node_blk\<close>, and that \<open>read_data\<close> and
  \<open>write_data\<close> are reading and overwriting of a byte sequence.
\<close>

section \<open>Block counts\<close>

lemmas inode_consts = INODE_DIRECT_COUNT_def INODE_INDIRECT_COUNT_def kInodeDirectCnt_def kBlockSize_def

lemma unat_u32_bound: "unat (a :: u32) < 2 ^ 32"
  using unsigned_less[of a] by simp

lemma unat_data_blocks: "unat (data_blocks sz) = (unat sz + 4095) div 4096"
proof -
  have "unat sz < 2 ^ 32" by (rule unat_u32_bound)
  then have "(unat sz + 4095) div 4096 < 2 ^ 32" by simp
  then show ?thesis by (simp add: data_blocks_def kBlockSize_def unat_of_nat_u32)
qed

lemma data_blocks_bound: "unat (data_blocks sz) \<le> 2 ^ 20"
proof -
  have "unat sz < 2 ^ 32" by (rule unat_u32_bound)
  then show ?thesis by (simp add: unat_data_blocks)
qed

text \<open>The blocks a file with \<open>n\<close> data blocks occupies, index blocks included.\<close>

definition tree_size :: "nat \<Rightarrow> nat" where
  "tree_size n = n + (if n > 23 then 1 else 0) + (if n > 1047 then 1 + (n - 1047 + 1023) div 1024 else 0)"

lemma tree_size_mono: "m < n \<Longrightarrow> tree_size m < tree_size n"
  unfolding tree_size_def by (auto intro!: add_less_le_mono div_le_mono)

lemma unat_total_blocks:
  "unat (total_blocks sz) = tree_size (unat (data_blocks sz)) +
     (if unat (data_blocks sz) = 23 \<or> unat (data_blocks sz) = 1047 then 1 else 0)"
proof -
  define x where "x = data_blocks sz"
  define n where "n = unat x"
  have nb: "n \<le> 2 ^ 20" using data_blocks_bound by (simp add: n_def x_def)
  note defs = total_blocks_def Let_def inode_consts word_less_nat_alt x_def[symmetric] n_def[symmetric]
  have "unat (total_blocks sz) = tree_size n + (if n = 23 \<or> n = 1047 then 1 else 0)"
  proof (cases "n < 23")
    case True
    then show ?thesis by (simp add: defs tree_size_def)
  next
    case False
    have m: "unat (x - 23) = n - 23"
      using False by (subst unat_sub) (auto simp: word_le_nat_alt n_def)
    show ?thesis
    proof (cases "n < 1047")
      case True
      have "unat (x + 1) = n + 1" using nb by (subst unat_add_u32) (auto simp: n_def)
      then show ?thesis using True False by (auto simp: defs m tree_size_def)
    next
      case F: False
      have "unat (x - 1047) = n - 1047"
        using F by (subst unat_sub) (auto simp: word_le_nat_alt n_def)
      then have "unat (x - 1047 + 1023) = n - 1047 + 1023"
        using nb by (subst unat_add_u32) auto
      then have q: "unat ((x - 24) div 1024) = (n - 1047 + 1023) div 1024"
        by (simp add: unat_div)
      have "unat (x + 2) = n + 2" using nb by (subst unat_add_u32) (auto simp: n_def)
      then have "unat (x + 2 + (x - 24) div 1024) = n + 2 + (n - 1047 + 1023) div 1024"
        using nb q by (subst unat_add_u32) auto
      then show ?thesis using F False by (auto simp: defs m tree_size_def)
    qed
  qed
  then show ?thesis by (simp only: n_def x_def)
qed

lemma total_blocks_less_iff:
  "total_blocks a < total_blocks b \<longleftrightarrow> data_blocks a < data_blocks b"
proof -
  have mono: "total_blocks a < total_blocks b" if "data_blocks a < data_blocks b" for a b
  proof -
    have lt: "unat (data_blocks a) < unat (data_blocks b)" using that by (simp add: word_less_nat_alt)
    then have "unat (total_blocks a) < unat (total_blocks b)"
      by (auto simp: unat_total_blocks tree_size_def intro!: add_less_le_mono div_le_mono)
    then show ?thesis by (simp add: word_less_nat_alt)
  qed
  then show ?thesis by (metis linorder_neqE not_less_iff_gr_or_eq total_blocks_def)
qed

lemma total_blocks_eq_iff: "total_blocks a = total_blocks b \<longleftrightarrow> data_blocks a = data_blocks b"
  by (metis linorder_less_linear not_less_iff_gr_or_eq total_blocks_less_iff)

section \<open>The tree of blocks of a file\<close>

datatype node = Data nat | Ind1 | Ind2 | Ind21 nat

text \<open>The node that holds the number of data block \<open>i\<close> past the direct ones, and its entry.\<close>

fun node_blk :: "DiskInode \<Rightarrow> (blk_id_t \<Rightarrow> block) \<Rightarrow> node \<Rightarrow> blk_id_t" where
  "node_blk ino V (Data i) =
     (if i < 23 then direct ino ! i
      else if i < 1047 then get_u32 (V (indirect1 ino)) (4 * (i - 23))
      else get_u32 (V (get_u32 (V (indirect2 ino)) (4 * ((i - 1047) div 1024)))) (4 * ((i - 1047) mod 1024)))"
| "node_blk ino V Ind1 = indirect1 ino"
| "node_blk ino V Ind2 = indirect2 ino"
| "node_blk ino V (Ind21 k) = get_u32 (V (indirect2 ino)) (4 * k)"

definition index_nodes :: "nat \<Rightarrow> node set" where
  "index_nodes n = {x. x = Ind1 \<and> n > 23} \<union> {x. x = Ind2 \<and> n > 1047} \<union> Ind21 ` {k. 1047 + 1024 * k < n}"

definition nodes :: "nat \<Rightarrow> node set" where
  "nodes n = Data ` {..<n} \<union> index_nodes n"

lemma index_nodes_iff [simp]:
  "Data i \<notin> index_nodes n" "Ind1 \<in> index_nodes n \<longleftrightarrow> n > 23" "Ind2 \<in> index_nodes n \<longleftrightarrow> n > 1047"
  "Ind21 k \<in> index_nodes n \<longleftrightarrow> 1047 + 1024 * k < n"
  by (auto simp: index_nodes_def)

lemma nodes_iff [simp]:
  "Data i \<in> nodes n \<longleftrightarrow> i < n" "Ind1 \<in> nodes n \<longleftrightarrow> n > 23" "Ind2 \<in> nodes n \<longleftrightarrow> n > 1047"
  "Ind21 k \<in> nodes n \<longleftrightarrow> 1047 + 1024 * k < n"
  by (auto simp: nodes_def)

lemma nodes_mono: "m \<le> n \<Longrightarrow> nodes m \<subseteq> nodes n"
  by (auto simp: nodes_def index_nodes_def)

lemma data_index: "1047 \<le> i \<Longrightarrow> i < n \<Longrightarrow> Ind21 ((i - 1047) div 1024) \<in> nodes n \<and> n > 1047"
  by simp

lemma card_nodes: "finite (nodes n)" "card (nodes n) = tree_size n"
proof -
  have e: "{k. 1047 + 1024 * k < n} = {..<(n - 1047 + 1023) div 1024}" for n :: nat by auto
  have fin: "finite {k :: nat. 1047 + 1024 * k < n}" by (simp only: e finite_lessThan)
  show "finite (nodes n)" using fin by (simp add: nodes_def index_nodes_def)
  have "card (nodes n) = card (Data ` {..<n}) + card (index_nodes n)"
    using fin unfolding nodes_def by (intro card_Un_disjoint) (auto simp: index_nodes_def)
  moreover have "card (index_nodes n) =
      card {x. x = Ind1 \<and> n > 23} + card {x. x = Ind2 \<and> n > 1047} + card (Ind21 ` {k. 1047 + 1024 * k < n})"
    using fin unfolding index_nodes_def by (subst card_Un_disjoint, simp, simp, fastforce)+ simp
  moreover have "card {x. x = Ind1 \<and> n > 23} = (if n > 23 then 1 else 0)"
    "card {x. x = Ind2 \<and> n > 1047} = (if n > 1047 then 1 else 0)" by auto
  moreover have "card (Ind21 ` {k. 1047 + 1024 * k < n}) = (n - 1047 + 1023) div 1024"
    by (subst card_image) (auto simp: inj_on_def e)
  moreover have "card (Data ` {..<n}) = n" by (subst card_image) (auto simp: inj_on_def)
  ultimately show "card (nodes n) = tree_size n" by (auto simp: tree_size_def)
qed

declare node_blk.simps(1) [simp del]

text \<open>Blocks of the tree on the device and distinct.\<close>

definition inode_ok :: "DiskInode \<Rightarrow> nat \<Rightarrow> dev \<Rightarrow> bool" where
  "inode_ok ino n d \<longleftrightarrow> dev_ok d \<and> DiskInode_wf ino \<and> n < 2 ^ 20 + 1 \<and>
     inj_on (node_blk ino (dev_view d)) (nodes n) \<and>
     (\<forall>x \<in> nodes n. unat (node_blk ino (dev_view d) x) < dev_blocks d)"

lemma inode_okD:
  assumes "inode_ok ino n d"
  shows "dev_ok d" "DiskInode_wf ino" "length (direct ino) = 23" "n \<le> 2 ^ 20"
    "inj_on (node_blk ino (dev_view d)) (nodes n)"
    "x \<in> nodes n \<Longrightarrow> unat (node_blk ino (dev_view d) x) < dev_blocks d"
  using assms by (auto simp: inode_ok_def DiskInode_wf_def kInodeDirectCnt_def)

lemma inode_ok_same:
  "inode_ok ino n d \<Longrightarrow> dev_ok d' \<Longrightarrow> dev_view d' = dev_view d \<Longrightarrow> same_geometry d d' \<Longrightarrow> inode_ok ino n d'"
  by (simp add: inode_ok_def same_geometry_def)

text \<open>The tree depends only on its index blocks.\<close>

lemma node_blk_cong:
  assumes "\<And>x. x \<in> index_nodes n \<Longrightarrow> V' (node_blk ino V x) = V (node_blk ino V x)" "x \<in> nodes n"
  shows "node_blk ino V' x = node_blk ino V x"
proof -
  have i2: "V' (indirect2 ino) = V (indirect2 ino)" if "n > 1047" using assms(1)[of Ind2] that by simp
  show ?thesis
  proof (cases x)
    case (Data i)
    show ?thesis
    proof (cases "i < 1047")
      case True
      then show ?thesis using Data assms(1)[of Ind1] assms(2) by (auto simp: node_blk.simps(1))
    next
      case False
      with Data assms(2) have k: "Ind21 ((i - 1047) div 1024) \<in> index_nodes n" "n > 1047"
        using data_index[of i n] by auto
      show ?thesis using assms(1)[OF k(1)] i2[OF k(2)] Data False by (simp add: node_blk.simps(1))
    qed
  next
    case (Ind21 k)
    then have "n > 1047" using assms(2) by simp
    then show ?thesis using Ind21 i2 by simp
  qed simp_all
qed

text \<open>Overwriting a data block changes no other block of the file and not the tree.\<close>

lemma node_blk_write:
  assumes ok: "inode_ok ino n d"
    and V': "\<And>b. b \<notin> node_blk ino (dev_view d) ` Data ` {..<n} \<Longrightarrow> V' b = dev_view d b"
    and x: "x \<in> nodes n"
  shows "node_blk ino V' x = node_blk ino (dev_view d) x"
proof (rule node_blk_cong[OF _ x])
  fix y assume y: "y \<in> index_nodes n"
  have "node_blk ino (dev_view d) y \<notin> node_blk ino (dev_view d) ` Data ` {..<n}"
  proof
    assume "node_blk ino (dev_view d) y \<in> node_blk ino (dev_view d) ` Data ` {..<n}"
    then obtain j where j: "j < n" "node_blk ino (dev_view d) y = node_blk ino (dev_view d) (Data j)" by auto
    with inj_onD[OF inode_okD(5)[OF ok] j(2)] y have "y = Data j" by (auto simp: nodes_def)
    with y show False by simp
  qed
  then show "V' (node_blk ino (dev_view d) y) = dev_view d (node_blk ino (dev_view d) y)" by (rule V')
qed

section \<open>The block map\<close>

lemma block_id_ok:
  assumes ok: "inode_ok ino n d" and i: "i < n"
  obtains d' where "block_id (of_nat i) ino d = (node_blk ino (dev_view d) (Data i), d')" "dev_ok d'"
    "dev_view d' = dev_view d" "same_geometry d d'"
proof -
  have u: "unat (of_nat i :: u32) = i" using i inode_okD(4)[OF ok] by (intro unat_of_nat_u32) simp
  have m: "\<not> MAX_BLOCK_SIZE \<le> of_nat i"
    using i inode_okD(4)[OF ok] by (simp add: word_le_nat_alt u inode_consts MAX_BLOCK_SIZE_def)
  note defs = block_id_def Let_def u m inode_consts node_blk.simps(1)
  consider "i < 23" | "23 \<le> i" "i < 1047" | "1047 \<le> i" by linarith
  then show ?thesis
  proof cases
    case 1
    then show ?thesis using that[of d] inode_okD(1)[OF ok] same_geometry_refl by (simp add: defs)
  next
    case 2
    then have "unat (indirect1 ino) < dev_blocks d" using inode_okD(6)[OF ok, of Ind1] i by simp
    from dev_read_ok[OF inode_okD(1)[OF ok] this, of zero_block] obtain d' where
      "dev_read (indirect1 ino) zero_block d = (kSuccess, dev_view d (indirect1 ino), d')" "dev_ok d'"
      "dev_view d' = dev_view d" "same_geometry d d'" .
    then show ?thesis using that[of d'] 2 by (simp add: defs)
  next
    case 3
    let ?k = "(i - 1047) div 1024"
    have k: "Ind21 ?k \<in> nodes n" "n > 1047" using data_index[OF 3 i] by auto
    then have "unat (indirect2 ino) < dev_blocks d" using inode_okD(6)[OF ok, of Ind2] by simp
    from dev_read_ok[OF inode_okD(1)[OF ok] this, of zero_block] obtain d1 where
      d1: "dev_read (indirect2 ino) zero_block d = (kSuccess, dev_view d (indirect2 ino), d1)" "dev_ok d1"
      "dev_view d1 = dev_view d" "same_geometry d d1" .
    let ?b = "get_u32 (dev_view d (indirect2 ino)) (4 * ?k)"
    have "unat ?b < dev_blocks d1"
      using inode_okD(6)[OF ok k(1)] d1(4) by (simp add: same_geometry_def)
    from dev_read_ok[OF d1(2) this, of zero_block] obtain d2 where
      d2: "dev_read ?b zero_block d1 = (kSuccess, dev_view d1 ?b, d2)" "dev_ok d2"
      "dev_view d2 = dev_view d1" "same_geometry d1 d2" .
    have "block_id (of_nat i) ino d = (node_blk ino (dev_view d) (Data i), d2)"
      using 3 d1 d2 by (simp add: defs)
    then show ?thesis using that d1 d2 same_geometry_trans by metis
  qed
qed

section \<open>Positions\<close>

lemma sint_of_nat_u32: "k < 2 ^ 31 \<Longrightarrow> sint (of_nat k :: u32) = int k"
  by (simp add: signed_of_nat signed_take_bit_int_eq_self)

lemma sint_u32: "unat (l :: u32) < 2 ^ 31 \<Longrightarrow> sint l = int (unat l)"
  using sint_of_nat_u32[of "unat l"] by simp

lemma scast_u32:
  assumes "unat (l :: u32) < 2 ^ 31"
  shows "(scast l :: u64) = of_nat (unat l)"
proof -
  have "(scast l :: u64) = word_of_int (sint l)" by simp
  then show ?thesis using sint_u32[OF assms] by simp
qed

lemma pos_small:
  assumes "unat (l :: u32) < 2 ^ 31"
  shows "pos_block l = of_nat (unat l div 4096)" "pos_off l = unat l mod 4096"
proof -
  have u: "unat (ucast l :: u64) = unat l"
    using assms by (simp add: unsigned_ucast_eq take_bit_nat_eq_self)
  have "(of_nat (unat l) :: u64) div 4096 = of_nat (unat l div 4096)"
    using assms by (intro word_unat_eq_iff[THEN iffD2]) (simp add: unat_div u unat_of_nat)
  then show "pos_block l = of_nat (unat l div 4096)"
    using assms by (simp add: pos_block_def scast_u32 kBlockSize_def unsigned_of_nat take_bit_nat_eq_self)
  show "pos_off l = unat l mod 4096"
    using assms by (simp add: pos_off_def scast_u32 kBlockSize_def unat_mod u)
qed

section \<open>Files as byte sequences\<close>

definition file_byte :: "DiskInode \<Rightarrow> (blk_id_t \<Rightarrow> block) \<Rightarrow> nat \<Rightarrow> u8" where
  "file_byte ino V p = V (node_blk ino V (Data (p div kBlockSize))) (p mod kBlockSize)"

lemma node_blk_meta [simp]:
  "node_blk (ino\<lparr>access_time := t\<rparr>) V x = node_blk ino V x"
  "node_blk (ino\<lparr>modify_time := t\<rparr>) V x = node_blk ino V x"
  "node_blk (ino\<lparr>change_time := t\<rparr>) V x = node_blk ino V x"
  "node_blk (ino\<lparr>di_size := s\<rparr>) V x = node_blk ino V x"
  by (cases x; simp add: node_blk.simps(1))+

lemma update_meta_simps [simp]:
  "di_size (update_meta f now ino) = di_size ino" "direct (update_meta f now ino) = direct ino"
  "indirect1 (update_meta f now ino) = indirect1 ino" "indirect2 (update_meta f now ino) = indirect2 ino"
  "di_type (update_meta f now ino) = di_type ino"
  by (simp_all add: update_meta_def Let_def)

lemma node_blk_update_meta [simp]: "node_blk (update_meta f now ino) V x = node_blk ino V x"
  by (cases x) (simp_all add: node_blk.simps(1))

lemma file_byte_update_meta [simp]: "file_byte (update_meta f now ino) V = file_byte ino V"
  by (simp add: file_byte_def fun_eq_iff)

lemma inode_ok_update_meta [simp]: "inode_ok (update_meta f now ino) n d = inode_ok ino n d"
proof -
  have "node_blk (update_meta f now ino) V = node_blk ino V" for V by (simp add: fun_eq_iff)
  then show ?thesis by (simp add: inode_ok_def DiskInode_wf_def)
qed

lemma read_blk_ok:
  assumes "inode_ok ino n d" "i < n"
  obtains d' where "read_blk (of_nat i) ino d = (kSuccess, dev_view d (node_blk ino (dev_view d) (Data i)), d')"
    "dev_ok d'" "dev_view d' = dev_view d" "same_geometry d d'"
proof -
  from block_id_ok[OF assms] obtain d1 where
    d1: "block_id (of_nat i) ino d = (node_blk ino (dev_view d) (Data i), d1)" "dev_ok d1"
    "dev_view d1 = dev_view d" "same_geometry d d1" .
  have "unat (node_blk ino (dev_view d) (Data i)) < dev_blocks d1"
    using inode_okD(6)[OF assms(1), of "Data i"] assms(2) d1(4) by (simp add: same_geometry_def)
  from dev_read_ok[OF d1(2) this, of zero_block] obtain d2 where
    "dev_read (node_blk ino (dev_view d) (Data i)) zero_block d1 =
      (kSuccess, dev_view d1 (node_blk ino (dev_view d) (Data i)), d2)" "dev_ok d2"
    "dev_view d2 = dev_view d1" "same_geometry d1 d2" .
  then show ?thesis
    using that[of d2] d1 same_geometry_trans[OF d1(4)] by (simp add: read_blk_def Let_def)
qed

subsection \<open>Reading\<close>

text \<open>A buffer whose first \<open>k\<close> bytes are those of the file from \<open>offset\<close> on.\<close>

definition filled :: "DiskInode \<Rightarrow> (blk_id_t \<Rightarrow> block) \<Rightarrow> nat \<Rightarrow> mem \<Rightarrow> nat \<Rightarrow> mem" where
  "filled ino V offset buf k = (\<lambda>x. if x < k then file_byte ino V (offset + x) else buf x)"

lemma filled_0 [simp]: "filled ino V offset buf 0 = buf"
  by (simp add: filled_def)

lemma memcpy_filled:
  assumes "offset + k = 4096 * i + off" "off + m \<le> 4096"
  shows "memcpy (filled ino V offset buf k) k (V (node_blk ino V (Data i))) off m =
    filled ino V offset buf (k + m)"
proof
  fix x
  have "V (node_blk ino V (Data i)) (off + (x - k)) = file_byte ino V (offset + x)"
    if "k \<le> x" "x < k + m"
  proof -
    have e: "offset + x = 4096 * i + (off + (x - k))" "off + (x - k) < 4096" using assms that by auto
    then have "(offset + x) div 4096 = i" "(offset + x) mod 4096 = off + (x - k)" by auto
    then show ?thesis by (simp only: file_byte_def kBlockSize_def)
  qed
  then show "memcpy (filled ino V offset buf k) k (V (node_blk ino V (Data i))) off m x =
    filled ino V offset buf (k + m) x"
    by (auto simp: memcpy_def filled_def)
qed

lemma read_middle_ok:
  assumes "inode_ok ino n d" "b \<le> n" "a \<le> b" "offset + k = 4096 * a"
  obtains d' where "read_middle (map int [a..<b]) k (filled ino (dev_view d) offset buf k) ino d =
      (kSuccess, k + 4096 * (b - a), filled ino (dev_view d) offset buf (k + 4096 * (b - a)), d')"
    "dev_ok d'" "dev_view d' = dev_view d" "same_geometry d d'"
  using assms
proof (induction "b - a" arbitrary: a k d thesis)
  case 0
  then show ?case using 0(2)[of d] inode_okD(1)[OF 0(3)] by simp
next
  case (Suc m)
  then have ab: "a < b" and an: "a < n" by auto
  have l: "[a..<b] = a # [Suc a..<b]" using ab by (rule upt_conv_Cons)
  from read_blk_ok[OF Suc.prems(2) an] obtain d1 where
    d1: "read_blk (of_nat a) ino d = (kSuccess, dev_view d (node_blk ino (dev_view d) (Data a)), d1)"
      "dev_ok d1" "dev_view d1 = dev_view d" "same_geometry d d1" .
  have m: "m = b - Suc a" "Suc a \<le> b" "offset + (k + 4096) = 4096 * Suc a" using Suc ab by auto
  from Suc.hyps(1)[OF m(1) _ inode_ok_same[OF Suc.prems(2) d1(2-4)] Suc.prems(3) m(2,3)] obtain d' where
    d': "read_middle (map int [Suc a..<b]) (k + 4096) (filled ino (dev_view d1) offset buf (k + 4096)) ino d1 =
      (kSuccess, k + 4096 + 4096 * (b - Suc a),
       filled ino (dev_view d1) offset buf (k + 4096 + 4096 * (b - Suc a)), d')"
    "dev_ok d'" "dev_view d' = dev_view d1" "same_geometry d1 d'" .
  have c: "memcpy (filled ino (dev_view d) offset buf k) k (dev_view d (node_blk ino (dev_view d) (Data a))) 0
      4096 = filled ino (dev_view d) offset buf (k + 4096)"
    using Suc.prems by (intro memcpy_filled) auto
  have e: "k + 4096 + 4096 * (b - Suc a) = k + 4096 * (b - a)" using ab by simp
  show ?case
    using Suc.prems(1)[of d'] d1 d' same_geometry_trans[OF d1(4) d'(4)] c e
    by (simp add: l kBlockSize_def)
qed

text \<open>The length that \<open>read_data\<close> and \<open>write_data\<close> use, cut at the end of the file.\<close>

definition clip :: "u32 \<Rightarrow> u32 \<Rightarrow> u32 \<Rightarrow> u32" where
  "clip sz offset len = (if offset + len \<ge> sz then sz - offset else len)"

lemma clip_len:
  assumes "offset < sz" "unat offset + unat len < 2 ^ 31"
  shows "unat (clip sz offset len) = min (unat len) (unat sz - unat offset)"
    "unat (offset + clip sz offset len) = unat offset + min (unat len) (unat sz - unat offset)"
proof -
  have s: "unat (offset + len) = unat offset + unat len" using assms by (intro unat_add_u32) simp
  have d: "unat (sz - offset) = unat sz - unat offset"
    using assms by (intro unat_sub) (simp add: word_le_nat_alt word_less_nat_alt)
  show u: "unat (clip sz offset len) = min (unat len) (unat sz - unat offset)"
    using assms s d by (auto simp: clip_def word_le_nat_alt word_less_nat_alt min_def)
  show "unat (offset + clip sz offset len) = unat offset + min (unat len) (unat sz - unat offset)"
    using assms by (subst unat_add_u32) (auto simp: u)
qed

lemma upto_map_int: "[int a..int b - 1] = map int [a..<b]"
  by (rule nth_equalityI) (auto simp: nth_upto)

text \<open>Where a clipped range of the file lies, in blocks: facts shared by reading and writing.\<close>

lemma range_blocks:
  assumes "offset < sz" "c = min (unat len) (unat sz - unat offset)" "n = unat (data_blocks sz)"
    and "l = unat offset div 4096" "r = (unat offset + c) div 4096"
  shows "l < n" "r \<le> n" "(unat offset + c) mod 4096 > 0 \<Longrightarrow> r < n" "l \<le> r"
    "l = r \<Longrightarrow> (unat offset + c) mod 4096 - unat offset mod 4096 = c"
    "l < r \<Longrightarrow> unat offset + (4096 - unat offset mod 4096) = 4096 * Suc l"
    "l < r \<Longrightarrow> 4096 - unat offset mod 4096 + 4096 * (r - Suc l) + (unat offset + c) mod 4096 = c"
    "l < r \<Longrightarrow> unat offset + (4096 - unat offset mod 4096 + 4096 * (r - Suc l)) = 4096 * r + 0"
proof -
  have lt: "unat offset < unat sz" using assms(1) by (simp add: word_less_nat_alt)
  have c: "unat offset + c \<le> unat sz" using lt assms(2) by simp
  have n: "n = (unat sz + 4095) div 4096" by (simp add: assms(3) unat_data_blocks)
  have e: "unat offset = 4096 * l + unat offset mod 4096"
    "unat offset + c = 4096 * r + (unat offset + c) mod 4096" by (simp_all add: assms(4,5))
  have m: "unat offset mod 4096 < 4096" "(unat offset + c) mod 4096 < 4096" by simp_all
  show "l < n" unfolding n assms(4) using lt by linarith
  show "r \<le> n" unfolding n assms(5) using c by (intro div_le_mono) simp
  show "r < n" if "(unat offset + c) mod 4096 > 0"
  proof -
    have "4096 * r < unat sz" using e(2) c that by linarith
    then show ?thesis unfolding n by linarith
  qed
  show "l \<le> r" unfolding assms(4,5) by (intro div_le_mono) simp
  show "(unat offset + c) mod 4096 - unat offset mod 4096 = c" if "l = r"
    using e that by linarith
  show "unat offset + (4096 - unat offset mod 4096) = 4096 * Suc l" if "l < r"
    using e m by simp
  show "4096 - unat offset mod 4096 + 4096 * (r - Suc l) + (unat offset + c) mod 4096 = c" if "l < r"
  proof -
    define k where "k = r - Suc l"
    then have "r = Suc l + k" using that by simp
    then show ?thesis using e m by simp
  qed
  show "unat offset + (4096 - unat offset mod 4096 + 4096 * (r - Suc l)) = 4096 * r + 0" if "l < r"
  proof -
    define k where "k = r - Suc l"
    then have "r = Suc l + k" using that by simp
    then show ?thesis using e m by simp
  qed
qed

lemma range_words:
  assumes "offset < sz" "unat offset + unat len < 2 ^ 31" "c = min (unat len) (unat sz - unat offset)"
    and "l = unat offset div 4096" "r = (unat offset + c) div 4096"
  shows "pos_block offset = of_nat l" "pos_off offset = unat offset mod 4096"
    "pos_block (offset + clip sz offset len) = of_nat r"
    "pos_off (offset + clip sz offset len) = (unat offset + c) mod 4096"
    "sint (of_nat l :: u32) = int l" "sint (of_nat r :: u32) = int r"
    "(of_nat l :: u32) = of_nat r \<longleftrightarrow> l = r" "sint (clip sz offset len) = int c"
    "[int l + 1..int r - 1] = map int [Suc l..<r]"
proof -
  note cl = clip_len[OF assms(1,2), folded assms(3)]
  have cb: "unat offset + c < 2 ^ 31" "unat offset < 2 ^ 31" using assms(2,3) by auto
  have small: "unat (offset + clip sz offset len) < 2 ^ 31" using cl(2) cb by simp
  show "pos_block offset = of_nat l" "pos_off offset = unat offset mod 4096"
    "pos_block (offset + clip sz offset len) = of_nat r"
    "pos_off (offset + clip sz offset len) = (unat offset + c) mod 4096"
    using pos_small[OF cb(2)] pos_small[OF small] by (simp_all only: cl(2) assms(4,5))
  have lr: "l < 2 ^ 20" "r < 2 ^ 20" using cb by (auto simp: assms(4,5))
  show si: "sint (of_nat l :: u32) = int l" "sint (of_nat r :: u32) = int r"
    using lr by (simp_all add: sint_of_nat_u32)
  show "(of_nat l :: u32) = of_nat r \<longleftrightarrow> l = r" using si by (metis of_nat_eq_iff)
  show "sint (clip sz offset len) = int c" using sint_u32[of "clip sz offset len"] cl(1) cb by simp
  show "[int l + 1..int r - 1] = map int [Suc l..<r]"
    using upto_map_int[of "Suc l" r] by (simp add: ac_simps)
qed

lemma read_data_ok:
  assumes ok: "inode_ok ino (unat (data_blocks (di_size ino))) d"
    and off: "offset < di_size ino" "0 < len" "unat offset + unat len < 2 ^ 31"
    and c: "c = min (unat len) (unat (di_size ino) - unat offset)"
  obtains d' where "read_data offset buf len now ino d =
      (int c, filled ino (dev_view d) (unat offset) buf c, update_meta 1 now ino, d')"
    "dev_ok d'" "dev_view d' = dev_view d" "same_geometry d d'"
proof -
  define n where "n = unat (data_blocks (di_size ino))"
  define ino1 where "ino1 = update_meta 1 now ino"
  define l where "l = unat offset div 4096"
  define r where "r = (unat offset + c) div 4096"
  let ?len = "clip (di_size ino) offset len"
  let ?f = "filled ino1 (dev_view d) (unat offset) buf"
  have ok1: "inode_ok ino1 n d" using ok by (simp add: ino1_def n_def)
  note rw = range_words[OF off(1,3) c l_def r_def]
  note rb = range_blocks[OF off(1) c n_def l_def r_def]
  have di: "(if offset + len \<ge> di_size ino1 then di_size ino1 - offset else len) = ?len"
    by (simp add: clip_def ino1_def)
  note defs = read_data_def Let_def ino1_def[symmetric] di rw kBlockSize_def
  have g: "0 \<noteq> len" "\<not> di_size ino1 < offset" using off by (auto simp: ino1_def)
  have fr: "filled ino V o' b k = filled ino1 V o' b k" for V o' b k
    by (auto simp: filled_def ino1_def)
  show ?thesis
  proof (cases "l = r")
    case True
    from read_blk_ok[OF ok1 rb(1)] obtain d1 where
      d1: "read_blk (of_nat l) ino1 d = (kSuccess, dev_view d (node_blk ino1 (dev_view d) (Data l)), d1)"
        "dev_ok d1" "dev_view d1 = dev_view d" "same_geometry d d1" .
    have "memcpy (?f 0) 0 (dev_view d (node_blk ino1 (dev_view d) (Data l))) (unat offset mod 4096) c = ?f (0 + c)"
      using rb(5)[OF True] by (intro memcpy_filled) (auto simp: l_def)
    then show ?thesis
      using that[of d1] d1 g True rb(5)[OF True] by (simp add: defs fr)
  next
    case False
    then have lt: "l < r" using rb(4) by simp
    from read_blk_ok[OF ok1 rb(1)] obtain d1 where
      d1: "read_blk (of_nat l) ino1 d = (kSuccess, dev_view d (node_blk ino1 (dev_view d) (Data l)), d1)"
        "dev_ok d1" "dev_view d1 = dev_view d" "same_geometry d d1" .
    let ?k = "4096 - unat offset mod 4096"
    have c1: "memcpy (?f 0) 0 (dev_view d (node_blk ino1 (dev_view d) (Data l))) (unat offset mod 4096) ?k = ?f (0 + ?k)"
      by (intro memcpy_filled) (auto simp: l_def)
    have sr: "Suc l \<le> r" using lt by simp
    from read_middle_ok[OF inode_ok_same[OF ok1 d1(2-4)] rb(2) sr rb(6)[OF lt], of buf] obtain d2 where
      d2: "read_middle (map int [Suc l..<r]) ?k (?f ?k) ino1 d1 =
        (kSuccess, ?k + 4096 * (r - Suc l), ?f (?k + 4096 * (r - Suc l)), d2)"
      "dev_ok d2" "dev_view d2 = dev_view d1" "same_geometry d1 d2" using d1(3) by metis
    note g2 = same_geometry_trans[OF d1(4) d2(4)]
    show ?thesis
    proof (cases "(unat offset + c) mod 4096 > 0")
      case True
      from read_blk_ok[OF inode_ok_same[OF ok1 d2(2) _ g2] rb(3)[OF True]] obtain d3 where
        d3: "read_blk (of_nat r) ino1 d2 = (kSuccess, dev_view d2 (node_blk ino1 (dev_view d2) (Data r)), d3)"
        "dev_ok d3" "dev_view d3 = dev_view d2" "same_geometry d2 d3" using d1(3) d2(3) by metis
      have "memcpy (?f (?k + 4096 * (r - Suc l))) (?k + 4096 * (r - Suc l))
          (dev_view d (node_blk ino1 (dev_view d) (Data r))) 0 ((unat offset + c) mod 4096) =
        ?f (?k + 4096 * (r - Suc l) + (unat offset + c) mod 4096)"
        using rb(8)[OF lt] by (rule memcpy_filled) (simp add: less_imp_le)
      then have "read_data offset buf len now ino d = (int c, ?f c, ino1, d3)"
        using d1 d2 d3 c1 g False True rb(7)[OF lt] by (simp add: defs)
      then show ?thesis
        using that[of d3] d1 d2 d3 same_geometry_trans[OF g2 d3(4)] by (simp add: fr ino1_def)
    next
      case F: False
      then have "read_data offset buf len now ino d = (int c, ?f c, ino1, d2)"
        using d1 d2 c1 g False rb(7)[OF lt] by (simp add: defs)
      then show ?thesis using that[of d2] d1 d2 g2 by (simp add: fr ino1_def)
    qed
  qed
qed

subsection \<open>Writing\<close>

text \<open>\<open>V'\<close> is \<open>V\<close> with the first \<open>k\<close> bytes of \<open>src\<close> written to the file from \<open>offset\<close> on; no
  block but the data blocks of the file has changed.\<close>

definition wrote ::
  "DiskInode \<Rightarrow> nat \<Rightarrow> (blk_id_t \<Rightarrow> block) \<Rightarrow> nat \<Rightarrow> mem \<Rightarrow> nat \<Rightarrow> (blk_id_t \<Rightarrow> block) \<Rightarrow> bool" where
  "wrote ino n V offset src k V' \<longleftrightarrow>
     (\<forall>b. b \<notin> node_blk ino V ` Data ` {..<n} \<longrightarrow> V' b = V b) \<and>
     (\<forall>i < n. \<forall>x < 4096. V' (node_blk ino V (Data i)) x =
        (if offset \<le> 4096 * i + x \<and> 4096 * i + x < offset + k then src (4096 * i + x - offset)
         else V (node_blk ino V (Data i)) x))"

lemma wrote_0: "wrote ino n V offset src 0 V"
  by (auto simp: wrote_def)

lemma wroteD:
  assumes "wrote ino n V offset src k V'"
  shows "b \<notin> node_blk ino V ` Data ` {..<n} \<Longrightarrow> V' b = V b"
    "i < n \<Longrightarrow> x < 4096 \<Longrightarrow> V' (node_blk ino V (Data i)) x =
        (if offset \<le> 4096 * i + x \<and> 4096 * i + x < offset + k then src (4096 * i + x - offset)
         else V (node_blk ino V (Data i)) x)"
  using assms by (auto simp: wrote_def)

lemma wrote_nodes:
  assumes "inode_ok ino n d" "wrote ino n (dev_view d) offset src k V'" "x \<in> nodes n"
  shows "node_blk ino V' x = node_blk ino (dev_view d) x"
  using node_blk_write[OF assms(1) _ assms(3)] wroteD(1)[OF assms(2)] by blast

lemma wrote_inode_ok:
  assumes "inode_ok ino n d" "wrote ino n (dev_view d) offset src k (dev_view d')"
    and "dev_ok d'" "same_geometry d d'"
  shows "inode_ok ino n d'"
proof -
  have "inj_on (node_blk ino (dev_view d')) (nodes n) = inj_on (node_blk ino (dev_view d)) (nodes n)"
    by (rule inj_on_cong) (rule wrote_nodes[OF assms(1,2)])
  then show ?thesis
    using assms wrote_nodes[OF assms(1,2)] by (auto simp: inode_ok_def same_geometry_def)
qed

lemma wrote_step:
  assumes ok: "inode_ok ino n d" and w: "wrote ino n (dev_view d) offset src k V'" and i: "i < n"
    and pos: "offset + k = 4096 * i + off" "off + m \<le> 4096"
    and blk: "\<And>x. x < 4096 \<Longrightarrow> c x = (if off \<le> x \<and> x < off + m then src (k + (x - off))
        else V' (node_blk ino (dev_view d) (Data i)) x)"
  shows "wrote ino n (dev_view d) offset src (k + m) (V'(node_blk ino (dev_view d) (Data i) := c))"
proof -
  let ?b = "\<lambda>j. node_blk ino (dev_view d) (Data j)"
  have inj: "?b j = ?b i \<longleftrightarrow> j = i" if "j < n" for j
    using inode_okD(5)[OF ok] that i by (auto dest!: inj_onD)
  have out: "b \<noteq> ?b i" if "b \<notin> node_blk ino (dev_view d) ` Data ` {..<n}" for b using that i by auto
  show ?thesis
    unfolding wrote_def
  proof (intro conjI allI impI)
    fix b assume "b \<notin> node_blk ino (dev_view d) ` Data ` {..<n}"
    then show "(V'(?b i := c)) b = dev_view d b" using out wroteD(1)[OF w] by simp
  next
    fix j x :: nat assume j: "j < n" and x: "x < 4096"
    show "(V'(?b i := c)) (?b j) x =
      (if offset \<le> 4096 * j + x \<and> 4096 * j + x < offset + (k + m) then src (4096 * j + x - offset)
       else dev_view d (?b j) x)"
    proof (cases "j = i")
      case True
      show ?thesis
      proof (cases "off \<le> x \<and> x < off + m")
        case in_range: True
        then have "4096 * i + x - offset = k + (x - off)" "offset \<le> 4096 * i + x"
          "4096 * i + x < offset + (k + m)" using pos by auto
        then show ?thesis using True in_range blk[OF x] by simp
      next
        case False
        then have "(offset \<le> 4096 * i + x \<and> 4096 * i + x < offset + (k + m)) \<longleftrightarrow>
            (offset \<le> 4096 * i + x \<and> 4096 * i + x < offset + k)" using pos by auto
        then show ?thesis using True blk[OF x] False wroteD(2)[OF w i x] by simp
      qed
    next
      case False
      then have "(offset \<le> 4096 * j + x \<and> 4096 * j + x < offset + (k + m)) \<longleftrightarrow>
            (offset \<le> 4096 * j + x \<and> 4096 * j + x < offset + k)"
        using pos x by (cases "j < i") auto
      then show ?thesis using False inj[OF j] wroteD(2)[OF w j x] by simp
    qed
  qed
qed

definition wrote_dev :: "DiskInode \<Rightarrow> nat \<Rightarrow> dev \<Rightarrow> nat \<Rightarrow> mem \<Rightarrow> nat \<Rightarrow> dev \<Rightarrow> bool" where
  "wrote_dev ino n d0 offset src k d \<longleftrightarrow>
     dev_ok d \<and> same_geometry d0 d \<and> wrote ino n (dev_view d0) offset src k (dev_view d)"

text \<open>Writing block \<open>i\<close> of the file, \<open>block_id\<close> being looked up first.\<close>

lemma write_step:
  assumes ok: "inode_ok ino n d0" and w: "wrote_dev ino n d0 offset src k d" and i: "i < n"
  obtains d1 where "block_id (of_nat i) ino d = (node_blk ino (dev_view d0) (Data i), d1)"
    "dev_ok d1" "dev_view d1 = dev_view d" "same_geometry d0 d1"
    "unat (node_blk ino (dev_view d0) (Data i)) < dev_blocks d1"
proof -
  have w': "wrote ino n (dev_view d0) offset src k (dev_view d)" "dev_ok d" "same_geometry d0 d"
    using w by (auto simp: wrote_dev_def)
  have e: "node_blk ino (dev_view d) (Data i) = node_blk ino (dev_view d0) (Data i)"
    using wrote_nodes[OF ok w'(1), of "Data i"] i by simp
  have ok': "inode_ok ino n d" by (rule wrote_inode_ok[OF ok w'])
  from block_id_ok[OF ok' i] obtain d1 where
    d1: "block_id (of_nat i) ino d = (node_blk ino (dev_view d) (Data i), d1)" "dev_ok d1"
    "dev_view d1 = dev_view d" "same_geometry d d1" .
  have "unat (node_blk ino (dev_view d0) (Data i)) < dev_blocks d1"
    using inode_okD(6)[OF ok', of "Data i"] i d1(4) by (simp add: e same_geometry_def)
  then show ?thesis using that d1 e same_geometry_trans[OF w'(3) d1(4)] by simp
qed

lemma write_finish:
  assumes ok: "inode_ok ino n d0" and w: "wrote_dev ino n d0 offset src k d" and i: "i < n"
    and d1: "dev_ok d1" "dev_view d1 = dev_view d" "same_geometry d0 d1"
    "unat (node_blk ino (dev_view d0) (Data i)) < dev_blocks d1"
    and pos: "offset + k = 4096 * i + off" "off + m \<le> 4096"
    and blk: "\<And>x. x < 4096 \<Longrightarrow> c x = (if off \<le> x \<and> x < off + m then src (k + (x - off))
        else dev_view d (node_blk ino (dev_view d0) (Data i)) x)"
  obtains d2 where "dev_write (node_blk ino (dev_view d0) (Data i)) c d1 = (kSuccess, d2)"
    "wrote_dev ino n d0 offset src (k + m) d2"
proof -
  have "wrote ino n (dev_view d0) offset src k (dev_view d)" using w by (simp add: wrote_dev_def)
  note ws = wrote_step[OF ok this i pos blk]
  from dev_write_ok[OF d1(1,4), of c] obtain d2 where
    d2: "dev_write (node_blk ino (dev_view d0) (Data i)) c d1 = (kSuccess, d2)" "dev_ok d2"
    "dev_view d2 = (dev_view d1)(node_blk ino (dev_view d0) (Data i) := c)" "same_geometry d1 d2" .
  then show ?thesis
    using that ws d1(2) same_geometry_trans[OF d1(3) d2(4)] by (simp add: wrote_dev_def)
qed

lemma patch_blk_ok:
  assumes "inode_ok ino n d0" "wrote_dev ino n d0 offset src k d" "i < n"
    and "offset + k = 4096 * i + off" "off + m \<le> 4096"
  obtains data d' where "patch_blk (of_nat i) off src k m ino d = (kSuccess, data, d')"
    "wrote_dev ino n d0 offset src (k + m) d'"
proof -
  let ?b = "node_blk ino (dev_view d0) (Data i)"
  from write_step[OF assms(1-3)] obtain d1 where d1: "block_id (of_nat i) ino d = (?b, d1)"
    "dev_ok d1" "dev_view d1 = dev_view d" "same_geometry d0 d1" "unat ?b < dev_blocks d1" .
  from dev_read_ok[OF d1(2,5), of zero_block] obtain d2 where
    d2: "dev_read ?b zero_block d1 = (kSuccess, dev_view d1 ?b, d2)" "dev_ok d2" "dev_view d2 = dev_view d1"
    "same_geometry d1 d2" .
  have "unat ?b < dev_blocks d2" using d1(5) d2(4) by (simp add: same_geometry_def)
  from write_finish[OF assms(1-3) d2(2) _ same_geometry_trans[OF d1(4) d2(4)] this assms(4,5),
      of "memcpy (dev_view d1 ?b) off src k m"] obtain d3 where
    "dev_write ?b (memcpy (dev_view d1 ?b) off src k m) d2 = (kSuccess, d3)"
    "wrote_dev ino n d0 offset src (k + m) d3"
    using d1(3) d2(3) by (metis (no_types, lifting) memcpy_apply)
  then show ?thesis using that d1 d2 by (simp add: patch_blk_def)
qed

lemma write_middle_ok:
  assumes "inode_ok ino n d0" "wrote_dev ino n d0 offset src k d" "b \<le> n" "a \<le> b"
    and "offset + k = 4096 * a"
  obtains d' where "write_middle (map int [a..<b]) k src data ino d = (kSuccess, k + 4096 * (b - a), d')"
    "wrote_dev ino n d0 offset src (k + 4096 * (b - a)) d'"
  using assms
proof (induction "b - a" arbitrary: a k d data thesis)
  case 0
  then show ?case by simp
next
  case (Suc m)
  then have ab: "a < b" and an: "a < n" by auto
  have l: "[a..<b] = a # [Suc a..<b]" using ab by (rule upt_conv_Cons)
  let ?b = "node_blk ino (dev_view d0) (Data a)"
  let ?c = "memcpy data 0 src k 4096"
  from write_step[OF Suc.prems(2,3) an] obtain d1 where d1: "block_id (of_nat a) ino d = (?b, d1)"
    "dev_ok d1" "dev_view d1 = dev_view d" "same_geometry d0 d1" "unat ?b < dev_blocks d1" .
  have p: "offset + k = 4096 * a + 0" "0 + 4096 \<le> (4096 :: nat)" using Suc.prems by auto
  have blk: "?c x = (if 0 \<le> x \<and> x < 0 + 4096 then src (k + (x - 0)) else dev_view d ?b x)"
    if "x < 4096" for x using that by (simp add: memcpy_def)
  from write_finish[OF Suc.prems(2,3) an d1(2-5) p blk] obtain d2 where
    d2: "dev_write ?b ?c d1 = (kSuccess, d2)" "wrote_dev ino n d0 offset src (k + 4096) d2" .
  have m: "m = b - Suc a" "Suc a \<le> b" "offset + (k + 4096) = 4096 * Suc a" using Suc ab by auto
  from Suc.hyps(1)[OF m(1) _ Suc.prems(2) d2(2) Suc.prems(4) m(2,3), of ?c] obtain d' where
    "write_middle (map int [Suc a..<b]) (k + 4096) src ?c ino d2 =
      (kSuccess, k + 4096 + 4096 * (b - Suc a), d')"
    "wrote_dev ino n d0 offset src (k + 4096 + 4096 * (b - Suc a)) d'" .
  moreover have "k + 4096 + 4096 * (b - Suc a) = k + 4096 * (b - a)" using ab by simp
  ultimately show ?case
    using Suc.prems(1)[of d'] d1 d2 by (simp add: l write_blk_def kBlockSize_def)
qed

lemma write_data_ok:
  assumes ok: "inode_ok ino (unat (data_blocks (di_size ino))) d"
    and off: "offset < di_size ino" "0 < len" "unat offset + unat len < 2 ^ 31"
    and c: "c = min (unat len) (unat (di_size ino) - unat offset)"
  obtains d' where "write_data offset src len now ino d = (int c, update_meta 3 now ino, d')"
    "wrote_dev (update_meta 3 now ino) (unat (data_blocks (di_size ino))) d (unat offset) src c d'"
proof -
  define n where "n = unat (data_blocks (di_size ino))"
  define ino1 where "ino1 = update_meta 3 now ino"
  define l where "l = unat offset div 4096"
  define r where "r = (unat offset + c) div 4096"
  let ?W = "wrote_dev ino1 n d (unat offset) src"
  have ok1: "inode_ok ino1 n d" using ok by (simp add: ino1_def n_def)
  have w0: "?W 0 d" using inode_okD(1)[OF ok] by (simp add: wrote_dev_def wrote_0)
  note rw = range_words[OF off(1,3) c l_def r_def]
  note rb = range_blocks[OF off(1) c n_def l_def r_def]
  have di: "(if offset + len \<ge> di_size ino1 then di_size ino1 - offset else len) = clip (di_size ino) offset len"
    by (simp add: clip_def ino1_def)
  note defs = write_data_def Let_def ino1_def[symmetric] di rw kBlockSize_def
  have g: "0 \<noteq> len" "\<not> di_size ino1 < offset" using off by (auto simp: ino1_def)
  have o: "unat offset + 0 = 4096 * l + unat offset mod 4096" by (simp add: l_def)
  have res: thesis if "write_data offset src len now ino d = (int c, ino1, d')" "?W c d'" for d'
    using \<open>\<And>d'. write_data offset src len now ino d = (int c, update_meta 3 now ino, d') \<Longrightarrow>
      wrote_dev (update_meta 3 now ino) (unat (data_blocks (di_size ino))) d (unat offset) src c d' \<Longrightarrow> thesis\<close>
      that by (simp only: ino1_def n_def)
  show ?thesis
  proof (cases "l = r")
    case True
    have "unat offset mod 4096 + c \<le> 4096" using rb(5)[OF True] mod_less_divisor[of 4096 "unat offset + c"] by linarith
    from patch_blk_ok[OF ok1 w0 rb(1) o this] obtain data d1 where
      "patch_blk (of_nat l) (unat offset mod 4096) src 0 c ino1 d = (kSuccess, data, d1)" "?W (0 + c) d1" .
    then show ?thesis using g True rb(5)[OF True] by (intro res[of d1]) (simp_all add: defs)
  next
    case False
    then have lt: "l < r" "Suc l \<le> r" using rb(4) by auto
    let ?k = "4096 - unat offset mod 4096"
    have "unat offset mod 4096 + ?k \<le> 4096" by simp
    from patch_blk_ok[OF ok1 w0 rb(1) o this] obtain data d1 where
      d1: "patch_blk (of_nat l) (unat offset mod 4096) src 0 ?k ino1 d = (kSuccess, data, d1)" "?W ?k d1" by auto
    from write_middle_ok[OF ok1 d1(2) rb(2) lt(2) rb(6)[OF lt(1)], of data] obtain d2 where
      d2: "write_middle (map int [Suc l..<r]) ?k src data ino1 d1 = (kSuccess, ?k + 4096 * (r - Suc l), d2)"
      "?W (?k + 4096 * (r - Suc l)) d2" .
    show ?thesis
    proof (cases "(unat offset + c) mod 4096 > 0")
      case True
      have "0 + (unat offset + c) mod 4096 \<le> 4096" by (simp add: less_imp_le)
      from patch_blk_ok[OF ok1 d2(2) rb(3)[OF True] rb(8)[OF lt(1)] this] obtain data3 d3 where
        "patch_blk (of_nat r) 0 src (?k + 4096 * (r - Suc l)) ((unat offset + c) mod 4096) ino1 d2 =
          (kSuccess, data3, d3)" "?W c d3" using rb(7)[OF lt(1)] by metis
      then show ?thesis using d1 d2 g False True by (intro res[of d3]) (simp_all add: defs)
    next
      case F: False
      then show ?thesis using d1 d2 g False rb(7)[OF lt(1)] by (intro res[of d2]) (simp_all add: defs)
    qed
  qed
qed

lemma wrote_bytes:
  assumes "inode_ok ino n d" "wrote ino n (dev_view d) offset src k V'" "p < 4096 * n"
  shows "file_byte ino V' p =
    (if offset \<le> p \<and> p < offset + k then src (p - offset) else file_byte ino (dev_view d) p)"
proof -
  have i: "p div 4096 < n" using assms(3) by (simp add: less_mult_imp_div_less mult.commute)
  have "node_blk ino V' (Data (p div 4096)) = node_blk ino (dev_view d) (Data (p div 4096))"
    using wrote_nodes[OF assms(1,2), of "Data (p div 4096)"] i by simp
  then show ?thesis
    using wroteD(2)[OF assms(2) i, of "p mod 4096"] by (simp add: file_byte_def kBlockSize_def)
qed

lemma size_data_blocks: "unat sz \<le> 4096 * unat (data_blocks sz)"
  unfolding unat_data_blocks by linarith

section \<open>The contract of a file\<close>

text \<open>A file is a sequence of \<open>sz\<close> bytes; a read or write is clipped at the end and must stay
  below two gigabytes.\<close>

locale byte_file =
  fixes rd :: "u32 \<Rightarrow> mem \<Rightarrow> u32 \<Rightarrow> 's \<Rightarrow> int \<times> mem \<times> 's" and wr :: "u32 \<Rightarrow> mem \<Rightarrow> u32 \<Rightarrow> 's \<Rightarrow> int \<times> 's"
    and byte :: "'s \<Rightarrow> nat \<Rightarrow> u8" and sz :: "'s \<Rightarrow> nat" and ok :: "'s \<Rightarrow> bool"
  assumes rd_spec: "\<lbrakk>ok s; unat off < sz s; 0 < len; unat off + unat len < 2 ^ 31;
      c = min (unat len) (sz s - unat off)\<rbrakk> \<Longrightarrow>
      \<exists>s'. rd off buf len s = (int c, (\<lambda>x. if x < c then byte s (unat off + x) else buf x), s') \<and>
        ok s' \<and> sz s' = sz s \<and> (\<forall>p < sz s. byte s' p = byte s p)"
    and wr_spec: "\<lbrakk>ok s; unat off < sz s; 0 < len; unat off + unat len < 2 ^ 31;
      c = min (unat len) (sz s - unat off)\<rbrakk> \<Longrightarrow>
      \<exists>s'. wr off src len s = (int c, s') \<and> ok s' \<and> sz s' = sz s \<and>
        (\<forall>p < sz s. byte s' p =
          (if unat off \<le> p \<and> p < unat off + c then src (p - unat off) else byte s p))"
begin

text \<open>What was written is read back.\<close>

lemma read_after_write:
  assumes "ok s" "unat off < sz s" "0 < len" "unat off + unat len < 2 ^ 31"
    and c: "c = min (unat len) (sz s - unat off)"
  shows "\<exists>s1 s2. wr off src len s = (int c, s1) \<and>
    rd off buf len s1 = (int c, (\<lambda>x. if x < c then src x else buf x), s2) \<and> ok s2"
proof -
  from wr_spec[OF assms, of src] obtain s1 where s1: "wr off src len s = (int c, s1)" "ok s1" "sz s1 = sz s"
    and b: "\<forall>p < sz s. byte s1 p =
      (if unat off \<le> p \<and> p < unat off + c then src (p - unat off) else byte s p)" by blast
  have "unat off < sz s1" "c = min (unat len) (sz s1 - unat off)" using assms s1 by auto
  from rd_spec[OF s1(2) this(1) assms(3,4) this(2), of buf] obtain s2 where
    s2: "rd off buf len s1 = (int c, (\<lambda>x. if x < c then byte s1 (unat off + x) else buf x), s2)" "ok s2" by blast
  have "(if x < c then byte s1 (unat off + x) else buf x) = (if x < c then src x else buf x)" for x
    using b[rule_format, of "unat off + x"] c by auto
  then show ?thesis using s1(1) s2 by simp
qed

text \<open>A write does not change what is read from a disjoint range.\<close>

lemma read_disjoint:
  assumes "ok s" "unat off < sz s" "0 < len" "unat off + unat len < 2 ^ 31"
    and "unat off' < sz s" "0 < len'" "unat off' + unat len' < 2 ^ 31"
    and dis: "unat off + unat len \<le> unat off' \<or> unat off' + unat len' \<le> unat off"
  shows "fst (snd (rd off' buf len' (snd (wr off src len s)))) = fst (snd (rd off' buf len' s))"
proof -
  from wr_spec[OF assms(1-4) refl, of src] obtain s1 where
    s1: "wr off src len s = (int (min (unat len) (sz s - unat off)), s1)" "ok s1" "sz s1 = sz s"
    and b: "\<forall>p < sz s. byte s1 p = (if unat off \<le> p \<and> p < unat off + min (unat len) (sz s - unat off)
       then src (p - unat off) else byte s p)" by blast
  let ?c = "min (unat len') (sz s - unat off')"
  have "unat off' < sz s1" "?c = min (unat len') (sz s1 - unat off')" using assms(5) s1(3) by auto
  from rd_spec[OF s1(2) this(1) assms(6,7) this(2), of buf] obtain s2 where
    s2: "rd off' buf len' s1 = (int ?c, (\<lambda>x. if x < ?c then byte s1 (unat off' + x) else buf x), s2)" by blast
  from rd_spec[OF assms(1,5-7) refl, of buf] obtain s3 where
    s3: "rd off' buf len' s = (int ?c, (\<lambda>x. if x < ?c then byte s (unat off' + x) else buf x), s3)" by blast
  have "(if x < ?c then byte s1 (unat off' + x) else buf x) =
      (if x < ?c then byte s (unat off' + x) else buf x)" for x
    using b[rule_format, of "unat off' + x"] dis by auto
  then show ?thesis using s1(1) s2 s3 by simp
qed

end

text \<open>Files over an inode: the state is the inode in memory and the device.\<close>

definition ino_read :: "u32 \<Rightarrow> u32 \<Rightarrow> mem \<Rightarrow> u32 \<Rightarrow> DiskInode \<times> dev \<Rightarrow> int \<times> mem \<times> DiskInode \<times> dev" where
  "ino_read now off buf len s = read_data off buf len now (fst s) (snd s)"

definition ino_write :: "u32 \<Rightarrow> u32 \<Rightarrow> mem \<Rightarrow> u32 \<Rightarrow> DiskInode \<times> dev \<Rightarrow> int \<times> DiskInode \<times> dev" where
  "ino_write now off src len s = write_data off src len now (fst s) (snd s)"

abbreviation file_ok :: "DiskInode \<Rightarrow> dev \<Rightarrow> bool" where
  "file_ok ino d \<equiv> inode_ok ino (unat (data_blocks (di_size ino))) d"

interpretation ino_file: byte_file "ino_read now" "ino_write now"
  "\<lambda>s. file_byte (fst s) (dev_view (snd s))" "\<lambda>s. unat (di_size (fst s))" "\<lambda>s. file_ok (fst s) (snd s)"
  for now
proof (unfold_locales, goal_cases)
  case (1 s off len c buf)
  then have off: "off < di_size (fst s)" by (simp add: word_less_nat_alt)
  from read_data_ok[OF 1(1) off 1(3-5), of buf now] obtain d' where
    d': "read_data off buf len now (fst s) (snd s) =
      (int c, filled (fst s) (dev_view (snd s)) (unat off) buf c, update_meta 1 now (fst s), d')"
    "dev_ok d'" "dev_view d' = dev_view (snd s)" "same_geometry (snd s) d'" .
  then show ?case
    using inode_ok_same[OF 1(1) d'(2-4)] by (simp add: ino_read_def filled_def)
next
  case (2 s off len c src)
  then have off: "off < di_size (fst s)" by (simp add: word_less_nat_alt)
  define ino where "ino = update_meta 3 now (fst s)"
  from write_data_ok[OF 2(1) off 2(3-5), of src now, folded ino_def] obtain d' where
    d': "write_data off src len now (fst s) (snd s) = (int c, ino, d')"
    "wrote_dev ino (unat (data_blocks (di_size (fst s)))) (snd s) (unat off) src c d'" .
  have w: "wrote ino (unat (data_blocks (di_size (fst s)))) (dev_view (snd s)) (unat off) src c (dev_view d')"
    "dev_ok d'" "same_geometry (snd s) d'" using d'(2) by (auto simp: wrote_dev_def)
  have ok: "inode_ok ino (unat (data_blocks (di_size (fst s)))) (snd s)" using 2(1) by (simp add: ino_def)
  have "file_byte ino (dev_view d') p = (if unat off \<le> p \<and> p < unat off + c then src (p - unat off)
      else file_byte (fst s) (dev_view (snd s)) p)" if "p < unat (di_size (fst s))" for p
    using wrote_bytes[OF ok w(1), of p] that size_data_blocks[of "di_size (fst s)"] by (simp add: ino_def)
  moreover have "file_ok ino d'" using wrote_inode_ok[OF ok w] by (simp add: ino_def)
  ultimately show ?case using d'(1) by (simp add: ino_write_def) (simp add: ino_def)
qed

section \<open>A small file\<close>

text \<open>Two data blocks, 5 and 6, on the small device.\<close>

definition small_inode :: DiskInode where
  "small_inode = zero_inode\<lparr>di_size := 8192, direct := [5, 6] @ replicate 21 0\<rparr>"

lemma small_inode_blocks: "unat (data_blocks (di_size small_inode)) = 2"
  by (simp add: unat_data_blocks small_inode_def)

lemma small_inode_nodes: "nodes 2 = {Data 0, Data 1}"
  by (auto simp: nodes_def index_nodes_def lessThan_Suc eval_nat_numeral)

lemma small_inode_ok: "file_ok small_inode (small_dev 2 (\<lambda>_. False))"
proof -
  have "DiskInode_wf small_inode"
    by (simp add: small_inode_def DiskInode_wf_def kInodeDirectCnt_def)
  moreover have "direct small_inode ! 0 = 5" "direct small_inode ! Suc 0 = 6" by (simp_all add: small_inode_def)
  ultimately show ?thesis
    by (simp add: small_inode_blocks inode_ok_def small_dev_ok small_inode_nodes node_blk.simps(1))
qed

section \<open>Properties of the data of an inode\<close>

text \<open>C39: \<open>total_blocks\<close> counts the nodes of the tree of blocks (data blocks and index blocks),
  except that it is one too high for files of exactly 23 or exactly 1047 data blocks, where it
  counts an index block that does not exist; it is strictly monotone in the number of data
  blocks, which is the size divided by the block size, rounded up, without overflow.\<close>

theorem total_blocks_spec:
  "unat (data_blocks a) = (unat a + 4095) div 4096 \<and>
   unat (total_blocks a) = card (nodes (unat (data_blocks a))) +
     (if unat (data_blocks a) \<in> {23, 1047} then 1 else 0) \<and>
   (total_blocks a < total_blocks b \<longleftrightarrow> data_blocks a < data_blocks b)"
  by (simp add: unat_data_blocks[symmetric] unat_total_blocks card_nodes total_blocks_less_iff)

text \<open>\<open>block_id\<close> of a well-formed inode returns the device block that the direct entries or
  the index blocks name, and \<open>kFail\<close> from \<open>MAX_BLOCK_SIZE\<close> on; no block changes.\<close>

theorem block_id_spec:
  assumes "inode_ok ino n d"
  shows "(\<forall>i < n. \<exists>d'. block_id (of_nat i) ino d = (node_blk ino (dev_view d) (Data i), d') \<and>
      dev_view d' = dev_view d \<and> inode_ok ino n d') \<and>
    (\<forall>i \<ge> MAX_BLOCK_SIZE. block_id i ino d = (kFail32, d))"
proof (intro conjI allI impI)
  fix i assume "i < n"
  from block_id_ok[OF assms this] obtain d' where
    "block_id (of_nat i) ino d = (node_blk ino (dev_view d) (Data i), d')" "dev_ok d'"
    "dev_view d' = dev_view d" "same_geometry d d'" .
  then show "\<exists>d'. block_id (of_nat i) ino d = (node_blk ino (dev_view d) (Data i), d') \<and>
      dev_view d' = dev_view d \<and> inode_ok ino n d'" using inode_ok_same[OF assms] by blast
next
  fix i assume "i \<ge> MAX_BLOCK_SIZE"
  then show "block_id i ino d = (kFail32, d)" by (simp add: block_id_def)
qed

theorem block_id_spec_witness:
  "\<exists>d'. block_id 1 small_inode (small_dev 2 (\<lambda>_. False)) = (6, d')"
  using block_id_spec[OF small_inode_ok] small_inode_blocks
  by (auto simp: node_blk.simps(1) small_inode_def dest!: spec[of _ 1])

text \<open>C29: \<open>read_data\<close> on a well-formed file, from an offset before its end, returns the number of
  bytes up to the end of the file or the requested length, copies exactly those bytes of the file
  into the buffer and changes nothing but the access time.\<close>

theorem read_data_spec:
  assumes "file_ok ino d" "offset < di_size ino" "0 < len" "unat offset + unat len < 2 ^ 31"
  defines "c \<equiv> min (unat len) (unat (di_size ino) - unat offset)"
  shows "\<exists>d'. read_data offset buf len now ino d =
      (int c, (\<lambda>x. if x < c then file_byte ino (dev_view d) (unat offset + x) else buf x),
       ino\<lparr>access_time := now\<rparr>, d') \<and>
     dev_ok d' \<and> dev_view d' = dev_view d"
proof -
  have "update_meta 1 now ino = ino\<lparr>access_time := now\<rparr>" by (simp add: update_meta_def)
  moreover from read_data_ok[OF assms(1-4) meta_eq_to_obj_eq[OF c_def], of buf now] obtain d' where
    "read_data offset buf len now ino d =
      (int c, filled ino (dev_view d) (unat offset) buf c, update_meta 1 now ino, d')"
    "dev_ok d'" "dev_view d' = dev_view d" "same_geometry d d'" .
  ultimately show ?thesis by (intro exI[of _ d']) (simp add: filled_def)
qed

theorem read_data_spec_witness:
  "\<exists>d'. read_data 4090 (\<lambda>_. 1) 10000 7 small_inode (small_dev 2 (\<lambda>_. False)) =
      (4102, (\<lambda>x. if x < 4102 then 0 else 1), small_inode\<lparr>access_time := 7\<rparr>, d')"
proof -
  have "(4090 :: u32) < di_size small_inode" "(0 :: u32) < 10000" by (simp_all add: small_inode_def)
  from read_data_spec[OF small_inode_ok this, of "\<lambda>_. 1" 7] show ?thesis
    by (auto simp: small_inode_def file_byte_def zero_block_def cong: if_cong)
qed

text \<open>C30: \<open>write_data\<close> on a well-formed file, from an offset before its end, overwrites exactly
  the bytes from the offset up to the length or the end of the file, keeps the file well-formed,
  and changes no block of the device outside the data blocks of this file.\<close>

theorem write_data_spec:
  fixes now :: u32
  assumes "file_ok ino d" "offset < di_size ino" "0 < len" "unat offset + unat len < 2 ^ 31"
  defines "c \<equiv> min (unat len) (unat (di_size ino) - unat offset)"
    and "ino' \<equiv> ino\<lparr>access_time := now, modify_time := now\<rparr>"
  shows "\<exists>d'. write_data offset src len now ino d = (int c, ino', d') \<and> file_ok ino' d' \<and>
     (\<forall>p < unat (di_size ino). file_byte ino' (dev_view d') p =
        (if unat offset \<le> p \<and> p < unat offset + c then src (p - unat offset)
         else file_byte ino (dev_view d) p)) \<and>
     (\<forall>b. (\<forall>i < unat (data_blocks (di_size ino)). b \<noteq> node_blk ino (dev_view d) (Data i)) \<longrightarrow>
        dev_view d' b = dev_view d b)"
proof -
  have m: "update_meta 3 now ino = ino'" by (simp add: update_meta_def ino'_def)
  from write_data_ok[OF assms(1-4) meta_eq_to_obj_eq[OF c_def], of src now, unfolded m] obtain d' where
    d': "write_data offset src len now ino d = (int c, ino', d')"
    "wrote_dev ino' (unat (data_blocks (di_size ino))) d (unat offset) src c d'" .
  have w: "wrote ino' (unat (data_blocks (di_size ino))) (dev_view d) (unat offset) src c (dev_view d')"
    "dev_ok d'" "same_geometry d d'" using d'(2) by (auto simp: wrote_dev_def)
  have nb: "node_blk ino' V x = node_blk ino V x" for V x unfolding m[symmetric] by simp
  have ok: "inode_ok ino' (unat (data_blocks (di_size ino))) d" using assms(1) m by (metis inode_ok_update_meta)
  have s: "di_size ino' = di_size ino" by (simp add: ino'_def)
  have "\<forall>p < unat (di_size ino). file_byte ino' (dev_view d') p =
        (if unat offset \<le> p \<and> p < unat offset + c then src (p - unat offset)
         else file_byte ino (dev_view d) p)"
    using wrote_bytes[OF ok w(1)] size_data_blocks[of "di_size ino"]
    by (auto simp: file_byte_def nb)
  moreover have "file_ok ino' d'" using wrote_inode_ok[OF ok w] by (simp add: s)
  ultimately show ?thesis using d'(1) wroteD(1)[OF w(1)] by (auto simp: nb)
qed

theorem write_data_spec_witness:
  "\<exists>d'. write_data 4090 (\<lambda>_. 9) 10 7 small_inode (small_dev 2 (\<lambda>_. False)) =
      (10, small_inode\<lparr>access_time := 7, modify_time := 7\<rparr>, d') \<and>
     file_byte (small_inode\<lparr>access_time := 7, modify_time := 7\<rparr>) (dev_view d') 4099 = 9 \<and> dev_view d' 7 = zero_block"
proof -
  have "(4090 :: u32) < di_size small_inode" "(0 :: u32) < 10" by (simp_all add: small_inode_def)
  note w = write_data_spec[OF small_inode_ok this, of "\<lambda>_. 9" 7]
  have sz: "unat (di_size small_inode) = 8192" by (simp add: small_inode_def)
  from w[unfolded small_inode_blocks sz] obtain d' where
    d': "write_data 4090 (\<lambda>_. 9) 10 7 small_inode (small_dev 2 (\<lambda>_. False)) =
      (int (min (unat (10 :: u32)) (8192 - unat (4090 :: u32))),
       small_inode\<lparr>access_time := 7, modify_time := 7\<rparr>, d')"
    and b: "\<forall>p < 8192. file_byte (small_inode\<lparr>access_time := 7, modify_time := 7\<rparr>) (dev_view d') p =
      (if unat (4090 :: u32) \<le> p \<and> p < unat (4090 :: u32) + min (unat (10 :: u32)) (8192 - unat (4090 :: u32))
       then 9 else file_byte small_inode (dev_view (small_dev 2 (\<lambda>_. False))) p)"
    and f: "\<forall>b. (\<forall>i < 2. b \<noteq> node_blk small_inode (dev_view (small_dev 2 (\<lambda>_. False))) (Data i)) \<longrightarrow>
      dev_view d' b = dev_view (small_dev 2 (\<lambda>_. False)) b"
    by auto
  have "7 \<noteq> node_blk small_inode (dev_view (small_dev 2 (\<lambda>_. False))) (Data i)" if "i < 2" for i
    using that by (auto simp: node_blk.simps(1) small_inode_def less_2_cases_iff)
  then have "dev_view d' 7 = zero_block" using f by simp
  moreover have "file_byte (small_inode\<lparr>access_time := 7, modify_time := 7\<rparr>) (dev_view d') 4099 = 9"
    using b[rule_format, of 4099] by simp
  ultimately show ?thesis using d' by simp
qed

text \<open>Reading back a range just written gives the bytes written.\<close>

theorem data_read_after_write:
  assumes "file_ok ino d" "offset < di_size ino" "0 < len" "unat offset + unat len < 2 ^ 31"
  shows "\<exists>c ino1 d1 ino2 d2. c = min (unat len) (unat (di_size ino) - unat offset) \<and>
     write_data offset src len now ino d = (int c, ino1, d1) \<and>
     read_data offset buf len now ino1 d1 = (int c, (\<lambda>x. if x < c then src x else buf x), ino2, d2)"
  using ino_file.read_after_write[of "(ino, d)" offset len _ now src buf, OF _ _ assms(3,4) refl] assms(1,2)
  by (auto simp: ino_read_def ino_write_def word_less_nat_alt)

theorem data_read_after_write_witness:
  "\<exists>ino1 d1 ino2 d2. write_data 4090 (\<lambda>_. 9) 10 7 small_inode (small_dev 2 (\<lambda>_. False)) = (10, ino1, d1) \<and>
     read_data 4090 (\<lambda>_. 1) 10 7 ino1 d1 = (10, (\<lambda>x. if x < 10 then 9 else 1), ino2, d2)"
proof -
  have "(4090 :: u32) < di_size small_inode" "(0 :: u32) < 10" by (simp_all add: small_inode_def)
  from data_read_after_write[OF small_inode_ok this, of "\<lambda>_. 9" 7 "\<lambda>_. 1"] show ?thesis
    by (simp add: small_inode_def cong: if_cong)
qed

end
