(* ===== verification/Inode_Grow.thy ===== *)
theory Inode_Grow
  imports Inode_Map
begin

text \<open>
  Growing a file. The tree of a file is extended node by node: every step allocates a block that
  no one uses and hooks it into the inode or into an index block that the file owns already.
  \<open>grown\<close> relates the inode and the contents of the device before and after a number of such
  steps; the three loops of \<open>increase\<close> are sequences of them. While a loop works on an index
  block in memory the contents are those of the device with the buffer laid over it.
\<close>

section \<open>The data area\<close>

text \<open>The data bitmap lies before the data area, which lies on the device.\<close>

definition data_ok :: "Bitmap \<Rightarrow> dev \<Rightarrow> bool" where
  "data_ok bm d \<longleftrightarrow> bm_ok bm d \<and> 0 < data_segment_offset bm \<and>
     unat (start_block_id bm) + unat (bm_num_blocks bm) \<le> unat (data_segment_offset bm) \<and>
     unat (data_segment_offset bm) + bm_slots bm \<le> dev_blocks d \<and> dev_blocks d < 2 ^ 32"

text \<open>The blocks of the data area that are marked as used.\<close>

definition used_blks :: "Bitmap \<Rightarrow> (blk_id_t \<Rightarrow> block) \<Rightarrow> blk_id_t set" where
  "used_blks bm V = {b. unat (data_segment_offset bm) \<le> unat b \<and>
     unat b - unat (data_segment_offset bm) \<in> bm_used bm V}"

definition room :: "Bitmap \<Rightarrow> (blk_id_t \<Rightarrow> block) \<Rightarrow> nat \<Rightarrow> bool" where
  "room bm V k \<longleftrightarrow> card (bm_used bm V) + k \<le> bm_slots bm"

text \<open>One allocation, seen on the contents of the device.\<close>

definition alloc_step :: "Bitmap \<Rightarrow> (blk_id_t \<Rightarrow> block) \<Rightarrow> blk_id_t \<Rightarrow> (blk_id_t \<Rightarrow> block) \<Rightarrow> bool" where
  "alloc_step bm V b V' \<longleftrightarrow> b \<notin> used_blks bm V \<and> used_blks bm V' = insert b (used_blks bm V) \<and>
     (\<forall>c. c \<notin> bm_region bm \<longrightarrow> V' c = V c)"

lemma data_okD:
  assumes "data_ok bm d"
  shows "bm_ok bm d" "dev_ok d" "bm_slots bm \<le> 2 ^ 32"
  using assms by (auto simp: data_ok_def bm_ok_def)

lemma data_ok_same: "data_ok bm d \<Longrightarrow> dev_ok d' \<Longrightarrow> same_geometry d d' \<Longrightarrow> data_ok bm d'"
  by (auto simp: data_ok_def same_geometry_def intro: bm_ok_same)

lemma bm_used_finite: "finite (bm_used bm V)" "bm_used bm V \<subseteq> {..<bm_slots bm}"
  by (auto simp: bm_used_def intro: finite_subset)

lemma used_blks_area:
  assumes "data_ok bm d" "b \<in> used_blks bm V"
  shows "unat b < dev_blocks d" "b \<noteq> 0" "b \<noteq> kFail32" "b \<notin> bm_region bm"
proof -
  have lo: "unat (data_segment_offset bm) \<le> unat b"
    and "unat b - unat (data_segment_offset bm) < bm_slots bm"
    using assms(2) bm_used_finite(2)[of bm V] by (auto simp: used_blks_def)
  then show lt: "unat b < dev_blocks d" using assms(1) by (auto simp: data_ok_def)
  have "0 < unat b" using lo assms(1) by (auto simp: data_ok_def word_less_nat_alt)
  then show "b \<noteq> 0" by auto
  have "unat b < 2 ^ 32 - 1" using lt assms(1) by (simp add: data_ok_def)
  then show "b \<noteq> kFail32" by (auto simp: kFail32_eq unsigned_minus_1_eq_mask mask_eq_exp_minus_1)
  show "b \<notin> bm_region bm" using lo assms(1) by (auto simp: data_ok_def bm_region_def)
qed

lemma slot_blk:
  assumes "data_ok bm d" "m < bm_slots bm"
  shows "unat (of_nat m + data_segment_offset bm) = m + unat (data_segment_offset bm)"
proof -
  have "m + unat (data_segment_offset bm) < 2 ^ 32" using assms by (simp add: data_ok_def)
  then show ?thesis using unat_of_nat_u32[of m] by (subst unat_add_u32) auto
qed

lemma used_blks_cong:
  assumes "data_ok bm d" "\<And>b. b \<in> bm_region bm \<Longrightarrow> V b = V' b"
  shows "used_blks bm V = used_blks bm V'"
  using bm_used_cong[OF data_okD(1)[OF assms(1)], of V V'] assms(2) by (simp add: used_blks_def)

lemma room_cong:
  assumes "data_ok bm d" "\<And>b. b \<in> bm_region bm \<Longrightarrow> V b = V' b"
  shows "room bm V k = room bm V' k"
  using bm_used_cong[OF data_okD(1)[OF assms(1)], of V V'] assms(2) by (simp add: room_def)

lemma data_alloc:
  assumes ok: "data_ok bm d" and rm: "room bm (dev_view d) (Suc k)"
  obtains b d' where "bitmap_alloc bm d = (b, d')" "alloc_step bm (dev_view d) b (dev_view d')"
    "b \<noteq> 0" "b \<noteq> kFail32" "data_ok bm d'" "same_geometry d d'" "room bm (dev_view d') k"
proof -
  let ?U = "bm_used bm (dev_view d)"
  have "card ?U < bm_slots bm" using rm by (simp add: room_def)
  then have nf: "?U \<noteq> {..<bm_slots bm}" by (metis card_lessThan less_irrefl)
  obtain b d' where r: "bitmap_alloc bm d = (b, d')" by (cases "bitmap_alloc bm d")
  from bitmap_alloc_outcome[OF data_okD(1)[OF ok]] nf obtain m where
    m: "b = of_nat m + data_segment_offset bm" "m < bm_slots bm" "m \<notin> ?U" "bm_step bm d (insert m ?U) d'"
    by (auto simp: alloc_outcome_def r)
  note ub = slot_blk[OF ok m(2), folded m(1)]
  have st: "dev_ok d'" "same_geometry d d'" "bm_used bm (dev_view d') = insert m ?U"
    "\<And>b. b \<notin> bm_region bm \<Longrightarrow> dev_view d' b = dev_view d b"
    using m(4) by (auto simp: bm_step_def)
  have fresh: "b \<notin> used_blks bm (dev_view d)" using m(3) ub by (simp add: used_blks_def)
  have eq: "c = b" if "unat (data_segment_offset bm) \<le> unat c" "unat c - unat (data_segment_offset bm) = m" for c
    using that ub by (intro word_unat_eq_iff[THEN iffD2]) simp
  have u: "used_blks bm (dev_view d') = insert b (used_blks bm (dev_view d))"
    using st(3) ub eq by (auto simp: used_blks_def)
  have al: "alloc_step bm (dev_view d) b (dev_view d')" using fresh u st(4) by (simp add: alloc_step_def)
  have ok': "data_ok bm d'" by (rule data_ok_same[OF ok st(1,2)])
  have "b \<in> used_blks bm (dev_view d')" using u by simp
  note nz = used_blks_area(2,3)[OF ok' this]
  have "room bm (dev_view d') k" using rm m(3) st(3) bm_used_finite(1) by (simp add: room_def)
  then show ?thesis using that r al nz ok' st(2) by blast
qed

section \<open>Trees that grow\<close>

abbreviation is_index :: "node \<Rightarrow> bool" where
  "is_index x \<equiv> (\<forall>i. x \<noteq> Data i)"

definition tree_ok :: "Bitmap \<Rightarrow> DiskInode \<Rightarrow> node set \<Rightarrow> (blk_id_t \<Rightarrow> block) \<Rightarrow> bool" where
  "tree_ok bm ino S V \<longleftrightarrow> length (direct ino) = 23 \<and> inj_on (node_blk ino V) S \<and>
     node_blk ino V ` S \<subseteq> used_blks bm V"

lemma tree_used: "tree_ok bm ino S V \<Longrightarrow> x \<in> S \<Longrightarrow> node_blk ino V x \<in> used_blks bm V"
  by (auto simp: tree_ok_def)

definition grown ::
  "Bitmap \<Rightarrow> DiskInode \<Rightarrow> node set \<Rightarrow> (blk_id_t \<Rightarrow> block) \<Rightarrow> DiskInode \<Rightarrow> node set \<Rightarrow> (blk_id_t \<Rightarrow> block) \<Rightarrow> bool" where
  "grown bm ino S V ino' S' V' \<longleftrightarrow> tree_ok bm ino' S' V' \<and> S \<subseteq> S' \<and>
     (\<forall>x \<in> S. node_blk ino' V' x = node_blk ino V x) \<and>
     used_blks bm V' = used_blks bm V \<union> node_blk ino' V' ` (S' - S) \<and>
     node_blk ino' V' ` (S' - S) \<inter> used_blks bm V = {} \<and>
     (\<forall>b. b \<notin> bm_region bm \<longrightarrow> b \<notin> node_blk ino' V' ` {x \<in> S'. is_index x} \<longrightarrow> V' b = V b)"

lemma grownD:
  assumes "grown bm ino S V ino' S' V'"
  shows "tree_ok bm ino' S' V'" "S \<subseteq> S'" "x \<in> S \<Longrightarrow> node_blk ino' V' x = node_blk ino V x"
    "used_blks bm V' = used_blks bm V \<union> node_blk ino' V' ` (S' - S)"
    "node_blk ino' V' ` (S' - S) \<inter> used_blks bm V = {}"
    "b \<notin> bm_region bm \<Longrightarrow> b \<notin> node_blk ino' V' ` {x \<in> S'. is_index x} \<Longrightarrow> V' b = V b"
  using assms by (simp_all only: grown_def) blast+

lemma grown_refl: "tree_ok bm ino S V \<Longrightarrow> grown bm ino S V ino S V"
  by (auto simp: grown_def)

lemma grown_trans:
  assumes a: "grown bm ino S V ino1 S1 V1" and b: "grown bm ino1 S1 V1 ino2 S2 V2"
  shows "grown bm ino S V ino2 S2 V2"
proof -
  note A = grownD[OF a] and B = grownD[OF b]
  have im: "node_blk ino2 V2 ` (S1 - S) = node_blk ino1 V1 ` (S1 - S)"
    using B(3) by (intro image_cong) auto
  have split: "S2 - S = (S2 - S1) \<union> (S1 - S)" using A(2) B(2) by auto
  have "used_blks bm V2 = used_blks bm V \<union> node_blk ino2 V2 ` (S2 - S)"
    unfolding split image_Un im using A(4) B(4) by auto
  moreover have "node_blk ino2 V2 ` (S2 - S) \<inter> used_blks bm V = {}"
    unfolding split image_Un im using A(4,5) B(5) by auto
  moreover have "V2 b = V b" if "b \<notin> bm_region bm" "b \<notin> node_blk ino2 V2 ` {x \<in> S2. is_index x}" for b
  proof -
    have "node_blk ino1 V1 ` {x \<in> S1. is_index x} \<subseteq> node_blk ino2 V2 ` {x \<in> S2. is_index x}"
      using B(2,3) by (fastforce simp: image_iff)
    then show ?thesis using A(6)[of b] B(6)[of b] that by auto
  qed
  ultimately show ?thesis using A(2,3) B(1-3) unfolding grown_def by auto
qed

text \<open>One step: a fresh block is hooked in as node \<open>x\<close>, the contents changing at most in an index
  block of the tree.\<close>

lemma grown_step:
  assumes t: "tree_ok bm ino S V" and al: "alloc_step bm V b V1" and x: "x \<notin> S"
    and c: "\<And>c. V' c \<noteq> V1 c \<Longrightarrow> c \<notin> bm_region bm \<and> c \<in> node_blk ino V ` {y \<in> S. is_index y}"
    and keep: "\<And>y. y \<in> S \<Longrightarrow> node_blk ino' V' y = node_blk ino V y" and new: "node_blk ino' V' x = b"
    and len: "length (direct ino') = 23" and ok: "data_ok bm d"
  shows "grown bm ino S V ino' (insert x S) V'"
proof -
  have u: "used_blks bm V' = insert b (used_blks bm V)"
    using al used_blks_cong[OF ok, of V' V1] c by (auto simp: alloc_step_def)
  have fr: "b \<notin> used_blks bm V" using al by (simp add: alloc_step_def)
  have S: "node_blk ino' V' ` S = node_blk ino V ` S" using keep by (intro image_cong) auto
  have "inj_on (node_blk ino' V') S = inj_on (node_blk ino V) S" using keep by (rule inj_on_cong)
  then have "inj_on (node_blk ino' V') (insert x S)"
    using t fr x unfolding tree_ok_def by (auto simp: S new)
  then have T: "tree_ok bm ino' (insert x S) V'"
    using t len u unfolding tree_ok_def by (auto simp: S new)
  have fr': "V' e = V e" if "e \<notin> bm_region bm" "e \<notin> node_blk ino' V' ` {y \<in> insert x S. is_index y}" for e
  proof -
    have "node_blk ino V ` {y \<in> S. is_index y} \<subseteq> node_blk ino' V' ` {y \<in> insert x S. is_index y}"
      using keep by (fastforce simp: image_iff)
    then have "V' e = V1 e" using c[of e] that(2) by blast
    then show ?thesis using al that(1) by (simp add: alloc_step_def)
  qed
  have "insert x S - S = {x}" using x by auto
  then show ?thesis using T keep u fr fr' new unfolding grown_def by auto
qed

section \<open>Parents\<close>

text \<open>The index node and the entry in it that hold the block number of a node; the others are
  held by the inode itself.\<close>

fun parent :: "node \<Rightarrow> (node \<times> nat) option" where
  "parent (Data i) = (if i < 23 then None else if i < 1047 then Some (Ind1, i - 23)
     else Some (Ind21 ((i - 1047) div 1024), (i - 1047) mod 1024))"
| "parent Ind1 = None"
| "parent Ind2 = None"
| "parent (Ind21 k) = Some (Ind2, k)"

fun root :: "DiskInode \<Rightarrow> node \<Rightarrow> blk_id_t" where
  "root ino (Data i) = direct ino ! i"
| "root ino Ind1 = indirect1 ino"
| "root ino Ind2 = indirect2 ino"
| "root ino (Ind21 k) = 0"

lemma node_blk_parent:
  "node_blk ino V x = (case parent x of None \<Rightarrow> root ino x
     | Some (q, e) \<Rightarrow> get_u32 (V (node_blk ino V q)) (4 * e))"
  by (cases x) (simp_all add: node_blk.simps(1))

lemma parent_Data_inj:
  assumes "parent (Data i) = Some (q, e)" "parent (Data j) = Some (q, e)"
  shows "i = j"
proof (cases "i < 1047")
  case True
  then show ?thesis using assms by (cases "j < 1047") (auto split: if_splits)
next
  case False
  then have e: "q = Ind21 ((i - 1047) div 1024)" "e = (i - 1047) mod 1024" using assms(1) by auto
  then have j: "\<not> j < 1047" using assms(2) by (auto split: if_splits)
  then have "(i - 1047) div 1024 = (j - 1047) div 1024" "(i - 1047) mod 1024 = (j - 1047) mod 1024"
    using assms(2) e by auto
  then have "i - 1047 = j - 1047" by (metis div_mult_mod_eq)
  then show ?thesis using False j by linarith
qed

lemma parent_inj:
  assumes "parent x = Some (q, e)" "parent y = Some (q, e)"
  shows "x = y"
proof (cases x)
  case x: (Data i)
  show ?thesis
  proof (cases y)
    case (Data j)
    then show ?thesis using parent_Data_inj assms x by blast
  qed (use assms x in \<open>simp_all split: if_splits\<close>)
next
  case (Ind21 k)
  then show ?thesis using assms by (cases y) (auto split: if_splits)
qed (use assms in simp_all)

lemma parent_index: "parent x = Some (q, e) \<Longrightarrow> is_index q"
  by (cases x) (auto split: if_splits)

definition closed :: "node set \<Rightarrow> bool" where
  "closed S \<longleftrightarrow> (\<forall>y \<in> S. \<forall>q e. parent y = Some (q, e) \<longrightarrow> q \<in> S)"

lemma closedD: "closed S \<Longrightarrow> y \<in> S \<Longrightarrow> parent y = Some (q, e) \<Longrightarrow> q \<in> S"
  by (auto simp: closed_def)

lemma closed_insert: "closed S \<Longrightarrow> (\<And>q e. parent x = Some (q, e) \<Longrightarrow> q \<in> S) \<Longrightarrow> closed (insert x S)"
  by (auto simp: closed_def)

lemma closed_nodes: "closed (nodes n)"
proof -
  have "q \<in> nodes n" if "y \<in> nodes n" "parent y = Some (q, e)" for y q e
    using that by (cases y) (auto split: if_splits)
  then show ?thesis by (simp add: closed_def)
qed

text \<open>A tree stays where it is when the entries that name its nodes do.\<close>

lemma node_blk_keep:
  assumes cl: "closed S" and y: "y \<in> S"
    and rt: "\<And>z. z \<in> S \<Longrightarrow> parent z = None \<Longrightarrow> root ino' z = root ino z"
    and en: "\<And>z q e. z \<in> S \<Longrightarrow> q \<in> S \<Longrightarrow> parent z = Some (q, e) \<Longrightarrow>
      get_u32 (V' (node_blk ino V q)) (4 * e) = get_u32 (V (node_blk ino V q)) (4 * e)"
  shows "node_blk ino' V' y = node_blk ino V y"
proof -
  have step: "node_blk ino' V' z = node_blk ino V z"
    if "z \<in> S" "\<And>q e. parent z = Some (q, e) \<Longrightarrow> node_blk ino' V' q = node_blk ino V q" for z
  proof (cases "parent z")
    case None
    then show ?thesis using rt[OF that(1)] node_blk_parent[of ino' V' z] node_blk_parent[of ino V z] by simp
  next
    case (Some qe)
    then obtain q e where p: "parent z = Some (q, e)" by (cases qe) simp
    then show ?thesis
      using that(2)[OF p] en[OF that(1) closedD[OF cl that(1) p] p]
        node_blk_parent[of ino' V' z] node_blk_parent[of ino V z] by simp
  qed
  have top: "node_blk ino' V' z = node_blk ino V z" if "z \<in> S" "parent z = None" for z
    by (rule step[OF that(1)]) (simp add: that(2))
  have mid: "node_blk ino' V' z = node_blk ino V z" if "z \<in> S" "parent z = Some (q, e)" "parent q = None" for z q e
    by (rule step[OF that(1)]) (use top[OF closedD[OF cl that(1,2)] that(3)] that(2) in auto)
  have two: "parent q = None \<or> (\<exists>q' e'. parent q = Some (q', e') \<and> parent q' = None)"
    if "parent z = Some (q, e)" for z q e using that by (cases z) (auto split: if_splits)
  show ?thesis
  proof (rule step[OF y])
    fix q e assume p: "parent y = Some (q, e)"
    note q = closedD[OF cl y p]
    show "node_blk ino' V' q = node_blk ino V q" using two[OF p] top[OF q] mid[OF q] by auto
  qed
qed

text \<open>Hooking a fresh block into entry \<open>e\<close> of index node \<open>q\<close>.\<close>

lemma grown_hook:
  assumes t: "tree_ok bm ino S V" and cl: "closed S" and ok: "data_ok bm d"
    and al: "alloc_step bm V b V1" and x: "x \<notin> S" "parent x = Some (q, e)" "q \<in> S"
    and V': "V' = V1(node_blk ino V q := put_u32 (V1 (node_blk ino V q)) (4 * e) b)"
  shows "grown bm ino S V ino (insert x S) V'"
proof -
  let ?c = "node_blk ino V q"
  have used: "node_blk ino V z \<in> used_blks bm V" if "z \<in> S" for z
    using t that by (auto simp: tree_ok_def)
  have reg: "node_blk ino V z \<notin> bm_region bm" if "z \<in> S" for z
    using used_blks_area(4)[OF ok used[OF that]] .
  have V1: "V1 (node_blk ino V z) = V (node_blk ino V z)" if "z \<in> S" for z
    using al reg[OF that] by (simp add: alloc_step_def)
  have keep: "node_blk ino V' y = node_blk ino V y" if "y \<in> S" for y
  proof (rule node_blk_keep[OF cl that])
    fix z q' e' assume z: "z \<in> S" "q' \<in> S" "parent z = Some (q', e')"
    show "get_u32 (V' (node_blk ino V q')) (4 * e') = get_u32 (V (node_blk ino V q')) (4 * e')"
    proof (cases "q' = q")
      case True
      then have "e' \<noteq> e" using parent_inj[OF z(3)] x z(1) by auto
      then show ?thesis using True V1[OF x(3)] by (simp add: V') (subst get_u32_other(1), auto)
    next
      case False
      then have "node_blk ino V q' \<noteq> ?c" using t z(2) x(3) by (auto simp: tree_ok_def dest: inj_onD)
      then show ?thesis using V1[OF z(2)] by (simp add: V')
    qed
  qed simp
  have "node_blk ino V' x = b"
    using x keep[OF x(3)] node_blk_parent[of ino V' x] by (simp add: V' get_put_u32)
  moreover have "c \<notin> bm_region bm \<and> c \<in> node_blk ino V ` {y \<in> S. is_index y}" if "V' c \<noteq> V1 c" for c
    using that reg[OF x(3)] x(3) parent_index[OF x(2)] by (auto simp: V' split: if_splits)
  ultimately show ?thesis
    using grown_step[OF t al x(1) _ keep _ _ ok] t by (simp add: tree_ok_def)
qed

text \<open>Hooking a fresh block into the inode.\<close>

lemma grown_root:
  assumes t: "tree_ok bm ino S V" and cl: "closed S" and ok: "data_ok bm d"
    and al: "alloc_step bm V b V1" and x: "x \<notin> S" "parent x = None" "root ino' x = b"
    and rt: "\<And>z. z \<in> S \<Longrightarrow> parent z = None \<Longrightarrow> root ino' z = root ino z"
    and len: "length (direct ino') = 23"
  shows "grown bm ino S V ino' (insert x S) V1"
proof -
  have V1: "V1 (node_blk ino V z) = V (node_blk ino V z)" if "z \<in> S" for z
    using al t used_blks_area(4)[OF ok, of "node_blk ino V z"] that
    by (auto simp: alloc_step_def tree_ok_def)
  have keep: "node_blk ino' V1 y = node_blk ino V y" if "y \<in> S" for y
    by (rule node_blk_keep[OF cl that rt]) (simp_all add: V1)
  have new: "node_blk ino' V1 x = b" using x node_blk_parent[of ino' V1 x] by simp
  show ?thesis by (rule grown_step[OF t al x(1) _ keep new len ok]) simp
qed

section \<open>The loops of increase\<close>

lemma nodes_Suc:
  "a < 23 \<Longrightarrow> nodes (Suc a) = insert (Data a) (nodes a)"
  "23 \<le> a \<Longrightarrow> a < 1047 \<Longrightarrow> nodes (Suc a) = insert (Data a) (insert Ind1 (nodes a))"
  "1047 \<le> a \<Longrightarrow> nodes (Suc a) = insert (Data a) (insert (Ind21 ((a - 1047) div 1024)) (insert Ind2 (nodes a)))"
proof -
  show "nodes (Suc a) = insert (Data a) (nodes a)" if "a < 23"
    using that by (auto simp: nodes_def index_nodes_def less_Suc_eq)
  show "nodes (Suc a) = insert (Data a) (insert Ind1 (nodes a))" if "23 \<le> a" "a < 1047"
    using that by (auto simp: nodes_def index_nodes_def less_Suc_eq)
  show "nodes (Suc a) = insert (Data a) (insert (Ind21 ((a - 1047) div 1024)) (insert Ind2 (nodes a)))" if "1047 \<le> a"
  proof -
    have "1047 + 1024 * k < Suc a \<longleftrightarrow> k = (a - 1047) div 1024 \<or> 1047 + 1024 * k < a" for k
      using that by auto
    then have "{k. 1047 + 1024 * k < Suc a} = insert ((a - 1047) div 1024) {k. 1047 + 1024 * k < a}" by auto
    then show ?thesis using that by (auto simp: nodes_def index_nodes_def less_Suc_eq)
  qed
qed

text \<open>What every step keeps of the device.\<close>

definition dstep :: "Bitmap \<Rightarrow> dev \<Rightarrow> dev \<Rightarrow> nat \<Rightarrow> bool" where
  "dstep bm d d' k \<longleftrightarrow> data_ok bm d' \<and> same_geometry d d' \<and> room bm (dev_view d') k"

lemma dstep_trans: "same_geometry d d1 \<Longrightarrow> dstep bm d1 d2 k \<Longrightarrow> dstep bm d d2 k"
  by (auto simp: dstep_def intro: same_geometry_trans)

lemma used_blks_upd:
  assumes "data_ok bm d" "c \<notin> bm_region bm"
  shows "used_blks bm (V(c := p)) = used_blks bm V" "room bm (V(c := p)) k = room bm V k"
  using assms used_blks_cong[OF assms(1), of "V(c := p)" V] room_cong[OF assms(1), of "V(c := p)" V]
  by (metis fun_upd_other)+

lemma alloc_overlay:
  assumes "data_ok bm d" "alloc_step bm W b W1" "c \<notin> bm_region bm"
  shows "alloc_step bm (W(c := p)) b (W1(c := p))"
  using assms(2) used_blks_upd[OF assms(1,3)] by (auto simp: alloc_step_def)

lemma increase_direct_ok:
  assumes "data_ok bm d" "tree_ok bm ino (nodes a) (dev_view d)" "a \<le> b" "b \<le> 23"
    and "room bm (dev_view d) (b - a + k)"
  obtains ds d' where "increase_direct [a..<b] bm ino d = (kSuccess, ino\<lparr>direct := ds\<rparr>, d')"
    "grown bm ino (nodes a) (dev_view d) (ino\<lparr>direct := ds\<rparr>) (nodes b) (dev_view d')" "dstep bm d d' k"
  using assms
proof (induction "b - a" arbitrary: a ino d thesis)
  case 0
  then have "a = b" by simp
  then show ?case using 0(2)[of "direct ino" d] 0(3-) by (simp add: grown_refl dstep_def)
next
  case (Suc m)
  then have ab: "a < b" "a < 23" and m: "m = b - Suc a" "Suc a \<le> b" by auto
  have l: "[a..<b] = a # [Suc a..<b]" using ab by (simp add: upt_conv_Cons)
  have "room bm (dev_view d) (Suc (b - Suc a + k))"
    using Suc.prems(6) ab by (simp add: Suc_diff_Suc)
  from data_alloc[OF Suc.prems(2) this] obtain e d1 where
    d1: "bitmap_alloc bm d = (e, d1)" "alloc_step bm (dev_view d) e (dev_view d1)" "e \<noteq> 0" "e \<noteq> kFail32"
      "data_ok bm d1" "same_geometry d d1" "room bm (dev_view d1) (b - Suc a + k)" .
  let ?i = "ino\<lparr>direct := (direct ino)[a := e]\<rparr>"
  have len: "length (direct ino) = 23" using Suc.prems(3) by (simp add: tree_ok_def)
  have g: "grown bm ino (nodes a) (dev_view d) ?i (nodes (Suc a)) (dev_view d1)"
    unfolding nodes_Suc(1)[OF ab(2)]
  proof (rule grown_root[OF Suc.prems(3) closed_nodes Suc.prems(2) d1(2)])
    show "root ?i z = root ino z" if "z \<in> nodes a" "parent z = None" for z
      using that by (cases z) (auto split: if_splits)
  qed (use ab len in auto)
  from Suc.hyps(1)[OF m(1) _ d1(5) grownD(1)[OF g] m(2) Suc.prems(5) d1(7)] obtain ds d' where
    r: "increase_direct [Suc a..<b] bm ?i d1 = (kSuccess, ?i\<lparr>direct := ds\<rparr>, d')"
      "grown bm ?i (nodes (Suc a)) (dev_view d1) (?i\<lparr>direct := ds\<rparr>) (nodes b) (dev_view d')" "dstep bm d1 d' k" .
  show ?case
    using Suc.prems(1)[of ds d'] grown_trans[OF g r(2)] r dstep_trans[OF d1(6) r(3)] d1(1,4)
    by (simp add: l)
qed

lemma increase_ind1_ok:
  assumes "data_ok bm d" "tree_ok bm ino (insert Ind1 (nodes a)) ((dev_view d)(indirect1 ino := p))"
    and "23 \<le> a" "a \<le> b" "b \<le> 1047" "room bm (dev_view d) (b - a + k)"
  obtains p' d' where "increase_ind1 [a..<b] bm p d = (kSuccess, p', d')"
    "grown bm ino (insert Ind1 (nodes a)) ((dev_view d)(indirect1 ino := p)) ino (insert Ind1 (nodes b))
       ((dev_view d')(indirect1 ino := p'))" "dstep bm d d' k"
  using assms
proof (induction "b - a" arbitrary: a p d thesis)
  case 0
  then have "a = b" by simp
  then show ?case using 0(2)[of p d] 0(3-) by (simp add: grown_refl dstep_def)
next
  case (Suc m)
  then have ab: "a < b" "a < 1047" and m: "m = b - Suc a" "Suc a \<le> b" "23 \<le> Suc a" by auto
  have l: "[a..<b] = a # [Suc a..<b]" using ab by (simp add: upt_conv_Cons)
  let ?c = "indirect1 ino" and ?S = "insert Ind1 (nodes a)" and ?V = "(dev_view d)(indirect1 ino := p)"
  have "room bm (dev_view d) (Suc (b - Suc a + k))"
    using Suc.prems(7) ab by (simp add: Suc_diff_Suc)
  from data_alloc[OF Suc.prems(2) this] obtain e d1 where
    d1: "bitmap_alloc bm d = (e, d1)" "alloc_step bm (dev_view d) e (dev_view d1)" "e \<noteq> 0" "e \<noteq> kFail32"
      "data_ok bm d1" "same_geometry d d1" "room bm (dev_view d1) (b - Suc a + k)" .
  have "?c \<in> used_blks bm ?V" using Suc.prems(3) by (auto simp: tree_ok_def)
  then have reg: "?c \<notin> bm_region bm" using used_blks_area(4)[OF Suc.prems(2)] by blast
  let ?p = "put_u32 p (4 * (a - 23)) e"
  have "insert Ind1 (nodes (Suc a)) = insert (Data a) ?S"
    using nodes_Suc(2)[OF Suc.prems(4) ab(2)] by auto
  moreover have "grown bm ino ?S ?V ino (insert (Data a) ?S) ((dev_view d1)(?c := ?p))"
  proof (rule grown_hook[OF Suc.prems(3) _ Suc.prems(2) alloc_overlay[OF Suc.prems(2) d1(2) reg, of p]])
    show "closed ?S" by (rule closed_insert[OF closed_nodes]) simp
    show "parent (Data a) = Some (Ind1, a - 23)" using Suc.prems(4) ab by simp
  qed auto
  ultimately have g: "grown bm ino ?S ?V ino (insert Ind1 (nodes (Suc a))) ((dev_view d1)(?c := ?p))" by simp
  from Suc.hyps(1)[OF m(1) _ d1(5) grownD(1)[OF g] m(3,2) Suc.prems(6) d1(7)] obtain p' d' where
    r: "increase_ind1 [Suc a..<b] bm ?p d1 = (kSuccess, p', d')"
      "grown bm ino (insert Ind1 (nodes (Suc a))) ((dev_view d1)(?c := ?p)) ino (insert Ind1 (nodes b))
       ((dev_view d')(?c := p'))" "dstep bm d1 d' k" .
  show ?case
    using Suc.prems(1)[of p' d'] grown_trans[OF g r(2)] r dstep_trans[OF d1(6) r(3)] d1(1,4)
    by (simp add: l inode_consts)
qed

text \<open>An index block of the tree can be read, and writing it lays it over the contents.\<close>

lemma tree_rw:
  assumes "data_ok bm d" "c \<in> used_blks bm V"
  shows "unat c < dev_blocks d" "c \<notin> bm_region bm"
  using used_blks_area[OF assms] by auto

lemma read_index:
  assumes "data_ok bm d" "c \<in> used_blks bm V" "room bm (dev_view d) k"
  obtains d' where "dev_read c zero_block d = (kSuccess, dev_view d c, d')" "dev_view d' = dev_view d"
    "dstep bm d d' k"
proof -
  from dev_read_ok[OF data_okD(2)[OF assms(1)] tree_rw(1)[OF assms(1,2)], of zero_block] obtain d' where
    "dev_read c zero_block d = (kSuccess, dev_view d c, d')" "dev_ok d'" "dev_view d' = dev_view d"
    "same_geometry d d'" .
  then show ?thesis using that assms(3) data_ok_same[OF assms(1)] by (simp add: dstep_def)
qed

lemma write_index:
  assumes "data_ok bm d" "c \<in> used_blks bm V" "room bm (dev_view d) k"
  obtains d' where "dev_write c p d = (kSuccess, d')" "dev_view d' = (dev_view d)(c := p)" "dstep bm d d' k"
proof -
  from dev_write_ok[OF data_okD(2)[OF assms(1)] tree_rw(1)[OF assms(1,2)], of p] obtain d' where
    "dev_write c p d = (kSuccess, d')" "dev_ok d'" "dev_view d' = (dev_view d)(c := p)" "same_geometry d d'" .
  then show ?thesis
    using that assms(3) data_ok_same[OF assms(1)] used_blks_upd(2)[OF assms(1) tree_rw(2)[OF assms(1,2)]]
    by (simp add: dstep_def)
qed

lemma dstepD: "dstep bm d d' k \<Longrightarrow> data_ok bm d'" "dstep bm d d' k \<Longrightarrow> same_geometry d d'"
  "dstep bm d d' k \<Longrightarrow> room bm (dev_view d') k"
  by (simp_all add: dstep_def)

lemma increase_step2_ok:
  assumes ok: "data_ok bm d" and t: "tree_ok bm ino (nodes a) (dev_view d)"
    and a: "a = max old 23" "a \<le> 1047" and nw: "a < new" and b: "b = min new 1047"
    and z: "indirect1 ino = 0 \<longleftrightarrow> a = 23"
    and rm: "room bm (dev_view d) ((if a = 23 then 1 else 0) + (b - a + k))"
  obtains c d' where "increase_step2 old new bm ino d = (kSuccess, ino\<lparr>indirect1 := c\<rparr>, d')"
    "grown bm ino (nodes a) (dev_view d) (ino\<lparr>indirect1 := c\<rparr>) (nodes b) (dev_view d')" "dstep bm d d' k"
proof -
  obtain c d0 where c: "(if indirect1 ino = 0 then bitmap_alloc bm d else (indirect1 ino, d)) = (c, d0)"
      "c \<noteq> kFail32" "dstep bm d d0 (b - a + k)"
    and g0: "grown bm ino (nodes a) (dev_view d) (ino\<lparr>indirect1 := c\<rparr>) (insert Ind1 (nodes a)) (dev_view d0)"
  proof (cases "a = 23")
    case True
    then have "room bm (dev_view d) (Suc (b - a + k))" using rm by simp
    from data_alloc[OF ok this] obtain e d1 where
      d1: "bitmap_alloc bm d = (e, d1)" "alloc_step bm (dev_view d) e (dev_view d1)" "e \<noteq> 0" "e \<noteq> kFail32"
      "data_ok bm d1" "same_geometry d d1" "room bm (dev_view d1) (b - a + k)" .
    have "grown bm ino (nodes a) (dev_view d) (ino\<lparr>indirect1 := e\<rparr>) (insert Ind1 (nodes a)) (dev_view d1)"
    proof (rule grown_root[OF t closed_nodes ok d1(2)])
      show "root (ino\<lparr>indirect1 := e\<rparr>) y = root ino y" if "y \<in> nodes a" "parent y = None" for y
        using that True by (cases y) auto
    qed (use t True in \<open>auto simp: tree_ok_def\<close>)
    then show ?thesis using that[of e d1] d1 z True by (simp add: dstep_def)
  next
    case False
    then have i1: "insert Ind1 (nodes a) = nodes a" using a(1) by (auto simp: insert_absorb)
    have "indirect1 ino \<in> used_blks bm (dev_view d)"
      using t i1 unfolding tree_ok_def by (metis image_insert insert_subset node_blk.simps(2))
    then have "indirect1 ino \<noteq> kFail32" using used_blks_area(3)[OF ok] by blast
    moreover have "ino\<lparr>indirect1 := indirect1 ino\<rparr> = ino" by simp
    ultimately show ?thesis using that[of "indirect1 ino" d] False z rm ok t
      by (simp add: i1 grown_refl dstep_def)
  qed
  let ?i = "ino\<lparr>indirect1 := c\<rparr>"
  note t0 = grownD(1)[OF g0]
  have cu: "c \<in> used_blks bm (dev_view d0)" using t0 unfolding tree_ok_def by auto
  from read_index[OF dstepD(1)[OF c(3)] cu dstepD(3)[OF c(3)]] obtain d1 where
    d1: "dev_read c zero_block d0 = (kSuccess, dev_view d0 c, d1)" "dev_view d1 = dev_view d0"
    "dstep bm d0 d1 (b - a + k)" .
  have ab: "23 \<le> a" "a \<le> b" "b \<le> 1047" using a nw b by auto
  have id: "(dev_view d1)(indirect1 ?i := dev_view d0 c) = dev_view d0" by (simp add: d1(2) fun_eq_iff)
  from increase_ind1_ok[OF dstepD(1)[OF d1(3)] _ ab dstepD(3)[OF d1(3)], of ?i "dev_view d0 c", unfolded id]
  obtain p' d2 where
    d2: "increase_ind1 [a..<b] bm (dev_view d0 c) d1 = (kSuccess, p', d2)"
    "grown bm ?i (insert Ind1 (nodes a)) (dev_view d0) ?i (insert Ind1 (nodes b)) ((dev_view d2)(c := p'))"
    "dstep bm d1 d2 k" using t0 by auto
  have "c \<in> used_blks bm ((dev_view d2)(c := p'))" using grownD(4)[OF d2(2)] cu by auto
  from write_index[OF dstepD(1)[OF d2(3)] this dstepD(3)[OF d2(3)], of p'] obtain d3 where
    d3: "dev_write c p' d2 = (kSuccess, d3)" "dev_view d3 = (dev_view d2)(c := p')" "dstep bm d2 d3 k" .
  have nb: "insert Ind1 (nodes b) = nodes b" using nw b ab by (auto simp: insert_absorb)
  have lst: "[max old INODE_DIRECT_COUNT..<min new (INODE_DIRECT_COUNT + INODE_INDIRECT_COUNT)] = [a..<b]"
    using a b by (simp add: inode_consts)
  have "increase_step2 old new bm ino d = (kSuccess, ?i, d3)"
    using c(1,2) d1(1) d2(1) d3(1) lst by (simp add: increase_step2_def Let_def)
  moreover have "grown bm ino (nodes a) (dev_view d) ?i (nodes b) (dev_view d3)"
    using grown_trans[OF g0 d2(2)] by (simp add: nb d3(2))
  moreover have "dstep bm d d3 k"
    using c(3) d1(3) d2(3) d3(3) by (meson dstep_trans dstepD(2))
  ultimately show ?thesis using that by blast
qed

lemma tree_view:
  assumes "data_ok bm d" "tree_ok bm ino S V" "alloc_step bm V b V1" "q \<in> S"
  shows "V1 (node_blk ino V q) = V (node_blk ino V q)" "node_blk ino V q \<in> used_blks bm V1"
    "node_blk ino V q \<notin> bm_region bm"
proof -
  have u: "node_blk ino V q \<in> used_blks bm V" using assms(2,4) by (auto simp: tree_ok_def)
  show r: "node_blk ino V q \<notin> bm_region bm" by (rule used_blks_area(4)[OF assms(1) u])
  show "V1 (node_blk ino V q) = V (node_blk ino V q)" "node_blk ino V q \<in> used_blks bm V1"
    using assms(3) r u by (auto simp: alloc_step_def)
qed

text \<open>Allocating a block and writing its number into entry \<open>e\<close> of an index block on the device,
  whose contents \<open>p\<close> are at hand.\<close>

lemma alloc_hook:
  assumes ok: "data_ok bm d" and t: "tree_ok bm ino S (dev_view d)" and cl: "closed S"
    and x: "x \<notin> S" "parent x = Some (q, e)" "q \<in> S" and rm: "room bm (dev_view d) (Suc k)"
    and p: "p = dev_view d (node_blk ino (dev_view d) q)"
  obtains b d1 d2 where "bitmap_alloc bm d = (b, d1)" "b \<noteq> kFail32"
    "dev_write (node_blk ino (dev_view d) q) (put_u32 p (4 * e) b) d1 = (kSuccess, d2)"
    "grown bm ino S (dev_view d) ino (insert x S) (dev_view d2)" "dstep bm d d2 k"
    "node_blk ino (dev_view d2) x = b"
    "dev_view d2 (node_blk ino (dev_view d) q) = put_u32 p (4 * e) b"
    "\<forall>c. c \<notin> bm_region bm \<longrightarrow> c \<noteq> node_blk ino (dev_view d) q \<longrightarrow> dev_view d2 c = dev_view d c"
proof -
  let ?c = "node_blk ino (dev_view d) q"
  from data_alloc[OF ok rm] obtain b d1 where
    d1: "bitmap_alloc bm d = (b, d1)" "alloc_step bm (dev_view d) b (dev_view d1)" "b \<noteq> 0" "b \<noteq> kFail32"
      "data_ok bm d1" "same_geometry d d1" "room bm (dev_view d1) k" .
  note v = tree_view[OF ok t d1(2) x(3)]
  from write_index[OF d1(5) v(2) d1(7), of "put_u32 p (4 * e) b"] obtain d2 where
    d2: "dev_write ?c (put_u32 p (4 * e) b) d1 = (kSuccess, d2)"
      "dev_view d2 = (dev_view d1)(?c := put_u32 p (4 * e) b)" "dstep bm d1 d2 k" .
  have g: "grown bm ino S (dev_view d) ino (insert x S) (dev_view d2)"
    by (rule grown_hook[OF t cl ok d1(2) x]) (simp add: d2(2) v(1) p)
  have "node_blk ino (dev_view d2) q = ?c" using grownD(3)[OF g x(3)] .
  then have "node_blk ino (dev_view d2) x = b"
    using node_blk_parent[of ino "dev_view d2" x] x(2) by (simp add: d2(2) get_put_u32)
  moreover have "dev_view d2 c = dev_view d c" if "c \<notin> bm_region bm" "c \<noteq> ?c" for c
    using that d1(2) by (simp add: d2(2) alloc_step_def)
  ultimately show ?thesis
    using that[OF d1(1,4) d2(1) g dstep_trans[OF d1(6) d2(3)]] d2(2) by simp
qed

lemma increase_ind21_ok:
  assumes ok: "data_ok bm d" and t: "tree_ok bm ino S (dev_view d)" and cl: "closed S"
    and x: "Data a \<notin> S" "parent (Data a) = Some (q, j mod 1024)" "q \<in> S"
    and rm: "room bm (dev_view d) (Suc k)"
  obtains d' where "increase_ind21 j (node_blk ino (dev_view d) q) bm d = (kSuccess, d')"
    "grown bm ino S (dev_view d) ino (insert (Data a) S) (dev_view d')" "dstep bm d d' k"
    "\<forall>c. c \<notin> bm_region bm \<longrightarrow> c \<noteq> node_blk ino (dev_view d) q \<longrightarrow> dev_view d' c = dev_view d c"
proof -
  let ?c = "node_blk ino (dev_view d) q"
  have "?c \<in> used_blks bm (dev_view d)" using t x(3) by (auto simp: tree_ok_def)
  from read_index[OF ok this rm] obtain d1 where
    d1: "dev_read ?c zero_block d = (kSuccess, dev_view d ?c, d1)" "dev_view d1 = dev_view d"
    "dstep bm d d1 (Suc k)" .
  have t1: "tree_ok bm ino S (dev_view d1)" using t d1(2) by simp
  have p: "dev_view d ?c = dev_view d1 (node_blk ino (dev_view d1) q)" using d1(2) by simp
  from alloc_hook[OF dstepD(1)[OF d1(3)] t1 cl x dstepD(3)[OF d1(3)] p, unfolded d1(2)] obtain b d2 d3 where
    "bitmap_alloc bm d1 = (b, d2)" "b \<noteq> kFail32"
    "dev_write ?c (put_u32 (dev_view d ?c) (4 * (j mod 1024)) b) d2 = (kSuccess, d3)"
    "grown bm ino S (dev_view d) ino (insert (Data a) S) (dev_view d3)" "dstep bm d1 d3 k"
    "node_blk ino (dev_view d3) (Data a) = b" "dev_view d3 ?c = put_u32 (dev_view d ?c) (4 * (j mod 1024)) b"
    "\<forall>c. c \<notin> bm_region bm \<longrightarrow> c \<noteq> ?c \<longrightarrow> dev_view d3 c = dev_view d c" .
  then show ?thesis
    using that[of d3] d1(1) dstep_trans[OF dstepD(2)[OF d1(3)]] by (simp add: increase_ind21_def inode_consts)
qed

text \<open>Index blocks of the second level needed for \<open>n\<close> data blocks.\<close>

definition ind21_count :: "nat \<Rightarrow> nat" where
  "ind21_count n = (n - 1047 + 1023) div 1024"

lemma ind21_count_Suc:
  assumes "1047 \<le> a"
  shows "ind21_count (Suc a) = ind21_count a + (if (a - 1047) mod 1024 = 0 then 1 else 0)"
    "(a - 1047) div 1024 + (if (a - 1047) mod 1024 = 0 then 0 else 1) = ind21_count a"
proof -
  define m where "m = a - 1047"
  have e: "Suc a - 1047 = Suc m" using assms by (simp add: m_def)
  have m: "m + 1023 = (m mod 1024 + 1023) + m div 1024 * 1024" "Suc m + 1023 = (m mod 1024 + 1024) + m div 1024 * 1024"
    by (simp_all add: mult.commute)
  have "(m mod 1024 + 1023) div 1024 = (if m mod 1024 = 0 then 0 else 1)"
    using mod_less_divisor[of 1024 m] by (simp add: div_nat_eqI)
  moreover have "(m + 1023) div 1024 = m div 1024 + (m mod 1024 + 1023) div 1024"
    by (subst m(1), subst div_mult_self1) simp_all
  moreover have "(Suc m + 1023) div 1024 = m div 1024 + 1"
    by (subst m(2), subst div_mult_self1) simp_all
  ultimately have "(m + 1023) div 1024 = m div 1024 + (if m mod 1024 = 0 then 0 else 1)"
    "(Suc m + 1023) div 1024 = m div 1024 + 1" by simp_all
  then show "ind21_count (Suc a) = ind21_count a + (if (a - 1047) mod 1024 = 0 then 1 else 0)"
    "(a - 1047) div 1024 + (if (a - 1047) mod 1024 = 0 then 0 else 1) = ind21_count a"
    unfolding ind21_count_def e m_def[symmetric] by simp_all
qed

lemma ind21_count_mono: "a \<le> b \<Longrightarrow> ind21_count a \<le> ind21_count b"
  unfolding ind21_count_def by (intro div_le_mono) simp

lemma ind21_in_nodes:
  assumes "1047 \<le> a"
  shows "Ind21 ((a - 1047) div 1024) \<in> nodes a \<longleftrightarrow> (a - 1047) mod 1024 \<noteq> 0"
proof -
  have "a - 1047 = 1024 * ((a - 1047) div 1024) + (a - 1047) mod 1024" by simp
  then have "1047 + 1024 * ((a - 1047) div 1024) < a \<longleftrightarrow> (a - 1047) mod 1024 \<noteq> 0" using assms by linarith
  then show ?thesis by simp
qed

text \<open>Before data block \<open>a\<close> is hooked in, its index block is there: it is the one in use, or, when the
  last one is full, a fresh one.\<close>

lemma ind21_ready:
  fixes ino :: DiskInode and p :: block and r :: nat
  assumes ok: "data_ok bm d" and t: "tree_ok bm ino (insert Ind2 (nodes a)) (dev_view d)" and a: "1047 \<le> a"
    and p: "p = dev_view d (indirect2 ino)" and lim: "lim = int (ind21_count a) - 1"
    and rm: "room bm (dev_view d) (Suc (ind21_count (Suc a) - ind21_count a + r))"
  defines "k \<equiv> (a - 1047) div 1024"
  obtains d1 lim1 p1 where
    "\<forall>is. increase_ind2 (a # is) bm (indirect2 ino) lim p d =
      (let (r3, d3) = increase_ind21 (a - 1047) (node_blk ino (dev_view d1) (Ind21 k)) bm d1 in
       if r3 \<noteq> kSuccess then (kFail, d3) else increase_ind2 is bm (indirect2 ino) lim1 p1 d3)"
    "p1 = dev_view d1 (indirect2 ino)" "lim1 = int (ind21_count (Suc a)) - 1"
    "grown bm ino (insert Ind2 (nodes a)) (dev_view d) ino (insert (Ind21 k) (insert Ind2 (nodes a))) (dev_view d1)"
    "dstep bm d d1 (Suc r)"
proof (cases "(a - 1047) mod 1024 = 0")
  let ?S = "insert Ind2 (nodes a)" and ?c = "indirect2 ino"
  note cS = ind21_count_Suc[OF a, folded k_def]
  case True
  then have x: "Ind21 k \<notin> ?S" using ind21_in_nodes[OF a] by (simp add: k_def)
  have cl: "closed ?S" by (rule closed_insert[OF closed_nodes]) simp
  have pp: "parent (Ind21 k) = Some (Ind2, k)" "Ind2 \<in> ?S" by simp_all
  have rm2: "room bm (dev_view d) (Suc (Suc r))" using rm cS(1) True by simp
  have p': "p = dev_view d (node_blk ino (dev_view d) Ind2)" using p by simp
  from alloc_hook[OF ok t cl x pp rm2 p'] obtain e d0 d1 where
    h: "bitmap_alloc bm d = (e, d0)" "e \<noteq> kFail32" "dev_write ?c (put_u32 p (4 * k) e) d0 = (kSuccess, d1)"
    "grown bm ino ?S (dev_view d) ino (insert (Ind21 k) ?S) (dev_view d1)" "dstep bm d d1 (Suc r)"
    "node_blk ino (dev_view d1) (Ind21 k) = e" "dev_view d1 ?c = put_u32 p (4 * k) e"
    unfolding node_blk.simps(3) .
  have "int k > lim" "lim + 1 = int (ind21_count (Suc a)) - 1" using cS True lim by simp_all
  then show thesis
    using h
    by (intro that[of d1 "lim + 1" "put_u32 p (4 * ((a - 1047) div 1024)) e"]) (simp_all add: inode_consts Let_def get_put_u32 k_def)
next
  let ?S = "insert Ind2 (nodes a)" and ?c = "indirect2 ino"
  note cS = ind21_count_Suc[OF a, folded k_def]
  case False
  then have "Ind21 k \<in> nodes a" using ind21_in_nodes[OF a] by (simp add: k_def)
  then have S: "insert (Ind21 k) ?S = ?S" by auto
  have lt: "\<not> int k > lim" "lim = int (ind21_count (Suc a)) - 1" using cS False lim by simp_all
  have e: "node_blk ino (dev_view d) (Ind21 k) = get_u32 p (4 * k)" using p by simp
  show thesis
  proof (rule that[OF _ p lt(2)])
    show "\<forall>is. increase_ind2 (a # is) bm ?c lim p d =
      (let (r3, d3) = increase_ind21 (a - 1047) (node_blk ino (dev_view d) (Ind21 k)) bm d in
       if r3 \<noteq> kSuccess then (kFail, d3) else increase_ind2 is bm ?c lim p d3)"
      unfolding e using lt(1) by (simp add: inode_consts Let_def k_def)
  qed (use ok t rm cS(1) False in \<open>simp_all add: S grown_refl dstep_def\<close>)
qed

lemma increase_ind2_ok:
  assumes "data_ok bm d" "tree_ok bm ino (insert Ind2 (nodes a)) (dev_view d)"
    and "1047 \<le> a" "a \<le> b" "p = dev_view d (indirect2 ino)" "lim = int (ind21_count a) - 1"
    and "room bm (dev_view d) (b - a + (ind21_count b - ind21_count a) + k)"
  obtains d' where "increase_ind2 [a..<b] bm (indirect2 ino) lim p d = (kSuccess, d')"
    "grown bm ino (insert Ind2 (nodes a)) (dev_view d) ino (insert Ind2 (nodes b)) (dev_view d')" "dstep bm d d' k"
  using assms
proof (induction "b - a" arbitrary: a lim p d thesis)
  case 0
  then have "a = b" by simp
  then show ?case using 0(2)[of d] 0(3-) by (simp add: grown_refl dstep_def)
next
  case (Suc m)
  then have ab: "a < b" and m: "m = b - Suc a" "Suc a \<le> b" "1047 \<le> Suc a" by auto
  have l: "[a..<b] = a # [Suc a..<b]" using ab by (simp add: upt_conv_Cons)
  let ?k = "(a - 1047) div 1024" and ?S = "insert Ind2 (nodes a)" and ?c = "indirect2 ino"
  let ?r = "b - Suc a + (ind21_count b - ind21_count (Suc a)) + k"
  have cl: "closed ?S" by (rule closed_insert[OF closed_nodes]) simp
  note cS = ind21_count_Suc[OF Suc.prems(4)] and mono = ind21_count_mono[OF m(2)]
  have "b - a + (ind21_count b - ind21_count a) + k = Suc (ind21_count (Suc a) - ind21_count a + ?r)"
    using cS(1) mono ab by simp
  then have rm: "room bm (dev_view d) (Suc (ind21_count (Suc a) - ind21_count a + ?r))" using Suc.prems(8) by metis
  from ind21_ready[OF Suc.prems(2-4,6,7) rm] obtain d1 lim1 p1 where
    step: "\<forall>is. increase_ind2 (a # is) bm ?c lim p d =
      (let (r3, d3) = increase_ind21 (a - 1047) (node_blk ino (dev_view d1) (Ind21 ?k)) bm d1 in
       if r3 \<noteq> kSuccess then (kFail, d3) else increase_ind2 is bm ?c lim1 p1 d3)"
    and p1: "p1 = dev_view d1 ?c" "lim1 = int (ind21_count (Suc a)) - 1"
    and g1: "grown bm ino ?S (dev_view d) ino (insert (Ind21 ?k) ?S) (dev_view d1)"
    and s1: "dstep bm d d1 (Suc ?r)" .
  note t1 = grownD(1)[OF g1]
  let ?S1 = "insert (Ind21 ?k) ?S"
  have cl1: "closed ?S1" by (rule closed_insert[OF cl]) simp
  have x: "Data a \<notin> ?S1" "parent (Data a) = Some (Ind21 ?k, (a - 1047) mod 1024)" "Ind21 ?k \<in> ?S1"
    using Suc.prems(4) by simp_all
  from increase_ind21_ok[OF dstepD(1)[OF s1] t1 cl1 x dstepD(3)[OF s1]] obtain d2 where
    d2: "increase_ind21 (a - 1047) (node_blk ino (dev_view d1) (Ind21 ?k)) bm d1 = (kSuccess, d2)"
      "grown bm ino ?S1 (dev_view d1) ino (insert (Data a) ?S1) (dev_view d2)" "dstep bm d1 d2 ?r"
      "\<forall>c. c \<notin> bm_region bm \<longrightarrow> c \<noteq> node_blk ino (dev_view d1) (Ind21 ?k) \<longrightarrow> dev_view d2 c = dev_view d1 c" .
  have S2: "insert (Data a) ?S1 = insert Ind2 (nodes (Suc a))" using nodes_Suc(3)[OF Suc.prems(4)] by auto
  have cne: "?c \<noteq> node_blk ino (dev_view d1) (Ind21 ?k)" "?c \<in> used_blks bm (dev_view d1)"
    using t1 inj_onD[of "node_blk ino (dev_view d1)" ?S1 Ind2 "Ind21 ?k"] by (auto simp: tree_ok_def)
  have p2: "p1 = dev_view d2 ?c" using d2(4)[rule_format, OF used_blks_area(4)[OF dstepD(1)[OF s1] cne(2)] cne(1)] p1(1) by simp
  from Suc.hyps(1)[OF m(1) _ dstepD(1)[OF d2(3)] grownD(1)[OF d2(2), unfolded S2] m(3,2) p2 p1(2) dstepD(3)[OF d2(3)]]
  obtain d' where r: "increase_ind2 [Suc a..<b] bm ?c lim1 p1 d2 = (kSuccess, d')"
    "grown bm ino (insert Ind2 (nodes (Suc a))) (dev_view d2) ino (insert Ind2 (nodes b)) (dev_view d')"
    "dstep bm d2 d' k" .
  have "increase_ind2 [a..<b] bm ?c lim p d = (kSuccess, d')" unfolding l step[rule_format] d2(1) by (simp add: r(1))
  moreover have "grown bm ino ?S (dev_view d) ino (insert Ind2 (nodes b)) (dev_view d')"
    by (rule grown_trans[OF g1 grown_trans[OF d2(2)[unfolded S2] r(2)]])
  moreover have "dstep bm d d' k" using s1 d2(3) r(3) by (meson dstep_trans dstepD(2))
  ultimately show ?case using Suc.prems(1) by blast
qed

lemma blk_limit:
  assumes "a = max old 1047"
  shows "(let old_idx_limit = int old - int INODE_DIRECT_COUNT - int INODE_INDIRECT_COUNT - 1
     in if old_idx_limit < 0 then -1 else old_idx_limit div int INODE_INDIRECT_COUNT) = int (ind21_count a) - 1"
proof (cases "old \<le> 1047")
  case True
  then show ?thesis using assms by (simp add: inode_consts ind21_count_def)
next
  case False
  define m where "m = old - 1048"
  have "a - 1047 + 1023 = m + 1 * 1024" "int old - 23 - 1024 - 1 = int m" using False assms by (auto simp: m_def)
  then show ?thesis
    by (simp add: inode_consts ind21_count_def Let_def zdiv_int[symmetric])
qed

text \<open>The second-level index block is allocated when the file had none.\<close>

lemma ind2_ready:
  fixes ino :: DiskInode and r :: nat
  assumes ok: "data_ok bm d" and t: "tree_ok bm ino (nodes a) (dev_view d)" and a: "1047 \<le> a"
    and z: "indirect2 ino = 0 \<longleftrightarrow> a = 1047" and rm: "room bm (dev_view d) ((if a = 1047 then 1 else 0) + r)"
  obtains c d0 where "(if indirect2 ino = 0 then bitmap_alloc bm d else (indirect2 ino, d)) = (c, d0)"
    "c \<noteq> kFail32" "dstep bm d d0 r"
    "grown bm ino (nodes a) (dev_view d) (ino\<lparr>indirect2 := c\<rparr>) (insert Ind2 (nodes a)) (dev_view d0)"
proof (cases "a = 1047")
  case True
  then have "room bm (dev_view d) (Suc r)" using rm by simp
  from data_alloc[OF ok this] obtain e d1 where
    d1: "bitmap_alloc bm d = (e, d1)" "alloc_step bm (dev_view d) e (dev_view d1)" "e \<noteq> 0" "e \<noteq> kFail32"
    "data_ok bm d1" "same_geometry d d1" "room bm (dev_view d1) r" .
  have "grown bm ino (nodes a) (dev_view d) (ino\<lparr>indirect2 := e\<rparr>) (insert Ind2 (nodes a)) (dev_view d1)"
  proof (rule grown_root[OF t closed_nodes ok d1(2)])
    show "root (ino\<lparr>indirect2 := e\<rparr>) y = root ino y" if "y \<in> nodes a" "parent y = None" for y
      using that True by (cases y) auto
  qed (use t True in \<open>auto simp: tree_ok_def\<close>)
  then show ?thesis using that[of e d1] d1 z True by (simp add: dstep_def)
next
  case False
  then have i2: "insert Ind2 (nodes a) = nodes a" using a by (auto simp: insert_absorb)
  have "indirect2 ino \<in> used_blks bm (dev_view d)"
    using t i2 unfolding tree_ok_def by (metis image_insert insert_subset node_blk.simps(3))
  then have "indirect2 ino \<noteq> kFail32" using used_blks_area(3)[OF ok] by blast
  moreover have "ino\<lparr>indirect2 := indirect2 ino\<rparr> = ino" by simp
  ultimately show ?thesis using that[of "indirect2 ino" d] False z rm ok t
    by (simp add: i2 grown_refl dstep_def)
qed

lemma increase_step3_ok:
  assumes ok: "data_ok bm d" and t: "tree_ok bm ino (nodes a) (dev_view d)"
    and a: "a = max old 1047" and nw: "a < new" and z: "indirect2 ino = 0 \<longleftrightarrow> a = 1047"
    and rm: "room bm (dev_view d) ((if a = 1047 then 1 else 0) + (new - a + (ind21_count new - ind21_count a) + k))"
  obtains c d' where "increase_step3 old new bm ino d = (kSuccess, ino\<lparr>indirect2 := c\<rparr>, d')"
    "grown bm ino (nodes a) (dev_view d) (ino\<lparr>indirect2 := c\<rparr>) (nodes new) (dev_view d')" "dstep bm d d' k"
proof -
  let ?r = "new - a + (ind21_count new - ind21_count a) + k"
  from ind2_ready[OF ok t _ z rm] a obtain c d0 where
    c: "(if indirect2 ino = 0 then bitmap_alloc bm d else (indirect2 ino, d)) = (c, d0)" "c \<noteq> kFail32" "dstep bm d d0 ?r"
    and g0: "grown bm ino (nodes a) (dev_view d) (ino\<lparr>indirect2 := c\<rparr>) (insert Ind2 (nodes a)) (dev_view d0)" by auto
  let ?i = "ino\<lparr>indirect2 := c\<rparr>"
  note t0 = grownD(1)[OF g0]
  have cu: "c \<in> used_blks bm (dev_view d0)" using t0 unfolding tree_ok_def by auto
  from read_index[OF dstepD(1)[OF c(3)] cu dstepD(3)[OF c(3)]] obtain d1 where
    d1: "dev_read c zero_block d0 = (kSuccess, dev_view d0 c, d1)" "dev_view d1 = dev_view d0" "dstep bm d0 d1 ?r" .
  have an: "1047 \<le> a" "a \<le> new" "dev_view d0 c = dev_view d1 (indirect2 ?i)" using a nw d1(2) by auto
  from increase_ind2_ok[OF dstepD(1)[OF d1(3)] t0[folded d1(2)] an refl dstepD(3)[OF d1(3)]] obtain d2 where
    d2: "increase_ind2 [a..<new] bm (indirect2 ?i) (int (ind21_count a) - 1) (dev_view d0 c) d1 = (kSuccess, d2)"
    "grown bm ?i (insert Ind2 (nodes a)) (dev_view d1) ?i (insert Ind2 (nodes new)) (dev_view d2)"
    "dstep bm d1 d2 k" .
  have nb: "insert Ind2 (nodes new) = nodes new" using nw a by (auto simp: insert_absorb)
  have lst: "[max old (INODE_DIRECT_COUNT + INODE_INDIRECT_COUNT)..<new] = [a..<new]"
    using a by (simp add: inode_consts)
  have "increase_step3 old new bm ino d = (kSuccess, ?i, d2)"
    using c(1,2) d1(1) d2(1) lst blk_limit[OF a] by (simp add: increase_step3_def Let_def)
  moreover have "grown bm ino (nodes a) (dev_view d) ?i (nodes new) (dev_view d2)"
    using grown_trans[OF g0 d2(2)[unfolded d1(2)]] by (simp add: nb)
  moreover have "dstep bm d d2 k" using c(3) d1(3) d2(3) by (meson dstep_trans dstepD(2))
  ultimately show ?thesis using that by blast
qed

lemma increase_step2_id:
  assumes ok: "data_ok bm d" and t: "tree_ok bm ino (nodes old) (dev_view d)" and o: "1047 < old"
    and z: "indirect1 ino \<noteq> 0" and rm: "room bm (dev_view d) k"
  obtains d' where "increase_step2 old new bm ino d = (kSuccess, ino, d')" "dev_view d' = dev_view d" "dstep bm d d' k"
proof -
  let ?c = "indirect1 ino"
  have "Ind1 \<in> nodes old" using o by simp
  then have cu: "?c \<in> used_blks bm (dev_view d)" using tree_used[OF t, of Ind1] by simp
  from read_index[OF ok cu rm] obtain d1 where
    d1: "dev_read ?c zero_block d = (kSuccess, dev_view d ?c, d1)" "dev_view d1 = dev_view d" "dstep bm d d1 k" .
  from write_index[OF dstepD(1)[OF d1(3)] cu dstepD(3)[OF d1(3)], of "dev_view d ?c"] obtain d2 where
    d2: "dev_write ?c (dev_view d ?c) d1 = (kSuccess, d2)" "dev_view d2 = (dev_view d1)(?c := dev_view d ?c)"
    "dstep bm d1 d2 k" .
  have lst: "[max old INODE_DIRECT_COUNT..<min new (INODE_DIRECT_COUNT + INODE_INDIRECT_COUNT)] = []"
    using o by (simp add: inode_consts)
  have "increase_step2 old new bm ino d = (kSuccess, ino, d2)"
    using z d1(1) d2(1) by (simp add: increase_step2_def lst)
  then show ?thesis
    using that[of d2] d1 d2 dstep_trans[OF dstepD(2)[OF d1(3)] d2(3)] by (simp add: fun_eq_iff)
qed

section \<open>Growing a file\<close>

text \<open>The index fields of an inode with \<open>n\<close> data blocks: zero means not allocated.\<close>

definition ind_zero :: "DiskInode \<Rightarrow> nat \<Rightarrow> bool" where
  "ind_zero ino n \<longleftrightarrow> (indirect1 ino = 0 \<longleftrightarrow> n \<le> 23) \<and> (indirect2 ino = 0 \<longleftrightarrow> n \<le> 1047)"

lemma tree_size_ind21:
  "tree_size n = n + (if n > 23 then 1 else 0) + (if n > 1047 then 1 else 0) + ind21_count n"
  by (auto simp: tree_size_def ind21_count_def)

lemma ind21_count_small: "n \<le> 1047 \<Longrightarrow> ind21_count n = 0"
  by (simp add: ind21_count_def)

text \<open>Stage one leads from \<open>old\<close> to \<open>max old (min new 23)\<close> data blocks, stage two to
  \<open>max old (min new 1047)\<close>, stage three to \<open>new\<close>.\<close>

lemma stage1:
  assumes "data_ok bm d" "tree_ok bm ino (nodes old) (dev_view d)" "b = max old (min new 23)"
    and "room bm (dev_view d) (tree_size b - tree_size old + k)"
  obtains ds d' where
    "increase_direct [old..<min new INODE_DIRECT_COUNT] bm ino d = (kSuccess, ino\<lparr>direct := ds\<rparr>, d')"
    "grown bm ino (nodes old) (dev_view d) (ino\<lparr>direct := ds\<rparr>) (nodes b) (dev_view d')" "dstep bm d d' k"
proof (cases "old \<le> min new 23")
  case True
  then have b: "b = min new 23" "old \<le> b" "b \<le> 23" using assms(3) by auto
  have "tree_size b - tree_size old = b - old" using b by (simp add: tree_size_def)
  then have rm: "room bm (dev_view d) (b - old + k)" using assms(4) by simp
  from increase_direct_ok[OF assms(1,2) b(2,3) rm] obtain ds d' where
    "increase_direct [old..<b] bm ino d = (kSuccess, ino\<lparr>direct := ds\<rparr>, d')"
    "grown bm ino (nodes old) (dev_view d) (ino\<lparr>direct := ds\<rparr>) (nodes b) (dev_view d')" "dstep bm d d' k" .
  then show ?thesis using that[of ds d'] b(1) by (simp add: inode_consts)
next
  case False
  then have "b = old" using assms(3) by auto
  then show ?thesis using that[of "direct ino" d] False assms(1,2,4) by (simp add: inode_consts grown_refl dstep_def)
qed

lemma stage2:
  assumes ok: "data_ok bm d" and t: "tree_ok bm ino (nodes a) (dev_view d)"
    and a: "a = max old 23" and nw: "old < new" "23 < new" and b: "b = max old (min new 1047)"
    and z: "indirect1 ino = 0 \<longleftrightarrow> old \<le> 23"
    and rm: "room bm (dev_view d) (tree_size b - tree_size a + k)"
  obtains c d' where "increase_step2 old new bm ino d = (kSuccess, ino\<lparr>indirect1 := c\<rparr>, d')"
    "grown bm ino (nodes a) (dev_view d) (ino\<lparr>indirect1 := c\<rparr>) (nodes b) (dev_view d')" "dstep bm d d' k"
proof (cases "a \<le> 1047")
  case True
  then have b': "b = min new 1047" "a < new" using a nw b by auto
  have ab: "a \<le> b" "23 < b" using True b' a by auto
  have "tree_size b - tree_size a = (if a = 23 then 1 else 0) + (b - a)"
    using True ab a b'(1) by (auto simp: tree_size_ind21 ind21_count_small)
  then have rm': "room bm (dev_view d) ((if a = 23 then 1 else 0) + (b - a + k))" using rm by (simp add: ac_simps)
  have z': "indirect1 ino = 0 \<longleftrightarrow> a = 23" using z a by auto
  from increase_step2_ok[OF ok t a True b'(2,1) z' rm'] show ?thesis using that by blast
next
  case False
  then have e: "a = old" "b = old" "1047 < old" "indirect1 ino \<noteq> 0" using a b z by auto
  have "room bm (dev_view d) k" using rm e by simp
  from increase_step2_id[OF ok t[unfolded e(1)] e(3,4) this, of new] obtain d' where
    "increase_step2 old new bm ino d = (kSuccess, ino, d')" "dev_view d' = dev_view d" "dstep bm d d' k" .
  then show ?thesis using that[of "indirect1 ino" d'] t e by (simp add: grown_refl)
qed

lemma stage3:
  assumes ok: "data_ok bm d" and t: "tree_ok bm ino (nodes a) (dev_view d)"
    and a: "a = max old 1047" and nw: "old < new" "1047 < new"
    and z: "indirect2 ino = 0 \<longleftrightarrow> old \<le> 1047"
    and rm: "room bm (dev_view d) (tree_size new - tree_size a + k)"
  obtains c d' where "increase_step3 old new bm ino d = (kSuccess, ino\<lparr>indirect2 := c\<rparr>, d')"
    "grown bm ino (nodes a) (dev_view d) (ino\<lparr>indirect2 := c\<rparr>) (nodes new) (dev_view d')" "dstep bm d d' k"
proof -
  have an: "a < new" "1047 \<le> a" using a nw by auto
  have "tree_size new - tree_size a = (if a = 1047 then 1 else 0) + (new - a + (ind21_count new - ind21_count a))"
    using an ind21_count_mono[of a new] by (auto simp: tree_size_ind21)
  then have rm': "room bm (dev_view d) ((if a = 1047 then 1 else 0) + (new - a + (ind21_count new - ind21_count a) + k))"
    using rm by (simp add: ac_simps)
  have z': "indirect2 ino = 0 \<longleftrightarrow> a = 1047" using z a by auto
  from increase_step3_ok[OF ok t a an(1) z' rm'] show ?thesis using that by blast
qed

lemma increase_ok:
  assumes ok: "data_ok bm d" and t: "tree_ok bm ino (nodes old) (dev_view d)"
    and nw: "old < new" and z: "ind_zero ino old"
    and rm: "room bm (dev_view d) (tree_size new - tree_size old + k)"
  obtains ds i1 i2 d' where
    "increase old new bm ino d = (kSuccess, ino\<lparr>direct := ds, indirect1 := i1, indirect2 := i2\<rparr>, d')"
    "grown bm ino (nodes old) (dev_view d) (ino\<lparr>direct := ds, indirect1 := i1, indirect2 := i2\<rparr>)
       (nodes new) (dev_view d')" "dstep bm d d' k"
    "new \<le> 23 \<longrightarrow> i1 = indirect1 ino" "new \<le> 1047 \<longrightarrow> i2 = indirect2 ino"
proof -
  define a where "a = max old (min new 23)"
  define b where "b = max old (min new 1047)"
  have le: "old \<le> a" "a \<le> b" "b \<le> new" using nw by (auto simp: a_def b_def)
  have mono: "tree_size old \<le> tree_size a" "tree_size a \<le> tree_size b" "tree_size b \<le> tree_size new"
    using le tree_size_mono by (metis le_less)+
  have "room bm (dev_view d) (tree_size a - tree_size old + (tree_size new - tree_size a + k))"
    using rm mono by (simp add: room_def)
  from stage1[OF ok t a_def this] obtain ds d1 where
    d1: "increase_direct [old..<min new INODE_DIRECT_COUNT] bm ino d = (kSuccess, ino\<lparr>direct := ds\<rparr>, d1)"
    "grown bm ino (nodes old) (dev_view d) (ino\<lparr>direct := ds\<rparr>) (nodes a) (dev_view d1)"
    "dstep bm d d1 (tree_size new - tree_size a + k)" .
  let ?i1 = "ino\<lparr>direct := ds\<rparr>"
  note ok1 = dstepD(1)[OF d1(3)] and t1 = grownD(1)[OF d1(2)]
  show ?thesis
  proof (cases "23 < new")
    case False
    then have "a = new" "\<not> 1047 < new" using nw by (auto simp: a_def)
    moreover have "?i1\<lparr>direct := ds, indirect1 := indirect1 ino, indirect2 := indirect2 ino\<rparr> = ?i1" by simp
    ultimately show ?thesis
      using that[of "indirect2 ino" "indirect1 ino" ds d1] d1 False by (simp add: increase_def inode_consts)
  next
    case True
    then have a': "a = max old 23" by (simp add: a_def)
    have "room bm (dev_view d1) (tree_size b - tree_size a + (tree_size new - tree_size b + k))"
      using dstepD(3)[OF d1(3)] mono by (simp add: room_def)
    from stage2[OF ok1 t1 a' nw True b_def _ this] z obtain i1 d2 where
      d2: "increase_step2 old new bm ?i1 d1 = (kSuccess, ?i1\<lparr>indirect1 := i1\<rparr>, d2)"
      "grown bm ?i1 (nodes a) (dev_view d1) (?i1\<lparr>indirect1 := i1\<rparr>) (nodes b) (dev_view d2)"
      "dstep bm d1 d2 (tree_size new - tree_size b + k)" by (auto simp: ind_zero_def)
    let ?i2 = "?i1\<lparr>indirect1 := i1\<rparr>"
    note g2 = grown_trans[OF d1(2) d2(2)] and s2 = dstep_trans[OF dstepD(2)[OF d1(3)] d2(3)]
    show ?thesis
    proof (cases "1047 < new")
      case False
      then have "b = new" using nw by (auto simp: b_def)
      moreover have "?i2\<lparr>indirect2 := indirect2 ino\<rparr> = ?i2" by simp
      ultimately show ?thesis
        using that[of "indirect2 ino" i1 ds d2] d1(1) d2(1) g2 s2 True False by (simp add: increase_def inode_consts)
    next
      case T: True
      then have b': "b = max old 1047" by (simp add: b_def)
      from stage3[OF dstepD(1)[OF d2(3)] grownD(1)[OF d2(2)] b' nw T _ dstepD(3)[OF d2(3)]] z obtain i2 d3 where
        d3: "increase_step3 old new bm ?i2 d2 = (kSuccess, ?i2\<lparr>indirect2 := i2\<rparr>, d3)"
        "grown bm ?i2 (nodes b) (dev_view d2) (?i2\<lparr>indirect2 := i2\<rparr>) (nodes new) (dev_view d3)" "dstep bm d2 d3 k"
        by (auto simp: ind_zero_def)
      show ?thesis
        using that[of i2 i1 ds d3] d1(1) d2(1) d3(1) grown_trans[OF g2 d3(2)] True T
          dstep_trans[OF dstepD(2)[OF s2] d3(3)] by (simp add: increase_def inode_consts)
    qed
  qed
qed

text \<open>The invariant of a file on the device: its blocks are distinct blocks of the data area that
  are marked as used, and its index fields are zero exactly when not needed.\<close>

definition file_inv :: "Bitmap \<Rightarrow> DiskInode \<Rightarrow> dev \<Rightarrow> bool" where
  "file_inv bm ino d \<longleftrightarrow> data_ok bm d \<and>
     tree_ok bm ino (nodes (unat (data_blocks (di_size ino)))) (dev_view d) \<and>
     ind_zero ino (unat (data_blocks (di_size ino)))"

lemma tree_inode_ok:
  assumes "data_ok bm d" "tree_ok bm ino (nodes n) (dev_view d)" "n \<le> 2 ^ 20"
  shows "inode_ok ino n d"
  using assms used_blks_area(1)[OF assms(1) tree_used[OF assms(2)]] data_okD(2)[OF assms(1)]
  by (auto simp: inode_ok_def tree_ok_def DiskInode_wf_def kInodeDirectCnt_def)

lemma file_inv_ok: "file_inv bm ino d \<Longrightarrow> file_ok ino d"
  using tree_inode_ok data_blocks_bound by (auto simp: file_inv_def)

lemma ind_zero_tree:
  assumes "data_ok bm d" "tree_ok bm ino (nodes n) V" "n > 23 \<or> indirect1 ino = 0" "n > 1047 \<or> indirect2 ino = 0"
  shows "ind_zero ino n"
proof -
  have "indirect1 ino \<noteq> 0" if "n > 23"
    using used_blks_area(2)[OF assms(1) tree_used[OF assms(2), of Ind1]] that by simp
  moreover have "indirect2 ino \<noteq> 0" if "n > 1047"
    using used_blks_area(2)[OF assms(1) tree_used[OF assms(2), of Ind2]] that by simp
  ultimately show ?thesis using assms(3,4) unfolding ind_zero_def by (metis linorder_not_less)
qed

lemma tree_ok_meta [simp]:
  "tree_ok bm (update_meta f now ino) S V = tree_ok bm ino S V"
  "tree_ok bm (ino\<lparr>di_size := s\<rparr>) S V = tree_ok bm ino S V"
proof -
  have "node_blk (update_meta f now ino) V = node_blk ino V" "node_blk (ino\<lparr>di_size := s\<rparr>) V = node_blk ino V"
    by (simp_all add: fun_eq_iff)
  then show "tree_ok bm (update_meta f now ino) S V = tree_ok bm ino S V"
    "tree_ok bm (ino\<lparr>di_size := s\<rparr>) S V = tree_ok bm ino S V" by (simp_all add: tree_ok_def)
qed

text \<open>Data that was in the file stays where it was and as it was.\<close>

lemma grown_data:
  assumes ok: "data_ok bm d" and g: "grown bm ino (nodes n) V ino' (nodes n') V'" and i: "i < n'"
  shows "V' (node_blk ino' V' (Data i)) = V (node_blk ino' V' (Data i))"
proof -
  note t = grownD(1)[OF g]
  have "node_blk ino' V' (Data i) \<notin> bm_region bm"
    by (rule used_blks_area(4)[OF ok tree_used[OF t]]) (use i in simp)
  moreover have "node_blk ino' V' (Data i) \<notin> node_blk ino' V' ` {x \<in> nodes n'. is_index x}"
    using t i by (auto simp: tree_ok_def dest!: inj_onD)
  ultimately show ?thesis by (rule grownD(6)[OF g])
qed

lemma grown_bytes:
  assumes ok: "data_ok bm d" and g: "grown bm ino (nodes n) V ino' (nodes n') V'" and p: "p < 4096 * n"
  shows "file_byte ino' V' p = file_byte ino V p"
proof -
  have i: "p div 4096 < n" using p by (simp add: less_mult_imp_div_less mult.commute)
  have "p div 4096 < n'" using grownD(2)[OF g] i by (meson nodes_iff(1) subsetD)
  from grown_data[OF ok g this] show ?thesis
    using grownD(3)[OF g, of "Data (p div 4096)"] i by (simp add: file_byte_def kBlockSize_def)
qed

lemma resize_grow_ok:
  fixes sz now :: u32
  assumes inv: "file_inv bm ino d" and sz: "di_size ino \<le> sz"
    and n: "n = unat (data_blocks (di_size ino))" and n': "n' = unat (data_blocks sz)"
    and rm: "room bm (dev_view d) (tree_size n' - tree_size n + k)"
  defines "ino1 \<equiv> (update_meta 7 now ino)\<lparr>di_size := sz\<rparr>"
  obtains ds i1 i2 d' where
    "resize sz bm None now ino d = (kSuccess, ino1\<lparr>direct := ds, indirect1 := i1, indirect2 := i2\<rparr>, d')"
    "grown bm ino (nodes n) (dev_view d) (ino1\<lparr>direct := ds, indirect1 := i1, indirect2 := i2\<rparr>)
       (nodes n') (dev_view d')"
    "file_inv bm (ino1\<lparr>direct := ds, indirect1 := i1, indirect2 := i2\<rparr>) d'" "dstep bm d d' k"
proof -
  have ok: "data_ok bm d" and t: "tree_ok bm ino (nodes n) (dev_view d)" and z: "ind_zero ino n"
    using inv n by (auto simp: file_inv_def)
  have t1: "tree_ok bm ino1 (nodes n) (dev_view d)" using t by (simp add: ino1_def)
  have z1: "ind_zero ino1 n" using z by (simp add: ino1_def ind_zero_def)
  have nb: "node_blk ino1 V x = node_blk ino V x" for V x by (simp add: ino1_def)
  have g1: "grown bm ino (nodes n) (dev_view d) ino1 (nodes n) (dev_view d)"
    using t1 by (auto simp: grown_def nb)
  have s1: "di_size ino1 = sz" by (simp add: ino1_def)
  have le: "n \<le> n'" unfolding n n' unat_data_blocks using sz by (intro div_le_mono) (simp add: word_le_nat_alt)
  show ?thesis
  proof (cases "n = n'")
    case True
    then have "data_blocks (di_size ino) = data_blocks sz" using n n' by (simp add: word_unat_eq_iff)
    then have "resize sz bm None now ino d = (kSuccess, ino1, d)"
      using total_blocks_eq_iff by (simp add: resize_def Let_def ino1_def[symmetric] write_inode_opt_def)
    moreover have "ino1\<lparr>direct := direct ino1, indirect1 := indirect1 ino1, indirect2 := indirect2 ino1\<rparr> = ino1" by simp
    moreover have "file_inv bm ino1 d" using ok t1 z1 True n' by (simp add: file_inv_def s1)
    ultimately show ?thesis
      using that[of "indirect2 ino1" "indirect1 ino1" "direct ino1" d] g1 True rm ok by (simp add: dstep_def)
  next
    case False
    then have lt: "n < n'" using le by simp
    then have "data_blocks (di_size ino) < data_blocks sz" using n n' by (simp add: word_less_nat_alt)
    then have tb: "total_blocks (di_size ino) \<noteq> total_blocks sz" "\<not> total_blocks sz < total_blocks (di_size ino)"
      by (auto simp: total_blocks_less_iff total_blocks_eq_iff)
    from increase_ok[OF ok t1 lt z1 rm] obtain ds i1 i2 d' where
      r: "increase n n' bm ino1 d = (kSuccess, ino1\<lparr>direct := ds, indirect1 := i1, indirect2 := i2\<rparr>, d')"
      "grown bm ino1 (nodes n) (dev_view d) (ino1\<lparr>direct := ds, indirect1 := i1, indirect2 := i2\<rparr>)
         (nodes n') (dev_view d')" "dstep bm d d' k"
      "n' \<le> 23 \<longrightarrow> i1 = indirect1 ino1" "n' \<le> 1047 \<longrightarrow> i2 = indirect2 ino1" .
    let ?i = "ino1\<lparr>direct := ds, indirect1 := i1, indirect2 := i2\<rparr>"
    have "resize sz bm None now ino d = (kSuccess, ?i, d')"
      using tb r(1) n n' by (simp add: resize_def Let_def ino1_def[symmetric])
    moreover note grown_trans[OF g1 r(2)]
    moreover have "ind_zero ?i n'"
      by (rule ind_zero_tree[OF dstepD(1)[OF r(3)] grownD(1)[OF r(2)]])
        (use r(4,5) z1 lt in \<open>auto simp: ind_zero_def\<close>)
    ultimately show ?thesis
      using that r(3) dstepD(1)[OF r(3)] grownD(1)[OF r(2)] s1 n' by (auto simp: file_inv_def)
  qed
qed

section \<open>An empty file\<close>

text \<open>A device whose blocks hold old data, except for the empty bitmap in block 3.\<close>

definition wide_dev :: dev where
  "wide_dev = \<lparr>dev_cache = LRUCacheManager (\<lambda>_. zero_block) (2 * kBlockSize),
     dev_file = \<lparr>dk_data = (\<lambda>_ _. 7)(3 := zero_block), dk_blocks = 40000, dk_fault = \<lambda>_. False, dk_ios = 0\<rparr>,
     num_data_blocks = 40000\<rparr>"

lemma wide_dev_simps [simp]: "dev_blocks wide_dev = 40000" "dev_view wide_dev = (\<lambda>_ _. 7)(3 := zero_block)"
  by (simp_all add: wide_dev_def dev_view_def fun_eq_iff LRUCacheManager_def Let_def)

lemma wide_dev_ok: "data_ok small_bitmap wide_dev"
proof -
  have "dev_ok wide_dev"
    using LRUCacheManager_inv[of "2 * kBlockSize" "\<lambda>_. zero_block"]
    by (auto simp: wide_dev_def dev_ok_def cache_inv_def no_faults_def)
  moreover have "start_block_id small_bitmap = 3" "bm_num_blocks small_bitmap = 1"
    "data_segment_offset small_bitmap = 100" by (simp_all add: small_bitmap_def)
  ultimately show ?thesis by (simp add: data_ok_def bm_ok_def)
qed

lemma wide_dev_room: "room small_bitmap (dev_view wide_dev) 32768"
proof -
  have "\<forall>b \<in> bm_region small_bitmap. ((\<lambda>_ _. 7)(3 := zero_block)) b = zero_block"
  proof
    fix b assume "b \<in> bm_region small_bitmap"
    then have "unat b = 3" by (simp add: bm_region_def small_bitmap_def)
    then have "b = 3" by (intro word_unat_eq_iff[THEN iffD2]) simp
    then show "((\<lambda>_ _. 7)(3 := zero_block)) b = zero_block" by simp
  qed
  then have "room small_bitmap (dev_view wide_dev) 32768 = room small_bitmap (\<lambda>_. zero_block) 32768"
    unfolding wide_dev_simps(2) by (intro room_cong[OF wide_dev_ok]) simp
  then show ?thesis by (simp add: room_def)
qed

lemma empty_file_inv: "file_inv small_bitmap (DiskInode_new kFile now uid gid) wide_dev"
  using wide_dev_ok
  by (simp add: file_inv_def unat_data_blocks DiskInode_new_def nodes_def index_nodes_def tree_ok_def
      ind_zero_def kInodeDirectCnt_def)

section \<open>Properties of growing\<close>

text \<open>C31: growing a file. If the bitmap has room for the new data and index blocks, \<open>resize\<close> to a
  size not smaller succeeds and keeps the invariant of the file; the file keeps its bytes; the
  blocks that become used are exactly the new nodes of its tree, none of which was in use; and of
  the blocks in use before, only index blocks of this file may change.\<close>

theorem resize_grow:
  assumes "file_inv bm ino d" "di_size ino \<le> sz"
    and "room bm (dev_view d) (tree_size (unat (data_blocks sz)) - tree_size (unat (data_blocks (di_size ino))))"
  shows "\<exists>ino' d'. resize sz bm None now ino d = (kSuccess, ino', d') \<and> file_inv bm ino' d' \<and>
     di_size ino' = sz \<and> (\<forall>p < unat (di_size ino). file_byte ino' (dev_view d') p = file_byte ino (dev_view d) p) \<and>
     used_blks bm (dev_view d') = used_blks bm (dev_view d) \<union>
       node_blk ino' (dev_view d') ` (nodes (unat (data_blocks sz)) - nodes (unat (data_blocks (di_size ino)))) \<and>
     node_blk ino' (dev_view d') ` (nodes (unat (data_blocks sz)) - nodes (unat (data_blocks (di_size ino))))
       \<inter> used_blks bm (dev_view d) = {} \<and>
     (\<forall>b \<in> used_blks bm (dev_view d). dev_view d' b \<noteq> dev_view d b \<longrightarrow>
        b \<in> node_blk ino (dev_view d) ` index_nodes (unat (data_blocks (di_size ino))))"
proof -
  define n n' where "n = unat (data_blocks (di_size ino))" "n' = unat (data_blocks sz)"
  note nn = this
  have rm: "room bm (dev_view d) (tree_size n' - tree_size n + 0)" using assms(3) nn by simp
  obtain ino' d' where
    r: "resize sz bm None now ino d = (kSuccess, ino', d')" "file_inv bm ino' d'" "di_size ino' = sz"
    and g: "grown bm ino (nodes n) (dev_view d) ino' (nodes n') (dev_view d')"
    by (rule resize_grow_ok[OF assms(1,2) nn rm, of now]) simp
  have ok: "data_ok bm d" using assms(1) by (simp add: file_inv_def)
  have bytes: "\<forall>p < unat (di_size ino). file_byte ino' (dev_view d') p = file_byte ino (dev_view d) p"
    using grown_bytes[OF ok g] size_data_blocks[of "di_size ino"] nn(1) by auto
  have fr: "b \<in> node_blk ino (dev_view d) ` index_nodes n"
    if b: "b \<in> used_blks bm (dev_view d)" "dev_view d' b \<noteq> dev_view d b" for b
  proof -
    have "b \<notin> bm_region bm" using used_blks_area(4)[OF ok b(1)] .
    with grownD(6)[OF g this] b(2) obtain x where x: "x \<in> nodes n'" "is_index x" "b = node_blk ino' (dev_view d') x" by blast
    have "x \<in> nodes n" using grownD(5)[OF g] b(1) x by blast
    then have "x \<in> index_nodes n" "b = node_blk ino (dev_view d) x"
      using x grownD(3)[OF g] by (auto simp: nodes_def)
    then show ?thesis by blast
  qed
  show ?thesis
    using r bytes grownD(4,5)[OF g] fr unfolding nn[symmetric] by blast
qed

theorem resize_grow_witness:
  "\<exists>ino' d'. resize 5000 small_bitmap None 1 (DiskInode_new kFile 0 0 0) wide_dev = (kSuccess, ino', d') \<and>
     file_inv small_bitmap ino' d' \<and> di_size ino' = 5000"
proof -
  let ?i = "DiskInode_new kFile 0 0 0"
  have s: "di_size ?i = 0" by (simp add: DiskInode_new_def)
  have "room small_bitmap (dev_view wide_dev)
      (tree_size (unat (data_blocks 5000)) - tree_size (unat (data_blocks (di_size ?i))))"
    using wide_dev_room by (simp add: s unat_data_blocks tree_size_def room_def)
  from resize_grow[OF empty_file_inv _ this, of 1] show ?thesis by (auto simp: s)
qed

text \<open>The bytes gained by growing are not zero but whatever the newly allocated blocks held
  before: every whole block beyond the old last one shows the old contents of the device.\<close>

theorem resize_exposes_old_data:
  assumes "file_inv bm ino d" "di_size ino \<le> sz"
    and "room bm (dev_view d) (tree_size (unat (data_blocks sz)) - tree_size (unat (data_blocks (di_size ino))))"
  shows "\<exists>ino' d'. resize sz bm None now ino d = (kSuccess, ino', d') \<and>
     (\<forall>i. unat (data_blocks (di_size ino)) \<le> i \<and> i < unat (data_blocks sz) \<longrightarrow>
        node_blk ino' (dev_view d') (Data i) \<notin> used_blks bm (dev_view d) \<and>
        dev_view d' (node_blk ino' (dev_view d') (Data i)) = dev_view d (node_blk ino' (dev_view d') (Data i)))"
proof -
  define n n' where "n = unat (data_blocks (di_size ino))" "n' = unat (data_blocks sz)"
  note nn = this
  have rm: "room bm (dev_view d) (tree_size n' - tree_size n + 0)" using assms(3) nn by simp
  obtain ino' d' where r: "resize sz bm None now ino d = (kSuccess, ino', d')"
    and g: "grown bm ino (nodes n) (dev_view d) ino' (nodes n') (dev_view d')"
    by (rule resize_grow_ok[OF assms(1,2) nn rm, of now]) simp
  have ok: "data_ok bm d" using assms(1) by (simp add: file_inv_def)
  have "node_blk ino' (dev_view d') (Data i) \<notin> used_blks bm (dev_view d)" if "n \<le> i" "i < n'" for i
  proof -
    have "Data i \<in> nodes n' - nodes n" using that by simp
    then show ?thesis using grownD(5)[OF g] by blast
  qed
  then show ?thesis using r grown_data[OF ok g] unfolding nn[symmetric] by blast
qed

theorem resize_exposes_old_data_witness:
  "\<exists>ino' d'. resize 5000 small_bitmap None 1 (DiskInode_new kFile 0 0 0) wide_dev = (kSuccess, ino', d') \<and>
     dev_view d' (node_blk ino' (dev_view d') (Data 1)) =
       dev_view wide_dev (node_blk ino' (dev_view d') (Data 1))"
proof -
  let ?i = "DiskInode_new kFile 0 0 0"
  have s: "di_size ?i = 0" by (simp add: DiskInode_new_def)
  have n: "unat (data_blocks 0) = 0" "unat (data_blocks 5000) = 2" by (simp_all add: unat_data_blocks)
  have "room small_bitmap (dev_view wide_dev)
      (tree_size (unat (data_blocks 5000)) - tree_size (unat (data_blocks (di_size ?i))))"
    using wide_dev_room by (simp add: s n tree_size_def room_def)
  from resize_exposes_old_data[OF empty_file_inv _ this, of 1, unfolded s n] obtain ino' d' where
    r: "resize 5000 small_bitmap None 1 ?i wide_dev = (kSuccess, ino', d')"
    and f: "\<forall>i. 0 \<le> i \<and> i < 2 \<longrightarrow> node_blk ino' (dev_view d') (Data i) \<notin> used_blks small_bitmap (dev_view wide_dev) \<and>
      dev_view d' (node_blk ino' (dev_view d') (Data i)) = dev_view wide_dev (node_blk ino' (dev_view d') (Data i))"
    by auto
  have "dev_view d' (node_blk ino' (dev_view d') (Data 1)) = dev_view wide_dev (node_blk ino' (dev_view d') (Data 1))"
    using f[rule_format, of 1] by simp
  with r show ?thesis by (intro exI conjI)
qed

end
