(* ===== verification/Inode_Shrink.thy ===== *)
theory Inode_Shrink
  imports Inode_Grow
begin

text \<open>
  Shrinking a file: \<open>decrease\<close> collects the blocks to release, writes the inode if the caller
  passes it, and releases them. As long as the file that remains needs no second-level index it
  releases exactly the nodes that leave the tree; otherwise it writes an index block to the wrong
  place on the device.
\<close>

section \<open>Collecting blocks\<close>

lemma push_entries_ok:
  assumes "distinct js"
  obtains p' where "push_entries js fr p = (fr @ map (\<lambda>j. get_u32 p (4 * j)) js, p')"
    "\<And>e. e \<notin> set js \<Longrightarrow> get_u32 p' (4 * e) = get_u32 p (4 * e)"
  using assms
proof (induction js arbitrary: fr p thesis)
  case Nil
  then show ?case by simp
next
  case (Cons j js)
  let ?q = "put_u32 p (4 * j) (-1)"
  have o: "get_u32 ?q (4 * e) = get_u32 p (4 * e)" if "e \<noteq> j" for e
    using that by (intro get_u32_other(1)) auto
  obtain p' where p': "push_entries js (fr @ [get_u32 p (4 * j)]) ?q =
      (fr @ [get_u32 p (4 * j)] @ map (\<lambda>j. get_u32 ?q (4 * j)) js, p')"
    "\<And>e. e \<notin> set js \<Longrightarrow> get_u32 p' (4 * e) = get_u32 ?q (4 * e)"
    using Cons.IH[of "fr @ [get_u32 p (4 * j)]" ?q] Cons.prems(2) by auto
  have "map (\<lambda>j. get_u32 ?q (4 * j)) js = map (\<lambda>j. get_u32 p (4 * j)) js"
    using Cons.prems(2) by (intro map_cong refl o) auto
  then show ?case using Cons.prems(1)[of p'] p' o by auto
qed

lemma decrease_direct_ok:
  assumes "distinct js"
  obtains ds where "decrease_direct js fr ino = (fr @ map (\<lambda>i. direct ino ! i) js, ino\<lparr>direct := ds\<rparr>)"
    "length ds = length (direct ino)" "\<And>i. i \<notin> set js \<Longrightarrow> ds ! i = direct ino ! i"
  using assms
proof (induction js arbitrary: fr ino thesis)
  case Nil
  show ?case using Nil.prems(1)[of "direct ino"] by simp
next
  case (Cons j js)
  let ?i = "ino\<lparr>direct := (direct ino)[j := -1]\<rparr>"
  obtain ds where ds: "decrease_direct js (fr @ [direct ino ! j]) ?i =
      (fr @ [direct ino ! j] @ map (\<lambda>i. direct ?i ! i) js, ?i\<lparr>direct := ds\<rparr>)"
    "length ds = length (direct ino)" "\<And>i. i \<notin> set js \<Longrightarrow> ds ! i = direct ?i ! i"
    using Cons.IH[of "fr @ [direct ino ! j]" ?i] Cons.prems(2) by auto
  have o: "direct ?i ! i = direct ino ! i" if "i \<noteq> j" for i using that by simp
  have "map (\<lambda>i. direct ?i ! i) js = map (\<lambda>i. direct ino ! i) js"
    using Cons.prems(2) by (intro map_cong refl o) auto
  then show ?case using Cons.prems(1)[of ds] ds o by auto
qed

section \<open>Releasing blocks\<close>

lemma free_one:
  assumes ok: "data_ok bm d" and b: "b \<in> used_blks bm V"
  obtains d' where "bitmap_free b bm d = (kSuccess, d')" "data_ok bm d'" "same_geometry d d'"
    "used_blks bm (dev_view d') = used_blks bm (dev_view d) - {b}"
    "\<forall>c. c \<notin> bm_region bm \<longrightarrow> dev_view d' c = dev_view d c"
proof -
  define m where "m = unat b - unat (data_segment_offset bm)"
  have m: "m < bm_slots bm" "unat b = m + unat (data_segment_offset bm)"
    using b bm_used_finite(2)[of bm V] by (auto simp: used_blks_def m_def)
  then have m32: "m < 2 ^ 32" using unat_u32_bound[of b] by simp
  have e: "of_nat m + data_segment_offset bm = b"
    using slot_blk[OF ok m(1)] m(2) by (intro word_unat_eq_iff[THEN iffD2]) simp
  from bitmap_free_ok[OF data_okD(1)[OF ok] m(1) m32, unfolded e] obtain d' where
    d': "bitmap_free b bm d = (kSuccess, d')" "bm_step bm d (bm_used bm (dev_view d) - {m}) d'" .
  have st: "dev_ok d'" "same_geometry d d'" "bm_used bm (dev_view d') = bm_used bm (dev_view d) - {m}"
    "\<forall>c. c \<notin> bm_region bm \<longrightarrow> dev_view d' c = dev_view d c"
    using d'(2) by (auto simp: bm_step_def)
  have "c = b" if "unat (data_segment_offset bm) \<le> unat c" "unat c - unat (data_segment_offset bm) = m" for c
    using that m(2) by (intro word_unat_eq_iff[THEN iffD2]) simp
  then have "used_blks bm (dev_view d') = used_blks bm (dev_view d) - {b}"
    using st(3) m(2) by (auto simp: used_blks_def)
  then show ?thesis using that d'(1) st data_ok_same[OF ok st(1,2)] by blast
qed

lemma free_blocks_ok:
  assumes "data_ok bm d" "set bs \<subseteq> used_blks bm V"
  obtains d' where "free_blocks bs bm d = (kSuccess, d')" "data_ok bm d'" "same_geometry d d'"
    "used_blks bm (dev_view d') = used_blks bm (dev_view d) - set bs"
    "\<forall>c. c \<notin> bm_region bm \<longrightarrow> dev_view d' c = dev_view d c"
  using assms
proof (induction bs arbitrary: d thesis)
  case Nil
  then show ?case by simp
next
  case (Cons b bs)
  then have "b \<in> used_blks bm V" by simp
  from free_one[OF Cons.prems(2) this] obtain d1 where
    d1: "bitmap_free b bm d = (kSuccess, d1)" "data_ok bm d1" "same_geometry d d1"
      "used_blks bm (dev_view d1) = used_blks bm (dev_view d) - {b}"
      "\<forall>c. c \<notin> bm_region bm \<longrightarrow> dev_view d1 c = dev_view d c" .
  have "set bs \<subseteq> used_blks bm V" using Cons.prems(3) by simp
  from Cons.IH[OF _ d1(2) this] obtain d' where
    d': "free_blocks bs bm d1 = (kSuccess, d')" "data_ok bm d'" "same_geometry d1 d'"
    "used_blks bm (dev_view d') = used_blks bm (dev_view d1) - set bs"
    "\<forall>c. c \<notin> bm_region bm \<longrightarrow> dev_view d' c = dev_view d1 c" .
  show ?case
    by (rule Cons.prems(1)[of d']) (use d1 d' same_geometry_trans[OF d1(3) d'(3)] in auto)
qed

text \<open>The block of an inode lies outside the bitmap and before the data area.\<close>

definition pos_ok :: "Bitmap \<Rightarrow> Position \<Rightarrow> bool" where
  "pos_ok bm pos \<longleftrightarrow> pos_block_id pos \<notin> bm_region bm \<and>
     unat (pos_block_id pos) < unat (data_segment_offset bm)"

lemma pos_ok_used:
  assumes "data_ok bm d" "pos_ok bm pos"
  shows "unat (pos_block_id pos) < dev_blocks d" "pos_block_id pos \<notin> used_blks bm V"
  using assms by (auto simp: pos_ok_def data_ok_def used_blks_def)

lemma write_inode_ok:
  assumes "dev_ok d" "unat (pos_block_id pos) < dev_blocks d"
  obtains d' where "write_inode pos ino d = (kSuccess, d')" "dev_ok d'" "same_geometry d d'"
    "dev_view d' = (dev_view d)(pos_block_id pos :=
       put_inode (dev_view d (pos_block_id pos)) (unat (pos_block_offset pos)) ino)"
proof -
  from dev_read_ok[OF assms, of zero_block] obtain d1 where
    d1: "dev_read (pos_block_id pos) zero_block d = (kSuccess, dev_view d (pos_block_id pos), d1)" "dev_ok d1"
    "dev_view d1 = dev_view d" "same_geometry d d1" .
  have "unat (pos_block_id pos) < dev_blocks d1" using assms(2) d1(4) by (simp add: same_geometry_def)
  from dev_write_ok[OF d1(2) this, of "put_inode (dev_view d (pos_block_id pos)) (unat (pos_block_offset pos)) ino"]
  obtain d2 where d2: "dev_write (pos_block_id pos)
      (put_inode (dev_view d (pos_block_id pos)) (unat (pos_block_offset pos)) ino) d1 = (kSuccess, d2)" "dev_ok d2"
    "dev_view d2 = (dev_view d1)(pos_block_id pos :=
       put_inode (dev_view d (pos_block_id pos)) (unat (pos_block_offset pos)) ino)" "same_geometry d1 d2" .
  show ?thesis
    by (rule that[of d2]) (use d1 d2 same_geometry_trans[OF d1(4) d2(4)] in \<open>simp_all add: write_inode_def\<close>)
qed

lemma write_inode_opt_ok:
  assumes "data_ok bm d" "\<forall>pos. inode = Some pos \<longrightarrow> pos_ok bm pos"
  shows "data_ok bm (write_inode_opt inode ino d)" "same_geometry d (write_inode_opt inode ino d)"
    "used_blks bm (dev_view (write_inode_opt inode ino d)) = used_blks bm (dev_view d)"
    "\<forall>c. (\<forall>pos. inode = Some pos \<longrightarrow> c \<noteq> pos_block_id pos) \<longrightarrow> dev_view (write_inode_opt inode ino d) c = dev_view d c"
    "inode = Some pos \<Longrightarrow> dev_view (write_inode_opt inode ino d) (pos_block_id pos) =
       put_inode (dev_view d (pos_block_id pos)) (unat (pos_block_offset pos)) ino"
proof -
  have "data_ok bm (write_inode_opt inode ino d) \<and> same_geometry d (write_inode_opt inode ino d) \<and>
    used_blks bm (dev_view (write_inode_opt inode ino d)) = used_blks bm (dev_view d) \<and>
    (\<forall>c. (\<forall>pos. inode = Some pos \<longrightarrow> c \<noteq> pos_block_id pos) \<longrightarrow> dev_view (write_inode_opt inode ino d) c = dev_view d c) \<and>
    (\<forall>pos. inode = Some pos \<longrightarrow> dev_view (write_inode_opt inode ino d) (pos_block_id pos) =
       put_inode (dev_view d (pos_block_id pos)) (unat (pos_block_offset pos)) ino)"
  proof (cases inode)
    case None
    then show ?thesis using assms by (simp add: write_inode_opt_def)
  next
    case (Some pos)
    then have po: "pos_ok bm pos" using assms(2) by simp
    from write_inode_ok[OF data_okD(2)[OF assms(1)] pos_ok_used(1)[OF assms(1) po], of ino] obtain d' where
      d': "write_inode pos ino d = (kSuccess, d')" "dev_ok d'" "same_geometry d d'"
      "dev_view d' = (dev_view d)(pos_block_id pos :=
         put_inode (dev_view d (pos_block_id pos)) (unat (pos_block_offset pos)) ino)" .
    have "pos_block_id pos \<notin> bm_region bm" using po by (simp add: pos_ok_def)
    then show ?thesis
      using Some d' data_ok_same[OF assms(1) d'(2,3)] used_blks_upd(1)[OF assms(1)]
      by (simp add: write_inode_opt_def)
  qed
  then show "data_ok bm (write_inode_opt inode ino d)" "same_geometry d (write_inode_opt inode ino d)"
    "used_blks bm (dev_view (write_inode_opt inode ino d)) = used_blks bm (dev_view d)"
    "\<forall>c. (\<forall>pos. inode = Some pos \<longrightarrow> c \<noteq> pos_block_id pos) \<longrightarrow> dev_view (write_inode_opt inode ino d) c = dev_view d c"
    "inode = Some pos \<Longrightarrow> dev_view (write_inode_opt inode ino d) (pos_block_id pos) =
       put_inode (dev_view d (pos_block_id pos)) (unat (pos_block_offset pos)) ino"
    by blast+
qed

section \<open>The steps of decrease\<close>

lemma decrease_step2_none:
  "indirect1 ino = 0 \<Longrightarrow> decrease_step2 old new fr ino d = (kSuccess, fr, ino, d)"
  by (simp add: decrease_step2_def)

lemma decrease_step2_ok:
  fixes ino :: DiskInode and d :: dev and fr :: "u32 list" and old new :: nat
  assumes ok: "data_ok bm d" and c: "indirect1 ino \<in> used_blks bm (dev_view d)"
  defines "c \<equiv> indirect1 ino"
    and "fr' \<equiv> fr @ map (\<lambda>i. get_u32 (dev_view d (indirect1 ino)) (4 * (i - 23))) [max new 23..<min old 1047]"
  shows "new \<le> 23 \<Longrightarrow> \<exists>d'. decrease_step2 old new fr ino d = (kSuccess, fr' @ [c], ino\<lparr>indirect1 := 0\<rparr>, d') \<and>
      data_ok bm d' \<and> same_geometry d d' \<and> dev_view d' = dev_view d" (is "_ \<Longrightarrow> ?A")
    "23 < new \<Longrightarrow> \<exists>d' p'. decrease_step2 old new fr ino d = (kSuccess, fr', ino, d') \<and>
      data_ok bm d' \<and> same_geometry d d' \<and> dev_view d' = (dev_view d)(c := p') \<and>
      (\<forall>e. e < new - 23 \<longrightarrow> get_u32 p' (4 * e) = get_u32 (dev_view d c) (4 * e))" (is "_ \<Longrightarrow> ?B")
proof -
  have rm: "room bm V 0" for V
    using card_mono[OF finite_lessThan bm_used_finite(2)] by (simp add: room_def)
  have nz: "c \<noteq> 0" using used_blks_area(2)[OF ok c] by (simp add: c_def)
  from read_index[OF ok c rm] obtain d1 where
    d1: "dev_read c zero_block d = (kSuccess, dev_view d c, d1)" "dev_view d1 = dev_view d" "dstep bm d d1 0"
    unfolding c_def .
  let ?js = "map (\<lambda>i. i - 23) [max new 23..<min old 1047]"
  have "distinct ?js" by (auto simp: distinct_map inj_on_def)
  then obtain p' where p': "push_entries ?js fr (dev_view d c) = (fr', p')"
    "\<And>e. e \<notin> set ?js \<Longrightarrow> get_u32 p' (4 * e) = get_u32 (dev_view d c) (4 * e)"
    by (rule push_entries_ok[of ?js fr "dev_view d c"]) (simp add: fr'_def c_def comp_def)
  note defs = decrease_step2_def Let_def inode_consts c_def[symmetric]
  show ?A if "new \<le> 23"
    using that nz d1 p'(1) dstepD[OF d1(3)] by (intro exI[of _ d1]) (simp add: defs)
  show ?B if n: "23 < new"
  proof -
    from write_index[OF dstepD(1)[OF d1(3)] c dstepD(3)[OF d1(3)], of p', folded c_def] obtain d2 where
      d2: "dev_write c p' d1 = (kSuccess, d2)" "dev_view d2 = (dev_view d1)(c := p')" "dstep bm d1 d2 0" .
    have "e \<notin> set ?js" if "e < new - 23" for e using that n by auto
    then show ?thesis
      using n nz d1 d2 p' dstepD[OF d2(3)] same_geometry_trans[OF dstepD(2)[OF d1(3)] dstepD(2)[OF d2(3)]]
      by (intro exI[of _ d2] exI[of _ p']) (simp add: defs)
  qed
qed

lemma decrease_all_ind2_ok:
  assumes "data_ok bm d" "\<forall>i \<in> set js. get_u32 p (4 * i) \<in> used_blks bm (dev_view d)"
  obtains d' where "decrease_all_ind2 js posj p fr d =
      (kSuccess, fr @ concat (map (\<lambda>i. map (\<lambda>j. get_u32 (dev_view d (get_u32 p (4 * i))) (4 * j))
         [0..<if i \<noteq> fst posj then 1024 else snd posj + 1] @ [get_u32 p (4 * i)]) js), d')"
    "data_ok bm d'" "same_geometry d d'" "dev_view d' = dev_view d"
  using assms
proof (induction js arbitrary: fr d thesis)
  case Nil
  then show ?case by simp
next
  case (Cons i js)
  let ?b = "get_u32 p (4 * i)"
  let ?l = "[0..<if i \<noteq> fst posj then 1024 else snd posj + 1]"
  have b: "?b \<in> used_blks bm (dev_view d)" using Cons.prems(3) by simp
  have rm: "room bm (dev_view d) 0"
    using card_mono[OF finite_lessThan bm_used_finite(2)] by (simp add: room_def)
  from read_index[OF Cons.prems(2) b rm] obtain d1 where
    d1: "dev_read ?b zero_block d = (kSuccess, dev_view d ?b, d1)" "dev_view d1 = dev_view d" "dstep bm d d1 0" .
  obtain q where q: "push_entries ?l fr (dev_view d ?b) = (fr @ map (\<lambda>j. get_u32 (dev_view d ?b) (4 * j)) ?l, q)"
    by (rule push_entries_ok[of ?l fr "dev_view d ?b"]) auto
  have l: "(if i \<noteq> fst posj then [0..<INODE_INDIRECT_COUNT] else [0..<snd posj + 1]) = ?l"
    by (simp add: inode_consts)
  let ?fr = "(fr @ map (\<lambda>j. get_u32 (dev_view d ?b) (4 * j)) ?l) @ [?b]"
  have "\<forall>i \<in> set js. get_u32 p (4 * i) \<in> used_blks bm (dev_view d1)" using Cons.prems(3) d1(2) by simp
  from Cons.IH[OF _ dstepD(1)[OF d1(3)] this, of ?fr] obtain d' where
    d': "decrease_all_ind2 js posj p ?fr d1 =
      (kSuccess, ?fr @ concat (map (\<lambda>i. map (\<lambda>j. get_u32 (dev_view d1 (get_u32 p (4 * i))) (4 * j))
         [0..<if i \<noteq> fst posj then 1024 else snd posj + 1] @ [get_u32 p (4 * i)]) js), d')"
    "data_ok bm d'" "same_geometry d1 d'" "dev_view d' = dev_view d1" .
  show ?case
    by (rule Cons.prems(1)[of d'])
      (use d1 d' q l same_geometry_trans[OF dstepD(2)[OF d1(3)] d'(3)] in \<open>simp_all add: Let_def\<close>)
qed

text \<open>The entries of the second-level index up to the last one in use, \<open>m\<close>.\<close>

lemma index_range:
  fixes k j m :: nat
  shows "k < m div 1024 + 1 \<and> j < (if k \<noteq> m div 1024 then 1024 else m mod 1024 + 1) \<longleftrightarrow>
    j < 1024 \<and> 1024 * k + j \<le> m"
proof -
  have m: "m = 1024 * (m div 1024) + m mod 1024" "m mod 1024 < 1024" by simp_all
  consider "k < m div 1024" | "k = m div 1024" | "m div 1024 < k" by linarith
  then show ?thesis
  proof cases
    case 1
    then obtain q where "m div 1024 = Suc k + q" using less_iff_Suc_add by (metis add_Suc)
    then show ?thesis using m by auto
  next
    case 2
    have "1024 * (m div 1024) + j \<le> m \<longleftrightarrow> j \<le> m mod 1024" using m(1) by linarith
    then show ?thesis using 2 m(2) by auto
  next
    case 3
    then obtain q where "k = Suc (m div 1024) + q" using less_iff_Suc_add by (metis add_Suc)
    then show ?thesis using m by auto
  qed
qed

text \<open>The blocks that step three collects: for each index block \<open>P i\<close> its entries in use and
  then itself.\<close>

definition ind2_list :: "(blk_id_t \<Rightarrow> block) \<Rightarrow> (nat \<Rightarrow> blk_id_t) \<Rightarrow> nat \<times> nat \<Rightarrow> nat list \<Rightarrow> u32 list" where
  "ind2_list V P posj js = concat (map (\<lambda>i. map (\<lambda>j. get_u32 (V (P i)) (4 * j))
     [0..<if i \<noteq> fst posj then 1024 else snd posj + 1] @ [P i]) js)"

lemma set_ind2_list:
  "set (ind2_list V P (m div 1024, m mod 1024) [0..<m div 1024 + 1]) =
    {get_u32 (V (P k)) (4 * j) | k j. j < 1024 \<and> 1024 * k + j \<le> m} \<union> P ` {k. 1024 * k \<le> m}"
proof -
  define cnt where "cnt k = (if k \<noteq> m div 1024 then 1024 else m mod 1024 + 1)" for k
  have c: "k < m div 1024 + 1 \<and> j < cnt k \<longleftrightarrow> j < 1024 \<and> 1024 * k + j \<le> m" for k j
    unfolding cnt_def by (rule index_range)
  have k: "k < m div 1024 + 1 \<longleftrightarrow> 1024 * k \<le> m" for k by auto
  have "set (ind2_list V P (m div 1024, m mod 1024) [0..<m div 1024 + 1]) =
    {get_u32 (V (P k)) (4 * j) | k j. k < m div 1024 + 1 \<and> j < cnt k} \<union> P ` {k. k < m div 1024 + 1}"
  proof -
    define K where "K = m div 1024 + 1"
    show ?thesis unfolding ind2_list_def fst_conv snd_conv cnt_def[symmetric] K_def[symmetric] by auto
  qed
  then show ?thesis unfolding c unfolding k .
qed

lemma ind2_blocks:
  assumes o: "1047 < old" and m: "m = old - 1048"
  shows "set (ind2_list V (\<lambda>k. node_blk ino V (Ind21 k)) (m div 1024, m mod 1024) [0..<m div 1024 + 1]) =
    node_blk ino V ` (Data ` {1047..<old} \<union> Ind21 ` {k. 1047 + 1024 * k < old})"
proof -
  have dn: "node_blk ino V (Data (1047 + 1024 * k + j)) = get_u32 (V (node_blk ino V (Ind21 k))) (4 * j)"
    if "j < 1024" for k j using that by (simp add: node_blk.simps(1))
  have "{get_u32 (V (node_blk ino V (Ind21 k))) (4 * j) | k j. j < 1024 \<and> 1024 * k + j \<le> m} =
      node_blk ino V ` Data ` {1047..<old}" (is "?A = ?B")
  proof (intro set_eqI iffI)
    fix x assume "x \<in> ?A"
    then obtain k j where kj: "x = get_u32 (V (node_blk ino V (Ind21 k))) (4 * j)" "j < 1024" "1024 * k + j \<le> m" by blast
    then have "1047 + 1024 * k + j \<in> {1047..<old}" using o m by auto
    then show "x \<in> ?B" using dn[OF kj(2), of k] kj(1) by (metis image_eqI)
  next
    fix x assume "x \<in> ?B"
    then obtain i where i: "1047 \<le> i" "i < old" "x = node_blk ino V (Data i)" by auto
    let ?k = "(i - 1047) div 1024" and ?j = "(i - 1047) mod 1024"
    have e: "1024 * ?k + ?j = i - 1047" by simp
    then have "1047 + 1024 * ?k + ?j = i" "1024 * ?k + ?j \<le> m" using i o m by linarith+
    moreover have "?j < 1024" by simp
    ultimately show "x \<in> ?A" using dn[of ?j ?k] i(3) by (intro CollectI exI[of _ ?k] exI[of _ ?j]) simp
  qed
  moreover have "{k. 1024 * k \<le> m} = {k. 1047 + 1024 * k < old}" using o m by auto
  ultimately show ?thesis unfolding set_ind2_list by (simp only: image_Un image_image)
qed

lemma decrease_step3_ok:
  assumes ok: "data_ok bm d" and n: "new \<le> 1047" and o: "1047 < old"
    and u: "\<forall>x \<in> insert Ind2 (Ind21 ` {k. 1047 + 1024 * k < old}). node_blk ino (dev_view d) x \<in> used_blks bm (dev_view d)"
  obtains fr' d' where "decrease_step3 old new fr ino d = (kSuccess, fr', ino\<lparr>indirect2 := 0\<rparr>, d')"
    "set fr' = set fr \<union> node_blk ino (dev_view d) `
       (insert Ind2 (Data ` {1047..<old} \<union> Ind21 ` {k. 1047 + 1024 * k < old}))"
    "data_ok bm d'" "same_geometry d d'" "dev_view d' = dev_view d"
proof -
  let ?c = "indirect2 ino"
  define m where "m = old - 1048"
  have c: "?c \<in> used_blks bm (dev_view d)" using u by simp
  have rm: "room bm (dev_view d) 0"
    using card_mono[OF finite_lessThan bm_used_finite(2)] by (simp add: room_def)
  from read_index[OF ok c rm] obtain d1 where
    d1: "dev_read ?c zero_block d = (kSuccess, dev_view d ?c, d1)" "dev_view d1 = dev_view d" "dstep bm d d1 0" .
  let ?p = "dev_view d ?c" and ?pj = "(m div 1024, m mod 1024)"
  let ?l = "ind2_list (dev_view d) (\<lambda>k. node_blk ino (dev_view d) (Ind21 k)) ?pj [0..<m div 1024 + 1]"
  have "\<forall>i \<in> set [0..<m div 1024 + 1]. get_u32 ?p (4 * i) \<in> used_blks bm (dev_view d1)"
  proof
    fix i assume "i \<in> set [0..<m div 1024 + 1]"
    then have "1047 + 1024 * i < old" using index_range[of i m 0] o by (auto simp: m_def)
    then show "get_u32 ?p (4 * i) \<in> used_blks bm (dev_view d1)" using u d1(2) by auto
  qed
  from decrease_all_ind2_ok[OF dstepD(1)[OF d1(3)] this, of ?pj fr] obtain d2 where
    d2: "decrease_all_ind2 [0..<m div 1024 + 1] ?pj ?p fr d1 = (kSuccess, fr @ ?l, d2)"
    "data_ok bm d2" "same_geometry d1 d2" "dev_view d2 = dev_view d1"
    unfolding ind2_list_def d1(2) node_blk.simps(4) .
  have cz: "?c \<noteq> 0" by (rule used_blks_area(2)[OF ok c])
  have ri: "int new - int INODE_DIRECT_COUNT - int INODE_INDIRECT_COUNT - 1 < 0"
    "int old - int INODE_DIRECT_COUNT - int INODE_INDIRECT_COUNT - 1 = int m" "INODE_INDIRECT_COUNT = 1024"
    using n o by (simp_all add: inode_consts m_def)
  have "decrease_step3 old new fr ino d = (kSuccess, (fr @ ?l) @ [?c], ino\<lparr>indirect2 := 0\<rparr>, d2)"
    using cz ri(1) d1(1) d2(1) unfolding decrease_step3_def Let_def ri(2) unfolding ri(3) by simp
  moreover have "set ((fr @ ?l) @ [?c]) = set fr \<union> node_blk ino (dev_view d) `
       (insert Ind2 (Data ` {1047..<old} \<union> Ind21 ` {k. 1047 + 1024 * k < old}))"
    unfolding set_append ind2_blocks[OF o m_def] by auto
  ultimately show ?thesis
    using that[OF _ _ d2(2) same_geometry_trans[OF dstepD(2)[OF d1(3)] d2(3)]] d1(2) d2(4) by simp
qed

section \<open>Shrinking a file\<close>

text \<open>The nodes that leave the tree, in the order in which they are collected.\<close>

lemma nodes_diff:
  assumes "new < old" "new \<le> 1047"
  shows "nodes old - nodes new =
    Data ` {new..<min old 23} \<union> Data ` {max new 23..<min old 1047} \<union> {x. x = Ind1 \<and> new \<le> 23 \<and> 23 < old} \<union>
    {x. 1047 < old \<and> x \<in> insert Ind2 (Data ` {1047..<old} \<union> Ind21 ` {k. 1047 + 1024 * k < old})}"
  using assms by (auto simp: nodes_def index_nodes_def image_iff)

text \<open>The tree that remains, after the direct entries beyond it were overwritten and the index
  block, if it stays, was.\<close>

lemma tree_shrink:
  assumes ok: "data_ok bm d" and t: "tree_ok bm ino (nodes old) V" and n: "new < old" "new \<le> 1047"
    and ds: "length ds = 23" "\<forall>i < new. i < 23 \<longrightarrow> ds ! i = direct ino ! i"
    and i1: "23 < new \<longrightarrow> i1 = indirect1 ino"
    and V': "23 < new \<longrightarrow> (\<forall>e < new - 23. get_u32 (V' (indirect1 ino)) (4 * e) = get_u32 (V (indirect1 ino)) (4 * e))"
    and u: "used_blks bm V' = used_blks bm V - node_blk ino V ` (nodes old - nodes new)"
  shows "x \<in> nodes new \<Longrightarrow> node_blk (ino\<lparr>direct := ds, indirect1 := i1, indirect2 := i2\<rparr>) V' x = node_blk ino V x"
    "tree_ok bm (ino\<lparr>direct := ds, indirect1 := i1, indirect2 := i2\<rparr>) (nodes new) V'"
proof -
  let ?i = "ino\<lparr>direct := ds, indirect1 := i1, indirect2 := i2\<rparr>"
  have keep: "node_blk ?i V' x = node_blk ino V x" if x: "x \<in> nodes new" for x
  proof (rule node_blk_keep[OF closed_nodes x])
    fix z assume "z \<in> nodes new" "parent z = None"
    then show "root ?i z = root ino z" using n ds(2) i1 by (cases z) (auto split: if_splits)
  next
    fix z q e assume z: "z \<in> nodes new" "q \<in> nodes new" "parent z = Some (q, e)"
    then obtain i where "z = Data i" "q = Ind1" "e = i - 23" "23 \<le> i" "i < new"
      using n by (cases z) (auto split: if_splits)
    then show "get_u32 (V' (node_blk ino V q)) (4 * e) = get_u32 (V (node_blk ino V q)) (4 * e)"
      using V' by auto
  qed
  then show "x \<in> nodes new \<Longrightarrow> node_blk ?i V' x = node_blk ino V x" .
  have sub: "nodes new \<subseteq> nodes old" using n by (intro nodes_mono) simp
  have inj: "inj_on (node_blk ino V) (nodes old)" using t by (simp add: tree_ok_def)
  have "inj_on (node_blk ?i V') (nodes new) = inj_on (node_blk ino V) (nodes new)" using keep by (rule inj_on_cong)
  moreover have "node_blk ?i V' ` nodes new = node_blk ino V ` nodes new" using keep by (intro image_cong) auto
  moreover have "node_blk ino V ` nodes new \<inter> node_blk ino V ` (nodes old - nodes new) = {}"
    using inj sub by (auto dest: inj_onD)
  moreover have "node_blk ino V ` nodes new \<subseteq> used_blks bm V" using t sub by (auto simp: tree_ok_def)
  ultimately show "tree_ok bm ?i (nodes new) V'"
    using inj_on_subset[OF inj sub] ds(1) u by (auto simp: tree_ok_def)
qed

lemma decrease_step2_tree:
  fixes ino :: DiskInode and d :: dev and ds :: "blk_id_t list" and new :: nat
  assumes ok: "data_ok bm d" and t: "tree_ok bm ino (nodes old) (dev_view d)" and z: "ind_zero ino old"
    and n: "new < old" "new \<le> 1047"
  obtains fr2 d2 where "decrease_step2 old new fr (ino\<lparr>direct := ds\<rparr>) d =
      (kSuccess, fr2, ino\<lparr>direct := ds, indirect1 := if new \<le> 23 then 0 else indirect1 ino\<rparr>, d2)"
    "set fr2 = set fr \<union> node_blk ino (dev_view d) ` (Data ` {max new 23..<min old 1047} \<union>
      {x. x = Ind1 \<and> new \<le> 23 \<and> 23 < old})"
    "data_ok bm d2" "same_geometry d d2" "used_blks bm (dev_view d2) = used_blks bm (dev_view d)"
    "\<forall>c. c \<noteq> indirect1 ino \<longrightarrow> dev_view d2 c = dev_view d c"
    "23 < new \<longrightarrow> (\<forall>e < new - 23. get_u32 (dev_view d2 (indirect1 ino)) (4 * e) =
       get_u32 (dev_view d (indirect1 ino)) (4 * e))"
    "\<not> 23 < new \<longrightarrow> dev_view d2 = dev_view d"
proof -
  let ?V = "dev_view d" and ?I1 = "if new \<le> 23 then 0 else indirect1 ino" and ?i1 = "ino\<lparr>direct := ds\<rparr>"
  have i1u: "indirect1 ino \<in> used_blks bm ?V" if "23 < old" using tree_used[OF t, of Ind1] that by simp
  let ?g = "fr @ map (\<lambda>i. get_u32 (?V (indirect1 ino)) (4 * (i - 23))) [max new 23..<min old 1047]"
  have fr: "set ?g = set fr \<union> node_blk ino ?V ` Data ` {max new 23..<min old 1047}"
  proof -
    have "(\<lambda>i. get_u32 (?V (indirect1 ino)) (4 * (i - 23))) ` {max new 23..<min old 1047} =
        node_blk ino ?V ` Data ` {max new 23..<min old 1047}"
      unfolding image_image by (intro image_cong) (auto simp: node_blk.simps(1))
    then show ?thesis by (simp only: set_append set_map set_upt)
  qed
  consider "old \<le> 23" | "23 < old" "new \<le> 23" | "23 < new" using n by linarith
  then show thesis
  proof cases
    case 1
    then have "indirect1 ?i1 = 0" using z by (simp add: ind_zero_def)
    moreover have "{max new 23..<min old 1047} = {}" using 1 by auto
    ultimately show thesis
      using that[of fr d] decrease_step2_none[of ?i1 old new fr d] ok 1 n by simp
  next
    case 2
    have u: "indirect1 ?i1 \<in> used_blks bm ?V" using i1u 2 by simp
    from decrease_step2_ok(1)[OF ok u 2(2), of old fr] obtain d2 where
      "decrease_step2 old new fr ?i1 d = (kSuccess, ?g @ [indirect1 ino], ?i1\<lparr>indirect1 := 0\<rparr>, d2)"
      "data_ok bm d2" "same_geometry d d2" "dev_view d2 = ?V" by auto
    moreover have "set (?g @ [indirect1 ino]) = set fr \<union> node_blk ino ?V ` (Data ` {max new 23..<min old 1047} \<union>
        {x. x = Ind1 \<and> new \<le> 23 \<and> 23 < old})"
      unfolding set_append[of ?g] fr using 2 by auto
    ultimately show thesis using that[of "?g @ [indirect1 ino]" d2] 2(2) by simp
  next
    case 3
    have u: "indirect1 ?i1 \<in> used_blks bm ?V" using i1u 3 n by simp
    from decrease_step2_ok(2)[OF ok u 3, of old fr] obtain d2 p' where
      d2: "decrease_step2 old new fr ?i1 d = (kSuccess, ?g, ?i1, d2)" "data_ok bm d2" "same_geometry d d2"
      "dev_view d2 = ?V(indirect1 ino := p')"
      "\<forall>e < new - 23. get_u32 p' (4 * e) = get_u32 (?V (indirect1 ino)) (4 * e)" by auto
    have "?i1\<lparr>indirect1 := ?I1\<rparr> = ?i1" using 3 by simp
    moreover have "{x. x = Ind1 \<and> new \<le> 23 \<and> 23 < old} = {}" using 3 by auto
    moreover have "used_blks bm (dev_view d2) = used_blks bm ?V"
      unfolding d2(4) using used_blks_upd(1)[OF ok] used_blks_area(4)[OF ok u] by simp
    ultimately show thesis using that[of ?g d2] d2 3 fr by simp
  qed
qed

lemma decrease_step3_tree:
  fixes ino :: DiskInode and d d2 :: dev and ds :: "blk_id_t list" and i1 :: blk_id_t
  assumes t: "tree_ok bm ino (nodes old) (dev_view d)" and z: "ind_zero ino old" and n: "new \<le> 1047"
    and d2: "data_ok bm d2" "used_blks bm (dev_view d2) = used_blks bm (dev_view d)"
      "\<forall>c. c \<noteq> indirect1 ino \<longrightarrow> dev_view d2 c = dev_view d c"
  obtains fr3 d3 where "decrease_step3 old new fr2 (ino\<lparr>direct := ds, indirect1 := i1\<rparr>) d2 =
      (kSuccess, fr3, ino\<lparr>direct := ds, indirect1 := i1, indirect2 := 0\<rparr>, d3)"
    "set fr3 = set fr2 \<union> node_blk ino (dev_view d) ` {x. 1047 < old \<and>
      x \<in> insert Ind2 (Data ` {1047..<old} \<union> Ind21 ` {k. 1047 + 1024 * k < old})}"
    "data_ok bm d3" "same_geometry d2 d3" "dev_view d3 = dev_view d2"
proof (cases "1047 < old")
  case False
  then have "indirect2 ino = 0" using z by (simp add: ind_zero_def)
  then show thesis using that[of fr2 d2] False d2(1) by (simp add: decrease_step3_def)
next
  case True
  have inj: "node_blk ino (dev_view d) x \<noteq> indirect1 ino" if "x \<in> nodes old" "x \<noteq> Ind1" for x
    using t that True inj_onD[of "node_blk ino (dev_view d)" "nodes old" x Ind1] by (auto simp: tree_ok_def)
  have v: "dev_view d2 (node_blk ino (dev_view d) x) = (dev_view d) (node_blk ino (dev_view d) x)" if "x \<in> nodes old" "x \<noteq> Ind1" for x
    using d2(3) inj[OF that] by simp
  have k21: "node_blk (ino\<lparr>direct := ds, indirect1 := i1\<rparr>) (dev_view d2) (Ind21 k) = node_blk ino (dev_view d) (Ind21 k)" for k
    using v[of Ind2] True by simp
  have e: "node_blk (ino\<lparr>direct := ds, indirect1 := i1\<rparr>) (dev_view d2) x = node_blk ino (dev_view d) x"
    if "x \<in> insert Ind2 (Data ` {1047..<old} \<union> Ind21 ` {k. 1047 + 1024 * k < old})" for x
  proof -
    have "node_blk (ino\<lparr>direct := ds, indirect1 := i1\<rparr>) (dev_view d2) (Data i) = node_blk ino (dev_view d) (Data i)" if i: "1047 \<le> i" "i < old" for i
      using i k21[of "(i - 1047) div 1024"] v[of "Ind21 ((i - 1047) div 1024)"] data_index[OF i]
        node_blk_parent[of "ino\<lparr>direct := ds, indirect1 := i1\<rparr>" "dev_view d2" "Data i"] node_blk_parent[of ino "dev_view d" "Data i"] by simp
    then show ?thesis using that k21 by auto
  qed
  have "\<forall>x \<in> insert Ind2 (Ind21 ` {k. 1047 + 1024 * k < old}).
      node_blk (ino\<lparr>direct := ds, indirect1 := i1\<rparr>) (dev_view d2) x \<in> used_blks bm (dev_view d2)"
  proof
    fix x assume x: "x \<in> insert Ind2 (Ind21 ` {k. 1047 + 1024 * k < old})"
    then have "x \<in> nodes old" using True by auto
    then have "node_blk ino (dev_view d) x \<in> used_blks bm (dev_view d2)" using tree_used[OF t] d2(2) by simp
    moreover have "node_blk (ino\<lparr>direct := ds, indirect1 := i1\<rparr>) (dev_view d2) x = node_blk ino (dev_view d) x" by (rule e) (use x in blast)
    ultimately show "node_blk (ino\<lparr>direct := ds, indirect1 := i1\<rparr>) (dev_view d2) x \<in> used_blks bm (dev_view d2)" by (simp only:)
  qed
  from decrease_step3_ok[OF d2(1) n True this, of fr2] obtain fr3 d3 where
    "decrease_step3 old new fr2 (ino\<lparr>direct := ds, indirect1 := i1\<rparr>) d2 = (kSuccess, fr3, (ino\<lparr>direct := ds, indirect1 := i1\<rparr>)\<lparr>indirect2 := 0\<rparr>, d3)"
    "set fr3 = set fr2 \<union> node_blk (ino\<lparr>direct := ds, indirect1 := i1\<rparr>) (dev_view d2) `
       (insert Ind2 (Data ` {1047..<old} \<union> Ind21 ` {k. 1047 + 1024 * k < old}))"
    "data_ok bm d3" "same_geometry d2 d3" "dev_view d3 = dev_view d2" .
  moreover have "node_blk (ino\<lparr>direct := ds, indirect1 := i1\<rparr>) (dev_view d2) `
       (insert Ind2 (Data ` {1047..<old} \<union> Ind21 ` {k. 1047 + 1024 * k < old})) = node_blk ino (dev_view d) `
       {x. 1047 < old \<and> x \<in> insert Ind2 (Data ` {1047..<old} \<union> Ind21 ` {k. 1047 + 1024 * k < old})}"
    using True e by (intro image_cong) auto
  ultimately show thesis using that by metis
qed

text \<open>The three steps together, up to the writing of the inode and the release of the blocks.\<close>

lemma decrease_collect:
  assumes ok: "data_ok bm d" and t: "tree_ok bm ino (nodes old) (dev_view d)" and z: "ind_zero ino old"
    and n: "new < old" "new \<le> 1047"
  obtains ds fr d' where
    "\<forall>inode. decrease old new bm inode ino d =
       (let ino' = ino\<lparr>direct := ds, indirect1 := if new \<le> 23 then 0 else indirect1 ino, indirect2 := 0\<rparr>;
            (r, d4) = free_blocks fr bm (write_inode_opt inode ino' d') in (r, ino', d4))"
    "length ds = 23" "\<forall>i < new. i < 23 \<longrightarrow> ds ! i = direct ino ! i" "data_ok bm d'" "same_geometry d d'"
    "used_blks bm (dev_view d') = used_blks bm (dev_view d)"
    "set fr = node_blk ino (dev_view d) ` (nodes old - nodes new)"
    "\<forall>c. (c = indirect1 ino \<longrightarrow> c \<notin> used_blks bm (dev_view d)) \<longrightarrow> dev_view d' c = dev_view d c"
    "23 < new \<longrightarrow> (\<forall>e < new - 23. get_u32 (dev_view d' (indirect1 ino)) (4 * e) =
       get_u32 (dev_view d (indirect1 ino)) (4 * e))"
proof -
  let ?V = "dev_view d" and ?I1 = "if new \<le> 23 then 0 else indirect1 ino"
  have "distinct [new..<min old 23]" by simp
  then obtain ds where ds: "decrease_direct [new..<min old 23] [] ino =
      (map (\<lambda>i. direct ino ! i) [new..<min old 23], ino\<lparr>direct := ds\<rparr>)"
    "length ds = length (direct ino)" "\<And>i. i \<notin> set [new..<min old 23] \<Longrightarrow> ds ! i = direct ino ! i"
    by (rule decrease_direct_ok[of _ "[]" ino]) auto
  let ?i1 = "ino\<lparr>direct := ds\<rparr>"
  let ?fr1 = "map (\<lambda>i. direct ino ! i) [new..<min old 23]"
  have fr1: "set ?fr1 = node_blk ino ?V ` Data ` {new..<min old 23}"
    unfolding set_map set_upt image_image by (intro image_cong) (auto simp: node_blk.simps(1))
  from decrease_step2_tree[OF ok t z n, of ?fr1 ds] obtain fr2 d2 where
    s2: "decrease_step2 old new ?fr1 ?i1 d = (kSuccess, fr2, ?i1\<lparr>indirect1 := ?I1\<rparr>, d2)"
    and fr2: "set fr2 = set ?fr1 \<union> node_blk ino ?V ` (Data ` {max new 23..<min old 1047} \<union>
      {x. x = Ind1 \<and> new \<le> 23 \<and> 23 < old})"
    and d2: "data_ok bm d2" "same_geometry d d2" "used_blks bm (dev_view d2) = used_blks bm ?V"
      "\<forall>c. c \<noteq> indirect1 ino \<longrightarrow> dev_view d2 c = ?V c"
      "23 < new \<longrightarrow> (\<forall>e < new - 23. get_u32 (dev_view d2 (indirect1 ino)) (4 * e) = get_u32 (?V (indirect1 ino)) (4 * e))"
      "\<not> 23 < new \<longrightarrow> dev_view d2 = ?V" .
  let ?i2 = "?i1\<lparr>indirect1 := ?I1\<rparr>"
  from decrease_step3_tree[OF t z n(2) d2(1,3,4), of fr2 ?I1 ds] obtain fr3 d3 where
    s3: "decrease_step3 old new fr2 ?i2 d2 = (kSuccess, fr3, ?i2\<lparr>indirect2 := 0\<rparr>, d3)"
    and fr3: "set fr3 = set fr2 \<union> node_blk ino ?V ` {x. 1047 < old \<and>
      x \<in> insert Ind2 (Data ` {1047..<old} \<union> Ind21 ` {k. 1047 + 1024 * k < old})}"
    and d3: "data_ok bm d3" "same_geometry d2 d3" "dev_view d3 = dev_view d2" .
  let ?i3 = "?i2\<lparr>indirect2 := 0\<rparr>"
  have fr: "set fr3 = node_blk ino ?V ` (nodes old - nodes new)"
    unfolding fr3 fr2 fr1 nodes_diff[OF n] image_Un by blast
  have "\<forall>inode. decrease old new bm inode ino d =
      (let (r, d4) = free_blocks fr3 bm (write_inode_opt inode ?i3 d3) in (r, ?i3, d4))"
    using ds(1) s2 s3 by (simp add: decrease_def Let_def INODE_DIRECT_COUNT_def kInodeDirectCnt_def)
  moreover have "length ds = 23" using ds(2) t by (simp add: tree_ok_def)
  moreover have "\<forall>i < new. i < 23 \<longrightarrow> ds ! i = direct ino ! i" using ds(3) by auto
  moreover have "dev_view d3 c = ?V c" if "c = indirect1 ino \<longrightarrow> c \<notin> used_blks bm ?V" for c
  proof (cases "23 < new")
    case True
    then have "indirect1 ino \<in> used_blks bm ?V" using tree_used[OF t, of Ind1] n(1) by simp
    then have "c \<noteq> indirect1 ino" using that by auto
    then show ?thesis using d2(4) d3(3) by metis
  next
    case False
    then show ?thesis using d2(6) d3(3) by simp
  qed
  ultimately show thesis
    using that[of ds fr3 d3] fr d3 d2(3,5) same_geometry_trans[OF d2(2) d3(2)] by (simp add: Let_def)
qed

lemma decrease_ok:
  assumes ok: "data_ok bm d" and t: "tree_ok bm ino (nodes old) (dev_view d)" and z: "ind_zero ino old"
    and n: "new < old" "new \<le> 1047" and po: "\<forall>pos. inode = Some pos \<longrightarrow> pos_ok bm pos"
  obtains ds d' where
    "decrease old new bm inode ino d = (kSuccess, ino\<lparr>direct := ds,
       indirect1 := if new \<le> 23 then 0 else indirect1 ino, indirect2 := 0\<rparr>, d')"
    "length ds = 23" "\<forall>i < new. i < 23 \<longrightarrow> ds ! i = direct ino ! i" "data_ok bm d'" "same_geometry d d'"
    "used_blks bm (dev_view d') = used_blks bm (dev_view d) - node_blk ino (dev_view d) ` (nodes old - nodes new)"
    "\<forall>c. c \<notin> bm_region bm \<longrightarrow> (\<forall>pos. inode = Some pos \<longrightarrow> c \<noteq> pos_block_id pos) \<longrightarrow>
       (c = indirect1 ino \<longrightarrow> c = 0) \<longrightarrow> dev_view d' c = dev_view d c"
    "23 < new \<longrightarrow> (\<forall>e < new - 23. get_u32 (dev_view d' (indirect1 ino)) (4 * e) =
       get_u32 (dev_view d (indirect1 ino)) (4 * e))"
    "\<forall>pos. inode = Some pos \<longrightarrow> dev_view d' (pos_block_id pos) =
       put_inode (dev_view d (pos_block_id pos)) (unat (pos_block_offset pos)) (ino\<lparr>direct := ds,
         indirect1 := if new \<le> 23 then 0 else indirect1 ino, indirect2 := 0\<rparr>)"
proof -
  let ?V = "dev_view d"
  let ?i = "\<lambda>ds. ino\<lparr>direct := ds, indirect1 := if new \<le> 23 then 0 else indirect1 ino, indirect2 := 0\<rparr>"
  from decrease_collect[OF ok t z n] obtain ds fr d3 where
    r: "\<forall>inode. decrease old new bm inode ino d = (let ino' = ?i ds;
      (r, d4) = free_blocks fr bm (write_inode_opt inode ino' d3) in (r, ino', d4))"
    and ds: "length ds = 23" "\<forall>i < new. i < 23 \<longrightarrow> ds ! i = direct ino ! i"
    and d3: "data_ok bm d3" "same_geometry d d3" "used_blks bm (dev_view d3) = used_blks bm ?V"
    and fr: "set fr = node_blk ino ?V ` (nodes old - nodes new)"
    and v: "\<forall>c. (c = indirect1 ino \<longrightarrow> c \<notin> used_blks bm ?V) \<longrightarrow> dev_view d3 c = ?V c"
    and e: "23 < new \<longrightarrow> (\<forall>e < new - 23. get_u32 (dev_view d3 (indirect1 ino)) (4 * e) =
      get_u32 (?V (indirect1 ino)) (4 * e))" .
  note w = write_inode_opt_ok[OF d3(1) po, where ino = "?i ds"]
  have "set fr \<subseteq> used_blks bm ?V" unfolding fr using tree_used[OF t] by auto
  from free_blocks_ok[OF w(1) this] obtain d' where
    d': "free_blocks fr bm (write_inode_opt inode (?i ds) d3) = (kSuccess, d')" "data_ok bm d'"
    "same_geometry (write_inode_opt inode (?i ds) d3) d'"
    "used_blks bm (dev_view d') = used_blks bm (dev_view (write_inode_opt inode (?i ds) d3)) - set fr"
    "\<forall>c. c \<notin> bm_region bm \<longrightarrow> dev_view d' c = dev_view (write_inode_opt inode (?i ds) d3) c" .
  have geo: "same_geometry d d'" using d3(2) w(2) d'(3) by (meson same_geometry_trans)
  have zero: "0 \<notin> used_blks bm ?V" using used_blks_area(2)[OF ok] by metis
  have i1: "indirect1 ino \<notin> bm_region bm" "\<forall>pos. inode = Some pos \<longrightarrow> indirect1 ino \<noteq> pos_block_id pos" if "23 < new"
    using tree_used[OF t, of Ind1] that n used_blks_area(4)[OF ok] pos_ok_used(2)[OF ok, of _ ?V] po by fastforce+
  show thesis
  proof (rule that[OF _ ds d'(2) geo])
    show "decrease old new bm inode ino d = (kSuccess, ?i ds, d')" using r d'(1) by (simp add: Let_def)
    show "used_blks bm (dev_view d') = used_blks bm ?V - node_blk ino ?V ` (nodes old - nodes new)"
      using d'(4) w(3) d3(3) fr by simp
    show "\<forall>c. c \<notin> bm_region bm \<longrightarrow> (\<forall>pos. inode = Some pos \<longrightarrow> c \<noteq> pos_block_id pos) \<longrightarrow>
       (c = indirect1 ino \<longrightarrow> c = 0) \<longrightarrow> dev_view d' c = ?V c"
      using d'(5) w(4) v zero by metis
    show "23 < new \<longrightarrow> (\<forall>e < new - 23. get_u32 (dev_view d' (indirect1 ino)) (4 * e) =
       get_u32 (?V (indirect1 ino)) (4 * e))"
      using i1 d'(5) w(4) e by auto
    show "\<forall>pos. inode = Some pos \<longrightarrow> dev_view d' (pos_block_id pos) =
       put_inode (?V (pos_block_id pos)) (unat (pos_block_offset pos)) (?i ds)"
    proof (intro allI impI)
      fix pos assume pos: "inode = Some pos"
      then have p: "pos_block_id pos \<notin> bm_region bm" "pos_block_id pos \<notin> used_blks bm ?V"
        using po pos_ok_used(2)[OF ok] by (auto simp: pos_ok_def)
      have "dev_view d3 (pos_block_id pos) = ?V (pos_block_id pos)" using v p(2) by blast
      then show "dev_view d' (pos_block_id pos) = put_inode (?V (pos_block_id pos)) (unat (pos_block_offset pos)) (?i ds)"
        using d'(5) p(1) w(5)[OF pos] by metis
    qed
  qed
qed

lemma shrunk_bytes:
  assumes ok: "data_ok bm d" and t: "tree_ok bm ino (nodes n) (dev_view d)" and nn: "n' \<le> n" and z: "ind_zero ino n"
    and po: "\<forall>pos. inode = Some pos \<longrightarrow> pos_ok bm pos"
    and V': "\<forall>c. c \<notin> bm_region bm \<longrightarrow> (\<forall>pos. inode = Some pos \<longrightarrow> c \<noteq> pos_block_id pos) \<longrightarrow>
       (c = indirect1 ino \<longrightarrow> c = 0) \<longrightarrow> V' c = dev_view d c"
    and nb: "\<And>x. x \<in> nodes n' \<Longrightarrow> node_blk ino' V' x = node_blk ino (dev_view d) x" and p: "p < 4096 * n'"
  shows "file_byte ino' V' p = file_byte ino (dev_view d) p"
proof -
  let ?x = "Data (p div 4096)"
  have x: "?x \<in> nodes n'" "?x \<in> nodes n" using p nn by (auto simp: less_mult_imp_div_less mult.commute)
  let ?b = "node_blk ino (dev_view d) ?x"
  have u: "?b \<in> used_blks bm (dev_view d)" by (rule tree_used[OF t x(2)])
  have "?b \<noteq> indirect1 ino"
  proof (cases "23 < n")
    case True
    then show ?thesis
      using t x(2) inj_onD[of "node_blk ino (dev_view d)" "nodes n" ?x Ind1] by (auto simp: tree_ok_def)
  next
    case False
    then have "indirect1 ino = 0" using z by (simp add: ind_zero_def)
    then show ?thesis using used_blks_area(2)[OF ok u] by metis
  qed
  then have "V' ?b = dev_view d ?b" using V' used_blks_area(4)[OF ok u] pos_ok_used(2)[OF ok] po u by metis
  then show ?thesis using nb[OF x(1)] by (simp add: file_byte_def kBlockSize_def)
qed

lemma resize_shrink_ok:
  fixes sz now :: u32
  assumes inv: "file_inv bm ino d" and sz: "sz \<le> di_size ino"
    and n: "n = unat (data_blocks (di_size ino))" and n': "n' = unat (data_blocks sz)" "n' \<le> 1047"
    and po: "\<forall>pos. inode = Some pos \<longrightarrow> pos_ok bm pos" and lt: "n' < n"
  obtains ino' d' where "resize sz bm inode now ino d = (kSuccess, ino', d')" "file_inv bm ino' d'"
    "di_size ino' = sz" "di_type ino' = di_type ino" "link_cnt ino' = link_cnt ino" "same_geometry d d'"
    "\<forall>p < 4096 * n'. file_byte ino' (dev_view d') p = file_byte ino (dev_view d) p"
    "\<forall>x \<in> nodes n'. node_blk ino' (dev_view d') x = node_blk ino (dev_view d) x"
    "used_blks bm (dev_view d') = used_blks bm (dev_view d) - node_blk ino (dev_view d) ` (nodes n - nodes n')"
    "\<forall>c. c \<notin> bm_region bm \<longrightarrow> (\<forall>pos. inode = Some pos \<longrightarrow> c \<noteq> pos_block_id pos) \<longrightarrow>
       (c = indirect1 ino \<longrightarrow> c = 0) \<longrightarrow> dev_view d' c = dev_view d c"
    "\<forall>pos. inode = Some pos \<longrightarrow> dev_view d' (pos_block_id pos) =
       put_inode (dev_view d (pos_block_id pos)) (unat (pos_block_offset pos)) ino'"
proof -
  define ino1 where "ino1 = (update_meta 7 now ino)\<lparr>di_size := sz\<rparr>"
  have ok: "data_ok bm d" and t: "tree_ok bm ino (nodes n) (dev_view d)" and z: "ind_zero ino n"
    using inv n by (auto simp: file_inv_def)
  have t1: "tree_ok bm ino1 (nodes n) (dev_view d)" using t by (simp add: ino1_def)
  have z1: "ind_zero ino1 n" using z by (simp add: ino1_def ind_zero_def)
  have nb: "node_blk ino1 V x = node_blk ino V x" for V x by (simp add: ino1_def)
  have i1: "indirect1 ino1 = indirect1 ino" by (simp add: ino1_def)
  from decrease_ok[OF ok t1 z1 lt n'(2) po] obtain ds d' where
    r: "decrease n n' bm inode ino1 d = (kSuccess, ino1\<lparr>direct := ds,
       indirect1 := if n' \<le> 23 then 0 else indirect1 ino1, indirect2 := 0\<rparr>, d')"
    "length ds = 23" "\<forall>i < n'. i < 23 \<longrightarrow> ds ! i = direct ino1 ! i" "data_ok bm d'" "same_geometry d d'"
    "used_blks bm (dev_view d') = used_blks bm (dev_view d) - node_blk ino1 (dev_view d) ` (nodes n - nodes n')"
    "\<forall>c. c \<notin> bm_region bm \<longrightarrow> (\<forall>pos. inode = Some pos \<longrightarrow> c \<noteq> pos_block_id pos) \<longrightarrow>
       (c = indirect1 ino1 \<longrightarrow> c = 0) \<longrightarrow> dev_view d' c = dev_view d c"
    "23 < n' \<longrightarrow> (\<forall>e < n' - 23. get_u32 (dev_view d' (indirect1 ino1)) (4 * e) =
       get_u32 (dev_view d (indirect1 ino1)) (4 * e))"
    "\<forall>pos. inode = Some pos \<longrightarrow> dev_view d' (pos_block_id pos) =
       put_inode (dev_view d (pos_block_id pos)) (unat (pos_block_offset pos)) (ino1\<lparr>direct := ds,
         indirect1 := if n' \<le> 23 then 0 else indirect1 ino1, indirect2 := 0\<rparr>)" .
  let ?i1 = "if n' \<le> 23 then 0 else indirect1 ino1"
  let ?i = "ino1\<lparr>direct := ds, indirect1 := ?i1, indirect2 := 0\<rparr>"
  have "23 < n' \<longrightarrow> ?i1 = indirect1 ino1" by simp
  note ts = tree_shrink[OF ok t1 lt n'(2) r(2,3) this r(8,6), where ?i2.0 = 0]
  have sz': "di_size ?i = sz" "di_type ?i = di_type ino" "link_cnt ?i = link_cnt ino"
    by (simp_all add: ino1_def update_meta_def Let_def)
  have "indirect1 ino1 \<noteq> 0" if "23 < n'" using z1 that lt by (simp add: ind_zero_def)
  then have "ind_zero ?i n'" using n'(2) by (auto simp: ind_zero_def)
  then have inv': "file_inv bm ?i d'" using r(4) ts(2) n'(1) unfolding file_inv_def sz' by metis
  have "data_blocks sz < data_blocks (di_size ino)" using lt n n'(1) by (simp add: word_less_nat_alt)
  then have "total_blocks (di_size ino) \<noteq> total_blocks sz" "total_blocks sz < total_blocks (di_size ino)"
    by (auto simp: total_blocks_less_iff total_blocks_eq_iff)
  then have rs: "resize sz bm inode now ino d = (kSuccess, ?i, d')"
    using r(1) n n'(1) by (simp add: resize_def Let_def ino1_def[symmetric])
  have bytes: "\<forall>p < 4096 * n'. file_byte ?i (dev_view d') p = file_byte ino (dev_view d) p"
    using shrunk_bytes[OF ok t1 less_imp_le[OF lt] z1 po r(7) ts(1)] by (simp add: file_byte_def nb)
  have keep: "\<forall>x \<in> nodes n'. node_blk ?i (dev_view d') x = node_blk ino (dev_view d) x"
    using ts(1) nb by simp
  show ?thesis
    by (rule that[OF rs inv' sz' r(5) bytes keep]) (use r(6,7,9) in \<open>simp_all add: nb i1\<close>)
qed

section \<open>The remaining second-level index\<close>

text \<open>When file blocks stay beyond the first 1047, and the last block that stays and the last one
  that goes have their entries in the same index block, step three writes this index block to
  device block 0.\<close>

lemma decrease_step3_block0:
  assumes ok: "data_ok bm d" and u: "node_blk ino (dev_view d) Ind2 \<in> used_blks bm (dev_view d)"
      "node_blk ino (dev_view d) (Ind21 0) \<in> used_blks bm (dev_view d)"
    and n: "1047 < new" "new < old" "old \<le> 2071" and r0: "0 \<notin> bm_region bm"
  obtains d' where "decrease_step3 old new fr ino d = (kSuccess, fr @ map (\<lambda>j. node_blk ino (dev_view d) (Data (1047 + j)))
      [new - 1047..<old - 1047], ino, d')"
    "data_ok bm d'" "used_blks bm (dev_view d') = used_blks bm (dev_view d)"
    "\<forall>e < new - 1047. get_u32 (dev_view d' 0) (4 * e) = node_blk ino (dev_view d) (Data (1047 + e))"
proof -
  let ?c = "indirect2 ino" and ?V = "dev_view d"
  let ?b = "get_u32 (?V ?c) (4 * 0)"
  have c: "?c \<in> used_blks bm ?V" "?b \<in> used_blks bm ?V" using u by simp_all
  have rm: "room bm V 0" for V
    using card_mono[OF finite_lessThan bm_used_finite(2)] by (simp add: room_def)
  from read_index[OF ok c(1) rm] obtain d1 where
    d1: "dev_read ?c zero_block d = (kSuccess, ?V ?c, d1)" "dev_view d1 = ?V" "dstep bm d d1 0" .
  from read_index[OF dstepD(1)[OF d1(3)] c(2) rm] obtain d2 where
    d2: "dev_read ?b zero_block d1 = (kSuccess, ?V ?b, d2)" "dev_view d2 = ?V" "dstep bm d1 d2 0"
    unfolding d1(2) .
  let ?js = "[new - 1047..<old - 1047]"
  obtain q where q: "push_entries ?js fr (?V ?b) = (fr @ map (\<lambda>j. get_u32 (?V ?b) (4 * j)) ?js, q)"
    "\<And>e. e \<notin> set ?js \<Longrightarrow> get_u32 q (4 * e) = get_u32 (?V ?b) (4 * e)"
    by (rule push_entries_ok[of ?js fr "?V ?b"]) auto
  have z: "unat (0 :: u32) < dev_blocks d2"
    using dstepD(1)[OF d2(3)] by (auto simp: data_ok_def word_less_nat_alt)
  from dev_write_ok[OF data_okD(2)[OF dstepD(1)[OF d2(3)]] z, of q] obtain d3 where
    d3: "dev_write 0 q d2 = (kSuccess, d3)" "dev_ok d3" "dev_view d3 = (dev_view d2)(0 := q)" "same_geometry d2 d3" .
  have ok3: "data_ok bm d3" by (rule data_ok_same[OF dstepD(1)[OF d2(3)] d3(2,4)])
  from write_index[OF ok3 c(1) rm, of "?V ?c"] obtain d4 where
    d4: "dev_write ?c (?V ?c) d3 = (kSuccess, d4)" "dev_view d4 = (dev_view d3)(?c := ?V ?c)" "dstep bm d3 d4 0" .
  have cz: "?c \<noteq> 0" by (rule used_blks_area(2)[OF ok c(1)])
  have I: "INODE_INDIRECT_COUNT = 1024" "INODE_DIRECT_COUNT = 23" by (simp_all add: inode_consts)
  have e: "nat (int new - 23 - 1024 - 1) = new - 1048" "nat (int old - 23 - 1024 - 1) = old - 1048"
    "(new - 1048) div 1024 = 0" "(old - 1048) div 1024 = 0" "Suc (new - 1048) = new - 1047"
    "Suc (old - 1048) = old - 1047" "\<not> int new - 1047 - 1 < 0" "\<not> int old - 1047 - 1 < 0"
    using n by auto
  have m: "(new - 1048) mod 1024 = new - 1048" "(old - 1048) mod 1024 = old - 1048" using n by auto
  have dn: "map (\<lambda>j. get_u32 (?V ?b) (4 * j)) ?js = map (\<lambda>j. node_blk ino ?V (Data (1047 + j))) ?js"
    using n by (auto simp: node_blk.simps(1))
  have part: "decrease_part_ind2 [0..<0 + 1] (0, new - 1048) (0, old - 1048) (?V ?c) fr d1 =
      (kSuccess, fr @ map (\<lambda>j. node_blk ino ?V (Data (1047 + j))) ?js, d3)"
    using d2(1) d3(1) q(1) dn by (simp add: e(5,6) Let_def)
  have "decrease_step3 old new fr ino d = (kSuccess, fr @ map (\<lambda>j. node_blk ino ?V (Data (1047 + j))) ?js, ino, d4)"
    using cz d1(1) part d4(1) e n unfolding decrease_step3_def Let_def I by (simp add: m)
  moreover have "data_ok bm d4" using d4(3) by (rule dstepD(1))
  moreover have "used_blks bm (dev_view d4) = used_blks bm ?V"
    unfolding d4(2) d3(3) d2(2)
    using used_blks_upd(1)[OF ok used_blks_area(4)[OF ok c(1)]] used_blks_upd(1)[OF ok r0] by simp
  moreover have "get_u32 (dev_view d4 0) (4 * j) = node_blk ino ?V (Data (1047 + j))" if "j < new - 1047" for j
    using that cz q(2)[of j] n by (simp add: d4(2) d3(3) node_blk.simps(1))
  ultimately show ?thesis using that by blast
qed

lemma decrease_step2_id:
  assumes ok: "data_ok bm d" and c: "indirect1 ino \<in> used_blks bm (dev_view d)" and n: "1047 < new"
  obtains d' where "decrease_step2 old new fr ino d = (kSuccess, fr, ino, d')" "data_ok bm d'"
    "dev_view d' = dev_view d"
proof -
  let ?c = "indirect1 ino"
  have rm: "room bm V 0" for V
    using card_mono[OF finite_lessThan bm_used_finite(2)] by (simp add: room_def)
  from read_index[OF ok c rm] obtain d1 where
    d1: "dev_read ?c zero_block d = (kSuccess, dev_view d ?c, d1)" "dev_view d1 = dev_view d" "dstep bm d d1 0" .
  from write_index[OF dstepD(1)[OF d1(3)] c rm, of "dev_view d ?c"] obtain d2 where
    d2: "dev_write ?c (dev_view d ?c) d1 = (kSuccess, d2)" "dev_view d2 = (dev_view d1)(?c := dev_view d ?c)"
    "dstep bm d1 d2 0" .
  have l: "[max new INODE_DIRECT_COUNT..<min old (INODE_DIRECT_COUNT + INODE_INDIRECT_COUNT)] = []"
    "\<not> new \<le> INODE_DIRECT_COUNT" using n by (simp_all add: inode_consts)
  have "decrease_step2 old new fr ino d = (kSuccess, fr, ino, d2)"
    using used_blks_area(2)[OF ok c] d1(1) d2(1) l(2) unfolding decrease_step2_def l(1) by simp
  then show ?thesis using that[of d2] dstepD(1)[OF d2(3)] d1(2) d2(2) by (simp add: fun_eq_iff)
qed

text \<open>A file grown from nothing on the device of the previous theory.\<close>

lemma grow_empty:
  assumes "tree_size (unat (data_blocks sz)) \<le> 32768"
  shows "\<exists>ino d. resize sz small_bitmap None 1 (DiskInode_new kFile 0 0 0) wide_dev = (kSuccess, ino, d) \<and>
    file_inv small_bitmap ino d \<and> di_size ino = sz \<and> dev_blocks d = 40000"
proof -
  let ?i = "DiskInode_new kFile 0 0 0"
  have le: "di_size ?i \<le> sz" by (simp add: DiskInode_new_def)
  have rm: "room small_bitmap (dev_view wide_dev)
      (tree_size (unat (data_blocks sz)) - tree_size (unat (data_blocks (di_size ?i))) + 0)"
    using wide_dev_room assms by (simp add: room_def)
  from resize_grow_ok[OF empty_file_inv le refl refl rm, of 1] obtain ds i1 i2 d' where
    r: "resize sz small_bitmap None 1 ?i wide_dev = (kSuccess,
      (update_meta 7 1 ?i)\<lparr>di_size := sz, direct := ds, indirect1 := i1, indirect2 := i2\<rparr>, d')"
    "grown small_bitmap ?i (nodes (unat (data_blocks (di_size ?i)))) (dev_view wide_dev)
      ((update_meta 7 1 ?i)\<lparr>di_size := sz, direct := ds, indirect1 := i1, indirect2 := i2\<rparr>)
      (nodes (unat (data_blocks sz))) (dev_view d')"
    "file_inv small_bitmap ((update_meta 7 1 ?i)\<lparr>di_size := sz, direct := ds, indirect1 := i1, indirect2 := i2\<rparr>) d'"
    "dstep small_bitmap wide_dev d' 0" .
  have "dev_blocks d' = 40000" using dstepD(2)[OF r(4)] by (simp add: same_geometry_def)
  then show ?thesis using r(1,3) by auto
qed

section \<open>A block in the wrong place\<close>

text \<open>C40: shrinking a file that keeps more than 1047 data blocks destroys the super block. The
  index block that stays is written to block \<open>i\<close>, its place in the second-level index, and not to
  \<open>p[i]\<close>; for a file within the first second-level index block, device block 0 then starts with
  the numbers of the data blocks from 1047 on, and no longer with the magic number. The theorem is about files of at most 2071
  data blocks, which have one such index block; a larger file that stays larger loses the block with a higher number instead. The
  caller may pass the position of the inode, as \<open>truncate\<close> does, or not.\<close>

theorem shrink_destroys_super_block:
  assumes "file_inv bm ino d" "1047 < unat (data_blocks sz)" "data_blocks sz < data_blocks (di_size ino)"
    and "unat (data_blocks (di_size ino)) \<le> 2071" "0 \<notin> bm_region bm" "dev_blocks d \<le> unat kFSMagic"
    and "\<forall>pos. inode = Some pos \<longrightarrow> pos_ok bm pos \<and> pos_block_id pos \<noteq> 0"
  shows "\<exists>ino' d'. resize sz bm inode now ino d = (kSuccess, ino', d') \<and>
     (\<forall>e < unat (data_blocks sz) - 1047. get_u32 (dev_view d' 0) (4 * e) = node_blk ino (dev_view d) (Data (1047 + e))) \<and>
     \<not> SuperBlock_isValid (get_super (dev_view d' 0))"
proof -
  define n n' where "n = unat (data_blocks (di_size ino))" "n' = unat (data_blocks sz)"
  note nn = this
  have n: "1047 < n'" "n' < n" "n \<le> 2071" using assms(2-4) nn by (auto simp: word_less_nat_alt)
  define ino1 where "ino1 = (update_meta 7 now ino)\<lparr>di_size := sz\<rparr>"
  have ok: "data_ok bm d" and t: "tree_ok bm ino1 (nodes n) (dev_view d)"
    using assms(1) nn by (auto simp: file_inv_def ino1_def)
  have nb: "node_blk ino1 V x = node_blk ino V x" for V x by (simp add: ino1_def)
  have l1: "decrease_direct [n'..<min n INODE_DIRECT_COUNT] [] ino1 = ([], ino1)" using n by (simp add: inode_consts)
  have u: "node_blk ino1 (dev_view d) x \<in> used_blks bm (dev_view d)" if "x \<in> {Ind1, Ind2, Ind21 0}" for x
    by (rule tree_used[OF t]) (use that n in auto)
  have "indirect1 ino1 \<in> used_blks bm (dev_view d)" using u[of Ind1] by simp
  from decrease_step2_id[OF ok this n(1), of n "[]"] obtain d2 where
    d2: "decrease_step2 n n' [] ino1 d = (kSuccess, [], ino1, d2)" "data_ok bm d2" "dev_view d2 = dev_view d" .
  from decrease_step3_block0[OF d2(2) _ _ n assms(5), of ino1 "[]", unfolded d2(3), OF u u] obtain d3 where
    d3: "decrease_step3 n n' [] ino1 d2 = (kSuccess, [] @ map (\<lambda>j. node_blk ino1 (dev_view d) (Data (1047 + j)))
      [n' - 1047..<n - 1047], ino1, d3)" "data_ok bm d3" "used_blks bm (dev_view d3) = used_blks bm (dev_view d)"
    "\<forall>e < n' - 1047. get_u32 (dev_view d3 0) (4 * e) = node_blk ino1 (dev_view d) (Data (1047 + e))" by auto
  let ?fr = "map (\<lambda>j. node_blk ino1 (dev_view d) (Data (1047 + j))) [n' - 1047..<n - 1047]"
  have sub: "set ?fr \<subseteq> used_blks bm (dev_view d)" using tree_used[OF t] by auto
  have po: "\<forall>pos. inode = Some pos \<longrightarrow> pos_ok bm pos" using assms(7) by blast
  note w = write_inode_opt_ok[OF d3(2) po, where ino = ino1]
  have z: "dev_view (write_inode_opt inode ino1 d3) 0 = dev_view d3 0" using w(4) assms(7) by metis
  from free_blocks_ok[OF w(1) sub] obtain d' where
    d': "free_blocks ?fr bm (write_inode_opt inode ino1 d3) = (kSuccess, d')"
    "\<forall>c. c \<notin> bm_region bm \<longrightarrow> dev_view d' c = dev_view (write_inode_opt inode ino1 d3) c" by blast
  have "total_blocks (di_size ino) \<noteq> total_blocks sz" "total_blocks sz < total_blocks (di_size ino)"
    using assms(3) by (auto simp: total_blocks_less_iff total_blocks_eq_iff)
  then have r: "resize sz bm inode now ino d = (kSuccess, ino1, d')"
    using l1 d2(1) d3(1) d'(1)
    by (simp add: resize_def Let_def ino1_def[symmetric] nn[symmetric] decrease_def)
  have e: "\<forall>e < n' - 1047. get_u32 (dev_view d' 0) (4 * e) = node_blk ino (dev_view d) (Data (1047 + e))"
    using d3(4) d'(2) assms(5) nb z by simp
  have "unat (node_blk ino1 (dev_view d) (Data 1047)) < dev_blocks d"
    by (rule used_blks_area(1)[OF ok tree_used[OF t]]) (use n in simp)
  then have "node_blk ino (dev_view d) (Data 1047) \<noteq> kFSMagic" using assms(6) nb by auto
  moreover have "get_u32 (dev_view d' 0) 0 = node_blk ino (dev_view d) (Data 1047)"
    using e[rule_format, of 0] n by simp
  ultimately have "\<not> SuperBlock_isValid (get_super (dev_view d' 0))" by (simp add: SuperBlock_isValid_def get_super_def)
  then show ?thesis using r e unfolding nn by blast
qed

theorem shrink_destroys_super_block_witness:
  "\<exists>ino1 d1 ino2 d2. resize 4300800 small_bitmap None 1 (DiskInode_new kFile 0 0 0) wide_dev = (kSuccess, ino1, d1) \<and>
     resize 4296704 small_bitmap (Some \<lparr>pos_block_id = 5, pos_block_offset = 0\<rparr>) 2 ino1 d1 = (kSuccess, ino2, d2) \<and>
     \<not> SuperBlock_isValid (get_super (dev_view d2 0))"
proof -
  have n: "unat (data_blocks 4300800) = 1050" "unat (data_blocks 4296704) = 1049" by (simp_all add: unat_data_blocks)
  have "tree_size (unat (data_blocks 4300800)) \<le> 32768" by (simp add: n tree_size_def)
  from grow_empty[OF this] obtain ino1 d1 where
    r: "resize 4300800 small_bitmap None 1 (DiskInode_new kFile 0 0 0) wide_dev = (kSuccess, ino1, d1)"
    "file_inv small_bitmap ino1 d1" "di_size ino1 = 4300800" "dev_blocks d1 = 40000" by blast
  have "1047 < unat (data_blocks 4296704)" "data_blocks 4296704 < data_blocks (di_size ino1)"
    "unat (data_blocks (di_size ino1)) \<le> 2071" "0 \<notin> bm_region small_bitmap" "dev_blocks d1 \<le> unat kFSMagic"
    "\<forall>pos. Some (\<lparr>pos_block_id = 5, pos_block_offset = 0\<rparr> :: Position) = Some pos \<longrightarrow> pos_ok small_bitmap pos \<and> pos_block_id pos \<noteq> 0"
    using n by (simp_all add: r(3,4) word_less_nat_alt bm_region_def small_bitmap_def kFSMagic_def pos_ok_def)
  from shrink_destroys_super_block[OF r(2) this, of 2] obtain ino2 d2 where
    "resize 4296704 small_bitmap (Some \<lparr>pos_block_id = 5, pos_block_offset = 0\<rparr>) 2 ino1 d1 = (kSuccess, ino2, d2)"
    "\<not> SuperBlock_isValid (get_super (dev_view d2 0))" by blast
  with r(1) show ?thesis by blast
qed

end
