(* ===== verification/Sbfs.thy ===== *)
theory Sbfs
  imports Inode_Shrink
begin

text \<open>
  The file system object of \<open>src/sbfs.cpp\<close>: creating a file system on a disk file, opening an
  existing one, the layout of its areas, the numbering of inodes and the four allocation
  entry points.

  \<open>device_\<close> points to the one block device, so the device is a field of the record. The object
  is created uninitialised (\<open>SBFileSystem fs;\<close>): its contents before the first assignment are
  the argument \<open>fs0\<close>. \<open>junk\<close> is the memory of the cache that the device allocates and \<open>dirjunk\<close>
  that of a \<open>DirBlock\<close> on the stack.
\<close>

section \<open>State\<close>

record sbfs =
  super_block :: SuperBlock
  device :: dev
  inode_bitmap :: Bitmap
  data_bitmap :: Bitmap
  inode_area_start_block :: u32
  data_area_start_block :: u32

text \<open>\<open>struct Inode\<close>: the position of the disk inode and the pointer \<open>fs\<close>, which either points
  to the file system or is null.\<close>

record Inode =
  ino_pos :: Position
  ino_fs :: bool

definition Inode_invalid :: Inode where
  "Inode_invalid = \<lparr>ino_pos = Position_invalid, ino_fs = False\<rparr>"

definition Inode_isValid :: "Inode \<Rightarrow> bool" where
  "Inode_isValid i \<longleftrightarrow> Position_isValid (ino_pos i)"

text \<open>\<open>operator<\<close>, the order of the keys of \<open>std::map<Inode, \<dots>>\<close>.\<close>

definition Inode_less :: "Inode \<Rightarrow> Inode \<Rightarrow> bool" where
  "Inode_less a b \<longleftrightarrow> pos_block_id (ino_pos a) < pos_block_id (ino_pos b) \<or>
     (pos_block_id (ino_pos a) = pos_block_id (ino_pos b) \<and>
      pos_block_offset (ino_pos a) < pos_block_offset (ino_pos b))"

section \<open>Inode numbers and allocation\<close>

definition kInodesInABlock :: nat where
  "kInodesInABlock = kBlockSize div sizeof_DiskInode"

definition getDiskInodePos :: "u32 \<Rightarrow> sbfs \<Rightarrow> Position" where
  "getDiskInodePos inode_id fs =
     \<lparr>pos_block_id = inode_area_start_block fs + inode_id div of_nat kInodesInABlock,
      pos_block_offset = (inode_id mod of_nat kInodesInABlock) * of_nat sizeof_DiskInode\<rparr>"

definition getDiskInodeId :: "Position \<Rightarrow> sbfs \<Rightarrow> u32" where
  "getDiskInodeId pos fs = (pos_block_id pos - inode_area_start_block fs) * of_nat kInodesInABlock +
     pos_block_offset pos div of_nat sizeof_DiskInode"

definition fs_root :: "sbfs \<Rightarrow> Inode" where
  "fs_root fs = \<lparr>ino_pos = sb_root_inode_pos (super_block fs), ino_fs = True\<rparr>"

definition alloc_inode :: "sbfs \<Rightarrow> u32 \<times> sbfs" where
  "alloc_inode fs = (let (b, d) = bitmap_alloc (inode_bitmap fs) (device fs) in (b, fs\<lparr>device := d\<rparr>))"

definition alloc_data :: "sbfs \<Rightarrow> u32 \<times> sbfs" where
  "alloc_data fs = (let (b, d) = bitmap_alloc (data_bitmap fs) (device fs) in (b, fs\<lparr>device := d\<rparr>))"

definition free_inode :: "u32 \<Rightarrow> sbfs \<Rightarrow> int \<times> sbfs" where
  "free_inode inode_id fs =
     (let (r, d) = bitmap_free inode_id (inode_bitmap fs) (device fs) in (r, fs\<lparr>device := d\<rparr>))"

definition free_data :: "u32 \<Rightarrow> sbfs \<Rightarrow> int \<times> sbfs" where
  "free_data blk fs =
     (let (r, d) = bitmap_free blk (data_bitmap fs) (device fs) in (r, fs\<lparr>device := d\<rparr>))"

section \<open>Creating and opening\<close>

definition initBitmapAndBlock :: "sbfs \<Rightarrow> sbfs" where
  "initBitmapAndBlock fs =
     (let sb = super_block fs;
          inode_bitmap_offset = 1;
          inode_area_offset = inode_bitmap_offset + sb_inode_bitmap_blocks sb;
          data_bitmap_offset = inode_area_offset + sb_inode_area_blocks sb;
          data_area_offset = data_bitmap_offset + sb_data_bitmap_blocks sb
      in fs\<lparr>inode_bitmap := \<lparr>start_block_id = inode_bitmap_offset,
               bm_num_blocks = sb_inode_bitmap_blocks sb, data_segment_offset = inode_area_offset\<rparr>,
            data_bitmap := \<lparr>start_block_id = data_bitmap_offset,
               bm_num_blocks = sb_data_bitmap_blocks sb, data_segment_offset = data_area_offset\<rparr>,
            inode_area_start_block := inode_area_offset,
            data_area_start_block := data_area_offset\<rparr>)"

text \<open>\<open>strcpy(m + p, s)\<close>, the terminating NUL included.\<close>

definition strcpy :: "mem \<Rightarrow> nat \<Rightarrow> cstring \<Rightarrow> mem" where
  "strcpy m p s = (\<lambda>i. if p \<le> i \<and> i < p + length s then s ! (i - p)
     else if i = p + length s then 0 else m i)"

definition kDirEntries :: nat where
  "kDirEntries = kBlockSize div sizeof_DirEntry"

text \<open>\<open>DirBlock\<close> on the stack: the default constructor of each of its entries has run.\<close>

definition DirBlock_new :: "mem \<Rightarrow> mem" where
  "DirBlock_new m = fold (\<lambda>j m. DirEntry_default m (j * sizeof_DirEntry)) [0..<kDirEntries] m"

text \<open>The names \<open>"."\<close> and \<open>".."\<close>.\<close>

definition dot :: cstring where
  "dot = [0x2E]"

definition dotdot :: cstring where
  "dotdot = [0x2E, 0x2E]"

text \<open>The return values of the device and of \<open>write_inode\<close> are not looked at.\<close>

definition createRoot :: "mem \<Rightarrow> u32 \<Rightarrow> u16 \<Rightarrow> u16 \<Rightarrow> sbfs \<Rightarrow> sbfs" where
  "createRoot dirjunk now uid gid fs =
     (let (root_inode_id, fs1) = alloc_inode fs;
          (root_data_id, fs2) = alloc_data fs1;
          root_inode_data = DiskInode_new kDirectory now uid gid;
          root_dir_block = DirBlock_new dirjunk;
          root_dir_block = strcpy root_dir_block 0 dot;
          root_dir_block = put_u32 root_dir_block 252 root_inode_id;
          root_dir_block = strcpy root_dir_block sizeof_DirEntry dotdot;
          root_dir_block = put_u32 root_dir_block (sizeof_DirEntry + 252) root_inode_id;
          root_inode_data = root_inode_data\<lparr>di_size := of_nat (2 * sizeof_DirEntry),
             di_mode := di_mode root_inode_data OR 0x1ED,
             direct := (direct root_inode_data)[0 := root_data_id]\<rparr>;
          (_, d3) = write_inode (getDiskInodePos root_inode_id fs2) root_inode_data (device fs2);
          (_, d4) = dev_write root_data_id root_dir_block d3;
          sb = (super_block fs2)\<lparr>sb_root_inode_pos := getDiskInodePos root_inode_id fs2\<rparr>;
          (_, d5) = dev_write 0 (put_super sb) d4
      in fs2\<lparr>super_block := sb, device := d5\<rparr>)"

text \<open>The sizes of the areas. The first product of each is a 32-bit one, the rest of the
  expression has 64 bits, since \<open>kBlockSize\<close> is a \<open>uint64_t\<close>; the result is cut to 32 bits.\<close>

definition inode_area_size :: "u32 \<Rightarrow> u32" where
  "inode_area_size inode_bitmap_blocks =
     ucast ((ucast (inode_bitmap_blocks * 8) * of_nat kBlockSize :: u64) div of_nat kInodesInABlock)"

definition data_bitmap_size :: "u32 \<Rightarrow> u32" where
  "data_bitmap_size remaining_blocks = ucast ((ucast remaining_blocks :: u64) div (1 + 8 * of_nat kBlockSize))"

definition data_area_size :: "u32 \<Rightarrow> u32" where
  "data_area_size data_bitmap_blocks = ucast (ucast (data_bitmap_blocks * 8) * of_nat kBlockSize :: u64)"

definition fs_create ::
  "(int \<Rightarrow> block) \<Rightarrow> mem \<Rightarrow> u32 \<Rightarrow> u16 \<Rightarrow> u16 \<Rightarrow> sbfs \<Rightarrow> disk \<Rightarrow> nat \<Rightarrow> u32 \<Rightarrow> u32 \<Rightarrow> sbfs" where
  "fs_create junk dirjunk now uid gid fs0 dk sz tot_blocks inode_bitmap_blocks =
     (let d = BlockDevice junk dk sz;
          inode_area_blocks = inode_area_size inode_bitmap_blocks;
          remaining_blocks = tot_blocks - inode_bitmap_blocks - inode_area_blocks;
          data_bitmap_blocks = data_bitmap_size remaining_blocks;
          sb = (super_block fs0)\<lparr>sb_magic := kFSMagic, sb_total_blocks := tot_blocks,
             sb_inode_bitmap_blocks := inode_bitmap_blocks, sb_inode_area_blocks := inode_area_blocks,
             sb_data_bitmap_blocks := data_bitmap_blocks,
             sb_data_area_blocks := data_area_size data_bitmap_blocks,
             sb_root_inode_pos := Position_invalid\<rparr>;
          (_, d1) = dev_write 0 (put_super sb) d
      in createRoot dirjunk now uid gid (initBitmapAndBlock (fs0\<lparr>super_block := sb, device := d1\<rparr>)))"

text \<open>\<open>st\<close> is the size that \<open>stat\<close> reports, or None when it fails. When \<open>stat\<close> fails or the magic number is wrong, the object is
  returned with pointers that were never set: \<open>device_\<close> in the first case, the two bitmaps in both. No caller looks for that, and
  \<open>init_vfs\<close> copies the object with the pointers in it, which has no defined behaviour: the result is None.\<close>

definition fs_open :: "(int \<Rightarrow> block) \<Rightarrow> sbfs \<Rightarrow> nat option \<Rightarrow> disk \<Rightarrow> sbfs option" where
  "fs_open junk fs0 st dk =
     (case st of None \<Rightarrow> None
      | Some st_size \<Rightarrow>
          (let (_, blk, d) = dev_read 0 (put_super (super_block fs0)) (BlockDevice junk dk st_size);
               fs = fs0\<lparr>super_block := get_super blk, device := d\<rparr>
           in if \<not> SuperBlock_isValid (super_block fs) then None else Some (initBitmapAndBlock fs)))"

section \<open>The order of inodes\<close>

text \<open>Positions are ordered first by block, then by offset; on plain positions the last component of
  the record is a unit.\<close>

instantiation Position_ext :: (linorder) linorder
begin

definition less_Position_ext :: "'a Position_ext \<Rightarrow> 'a Position_ext \<Rightarrow> bool" where
  "less_Position_ext p q \<longleftrightarrow> pos_block_id p < pos_block_id q \<or> (pos_block_id p = pos_block_id q \<and>
     (pos_block_offset p < pos_block_offset q \<or> (pos_block_offset p = pos_block_offset q \<and>
      Position.more p < Position.more q)))"

definition less_eq_Position_ext :: "'a Position_ext \<Rightarrow> 'a Position_ext \<Rightarrow> bool" where
  "less_eq_Position_ext p q \<longleftrightarrow> p < q \<or> p = q"

instance
  by standard (auto simp: less_Position_ext_def less_eq_Position_ext_def intro: Position.equality)

end

lemma Inode_less_pos: "Inode_less a b \<longleftrightarrow> ino_pos a < ino_pos b"
  by (auto simp: Inode_less_def less_Position_ext_def)

end
