(* ===== verification/Inode_Ops.thy ===== *)
theory Inode_Ops
  imports Sbfs
begin

text \<open>
  The operations of \<open>struct Inode\<close> in \<open>src/inode.cpp\<close> on the file system state: reading, writing
  and resizing a file, and the directory operations \<open>create\<close>, \<open>find\<close>, \<open>remove\<close>, \<open>link\<close> and
  \<open>unlink\<close>. \<open>read_inode\<close> and \<open>write_inode\<close> themselves are in \<open>Disk_Inode\<close>.

  An operation takes the position \<open>pos\<close> of the inode and the file system, and returns its int
  result first and the file system last. A disk inode that \<open>read_inode\<close> fills is passed as
  \<open>zero_inode\<close>: it is not looked at when the read fails. \<open>now\<close> is the time of the operation;
  \<open>dirjunk\<close> is the stack memory of the directory block buffer. A target \<open>Inode *inode\<close> of the
  caller is passed in with its old contents and returned.
\<close>

section \<open>File data\<close>

definition inode_read_data ::
  "u32 \<Rightarrow> mem \<Rightarrow> u32 \<Rightarrow> u32 \<Rightarrow> Position \<Rightarrow> sbfs \<Rightarrow> int \<times> mem \<times> sbfs" where
  "inode_read_data offset buf sz now pos fs =
     (let (r, disk_inode, d1) = read_inode pos zero_inode (device fs) in
      if r = kFail then (kFail, buf, fs\<lparr>device := d1\<rparr>)
      else
        (let (len, buf2, disk_inode2, d2) = read_data offset buf sz now disk_inode d1 in
         if len = kFail then (kFail, buf2, fs\<lparr>device := d2\<rparr>)
         else
           (let (r3, d3) = write_inode pos disk_inode2 d2 in
            if r3 = kFail then (kFail, buf2, fs\<lparr>device := d3\<rparr>) else (len, buf2, fs\<lparr>device := d3\<rparr>))))"

text \<open>The result of \<open>resize\<close> is not looked at.\<close>

definition inode_write_data ::
  "u32 \<Rightarrow> mem \<Rightarrow> u32 \<Rightarrow> u32 \<Rightarrow> Position \<Rightarrow> sbfs \<Rightarrow> int \<times> sbfs" where
  "inode_write_data offset buf sz now pos fs =
     (let (r, disk_inode, d1) = read_inode pos zero_inode (device fs) in
      if r = kFail then (kFail, fs\<lparr>device := d1\<rparr>)
      else
        (let (_, disk_inode2, d2) =
               (if di_size disk_inode < offset + sz
                then resize (offset + sz) (data_bitmap fs) None now disk_inode d1
                else (kSuccess, disk_inode, d1));
             (len, disk_inode3, d3) = write_data offset buf sz now disk_inode2 d2
         in if len = kFail then (kFail, fs\<lparr>device := d3\<rparr>)
            else
              (let (r4, d4) = write_inode pos disk_inode3 d3 in
               if r4 = kFail then (kFail, fs\<lparr>device := d4\<rparr>) else (len, fs\<lparr>device := d4\<rparr>))))"

definition inode_resize :: "u32 \<Rightarrow> u32 \<Rightarrow> Position \<Rightarrow> sbfs \<Rightarrow> int \<times> sbfs" where
  "inode_resize new_size now pos fs =
     (let (r, disk_inode, d1) = read_inode pos zero_inode (device fs) in
      if r = kFail then (kFail, fs\<lparr>device := d1\<rparr>)
      else if di_type disk_inode \<noteq> kFile then (kFail, fs\<lparr>device := d1\<rparr>)
      else if new_size > di_size disk_inode then
        (let (r2, disk_inode2, d2) = resize new_size (data_bitmap fs) None now disk_inode d1 in
         if r2 = kFail then (kFail, fs\<lparr>device := d2\<rparr>)
         else (let (r3, d3) = write_inode pos disk_inode2 d2 in (r3, fs\<lparr>device := d3\<rparr>)))
      else
        (let (r2, _, d2) = resize new_size (data_bitmap fs) (Some pos) now disk_inode d1
         in (r2, fs\<lparr>device := d2\<rparr>)))"

definition inode_sync :: "bool \<Rightarrow> Position \<Rightarrow> sbfs \<Rightarrow> int \<times> sbfs" where
  "inode_sync metadata pos fs =
     (let (r, disk_inode, d1) = read_inode pos zero_inode (device fs) in
      if r = kFail then (kFail, fs\<lparr>device := d1\<rparr>)
      else
        (let (r2, d2) = sync_data False disk_inode d1 in
         if r2 = kFail then (kFail, fs\<lparr>device := d2\<rparr>)
         else if metadata then
           (let (r3, d3) = dev_sync (pos_block_id pos) d2 in
            if r3 = kFail then (kFail, fs\<lparr>device := d3\<rparr>) else (kSuccess, fs\<lparr>device := d3\<rparr>))
         else (kSuccess, fs\<lparr>device := d2\<rparr>)))"

section \<open>Scanning a directory\<close>

text \<open>\<open>sizeof(DirBlock)\<close>, and the inner loop: the first entry of the block that has the name.\<close>

definition sizeof_DirBlock :: nat where
  "sizeof_DirBlock = kBlockSize"

definition scan_entries :: "mem \<Rightarrow> cstring \<Rightarrow> nat option" where
  "scan_entries dir_blk name = List.find (\<lambda>j. strcmp_eq dir_blk (j * sizeof_DirEntry) name) [0..<kDirEntries]"

text \<open>The loop over the blocks that \<open>find\<close>, \<open>remove\<close>, \<open>link\<close> and \<open>unlink\<close> share: it ends with
  a failed read, at the first match, entry \<open>j\<close> of block \<open>i\<close>, or after the last block. The buffer is
  declared outside the loop, so what a short read leaves in it is the block before.\<close>

datatype scan = ScanFail | Found nat nat mem | Absent

primrec scan_dir ::
  "nat list \<Rightarrow> mem \<Rightarrow> cstring \<Rightarrow> u32 \<Rightarrow> DiskInode \<Rightarrow> dev \<Rightarrow> scan \<times> DiskInode \<times> dev" where
  "scan_dir [] dir_blk name now disk_inode d = (Absent, disk_inode, d)"
| "scan_dir (i # js) dir_blk name now disk_inode d =
     (let (r, dir_blk1, disk_inode1, d1) =
        read_data (of_nat (i * sizeof_DirBlock)) dir_blk (of_nat sizeof_DirBlock) now disk_inode d
      in if r = kFail then (ScanFail, disk_inode1, d1)
         else (case scan_entries dir_blk1 name of
                 Some j \<Rightarrow> (Found i j dir_blk1, disk_inode1, d1)
               | None \<Rightarrow> scan_dir js dir_blk1 name now disk_inode1 d1))"

definition dir_scan :: "mem \<Rightarrow> cstring \<Rightarrow> u32 \<Rightarrow> DiskInode \<Rightarrow> dev \<Rightarrow> scan \<times> DiskInode \<times> dev" where
  "dir_scan dirjunk name now disk_inode d =
     scan_dir [0..<unat (total_blocks (di_size disk_inode))] (DirBlock_new dirjunk) name now disk_inode d"

definition inode_find ::
  "mem \<Rightarrow> cstring \<Rightarrow> Inode \<Rightarrow> u32 \<Rightarrow> Position \<Rightarrow> sbfs \<Rightarrow> int \<times> Inode \<times> sbfs" where
  "inode_find dirjunk name inode now pos fs =
     (let (r, disk_inode, d1) = read_inode pos zero_inode (device fs) in
      if r = kFail then (kFail, inode, fs\<lparr>device := d1\<rparr>)
      else if di_type disk_inode \<noteq> kDirectory then (kFail, inode, fs\<lparr>device := d1\<rparr>)
      else
        (let (s, _, d2) = dir_scan dirjunk name now disk_inode d1 in
         case s of
           Found i j dir_blk \<Rightarrow>
             (kSuccess, \<lparr>ino_pos = getDiskInodePos (DirEntry_inode dir_blk (j * sizeof_DirEntry)) fs,
                         ino_fs = True\<rparr>, fs\<lparr>device := d2\<rparr>)
         | _ \<Rightarrow> (kFail, inode, fs\<lparr>device := d2\<rparr>)))"

section \<open>Adding an entry\<close>

text \<open>\<open>DirEntry new_dir_entries[2]\<close>\<close>

definition DirEntry2 :: "mem \<Rightarrow> mem \<Rightarrow> mem" where
  "DirEntry2 a b = memcpy a sizeof_DirEntry b 0 sizeof_DirEntry"

text \<open>\<open>resize\<close> by the size of the entries \<open>e\<close> and \<open>write_data\<close> of them at the end, as \<open>create\<close> does
  twice and \<open>link\<close> once.\<close>

definition append_entries :: "mem \<Rightarrow> nat \<Rightarrow> Bitmap \<Rightarrow> u32 \<Rightarrow> DiskInode \<Rightarrow> dev \<Rightarrow> int \<times> DiskInode \<times> dev" where
  "append_entries e n bm now disk_inode d =
     (let (r, disk_inode1, d1) = resize (di_size disk_inode + of_nat n) bm None now disk_inode d in
      if r = kFail then (kFail, disk_inode1, d1)
      else
        (let (r2, disk_inode2, d2) = write_data (di_size disk_inode1 - of_nat n) e (of_nat n) now disk_inode1 d1 in
         if r2 = kFail then (kFail, disk_inode2, d2) else (kSuccess, disk_inode2, d2)))"

text \<open>The result of \<open>alloc_inode\<close> is not looked at.\<close>

definition inode_create ::
  "cstring \<Rightarrow> DiskInode \<Rightarrow> Inode \<Rightarrow> u32 \<Rightarrow> Position \<Rightarrow> sbfs \<Rightarrow> int \<times> DiskInode \<times> Inode \<times> sbfs" where
  "inode_create name disk_inode inode now pos fs =
     (let (r, cur_disk_inode, d1) = read_inode pos zero_inode (device fs) in
      if r = kFail then (kFail, disk_inode, inode, fs\<lparr>device := d1\<rparr>)
      else if di_type cur_disk_inode \<noteq> kDirectory then (kFail, disk_inode, inode, fs\<lparr>device := d1\<rparr>)
      else
        (let (new_inode_id, fs2) = alloc_inode (fs\<lparr>device := d1\<rparr>);
             inode2 = \<lparr>ino_pos = getDiskInodePos new_inode_id fs2, ino_fs = True\<rparr>;
             (r3, cur3, d3) = append_entries (DirEntry name new_inode_id) sizeof_DirEntry
                (data_bitmap fs2) now cur_disk_inode (device fs2)
         in if r3 = kFail then (kFail, disk_inode, inode2, fs2\<lparr>device := d3\<rparr>)
            else
              (let (r4, disk_inode4, d4) =
                     (if di_type disk_inode = kDirectory
                      then append_entries (DirEntry2 (DirEntry dot new_inode_id) (DirEntry dotdot (getDiskInodeId pos fs2)))
                             (2 * sizeof_DirEntry) (data_bitmap fs2) now disk_inode d3
                      else (kSuccess, disk_inode, d3))
               in if r4 = kFail then (kFail, disk_inode4, inode2, fs2\<lparr>device := d4\<rparr>)
                  else
                    (let (r5, d5) = write_inode (ino_pos inode2) disk_inode4 d4 in
                     if r5 = kFail then (kFail, disk_inode4, inode2, fs2\<lparr>device := d5\<rparr>)
                     else (let (r6, d6) = write_inode pos cur3 d5 in (r6, disk_inode4, inode2, fs2\<lparr>device := d6\<rparr>))))))"

text \<open>The lambda \<open>update_link_cnt\<close> of \<open>link\<close>. It works through the pointer \<open>fs\<close> of the inode to be
  linked; when that is null the result is None, the end of the process.\<close>

definition update_link_cnt :: "Inode \<Rightarrow> dev \<Rightarrow> (int \<times> dev) option" where
  "update_link_cnt inode d =
     (if \<not> ino_fs inode then None
      else
        (let (r, raw_disk_inode, d1) = read_inode (ino_pos inode) zero_inode d in
         if r = kFail then Some (kFail, d1)
         else Some (write_inode (ino_pos inode) (raw_disk_inode\<lparr>link_cnt := link_cnt raw_disk_inode + 1\<rparr>) d1)))"

text \<open>The name in an entry of a directory block.\<close>

definition entry_name :: "mem \<Rightarrow> nat \<Rightarrow> cstring" where
  "entry_name m p = takeWhile (\<lambda>c. c \<noteq> 0) (map (\<lambda>i. m (p + i)) [0..<kMaxDirNameLength + 1])"

definition inode_link ::
  "mem \<Rightarrow> cstring \<Rightarrow> Inode \<Rightarrow> bool \<Rightarrow> u32 \<Rightarrow> Position \<Rightarrow> sbfs \<Rightarrow> (int \<times> sbfs) option" where
  "inode_link dirjunk name inode replace now pos fs =
     (let (r, disk_inode, d1) = read_inode pos zero_inode (device fs) in
      if r = kFail then Some (kFail, fs\<lparr>device := d1\<rparr>)
      else if di_type disk_inode \<noteq> kDirectory then Some (kFail, fs\<lparr>device := d1\<rparr>)
      else
        (let (s, disk_inode2, d2) = dir_scan dirjunk name now disk_inode d1 in
         case s of
           ScanFail \<Rightarrow> Some (kFail, fs\<lparr>device := d2\<rparr>)
         | Found i j dir_blk \<Rightarrow>
             if \<not> replace then Some (kFail, fs\<lparr>device := d2\<rparr>)
             else
               (case update_link_cnt inode d2 of None \<Rightarrow> None
                | Some (r3, d3) \<Rightarrow>
                  if r3 = kFail then Some (kFail, fs\<lparr>device := d3\<rparr>)
                  else
                    (let (r4, disk_inode4, d4) =
                       write_data (of_nat (i * sizeof_DirBlock + j * sizeof_DirEntry))
                         (DirEntry (entry_name dir_blk (j * sizeof_DirEntry)) (getDiskInodeId (ino_pos inode) fs))
                         (of_nat sizeof_DirEntry) now disk_inode2 d3
                     in if r4 = kFail then Some (kFail, fs\<lparr>device := d4\<rparr>)
                        else (let (r5, d5) = write_inode pos disk_inode4 d4 in Some (r5, fs\<lparr>device := d5\<rparr>))))
         | Absent \<Rightarrow>
             (case update_link_cnt inode d2 of None \<Rightarrow> None
              | Some (r3, d3) \<Rightarrow>
                if r3 = kFail then Some (kFail, fs\<lparr>device := d3\<rparr>)
                else
                  (let (r4, disk_inode4, d4) = append_entries (DirEntry name (getDiskInodeId (ino_pos inode) fs))
                         sizeof_DirEntry (data_bitmap fs) now disk_inode2 d3
                   in if r4 = kFail then Some (kFail, fs\<lparr>device := d4\<rparr>)
                      else (let (r5, d5) = write_inode pos disk_inode4 d4 in Some (r5, fs\<lparr>device := d5\<rparr>))))))"

section \<open>Taking an entry out\<close>

text \<open>What \<open>remove\<close> and \<open>unlink\<close> do with the entry found: the last entry of the directory is
  moved to its place, unless it is the last one of the last block, and the directory is shortened,
  its inode written.\<close>

definition drop_entry ::
  "nat \<Rightarrow> nat \<Rightarrow> nat \<Rightarrow> Bitmap \<Rightarrow> u32 \<Rightarrow> Position \<Rightarrow> DiskInode \<Rightarrow> dev \<Rightarrow> int \<times> dev" where
  "drop_entry i j tot_blocks bm now pos disk_inode d =
     (let (r1, disk_inode1, d1) =
        (if int i \<noteq> int tot_blocks - 1 \<or> j \<noteq> kDirEntries - 1 then
           (let (r, last_entry, ino_r, d_r) = read_data (di_size disk_inode - of_nat sizeof_DirEntry)
                  (DirEntry_default zero_block 0) (of_nat sizeof_DirEntry) now disk_inode d
            in if r = kFail then (kFail, ino_r, d_r)
               else
                 (let (r', ino_w, d_w) = write_data (of_nat (i * sizeof_DirBlock + j * sizeof_DirEntry))
                        last_entry (of_nat sizeof_DirEntry) now ino_r d_r
                  in if r' = kFail then (kFail, ino_w, d_w) else (kSuccess, ino_w, d_w)))
         else (kSuccess, disk_inode, d))
      in if r1 = kFail then (kFail, d1)
         else
           (let (r2, _, d2) = resize (di_size disk_inode1 - of_nat sizeof_DirEntry) bm (Some pos) now disk_inode1 d1
            in (r2, d2)))"

definition inode_remove :: "mem \<Rightarrow> cstring \<Rightarrow> u32 \<Rightarrow> Position \<Rightarrow> sbfs \<Rightarrow> int \<times> sbfs" where
  "inode_remove dirjunk name now pos fs =
     (let (r, disk_inode, d1) = read_inode pos zero_inode (device fs) in
      if r = kFail then (kFail, fs\<lparr>device := d1\<rparr>)
      else if di_type disk_inode \<noteq> kDirectory then (kFail, fs\<lparr>device := d1\<rparr>)
      else
        (let tot_blocks = unat (total_blocks (di_size disk_inode));
             (s, disk_inode2, d2) = dir_scan dirjunk name now disk_inode d1
         in case s of
           Found i j dir_blk \<Rightarrow>
             (let del_id = DirEntry_inode dir_blk (j * sizeof_DirEntry);
                  (r3, del, d3) = read_inode (getDiskInodePos del_id fs) zero_inode d2
              in if r3 = kFail then (kFail, fs\<lparr>device := d3\<rparr>)
                 else
                   (let del_disk_inode = del\<lparr>link_cnt := link_cnt del - 1\<rparr> in
                    if link_cnt del_disk_inode = 0 then
                      (let (r4, d4) = drop_entry i j tot_blocks (data_bitmap fs) now pos disk_inode2 d3 in
                       if r4 = kFail then (kFail, fs\<lparr>device := d4\<rparr>)
                       else
                         (let (r5, fs5) = free_inode del_id (fs\<lparr>device := d4\<rparr>) in
                          if r5 = kFail then (kFail, fs5)
                          else
                            (let (r6, _, d6) = resize 0 (data_bitmap fs5) None now del_disk_inode (device fs5)
                             in (r6, fs5\<lparr>device := d6\<rparr>))))
                    else (let (r4, d4) = write_inode pos disk_inode2 d3 in (r4, fs\<lparr>device := d4\<rparr>))))
         | _ \<Rightarrow> (kFail, fs\<lparr>device := d2\<rparr>)))"

definition inode_unlink ::
  "mem \<Rightarrow> cstring \<Rightarrow> Inode \<Rightarrow> u32 \<Rightarrow> Position \<Rightarrow> sbfs \<Rightarrow> int \<times> Inode \<times> sbfs" where
  "inode_unlink dirjunk name inode now pos fs =
     (let (r, disk_inode, d1) = read_inode pos zero_inode (device fs) in
      if r = kFail then (kFail, inode, fs\<lparr>device := d1\<rparr>)
      else if di_type disk_inode \<noteq> kDirectory then (kFail, inode, fs\<lparr>device := d1\<rparr>)
      else
        (let tot_blocks = unat (total_blocks (di_size disk_inode));
             (s, disk_inode2, d2) = dir_scan dirjunk name now disk_inode d1
         in case s of
           Found i j dir_blk \<Rightarrow>
             (let inode2 = \<lparr>ino_pos = getDiskInodePos (DirEntry_inode dir_blk (j * sizeof_DirEntry)) fs,
                            ino_fs = True\<rparr>;
                  (ret, d3) = drop_entry i j tot_blocks (data_bitmap fs) now pos disk_inode2 d2
              in if ret = kSuccess then
                   (let (r4, raw_disk_inode, d4) = read_inode (ino_pos inode2) zero_inode d3 in
                    if r4 = kFail then (kFail, inode2, fs\<lparr>device := d4\<rparr>)
                    else
                      (let (r5, d5) = write_inode (ino_pos inode2)
                             (raw_disk_inode\<lparr>link_cnt := link_cnt raw_disk_inode - 1\<rparr>) d4
                       in (r5, inode2, fs\<lparr>device := d5\<rparr>)))
                 else (ret, inode2, fs\<lparr>device := d3\<rparr>))
         | _ \<Rightarrow> (kFail, inode, fs\<lparr>device := d2\<rparr>)))"

end
