(* ===== verification/File_Step.thy ===== *)
theory File_Step
  imports Inode_Shrink
begin

text \<open>
  What an operation on one file does to the rest of the device. \<open>own_step bm X ino d ino' d'\<close> says that
  going from the file \<open>ino\<close> on the device \<open>d\<close> to \<open>ino'\<close> on \<open>d'\<close> keeps the invariant of the file, that the
  blocks allocated to other files stay allocated and unchanged, and that below the data area only
  the data bitmap and the blocks \<open>X\<close> change. Growing, shrinking and writing are such steps, steps compose,
  and a file whose blocks belong to the others survives them.
\<close>

section \<open>Blocks of a file\<close>

abbreviation ndata :: "DiskInode \<Rightarrow> nat" where
  "ndata ino \<equiv> unat (data_blocks (di_size ino))"

definition blks :: "DiskInode \<Rightarrow> dev \<Rightarrow> blk_id_t set" where
  "blks ino d = node_blk ino (dev_view d) ` nodes (ndata ino)"

definition others :: "Bitmap \<Rightarrow> DiskInode \<Rightarrow> dev \<Rightarrow> blk_id_t set" where
  "others bm ino d = used_blks bm (dev_view d) - blks ino d"

definition own_step :: "Bitmap \<Rightarrow> blk_id_t set \<Rightarrow> DiskInode \<Rightarrow> dev \<Rightarrow> DiskInode \<Rightarrow> dev \<Rightarrow> bool" where
  "own_step bm X ino d ino' d' \<longleftrightarrow> file_inv bm ino' d' \<and> same_geometry d d' \<and> others bm ino' d' = others bm ino d \<and>
     (\<forall>b. b \<in> others bm ino d \<or> (unat b < unat (data_segment_offset bm) \<and> b \<notin> bm_region bm \<and> b \<notin> X) \<longrightarrow>
        dev_view d' b = dev_view d b)"

lemma own_stepD:
  assumes "own_step bm X ino d ino' d'"
  shows "file_inv bm ino' d'" "same_geometry d d'" "others bm ino' d' = others bm ino d"
    "b \<in> others bm ino d \<Longrightarrow> dev_view d' b = dev_view d b"
    "unat b < unat (data_segment_offset bm) \<Longrightarrow> b \<notin> bm_region bm \<Longrightarrow> b \<notin> X \<Longrightarrow> dev_view d' b = dev_view d b"
  using assms by (auto simp: own_step_def)

lemma own_step_trans:
  assumes "own_step bm X ino d ino1 d1" "own_step bm Y ino1 d1 ino2 d2"
  shows "own_step bm (X \<union> Y) ino d ino2 d2"
proof -
  have "same_geometry d d2" using same_geometry_trans own_stepD(2) assms by blast
  then show ?thesis using assms by (auto simp: own_step_def)
qed

lemma own_step_mono: "own_step bm X ino d ino' d' \<Longrightarrow> X \<subseteq> Y \<Longrightarrow> own_step bm Y ino d ino' d'"
  by (auto simp: own_step_def)

lemma file_inv_parts:
  assumes "file_inv bm ino d"
  shows "data_ok bm d" "dev_ok d" "tree_ok bm ino (nodes (ndata ino)) (dev_view d)" "ind_zero ino (ndata ino)"
    "blks ino d \<subseteq> used_blks bm (dev_view d)" "DiskInode_wf ino"
  using assms data_okD by (auto simp: file_inv_def tree_ok_def blks_def DiskInode_wf_def kInodeDirectCnt_def)

lemma blks_high: "file_inv bm ino d \<Longrightarrow> b \<in> blks ino d \<Longrightarrow> unat (data_segment_offset bm) \<le> unat b"
  using file_inv_parts(5) by (fastforce simp: used_blks_def)

text \<open>A change of the inode that leaves its size and its tree alone.\<close>

definition same_tree :: "DiskInode \<Rightarrow> DiskInode \<Rightarrow> bool" where
  "same_tree ino ino' \<longleftrightarrow> di_size ino' = di_size ino \<and> direct ino' = direct ino \<and> indirect1 ino' = indirect1 ino \<and>
     indirect2 ino' = indirect2 ino"

lemma same_tree_node:
  assumes "same_tree ino ino'"
  shows "node_blk ino' = node_blk ino"
proof (intro ext)
  show "node_blk ino' V x = node_blk ino V x" for V x
    using assms by (cases x) (auto simp: same_tree_def node_blk.simps)
qed

lemma same_tree_facts:
  assumes "same_tree ino ino'"
  shows "blks ino' d = blks ino d" "file_inv bm ino' d = file_inv bm ino d" "file_byte ino' V p = file_byte ino V p"
  using assms same_tree_node[OF assms]
  by (auto simp: blks_def file_inv_def tree_ok_def ind_zero_def file_byte_def same_tree_def)

lemma same_tree_step:
  assumes "file_inv bm ino d" "same_tree ino ino'"
  shows "own_step bm {} ino d ino' d"
  using assms same_tree_facts by (simp add: own_step_def others_def)

lemma same_tree_meta [simp]: "same_tree ino (update_meta f now ino)"
  by (simp add: same_tree_def)

section \<open>The operations are steps\<close>

lemma own_step_dev:
  assumes inv: "file_inv bm ino d" and d': "dev_ok d'" "same_geometry d d'"
    and V: "\<And>b. b \<notin> blks ino d \<Longrightarrow> unat b \<ge> unat (data_segment_offset bm) \<or> b \<notin> X \<Longrightarrow> dev_view d' b = dev_view d b"
    and nb: "\<And>x. x \<in> nodes (ndata ino) \<Longrightarrow> node_blk ino (dev_view d') x = node_blk ino (dev_view d) x"
    and X: "\<forall>b \<in> X. b \<notin> bm_region bm"
  shows "own_step bm X ino d ino d'"
proof -
  note p = file_inv_parts[OF inv]
  have reg: "dev_view d' b = dev_view d b" if "b \<in> bm_region bm" for b
    using V[of b] that X used_blks_area(4)[OF p(1)] p(5) by blast
  have used: "used_blks bm (dev_view d') = used_blks bm (dev_view d)"
    using used_blks_cong[OF p(1)] reg by blast
  have bl: "blks ino d' = blks ino d" using nb by (auto simp: blks_def)
  have "tree_ok bm ino (nodes (ndata ino)) (dev_view d')"
    using p(3) nb used by (auto simp: tree_ok_def inj_on_def)
  then have "file_inv bm ino d'" using p(1,4) d' data_ok_same by (auto simp: file_inv_def)
  moreover have "dev_view d' b = dev_view d b" if "b \<in> others bm ino d" for b
  proof (rule V)
    show "b \<notin> blks ino d" using that by (simp add: others_def)
    have "unat (data_segment_offset bm) \<le> unat b" using that by (simp add: others_def used_blks_def)
    then show "unat b \<ge> unat (data_segment_offset bm) \<or> b \<notin> X" ..
  qed
  moreover have "dev_view d' b = dev_view d b" if "unat b < unat (data_segment_offset bm)" "b \<notin> X" for b
  proof (rule V)
    show "b \<notin> blks ino d" using that p(5) by (auto simp: used_blks_def)
  qed (use that in simp)
  ultimately show ?thesis using d' used bl by (auto simp: own_step_def others_def)
qed

lemma write_data_own:
  assumes inv: "file_inv bm ino d" and off: "offset < di_size ino" "0 < len" "unat offset + unat len < 2 ^ 31"
    and c: "c = min (unat len) (unat (di_size ino) - unat offset)"
  obtains d' where "write_data offset src len now ino d = (int c, update_meta 3 now ino, d')"
    "own_step bm {} ino d (update_meta 3 now ino) d'"
    "\<forall>p < unat (di_size ino). file_byte ino (dev_view d') p =
       (if unat offset \<le> p \<and> p < unat offset + c then src (p - unat offset) else file_byte ino (dev_view d) p)"
    "room bm (dev_view d') = room bm (dev_view d)"
proof -
  note p = file_inv_parts[OF inv]
  have ok: "file_ok ino d" by (rule file_inv_ok[OF inv])
  obtain d' where w: "write_data offset src len now ino d = (int c, update_meta 3 now ino, d')"
    "wrote_dev (update_meta 3 now ino) (ndata ino) d (unat offset) src c d'"
    by (rule write_data_ok[OF ok off c])
  have wr: "wrote ino (ndata ino) (dev_view d) (unat offset) src c (dev_view d')" "dev_ok d'" "same_geometry d d'"
    using w(2) by (auto simp: wrote_dev_def wrote_def)
  have out: "dev_view d' b = dev_view d b" if "b \<notin> blks ino d" for b
    using wroteD(1)[OF wr(1), of b] that by (auto simp: blks_def nodes_def)
  have s: "own_step bm {} ino d ino d'"
    by (rule own_step_dev[OF inv wr(2,3)]) (use out wrote_nodes[OF ok wr(1)] in auto)
  have "own_step bm ({} \<union> {}) ino d (update_meta 3 now ino) d'"
    by (rule own_step_trans[OF s same_tree_step]) (use own_stepD(1)[OF s] in simp_all)
  moreover have "\<forall>q < unat (di_size ino). file_byte ino (dev_view d') q =
       (if unat offset \<le> q \<and> q < unat offset + c then src (q - unat offset) else file_byte ino (dev_view d) q)"
    using wrote_bytes[OF ok wr(1)] size_data_blocks[of "di_size ino"] by (meson order_less_le_trans)
  moreover have "room bm (dev_view d') k = room bm (dev_view d) k" for k
    by (rule room_cong[OF p(1)]) (use out used_blks_area(4)[OF p(1)] p(5) in blast)
  ultimately show ?thesis using that w(1) by auto
qed

lemma grown_own:
  assumes inv: "file_inv bm ino d" and g: "grown bm ino (nodes (ndata ino)) (dev_view d) ino' (nodes (ndata ino')) (dev_view d')"
    and inv': "file_inv bm ino' d'" and geo: "same_geometry d d'"
  shows "own_step bm {} ino d ino' d'"
proof -
  note p = file_inv_parts[OF inv] and p' = file_inv_parts[OF inv']
  note gd = grownD[OF g]
  define new where "new = node_blk ino' (dev_view d') ` (nodes (ndata ino') - nodes (ndata ino))"
  have bl: "blks ino' d' = blks ino d \<union> new"
    using gd(2,3) unfolding blks_def new_def by (force simp: image_iff)
  have us: "used_blks bm (dev_view d') = used_blks bm (dev_view d) \<union> new" "new \<inter> used_blks bm (dev_view d) = {}"
    using gd(4,5) by (simp_all add: new_def)
  have oth: "others bm ino' d' = others bm ino d" using bl us p(5) by (auto simp: others_def)
  have ind: "node_blk ino' (dev_view d') ` {x \<in> nodes (ndata ino'). is_index x} \<subseteq> blks ino' d'"
    by (auto simp: blks_def)
  have keep: "dev_view d' b = dev_view d b" if "b \<notin> bm_region bm" "b \<notin> blks ino' d'" for b
    using gd(6)[OF that(1)] ind that(2) by blast
  have "dev_view d' b = dev_view d b" if "b \<in> others bm ino d" for b
  proof (rule keep)
    show "b \<notin> bm_region bm" using that used_blks_area(4)[OF p(1)] by (auto simp: others_def)
    show "b \<notin> blks ino' d'" using that oth by (auto simp: others_def)
  qed
  moreover have "dev_view d' b = dev_view d b" if "unat b < unat (data_segment_offset bm)" "b \<notin> bm_region bm" for b
    using keep[OF that(2)] blks_high[OF inv'] that(1) by (meson leD)
  ultimately show ?thesis using inv' geo oth by (auto simp: own_step_def)
qed

text \<open>The attributes of an inode that its operations on data leave alone.\<close>

definition same_attrs :: "DiskInode \<Rightarrow> DiskInode \<Rightarrow> bool" where
  "same_attrs ino ino' \<longleftrightarrow> di_uid ino' = di_uid ino \<and> di_gid ino' = di_gid ino \<and> link_cnt ino' = link_cnt ino \<and>
     di_mode ino' = di_mode ino \<and> di_type ino' = di_type ino"

lemma same_attrs_refl [simp]: "same_attrs ino ino"
  by (simp add: same_attrs_def)

lemma same_attrs_trans: "same_attrs a b \<Longrightarrow> same_attrs b c \<Longrightarrow> same_attrs a c"
  by (simp add: same_attrs_def)

lemma same_attrs_meta [simp]: "same_attrs ino (update_meta f now ino)"
  by (simp add: same_attrs_def update_meta_def Let_def)

lemma resize_grow_own:
  assumes inv: "file_inv bm ino d" and sz: "di_size ino \<le> sz"
    and rm: "room bm (dev_view d) (tree_size (unat (data_blocks sz)) - tree_size (ndata ino) + k)"
  obtains ino' d' where "resize sz bm None now ino d = (kSuccess, ino', d')" "own_step bm {} ino d ino' d'"
    "di_size ino' = sz" "same_attrs ino ino'" "room bm (dev_view d') k"
    "\<forall>p < unat (di_size ino). file_byte ino' (dev_view d') p = file_byte ino (dev_view d) p"
proof -
  define ino1 where "ino1 = (update_meta 7 now ino)\<lparr>di_size := sz\<rparr>"
  obtain ds i1 i2 d' where r:
    "resize sz bm None now ino d = (kSuccess, ino1\<lparr>direct := ds, indirect1 := i1, indirect2 := i2\<rparr>, d')"
    "grown bm ino (nodes (ndata ino)) (dev_view d) (ino1\<lparr>direct := ds, indirect1 := i1, indirect2 := i2\<rparr>)
       (nodes (unat (data_blocks sz))) (dev_view d')"
    "file_inv bm (ino1\<lparr>direct := ds, indirect1 := i1, indirect2 := i2\<rparr>) d'" "dstep bm d d' k"
    unfolding ino1_def by (rule resize_grow_ok[OF inv sz refl refl rm])
  define ino' where "ino' = ino1\<lparr>direct := ds, indirect1 := i1, indirect2 := i2\<rparr>"
  have s: "di_size ino' = sz" by (simp add: ino'_def ino1_def)
  have g: "grown bm ino (nodes (ndata ino)) (dev_view d) ino' (nodes (ndata ino')) (dev_view d')"
    using r(2) s by (simp add: ino'_def)
  have "own_step bm {} ino d ino' d'"
    by (rule grown_own[OF inv g]) (use r(3) dstepD(2)[OF r(4)] in \<open>simp_all add: ino'_def\<close>)
  moreover have "\<forall>p < unat (di_size ino). file_byte ino' (dev_view d') p = file_byte ino (dev_view d) p"
    using grown_bytes[OF file_inv_parts(1)[OF inv] g] size_data_blocks[of "di_size ino"] by (meson order_less_le_trans)
  moreover have "same_attrs ino ino'" by (simp add: ino'_def ino1_def same_attrs_def update_meta_def Let_def)
  ultimately show ?thesis using that[of ino' d'] r(1) s dstepD(3)[OF r(4)] by (simp add: ino'_def)
qed

definition pos_blks :: "Position option \<Rightarrow> blk_id_t set" where
  "pos_blks inode = (case inode of None \<Rightarrow> {} | Some pos \<Rightarrow> {pos_block_id pos})"

lemma resize_same_own:
  assumes inv: "file_inv bm ino d" and sz: "data_blocks sz = data_blocks (di_size ino)"
    and po: "\<forall>pos. inode = Some pos \<longrightarrow> pos_ok bm pos"
  obtains ino' d' where "resize sz bm inode now ino d = (kSuccess, ino', d')" "own_step bm (pos_blks inode) ino d ino' d'"
    "di_size ino' = sz" "same_attrs ino ino'"
    "\<forall>p < 4096 * ndata ino. file_byte ino' (dev_view d') p = file_byte ino (dev_view d) p"
    "\<forall>pos. inode = Some pos \<longrightarrow> dev_view d' (pos_block_id pos) =
       put_inode (dev_view d (pos_block_id pos)) (unat (pos_block_offset pos)) ino'"
    "used_blks bm (dev_view d') = used_blks bm (dev_view d)" "\<forall>b. b \<notin> pos_blks inode \<longrightarrow> dev_view d' b = dev_view d b"
proof -
  define ino1 where "ino1 = (update_meta 7 now ino)\<lparr>di_size := sz\<rparr>"
  define d' where "d' = write_inode_opt inode ino1 d"
  note p = file_inv_parts[OF inv] and w = write_inode_opt_ok[OF file_inv_parts(1)[OF inv] po, where ino = ino1]
  have r: "resize sz bm inode now ino d = (kSuccess, ino1, d')"
    using sz total_blocks_eq_iff[of "di_size ino" sz] by (simp add: resize_def Let_def ino1_def d'_def)
  have nb1: "node_blk ino1 = node_blk ino" by (intro ext) (simp add: ino1_def)
  have out: "dev_view d' b = dev_view d b" if "b \<notin> pos_blks inode" for b
    using w(4) that by (auto simp: d'_def pos_blks_def split: option.splits)
  have lowX: "unat b < unat (data_segment_offset bm)" "b \<notin> bm_region bm" if "b \<in> pos_blks inode" for b
    using po that by (auto simp: pos_blks_def pos_ok_def split: option.splits)
  have inX: "b \<notin> pos_blks inode" if "b \<in> blks ino d" for b
    using blks_high[OF inv that] lowX(1) by (meson leD)
  have nb: "node_blk ino (dev_view d') x = node_blk ino (dev_view d) x" if "x \<in> nodes (ndata ino)" for x
    by (rule node_blk_cong[OF _ that]) (use out inX in \<open>auto simp: blks_def nodes_def\<close>)
  have s: "own_step bm (pos_blks inode) ino d ino d'"
  proof (rule own_step_dev[OF inv])
    show "dev_ok d'" using w(1) data_okD(2) by (auto simp: d'_def)
    show "same_geometry d d'" using w(2) by (simp add: d'_def)
    show "dev_view d' b = dev_view d b"
      if "unat b \<ge> unat (data_segment_offset bm) \<or> b \<notin> pos_blks inode" for b
      using that lowX(1)[of b] out[of b] by (meson leD)
    show "\<forall>b \<in> pos_blks inode. b \<notin> bm_region bm" using lowX(2) by blast
  qed (rule nb)
  have "blks ino1 d' = blks ino d'" "file_inv bm ino1 d' = file_inv bm ino d'"
    using sz nb1 by (simp_all add: blks_def file_inv_def tree_ok_def ind_zero_def ino1_def)
  then have s1: "own_step bm (pos_blks inode) ino d ino1 d'" using s by (simp add: own_step_def others_def)
  have "file_byte ino1 (dev_view d') q = file_byte ino (dev_view d) q" if "q < 4096 * ndata ino" for q
  proof -
    have x: "Data (q div 4096) \<in> nodes (ndata ino)" using that by (simp add: less_mult_imp_div_less mult.commute)
    then have "node_blk ino (dev_view d) (Data (q div 4096)) \<in> blks ino d" by (simp add: blks_def)
    then show ?thesis using nb[OF x] nb1 out inX by (simp add: file_byte_def kBlockSize_def)
  qed
  moreover have "same_attrs ino ino1" by (simp add: ino1_def same_attrs_def update_meta_def Let_def)
  moreover have "di_size ino1 = sz" by (simp add: ino1_def)
  moreover have "used_blks bm (dev_view d') = used_blks bm (dev_view d)" using w(3) by (simp add: d'_def)
  ultimately show ?thesis using that[OF r s1] w(5) out by (simp add: d'_def)
qed

lemma resize_shrink_attrs:
  assumes inv: "file_inv bm ino d" and lt: "data_blocks sz < data_blocks (di_size ino)" "unat (data_blocks sz) \<le> 1047"
    and po: "\<forall>pos. inode = Some pos \<longrightarrow> pos_ok bm pos" and r: "resize sz bm inode now ino d = (kSuccess, ino', d')"
  shows "same_attrs ino ino'"
proof -
  define ino1 where "ino1 = (update_meta 7 now ino)\<lparr>di_size := sz\<rparr>"
  have t1: "data_ok bm d" "tree_ok bm ino1 (nodes (ndata ino)) (dev_view d)" "ind_zero ino1 (ndata ino)"
    using inv by (auto simp: file_inv_def ino1_def ind_zero_def)
  have l: "unat (data_blocks sz) < ndata ino" using lt(1) by (simp add: word_less_nat_alt)
  obtain ds d2 where "decrease (ndata ino) (unat (data_blocks sz)) bm inode ino1 d = (kSuccess, ino1\<lparr>direct := ds,
      indirect1 := if unat (data_blocks sz) \<le> 23 then 0 else indirect1 ino1, indirect2 := 0\<rparr>, d2)"
    by (rule decrease_ok[OF t1 l lt(2) po])
  moreover have "total_blocks (di_size ino) \<noteq> total_blocks sz" "total_blocks sz < total_blocks (di_size ino)"
    using lt(1) by (auto simp: total_blocks_less_iff total_blocks_eq_iff)
  ultimately have "ino' = ino1\<lparr>direct := ds,
      indirect1 := if unat (data_blocks sz) \<le> 23 then 0 else indirect1 ino1, indirect2 := 0\<rparr>"
    using r by (simp add: resize_def Let_def ino1_def[symmetric])
  then show ?thesis by (simp add: same_attrs_def ino1_def update_meta_def Let_def)
qed

text \<open>Giving up the nodes beyond data block \<open>n\<close> is a step of the file on its own blocks.\<close>

lemma shrunk_own_step:
  assumes inv: "file_inv bm ino d" and le: "n \<le> ndata ino" and po: "\<forall>pos. inode = Some pos \<longrightarrow> pos_ok bm pos"
    and r: "file_inv bm ino' d'" "same_geometry d d'" "ndata ino' = n"
      "\<forall>x \<in> nodes n. node_blk ino' (dev_view d') x = node_blk ino (dev_view d) x"
      "used_blks bm (dev_view d') = used_blks bm (dev_view d) - node_blk ino (dev_view d) ` (nodes (ndata ino) - nodes n)"
      "\<forall>c. c \<notin> bm_region bm \<longrightarrow> (\<forall>pos. inode = Some pos \<longrightarrow> c \<noteq> pos_block_id pos) \<longrightarrow>
         (c = indirect1 ino \<longrightarrow> c = 0) \<longrightarrow> dev_view d' c = dev_view d c"
  shows "own_step bm (pos_blks inode) ino d ino' d'"
proof -
  note p = file_inv_parts[OF inv]
  define gone where "gone = node_blk ino (dev_view d) ` (nodes (ndata ino) - nodes n)"
  have sub: "nodes n \<subseteq> nodes (ndata ino)" by (rule nodes_mono[OF le])
  have inj: "inj_on (node_blk ino (dev_view d)) (nodes (ndata ino))" using p(3) by (simp add: tree_ok_def)
  have bl: "blks ino' d' = node_blk ino (dev_view d) ` nodes n"
    using r(3,4) by (auto simp: blks_def)
  have un: "blks ino d = blks ino' d' \<union> gone" unfolding bl gone_def using sub unfolding blks_def by blast
  have dj: "blks ino' d' \<inter> gone = {}"
    unfolding bl gone_def using inj sub by (auto simp: inj_on_def)
  have oth: "others bm ino' d' = others bm ino d"
    unfolding others_def r(5)[folded gone_def] un using dj by blast
  have i1: "indirect1 ino \<in> blks ino d" if "indirect1 ino \<noteq> 0"
    using that p(4) by (force simp: blks_def ind_zero_def image_iff intro: bexI[of _ Ind1])
  have "dev_view d' b = dev_view d b" if "b \<in> others bm ino d" for b
  proof -
    have u: "b \<in> used_blks bm (dev_view d)" "b \<notin> blks ino d" using that by (auto simp: others_def)
    then have "b \<notin> bm_region bm" "b = indirect1 ino \<longrightarrow> b = 0" using used_blks_area(4)[OF p(1)] i1 by metis+
    moreover have "\<forall>pos. inode = Some pos \<longrightarrow> b \<noteq> pos_block_id pos"
      using pos_ok_used(2)[OF p(1)] po that by (auto simp: others_def)
    ultimately show ?thesis using r(6) by blast
  qed
  moreover have "dev_view d' b = dev_view d b"
    if "unat b < unat (data_segment_offset bm)" "b \<notin> bm_region bm" "b \<notin> pos_blks inode" for b
  proof -
    have "b = indirect1 ino \<longrightarrow> b = 0" using blks_high[OF inv i1] that(1) by (metis leD)
    moreover have "\<forall>pos. inode = Some pos \<longrightarrow> b \<noteq> pos_block_id pos" using that(3) by (auto simp: pos_blks_def)
    ultimately show ?thesis using r(6) that(2) by blast
  qed
  ultimately show ?thesis using r(1,2) oth by (auto simp: own_step_def)
qed

lemma resize_shrink_own:
  assumes inv: "file_inv bm ino d" and sz: "sz \<le> di_size ino" and n': "unat (data_blocks sz) \<le> 1047"
    and po: "\<forall>pos. inode = Some pos \<longrightarrow> pos_ok bm pos"
  obtains ino' d' where "resize sz bm inode now ino d = (kSuccess, ino', d')" "own_step bm (pos_blks inode) ino d ino' d'"
    "di_size ino' = sz" "same_attrs ino ino'"
    "\<forall>p < unat sz. file_byte ino' (dev_view d') p = file_byte ino (dev_view d) p"
    "\<forall>pos. inode = Some pos \<longrightarrow> dev_view d' (pos_block_id pos) =
       put_inode (dev_view d (pos_block_id pos)) (unat (pos_block_offset pos)) ino'"
proof -
  have le: "unat (data_blocks sz) \<le> ndata ino" using sz by (simp add: unat_data_blocks word_le_nat_alt div_le_mono)
  show ?thesis
  proof (cases "data_blocks sz = data_blocks (di_size ino)")
    case True
    obtain ino' d' where r: "resize sz bm inode now ino d = (kSuccess, ino', d')" "own_step bm (pos_blks inode) ino d ino' d'"
      "di_size ino' = sz" "same_attrs ino ino'"
      "\<forall>p < 4096 * ndata ino. file_byte ino' (dev_view d') p = file_byte ino (dev_view d) p"
      "\<forall>pos. inode = Some pos \<longrightarrow> dev_view d' (pos_block_id pos) =
         put_inode (dev_view d (pos_block_id pos)) (unat (pos_block_offset pos)) ino'"
      "used_blks bm (dev_view d') = used_blks bm (dev_view d)" "\<forall>b. b \<notin> pos_blks inode \<longrightarrow> dev_view d' b = dev_view d b"
      by (rule resize_same_own[OF inv True po])
    have "unat sz \<le> 4096 * ndata ino" using size_data_blocks[of sz] True by simp
    then show ?thesis using that[OF r(1-4)] r(5,6) by simp
  next
    case False
    then have lt: "unat (data_blocks sz) < ndata ino" using le by (simp add: word_unat_eq_iff)
    then have ltw: "data_blocks sz < data_blocks (di_size ino)" by (simp add: word_less_nat_alt)
    obtain ino' d' where r: "resize sz bm inode now ino d = (kSuccess, ino', d')" "file_inv bm ino' d'"
      "di_size ino' = sz" "di_type ino' = di_type ino" "link_cnt ino' = link_cnt ino" "same_geometry d d'"
      "\<forall>p < 4096 * unat (data_blocks sz). file_byte ino' (dev_view d') p = file_byte ino (dev_view d) p"
      "\<forall>x \<in> nodes (unat (data_blocks sz)). node_blk ino' (dev_view d') x = node_blk ino (dev_view d) x"
      "used_blks bm (dev_view d') = used_blks bm (dev_view d) -
         node_blk ino (dev_view d) ` (nodes (ndata ino) - nodes (unat (data_blocks sz)))"
      "\<forall>c. c \<notin> bm_region bm \<longrightarrow> (\<forall>pos. inode = Some pos \<longrightarrow> c \<noteq> pos_block_id pos) \<longrightarrow>
         (c = indirect1 ino \<longrightarrow> c = 0) \<longrightarrow> dev_view d' c = dev_view d c"
      "\<forall>pos. inode = Some pos \<longrightarrow> dev_view d' (pos_block_id pos) =
         put_inode (dev_view d (pos_block_id pos)) (unat (pos_block_offset pos)) ino'"
      by (rule resize_shrink_ok[OF inv sz refl refl n' po lt])
    have "ndata ino' = unat (data_blocks sz)" by (simp add: r(3))
    note st = shrunk_own_step[OF inv le po r(2,6) this r(8-10)]
    have "unat sz \<le> 4096 * unat (data_blocks sz)" by (rule size_data_blocks)
    then show ?thesis using that[OF r(1) st r(3) resize_shrink_attrs[OF inv ltw n' po r(1)]] r(7,11) by simp
  qed
qed

section \<open>Properties of shrinking\<close>



end
