(* ===== verification/Fs_State.thy ===== *)
theory Fs_State
  imports Inode_Ops File_Step
begin

text \<open>
  The state of a file system as a whole. \<open>lay_ok\<close> says that its areas lie one after the other on the
  device, \<open>live\<close> are the inode numbers marked in the inode bitmap, \<open>files\<close> maps them to the disk inodes
  in their slots, and \<open>fs_inv\<close> says that every one of them is well-formed and that no two share a
  block. \<open>contents\<close> is the abstraction that the operations on inodes are judged by: the type and the
  bytes of each file.
\<close>

section \<open>Families of files\<close>

definition files_ok :: "Bitmap \<Rightarrow> ('k \<rightharpoonup> DiskInode) \<Rightarrow> dev \<Rightarrow> bool" where
  "files_ok bm F d \<longleftrightarrow> (\<forall>k ino. F k = Some ino \<longrightarrow> file_inv bm ino d) \<and>
     (\<forall>j k jno kno. j \<noteq> k \<longrightarrow> F j = Some jno \<longrightarrow> F k = Some kno \<longrightarrow> blks jno d \<inter> blks kno d = {})"

lemma files_okD:
  assumes "files_ok bm F d"
  shows "F k = Some ino \<Longrightarrow> file_inv bm ino d"
    "j \<noteq> k \<Longrightarrow> F j = Some jno \<Longrightarrow> F k = Some kno \<Longrightarrow> blks jno d \<inter> blks kno d = {}"
  using assms unfolding files_ok_def by blast+

definition fbytes :: "DiskInode \<Rightarrow> dev \<Rightarrow> u8 list" where
  "fbytes ino d = map (file_byte ino (dev_view d)) [0..<unat (di_size ino)]"

lemma length_fbytes [simp]: "length (fbytes ino d) = unat (di_size ino)"
  by (simp add: fbytes_def)

lemma fbytes_nth: "p < unat (di_size ino) \<Longrightarrow> fbytes ino d ! p = file_byte ino (dev_view d) p"
  by (simp add: fbytes_def)

text \<open>A file keeps everything when the device keeps its blocks and their bits.\<close>

lemma file_kept:
  assumes inv: "file_inv bm jno d" and d': "data_ok bm d'"
    and V: "\<And>b. b \<in> blks jno d \<Longrightarrow> dev_view d' b = dev_view d b"
    and u: "blks jno d \<subseteq> used_blks bm (dev_view d')"
  shows "file_inv bm jno d'" "blks jno d' = blks jno d" "fbytes jno d' = fbytes jno d"
proof -
  have nb: "node_blk jno (dev_view d') x = node_blk jno (dev_view d) x" if "x \<in> nodes (ndata jno)" for x
    by (rule node_blk_cong[OF _ that]) (use V in \<open>auto simp: blks_def nodes_def\<close>)
  show bl: "blks jno d' = blks jno d" unfolding blks_def by (rule image_cong[OF refl nb])
  have "inj_on (node_blk jno (dev_view d')) (nodes (ndata jno))"
    using file_inv_parts(3)[OF inv] inj_on_cong[of "nodes (ndata jno)", OF nb] by (simp add: tree_ok_def)
  then have "tree_ok bm jno (nodes (ndata jno)) (dev_view d')"
    using file_inv_parts(3)[OF inv] u bl by (simp add: tree_ok_def blks_def)
  then show "file_inv bm jno d'" using d' file_inv_parts(4)[OF inv] by (simp add: file_inv_def)
  have "file_byte jno (dev_view d') p = file_byte jno (dev_view d) p" if "p < unat (di_size jno)" for p
  proof -
    have x: "Data (p div 4096) \<in> nodes (ndata jno)"
      using that size_data_blocks[of "di_size jno"] by (simp add: less_mult_imp_div_less mult.commute)
    then have "node_blk jno (dev_view d) (Data (p div 4096)) \<in> blks jno d" by (simp add: blks_def)
    then show ?thesis using nb[OF x] V by (simp add: file_byte_def kBlockSize_def)
  qed
  then show "fbytes jno d' = fbytes jno d" by (simp add: fbytes_def)
qed

text \<open>A step of one file keeps all others.\<close>

lemma files_step:
  assumes ok: "files_ok bm F d" and k: "F k = Some ino" and st: "own_step bm X ino d ino' d'"
  shows "files_ok bm (F(k \<mapsto> ino')) d'" "\<And>j jno. j \<noteq> k \<Longrightarrow> F j = Some jno \<Longrightarrow> fbytes jno d' = fbytes jno d"
proof -
  note s = own_stepD[OF st]
  have sub: "blks jno d \<subseteq> others bm ino d" if "j \<noteq> k" "F j = Some jno" for j jno
    using file_inv_parts(5)[OF files_okD(1)[OF ok that(2)]] files_okD(2)[OF ok that(1) that(2) k]
    by (auto simp: others_def)
  have used: "others bm ino d \<subseteq> used_blks bm (dev_view d')" unfolding s(3)[symmetric] by (auto simp: others_def)
  have kept: "file_inv bm jno d'" "blks jno d' = blks jno d" "fbytes jno d' = fbytes jno d" if "j \<noteq> k" "F j = Some jno" for j jno
  proof -
    have u: "blks jno d \<subseteq> used_blks bm (dev_view d')" using sub[OF that] used by blast
    have v: "dev_view d' b = dev_view d b" if "b \<in> blks jno d" for b
      by (rule s(4)[OF subsetD[OF sub[OF \<open>j \<noteq> k\<close> \<open>F j = Some jno\<close>] that]])
    show "file_inv bm jno d'" "blks jno d' = blks jno d" "fbytes jno d' = fbytes jno d"
      using file_kept[OF files_okD(1)[OF ok that(2)] file_inv_parts(1)[OF s(1)] v u] by simp_all
  qed
  show "\<And>j jno. j \<noteq> k \<Longrightarrow> F j = Some jno \<Longrightarrow> fbytes jno d' = fbytes jno d" by (rule kept(3))
  have own: "blks jno d' \<inter> blks ino' d' = {}" if "j \<noteq> k" "F j = Some jno" for j jno
    using sub[OF that] unfolding kept(2)[OF that] s(3)[symmetric] by (auto simp: others_def)
  show "files_ok bm (F(k \<mapsto> ino')) d'"
    unfolding files_ok_def
  proof (intro conjI allI impI)
    show "file_inv bm jno d'" if "(F(k \<mapsto> ino')) j = Some jno" for j jno
      using that s(1) kept(1) by (auto split: if_splits)
    show "blks ino1 d' \<inter> blks ino2 d' = {}"
      if "j1 \<noteq> j2" "(F(k \<mapsto> ino')) j1 = Some ino1" "(F(k \<mapsto> ino')) j2 = Some ino2" for j1 j2 ino1 ino2
    proof (cases "j1 = k \<or> j2 = k")
      case True
      then show ?thesis using that own[of j1 ino1] own[of j2 ino2] by (auto split: if_splits)
    next
      case False
      then have f: "F j1 = Some ino1" "F j2 = Some ino2" using that by auto
      then show ?thesis using False kept(2)[OF _ f(1)] kept(2)[OF _ f(2)] files_okD(2)[OF ok that(1) f] by simp
    qed
  qed
qed

lemma files_upd:
  assumes "files_ok bm F d" "F k = Some ino" "same_tree ino ino'"
  shows "files_ok bm (F(k \<mapsto> ino')) d"
  by (rule files_step(1)[OF assms(1,2) same_tree_step[OF files_okD(1)[OF assms(1,2)] assms(3)]])

text \<open>Writing below the data area, outside the bitmap of the data blocks, concerns no file.\<close>

lemma files_low:
  assumes ok: "files_ok bm F d" and bm: "data_ok bm d" and d': "data_ok bm d'"
    and V: "\<And>b. unat b < dev_blocks d \<Longrightarrow> b \<in> bm_region bm \<or> unat (data_segment_offset bm) \<le> unat b \<Longrightarrow>
      dev_view d' b = dev_view d b"
  shows "files_ok bm F d'" "\<And>j jno. F j = Some jno \<Longrightarrow> fbytes jno d' = fbytes jno d"
proof -
  have reg: "unat b < dev_blocks d" if "b \<in> bm_region bm" for b
    using that bm by (auto simp: data_ok_def bm_ok_def bm_region_def)
  have used: "used_blks bm (dev_view d') = used_blks bm (dev_view d)"
    by (rule used_blks_cong[OF bm]) (use V reg in blast)
  have kept: "file_inv bm jno d'" "blks jno d' = blks jno d" "fbytes jno d' = fbytes jno d" if "F j = Some jno" for j jno
  proof -
    have inv: "file_inv bm jno d" using files_okD(1)[OF ok that] .
    have "unat b < dev_blocks d" if "b \<in> blks jno d" for b
      using used_blks_area(1)[OF bm] file_inv_parts(5)[OF inv] that by blast
    then show "file_inv bm jno d'" "blks jno d' = blks jno d" "fbytes jno d' = fbytes jno d"
      using file_kept[OF inv d'] V blks_high[OF inv] file_inv_parts(5)[OF inv] used by simp_all
  qed
  show "\<And>j jno. F j = Some jno \<Longrightarrow> fbytes jno d' = fbytes jno d" by (rule kept(3))
  show "files_ok bm F d'"
    using kept(1) files_okD(2)[OF ok] kept(2) unfolding files_ok_def by metis
qed

lemma files_new:
  assumes ok: "files_ok bm F d" and bm: "data_ok bm d"
    and e: "di_size ino = 0" "DiskInode_wf ino" "indirect1 ino = 0" "indirect2 ino = 0"
  shows "files_ok bm (F(k \<mapsto> ino)) d"
proof -
  have n: "ndata ino = 0" by (simp add: e(1) unat_data_blocks)
  have nd: "nodes 0 = {}" by (auto simp: nodes_def index_nodes_def)
  have b: "blks ino d = {}" by (simp add: blks_def n nd)
  have "file_inv bm ino d"
    unfolding file_inv_def n nd using bm e(2-4) by (simp add: tree_ok_def ind_zero_def DiskInode_wf_def kInodeDirectCnt_def)
  then show ?thesis using ok b by (auto simp: files_ok_def)
qed

lemma files_del: "files_ok bm F d \<Longrightarrow> files_ok bm (F(k := None)) d"
  by (auto simp: files_ok_def)

section \<open>The layout\<close>

definition lay_ok :: "sbfs \<Rightarrow> bool" where
  "lay_ok fs \<longleftrightarrow> initBitmapAndBlock fs = fs \<and> dev_ok (device fs) \<and> dev_blocks (device fs) < 2 ^ 32 \<and>
     (let sb = super_block fs; B = unat (sb_inode_bitmap_blocks sb); D = unat (sb_data_bitmap_blocks sb)
      in unat (sb_inode_area_blocks sb) = 1024 * B \<and> 32769 * B < 2 ^ 32 \<and> 1 + 1025 * B + 32769 * D \<le> dev_blocks (device fs))"

abbreviation ibm_blocks :: "sbfs \<Rightarrow> nat" where
  "ibm_blocks fs \<equiv> unat (sb_inode_bitmap_blocks (super_block fs))"

abbreviation dbm_blocks :: "sbfs \<Rightarrow> nat" where
  "dbm_blocks fs \<equiv> unat (sb_data_bitmap_blocks (super_block fs))"

lemma init_fields:
  assumes "initBitmapAndBlock fs = fs"
  shows "inode_area_start_block fs = 1 + sb_inode_bitmap_blocks (super_block fs)"
    "inode_bitmap fs = \<lparr>start_block_id = 1, bm_num_blocks = sb_inode_bitmap_blocks (super_block fs),
       data_segment_offset = inode_area_start_block fs\<rparr>"
    "data_bitmap fs = \<lparr>start_block_id = inode_area_start_block fs + sb_inode_area_blocks (super_block fs),
       bm_num_blocks = sb_data_bitmap_blocks (super_block fs), data_segment_offset = data_area_start_block fs\<rparr>"
    "data_area_start_block fs = inode_area_start_block fs + sb_inode_area_blocks (super_block fs) +
       sb_data_bitmap_blocks (super_block fs)"
  using arg_cong[OF assms, of inode_area_start_block] arg_cong[OF assms, of inode_bitmap]
    arg_cong[OF assms, of data_bitmap] arg_cong[OF assms, of data_area_start_block]
  by (simp_all add: initBitmapAndBlock_def Let_def)

lemma lay_facts:
  assumes "lay_ok fs"
  shows "unat (inode_area_start_block fs) = 1 + ibm_blocks fs"
    "unat (start_block_id (data_bitmap fs)) = 1 + 1025 * ibm_blocks fs"
    "unat (data_segment_offset (data_bitmap fs)) = 1 + 1025 * ibm_blocks fs + dbm_blocks fs"
    "start_block_id (inode_bitmap fs) = 1" "unat (bm_num_blocks (inode_bitmap fs)) = ibm_blocks fs"
    "unat (bm_num_blocks (data_bitmap fs)) = dbm_blocks fs"
    "data_segment_offset (inode_bitmap fs) = inode_area_start_block fs"
    "1 + 1025 * ibm_blocks fs + 32769 * dbm_blocks fs \<le> dev_blocks (device fs)" "dev_blocks (device fs) < 2 ^ 32"
    "dev_ok (device fs)" "32769 * ibm_blocks fs < 2 ^ 32"
proof -
  have a: "unat (sb_inode_area_blocks (super_block fs)) = 1024 * ibm_blocks fs"
    "1 + 1025 * ibm_blocks fs + 32769 * dbm_blocks fs \<le> dev_blocks (device fs)" "dev_blocks (device fs) < 2 ^ 32"
    "initBitmapAndBlock fs = fs" "dev_ok (device fs)"
    using assms by (simp_all add: lay_ok_def Let_def)
  note i = init_fields[OF a(4)]
  show s: "unat (inode_area_start_block fs) = 1 + ibm_blocks fs"
    unfolding i(1) by (subst unat_add_u32) (use a in simp_all)
  show "unat (start_block_id (data_bitmap fs)) = 1 + 1025 * ibm_blocks fs"
    unfolding i(3) using a s by (simp add: unat_add_u32)
  show "unat (data_segment_offset (data_bitmap fs)) = 1 + 1025 * ibm_blocks fs + dbm_blocks fs"
    unfolding i(3) using a s by (simp add: i(4) unat_add_u32)
  show "start_block_id (inode_bitmap fs) = 1" "unat (bm_num_blocks (inode_bitmap fs)) = ibm_blocks fs"
    "unat (bm_num_blocks (data_bitmap fs)) = dbm_blocks fs"
    "data_segment_offset (inode_bitmap fs) = inode_area_start_block fs"
    unfolding i(2,3) by simp_all
qed (use assms in \<open>simp_all add: lay_ok_def Let_def\<close>)

lemma lay_bitmaps:
  assumes "lay_ok fs"
  shows "data_ok (data_bitmap fs) (device fs)" "bm_ok (inode_bitmap fs) (device fs)"
    "bm_slots (inode_bitmap fs) = 32768 * ibm_blocks fs" "bm_slots (data_bitmap fs) = 32768 * dbm_blocks fs"
    "b \<in> bm_region (inode_bitmap fs) \<longleftrightarrow> 1 \<le> unat b \<and> unat b < 1 + ibm_blocks fs"
    "b \<in> bm_region (data_bitmap fs) \<longleftrightarrow> 1 + 1025 * ibm_blocks fs \<le> unat b \<and>
       unat b < 1 + 1025 * ibm_blocks fs + dbm_blocks fs"
proof -
  note l = lay_facts[OF assms]
  show s: "bm_slots (data_bitmap fs) = 32768 * dbm_blocks fs" "bm_slots (inode_bitmap fs) = 32768 * ibm_blocks fs"
    using l(5,6) by (simp_all add: bm_slots_def slot_per_block_def kBlockSize_def)
  have "0 < data_segment_offset (data_bitmap fs)" using l(3) by (simp add: word_less_nat_alt)
  then show "data_ok (data_bitmap fs) (device fs)" using l s by (simp add: data_ok_def bm_ok_def)
  show "bm_ok (inode_bitmap fs) (device fs)" using l by (simp add: bm_ok_def)
qed (use lay_facts[OF assms] in \<open>auto simp: bm_region_def\<close>)

lemma lay_step':
  assumes "lay_ok fs" "dev_ok d" "dev_blocks d = dev_blocks (device fs)"
  shows "lay_ok (fs\<lparr>device := d\<rparr>)"
proof -
  have "initBitmapAndBlock (fs\<lparr>device := d\<rparr>) = (initBitmapAndBlock fs)\<lparr>device := d\<rparr>"
    by (simp add: initBitmapAndBlock_def Let_def)
  then show ?thesis using assms by (simp add: lay_ok_def Let_def)
qed

lemma lay_step:
  assumes "lay_ok fs" "dev_ok d" "same_geometry (device fs) d"
  shows "lay_ok (fs\<lparr>device := d\<rparr>)"
  by (rule lay_step'[OF assms(1,2)]) (use assms(3) in \<open>simp add: same_geometry_def\<close>)

section \<open>Inodes and their slots\<close>

text \<open>An inode number is usable when its slot lies in the inode area.\<close>

definition valid_id :: "sbfs \<Rightarrow> u32 \<Rightarrow> bool" where
  "valid_id fs i \<longleftrightarrow> 1 + ibm_blocks fs \<le> unat i \<and> unat i < 32768 * ibm_blocks fs"

definition inode_at :: "sbfs \<Rightarrow> u32 \<Rightarrow> DiskInode" where
  "inode_at fs i = (let pos = getDiskInodePos i fs
     in get_inode (dev_view (device fs) (pos_block_id pos)) (unat (pos_block_offset pos)))"

definition live :: "sbfs \<Rightarrow> u32 set" where
  "live fs = used_blks (inode_bitmap fs) (dev_view (device fs))"

definition files :: "sbfs \<Rightarrow> u32 \<rightharpoonup> DiskInode" where
  "files fs i = (if i \<in> live fs then Some (inode_at fs i) else None)"

text \<open>Block 0 holds the super block.\<close>

definition super_ok :: "sbfs \<Rightarrow> bool" where
  "super_ok fs \<longleftrightarrow> dev_view (device fs) 0 = put_super (super_block fs) \<and> SuperBlock_isValid (super_block fs)"

lemma super_step: "super_ok fs \<Longrightarrow> dev_view d 0 = dev_view (device fs) 0 \<Longrightarrow> super_ok (fs\<lparr>device := d\<rparr>)"
  by (simp add: super_ok_def)

definition fs_inv :: "sbfs \<Rightarrow> bool" where
  "fs_inv fs \<longleftrightarrow> lay_ok fs \<and> (\<forall>i \<in> live fs. valid_id fs i) \<and> files_ok (data_bitmap fs) (files fs) (device fs) \<and> super_ok fs"

definition contents :: "sbfs \<Rightarrow> u32 \<rightharpoonup> u32 \<times> u8 list" where
  "contents fs i = map_option (\<lambda>ino. (di_type ino, fbytes ino (device fs))) (files fs i)"

text \<open>The attributes of the files, apart from their times.\<close>

definition attr_of :: "DiskInode \<Rightarrow> u16 \<times> u16 \<times> u16 \<times> u16" where
  "attr_of ino = (di_mode ino, di_uid ino, di_gid ino, link_cnt ino)"

definition attrs :: "sbfs \<Rightarrow> u32 \<rightharpoonup> u16 \<times> u16 \<times> u16 \<times> u16" where
  "attrs fs i = map_option attr_of (files fs i)"

lemma attrs_files: "files fs' = (files fs)(i \<mapsto> ino') \<Longrightarrow> attrs fs' = (attrs fs)(i \<mapsto> attr_of ino')"
  by (auto simp: attrs_def)

lemma attr_same: "same_attrs ino ino' \<Longrightarrow> attr_of ino' = attr_of ino"
  by (simp add: attr_of_def same_attrs_def)

lemma attrs_step: "files fs' = (files fs)(i \<mapsto> ino') \<Longrightarrow> files fs i = Some ino \<Longrightarrow> same_attrs ino ino' \<Longrightarrow> attrs fs' = attrs fs"
  by (auto simp: attrs_def attr_same)

lemma pos_parts:
  "pos_block_id (getDiskInodePos i fs) = inode_area_start_block fs + i div 32"
  "unat (pos_block_offset (getDiskInodePos i fs)) = 128 * (unat i mod 32)"
proof -
  have "unat ((i mod 32) * 128 :: u32) = unat i mod 32 * 128"
    by (simp add: unat_word_ariths unat_mod_distrib)
  then show "unat (pos_block_offset (getDiskInodePos i fs)) = 128 * (unat i mod 32)"
    by (simp add: getDiskInodePos_def kInodesInABlock_def kBlockSize_def sizeof_DiskInode_def mult.commute)
qed (simp add: getDiskInodePos_def kInodesInABlock_def kBlockSize_def sizeof_DiskInode_def)

lemma pos_valid:
  assumes "lay_ok fs" "valid_id fs i"
  shows "unat (pos_block_id (getDiskInodePos i fs)) = 1 + ibm_blocks fs + unat i div 32"
    "pos_ok (data_bitmap fs) (getDiskInodePos i fs)" "pos_block_id (getDiskInodePos i fs) \<notin> bm_region (inode_bitmap fs)"
proof -
  note l = lay_facts[OF assms(1)] and b = lay_bitmaps[OF assms(1)]
  have i: "unat i div 32 < 1024 * ibm_blocks fs" using assms(2) by (simp add: valid_id_def less_mult_imp_div_less)
  have d: "unat (i div 32) = unat i div 32" by (simp add: unat_div)
  show p: "unat (pos_block_id (getDiskInodePos i fs)) = 1 + ibm_blocks fs + unat i div 32"
    unfolding pos_parts(1) by (subst unat_add_u32) (use i l d in simp_all)
  show "pos_ok (data_bitmap fs) (getDiskInodePos i fs)" "pos_block_id (getDiskInodePos i fs) \<notin> bm_region (inode_bitmap fs)"
    using i by (simp_all add: pos_ok_def b(5,6) p l(3))
qed

lemma pos_slots:
  assumes "lay_ok fs" "valid_id fs i" "valid_id fs j" "i \<noteq> j"
    and "pos_block_id (getDiskInodePos i fs) = pos_block_id (getDiskInodePos j fs)"
  shows "unat (pos_block_offset (getDiskInodePos i fs)) + 128 \<le> unat (pos_block_offset (getDiskInodePos j fs)) \<or>
    unat (pos_block_offset (getDiskInodePos j fs)) + 128 \<le> unat (pos_block_offset (getDiskInodePos i fs))"
proof -
  have "unat i div 32 = unat j div 32"
    using pos_valid(1)[OF assms(1,2)] pos_valid(1)[OF assms(1,3)] assms(5) by simp
  moreover have "unat i \<noteq> unat j" using assms(4) by (simp add: word_unat_eq_iff)
  ultimately have "unat i mod 32 \<noteq> unat j mod 32" by (metis div_mult_mod_eq)
  then show ?thesis unfolding pos_parts(2) by linarith
qed

text \<open>\<open>stored fs F\<close>: the slots hold the inodes of \<open>F\<close>.\<close>

definition stored :: "sbfs \<Rightarrow> (u32 \<rightharpoonup> DiskInode) \<Rightarrow> bool" where
  "stored fs F \<longleftrightarrow> (\<forall>i ino. F i = Some ino \<longrightarrow> valid_id fs i \<and> inode_at fs i = ino)"

lemma fs_invI:
  assumes "lay_ok fs" "stored fs F" "dom F = live fs" "files_ok (data_bitmap fs) F (device fs)"
    and "super_ok fs"
  shows "fs_inv fs" "files fs = F"
proof -
  have d: "i \<in> live fs \<longleftrightarrow> F i \<noteq> None" for i using assms(3) by blast
  show f: "files fs = F"
  proof
    show "files fs i = F i" for i
      using assms(2) by (cases "F i") (auto simp: files_def d stored_def)
  qed
  show "fs_inv fs" using assms(1,2,4,5) by (auto simp: fs_inv_def f d stored_def)
qed

lemma fs_invD:
  assumes "fs_inv fs"
  shows "lay_ok fs" "stored fs (files fs)" "dom (files fs) = live fs"
    "files_ok (data_bitmap fs) (files fs) (device fs)" "i \<in> live fs \<Longrightarrow> valid_id fs i"
    "i \<in> live fs \<Longrightarrow> files fs i = Some (inode_at fs i)"
    "i \<in> live fs \<Longrightarrow> file_inv (data_bitmap fs) (inode_at fs i) (device fs)" "super_ok fs"
proof -
  show fo: "files_ok (data_bitmap fs) (files fs) (device fs)" using assms by (simp add: fs_inv_def)
  show "file_inv (data_bitmap fs) (inode_at fs i) (device fs)" if "i \<in> live fs"
    by (rule files_okD(1)[OF fo, of i]) (simp add: files_def that)
qed (use assms in \<open>auto simp: fs_inv_def stored_def files_def dom_def split: if_splits\<close>)

lemma dev_upd_simps [simp]:
  "valid_id (fs\<lparr>device := d\<rparr>) i = valid_id fs i" "getDiskInodePos i (fs\<lparr>device := d\<rparr>) = getDiskInodePos i fs"
  "getDiskInodeId pos (fs\<lparr>device := d\<rparr>) = getDiskInodeId pos fs"
  by (simp_all add: valid_id_def getDiskInodePos_def getDiskInodeId_def)

definition inode_area :: "sbfs \<Rightarrow> blk_id_t set" where
  "inode_area fs = {b. 1 + ibm_blocks fs \<le> unat b \<and> unat b < 1 + 1025 * ibm_blocks fs}"

lemma pos_in_area:
  assumes "lay_ok fs" "valid_id fs i"
  shows "pos_block_id (getDiskInodePos i fs) \<in> inode_area fs"
  using pos_valid(1)[OF assms] assms(2) by (simp add: inode_area_def valid_id_def less_mult_imp_div_less)

lemma stored_put:
  assumes lay: "lay_ok fs" and st: "stored fs F" and i: "valid_id fs i" and wf: "DiskInode_wf ino"
    and p: "p = getDiskInodePos i fs"
    and V: "\<And>b. b \<in> inode_area fs \<Longrightarrow> b \<noteq> pos_block_id p \<Longrightarrow> dev_view d' b = dev_view (device fs) b"
    and V': "dev_view d' (pos_block_id p) =
       put_inode (dev_view (device fs) (pos_block_id p)) (unat (pos_block_offset p)) ino"
  shows "stored (fs\<lparr>device := d'\<rparr>) (F(i \<mapsto> ino))"
  unfolding stored_def
proof (intro allI impI)
  fix j jno assume j: "(F(i \<mapsto> ino)) j = Some jno"
  show "valid_id (fs\<lparr>device := d'\<rparr>) j \<and> inode_at (fs\<lparr>device := d'\<rparr>) j = jno"
  proof (cases "j = i")
    case True
    then show ?thesis using j i V' get_put_inode[OF wf] by (simp add: inode_at_def p)
  next
    case False
    then have jj: "valid_id fs j" "inode_at fs j = jno" using st j by (auto simp: stored_def)
    let ?q = "getDiskInodePos j fs"
    have "get_inode (dev_view d' (pos_block_id ?q)) (unat (pos_block_offset ?q)) =
        get_inode (dev_view (device fs) (pos_block_id ?q)) (unat (pos_block_offset ?q))"
    proof (cases "pos_block_id ?q = pos_block_id p")
      case True
      have "unat (pos_block_offset ?q) + 128 \<le> unat (pos_block_offset p) \<or>
          unat (pos_block_offset p) + 128 \<le> unat (pos_block_offset ?q)"
        using pos_slots[OF lay jj(1) i] False True p by simp
      then have "put_inode (dev_view (device fs) (pos_block_id p)) (unat (pos_block_offset p)) ino x =
          dev_view (device fs) (pos_block_id p) x"
        if "unat (pos_block_offset ?q) \<le> x" "x < unat (pos_block_offset ?q) + sizeof_DiskInode" for x
        using that by (intro put_inode_outside[OF wf]) (auto simp: sizeof_DiskInode_def)
      then show ?thesis unfolding True V' by (rule get_inode_cong)
    next
      case False
      then show ?thesis using V[OF pos_in_area[OF lay jj(1)]] by simp
    qed
    then show ?thesis using jj by (simp add: inode_at_def)
  qed
qed

lemma stored_same:
  assumes lay: "lay_ok fs" and st: "stored fs F"
    and V: "\<And>b. b \<in> inode_area fs \<Longrightarrow> dev_view d' b = dev_view (device fs) b"
  shows "stored (fs\<lparr>device := d'\<rparr>) F"
  using st V[OF pos_in_area[OF lay]] by (auto simp: stored_def inode_at_def Let_def)

lemma live_same:
  assumes "lay_ok fs" "\<And>b. b \<in> bm_region (inode_bitmap fs) \<Longrightarrow> dev_view d' b = dev_view (device fs) b"
  shows "live (fs\<lparr>device := d'\<rparr>) = live fs"
  using bm_used_cong[OF lay_bitmaps(2)[OF assms(1)], of "dev_view (device fs)" "dev_view d'"] assms(2)
  by (simp add: live_def used_blks_def)

lemma lay_disjoint:
  assumes "lay_ok fs"
  shows "b \<in> inode_area fs \<Longrightarrow> unat b < unat (data_segment_offset (data_bitmap fs)) \<and> b \<notin> bm_region (data_bitmap fs) \<and>
      b \<notin> bm_region (inode_bitmap fs)"
    "b \<in> bm_region (inode_bitmap fs) \<Longrightarrow> unat b < unat (data_segment_offset (data_bitmap fs)) \<and>
      b \<notin> bm_region (data_bitmap fs)"
  by (auto simp: inode_area_def lay_bitmaps[OF assms] lay_facts(3)[OF assms])

lemma lay_super:
  assumes "lay_ok fs"
  shows "0 \<notin> inode_area fs" "0 \<notin> bm_region (inode_bitmap fs)" "0 \<notin> bm_region (data_bitmap fs)"
    "unat (0 :: blk_id_t) < unat (data_segment_offset (data_bitmap fs))" "unat (0 :: blk_id_t) < dev_blocks (device fs)"
  using lay_facts(8)[OF assms] by (auto simp: inode_area_def lay_bitmaps[OF assms] lay_facts(3)[OF assms])

text \<open>The cache of the device does not matter.\<close>

lemma fs_inv_agree:
  assumes inv: "fs_inv fs" and d': "dev_ok d'" "dev_blocks d' = dev_blocks (device fs)"
    and V: "\<And>b. unat b < dev_blocks (device fs) \<Longrightarrow> dev_view d' b = dev_view (device fs) b"
  shows "fs_inv (fs\<lparr>device := d'\<rparr>)" "files (fs\<lparr>device := d'\<rparr>) = files fs" "contents (fs\<lparr>device := d'\<rparr>) = contents fs"
    "live (fs\<lparr>device := d'\<rparr>) = live fs"
proof -
  note f = fs_invD[OF inv]
  note l = lay_facts[OF f(1)] and bm = lay_bitmaps[OF f(1)]
  have lay: "lay_ok (fs\<lparr>device := d'\<rparr>)" by (rule lay_step'[OF f(1) d'])
  show lv: "live (fs\<lparr>device := d'\<rparr>) = live fs"
    by (rule live_same[OF f(1) V]) (use l(8) in \<open>simp add: bm(5)\<close>)
  have "stored (fs\<lparr>device := d'\<rparr>) (files fs)"
    by (rule stored_same[OF f(1,2) V]) (use l(8) in \<open>simp add: inode_area_def\<close>)
  moreover have fo: "files_ok (data_bitmap fs) (files fs) d'" "\<And>j jno. files fs j = Some jno \<Longrightarrow> fbytes jno d' = fbytes jno (device fs)"
    using files_low[OF f(4) bm(1) lay_bitmaps(1)[OF lay, simplified] V] by simp_all
  ultimately show "fs_inv (fs\<lparr>device := d'\<rparr>)" and fe: "files (fs\<lparr>device := d'\<rparr>) = files fs"
    using fs_invI[OF lay, of "files fs"] f(3) lv super_step[OF f(8) V[OF lay_super(5)[OF f(1)]]] by simp_all
  show "contents (fs\<lparr>device := d'\<rparr>) = contents fs"
  proof
    show "contents (fs\<lparr>device := d'\<rparr>) j = contents fs j" for j
      using fo(2) by (cases "files fs j") (simp_all add: contents_def fe)
  qed
qed

lemma fs_inv_view:
  assumes "fs_inv fs" "dev_ok d'" "same_geometry (device fs) d'" "dev_view d' = dev_view (device fs)"
  shows "fs_inv (fs\<lparr>device := d'\<rparr>)" "contents (fs\<lparr>device := d'\<rparr>) = contents fs" "live (fs\<lparr>device := d'\<rparr>) = live fs"
    "files (fs\<lparr>device := d'\<rparr>) = files fs" "attrs (fs\<lparr>device := d'\<rparr>) = attrs fs"
proof -
  show f: "files (fs\<lparr>device := d'\<rparr>) = files fs" using fs_inv_agree(2)[OF assms(1,2)] assms(3,4) by (simp add: same_geometry_def)
  show "attrs (fs\<lparr>device := d'\<rparr>) = attrs fs" by (rule ext) (simp add: attrs_def f)
qed (use fs_inv_agree[OF assms(1,2)] assms(3,4) in \<open>simp_all add: same_geometry_def\<close>)

section \<open>One operation on one inode\<close>

lemma inode_step:
  assumes inv: "fs_inv fs" and i: "i \<in> live fs" and p: "p = getDiskInodePos i fs"
    and st: "own_step (data_bitmap fs) {pos_block_id p} (inode_at fs i) (device fs) ino' d'"
    and V': "dev_view d' (pos_block_id p) =
       put_inode (dev_view (device fs) (pos_block_id p)) (unat (pos_block_offset p)) ino'"
  shows "fs_inv (fs\<lparr>device := d'\<rparr>)" "files (fs\<lparr>device := d'\<rparr>) = (files fs)(i \<mapsto> ino')"
    "contents (fs\<lparr>device := d'\<rparr>) = (contents fs)(i \<mapsto> (di_type ino', fbytes ino' d'))"
    "live (fs\<lparr>device := d'\<rparr>) = live fs"
proof -
  note f = fs_invD[OF inv] and s = own_stepD[OF st]
  let ?fs = "fs\<lparr>device := d'\<rparr>"
  have keep: "dev_view d' b = dev_view (device fs) b"
    if "b \<in> inode_area fs \<or> b \<in> bm_region (inode_bitmap fs)" "b \<noteq> pos_block_id p" for b
    using lay_disjoint[OF f(1), of b] that by (intro s(5)) auto
  have lay: "lay_ok ?fs" by (rule lay_step[OF f(1) file_inv_parts(2)[OF s(1)] s(2)])
  have sto: "stored ?fs ((files fs)(i \<mapsto> ino'))"
    by (rule stored_put[OF f(1,2) f(5)[OF i] file_inv_parts(6)[OF s(1)] p _ V']) (use keep in blast)
  show lv: "live ?fs = live fs"
    by (rule live_same[OF f(1)]) (use keep pos_valid(3)[OF f(1) f(5)[OF i]] p in blast)
  have dm: "dom ((files fs)(i \<mapsto> ino')) = live ?fs" using lv f(3) i by auto
  note fo = files_step[OF f(4) f(6)[OF i] st]
  have fok: "files_ok (data_bitmap ?fs) ((files fs)(i \<mapsto> ino')) (device ?fs)" using fo(1) by simp
  have sup: "super_ok ?fs"
    by (rule super_step[OF f(8) s(5)]) (use lay_super(1,3,4)[OF f(1)] pos_in_area[OF f(1) f(5)[OF i]] p in auto)
  show "fs_inv ?fs" and fe: "files ?fs = (files fs)(i \<mapsto> ino')" using fs_invI[OF lay sto dm fok sup] by blast+
  show "contents ?fs = (contents fs)(i \<mapsto> (di_type ino', fbytes ino' d'))"
  proof
    fix j
    show "contents ?fs j = ((contents fs)(i \<mapsto> (di_type ino', fbytes ino' d'))) j"
      using fo(2)[of j] by (cases "files fs j") (auto simp: contents_def fe)
  qed
qed

text \<open>Reading the inode, and writing it back after the data.\<close>

lemma read_inode_ok:
  assumes "dev_ok d" "unat (pos_block_id pos) < dev_blocks d"
  obtains d' where "read_inode pos buf d =
      (kSuccess, get_inode (dev_view d (pos_block_id pos)) (unat (pos_block_offset pos)), d')"
    "dev_ok d'" "same_geometry d d'" "dev_view d' = dev_view d"
proof -
  obtain d' where "dev_read (pos_block_id pos) zero_block d = (kSuccess, dev_view d (pos_block_id pos), d')" "dev_ok d'"
    "dev_view d' = dev_view d" "same_geometry d d'" by (rule dev_read_ok[OF assms])
  then show ?thesis by (intro that[of d']) (simp_all add: read_inode_def)
qed

lemma own_read:
  assumes "file_inv bm ino d" "dev_ok d'" "same_geometry d d'" "dev_view d' = dev_view d"
  shows "own_step bm {} ino d ino d'"
  by (rule own_step_dev[OF assms(1-3)]) (simp_all add: assms(4))

lemma read_live:
  assumes "fs_inv fs" "i \<in> live fs"
  obtains d' where "read_inode (getDiskInodePos i fs) buf (device fs) = (kSuccess, inode_at fs i, d')"
    "own_step (data_bitmap fs) {} (inode_at fs i) (device fs) (inode_at fs i) d'" "dev_view d' = dev_view (device fs)"
proof -
  note f = fs_invD[OF assms(1)]
  have "unat (pos_block_id (getDiskInodePos i fs)) < dev_blocks (device fs)"
    by (rule pos_ok_used(1)[OF lay_bitmaps(1)[OF f(1)] pos_valid(2)[OF f(1) f(5)[OF assms(2)]]])
  from read_inode_ok[OF lay_facts(10)[OF f(1)] this, of buf] obtain d' where
    r: "read_inode (getDiskInodePos i fs) buf (device fs) = (kSuccess, inode_at fs i, d')" "dev_ok d'"
    "same_geometry (device fs) d'" "dev_view d' = dev_view (device fs)"
    unfolding inode_at_def Let_def .
  show ?thesis by (rule that[OF r(1) own_read[OF f(7)[OF assms(2)] r(2-4)] r(4)])
qed

lemma own_write_inode:
  assumes st: "own_step bm {} ino d ino' d1" and po: "pos_ok bm pos"
  obtains d' where "write_inode pos ino' d1 = (kSuccess, d')" "own_step bm {pos_block_id pos} ino d ino' d'"
    "dev_view d' (pos_block_id pos) = put_inode (dev_view d (pos_block_id pos)) (unat (pos_block_offset pos)) ino'"
    "fbytes ino' d' = fbytes ino' d1"
proof -
  note s = own_stepD[OF st]
  note p = file_inv_parts[OF s(1)]
  obtain d' where w: "write_inode pos ino' d1 = (kSuccess, d')" "dev_ok d'" "same_geometry d1 d'"
    "dev_view d' = (dev_view d1)(pos_block_id pos :=
       put_inode (dev_view d1 (pos_block_id pos)) (unat (pos_block_offset pos)) ino')"
    by (rule write_inode_ok[OF p(2) pos_ok_used(1)[OF p(1) po]])
  have low: "unat (pos_block_id pos) < unat (data_segment_offset bm)" "pos_block_id pos \<notin> bm_region bm"
    using po by (auto simp: pos_ok_def)
  have keep: "dev_view d' b = dev_view d1 b" if "b \<in> blks ino' d1" for b
    using blks_high[OF s(1) that] low(1) w(4) by auto
  have dok: "data_ok bm d'" by (rule data_ok_same[OF p(1) w(2,3)])
  have us: "blks ino' d1 \<subseteq> used_blks bm (dev_view d')"
    using p(5) used_blks_upd(1)[OF p(1) low(2)] by (simp add: w(4))
  have nb: "node_blk ino' (dev_view d') x = node_blk ino' (dev_view d1) x" if "x \<in> nodes (ndata ino')" for x
    by (rule node_blk_cong[OF _ that]) (use keep in \<open>auto simp: blks_def nodes_def\<close>)
  have "own_step bm {pos_block_id pos} ino' d1 ino' d'"
    by (rule own_step_dev[OF s(1) w(2,3) _ nb]) (use low w(4) in auto)
  from own_step_trans[OF st this] have "own_step bm {pos_block_id pos} ino d ino' d'" by simp
  then show ?thesis
    by (rule that[OF w(1)]) (use s(5)[OF low] w(4) file_kept(3)[OF s(1) dok keep us] in simp_all)
qed

end
