(* ===== verification/Dir_Entries.thy ===== *)
theory Dir_Entries
  imports Fs_State
begin

text \<open>
  The bytes of a directory as a list of entries, each a name and an inode number. The lemmas relate it
  to what the code does with the bytes: comparing names with \<open>strcmp\<close>, the constructors of \<open>DirEntry\<close>
  and the entries written by \<open>createRoot\<close>.
\<close>

definition mem_bytes :: "mem \<Rightarrow> nat \<Rightarrow> u8 list" where
  "mem_bytes m n = map m [0..<n]"

lemma length_mem_bytes [simp]: "length (mem_bytes m n) = n"
  by (simp add: mem_bytes_def)

lemma mem_bytes_nth [simp]: "i < n \<Longrightarrow> mem_bytes m n ! i = m i"
  by (simp add: mem_bytes_def)

definition bytes_mem :: "u8 list \<Rightarrow> mem" where
  "bytes_mem bs = (\<lambda>i. bs ! i)"

definition entry_at :: "u8 list \<Rightarrow> nat \<Rightarrow> cstring \<times> u32" where
  "entry_at bs k = (entry_name (bytes_mem bs) (256 * k), DirEntry_inode (bytes_mem bs) (256 * k))"

definition entries :: "u8 list \<Rightarrow> (cstring \<times> u32) list" where
  "entries bs = map (entry_at bs) [0..<length bs div 256]"

lemma length_entries [simp]: "length (entries bs) = length bs div 256"
  by (simp add: entries_def)

text \<open>A name that fits: not empty, no NUL, at most 251 bytes.\<close>

definition name_ok :: "cstring \<Rightarrow> bool" where
  "name_ok name \<longleftrightarrow> name \<noteq> [] \<and> 0 \<notin> set name \<and> length name \<le> kMaxDirNameLength"

lemma takeWhile_nz:
  assumes "0 \<notin> set name" "length name < length xs"
  shows "takeWhile (\<lambda>c. c \<noteq> 0) xs = name \<longleftrightarrow> (\<forall>i < length name. xs ! i = name ! i) \<and> xs ! length name = (0 :: u8)"
  using assms
proof (induction name arbitrary: xs)
  case Nil
  then show ?case by (cases xs) auto
next
  case (Cons a name)
  then obtain x ys where xs: "xs = x # ys" by (cases xs) auto
  show ?case using Cons.IH[of ys] Cons.prems by (auto simp: xs less_Suc_eq_0_disj nth_Cons split: nat.splits)
qed

lemma strcmp_entry_name:
  assumes "0 \<notin> set name" "length name \<le> kMaxDirNameLength"
  shows "strcmp_eq m p name \<longleftrightarrow> entry_name m p = name"
  using takeWhile_nz[of name "map (\<lambda>i. m (p + i)) [0..<kMaxDirNameLength + 1]"] assms
  by (auto simp: strcmp_eq_def entry_name_def kMaxDirNameLength_def)

lemma entry_name_cong:
  assumes "\<And>i. i < 252 \<Longrightarrow> m (p + i) = m' (q + i)"
  shows "entry_name m p = entry_name m' q"
proof -
  have "map (\<lambda>i. m (p + i)) [0..<kMaxDirNameLength + 1] = map (\<lambda>i. m' (q + i)) [0..<kMaxDirNameLength + 1]"
    using assms by (simp add: kMaxDirNameLength_def)
  then show ?thesis by (simp only: entry_name_def)
qed

lemma get_u32_shift:
  assumes "\<And>i. i < 4 \<Longrightarrow> m (p + i) = m' (q + i)"
  shows "get_u32 m p = get_u32 m' q"
  using assms[of 0] assms[of 1] assms[of 2] assms[of 3] by (simp add: get_u32_def eval_nat_numeral)

lemma DirEntry_inode_cong:
  assumes "\<And>i. 252 \<le> i \<Longrightarrow> i < 256 \<Longrightarrow> m (p + i) = m' (q + i)"
  shows "DirEntry_inode m p = DirEntry_inode m' q"
  unfolding DirEntry_inode_def by (rule get_u32_shift) (use assms[of "252 + _"] in \<open>simp add: add.assoc\<close>)

lemma entry_at_cong:
  assumes "\<And>i. i < 256 \<Longrightarrow> bs ! (256 * k + i) = m (p + i)"
  shows "entry_at bs k = (entry_name m p, DirEntry_inode m p)"
  using assms entry_name_cong[of "bytes_mem bs" "256 * k" m p] DirEntry_inode_cong[of "bytes_mem bs" "256 * k" m p]
  by (simp add: entry_at_def bytes_mem_def)

lemma entry_name_DirEntry: "name_ok name \<Longrightarrow> entry_name (DirEntry name i) 0 = name"
  using strcmp_DirEntry[of name name i] strcmp_entry_name[of name "DirEntry name i" 0] by (simp add: name_ok_def)

lemma entries_append:
  assumes "256 dvd length old" "name_ok name"
  shows "entries (old @ mem_bytes (DirEntry name i) 256) = entries old @ [(name, i)]"
proof -
  obtain n where n: "length old = 256 * n" using assms(1) by blast
  have l: "entry_at (old @ mem_bytes (DirEntry name i) 256) k = entry_at old k" if "k < n" for k
    unfolding entry_at_cong[of old k "bytes_mem old" "256 * k", OF _, unfolded bytes_mem_def, OF refl]
    by (rule entry_at_cong) (use that n in \<open>simp add: nth_append\<close>)
  have "entry_at (old @ mem_bytes (DirEntry name i) 256) n = (name, i)"
    using entry_at_cong[of "old @ mem_bytes (DirEntry name i) 256" n "DirEntry name i" 0] n
      entry_name_DirEntry[OF assms(2)] DirEntry_inode_DirEntry by (simp add: nth_append)
  then show ?thesis using l by (simp add: entries_def n)
qed

lemma name_ok_dots [simp]: "name_ok dot" "name_ok dotdot"
  by (simp_all add: name_ok_def dot_def dotdot_def kMaxDirNameLength_def)

lemma entries_Nil [simp]: "entries [] = []"
  by (simp add: entries_def)

lemma DirEntry2_bytes:
  "mem_bytes (DirEntry2 a b) 512 = mem_bytes a 256 @ mem_bytes b 256"
  by (rule nth_equalityI) (auto simp: DirEntry2_def memcpy_def sizeof_DirEntry_def nth_append)

lemma entries_DirEntry2:
  assumes "name_ok m" "name_ok n"
  shows "entries (mem_bytes (DirEntry2 (DirEntry m i) (DirEntry n j)) 512) = [(m, i), (n, j)]"
  using entries_append[of "[]" m i] entries_append[of "mem_bytes (DirEntry m i) 256" n j] assms
  by (simp add: DirEntry2_bytes)

end
