(* ===== verification/Fs_Format.thy ===== *)
theory Fs_Format
  imports Dir_Entries
begin

text \<open>
  Creating and opening a file system (\<open>src/sbfs.cpp\<close>): the sizes of the areas, the numbering of the
  inodes, the state that \<open>create\<close> leaves on an empty disk file, and the round trip from \<open>create\<close> over
  the disk file to \<open>open\<close>.
\<close>

section \<open>The areas\<close>

lemma unat_ucast_64: "unat (ucast (x :: u32) :: u64) = unat x"
  using unat_u32_bound[of x] by (simp add: unsigned_ucast_eq take_bit_nat_eq_self)

lemma unat_ucast_32: "unat (y :: u64) < 2 ^ 32 \<Longrightarrow> unat (ucast y :: u32) = unat y"
  by (simp add: unsigned_ucast_eq take_bit_nat_eq_self)

lemma inode_area_size_nat:
  assumes "unat b < 2 ^ 22"
  shows "unat (inode_area_size b) = 1024 * unat b"
proof -
  have b8: "unat (b * 8) = 8 * unat b" using assms by (simp add: unat_word_ariths)
  have "unat (ucast (b * 8) * 4096 :: u64) = 8 * unat b * 4096"
    using assms by (simp add: unat_word_ariths unat_ucast_64 b8)
  then have "unat ((ucast (b * 8) * 4096 :: u64) div 32) = 1024 * unat b" by (simp add: unat_div)
  then show ?thesis using assms
    by (simp add: inode_area_size_def kInodesInABlock_def kBlockSize_def sizeof_DiskInode_def unat_ucast_32)
qed

lemma data_bitmap_size_nat: "unat (data_bitmap_size r) = unat r div 32769"
proof -
  have "unat r div 32769 < 2 ^ 32" using unat_u32_bound[of r] by (simp add: div_le_dividend le_less_trans)
  then have "unat ((ucast r :: u64) div 32769) < 2 ^ 32" by (simp add: unat_div unat_ucast_64)
  then show ?thesis by (simp add: data_bitmap_size_def kBlockSize_def unat_ucast_32) (simp add: unat_div unat_ucast_64)
qed

lemma data_area_size_nat:
  assumes "unat b \<le> 131071"
  shows "unat (data_area_size b) = 32768 * unat b"
proof -
  have b8: "unat (b * 8) = 8 * unat b" using assms by (simp add: unat_word_ariths)
  have "unat (ucast (b * 8) * 4096 :: u64) = 8 * unat b * 4096"
    using assms by (simp add: unat_word_ariths unat_ucast_64 b8)
  then show ?thesis using assms by (simp add: data_area_size_def kBlockSize_def unat_ucast_32)
qed

lemma createRoot_layout:
  obtains d where "createRoot dirjunk now uid gid fs =
    fs\<lparr>super_block := (super_block fs)\<lparr>sb_root_inode_pos := getDiskInodePos (fst (alloc_inode fs)) fs\<rparr>, device := d\<rparr>"
  by (rule that[of "device (createRoot dirjunk now uid gid fs)"])
    (simp add: createRoot_def Let_def alloc_inode_def alloc_data_def getDiskInodePos_def case_prod_unfold)

lemma initBitmapAndBlock_idem:
  "initBitmapAndBlock ((initBitmapAndBlock fs)\<lparr>super_block := (super_block fs)\<lparr>sb_root_inode_pos := p\<rparr>, device := d\<rparr>) =
     (initBitmapAndBlock fs)\<lparr>super_block := (super_block fs)\<lparr>sb_root_inode_pos := p\<rparr>, device := d\<rparr>"
  by (simp add: initBitmapAndBlock_def Let_def)

lemma fs_create_layout:
  fixes tot ibb :: u32
  assumes "1025 * unat ibb \<le> unat tot"
  obtains fs1 p d where "fs_create junk dirjunk now uid gid fs0 dk sz tot ibb =
      (initBitmapAndBlock fs1)\<lparr>super_block := (super_block fs1)\<lparr>sb_root_inode_pos := p\<rparr>, device := d\<rparr>"
    "sb_inode_bitmap_blocks (super_block fs1) = ibb" "sb_magic (super_block fs1) = kFSMagic"
    "unat (sb_inode_area_blocks (super_block fs1)) = 1024 * unat ibb"
    "unat (sb_data_bitmap_blocks (super_block fs1)) = (unat tot - 1025 * unat ibb) div 32769"
    "unat (sb_data_area_blocks (super_block fs1)) = 32768 * ((unat tot - 1025 * unat ibb) div 32769)"
    "fs_create junk dirjunk now uid gid fs0 dk sz tot ibb = createRoot dirjunk now uid gid (initBitmapAndBlock fs1)"
    "device fs1 = snd (dev_write 0 (put_super (super_block fs1)) (BlockDevice junk dk sz))"
proof -
  have T: "1025 * unat ibb < 2 ^ 32" using assms unat_u32_bound[of tot] by linarith
  then have b: "unat ibb < 2 ^ 22" by simp
  have ia: "unat (inode_area_size ibb) = 1024 * unat ibb" by (rule inode_area_size_nat[OF b])
  have "unat (ibb + inode_area_size ibb) = 1025 * unat ibb" using ia T by (simp add: unat_word_ariths)
  moreover have "tot - ibb - inode_area_size ibb = tot - (ibb + inode_area_size ibb)" by simp
  ultimately have r: "unat (tot - ibb - inode_area_size ibb) = unat tot - 1025 * unat ibb"
    using assms unat_sub[of "ibb + inode_area_size ibb" tot] by (simp add: word_le_nat_alt diff_diff_eq)
  have db: "unat (data_bitmap_size (tot - ibb - inode_area_size ibb)) = (unat tot - 1025 * unat ibb) div 32769"
    by (simp add: data_bitmap_size_nat r)
  then have "unat (data_bitmap_size (tot - ibb - inode_area_size ibb)) \<le> 131071"
    using unat_u32_bound[of tot] by simp
  note da = data_area_size_nat[OF this, unfolded db]
  define sb where "sb = (super_block fs0)\<lparr>sb_magic := kFSMagic, sb_total_blocks := tot,
    sb_inode_bitmap_blocks := ibb, sb_inode_area_blocks := inode_area_size ibb,
    sb_data_bitmap_blocks := data_bitmap_size (tot - ibb - inode_area_size ibb),
    sb_data_area_blocks := data_area_size (data_bitmap_size (tot - ibb - inode_area_size ibb)),
    sb_root_inode_pos := Position_invalid\<rparr>"
  define fs1 where "fs1 = fs0\<lparr>super_block := sb, device := snd (dev_write 0 (put_super sb) (BlockDevice junk dk sz))\<rparr>"
  have c: "fs_create junk dirjunk now uid gid fs0 dk sz tot ibb = createRoot dirjunk now uid gid (initBitmapAndBlock fs1)"
    by (simp add: fs_create_def Let_def fs1_def sb_def split: prod.splits)
  have sup: "super_block (initBitmapAndBlock fs1) = super_block fs1" by (simp add: initBitmapAndBlock_def Let_def)
  obtain d where "createRoot dirjunk now uid gid (initBitmapAndBlock fs1) = (initBitmapAndBlock fs1)\<lparr>super_block :=
      (super_block (initBitmapAndBlock fs1))\<lparr>sb_root_inode_pos :=
        getDiskInodePos (fst (alloc_inode (initBitmapAndBlock fs1))) (initBitmapAndBlock fs1)\<rparr>, device := d\<rparr>"
    by (rule createRoot_layout)
  note c' = c[unfolded this sup]
  show ?thesis by (rule that[OF c']) (use ia db da c in \<open>simp_all add: fs1_def sb_def\<close>)
qed

text \<open>\<open>create\<close> lays out the inode bitmap, the inode area, the data bitmap and the data area one after
  the other from block 1 on, with a slot for every bit of the inode bitmap and a block for every bit
  of the data bitmap. They end within the \<open>tot\<close> blocks asked for, unless the blocks left for
  data are a multiple of 32769: then the last data block is one too far, the super block not
  having been counted.\<close>

theorem layout_spec:
  fixes tot ibb :: u32 and junk dirjunk now uid gid fs0 dk sz
  assumes "1025 * unat ibb \<le> unat tot"
  defines "fs \<equiv> fs_create junk dirjunk now uid gid fs0 dk sz tot ibb"
    and "D \<equiv> (unat tot - 1025 * unat ibb) div 32769"
  shows "start_block_id (inode_bitmap fs) = 1 \<and> unat (inode_area_start_block fs) = 1 + unat ibb \<and>
     unat (start_block_id (data_bitmap fs)) = unat (inode_area_start_block fs) + 1024 * unat ibb \<and>
     unat (data_area_start_block fs) = unat (start_block_id (data_bitmap fs)) + D \<and>
     bm_slots (inode_bitmap fs) = 32 * (1024 * unat ibb) \<and> bm_slots (data_bitmap fs) = 32768 * D \<and>
     (unat (data_area_start_block fs) + bm_slots (data_bitmap fs) \<le> unat tot \<longleftrightarrow> (unat tot - 1025 * unat ibb) mod 32769 \<noteq> 0)"
proof -
  obtain fs1 p d where c: "fs = (initBitmapAndBlock fs1)\<lparr>super_block := (super_block fs1)\<lparr>sb_root_inode_pos := p\<rparr>, device := d\<rparr>"
    "sb_inode_bitmap_blocks (super_block fs1) = ibb" "sb_magic (super_block fs1) = kFSMagic"
    "unat (sb_inode_area_blocks (super_block fs1)) = 1024 * unat ibb"
    "unat (sb_data_bitmap_blocks (super_block fs1)) = D" "unat (sb_data_area_blocks (super_block fs1)) = 32768 * D"
    unfolding fs_def D_def by (rule fs_create_layout[OF assms(1)])
  have sup: "super_block fs = (super_block fs1)\<lparr>sb_root_inode_pos := p\<rparr>" by (simp add: c(1))
  have "initBitmapAndBlock fs = fs" unfolding c(1) by (rule initBitmapAndBlock_idem)
  note i = init_fields[OF this, unfolded sup, simplified, unfolded c(2)]
  have m: "unat tot - 1025 * unat ibb = 32769 * D + (unat tot - 1025 * unat ibb) mod 32769" by (simp add: D_def)
  then have le: "1025 * unat ibb + 32769 * D \<le> unat tot" using assms(1) by linarith
  have T: "unat tot < 4294967296" using unat_u32_bound[of tot] by simp
  then have B: "unat ibb \<le> 4190211" using le by linarith
  have E: "1025 * unat ibb + D < 4294967295" using B le T by (cases "D = 0") linarith+
  have u: "unat (inode_area_start_block fs) = 1 + unat ibb"
    unfolding i(1) by (subst unat_add_u32) (use le T in simp_all)
  have v: "unat (start_block_id (data_bitmap fs)) = unat (inode_area_start_block fs) + 1024 * unat ibb"
    unfolding i(3) Bitmap.select_convs by (subst unat_add_u32) (use u c(4) B in simp_all)
  have w: "unat (data_area_start_block fs) = unat (start_block_id (data_bitmap fs)) + D"
    unfolding i(4) using v unfolding i(3) Bitmap.select_convs by (subst unat_add_u32) (use u c(4,5) E in simp_all)
  have s: "bm_slots (inode_bitmap fs) = 32 * (1024 * unat ibb)" "bm_slots (data_bitmap fs) = 32768 * D"
    unfolding i(2,3) using c(5) by (simp_all add: bm_slots_def slot_per_block_def kBlockSize_def)
  have e: "unat (data_area_start_block fs) + bm_slots (data_bitmap fs) = 1 + (1025 * unat ibb + 32769 * D)"
    unfolding w v u s by simp
  have "unat (data_area_start_block fs) + bm_slots (data_bitmap fs) \<le> unat tot \<longleftrightarrow> (unat tot - 1025 * unat ibb) mod 32769 \<noteq> 0"
    unfolding e using m assms(1) by linarith
  then show ?thesis using u v w s i(2) by simp
qed

section \<open>Inode numbers\<close>

lemma getDiskInodeId_pos: "getDiskInodeId (getDiskInodePos i fs) fs = i"
proof -
  have "unat (pos_block_offset (getDiskInodePos i fs) div 128) = unat i mod 32"
    by (simp add: unat_div pos_parts(2))
  then have o: "pos_block_offset (getDiskInodePos i fs) div 128 = i mod 32"
    by (simp add: word_unat_eq_iff unat_mod)
  have "getDiskInodeId (getDiskInodePos i fs) fs = i div 32 * 32 + i mod 32"
    using o by (simp add: getDiskInodeId_def pos_parts(1) kInodesInABlock_def kBlockSize_def sizeof_DiskInode_def)
  also have "\<dots> = i" by (rule div_mult_mod_eq)
  finally show ?thesis .
qed

text \<open>The number of the inode in a slot is the number the slot was computed from, and the slot lies
  within its block.\<close>

theorem inode_pos_round_trip:
  "getDiskInodeId (getDiskInodePos i fs) fs = i \<and> sizeof_DiskInode dvd unat (pos_block_offset (getDiskInodePos i fs)) \<and>
     unat (pos_block_offset (getDiskInodePos i fs)) + sizeof_DiskInode \<le> kBlockSize"
  unfolding pos_parts(2) by (auto simp: getDiskInodeId_pos sizeof_DiskInode_def kBlockSize_def)

section \<open>Creating the root\<close>

lemma blank_used:
  assumes "bm_ok bm d" "\<And>b. b \<in> bm_region bm \<Longrightarrow> V b = zero_block"
  shows "bm_used bm V = {}"
proof -
  have "bm_used bm V = bm_used bm (\<lambda>_. zero_block)" by (rule bm_used_cong[OF assms(1)]) (simp add: assms(2))
  also have "\<dots> = {}"
    by (simp add: bm_used_def bm_bit_def blk_bit_def bit_get_u64 zero_block_def)
  finally show ?thesis .
qed

lemma alloc_first:
  assumes "bm_ok bm d" "bm_used bm (dev_view d) = {}" "0 < bm_slots bm"
  obtains d' where "bitmap_alloc bm d = (data_segment_offset bm, d')" "bm_step bm d {0} d'"
  using bitmap_alloc_outcome[OF assms(1)] assms(2,3) that[of "snd (bitmap_alloc bm d)"]
  by (cases "bitmap_alloc bm d") (auto simp: alloc_outcome_def lessThan_empty_iff)

lemma used_first:
  assumes "bm_used bm V = {0}"
  shows "used_blks bm V = {data_segment_offset bm}"
proof -
  have "unat off \<le> unat b \<and> unat b - unat off = 0 \<longleftrightarrow> b = off" for b off :: u32
    by (metis diff_is_0_eq diff_self_eq_0 le_antisym order_refl word_unat_eq_iff)
  then show ?thesis by (simp add: used_blks_def assms)
qed

text \<open>The root directory and its block.\<close>

definition root_block :: "mem \<Rightarrow> u32 \<Rightarrow> mem" where
  "root_block dirjunk i = put_u32 (strcpy (put_u32 (strcpy (DirBlock_new dirjunk) 0 dot) 252 i) sizeof_DirEntry dotdot)
     (sizeof_DirEntry + 252) i"

definition root_inode :: "u32 \<Rightarrow> u16 \<Rightarrow> u16 \<Rightarrow> u32 \<Rightarrow> DiskInode" where
  "root_inode now uid gid b = (let ino = DiskInode_new kDirectory now uid gid
     in ino\<lparr>di_size := 512, di_mode := di_mode ino OR 0x1ED, direct := (direct ino)[0 := b]\<rparr>)"

lemma createRoot_unfold:
  assumes "bitmap_alloc (inode_bitmap fs) (device fs) = (i, d1)" "bitmap_alloc (data_bitmap fs) d1 = (b, d2)"
    and "write_inode (getDiskInodePos i fs) (root_inode now uid gid b) d2 = (r3, d3)"
    and "dev_write b (root_block dirjunk i) d3 = (r4, d4)"
    and "dev_write 0 (put_super ((super_block fs)\<lparr>sb_root_inode_pos := getDiskInodePos i fs\<rparr>)) d4 = (r5, d5)"
  shows "createRoot dirjunk now uid gid fs =
    fs\<lparr>super_block := (super_block fs)\<lparr>sb_root_inode_pos := getDiskInodePos i fs\<rparr>, device := d5\<rparr>"
  using assms by (simp add: createRoot_def alloc_inode_def alloc_data_def Let_def root_inode_def root_block_def
      sizeof_DirEntry_def)

lemma root_inode_inv:
  assumes "data_ok bm d" "used_blks bm (dev_view d) = {b}"
  shows "file_inv bm (root_inode now uid gid b) d" "fbytes (root_inode now uid gid b) d = mem_bytes (dev_view d b) 512"
    "DiskInode_wf (root_inode now uid gid b)" "di_type (root_inode now uid gid b) = kDirectory"
proof -
  have n: "nodes 1 = {Data 0}" by (auto simp: nodes_def index_nodes_def)
  have nd: "ndata (root_inode now uid gid b) = 1" by (simp add: unat_data_blocks root_inode_def Let_def)
  have nb: "node_blk (root_inode now uid gid b) V (Data 0) = b" for V
    by (simp add: root_inode_def Let_def DiskInode_new_def kInodeDirectCnt_def node_blk.simps)
  show "DiskInode_wf (root_inode now uid gid b)" "di_type (root_inode now uid gid b) = kDirectory"
    by (simp_all add: DiskInode_wf_def root_inode_def DiskInode_new_def Let_def)
  then show "file_inv bm (root_inode now uid gid b) d"
    unfolding file_inv_def nd n tree_ok_def ind_zero_def using assms nb
    by (simp add: DiskInode_wf_def kInodeDirectCnt_def) (simp add: root_inode_def Let_def DiskInode_new_def)
  have "file_byte (root_inode now uid gid b) (dev_view d) p = dev_view d b p" if "p < 512" for p
    using that nb by (simp add: file_byte_def kBlockSize_def del: node_blk.simps)
  then show "fbytes (root_inode now uid gid b) d = mem_bytes (dev_view d b) 512"
    by (simp add: fbytes_def mem_bytes_def root_inode_def Let_def)
qed

lemma bm_stepD:
  assumes "bm_step bm d U d'"
  shows "dev_ok d'" "same_geometry d d'" "bm_used bm (dev_view d') = U" "b \<notin> bm_region bm \<Longrightarrow> dev_view d' b = dev_view d b"
  using assms by (auto simp: bm_step_def)

text \<open>\<open>createRoot\<close> on a laid out disk whose bitmaps are empty: the allocations, then the writes.\<close>

lemma createRoot_alloc:
  assumes lay: "lay_ok fs" and B: "0 < ibm_blocks fs" and D: "0 < dbm_blocks fs"
    and blank: "\<And>b. b \<in> bm_region (inode_bitmap fs) \<union> bm_region (data_bitmap fs) \<Longrightarrow> dev_view (device fs) b = zero_block"
  obtains d1 d2 where "bitmap_alloc (inode_bitmap fs) (device fs) = (inode_area_start_block fs, d1)"
    "bitmap_alloc (data_bitmap fs) d1 = (data_area_start_block fs, d2)" "dev_ok d2" "same_geometry (device fs) d2"
    "bm_used (inode_bitmap fs) (dev_view d2) = {0}" "bm_used (data_bitmap fs) (dev_view d2) = {0}"
proof -
  note bm = lay_bitmaps[OF lay]
  have seg: "data_segment_offset (data_bitmap fs) = data_area_start_block fs"
    "data_segment_offset (inode_bitmap fs) = inode_area_start_block fs"
    using init_fields(2,3) lay by (simp_all add: lay_ok_def)
  obtain d1 where d1: "bitmap_alloc (inode_bitmap fs) (device fs) = (inode_area_start_block fs, d1)"
    "bm_step (inode_bitmap fs) (device fs) {0} d1"
    by (rule alloc_first[OF bm(2) blank_used[OF bm(2)], unfolded seg]) (use blank bm(3) B in auto)
  note s1 = bm_stepD[OF d1(2)]
  have dis: "b \<notin> bm_region (inode_bitmap fs)" if "b \<in> bm_region (data_bitmap fs)" for b
    using that by (simp add: bm(5,6))
  have bm1: "bm_ok (data_bitmap fs) d1" using bm_ok_same[OF data_okD(1)[OF bm(1)] s1(1,2)] .
  have bl1: "dev_view d1 b = zero_block" if "b \<in> bm_region (data_bitmap fs)" for b
    using s1(4)[OF dis[OF that]] blank that by simp
  obtain d2 where d2: "bitmap_alloc (data_bitmap fs) d1 = (data_area_start_block fs, d2)" "bm_step (data_bitmap fs) d1 {0} d2"
    by (rule alloc_first[OF bm1 blank_used[OF bm1 bl1], unfolded seg]) (use bm(4) D in auto)
  note s2 = bm_stepD[OF d2(2)]
  have "bm_used (inode_bitmap fs) (dev_view d2) = {0}"
    using bm_used_cong[OF bm(2), of "dev_view d2" "dev_view d1"] s2(4) dis s1(3) by blast
  then show ?thesis using that[OF d1(1) d2(1) s2(1) same_geometry_trans[OF s1(2) s2(2)]] s2(3) by simp
qed

lemma createRoot_ok:
  assumes lay: "lay_ok fs" and B: "0 < ibm_blocks fs" and D: "0 < dbm_blocks fs"
    and blank: "\<And>b. b \<in> bm_region (inode_bitmap fs) \<union> bm_region (data_bitmap fs) \<Longrightarrow> dev_view (device fs) b = zero_block"
    and i: "i = inode_area_start_block fs" and p: "p = getDiskInodePos i fs"
  obtains d where "createRoot dirjunk now uid gid fs = fs\<lparr>super_block := (super_block fs)\<lparr>sb_root_inode_pos := p\<rparr>, device := d\<rparr>"
    "dev_ok d" "same_geometry (device fs) d" "used_blks (inode_bitmap fs) (dev_view d) = {i}"
    "used_blks (data_bitmap fs) (dev_view d) = {data_area_start_block fs}"
    "dev_view d (data_area_start_block fs) = root_block dirjunk i"
    "get_inode (dev_view d (pos_block_id p)) (unat (pos_block_offset p)) = root_inode now uid gid (data_area_start_block fs)"
    "dev_view d 0 = put_super ((super_block fs)\<lparr>sb_root_inode_pos := p\<rparr>)"
proof -
  note l = lay_facts[OF lay] and bm = lay_bitmaps[OF lay]
  let ?b = "data_area_start_block fs" and ?S = "put_super ((super_block fs)\<lparr>sb_root_inode_pos := p\<rparr>)"
  have seg: "data_segment_offset (data_bitmap fs) = ?b" "data_segment_offset (inode_bitmap fs) = i"
    using init_fields(2,3) lay i by (simp_all add: lay_ok_def)
  have id: "valid_id fs i" using l(1) B by (simp add: valid_id_def i)
  have pb: "unat (pos_block_id p) < dev_blocks (device fs)"
    using pos_ok_used(1)[OF bm(1) pos_valid(2)[OF lay id]] by (simp add: p)
  have pi: "pos_block_id p \<notin> bm_region (inode_bitmap fs)" "pos_block_id p \<notin> bm_region (data_bitmap fs)"
    "unat (pos_block_id p) < unat ?b" "0 < unat (pos_block_id p)"
    using pos_valid[OF lay id] by (simp_all add: p pos_ok_def seg)
  have bb: "?b \<notin> bm_region (inode_bitmap fs)" "?b \<notin> bm_region (data_bitmap fs)" "unat ?b < dev_blocks (device fs)" "0 < unat ?b"
    using l(3,8) D unfolding seg by (simp_all add: bm(5,6))
  have z: "0 \<notin> bm_region (inode_bitmap fs)" "0 \<notin> bm_region (data_bitmap fs)" by (simp_all add: bm(5,6))
  obtain d1 d2 where al: "bitmap_alloc (inode_bitmap fs) (device fs) = (i, d1)" "bitmap_alloc (data_bitmap fs) d1 = (?b, d2)"
    "dev_ok d2" "same_geometry (device fs) d2" "bm_used (inode_bitmap fs) (dev_view d2) = {0}"
    "bm_used (data_bitmap fs) (dev_view d2) = {0}"
    unfolding i by (rule createRoot_alloc[OF lay B D blank])
  obtain d3 where d3: "write_inode p (root_inode now uid gid ?b) d2 = (kSuccess, d3)" "dev_ok d3" "same_geometry d2 d3"
    "dev_view d3 = (dev_view d2)(pos_block_id p := put_inode (dev_view d2 (pos_block_id p)) (unat (pos_block_offset p)) (root_inode now uid gid ?b))"
    by (rule write_inode_ok[OF al(3)]) (use pb al(4) in \<open>auto simp: same_geometry_def\<close>)
  obtain d4 where d4: "dev_write ?b (root_block dirjunk i) d3 = (kSuccess, d4)" "dev_ok d4"
    "dev_view d4 = (dev_view d3)(?b := root_block dirjunk i)" "same_geometry d3 d4"
    by (rule dev_write_ok[OF d3(2)]) (use bb al(4) d3(3) in \<open>auto simp: same_geometry_def\<close>)
  have "unat (0 :: u32) < dev_blocks d4" using bb(3) al(4) d3(3) d4(4) by (simp add: same_geometry_def)
  from dev_write_ok[OF d4(2) this, of ?S] obtain d5 where d5: "dev_write 0 ?S d4 = (kSuccess, d5)" "dev_ok d5"
    "dev_view d5 = (dev_view d4)(0 := ?S)" "same_geometry d4 d5" .
  have view: "dev_view d5 = (dev_view d2)(pos_block_id p := put_inode (dev_view d2 (pos_block_id p)) (unat (pos_block_offset p)) (root_inode now uid gid ?b),
      ?b := root_block dirjunk i, 0 := ?S)"
    using d3(4) d4(3) d5(3) by simp
  have low: "dev_view d5 b = dev_view d2 b" if "b \<in> bm_region (inode_bitmap fs) \<union> bm_region (data_bitmap fs)" for b
    using that pi bb z by (auto simp: view)
  have u: "bm_used (inode_bitmap fs) (dev_view d5) = {0}" "bm_used (data_bitmap fs) (dev_view d5) = {0}"
    using bm_used_cong[OF bm(2), of "dev_view d5" "dev_view d2"] bm_used_cong[OF data_okD(1)[OF bm(1)], of "dev_view d5" "dev_view d2"]
      low al(5,6) by simp_all
  have neq: "?b \<noteq> 0" "pos_block_id p \<noteq> 0" "pos_block_id p \<noteq> ?b" using bb(4) pi(3,4) by auto
  have wf: "DiskInode_wf (root_inode now uid gid ?b)"
    by (simp add: DiskInode_wf_def root_inode_def DiskInode_new_def Let_def)
  have cr: "createRoot dirjunk now uid gid fs = fs\<lparr>super_block := (super_block fs)\<lparr>sb_root_inode_pos := p\<rparr>, device := d5\<rparr>"
    unfolding p by (rule createRoot_unfold[OF al(1,2) d3(1)[unfolded p] d4(1) d5(1)[unfolded p]])
  have geo: "same_geometry (device fs) d5" using al(4) d3(3) d4(4) d5(4) by (meson same_geometry_trans)
  show ?thesis
    by (rule that[OF cr d5(2) geo used_first[OF u(1), unfolded seg] used_first[OF u(2), unfolded seg]])
      (use neq get_put_inode[OF wf] in \<open>simp_all add: view\<close>)
qed

lemma root_entries: "entries (mem_bytes (root_block dirjunk i) 512) = [(dot, i), (dotdot, i)]"
proof -
  let ?m = "root_block dirjunk i"
  have "strcmp_eq ?m 0 dot" "strcmp_eq ?m 256 dotdot"
    by (auto simp: strcmp_eq_def root_block_def put_u32_outside strcpy_def dot_def dotdot_def sizeof_DirEntry_def less_Suc_eq)
  then have n: "entry_name ?m 0 = dot" "entry_name ?m 256 = dotdot"
    by (simp_all add: strcmp_entry_name dot_def dotdot_def kMaxDirNameLength_def)
  have "get_u32 (strcpy m 256 dotdot) 252 = get_u32 m 252" for m
    by (rule get_u32_cong) (simp add: strcpy_def)
  then have d: "DirEntry_inode ?m 0 = i" "DirEntry_inode ?m 256 = i"
    by (simp_all add: DirEntry_inode_def root_block_def sizeof_DirEntry_def mem_simps)
  have e: "entry_at (mem_bytes ?m 512) 0 = (entry_name ?m 0, DirEntry_inode ?m 0)"
    "entry_at (mem_bytes ?m 512) 1 = (entry_name ?m 256, DirEntry_inode ?m 256)"
    by (rule entry_at_cong; simp)+
  show ?thesis using e n d by (simp add: entries_def upt_rec)
qed

lemma lay_root:
  assumes "lay_ok fs"
  shows "lay_ok (fs\<lparr>super_block := (super_block fs)\<lparr>sb_root_inode_pos := p\<rparr>\<rparr>)"
proof -
  have "initBitmapAndBlock (fs\<lparr>super_block := (super_block fs)\<lparr>sb_root_inode_pos := p\<rparr>\<rparr>) =
      (initBitmapAndBlock fs)\<lparr>super_block := (super_block fs)\<lparr>sb_root_inode_pos := p\<rparr>\<rparr>"
    by (simp add: initBitmapAndBlock_def Let_def)
  then show ?thesis using assms by (simp add: lay_ok_def Let_def)
qed

lemma root_only:
  assumes lay: "lay_ok fs" and i: "i = inode_area_start_block fs" "valid_id fs i"
    and u: "used_blks (inode_bitmap fs) (dev_view (device fs)) = {i}"
      "used_blks (data_bitmap fs) (dev_view (device fs)) = {b}"
    and v: "dev_view (device fs) b = root_block dirjunk i" "inode_at fs i = root_inode now uid gid b" and super: "super_ok fs"
  shows "fs_inv fs \<and> (\<exists>bs. contents fs = [i \<mapsto> (kDirectory, bs)] \<and> entries bs = [(dot, i), (dotdot, i)] \<and> length bs = 512)"
proof -
  note r = root_inode_inv[OF lay_bitmaps(1)[OF lay] u(2), where now = now and uid = uid and gid = gid]
  have fok: "files_ok (data_bitmap fs) [i \<mapsto> root_inode now uid gid b] (device fs)"
    using r(1) by (auto simp: files_ok_def split: if_splits)
  have "stored fs [i \<mapsto> root_inode now uid gid b]" using i(2) v(2) by (auto simp: stored_def split: if_splits)
  from fs_invI[OF lay this _ fok super] have inv: "fs_inv fs" "files fs = [i \<mapsto> root_inode now uid gid b]"
    by (simp_all add: live_def u(1))
  have "contents fs = [i \<mapsto> (kDirectory, mem_bytes (root_block dirjunk i) 512)]"
    using r(2,4) v(1) by (auto simp: contents_def inv(2) fun_eq_iff)
  then show ?thesis using inv(1) root_entries length_mem_bytes by blast
qed

text \<open>The state in which \<open>create\<close> calls \<open>createRoot\<close>.\<close>

definition create_args :: "disk \<Rightarrow> nat \<Rightarrow> u32 \<Rightarrow> u32 \<Rightarrow> bool" where
  "create_args dk sz tot ibb \<longleftrightarrow> no_faults dk \<and> dk_blocks dk = 0 \<and> 0 < ibb \<and> 32769 * unat ibb < 2 ^ 32 \<and> 1025 * unat ibb + 32769 \<le> unat tot \<and>
     1 + 1025 * unat ibb + 32769 * ((unat tot - 1025 * unat ibb) div 32769) \<le> sz div kBlockSize \<and> sz div kBlockSize < 2 ^ 32"

lemma create_start:
  assumes "create_args dk sz tot ibb"
  obtains fs where "fs_create junk dirjunk now uid gid fs0 dk sz tot ibb = createRoot dirjunk now uid gid fs" "lay_ok fs"
    "0 < ibm_blocks fs" "0 < dbm_blocks fs" "SuperBlock_isValid (super_block fs)" "dev_blocks (device fs) = sz div kBlockSize"
    "\<forall>b. b \<noteq> 0 \<longrightarrow> dev_view (device fs) b = zero_block" "sb_inode_bitmap_blocks (super_block fs) = ibb"
    "dbm_blocks fs = (unat tot - 1025 * unat ibb) div 32769"
proof -
  have a: "no_faults dk" "dk_blocks dk = 0" "0 < ibb" "1025 * unat ibb + 32769 \<le> unat tot" "sz div kBlockSize < 2 ^ 32"
    "1 + 1025 * unat ibb + 32769 * ((unat tot - 1025 * unat ibb) div 32769) \<le> sz div kBlockSize"
    "32769 * unat ibb < 2 ^ 32"
    using assms by (auto simp: create_args_def)
  have le: "1025 * unat ibb \<le> unat tot" using a(4) by simp
  obtain fs1 p d where c: "fs_create junk dirjunk now uid gid fs0 dk sz tot ibb =
      (initBitmapAndBlock fs1)\<lparr>super_block := (super_block fs1)\<lparr>sb_root_inode_pos := p\<rparr>, device := d\<rparr>"
    "sb_inode_bitmap_blocks (super_block fs1) = ibb" "sb_magic (super_block fs1) = kFSMagic"
    "unat (sb_inode_area_blocks (super_block fs1)) = 1024 * unat ibb"
    "unat (sb_data_bitmap_blocks (super_block fs1)) = (unat tot - 1025 * unat ibb) div 32769"
    "unat (sb_data_area_blocks (super_block fs1)) = 32768 * ((unat tot - 1025 * unat ibb) div 32769)"
    "fs_create junk dirjunk now uid gid fs0 dk sz tot ibb = createRoot dirjunk now uid gid (initBitmapAndBlock fs1)"
    "device fs1 = snd (dev_write 0 (put_super (super_block fs1)) (BlockDevice junk dk sz))"
    by (rule fs_create_layout[OF le])
  define fs where "fs = initBitmapAndBlock fs1"
  have sup: "super_block fs = super_block fs1" "device fs = device fs1" by (simp_all add: fs_def initBitmapAndBlock_def Let_def)
  have B0: "unat (0 :: u32) < dev_blocks (BlockDevice junk dk sz)" using a(6) by simp
  from dev_write_ok[OF BlockDevice_ok[OF a(1)] this, of "put_super (super_block fs1)"] obtain d1 where
    d1: "dev_write 0 (put_super (super_block fs1)) (BlockDevice junk dk sz) = (kSuccess, d1)" "dev_ok d1"
    "dev_view d1 = (dev_view (BlockDevice junk dk sz))(0 := put_super (super_block fs1))"
    "same_geometry (BlockDevice junk dk sz) d1" .
  have dA: "device fs = d1" using c(8) d1(1) sup by simp
  have "initBitmapAndBlock fs = fs" by (simp add: fs_def initBitmapAndBlock_def Let_def)
  then have lay: "lay_ok fs"
    using d1(2,4) c(2,4,5) a(5-7) unfolding lay_ok_def Let_def sup(1) dA by (simp add: same_geometry_def)
  have z: "\<forall>b. b \<noteq> 0 \<longrightarrow> dev_view (device fs) b = zero_block"
    unfolding dA d1(3) BlockDevice_view using a(2) by (simp add: ftruncate_def)
  show ?thesis
    by (rule that[OF c(7)[folded fs_def] lay _ _ _ _ z])
      (use c(2,3,5) a(3,4) d1(4) in \<open>simp_all add: sup dA[unfolded sup] word_less_nat_alt SuperBlock_isValid_def same_geometry_def\<close>)
qed

lemma create_ok:
  assumes "create_args dk sz tot ibb" and fs: "fs = fs_create junk dirjunk now uid gid fs0 dk sz tot ibb"
  shows "fs_inv fs" "ino_pos (fs_root fs) = getDiskInodePos (inode_area_start_block fs) fs"
    "\<exists>bs. contents fs = [inode_area_start_block fs \<mapsto> (kDirectory, bs)] \<and>
       entries bs = [(dot, inode_area_start_block fs), (dotdot, inode_area_start_block fs)] \<and> length bs = 512"
    "dev_view (device fs) 0 = put_super (super_block fs)" "SuperBlock_isValid (super_block fs)"
    "dev_blocks (device fs) = sz div kBlockSize" "sb_inode_bitmap_blocks (super_block fs) = ibb"
    "dbm_blocks fs = (unat tot - 1025 * unat ibb) div 32769"
    "used_blks (data_bitmap fs) (dev_view (device fs)) = {data_area_start_block fs}"
    "inode_at fs (inode_area_start_block fs) = root_inode now uid gid (data_area_start_block fs)"
proof -
  obtain fsA where c: "fs_create junk dirjunk now uid gid fs0 dk sz tot ibb = createRoot dirjunk now uid gid fsA" "lay_ok fsA"
    "0 < ibm_blocks fsA" "0 < dbm_blocks fsA" "SuperBlock_isValid (super_block fsA)" "dev_blocks (device fsA) = sz div kBlockSize"
    "\<forall>b. b \<noteq> 0 \<longrightarrow> dev_view (device fsA) b = zero_block" "sb_inode_bitmap_blocks (super_block fsA) = ibb"
    "dbm_blocks fsA = (unat tot - 1025 * unat ibb) div 32769"
    by (rule create_start[OF assms(1)])
  have blank: "dev_view (device fsA) b = zero_block"
    if "b \<in> bm_region (inode_bitmap fsA) \<union> bm_region (data_bitmap fsA)" for b
    using that lay_bitmaps(5,6)[OF c(2), of b] c(7) by (cases "b = 0") auto
  define p where "p = getDiskInodePos (inode_area_start_block fsA) fsA"
  obtain d where cr:
    "createRoot dirjunk now uid gid fsA = fsA\<lparr>super_block := (super_block fsA)\<lparr>sb_root_inode_pos := p\<rparr>, device := d\<rparr>"
    "dev_ok d" "same_geometry (device fsA) d" "used_blks (inode_bitmap fsA) (dev_view d) = {inode_area_start_block fsA}"
    "used_blks (data_bitmap fsA) (dev_view d) = {data_area_start_block fsA}"
    "dev_view d (data_area_start_block fsA) = root_block dirjunk (inode_area_start_block fsA)"
    "get_inode (dev_view d (pos_block_id p)) (unat (pos_block_offset p)) = root_inode now uid gid (data_area_start_block fsA)"
    "dev_view d 0 = put_super ((super_block fsA)\<lparr>sb_root_inode_pos := p\<rparr>)"
    by (rule createRoot_ok[OF c(2-4) blank refl p_def, of dirjunk now uid gid])
  have e: "fs = fsA\<lparr>super_block := (super_block fsA)\<lparr>sb_root_inode_pos := p\<rparr>\<rparr>\<lparr>device := d\<rparr>"
    using c(1) cr(1) by (simp add: fs)
  have lay: "lay_ok fs" unfolding e by (rule lay_step[OF lay_root[OF c(2)] cr(2)]) (use cr(3) in simp)
  show pos: "ino_pos (fs_root fs) = getDiskInodePos (inode_area_start_block fs) fs"
    by (simp add: e p_def getDiskInodePos_def fs_root_def)
  have "valid_id fs (inode_area_start_block fs)" using lay_facts(1)[OF lay] c(3) by (simp add: valid_id_def e)
  note root = root_only[OF lay refl this, of "data_area_start_block fs" dirjunk now uid gid]
  show super: "dev_view (device fs) 0 = put_super (super_block fs)" "SuperBlock_isValid (super_block fs)"
    using c(5) cr(8) by (simp_all add: e SuperBlock_isValid_def)
  show "fs_inv fs" "\<exists>bs. contents fs = [inode_area_start_block fs \<mapsto> (kDirectory, bs)] \<and>
      entries bs = [(dot, inode_area_start_block fs), (dotdot, inode_area_start_block fs)] \<and> length bs = 512"
    using root cr(4-7) super by (simp_all add: inode_at_def p_def e getDiskInodePos_def super_ok_def)
  show "dev_blocks (device fs) = sz div kBlockSize" "sb_inode_bitmap_blocks (super_block fs) = ibb"
    "dbm_blocks fs = (unat tot - 1025 * unat ibb) div 32769"
    "used_blks (data_bitmap fs) (dev_view (device fs)) = {data_area_start_block fs}"
    "inode_at fs (inode_area_start_block fs) = root_inode now uid gid (data_area_start_block fs)"
    using c(6,8,9) cr(3,5,7) by (simp_all add: e same_geometry_def inode_at_def p_def getDiskInodePos_def)
qed

text \<open>C28: \<open>create\<close> on an empty disk file, with sizes that fit, leaves a well-formed file system whose
  only file is the root directory, holding the entries \<open>"."\<close> and \<open>".."\<close> for itself, whose super block
  on the device is valid and names the root.\<close>

theorem create_makes_root:
  assumes "create_args dk sz tot ibb" "fs = fs_create junk dirjunk now uid gid fs0 dk sz tot ibb"
  shows "fs_inv fs \<and> ino_pos (fs_root fs) = getDiskInodePos (inode_area_start_block fs) fs \<and>
     (\<exists>bs. contents fs = [inode_area_start_block fs \<mapsto> (kDirectory, bs)] \<and>
        entries bs = [(dot, inode_area_start_block fs), (dotdot, inode_area_start_block fs)]) \<and>
     dev_view (device fs) 0 = put_super (super_block fs) \<and> SuperBlock_isValid (super_block fs)"
  using create_ok[OF assms] by blast

section \<open>A new file system\<close>

definition empty_disk :: disk where
  "empty_disk = \<lparr>dk_data = \<lambda>_. zero_block, dk_blocks = 0, dk_fault = \<lambda>_. False, dk_ios = 0\<rparr>"

definition blank_fs :: sbfs where
  "blank_fs = \<lparr>super_block = get_super zero_block, device = BlockDevice (\<lambda>_. zero_block) empty_disk 0,
     inode_bitmap = small_bitmap, data_bitmap = small_bitmap, inode_area_start_block = 0, data_area_start_block = 0\<rparr>"

definition new_fs :: sbfs where
  "new_fs = fs_create (\<lambda>_. zero_block) zero_block 0 0 0 blank_fs empty_disk (40000 * 4096) 40000 1"

lemma new_args: "create_args empty_disk (40000 * 4096) 40000 1"
  by (simp add: create_args_def empty_disk_def no_faults_def kBlockSize_def)

lemmas new_ok = create_ok[OF new_args, of new_fs, OF new_fs_def]

lemma new_facts:
  "lay_ok new_fs" "inode_area_start_block new_fs = 2" "ibm_blocks new_fs = 1" "dbm_blocks new_fs = 1"
  "data_area_start_block new_fs = 1027" "live new_fs = {2}" "bm_slots (data_bitmap new_fs) = 32768"
proof -
  show lay: "lay_ok new_fs" by (rule fs_invD(1)[OF new_ok(1)])
  show b: "ibm_blocks new_fs = 1" "dbm_blocks new_fs = 1" using new_ok(7,8) by simp_all
  show s: "inode_area_start_block new_fs = 2" using lay_facts(1)[OF lay] b by (simp add: word_unat_eq_iff)
  have "unat (data_area_start_block new_fs) = 1027"
    using lay_facts(3)[OF lay] b init_fields(3) lay by (simp add: lay_ok_def)
  then show "data_area_start_block new_fs = 1027" by (simp add: word_unat_eq_iff)
  show "bm_slots (data_bitmap new_fs) = 32768" using lay_bitmaps(4)[OF lay] b by simp
  have "dom (contents new_fs) = {2}" using new_ok(3) s by (auto split: if_splits)
  moreover have "dom (contents new_fs) = live new_fs" by (auto simp: contents_def files_def dom_def)
  ultimately show "live new_fs = {2}" by simp
qed

lemma used_slots:
  assumes "data_ok bm d"
  shows "bm_used bm V = (\<lambda>b. unat b - unat (data_segment_offset bm)) ` used_blks bm V"
proof
  show "bm_used bm V \<subseteq> (\<lambda>b. unat b - unat (data_segment_offset bm)) ` used_blks bm V"
  proof
    fix n assume n: "n \<in> bm_used bm V"
    then have "unat (of_nat n + data_segment_offset bm) = n + unat (data_segment_offset bm)"
      using slot_blk[OF assms] by (simp add: bm_used_def)
    then show "n \<in> (\<lambda>b. unat b - unat (data_segment_offset bm)) ` used_blks bm V"
      using n by (intro image_eqI[of _ _ "of_nat n + data_segment_offset bm"]) (simp_all add: used_blks_def)
  qed
qed (auto simp: used_blks_def)

lemma new_room: "k \<le> 32767 \<Longrightarrow> room (data_bitmap new_fs) (dev_view (device new_fs)) k"
  using used_slots[OF lay_bitmaps(1)[OF new_facts(1)], of "dev_view (device new_fs)"] new_ok(9) new_facts(7)
  by (simp add: room_def)

lemma new_root:
  obtains bs where "contents new_fs = [2 \<mapsto> (kDirectory, bs)]" "entries bs = [(dot, 2), (dotdot, 2)]" "length bs = 512"
    "unat (di_size (inode_at new_fs 2)) = 512"
proof -
  obtain bs where b: "contents new_fs = [2 \<mapsto> (kDirectory, bs)]" "entries bs = [(dot, 2), (dotdot, 2)]" "length bs = 512"
    using new_ok(3) new_facts(2) by auto
  have "bs = fbytes (inode_at new_fs 2) (device new_fs)"
    using fun_cong[OF b(1), of 2] by (auto simp: contents_def files_def split: if_splits)
  then show ?thesis using that[OF b] b(3) by simp
qed

theorem create_makes_root_witness:
  "\<exists>bs. contents new_fs = [2 \<mapsto> (kDirectory, bs)] \<and> entries bs = [(dot, 2), (dotdot, 2)]"
  using create_makes_root[OF new_args new_fs_def] by (simp add: new_facts)

theorem layout_spec_witness:
  "unat (data_area_start_block new_fs) = 1027 \<and> unat (data_area_start_block new_fs) + bm_slots (data_bitmap new_fs) \<le> 40000"
proof -
  have a: "1025 * unat (1 :: u32) \<le> unat (40000 :: u32)" by simp
  show ?thesis using layout_spec[OF a, of "\<lambda>_. zero_block" zero_block 0 0 0 blank_fs empty_disk "40000 * 4096", folded new_fs_def]
    by simp
qed

text \<open>The slot of the inode with bit \<open>n\<close> lies in the inode area except for the last \<open>1 + B\<close> bits, \<open>B\<close> the
  number of blocks of the inode bitmap: inode numbers start at \<open>1 + B\<close>, but the slots are counted from
  0, so these slots lie behind the area, from the first block of the data bitmap on.\<close>

theorem inode_slots_overrun:
  assumes "lay_ok fs" "n < bm_slots (inode_bitmap fs)"
  defines "B \<equiv> ibm_blocks fs" and "pos \<equiv> getDiskInodePos (of_nat n + data_segment_offset (inode_bitmap fs)) fs"
  shows "(pos_block_id pos \<in> inode_area fs \<longleftrightarrow> n + 1 + B < 32768 * B) \<and>
     (32768 * B \<le> n + 1 + B \<longrightarrow>
        unat (pos_block_id pos) = unat (start_block_id (data_bitmap fs)) + (n + 1 + B - 32768 * B) div 32)"
proof -
  note l = lay_facts[OF assms(1)]
  have n: "n + 1 + B < 2 ^ 32" using assms(2) lay_bitmaps(3)[OF assms(1)] l(11) by (simp add: B_def)
  have i: "unat (of_nat n + data_segment_offset (inode_bitmap fs) :: u32) = n + 1 + B"
    using n by (subst unat_add_u32) (simp_all add: l(1,7) B_def unat_of_nat_u32)
  have B: "B < 4190212" using l(8,9) by (simp add: B_def)
  have p: "unat (pos_block_id pos) = 1 + B + (n + 1 + B) div 32"
    unfolding pos_def pos_parts(1)
    by (subst unat_add_u32) (use B n in \<open>simp_all add: unat_div i l(1) B_def[symmetric]\<close>)
  have "(n + 1 + B) div 32 = 1024 * B + (n + 1 + B - 32768 * B) div 32" if "32768 * B \<le> n + 1 + B"
  proof -
    have "n + 1 + B = (n + 1 + B - 32768 * B) + 32 * (1024 * B)" using that by simp
    then show ?thesis by (metis add.commute div_mult_self2 zero_neq_numeral)
  qed
  moreover have "(n + 1 + B) div 32 < 1024 * B \<longleftrightarrow> n + 1 + B < 32768 * B" by (simp add: div_less_iff_less_mult)
  ultimately show ?thesis using p l(2) by (auto simp: inode_area_def B_def)
qed

theorem inode_slots_overrun_witness:
  "unat (pos_block_id (getDiskInodePos (of_nat 32767 + data_segment_offset (inode_bitmap new_fs)) new_fs)) =
     unat (start_block_id (data_bitmap new_fs))"
proof -
  have n: "32767 < bm_slots (inode_bitmap new_fs)" using lay_bitmaps(3)[OF new_facts(1)] new_facts(3) by simp
  note r = inode_slots_overrun[OF new_facts(1) n, unfolded new_facts(3), THEN conjunct2, THEN mp]
  show ?thesis by (rule trans[OF r]) simp_all
qed

section \<open>Opening\<close>

lemma open_super:
  assumes "initBitmapAndBlock fs = fs" "SuperBlock_isValid (super_block fs)" "dev_ok (BlockDevice junk dk sz)"
    and "unat (0 :: u32) < sz div kBlockSize" "dev_view (BlockDevice junk dk sz) 0 = put_super (super_block fs)"
  obtains d where "fs_open junk fs0 (Some sz) dk =
      Some (fs\<lparr>super_block := (super_block fs)\<lparr>sb_padding := put_super (super_block fs)\<rparr>, device := d\<rparr>)"
    "dev_ok d" "dev_view d = dev_view (BlockDevice junk dk sz)" "dev_blocks d = sz div kBlockSize"
proof -
  have z: "unat (0 :: u32) < dev_blocks (BlockDevice junk dk sz)" using assms(4) by simp
  from dev_read_ok[OF assms(3) z, of "put_super (super_block fs0)"] obtain d where
    d: "dev_read 0 (put_super (super_block fs0)) (BlockDevice junk dk sz) = (kSuccess, put_super (super_block fs), d)"
    "dev_ok d" "dev_view d = dev_view (BlockDevice junk dk sz)" "same_geometry (BlockDevice junk dk sz) d"
    unfolding assms(5) .
  define sb where "sb = (super_block fs)\<lparr>sb_padding := put_super (super_block fs)\<rparr>"
  have o: "fs_open junk fs0 (Some sz) dk = Some (initBitmapAndBlock (fs0\<lparr>super_block := sb, device := d\<rparr>))"
    using assms(2) d(1) by (simp add: fs_open_def get_put_super sb_def SuperBlock_isValid_def)
  have "initBitmapAndBlock (fs0\<lparr>super_block := sb, device := d\<rparr>) = fs\<lparr>super_block := sb, device := d\<rparr>"
    using init_fields[OF assms(1)] by (simp add: initBitmapAndBlock_def sb_def Let_def sbfs.equality)
  then show ?thesis using that o d(2-4) by (simp add: sb_def same_geometry_def)
qed

lemma put_super_again: "put_super (sb\<lparr>sb_padding := put_super sb\<rparr>) = put_super sb"
  by (rule ext) (simp add: put_super_def put_u32_def put_le_def)

lemma inv_padding:
  assumes "fs_inv fs"
  defines "fs' \<equiv> fs\<lparr>super_block := (super_block fs)\<lparr>sb_padding := put_super (super_block fs)\<rparr>\<rparr>"
  shows "fs_inv fs'" "files fs' = files fs" "contents fs' = contents fs" "fs_root fs' = fs_root fs"
    "\<And>k. getDiskInodePos k fs' = getDiskInodePos k fs" "\<And>p. getDiskInodeId p fs' = getDiskInodeId p fs"
proof -
  let ?m = "put_super (super_block fs)"
  have i: "initBitmapAndBlock fs' = (initBitmapAndBlock fs)\<lparr>super_block := (super_block fs)\<lparr>sb_padding := ?m\<rparr>\<rparr>"
    by (simp add: initBitmapAndBlock_def Let_def fs'_def)
  have lay: "lay_ok fs'" using fs_invD(1)[OF assms(1)] i by (simp add: lay_ok_def Let_def fs'_def)
  have at: "inode_at fs' j = inode_at fs j" "live fs' = live fs" "valid_id fs' j = valid_id fs j" for j
    by (simp_all add: inode_at_def live_def valid_id_def getDiskInodePos_def fs'_def)
  have dv: "device fs' = device fs" "data_bitmap fs' = data_bitmap fs" by (simp_all add: fs'_def)
  have super: "super_ok fs'" using fs_invD(8)[OF assms(1)] put_super_again by (simp add: super_ok_def fs'_def SuperBlock_isValid_def)
  show f: "files fs' = files fs" using at by (simp add: files_def fun_eq_iff)
  show "fs_inv fs'" using assms(1) lay at f dv super by (simp add: fs_inv_def)
  show "contents fs' = contents fs" by (rule ext) (simp add: contents_def f dv)
  show "fs_root fs' = fs_root fs" by (simp add: fs'_def fs_root_def)
  show "\<And>k. getDiskInodePos k fs' = getDiskInodePos k fs" "\<And>p. getDiskInodeId p fs' = getDiskInodeId p fs"
    by (simp_all add: fs'_def getDiskInodePos_def getDiskInodeId_def)
qed

text \<open>What \<open>open\<close> makes of the disk file of a file system that has been synchronised.\<close>

lemma open_ok:
  assumes "fs_inv fs" "sz = dev_blocks (device fs) * kBlockSize"
  obtains d' fs' where "dev_sync_all (device fs) = (kSuccess, d')" "fs_open junk fs0 (Some sz) (dev_file d') = Some fs'"
    "fs_inv fs'" "files fs' = files fs" "contents fs' = contents fs" "fs_root fs' = fs_root fs"
    "\<And>k. getDiskInodePos k fs' = getDiskInodePos k fs" "\<And>p. getDiskInodeId p fs' = getDiskInodeId p fs"
proof -
  note lay = fs_invD(1)[OF assms(1)] and super = fs_invD(8)[OF assms(1), unfolded super_ok_def]
  note l = lay_facts[OF lay]
  obtain d' where d': "lru_sync_all (device fs) = (kSuccess, d')" "dev_ok d'" "dev_view d' = dev_view (device fs)"
    "same_geometry (device fs) d'" "dk_data (dev_file d') = dev_view d'"
    by (rule lru_sync_all_ok[OF l(10)])
  have sz: "sz div kBlockSize = dev_blocks (device fs)" by (simp add: assms(2) kBlockSize_def)
  have V: "dev_view (BlockDevice junk (dev_file d') sz) b = dev_view (device fs) b" if "unat b < dev_blocks (device fs)" for b
    using that d'(3-5) sz by (simp add: BlockDevice_view ftruncate_def same_geometry_def)
  have nf: "no_faults (dev_file d')" using d'(2) by (simp add: dev_ok_def)
  obtain d where d: "fs_open junk fs0 (Some sz) (dev_file d') =
      Some (fs\<lparr>super_block := (super_block fs)\<lparr>sb_padding := put_super (super_block fs)\<rparr>, device := d\<rparr>)"
    "dev_ok d" "dev_view d = dev_view (BlockDevice junk (dev_file d') sz)" "dev_blocks d = sz div kBlockSize"
    by (rule open_super[OF _ conjunct2[OF super] BlockDevice_ok[OF nf], of sz])
      (use lay V[of 0] super l(8) sz in \<open>simp_all add: lay_ok_def\<close>)
  have e: "fs_open junk fs0 (Some sz) (dev_file d') =
      Some (fs\<lparr>device := d\<rparr>\<lparr>super_block := (super_block (fs\<lparr>device := d\<rparr>))\<lparr>sb_padding := put_super (super_block (fs\<lparr>device := d\<rparr>))\<rparr>\<rparr>)"
    using d(1) by simp
  note a = fs_inv_agree[OF assms(1) d(2), unfolded d(3,4) sz, OF refl V]
  note i = inv_padding[OF a(1)]
  show ?thesis
    by (rule that[of d', OF _ e i(1)]) (use i(2-6) a(2,3) d'(1) in \<open>simp_all add: dev_sync_all_def fs_root_def getDiskInodeId_def\<close>)
qed

text \<open>A file system that has been synchronised is found again by \<open>open\<close>: after \<open>sync_all\<close>, whatever
  memory the new process starts with, opening the disk file gives a well-formed file system
  with the same files and the same root.\<close>

theorem open_after_sync:
  assumes "fs_inv fs" "sz = dev_blocks (device fs) * kBlockSize"
  shows "\<exists>d'. dev_sync_all (device fs) = (kSuccess, d') \<and>
     (\<exists>fs'. fs_open junk fs0 (Some sz) (dev_file d') = Some fs' \<and> fs_inv fs' \<and> contents fs' = contents fs \<and> fs_root fs' = fs_root fs)"
  by (rule open_ok[OF assms, of junk fs0]) auto

theorem open_after_sync_witness:
  "\<exists>d' fs'. dev_sync_all (device new_fs) = (kSuccess, d') \<and>
     fs_open (\<lambda>_. zero_block) blank_fs (Some (40000 * 4096)) (dev_file d') = Some fs' \<and> contents fs' = contents new_fs"
  using open_after_sync[OF new_ok(1), of "40000 * 4096" "\<lambda>_. zero_block" blank_fs] new_ok(6) by (auto simp: kBlockSize_def)

end
