(* ===== verification/Fs_Steps.thy ===== *)
theory Fs_Steps
  imports Fs_State
begin

text \<open>
  Operations that work on several inodes hold some of them in memory while the device changes.
  \<open>held fs F S d\<close> describes the states in between: \<open>F\<close> are the files, as the operation knows them, \<open>d\<close> is
  the device, and the slots of all inodes but those in \<open>S\<close> are up to date. Each kind of step that the
  code makes (reading an inode, changing the data of one, allocating, writing an inode back,
  releasing) is a lemma, and when \<open>S\<close> is empty the file system invariant holds again.
\<close>

definition cont :: "(u32 \<rightharpoonup> DiskInode) \<Rightarrow> dev \<Rightarrow> u32 \<rightharpoonup> u32 \<times> u8 list" where
  "cont F d i = map_option (\<lambda>ino. (di_type ino, fbytes ino d)) (F i)"

lemma contents_cont: "contents fs = cont (files fs) (device fs)"
  by (rule ext) (simp add: contents_def cont_def)

definition held :: "sbfs \<Rightarrow> (u32 \<rightharpoonup> DiskInode) \<Rightarrow> u32 set \<Rightarrow> dev \<Rightarrow> bool" where
  "held fs F S d \<longleftrightarrow> lay_ok fs \<and> dev_ok d \<and> same_geometry (device fs) d \<and> files_ok (data_bitmap fs) F d \<and>
     stored (fs\<lparr>device := d\<rparr>) (F |` (- S)) \<and> (\<forall>i \<in> dom F. valid_id fs i) \<and> live (fs\<lparr>device := d\<rparr>) = dom F \<and>
     super_ok (fs\<lparr>device := d\<rparr>)"

lemma heldD:
  assumes "held fs F S d"
  shows "lay_ok fs" "dev_ok d" "same_geometry (device fs) d" "files_ok (data_bitmap fs) F d"
    "stored (fs\<lparr>device := d\<rparr>) (F |` (- S))" "F i = Some ino \<Longrightarrow> valid_id fs i" "live (fs\<lparr>device := d\<rparr>) = dom F"
    "lay_ok (fs\<lparr>device := d\<rparr>)" "data_ok (data_bitmap fs) d" "F i = Some ino \<Longrightarrow> file_inv (data_bitmap fs) ino d"
    "super_ok (fs\<lparr>device := d\<rparr>)" "0 \<notin> inode_area fs" "0 \<notin> bm_region (inode_bitmap fs)" "0 \<notin> bm_region (data_bitmap fs)"
    "unat (0 :: blk_id_t) < unat (data_segment_offset (data_bitmap fs))"
proof -
  show "lay_ok fs" "dev_ok d" "same_geometry (device fs) d" and f: "files_ok (data_bitmap fs) F d"
    and "stored (fs\<lparr>device := d\<rparr>) (F |` (- S))" "live (fs\<lparr>device := d\<rparr>) = dom F"
    "super_ok (fs\<lparr>device := d\<rparr>)"
    using assms by (auto simp: held_def)
  show "0 \<notin> inode_area fs" "0 \<notin> bm_region (inode_bitmap fs)" "0 \<notin> bm_region (data_bitmap fs)"
    "unat (0 :: blk_id_t) < unat (data_segment_offset (data_bitmap fs))"
    using lay_super(1-4) assms by (simp_all add: held_def)
  show "valid_id fs i" if "F i = Some ino" using assms that by (auto simp: held_def)
  show l: "lay_ok (fs\<lparr>device := d\<rparr>)" using lay_step assms by (simp add: held_def)
  show "data_ok (data_bitmap fs) d" using lay_bitmaps(1)[OF l] by simp
  show "file_inv (data_bitmap fs) ino d" if "F i = Some ino" by (rule files_okD(1)[OF f that])
qed

lemma restrict_UNIV [simp]: "F |` UNIV = F"
  by (simp add: restrict_map_def)

lemma held_start:
  assumes "fs_inv fs"
  shows "held fs (files fs) {} (device fs)"
  using fs_invD(1-4,8)[OF assms] fs_invD(5)[OF assms] lay_facts(10)[OF fs_invD(1)[OF assms]] by (simp add: held_def)

lemma held_end:
  assumes "held fs F {} d"
  shows "fs_inv (fs\<lparr>device := d\<rparr>)" "files (fs\<lparr>device := d\<rparr>) = F" "contents (fs\<lparr>device := d\<rparr>) = cont F d"
proof -
  note h = heldD[OF assms]
  have "stored (fs\<lparr>device := d\<rparr>) F" using h(5) by simp
  from fs_invI[OF h(8) this h(7)[symmetric] _ h(11)] h(4) show "fs_inv (fs\<lparr>device := d\<rparr>)" and f: "files (fs\<lparr>device := d\<rparr>) = F"
    by simp_all
  show "contents (fs\<lparr>device := d\<rparr>) = cont F d" by (simp add: contents_cont f)
qed

lemma restrict_upd_in: "k \<in> S \<Longrightarrow> (F(k \<mapsto> v)) |` (- S) = F |` (- S)"
  by (auto simp: restrict_map_def)

lemma stored_mono: "stored fs F \<Longrightarrow> G \<subseteq>\<^sub>m F \<Longrightarrow> stored fs G"
  by (auto simp: stored_def map_le_def dom_def)

lemma stored_view:
  assumes "lay_ok fs" "stored (fs\<lparr>device := d\<rparr>) F" "\<And>b. b \<in> inode_area fs \<Longrightarrow> dev_view d' b = dev_view d b"
  shows "stored (fs\<lparr>device := d'\<rparr>) F"
  using assms(2,3) pos_in_area[OF assms(1)] by (auto simp: stored_def inode_at_def Let_def)

text \<open>Changing the data of a file.\<close>

lemma held_step:
  assumes h: "held fs F S d" and k: "F k = Some ino" and st: "own_step (data_bitmap fs) {} ino d ino' d'"
  shows "held fs (F(k \<mapsto> ino')) (insert k S) d'"
    "cont (F(k \<mapsto> ino')) d' = (cont F d)(k \<mapsto> (di_type ino', fbytes ino' d'))"
proof -
  note hd = heldD[OF h] and s = own_stepD[OF st]
  note f = files_step[OF hd(4) k st]
  have low: "dev_view d' b = dev_view d b" if "b \<in> inode_area fs \<or> b \<in> bm_region (inode_bitmap fs)" for b
    using lay_disjoint[OF hd(1), of b] that by (intro s(5)) auto
  have super: "super_ok (fs\<lparr>device := d'\<rparr>)"
    using super_step[OF hd(11), of d'] s(5)[of 0] hd(14,15) by simp
  have "stored (fs\<lparr>device := d\<rparr>) (F |` (- insert k S))"
    by (rule stored_mono[OF hd(5)]) (auto simp: map_le_def restrict_map_def dom_def)
  then have "stored (fs\<lparr>device := d'\<rparr>) ((F(k \<mapsto> ino')) |` (- insert k S))"
    unfolding restrict_upd_in[OF insertI1] by (rule stored_view[OF hd(1)]) (use low in blast)
  moreover have "live (fs\<lparr>device := d'\<rparr>) = live (fs\<lparr>device := d\<rparr>)"
    using live_same[OF hd(8), of d'] low by simp
  ultimately show "held fs (F(k \<mapsto> ino')) (insert k S) d'"
    using f(1) hd(1,3,6,7) k super file_inv_parts(2)[OF s(1)] same_geometry_trans[OF hd(3) s(2)] by (auto simp: held_def)
  show "cont (F(k \<mapsto> ino')) d' = (cont F d)(k \<mapsto> (di_type ino', fbytes ino' d'))"
  proof
    show "cont (F(k \<mapsto> ino')) d' j = ((cont F d)(k \<mapsto> (di_type ino', fbytes ino' d'))) j" for j
      using f(2)[of j] by (cases "F j") (auto simp: cont_def)
  qed
qed

text \<open>Writes below the data area.\<close>

lemma held_low:
  assumes h: "held fs F S d" and d': "dev_ok d'" "same_geometry d d'"
    and V: "\<And>b. b \<in> bm_region (data_bitmap fs) \<or> unat (data_segment_offset (data_bitmap fs)) \<le> unat b \<Longrightarrow>
      dev_view d' b = dev_view d b"
  shows "files_ok (data_bitmap fs) F d'" "cont F d' = cont F d" "same_geometry (device fs) d'"
proof -
  note hd = heldD[OF h]
  note f = files_low[OF hd(4,9) data_ok_same[OF hd(9) d'] V]
  show "files_ok (data_bitmap fs) F d'" by (rule f(1))
  show "same_geometry (device fs) d'" by (rule same_geometry_trans[OF hd(3) d'(2)])
  show "cont F d' = cont F d"
  proof
    show "cont F d' j = cont F d j" for j using f(2)[of j] by (cases "F j") (auto simp: cont_def)
  qed
qed

text \<open>Writing an inode back.\<close>

lemma held_write:
  assumes h: "held fs F S d" and k: "F k = Some ino"
  obtains d' where "write_inode (getDiskInodePos k fs) ino d = (kSuccess, d')" "held fs F (S - {k}) d'" "cont F d' = cont F d"
proof -
  note hd = heldD[OF h]
  let ?p = "getDiskInodePos k fs"
  have v: "valid_id fs k" by (rule hd(6)[OF k])
  have pb: "unat (pos_block_id ?p) < dev_blocks d" using pos_ok_used(1)[OF hd(9) pos_valid(2)[OF hd(1) v]] .
  obtain d' where w: "write_inode ?p ino d = (kSuccess, d')" "dev_ok d'" "same_geometry d d'"
    "dev_view d' = (dev_view d)(pos_block_id ?p := put_inode (dev_view d (pos_block_id ?p)) (unat (pos_block_offset ?p)) ino)"
    by (rule write_inode_ok[OF hd(2) pb])
  have pa: "pos_block_id ?p \<in> inode_area fs" by (rule pos_in_area[OF hd(1) v])
  note dis = lay_disjoint(1)[OF hd(1) pa]
  have V: "dev_view d' b = dev_view d b"
    if "b \<in> bm_region (data_bitmap fs) \<or> unat (data_segment_offset (data_bitmap fs)) \<le> unat b" for b
    using that dis w(4) by auto
  note l = held_low[OF h w(2,3) V]
  have "stored (fs\<lparr>device := d'\<rparr>) ((F |` (- S))(k \<mapsto> ino))"
    using stored_put[OF hd(8,5), of k ino "getDiskInodePos k (fs\<lparr>device := d\<rparr>)" d'] v
      file_inv_parts(6)[OF hd(10)[OF k]] w(4) by simp
  then have "stored (fs\<lparr>device := d'\<rparr>) (F |` (- (S - {k})))"
    by (rule stored_mono) (use k in \<open>auto simp: map_le_def restrict_map_def dom_def split: if_splits\<close>)
  moreover have "live (fs\<lparr>device := d'\<rparr>) = live (fs\<lparr>device := d\<rparr>)"
    using live_same[OF hd(8), of d', simplified] dis w(4) by fastforce
  moreover have super: "super_ok (fs\<lparr>device := d'\<rparr>)"
    by (rule super_step[OF hd(11), of d', simplified]) (use w(4) pa hd(12) in auto)
  ultimately have "held fs F (S - {k}) d'" using l(1,3) hd(1,6,7) w(2) super by (auto simp: held_def)
  then show ?thesis by (rule that[OF w(1) _ l(2)])
qed

text \<open>Reading an inode.\<close>

lemma held_read:
  assumes h: "held fs F S d" and k: "F k = Some ino" "k \<notin> S"
  obtains d' where "read_inode (getDiskInodePos k fs) buf d = (kSuccess, ino, d')" "held fs F S d'" "cont F d' = cont F d"
    "dev_view d' = dev_view d"
proof -
  note hd = heldD[OF h]
  let ?p = "getDiskInodePos k fs"
  have pb: "unat (pos_block_id ?p) < dev_blocks d" using pos_ok_used(1)[OF hd(9) pos_valid(2)[OF hd(1) hd(6)[OF k(1)]]] .
  obtain d' where r: "read_inode ?p buf d = (kSuccess, get_inode (dev_view d (pos_block_id ?p)) (unat (pos_block_offset ?p)), d')"
    "dev_ok d'" "same_geometry d d'" "dev_view d' = dev_view d"
    by (rule read_inode_ok[OF hd(2) pb])
  have "get_inode (dev_view d (pos_block_id ?p)) (unat (pos_block_offset ?p)) = ino"
    using hd(5) k by (auto simp: stored_def inode_at_def Let_def)
  moreover note l = held_low[OF h r(2,3)]
  moreover have "held fs F S d'"
    using l(1,3) hd(1,2,5,6,7,11) r(2,4) by (auto simp: held_def live_def stored_def inode_at_def super_ok_def)
  ultimately show ?thesis using that r by simp
qed

text \<open>Allocating an inode.\<close>

lemma live_slots:
  assumes "lay_ok fs"
  shows "bm_used (inode_bitmap fs) (dev_view (device fs)) = (\<lambda>i. unat i - (1 + ibm_blocks fs)) ` live fs"
    "n < 32768 * ibm_blocks fs \<Longrightarrow> unat (of_nat n + inode_area_start_block fs) = n + 1 + ibm_blocks fs"
proof -
  note l = lay_facts[OF assms] and bm = lay_bitmaps[OF assms]
  show id: "unat (of_nat n + inode_area_start_block fs) = n + 1 + ibm_blocks fs" if "n < 32768 * ibm_blocks fs" for n
    using that l(1,11) by (subst unat_add_u32) (simp_all add: unat_of_nat_u32)
  have "n \<in> (\<lambda>i. unat i - (1 + ibm_blocks fs)) ` live fs" if n: "n \<in> bm_used (inode_bitmap fs) (dev_view (device fs))" for n
  proof -
    have "n < 32768 * ibm_blocks fs" using n bm(3) by (simp add: bm_used_def)
    from id[OF this] have "of_nat n + inode_area_start_block fs \<in> live fs" "n = unat (of_nat n + inode_area_start_block fs) - (1 + ibm_blocks fs)"
      using n l(1,7) by (simp_all add: live_def used_blks_def)
    then show ?thesis by blast
  qed
  then show "bm_used (inode_bitmap fs) (dev_view (device fs)) = (\<lambda>i. unat i - (1 + ibm_blocks fs)) ` live fs"
    using l(1,7) by (auto simp: live_def used_blks_def)
qed

lemma held_alloc:
  assumes h: "held fs F S d" and rm: "card (dom F) + 1 + ibm_blocks fs < 32768 * ibm_blocks fs"
    and new: "di_size ino = 0" "DiskInode_wf ino" "indirect1 ino = 0" "indirect2 ino = 0"
  obtains k d' where "bitmap_alloc (inode_bitmap fs) d = (k, d')" "k \<notin> dom F"
    "held fs (F(k \<mapsto> ino)) (insert k S) d'" "cont (F(k \<mapsto> ino)) d' = (cont F d)(k \<mapsto> (di_type ino, []))"
    "\<forall>b. b \<notin> bm_region (inode_bitmap fs) \<longrightarrow> dev_view d' b = dev_view d b"
proof -
  note hd = heldD[OF h]
  let ?U = "bm_used (inode_bitmap fs) (dev_view d)" and ?B = "ibm_blocks fs"
  note l = lay_facts[OF hd(8), simplified] and bm = lay_bitmaps[OF hd(8), simplified]
  note ls = live_slots[OF hd(8), simplified]
  have fin: "finite (dom F)" unfolding hd(7)[symmetric] by (rule finite)
  have U: "card ?U \<le> card (dom F)" unfolding ls(1) hd(7) by (rule card_image_le[OF fin])
  obtain k d' where r: "bitmap_alloc (inode_bitmap fs) d = (k, d')" by fastforce
  have "card ?U < 32768 * ?B" using U rm by linarith
  then have nf: "?U \<noteq> {..<bm_slots (inode_bitmap fs)}" unfolding bm(3) by (metis card_lessThan nat_neq_iff)
  obtain n where n: "k = of_nat n + data_segment_offset (inode_bitmap fs)" "n < bm_slots (inode_bitmap fs)" "n \<notin> ?U" "{..<n} \<subseteq> ?U"
    "bm_step (inode_bitmap fs) d (insert n ?U) d'"
    using bitmap_alloc_outcome[OF bm(2)] nf by (auto simp: alloc_outcome_def r)
  have st: "dev_ok d'" "same_geometry d d'" "bm_used (inode_bitmap fs) (dev_view d') = insert n ?U"
    "\<And>b. b \<notin> bm_region (inode_bitmap fs) \<Longrightarrow> dev_view d' b = dev_view d b"
    using n(5) by (auto simp: bm_step_def)
  have "n \<le> card ?U" using card_mono[OF bm_used_finite(1) n(4)] by simp
  then have nb: "n + 1 + ?B < 32768 * ?B" using U rm by linarith
  have k: "unat k = n + 1 + ?B" using ls(2)[of n] nb l(7) by (simp add: n(1))
  then have v: "valid_id fs k" using nb by (simp add: valid_id_def)
  have lv: "j \<in> live (fs\<lparr>device := d'\<rparr>) \<longleftrightarrow> j = k \<or> j \<in> live (fs\<lparr>device := d\<rparr>)" for j
    using k l(1,7) by (auto simp: live_def used_blks_def st(3) word_unat_eq_iff)
  have kn: "k \<notin> dom F" unfolding hd(7)[symmetric] using n(3) k l(1,7) by (simp add: live_def used_blks_def)
  have V: "dev_view d' b = dev_view d b"
    if "b \<in> bm_region (data_bitmap fs) \<or> unat (data_segment_offset (data_bitmap fs)) \<le> unat b" for b
    using that lay_disjoint(2)[OF hd(1), of b] by (intro st(4)) auto
  note lw = held_low[OF h st(1,2) V]
  have fo: "files_ok (data_bitmap fs) (F(k \<mapsto> ino)) d'"
    by (rule files_new[OF lw(1) data_ok_same[OF hd(9) st(1,2)] new])
  have "stored (fs\<lparr>device := d\<rparr>) (F |` (- insert k S))"
    by (rule stored_mono[OF hd(5)]) (auto simp: map_le_def restrict_map_def dom_def)
  then have "stored (fs\<lparr>device := d'\<rparr>) ((F(k \<mapsto> ino)) |` (- insert k S))"
    unfolding restrict_upd_in[OF insertI1]
    by (rule stored_view[OF hd(1)]) (use st(4) lay_disjoint(1)[OF hd(1)] in blast)
  then have "held fs (F(k \<mapsto> ino)) (insert k S) d'"
    using hd(1,6,7) st(1) lw(3) fo v lv super_step[OF hd(11), of d'] st(4)[OF hd(13)] by (auto simp: held_def)
  moreover have "cont (F(k \<mapsto> ino)) d' = (cont F d)(k \<mapsto> (di_type ino, []))"
    using lw(2) new(1) by (auto simp: fun_eq_iff cont_def fbytes_def)
  ultimately show ?thesis using that r kn st(4) by blast
qed

text \<open>Changing the data of a file and writing its inode at once, as \<open>resize\<close> does when it shrinks a file.\<close>

lemma held_step_pos:
  assumes h: "held fs F S d" and k: "F k = Some ino" and p: "p = getDiskInodePos k fs"
    and st: "own_step (data_bitmap fs) {pos_block_id p} ino d ino' d'"
    and V': "dev_view d' (pos_block_id p) = put_inode (dev_view d (pos_block_id p)) (unat (pos_block_offset p)) ino'"
  shows "held fs (F(k \<mapsto> ino')) (S - {k}) d'" "cont (F(k \<mapsto> ino')) d' = (cont F d)(k \<mapsto> (di_type ino', fbytes ino' d'))"
proof -
  note hd = heldD[OF h] and s = own_stepD[OF st]
  note f = files_step[OF hd(4) k st]
  have v: "valid_id fs k" by (rule hd(6)[OF k])
  have low: "dev_view d' b = dev_view d b" if "b \<in> inode_area fs \<or> b \<in> bm_region (inode_bitmap fs)" "b \<noteq> pos_block_id p" for b
    using lay_disjoint[OF hd(1), of b] that by (intro s(5)) auto
  have super: "super_ok (fs\<lparr>device := d'\<rparr>)"
    by (rule super_step[OF hd(11), of d', simplified], rule s(5)) (use hd(12,14,15) pos_in_area[OF hd(1) v] p in auto)
  have "stored (fs\<lparr>device := d'\<rparr>) ((F |` (- S))(k \<mapsto> ino'))"
    using stored_put[OF hd(8,5), of k ino' p d'] v file_inv_parts(6)[OF s(1)] V' low p by (simp add: inode_area_def)
  then have "stored (fs\<lparr>device := d'\<rparr>) ((F(k \<mapsto> ino')) |` (- (S - {k})))"
    by (rule stored_mono) (auto simp: map_le_def restrict_map_def dom_def split: if_splits)
  moreover have "live (fs\<lparr>device := d'\<rparr>) = live (fs\<lparr>device := d\<rparr>)"
    using live_same[OF hd(8), of d', simplified] low lay_disjoint(1)[OF hd(1) pos_in_area[OF hd(1) v]] p by fastforce
  ultimately show "held fs (F(k \<mapsto> ino')) (S - {k}) d'"
    using f(1) hd(1,3,6,7) k super file_inv_parts(2)[OF s(1)] same_geometry_trans[OF hd(3) s(2)] by (auto simp: held_def)
  show "cont (F(k \<mapsto> ino')) d' = (cont F d)(k \<mapsto> (di_type ino', fbytes ino' d'))"
  proof
    show "cont (F(k \<mapsto> ino')) d' j = ((cont F d)(k \<mapsto> (di_type ino', fbytes ino' d'))) j" for j
      using f(2)[of j] by (cases "F j") (auto simp: cont_def)
  qed
qed

end
