(* ===== verification/Fs_Refine.thy ===== *)
theory Fs_Refine
  imports Fs_Format Fs_Steps
begin

text \<open>
  The operations on the data of an inode (\<open>src/inode.cpp\<close>) refine operations on byte lists: \<open>contents\<close>
  of the file system afterwards is \<open>contents\<close> before with one file replaced, every other file having
  kept its type and its bytes. Bytes between the old end of a file and the position written are not
  determined: the code leaves in them what the device blocks held (\<open>hole\<close>).
\<close>

definition pwrite_bytes :: "nat \<Rightarrow> u8 list \<Rightarrow> u8 list \<Rightarrow> u8 list \<Rightarrow> u8 list" where
  "pwrite_bytes off new hole old = take off (old @ hole) @ new @ drop (off + length new) old"

definition ftruncate_bytes :: "nat \<Rightarrow> u8 list \<Rightarrow> u8 list \<Rightarrow> u8 list" where
  "ftruncate_bytes sz hole old = take sz (old @ hole)"

lemma pwrite_bytes_nth:
  assumes "length hole = off - length old" "p < max (length old) (off + length new)"
  shows "pwrite_bytes off new hole old ! p = (if p < off then (old @ hole) ! p
     else if p < off + length new then new ! (p - off) else old ! p)"
  using assms by (auto simp: pwrite_bytes_def nth_append min_def)

lemma length_pwrite_bytes [simp]:
  "length hole = off - length old \<Longrightarrow> length (pwrite_bytes off new hole old) = max (length old) (off + length new)"
  by (auto simp: pwrite_bytes_def)

lemma count_not_kFail [simp]: "uint (w :: 'a::len word) \<noteq> kFail" "int n \<noteq> kFail"
  unfolding kFail_def using uint_nonnegative[of w] by linarith+

section \<open>Growing before a write\<close>

lemma grow_for_write:
  assumes inv: "file_inv bm ino d" and ov: "unat offset + unat len < 2 ^ 31"
    and rm: "room bm (dev_view d) (tree_size ((max (unat (di_size ino)) (unat offset + unat len) + 4095) div 4096) -
       tree_size (ndata ino) + k)"
  obtains r ino' d' where "(if di_size ino < offset + len then resize (offset + len) bm None now ino d
       else (kSuccess, ino, d)) = (r, ino', d')"
    "own_step bm {} ino d ino' d'" "unat (di_size ino') = max (unat (di_size ino)) (unat offset + unat len)"
    "same_attrs ino ino'" "room bm (dev_view d') k"
    "\<forall>p < unat (di_size ino). file_byte ino' (dev_view d') p = file_byte ino (dev_view d) p"
proof -
  have sum: "unat (offset + len) = unat offset + unat len" using ov by (simp add: unat_add_u32)
  show ?thesis
  proof (cases "di_size ino < offset + len")
    case True
    then have m: "max (unat (di_size ino)) (unat offset + unat len) = unat (offset + len)"
      by (simp add: sum word_less_nat_alt)
    have rm': "room bm (dev_view d) (tree_size (unat (data_blocks (offset + len))) - tree_size (ndata ino) + k)"
      using rm unfolding m unat_data_blocks[symmetric] .
    obtain ino' d' where "resize (offset + len) bm None now ino d = (kSuccess, ino', d')" "own_step bm {} ino d ino' d'"
      "di_size ino' = offset + len" "same_attrs ino ino'" "room bm (dev_view d') k"
      "\<forall>p < unat (di_size ino). file_byte ino' (dev_view d') p = file_byte ino (dev_view d) p"
      by (rule resize_grow_own[OF inv less_imp_le[OF True] rm'])
    then show ?thesis using that[of kSuccess ino' d'] True m by simp
  next
    case False
    then have m: "max (unat (di_size ino)) (unat offset + unat len) = unat (di_size ino)"
      by (simp add: sum word_less_nat_alt flip: sum)
    have "room bm (dev_view d) k" using rm unfolding m unat_data_blocks[symmetric] by simp
    then show ?thesis
      using that[OF _ same_tree_step[OF inv, of ino], of kSuccess] False m by (simp add: same_tree_def)
  qed
qed

lemma fbytes_pwrite:
  assumes sz: "unat (di_size ino') = max (unat (di_size ino)) (off + l)" "unat (di_size ino2) = unat (di_size ino')"
    and keep: "\<forall>p < unat (di_size ino). file_byte ino2 (dev_view d2) p = file_byte ino (dev_view d) p"
    and wr: "\<forall>p < unat (di_size ino'). file_byte ino' (dev_view d') p =
       (if off \<le> p \<and> p < off + l then src (p - off) else file_byte ino2 (dev_view d2) p)"
    and h: "hole = map (file_byte ino2 (dev_view d2)) [unat (di_size ino)..<off]"
  shows "fbytes ino' d' = pwrite_bytes off (mem_bytes src l) hole (fbytes ino d)"
proof (rule nth_equalityI)
  have lh: "length hole = off - length (fbytes ino d)" by (simp add: h)
  show "length (fbytes ino' d') = length (pwrite_bytes off (mem_bytes src l) hole (fbytes ino d))"
    using lh sz by simp
  fix p assume "p < length (fbytes ino' d')"
  then have p: "p < unat (di_size ino')" by simp
  then have p': "p < max (length (fbytes ino d)) (off + length (mem_bytes src l))" using sz by simp
  show "fbytes ino' d' ! p = pwrite_bytes off (mem_bytes src l) hole (fbytes ino d) ! p"
    unfolding pwrite_bytes_nth[OF lh p'] fbytes_nth[OF p] using wr[rule_format, OF p] keep p' h
    by (auto simp: nth_append mem_bytes_def fbytes_nth)
qed

section \<open>The operations\<close>

abbreviation nblocks :: "nat \<Rightarrow> nat" where
  "nblocks sz \<equiv> (sz + 4095) div 4096"

text \<open>Room for a file of \<open>sz\<close> bytes in the place of the file \<open>i\<close>.\<close>

definition room_for :: "sbfs \<Rightarrow> u32 \<Rightarrow> nat \<Rightarrow> bool" where
  "room_for fs i sz \<longleftrightarrow> room (data_bitmap fs) (dev_view (device fs))
     (tree_size (nblocks sz) - tree_size (nblocks (unat (di_size (inode_at fs i)))))"

lemma inode_write_ok:
  assumes inv: "fs_inv fs" and i: "i \<in> live fs" and len: "0 < len" "unat offset + unat len < 2 ^ 31"
    and rm: "room_for fs i (max (unat (di_size (inode_at fs i))) (unat offset + unat len))"
  obtains hole ino' d' where
    "inode_write_data offset src len now (getDiskInodePos i fs) fs = (int (unat len), fs\<lparr>device := d'\<rparr>)"
    "own_step (data_bitmap fs) {pos_block_id (getDiskInodePos i fs)} (inode_at fs i) (device fs) ino' d'"
    "dev_view d' (pos_block_id (getDiskInodePos i fs)) = put_inode (dev_view (device fs) (pos_block_id (getDiskInodePos i fs)))
       (unat (pos_block_offset (getDiskInodePos i fs))) ino'" "same_attrs (inode_at fs i) ino'"
    "length hole = unat offset - unat (di_size (inode_at fs i))"
    "fbytes ino' d' = pwrite_bytes (unat offset) (mem_bytes src (unat len)) hole (fbytes (inode_at fs i) (device fs))"
proof -
  note f = fs_invD[OF inv]
  define ino where "ino = inode_at fs i"
  define p where "p = getDiskInodePos i fs"
  have po: "pos_ok (data_bitmap fs) p" using pos_valid(2)[OF f(1) f(5)[OF i]] by (simp add: p_def)
  obtain d1 where d1: "read_inode p zero_inode (device fs) = (kSuccess, ino, d1)"
    "own_step (data_bitmap fs) {} ino (device fs) ino d1" "dev_view d1 = dev_view (device fs)"
    unfolding p_def ino_def by (rule read_live[OF inv i])
  have rm1: "room (data_bitmap fs) (dev_view d1) (tree_size (nblocks (max (unat (di_size ino)) (unat offset + unat len))) -
       tree_size (ndata ino) + 0)"
    using rm by (simp add: room_for_def ino_def d1(3) unat_data_blocks)
  obtain r ino2 d2 where g: "(if di_size ino < offset + len then resize (offset + len) (data_bitmap fs) None now ino d1
       else (kSuccess, ino, d1)) = (r, ino2, d2)"
    "own_step (data_bitmap fs) {} ino d1 ino2 d2" "unat (di_size ino2) = max (unat (di_size ino)) (unat offset + unat len)"
    "same_attrs ino ino2" "room (data_bitmap fs) (dev_view d2) 0"
    "\<forall>q < unat (di_size ino). file_byte ino2 (dev_view d2) q = file_byte ino (dev_view d1) q"
    by (rule grow_for_write[OF own_stepD(1)[OF d1(2)] len(2) rm1])
  have lt: "offset < di_size ino2" using g(3) len by (simp add: word_less_nat_alt)
  have c: "unat len = min (unat len) (unat (di_size ino2) - unat offset)" using g(3) by simp
  define ino3 where "ino3 = update_meta 3 now ino2"
  obtain d3 where w: "write_data offset src len now ino2 d2 = (int (unat len), ino3, d3)"
    "own_step (data_bitmap fs) {} ino2 d2 ino3 d3"
    "\<forall>q < unat (di_size ino2). file_byte ino2 (dev_view d3) q =
       (if unat offset \<le> q \<and> q < unat offset + unat len then src (q - unat offset) else file_byte ino2 (dev_view d2) q)"
    "room (data_bitmap fs) (dev_view d3) = room (data_bitmap fs) (dev_view d2)"
    unfolding ino3_def by (rule write_data_own[OF own_stepD(1)[OF g(2)] lt len c])
  have st: "own_step (data_bitmap fs) {} ino (device fs) ino3 d3"
    using own_step_trans[OF own_step_trans[OF d1(2) g(2)] w(2)] by simp
  obtain d' where d': "write_inode p ino3 d3 = (kSuccess, d')" "own_step (data_bitmap fs) {pos_block_id p} ino (device fs) ino3 d'"
    "dev_view d' (pos_block_id p) = put_inode (dev_view (device fs) (pos_block_id p)) (unat (pos_block_offset p)) ino3"
    "fbytes ino3 d' = fbytes ino3 d3"
    by (rule own_write_inode[OF st po])
  define hole where "hole = map (file_byte ino2 (dev_view d2)) [unat (di_size ino)..<unat offset]"
  have "fbytes ino3 d3 = pwrite_bytes (unat offset) (mem_bytes src (unat len)) hole (fbytes ino (device fs))"
    by (rule fbytes_pwrite[OF _ _ _ _ hole_def]) (use g(3,6) w(3) d1(3) in \<open>simp_all add: ino3_def\<close>)
  moreover have "inode_write_data offset src len now p fs = (int (unat len), fs\<lparr>device := d'\<rparr>)"
    using d1(1) g(1) w(1) d'(1) by (simp add: inode_write_data_def)
  moreover have "same_attrs ino ino3" using same_attrs_trans[OF g(4) same_attrs_meta] by (simp add: ino3_def)
  ultimately show ?thesis
    using that[of d' ino3 hole] d' by (simp add: p_def[symmetric] ino_def[symmetric] hole_def)
qed

lemma inode_write_contents:
  assumes "fs_inv fs" "contents fs i = Some (t, old)" "0 < len" "unat offset + unat len < 2 ^ 31"
    and "room_for fs i (max (length old) (unat offset + unat len))"
  shows "\<exists>fs' hole. inode_write_data offset src len now (getDiskInodePos i fs) fs = (int (unat len), fs') \<and> fs_inv fs' \<and>
     length hole = unat offset - length old \<and>
     contents fs' = (contents fs)(i \<mapsto> (t, pwrite_bytes (unat offset) (mem_bytes src (unat len)) hole old)) \<and> attrs fs' = attrs fs \<and> fs' = fs\<lparr>device := device fs'\<rparr>"
proof -
  have i: "i \<in> live fs" and old: "old = fbytes (inode_at fs i) (device fs)" "t = di_type (inode_at fs i)"
    using assms(2) by (auto simp: contents_def files_def split: if_splits)
  have rm: "room_for fs i (max (unat (di_size (inode_at fs i))) (unat offset + unat len))"
    using assms(5) by (simp add: old)
  obtain hole ino' d' where
    w: "inode_write_data offset src len now (getDiskInodePos i fs) fs = (int (unat len), fs\<lparr>device := d'\<rparr>)"
    "own_step (data_bitmap fs) {pos_block_id (getDiskInodePos i fs)} (inode_at fs i) (device fs) ino' d'"
    "dev_view d' (pos_block_id (getDiskInodePos i fs)) = put_inode (dev_view (device fs) (pos_block_id (getDiskInodePos i fs)))
       (unat (pos_block_offset (getDiskInodePos i fs))) ino'" "same_attrs (inode_at fs i) ino'"
    "length hole = unat offset - unat (di_size (inode_at fs i))"
    "fbytes ino' d' = pwrite_bytes (unat offset) (mem_bytes src (unat len)) hole (fbytes (inode_at fs i) (device fs))"
    by (rule inode_write_ok[OF assms(1) i assms(3,4) rm])
  note s = inode_step[OF assms(1) i refl w(2,3)]
  have "di_type ino' = t" using w(4) old(2) by (simp add: same_attrs_def)
  moreover have "attrs (fs\<lparr>device := d'\<rparr>) = attrs fs" by (rule attrs_step[OF s(2) fs_invD(6)[OF assms(1) i] w(4)])
  ultimately show ?thesis using w(1,5) s(1,3) w(6) by (auto simp: old(1))
qed

text \<open>C24: writing through the inode of a file returns the number of bytes asked for and replaces exactly
  these bytes of the file, lengthening it if need be; every other file keeps its type and its
  bytes, and the file system stays well-formed.\<close>

theorem inode_write_refines:
  assumes "fs_inv fs" "contents fs i = Some (t, old)" "0 < len" "unat offset + unat len < 2 ^ 31"
    and "room_for fs i (max (length old) (unat offset + unat len))"
  shows "\<exists>fs' hole. inode_write_data offset src len now (getDiskInodePos i fs) fs = (int (unat len), fs') \<and> fs_inv fs' \<and>
     length hole = unat offset - length old \<and>
     contents fs' = (contents fs)(i \<mapsto> (t, pwrite_bytes (unat offset) (mem_bytes src (unat len)) hole old))"
  using inode_write_contents[OF assms] by blast

theorem inode_write_refines_witness:
  "\<exists>bs fs' hole. contents new_fs = [2 \<mapsto> (kDirectory, bs)] \<and> length hole = 88 \<and>
     inode_write_data 600 (\<lambda>_. 7) 5000 1 (getDiskInodePos 2 new_fs) new_fs = (5000, fs') \<and>
     contents fs' = [2 \<mapsto> (kDirectory, bs @ hole @ replicate 5000 7)]"
proof -
  obtain bs where b: "contents new_fs = [2 \<mapsto> (kDirectory, bs)]" "length bs = 512" "unat (di_size (inode_at new_fs 2)) = 512"
    by (rule new_root)
  have rm: "room_for new_fs 2 (max (length bs) (unat (600 :: u32) + unat (5000 :: u32)))"
    unfolding room_for_def by (rule new_room) (simp add: b(2,3) tree_size_def)
  have c: "contents new_fs 2 = Some (kDirectory, bs)" by (simp add: b(1))
  have l: "(0 :: u32) < 5000" "unat (600 :: u32) + unat (5000 :: u32) < 2 ^ 31" by simp_all
  obtain fs' hole where w: "inode_write_data 600 (\<lambda>_. 7) 5000 1 (getDiskInodePos 2 new_fs) new_fs = (int (unat (5000 :: u32)), fs')"
    "length hole = unat (600 :: u32) - length bs"
    "contents fs' = (contents new_fs)(2 \<mapsto> (kDirectory, pwrite_bytes (unat (600 :: u32)) (mem_bytes (\<lambda>_. 7) (unat (5000 :: u32))) hole bs))"
    using inode_write_refines[OF new_ok(1) c l rm, of "\<lambda>_. 7" 1] by blast
  have "pwrite_bytes 600 (mem_bytes (\<lambda>_. 7) 5000) hole bs = bs @ hole @ replicate 5000 7"
    using w(2) b(2) by (simp add: pwrite_bytes_def mem_bytes_def map_replicate_const)
  then show ?thesis using w b(1,2) by auto
qed

lemma contents_live:
  assumes "contents fs i = Some (t, old)"
  shows "i \<in> live fs" "old = fbytes (inode_at fs i) (device fs)" "t = di_type (inode_at fs i)"
  using assms by (auto simp: contents_def files_def split: if_splits)

lemma read_data_past_end:
  "di_size ino < offset \<Longrightarrow> 0 < len \<Longrightarrow> read_data offset buf len now ino d = (kFail, buf, update_meta 1 now ino, d)"
  by (auto simp: read_data_def Let_def)

text \<open>Reading a block of a file, whatever number the tree gives for it, leaves the blocks of the device as they are.\<close>

definition only_read :: "dev \<Rightarrow> dev \<Rightarrow> bool" where
  "only_read d d' \<longleftrightarrow> dev_ok d' \<and> dev_view d' = dev_view d \<and> same_geometry d d'"

lemma only_read_refl: "dev_ok d \<Longrightarrow> only_read d d"
  by (simp add: only_read_def)

lemma only_read_trans: "only_read d d1 \<Longrightarrow> only_read d1 d2 \<Longrightarrow> only_read d d2"
  by (auto simp: only_read_def intro: same_geometry_trans)

lemma only_read_dev:
  assumes "dev_ok d" "dev_read b buf d = (r, x, d')"
  shows "only_read d d'"
proof (cases "unat b < dev_blocks d")
  case True
  show ?thesis by (rule dev_read_ok[OF assms(1) True, of buf]) (use assms(2) in \<open>simp add: only_read_def\<close>)
next
  case False
  show ?thesis by (rule dev_read_beyond[OF assms(1) False, of buf]) (use assms(2) in \<open>simp add: only_read_def\<close>)
qed

lemma only_read_blk:
  assumes "dev_ok d" "read_blk i ino d = (r, x, d')"
  shows "only_read d d'"
proof -
  obtain b d1 where b: "block_id i ino d = (b, d1)" by fastforce
  have k: "only_read d e2" if "dev_read b1 x1 d = (r1, y1, e1)" "dev_read b2 x2 e1 = (r2, y2, e2)" for b1 x1 r1 y1 e1 b2 x2 r2 y2 e2
    using only_read_trans[OF only_read_dev[OF assms(1) that(1)] only_read_dev[OF _ that(2)]] only_read_dev[OF assms(1) that(1)]
    by (simp add: only_read_def)
  have "only_read d d1"
    using b assms(1) by (auto simp: block_id_def Let_def intro: only_read_refl only_read_dev k split: if_splits prod.splits)
  moreover have "only_read d1 d'"
    using assms(2) b calculation by (intro only_read_dev) (auto simp: read_blk_def only_read_def)
  ultimately show ?thesis by (rule only_read_trans)
qed

text \<open>At the end of the file exactly, one block is read all the same: the one that holds the last byte, or, when the file fills its
  blocks, the one that the next entry of the tree names, which may be any number.\<close>

lemma read_data_end:
  assumes ok: "dev_ok d" and l: "0 < len" "unat (di_size ino) + unat len < 2 ^ 31"
  obtains r d' where "read_data (di_size ino) buf len now ino d = (r, buf, update_meta 1 now ino, d')" "r = 0 \<or> r = kFail"
    "dev_ok d'" "dev_view d' = dev_view d" "same_geometry d d'"
    "file_ok ino d \<longrightarrow> \<not> 4096 dvd unat (di_size ino) \<longrightarrow> r = 0"
proof -
  define ino1 where "ino1 = update_meta 1 now ino"
  have pb: "pos_block (di_size ino) = of_nat (unat (di_size ino) div 4096)" using pos_small[of "di_size ino"] l(2) by simp
  have ge: "di_size ino1 \<le> di_size ino + len" using l(2) by (simp add: ino1_def word_le_nat_alt unat_add_u32)
  obtain r x d' where b: "read_blk (pos_block (di_size ino)) ino1 d = (r, x, d')" by (metis prod_cases3)
  have rd: "read_data (di_size ino) buf len now ino d = (if r \<noteq> kSuccess then kFail else 0, buf, ino1, d')"
    using l(1) b ge by (auto simp: read_data_def Let_def ino1_def)
  have r0: "r = kSuccess" if f: "file_ok ino d" "\<not> 4096 dvd unat (di_size ino)"
  proof -
    define m where "m = unat (di_size ino)"
    have "m mod 4096 \<noteq> 0" using f(2) by (simp add: m_def dvd_eq_mod_eq_0)
    then have "m div 4096 * 4096 + 4096 \<le> m + 4095" using div_mult_mod_eq[of m 4096] by linarith
    then have "unat (di_size ino) div 4096 < unat (data_blocks (di_size ino))"
      using less_eq_div_iff_mult_less_eq[of 4096 "m div 4096 + 1" "m + 4095"] by (simp add: unat_data_blocks m_def)
    moreover have "inode_ok ino1 (unat (data_blocks (di_size ino))) d" using f(1) by (simp add: ino1_def)
    ultimately obtain d2 where "read_blk (of_nat (unat (di_size ino) div 4096)) ino1 d =
        (kSuccess, dev_view d (node_blk ino1 (dev_view d) (Data (unat (di_size ino) div 4096))), d2)" by (metis read_blk_ok)
    then show ?thesis using b pb by simp
  qed
  show ?thesis
    by (rule that[OF rd[unfolded ino1_def]]) (use only_read_blk[OF ok b] r0 in \<open>auto simp: only_read_def\<close>)
qed

text \<open>After the data was read, the inode is written with its new access time, unless reading failed.\<close>

lemma inode_read_done:
  assumes inv: "fs_inv fs" and i: "contents fs i = Some (t, old)" and p: "p = getDiskInodePos i fs"
    and d1: "read_inode p zero_inode (device fs) = (kSuccess, inode_at fs i, d1)"
      "own_step (data_bitmap fs) {} (inode_at fs i) (device fs) (inode_at fs i) d1" "dev_view d1 = dev_view (device fs)"
    and r: "read_data offset buf len now (inode_at fs i) d1 = (r, buf', update_meta 1 now (inode_at fs i), d2)"
      "dev_ok d2" "dev_view d2 = dev_view d1" "same_geometry d1 d2"
  shows "\<exists>fs'. inode_read_data offset buf len now p fs = (r, buf', fs') \<and> fs_inv fs' \<and>
     contents fs' = contents fs \<and> attrs fs' = attrs fs \<and> fs' = fs\<lparr>device := device fs'\<rparr>"
proof -
  note f = fs_invD[OF inv] and c = contents_live[OF i]
  define ino where "ino = inode_at fs i"
  define ino2 where "ino2 = update_meta 1 now ino"
  have po: "pos_ok (data_bitmap fs) p" using pos_valid(2)[OF f(1) f(5)[OF c(1)]] by (simp add: p)
  note rd = own_read[OF own_stepD(1)[OF d1(2)] r(2,4,3)]
  show ?thesis
  proof (cases "r = kFail")
    case True
    then have "inode_read_data offset buf len now p fs = (r, buf', fs\<lparr>device := d2\<rparr>)"
      using d1(1) r(1) by (simp add: inode_read_data_def)
    moreover have "same_geometry (device fs) d2" using own_stepD(2)[OF d1(2)] r(4) same_geometry_trans by blast
    ultimately show ?thesis using fs_inv_view[OF inv r(2)] r(3) d1(3) by (intro exI[of _ "fs\<lparr>device := d2\<rparr>"]) simp
  next
    case False
    have old: "old = fbytes ino d1" using c(2) d1(3) by (simp add: ino_def fbytes_def)
    have st: "own_step (data_bitmap fs) {} ino (device fs) ino2 d2"
      using own_step_trans[OF own_step_trans[OF d1(2) rd] same_tree_step[OF own_stepD(1)[OF rd], of ino2]]
      by (simp add: ino2_def ino_def)
    obtain d' where d': "write_inode p ino2 d2 = (kSuccess, d')" "own_step (data_bitmap fs) {pos_block_id p} ino (device fs) ino2 d'"
      "dev_view d' (pos_block_id p) = put_inode (dev_view (device fs) (pos_block_id p)) (unat (pos_block_offset p)) ino2"
      "fbytes ino2 d' = fbytes ino2 d2" by (rule own_write_inode[OF st po])
    note s = inode_step[OF inv c(1) refl, folded p ino_def, OF d'(2,3)]
    have fb: "fbytes ino2 d' = old" using d'(4) r(3) by (simp add: old fbytes_def ino2_def)
    have "contents (fs\<lparr>device := d'\<rparr>) = contents fs"
      using s(3) i c(3) unfolding fb by (simp add: ino2_def ino_def map_upd_triv)
    moreover have "inode_read_data offset buf len now p fs = (r, buf', fs\<lparr>device := d'\<rparr>)"
      using d1(1) r(1) d'(1) False by (simp add: inode_read_data_def ino2_def ino_def kSuccess_def kFail_def)
    moreover have "attrs (fs\<lparr>device := d'\<rparr>) = attrs fs"
      by (rule attrs_step[OF s(2) f(6)[OF c(1), folded ino_def]]) (simp add: ino2_def)
    ultimately show ?thesis using s(1) by (intro exI[of _ "fs\<lparr>device := d'\<rparr>"]) simp
  qed
qed

lemma inode_read_contents:
  assumes "fs_inv fs" "contents fs i = Some (t, old)" "0 < len" "unat offset + unat len < 2 ^ 31"
  shows "\<exists>r buf' fs'. inode_read_data offset buf len now (getDiskInodePos i fs) fs = (r, buf', fs') \<and> fs_inv fs' \<and>
     contents fs' = contents fs \<and> attrs fs' = attrs fs \<and> fs' = fs\<lparr>device := device fs'\<rparr> \<and>
     (if unat offset < length old
      then r = int (length (take (unat len) (drop (unat offset) old))) \<and>
        mem_bytes buf' (nat r) = take (unat len) (drop (unat offset) old) \<and> (\<forall>x \<ge> nat r. buf' x = buf x)
      else buf' = buf \<and> (if unat offset = length old then (r = 0 \<or> r = kFail) \<and> (4096 dvd length old \<or> r = 0) else r = kFail))"
proof -
  note c = contents_live[OF assms(2)]
  define ino where "ino = inode_at fs i"
  define p where "p = getDiskInodePos i fs"
  obtain d1 where d1: "read_inode p zero_inode (device fs) = (kSuccess, ino, d1)"
    "own_step (data_bitmap fs) {} ino (device fs) ino d1" "dev_view d1 = dev_view (device fs)"
    unfolding p_def ino_def by (rule read_live[OF assms(1) c(1)])
  have old: "old = fbytes ino d1" using c(2) d1(3) by (simp add: ino_def fbytes_def)
  note inv1 = own_stepD(1)[OF d1(2)] and fin = inode_read_done[OF assms(1,2) p_def d1[unfolded ino_def], folded ino_def]
  consider "unat offset < length old" | "offset = di_size ino" | "offset > di_size ino"
    using linorder_less_linear[of offset "di_size ino"] old by (auto simp: word_less_nat_alt)
  then show ?thesis
  proof cases
    case 1
    then have lt: "offset < di_size ino" using old by (simp add: word_less_nat_alt)
    define n where "n = min (unat len) (unat (di_size ino) - unat offset)"
    obtain d2 where r: "read_data offset buf len now ino d1 = (int n, filled ino (dev_view d1) (unat offset) buf n, update_meta 1 now ino, d2)"
      "dev_ok d2" "dev_view d2 = dev_view d1" "same_geometry d1 d2"
      by (rule read_data_ok[OF file_inv_ok[OF inv1] lt assms(3,4) n_def])
    have len: "length (take (unat len) (drop (unat offset) old)) = n" by (simp add: old n_def)
    have bs: "mem_bytes (filled ino (dev_view d1) (unat offset) buf n) n = take (unat len) (drop (unat offset) old)"
      by (rule nth_equalityI) (use len 1 in \<open>auto simp: mem_bytes_def filled_def old fbytes_def n_def\<close>)
    from fin[OF r] show ?thesis using 1 len bs by (auto simp: p_def filled_def)
  next
    case 2
    obtain r d2 where r: "read_data offset buf len now ino d1 = (r, buf, update_meta 1 now ino, d2)" "r = 0 \<or> r = kFail"
      "dev_ok d2" "dev_view d2 = dev_view d1" "same_geometry d1 d2" "file_ok ino d1 \<longrightarrow> \<not> 4096 dvd unat (di_size ino) \<longrightarrow> r = 0"
      unfolding 2 by (rule read_data_end[OF file_inv_parts(2)[OF inv1] assms(3) assms(4)[unfolded 2], of buf now])
    then show ?thesis using fin[OF r(1,3-5)] 2 old file_inv_ok[OF inv1] by (auto simp: p_def)
  next
    case 3
    then have "\<not> unat offset < length old" "unat offset \<noteq> length old" using old by (auto simp: word_less_nat_alt)
    then show ?thesis
      using fin[OF read_data_past_end[OF 3 assms(3)] file_inv_parts(2)[OF inv1] refl] by (auto simp: p_def)
  qed
qed

text \<open>C25: reading through the inode of a file copies the bytes of the file from the offset on, as far as
  they go, and returns their number; past the end of the file it fails. Exactly at the end it returns 0, except that it may fail
  where the file fills its blocks: there it reads a block that does not belong to the file. No file changes.\<close>

theorem inode_read_refines:
  assumes "fs_inv fs" "contents fs i = Some (t, old)" "0 < len" "unat offset + unat len < 2 ^ 31"
  shows "\<exists>r buf' fs'. inode_read_data offset buf len now (getDiskInodePos i fs) fs = (r, buf', fs') \<and> fs_inv fs' \<and>
     contents fs' = contents fs \<and>
     (if unat offset < length old
      then r = int (length (take (unat len) (drop (unat offset) old))) \<and>
        mem_bytes buf' (nat r) = take (unat len) (drop (unat offset) old) \<and> (\<forall>x \<ge> nat r. buf' x = buf x)
      else buf' = buf \<and> (if unat offset = length old then (r = 0 \<or> r = kFail) \<and> (4096 dvd length old \<or> r = 0) else r = kFail))"
  using inode_read_contents[OF assms] by blast

theorem inode_read_refines_witness:
  "\<exists>bs buf' fs' fs''. contents new_fs = [2 \<mapsto> (kDirectory, bs)] \<and>
     inode_read_data 500 zero_block 100 1 (getDiskInodePos 2 new_fs) new_fs = (12, buf', fs') \<and>
     mem_bytes buf' 12 = drop 500 bs \<and> contents fs' = contents new_fs \<and>
     inode_read_data 512 zero_block 100 1 (getDiskInodePos 2 new_fs) new_fs = (0, zero_block, fs'')"
proof -
  obtain bs where b: "contents new_fs = [2 \<mapsto> (kDirectory, bs)]" "length bs = 512" "unat (di_size (inode_at new_fs 2)) = 512"
    by (rule new_root)
  have c: "contents new_fs 2 = Some (kDirectory, bs)" by (simp add: b(1))
  have l: "(0 :: u32) < 100" "unat (500 :: u32) + unat (100 :: u32) < 2 ^ 31" "unat (512 :: u32) + unat (100 :: u32) < 2 ^ 31" by simp_all
  have "\<exists>buf' fs'. inode_read_data 500 zero_block 100 1 (getDiskInodePos 2 new_fs) new_fs = (12, buf', fs') \<and>
      mem_bytes buf' 12 = drop 500 bs \<and> contents fs' = contents new_fs"
    using inode_read_refines[OF new_ok(1) c l(1,2), of zero_block 1] b(2) by auto
  moreover have "\<exists>fs''. inode_read_data 512 zero_block 100 1 (getDiskInodePos 2 new_fs) new_fs = (0, zero_block, fs'')"
    using inode_read_refines[OF new_ok(1) c l(1,3), of zero_block 1] b(2) by auto
  ultimately show ?thesis using b(1) by blast
qed

lemma fbytes_truncate:
  assumes "\<forall>p < min (unat (di_size ino)) (unat (di_size ino')). file_byte ino' (dev_view d') p = file_byte ino (dev_view d) p"
    and "hole = map (file_byte ino' (dev_view d')) [unat (di_size ino)..<unat (di_size ino')]"
  shows "fbytes ino' d' = ftruncate_bytes (unat (di_size ino')) hole (fbytes ino d)"
  by (rule nth_equalityI) (use assms in \<open>auto simp: ftruncate_bytes_def nth_append fbytes_nth\<close>)

text \<open>The two directions of \<open>resize\<close>, with the inode read before and, after growing, written.\<close>

lemma inode_resize_ok:
  assumes inv: "fs_inv fs" and i: "i \<in> live fs" and ino: "ino = inode_at fs i" and p: "p = getDiskInodePos i fs"
    and ty: "di_type ino = kFile"
    and rm: "if unat sz > unat (di_size ino) then room_for fs i (unat sz) else unat sz \<le> 1047 * 4096"
  obtains ino' d' where "inode_resize sz now p fs = (kSuccess, fs\<lparr>device := d'\<rparr>)"
    "own_step (data_bitmap fs) {pos_block_id p} ino (device fs) ino' d'" "di_size ino' = sz" "same_attrs ino ino'"
    "dev_view d' (pos_block_id p) = put_inode (dev_view (device fs) (pos_block_id p)) (unat (pos_block_offset p)) ino'"
    "\<forall>q < min (unat (di_size ino)) (unat sz). file_byte ino' (dev_view d') q = file_byte ino (dev_view (device fs)) q"
proof -
  note f = fs_invD[OF inv]
  have po: "pos_ok (data_bitmap fs) p" using pos_valid(2)[OF f(1) f(5)[OF i]] by (simp add: p)
  obtain d1 where d1: "read_inode p zero_inode (device fs) = (kSuccess, ino, d1)"
    "own_step (data_bitmap fs) {} ino (device fs) ino d1" "dev_view d1 = dev_view (device fs)"
    unfolding p ino by (rule read_live[OF inv i])
  show ?thesis
  proof (cases "di_size ino < sz")
    case True
    have rm: "room (data_bitmap fs) (dev_view d1) (tree_size (unat (data_blocks sz)) - tree_size (ndata ino) + 0)"
      using rm True by (simp add: room_for_def ino d1(3) unat_data_blocks word_less_nat_alt)
    obtain ino2 d2 where g: "resize sz (data_bitmap fs) None now ino d1 = (kSuccess, ino2, d2)"
      "own_step (data_bitmap fs) {} ino d1 ino2 d2" "di_size ino2 = sz" "same_attrs ino ino2"
      "room (data_bitmap fs) (dev_view d2) 0"
      "\<forall>q < unat (di_size ino). file_byte ino2 (dev_view d2) q = file_byte ino (dev_view d1) q"
      by (rule resize_grow_own[OF own_stepD(1)[OF d1(2)] less_imp_le[OF True] rm])
    obtain d' where d': "write_inode p ino2 d2 = (kSuccess, d')" "own_step (data_bitmap fs) {pos_block_id p} ino (device fs) ino2 d'"
      "dev_view d' (pos_block_id p) = put_inode (dev_view (device fs) (pos_block_id p)) (unat (pos_block_offset p)) ino2"
      "fbytes ino2 d' = fbytes ino2 d2"
      by (rule own_write_inode[OF own_step_trans[OF d1(2) g(2), simplified] po])
    have rs: "inode_resize sz now p fs = (kSuccess, fs\<lparr>device := d'\<rparr>)"
      using d1(1) g(1) d'(1) True ty by (simp add: inode_resize_def)
    have "file_byte ino2 (dev_view d') q = file_byte ino (dev_view (device fs)) q" if "q < unat (di_size ino)" for q
    proof -
      have "q < unat (di_size ino2)" using that True g(3) by (simp add: word_less_nat_alt)
      then show ?thesis using d'(4) g(6) that fbytes_nth d1(3) by metis
    qed
    then show ?thesis using that[OF rs d'(2) g(3,4) d'(3)] by simp
  next
    case False
    then have n: "sz \<le> di_size ino" "unat (data_blocks sz) \<le> 1047"
      using rm by (auto simp: word_le_nat_alt word_less_nat_alt unat_data_blocks split: if_splits)
    obtain ino2 d2 where g: "resize sz (data_bitmap fs) (Some p) now ino d1 = (kSuccess, ino2, d2)"
      "own_step (data_bitmap fs) (pos_blks (Some p)) ino d1 ino2 d2" "di_size ino2 = sz" "same_attrs ino ino2"
      "\<forall>q < unat sz. file_byte ino2 (dev_view d2) q = file_byte ino (dev_view d1) q"
      "\<forall>pos. Some p = Some pos \<longrightarrow> dev_view d2 (pos_block_id pos) =
         put_inode (dev_view d1 (pos_block_id pos)) (unat (pos_block_offset pos)) ino2"
      by (rule resize_shrink_own[OF own_stepD(1)[OF d1(2)] n, of "Some p"]) (use po in auto)
    have rs: "inode_resize sz now p fs = (kSuccess, fs\<lparr>device := d2\<rparr>)"
      using d1(1) g(1) False ty by (simp add: inode_resize_def)
    have st: "own_step (data_bitmap fs) {pos_block_id p} ino (device fs) ino2 d2"
      using own_step_trans[OF d1(2) g(2)] by (simp add: pos_blks_def)
    show ?thesis by (rule that[OF rs st g(3,4)]) (use g(5,6) d1(3) in simp_all)
  qed
qed

lemma inode_resize_contents:
  assumes "fs_inv fs" "contents fs i = Some (t, old)"
    and "if unat sz > length old then room_for fs i (unat sz) else unat sz \<le> 1047 * 4096"
  shows "\<exists>fs' hole. inode_resize sz now (getDiskInodePos i fs) fs = (if t = kFile then kSuccess else kFail, fs') \<and> fs_inv fs' \<and>
     length hole = unat sz - length old \<and>
     contents fs' = (if t = kFile then (contents fs)(i \<mapsto> (t, ftruncate_bytes (unat sz) hole old)) else contents fs) \<and> attrs fs' = attrs fs \<and> fs' = fs\<lparr>device := device fs'\<rparr>"
proof -
  note c = contents_live[OF assms(2)]
  define ino where "ino = inode_at fs i"
  define p where "p = getDiskInodePos i fs"
  have old: "old = fbytes ino (device fs)" "di_type ino = t" using c by (simp_all add: ino_def)
  show ?thesis
  proof (cases "t = kFile")
    case True
    obtain ino' d' where r: "inode_resize sz now p fs = (kSuccess, fs\<lparr>device := d'\<rparr>)"
      "own_step (data_bitmap fs) {pos_block_id p} ino (device fs) ino' d'" "di_size ino' = sz" "same_attrs ino ino'"
      "dev_view d' (pos_block_id p) = put_inode (dev_view (device fs) (pos_block_id p)) (unat (pos_block_offset p)) ino'"
      "\<forall>q < min (unat (di_size ino)) (unat sz). file_byte ino' (dev_view d') q = file_byte ino (dev_view (device fs)) q"
      by (rule inode_resize_ok[OF assms(1) c(1) ino_def p_def]) (use old True assms(3) in simp_all)
    note s = inode_step[OF assms(1) c(1) refl, folded p_def ino_def, OF r(2,5)]
    have "fbytes ino' d' = ftruncate_bytes (unat sz) (map (file_byte ino' (dev_view d')) [unat (di_size ino)..<unat sz]) old"
      unfolding old(1) r(3)[symmetric] by (rule fbytes_truncate) (use r(3,6) in simp_all)
    moreover have "di_type ino' = t" using r(4) old(2) by (simp add: same_attrs_def)
    moreover have "attrs (fs\<lparr>device := d'\<rparr>) = attrs fs" by (rule attrs_step[OF s(2) fs_invD(6)[OF assms(1) c(1), folded ino_def] r(4)])
    ultimately show ?thesis using s(1,3) r(1) True
      by (intro exI[of _ "fs\<lparr>device := d'\<rparr>"] exI[of _ "map (file_byte ino' (dev_view d')) [unat (di_size ino)..<unat sz]"])
        (simp add: p_def old(1))
  next
    case False
    obtain d1 where d1: "read_inode p zero_inode (device fs) = (kSuccess, ino, d1)"
      "own_step (data_bitmap fs) {} ino (device fs) ino d1" "dev_view d1 = dev_view (device fs)"
      unfolding p_def ino_def by (rule read_live[OF assms(1) c(1)])
    have "inode_resize sz now p fs = (kFail, fs\<lparr>device := d1\<rparr>)"
      using d1(1) False old(2) by (simp add: inode_resize_def)
    moreover have "fs_inv (fs\<lparr>device := d1\<rparr>)" "contents (fs\<lparr>device := d1\<rparr>) = contents fs" "attrs (fs\<lparr>device := d1\<rparr>) = attrs fs"
      using fs_inv_view[OF assms(1), of d1] own_stepD(2)[OF d1(2)] file_inv_parts(2)[OF own_stepD(1)[OF d1(2)]] d1(3)
      by simp_all
    ultimately show ?thesis using False by (auto simp: p_def intro: exI[of _ "replicate (unat sz - length old) 0"])
  qed
qed

text \<open>Truncating a file cuts its bytes or lengthens them to the size asked for and leaves every other
  file alone; it is refused for a directory. What is cut may leave at most 1047 blocks.\<close>

theorem inode_resize_refines:
  assumes "fs_inv fs" "contents fs i = Some (t, old)"
    and "if unat sz > length old then room_for fs i (unat sz) else unat sz \<le> 1047 * 4096"
  shows "\<exists>fs' hole. inode_resize sz now (getDiskInodePos i fs) fs = (if t = kFile then kSuccess else kFail, fs') \<and> fs_inv fs' \<and>
     length hole = unat sz - length old \<and>
     contents fs' = (if t = kFile then (contents fs)(i \<mapsto> (t, ftruncate_bytes (unat sz) hole old)) else contents fs)"
  using inode_resize_contents[OF assms] by blast

text \<open>A file of 512 bytes, made of the root directory.\<close>

lemma some_file:
  obtains fs bs where "fs_inv fs" "contents fs = [2 \<mapsto> (kFile, bs)]" "length bs = 512"
proof -
  obtain bs where b: "contents new_fs = [2 \<mapsto> (kDirectory, bs)]" "length bs = 512" "unat (di_size (inode_at new_fs 2)) = 512"
    by (rule new_root)
  note f = fs_invD[OF new_ok(1)] and h = held_start[OF new_ok(1)]
  have F: "files new_fs 2 = Some (inode_at new_fs 2)" by (rule f(6)) (simp add: new_facts)
  define ino where "ino = (inode_at new_fs 2)\<lparr>di_type := kFile\<rparr>"
  have st: "same_tree (inode_at new_fs 2) ino" by (simp add: same_tree_def ino_def)
  note s = held_step[OF h F same_tree_step[OF heldD(10)[OF h F] st]]
  have "file_byte ino = file_byte (inode_at new_fs 2)" by (intro ext) (rule same_tree_facts(3)[OF st])
  then have fb: "fbytes ino (device new_fs) = bs"
    using fun_cong[OF b(1), of 2] F st by (simp add: contents_def fbytes_def same_tree_def)
  have e: "insert 2 {} - {2} = ({} :: u32 set)" by simp
  obtain d where d: "held new_fs ((files new_fs)(2 \<mapsto> ino)) {} d"
    "cont ((files new_fs)(2 \<mapsto> ino)) d = cont ((files new_fs)(2 \<mapsto> ino)) (device new_fs)"
    by (rule held_write[OF s(1), of 2 ino, unfolded e]) simp_all
  show ?thesis
    by (rule that[OF held_end(1)[OF d(1)] _ b(2)])
      (use held_end(3)[OF d(1)] d(2) s(2) b(1) fb in \<open>simp add: contents_cont ino_def\<close>)
qed

theorem inode_resize_refines_witness:
  "\<exists>fs bs fs'. contents fs = [2 \<mapsto> (kFile, bs)] \<and> length bs = 512 \<and>
     inode_resize 100 1 (getDiskInodePos 2 fs) fs = (kSuccess, fs') \<and> contents fs' = [2 \<mapsto> (kFile, take 100 bs)]"
proof -
  obtain fs bs where f: "fs_inv fs" "contents fs = [2 \<mapsto> (kFile, bs)]" "length bs = 512" by (rule some_file)
  have c: "contents fs 2 = Some (kFile, bs)" by (simp add: f(2))
  have r: "if unat (100 :: u32) > length bs then room_for fs 2 (unat (100 :: u32)) else unat (100 :: u32) \<le> 1047 * 4096"
    by (simp add: f(3))
  show ?thesis using inode_resize_refines[OF f(1) c r, of 1] f(2,3) by (auto simp: ftruncate_bytes_def)
qed

end
