(* ===== verification/Dir_Refine.thy ===== *)
theory Dir_Refine
  imports Fs_Refine Fs_Steps
begin

text \<open>
  The directory operations of \<open>src/inode.cpp\<close> on the whole file system: what \<open>create\<close> does to the
  contents of all files and to the entries of the directory, and what \<open>find\<close> finds.
\<close>

section \<open>Adding entries\<close>

lemma append_ok:
  assumes inv: "file_inv bm ino d" and n: "0 < n" "unat (di_size ino) + n < 2 ^ 31"
    and rm: "room bm (dev_view d) (tree_size (nblocks (unat (di_size ino) + n)) - tree_size (ndata ino) + k)"
  obtains ino' d' where "append_entries e n bm now ino d = (kSuccess, ino', d')" "own_step bm {} ino d ino' d'"
    "same_attrs ino ino'" "fbytes ino' d' = fbytes ino d @ mem_bytes e n" "room bm (dev_view d') k"
proof -
  have un: "unat (of_nat n :: u32) = n" using n by (simp add: unat_of_nat_u32)
  have sum: "unat (di_size ino + of_nat n) = unat (di_size ino) + n" using n un by (simp add: unat_add_u32)
  have le: "di_size ino \<le> di_size ino + of_nat n" using sum by (simp add: word_le_nat_alt)
  have rm': "room bm (dev_view d) (tree_size (unat (data_blocks (di_size ino + of_nat n))) - tree_size (ndata ino) + k)"
    using rm by (simp add: unat_data_blocks sum)
  obtain ino1 d1 where g: "resize (di_size ino + of_nat n) bm None now ino d = (kSuccess, ino1, d1)" "own_step bm {} ino d ino1 d1"
    "di_size ino1 = di_size ino + of_nat n" "same_attrs ino ino1" "room bm (dev_view d1) k"
    "\<forall>p < unat (di_size ino). file_byte ino1 (dev_view d1) p = file_byte ino (dev_view d) p"
    by (rule resize_grow_own[OF inv le rm'])
  have off: "di_size ino < di_size ino1" "0 < (of_nat n :: u32)" "unat (di_size ino) + unat (of_nat n :: u32) < 2 ^ 31"
    using n un sum g(3) by (simp_all add: word_less_nat_alt)
  have c: "n = min (unat (of_nat n :: u32)) (unat (di_size ino1) - unat (di_size ino))" using un sum g(3) by simp
  obtain d2 where w: "write_data (di_size ino) e (of_nat n) now ino1 d1 = (int n, update_meta 3 now ino1, d2)"
    "own_step bm {} ino1 d1 (update_meta 3 now ino1) d2"
    "\<forall>p < unat (di_size ino1). file_byte ino1 (dev_view d2) p = (if unat (di_size ino) \<le> p \<and> p < unat (di_size ino) + n
        then e (p - unat (di_size ino)) else file_byte ino1 (dev_view d1) p)"
    "room bm (dev_view d2) = room bm (dev_view d1)"
    by (rule write_data_own[OF own_stepD(1)[OF g(2)] off c])
  have "fbytes (update_meta 3 now ino1) d2 = pwrite_bytes (unat (di_size ino)) (mem_bytes e n) [] (fbytes ino d)"
    by (rule fbytes_pwrite[where ?ino2.0 = ino1 and ?d2.0 = d1]) (use g(3,6) sum w(3) in simp_all)
  then have fb: "fbytes (update_meta 3 now ino1) d2 = fbytes ino d @ mem_bytes e n" by (simp add: pwrite_bytes_def)
  have ap: "append_entries e n bm now ino d = (kSuccess, update_meta 3 now ino1, d2)"
    using g(1,3) w(1) by (simp add: append_entries_def)
  show ?thesis
    by (rule that[OF ap own_step_trans[OF g(2) w(2), simplified] same_attrs_trans[OF g(4) same_attrs_meta] fb])
      (simp add: w(4) g(5))
qed

lemma root_room:
  assumes "lay_ok fs" "\<forall>b. b \<notin> bm_region (inode_bitmap fs) \<longrightarrow> V b = dev_view (device fs) b"
  shows "room (data_bitmap fs) V = room (data_bitmap fs) (dev_view (device fs))"
proof
  show "room (data_bitmap fs) V k = room (data_bitmap fs) (dev_view (device fs)) k" for k
    by (rule room_cong[OF lay_bitmaps(1)[OF assms(1)]]) (use assms(2) lay_disjoint(2)[OF assms(1)] in blast)
qed

text \<open>A disk inode as the handlers pass it to \<open>create\<close>: without data.\<close>

definition fresh_inode :: "DiskInode \<Rightarrow> bool" where
  "fresh_inode ino \<longleftrightarrow> di_size ino = 0 \<and> DiskInode_wf ino \<and> indirect1 ino = 0 \<and> indirect2 ino = 0"

text \<open>A free inode, and blocks for one more entry of a directory of \<open>sz\<close> bytes and for \<open>m\<close> more.\<close>

definition room_for_entry :: "sbfs \<Rightarrow> nat \<Rightarrow> nat \<Rightarrow> bool" where
  "room_for_entry fs sz m \<longleftrightarrow> room (data_bitmap fs) (dev_view (device fs)) (tree_size (nblocks (sz + 256)) - tree_size (nblocks sz) + m) \<and>
     card (live fs) + 1 + ibm_blocks fs < 32768 * ibm_blocks fs \<and> sz + 256 < 2 ^ 31"

lemma room_write_inode:
  assumes h: "held fs F S d" and k: "F k = Some jno" and w: "write_inode (getDiskInodePos k fs) ino d = (r, d')"
  shows "room (data_bitmap fs) (dev_view d') = room (data_bitmap fs) (dev_view d)"
proof
  note hd = heldD[OF h]
  let ?p = "getDiskInodePos k fs"
  have v: "valid_id fs k" by (rule hd(6)[OF k])
  have pb: "unat (pos_block_id ?p) < dev_blocks d" using pos_ok_used(1)[OF hd(9) pos_valid(2)[OF hd(1) v]] .
  obtain d2 where w2: "write_inode ?p ino d = (kSuccess, d2)" "dev_ok d2" "same_geometry d d2"
    "dev_view d2 = (dev_view d)(pos_block_id ?p := put_inode (dev_view d (pos_block_id ?p)) (unat (pos_block_offset ?p)) ino)"
    by (rule write_inode_ok[OF hd(2) pb])
  have e: "d' = d2" using w w2(1) by simp
  show "room (data_bitmap fs) (dev_view d') m = room (data_bitmap fs) (dev_view d) m" for m
    unfolding e by (rule room_cong[OF hd(9)]) (use w2(4) lay_disjoint(1)[OF hd(1) pos_in_area[OF hd(1) v]] in auto)
qed

text \<open>The second half of \<open>create\<close>: the entries of a new directory, and both inodes written.\<close>

lemma create_finish:
  assumes h: "held fs F {p, k} d" and F: "F k = Some ino" "F p = Some cur" "k \<noteq> p" and new: "fresh_inode ino"
    and rm: "room (data_bitmap fs) (dev_view d) (Suc m)"
  obtains ino' d1 d2 d3 where
    "(if di_type ino = kDirectory then append_entries (DirEntry2 (DirEntry dot k) (DirEntry dotdot p)) 512 (data_bitmap fs) now ino d
      else (kSuccess, ino, d)) = (kSuccess, ino', d1)"
    "write_inode (getDiskInodePos k fs) ino' d1 = (kSuccess, d2)" "write_inode (getDiskInodePos p fs) cur d2 = (kSuccess, d3)"
    "held fs (F(k \<mapsto> ino')) {} d3" "cont (F(k \<mapsto> ino')) d3 = (cont F d)(k \<mapsto> (di_type ino,
       if di_type ino = kDirectory then mem_bytes (DirEntry2 (DirEntry dot k) (DirEntry dotdot p)) 512 else []))"
    "same_attrs ino ino'" "room (data_bitmap fs) (dev_view d3) m"
proof -
  note hd = heldD[OF h]
  let ?e = "DirEntry2 (DirEntry dot k) (DirEntry dotdot p)"
  obtain ino' d1 where a: "(if di_type ino = kDirectory then append_entries ?e 512 (data_bitmap fs) now ino d
      else (kSuccess, ino, d)) = (kSuccess, ino', d1)" "own_step (data_bitmap fs) {} ino d ino' d1" "same_attrs ino ino'"
    "room (data_bitmap fs) (dev_view d1) m" "fbytes ino' d1 = (if di_type ino = kDirectory then mem_bytes ?e 512 else [])"
  proof (cases "di_type ino = kDirectory")
    case True
    have z: "di_size ino = 0" using new by (simp add: fresh_inode_def)
    have r: "room (data_bitmap fs) (dev_view d) (tree_size (nblocks (unat (di_size ino) + 512)) - tree_size (ndata ino) + m)"
      using rm by (simp add: z unat_data_blocks tree_size_def)
    obtain ino' d1 where ap: "append_entries ?e 512 (data_bitmap fs) now ino d = (kSuccess, ino', d1)"
      "own_step (data_bitmap fs) {} ino d ino' d1" "same_attrs ino ino'" "fbytes ino' d1 = fbytes ino d @ mem_bytes ?e 512"
      "room (data_bitmap fs) (dev_view d1) m"
      by (rule append_ok[OF hd(10)[OF F(1)] _ _ r]) (simp_all add: z)
    have "fbytes ino d = []" by (simp add: fbytes_def z)
    then show ?thesis using that[of ino' d1] True ap by simp
  next
    case False
    have "fbytes ino d = []" using new by (simp add: fbytes_def fresh_inode_def)
    moreover have "room (data_bitmap fs) (dev_view d) m" using rm by (simp add: room_def)
    ultimately show ?thesis using that[OF _ same_tree_step[OF hd(10)[OF F(1)], of ino]] False by (simp add: same_tree_def)
  qed
  have ty: "di_type ino' = di_type ino" using a(3) by (simp add: same_attrs_def)
  note s = held_step[OF h F(1) a(2)]
  obtain d2 where w2: "write_inode (getDiskInodePos k fs) ino' d1 = (kSuccess, d2)" "held fs (F(k \<mapsto> ino')) (insert k {p, k} - {k}) d2"
    "cont (F(k \<mapsto> ino')) d2 = cont (F(k \<mapsto> ino')) d1"
    by (rule held_write[OF s(1)]) auto
  have e: "insert k {p, k} - {k} = {p}" using F(3) by auto
  obtain d3 where w3: "write_inode (getDiskInodePos p fs) cur d2 = (kSuccess, d3)" "held fs (F(k \<mapsto> ino')) ({p} - {p}) d3"
    "cont (F(k \<mapsto> ino')) d3 = cont (F(k \<mapsto> ino')) d2"
    by (rule held_write[OF w2(2)[unfolded e], of p cur]) (use F in auto)
  have F': "(F(k \<mapsto> ino')) k = Some ino'" "(F(k \<mapsto> ino')) p = Some cur" using F by simp_all
  have "room (data_bitmap fs) (dev_view d3) m"
    using a(4) room_write_inode[OF s(1) F'(1) w2(1)] room_write_inode[OF w2(2) F'(2) w3(1)] by simp
  with w3(2) show ?thesis
    by (intro that[OF a(1) w2(1) w3(1) _ _ a(3)]) (use w3(3) w2(3) s(2) ty a(5) in simp_all)
qed

text \<open>The first half: the parent read, the inode allocated, the entry appended.\<close>

lemma create_parent:
  assumes inv: "fs_inv fs" and p: "contents fs p = Some (kDirectory, old)" and new: "fresh_inode ino"
    and rm: "room_for_entry fs (length old) m"
  obtains cur k d1 d2 cur' d3 where "read_inode (getDiskInodePos p fs) zero_inode (device fs) = (kSuccess, cur, d1)"
    "bitmap_alloc (inode_bitmap fs) d1 = (k, d2)" "k \<notin> live fs" "k \<noteq> p"
    "append_entries (DirEntry name k) 256 (data_bitmap fs) now cur d2 = (kSuccess, cur', d3)"
    "held fs ((files fs)(k \<mapsto> ino, p \<mapsto> cur')) {p, k} d3" "room (data_bitmap fs) (dev_view d3) m" "di_type cur = kDirectory"
    "cont ((files fs)(k \<mapsto> ino, p \<mapsto> cur')) d3 =
       (contents fs)(k \<mapsto> (di_type ino, []), p \<mapsto> (kDirectory, old @ mem_bytes (DirEntry name k) 256))" "same_attrs (inode_at fs p) cur'"
proof -
  note f = fs_invD[OF inv] and c = contents_live[OF p] and h0 = held_start[OF inv]
  define cur where "cur = inode_at fs p"
  have F: "files fs p = Some cur" using f(6)[OF c(1)] by (simp add: cur_def)
  obtain d1 where d1: "read_inode (getDiskInodePos p fs) zero_inode (device fs) = (kSuccess, cur, d1)" "held fs (files fs) {} d1"
    "cont (files fs) d1 = cont (files fs) (device fs)" "dev_view d1 = dev_view (device fs)"
    by (rule held_read[OF h0 F]) auto
  have fr: "card (dom (files fs)) + 1 + ibm_blocks fs < 32768 * ibm_blocks fs" "length old + 256 < 2 ^ 31"
    using rm f(3) by (simp_all add: room_for_entry_def)
  obtain k d2 where d2: "bitmap_alloc (inode_bitmap fs) d1 = (k, d2)" "k \<notin> dom (files fs)"
    "held fs ((files fs)(k \<mapsto> ino)) {k} d2" "cont ((files fs)(k \<mapsto> ino)) d2 = (cont (files fs) d1)(k \<mapsto> (di_type ino, []))"
    "\<forall>b. b \<notin> bm_region (inode_bitmap fs) \<longrightarrow> dev_view d2 b = dev_view d1 b"
    by (rule held_alloc[OF d1(2) fr(1), of ino]) (use new in \<open>simp_all add: fresh_inode_def\<close>)
  have kp: "k \<noteq> p" using d2(2) F by auto
  have F2: "((files fs)(k \<mapsto> ino)) p = Some cur" using F kp by simp
  have old: "length old = unat (di_size cur)" "old = fbytes cur d1" using c(2) d1(4) by (simp_all add: cur_def fbytes_def)
  have rm2: "room (data_bitmap fs) (dev_view d2) (tree_size (nblocks (unat (di_size cur) + 256)) - tree_size (ndata cur) + m)"
    using rm root_room[OF f(1), of "dev_view d2"] d2(5) d1(4) by (simp add: room_for_entry_def old(1) unat_data_blocks)
  obtain cur' d3 where d3: "append_entries (DirEntry name k) 256 (data_bitmap fs) now cur d2 = (kSuccess, cur', d3)"
    "own_step (data_bitmap fs) {} cur d2 cur' d3" "same_attrs cur cur'" "fbytes cur' d3 = fbytes cur d2 @ mem_bytes (DirEntry name k) 256"
    "room (data_bitmap fs) (dev_view d3) m"
    by (rule append_ok[OF heldD(10)[OF d2(3) F2] _ _ rm2]) (use fr(2) old(1) in simp_all)
  note s = held_step[OF d2(3) F2 d3(2)]
  have "fbytes cur d2 = old" using fun_cong[OF d2(4), of p] F kp c(3) old(2) by (simp add: cont_def)
  moreover have ty: "di_type cur = kDirectory" "di_type cur' = kDirectory" using c(3) d3(3) by (simp_all add: cur_def same_attrs_def)
  ultimately have ct: "cont ((files fs)(k \<mapsto> ino, p \<mapsto> cur')) d3 =
       (contents fs)(k \<mapsto> (di_type ino, []), p \<mapsto> (kDirectory, old @ mem_bytes (DirEntry name k) 256))"
    unfolding s(2) d2(4) d1(3) contents_cont by (simp add: d3(4))
  show ?thesis by (rule that[OF d1(1) d2(1) _ kp d3(1) s(1) d3(5) ty(1) ct d3(3)[unfolded cur_def]]) (use d2(2) f(3) in simp)
qed

lemma inode_create_ok:
  assumes "fs_inv fs" "contents fs p = Some (kDirectory, old)" "256 dvd length old" "name_ok name"
    and "fresh_inode ino" "di_type ino = t" "room_for_entry fs (length old) (Suc m)"
  shows "\<exists>k bs ino' fs'. inode_create name ino inode now (getDiskInodePos p fs) fs =
      (kSuccess, ino', \<lparr>ino_pos = getDiskInodePos k fs, ino_fs = True\<rparr>, fs') \<and> fs_inv fs' \<and> k \<notin> dom (contents fs) \<and>
     contents fs' = (contents fs)(p \<mapsto> (kDirectory, old @ mem_bytes (DirEntry name k) 256), k \<mapsto> (t, bs)) \<and>
     entries (old @ mem_bytes (DirEntry name k) 256) = entries old @ [(name, k)] \<and>
     entries bs = (if t = kDirectory then [(dot, k), (dotdot, p)] else []) \<and> length bs \<le> 512 \<and> 256 dvd length bs \<and>
     inode_at fs' k = ino' \<and> same_attrs ino ino' \<and> room (data_bitmap fs') (dev_view (device fs')) m \<and>
     fs' = fs\<lparr>device := device fs'\<rparr> \<and> attrs fs' = (attrs fs)(k \<mapsto> attr_of ino)"
proof -
  obtain cur k d1 d2 cur' d3 where c: "read_inode (getDiskInodePos p fs) zero_inode (device fs) = (kSuccess, cur, d1)"
    "bitmap_alloc (inode_bitmap fs) d1 = (k, d2)" "k \<notin> live fs" "k \<noteq> p"
    "append_entries (DirEntry name k) 256 (data_bitmap fs) now cur d2 = (kSuccess, cur', d3)"
    "held fs ((files fs)(k \<mapsto> ino, p \<mapsto> cur')) {p, k} d3" "room (data_bitmap fs) (dev_view d3) (Suc m)" "di_type cur = kDirectory"
    "cont ((files fs)(k \<mapsto> ino, p \<mapsto> cur')) d3 =
       (contents fs)(k \<mapsto> (di_type ino, []), p \<mapsto> (kDirectory, old @ mem_bytes (DirEntry name k) 256))" "same_attrs (inode_at fs p) cur'"
    by (rule create_parent[OF assms(1,2,5,7)])
  define G where "G = (files fs)(k \<mapsto> ino, p \<mapsto> cur')"
  have G: "G k = Some ino" "G p = Some cur'" using c(4) by (simp_all add: G_def)
  obtain ino' d4 d5 d6 where fin: "(if di_type ino = kDirectory then append_entries (DirEntry2 (DirEntry dot k) (DirEntry dotdot p)) 512 (data_bitmap fs) now ino d3
      else (kSuccess, ino, d3)) = (kSuccess, ino', d4)"
    "write_inode (getDiskInodePos k fs) ino' d4 = (kSuccess, d5)" "write_inode (getDiskInodePos p fs) cur' d5 = (kSuccess, d6)"
    "held fs (G(k \<mapsto> ino')) {} d6" "cont (G(k \<mapsto> ino')) d6 = (cont G d3)(k \<mapsto> (di_type ino,
       if di_type ino = kDirectory then mem_bytes (DirEntry2 (DirEntry dot k) (DirEntry dotdot p)) 512 else []))"
    "same_attrs ino ino'" "room (data_bitmap fs) (dev_view d6) m"
    by (rule create_finish[OF c(6)[folded G_def] G c(4) assms(5) c(7)])
  have run: "inode_create name ino inode now (getDiskInodePos p fs) fs =
      (kSuccess, ino', \<lparr>ino_pos = getDiskInodePos k fs, ino_fs = True\<rparr>, fs\<lparr>device := d6\<rparr>)"
    using c(1,2,5,8) fin(1-3) by (cases "di_type ino = kDirectory")
      (simp_all add: inode_create_def alloc_inode_def sizeof_DirEntry_def getDiskInodeId_pos Let_def)
  note e = held_end[OF fin(4)]
  let ?bs = "if t = kDirectory then mem_bytes (DirEntry2 (DirEntry dot k) (DirEntry dotdot p)) 512 else []"
  have "contents (fs\<lparr>device := d6\<rparr>) = (contents fs)(p \<mapsto> (kDirectory, old @ mem_bytes (DirEntry name k) 256), k \<mapsto> (t, ?bs))"
    unfolding e(3) fin(5) c(9)[folded G_def] using assms(6) c(4) by (simp add: fun_upd_twist)
  moreover have "k \<notin> dom (contents fs)" using c(3) by (auto simp: contents_def files_def)
  moreover have "entries ?bs = (if t = kDirectory then [(dot, k), (dotdot, p)] else [])" by (simp add: entries_DirEntry2)
  moreover have "inode_at (fs\<lparr>device := d6\<rparr>) k = ino'"
    using fun_cong[OF e(2), of k] by (simp add: files_def split: if_splits)
  moreover have "attrs (fs\<lparr>device := d6\<rparr>) = (attrs fs)(k \<mapsto> attr_of ino)"
  proof
    have "files fs p = Some (inode_at fs p)" by (rule fs_invD(6)[OF assms(1) contents_live(1)[OF assms(2)]])
    then show "attrs (fs\<lparr>device := d6\<rparr>) j = ((attrs fs)(k \<mapsto> attr_of ino)) j" for j
      using attr_same[OF c(10)] attr_same[OF fin(6)] by (simp add: attrs_def e(2) G_def)
  qed
  moreover have "length ?bs \<le> 512" "256 dvd length ?bs" "room (data_bitmap (fs\<lparr>device := d6\<rparr>)) (dev_view (device (fs\<lparr>device := d6\<rparr>))) m"
    "fs\<lparr>device := d6\<rparr> = fs\<lparr>device := device (fs\<lparr>device := d6\<rparr>)\<rparr>"
    using fin(7) by simp_all
  ultimately show ?thesis using run e(1) entries_append[OF assms(3,4)] fin(6) by blast
qed

text \<open>C26: creating a file or a directory allocates an inode that was free, gives it empty contents, or the
  entries \<open>"."\<close> and \<open>".."\<close>, and appends an entry with its name to the parent; no other file changes and
  the file system stays well-formed.\<close>

theorem inode_create_refines:
  assumes "fs_inv fs" "contents fs p = Some (kDirectory, old)" "256 dvd length old" "name_ok name"
    and "fresh_inode ino" "di_type ino = t" "room_for_entry fs (length old) 1"
  shows "\<exists>k bs ino' fs'. inode_create name ino inode now (getDiskInodePos p fs) fs =
      (kSuccess, ino', \<lparr>ino_pos = getDiskInodePos k fs, ino_fs = True\<rparr>, fs') \<and> fs_inv fs' \<and> k \<notin> dom (contents fs) \<and>
     contents fs' = (contents fs)(p \<mapsto> (kDirectory, old @ mem_bytes (DirEntry name k) 256), k \<mapsto> (t, bs)) \<and>
     entries (old @ mem_bytes (DirEntry name k) 256) = entries old @ [(name, k)] \<and>
     entries bs = (if t = kDirectory then [(dot, k), (dotdot, p)] else [])"
  using inode_create_ok[OF assms(1-6), of 0] assms(7) by fastforce

lemma new_entry_room: "m \<le> 32767 \<Longrightarrow> room_for_entry new_fs 512 m"
proof -
  assume "m \<le> 32767"
  then have "room (data_bitmap new_fs) (dev_view (device new_fs)) (tree_size (nblocks (512 + 256)) - tree_size (nblocks 512) + m)"
    by (intro new_room) (simp add: tree_size_def)
  then show ?thesis by (simp add: room_for_entry_def new_facts)
qed

lemma fresh_new [simp]: "fresh_inode (DiskInode_new t now uid gid)"
  by (simp add: fresh_inode_def DiskInode_new_def DiskInode_wf_def)

theorem inode_create_refines_witness:
  "\<exists>k ino' fs' old bs. inode_create [0x61] (DiskInode_new kDirectory 0 0 0) Inode_invalid 1 (getDiskInodePos 2 new_fs) new_fs =
      (kSuccess, ino', \<lparr>ino_pos = getDiskInodePos k new_fs, ino_fs = True\<rparr>, fs') \<and>
     contents fs' = [2 \<mapsto> (kDirectory, old), k \<mapsto> (kDirectory, bs)] \<and>
     entries old = [(dot, 2), (dotdot, 2), ([0x61], k)] \<and> entries bs = [(dot, k), (dotdot, 2)]"
proof -
  obtain bs where b: "contents new_fs = [2 \<mapsto> (kDirectory, bs)]" "entries bs = [(dot, 2), (dotdot, 2)]" "length bs = 512"
    by (rule new_root)
  have c: "contents new_fs 2 = Some (kDirectory, bs)" by (simp add: b(1))
  have n: "name_ok [0x61]" "256 dvd length bs" "di_type (DiskInode_new kDirectory 0 0 0) = kDirectory"
    "room_for_entry new_fs (length bs) 1"
    using new_entry_room by (simp_all add: name_ok_def kMaxDirNameLength_def b(3) DiskInode_new_def)
  show ?thesis
    using inode_create_refines[OF new_ok(1) c n(2,1) fresh_new n(3,4), of Inode_invalid 1] b(1,2) by fastforce
qed

end
