(* ===== verification/Read_Only.thy ===== *)
theory Read_Only
  imports Inode_Ops
begin

text \<open>
  The operations that only read, down from \<open>inode_find\<close>, see of the device no more than its blocks:
  on two devices that present the same blocks, whatever their caches and disk files hold, they
  return the same, and they leave the blocks as they are. This holds for every contents of the
  blocks, well-formed or not.
\<close>

section \<open>Devices that present the same blocks\<close>

definition twin :: "dev \<Rightarrow> dev \<Rightarrow> bool" where
  "twin d e \<longleftrightarrow> dev_ok d \<and> dev_ok e \<and> dev_view d = dev_view e \<and> dev_blocks d = dev_blocks e"

lemma twin_refl: "dev_ok d \<Longrightarrow> twin d d"
  by (simp add: twin_def)

lemma twin_sym: "twin d e \<Longrightarrow> twin e d"
  by (simp add: twin_def)

lemma twin_trans [trans]: "twin d e \<Longrightarrow> twin e f \<Longrightarrow> twin d f"
  by (simp add: twin_def)

lemma twin_after: "dev_ok d \<Longrightarrow> dev_ok d' \<Longrightarrow> dev_view d' = dev_view d \<Longrightarrow> same_geometry d d' \<Longrightarrow> twin d d'"
  by (simp add: twin_def same_geometry_def)

lemma dev_read_twin:
  assumes "twin d e"
  obtains r x d' e' where "dev_read b buf d = (r, x, d')" "dev_read b buf e = (r, x, e')" "twin d d'" "twin d' e'"
proof (cases "unat b < dev_blocks d")
  case True
  obtain d' where d': "dev_read b buf d = (kSuccess, dev_view d b, d')" "dev_ok d'" "dev_view d' = dev_view d"
    "same_geometry d d'" using dev_read_ok[of d b buf] True assms by (auto simp: twin_def)
  obtain e' where e': "dev_read b buf e = (kSuccess, dev_view d b, e')" "dev_ok e'" "dev_view e' = dev_view e"
    "same_geometry e e'" using dev_read_ok[of e b buf] True assms by (auto simp: twin_def)
  have "twin d d'" "twin e e'" using assms d' e' by (auto simp: twin_def same_geometry_def)
  then have "twin d' e'" using assms by (simp add: twin_def)
  then show ?thesis using that d'(1) e'(1) \<open>twin d d'\<close> by blast
next
  case False
  obtain d' where d': "dev_read b buf d = (kFail, buf, d')" "dev_ok d'" "dev_view d' = dev_view d"
    "same_geometry d d'" using dev_read_beyond[of d b buf] False assms by (auto simp: twin_def)
  obtain e' where e': "dev_read b buf e = (kFail, buf, e')" "dev_ok e'" "dev_view e' = dev_view e"
    "same_geometry e e'" using dev_read_beyond[of e b buf] False assms by (auto simp: twin_def)
  have "twin d d'" "twin e e'" using assms d' e' by (auto simp: twin_def same_geometry_def)
  then have "twin d' e'" using assms by (simp add: twin_def)
  then show ?thesis using that d'(1) e'(1) \<open>twin d d'\<close> by blast
qed

section \<open>Reading inodes and data\<close>

lemma read_inode_twin:
  assumes "twin d e"
  obtains r x d' e' where "read_inode pos buf d = (r, x, d')" "read_inode pos buf e = (r, x, e')" "twin d d'" "twin d' e'"
proof -
  obtain r x d' e' where "dev_read (pos_block_id pos) zero_block d = (r, x, d')"
    "dev_read (pos_block_id pos) zero_block e = (r, x, e')" "twin d d'" "twin d' e'"
    by (rule dev_read_twin[OF assms])
  then show ?thesis by (cases "r = kFail") (auto simp: read_inode_def intro: that)
qed

lemma block_id_twin:
  assumes "twin d e"
  obtains r d' e' where "block_id i ino d = (r, d')" "block_id i ino e = (r, e')" "twin d d'" "twin d' e'"
proof -
  obtain r1 x1 d1 e1 where 1: "dev_read (indirect1 ino) zero_block d = (r1, x1, d1)"
    "dev_read (indirect1 ino) zero_block e = (r1, x1, e1)" "twin d d1" "twin d1 e1"
    by (rule dev_read_twin[OF assms])
  obtain r2 x2 d2 e2 where 2: "dev_read (indirect2 ino) zero_block d = (r2, x2, d2)"
    "dev_read (indirect2 ino) zero_block e = (r2, x2, e2)" "twin d d2" "twin d2 e2"
    by (rule dev_read_twin[OF assms])
  define c where "c = get_u32 x2 (4 * ((unat i - INODE_DIRECT_COUNT - INODE_INDIRECT_COUNT) div INODE_INDIRECT_COUNT))"
  obtain r3 x3 d3 e3 where 3: "dev_read c zero_block d2 = (r3, x3, d3)"
    "dev_read c zero_block e2 = (r3, x3, e3)" "twin d2 d3" "twin d3 e3"
    by (rule dev_read_twin[OF 2(4)])
  have "twin d d3" by (rule twin_trans[OF 2(3) 3(3)])
  consider "MAX_BLOCK_SIZE \<le> i \<or> unat i < INODE_DIRECT_COUNT"
    | "\<not> MAX_BLOCK_SIZE \<le> i" "\<not> unat i < INODE_DIRECT_COUNT" "unat i < INODE_DIRECT_COUNT + INODE_INDIRECT_COUNT"
    | "\<not> MAX_BLOCK_SIZE \<le> i" "\<not> unat i < INODE_DIRECT_COUNT" "\<not> unat i < INODE_DIRECT_COUNT + INODE_INDIRECT_COUNT"
      "r2 \<noteq> kSuccess"
    | "\<not> MAX_BLOCK_SIZE \<le> i" "\<not> unat i < INODE_DIRECT_COUNT" "\<not> unat i < INODE_DIRECT_COUNT + INODE_INDIRECT_COUNT"
      "r2 = kSuccess" by blast
  then show ?thesis
  proof cases
    case 1
    have "twin d d" using assms by (simp add: twin_def)
    then show ?thesis using 1 assms by (cases "MAX_BLOCK_SIZE \<le> i") (auto simp: block_id_def intro: that)
  next
    case c: 2
    then show ?thesis using 1 by (cases "r1 = kSuccess") (auto simp: block_id_def intro: that)
  next
    case 3
    then show ?thesis using 2 by (auto simp: block_id_def intro: that)
  next
    case 4
    then show ?thesis using 2 3 \<open>twin d d3\<close>
      by (cases "r3 = kSuccess") (auto simp: block_id_def Let_def c_def intro: that)
  qed
qed

lemma read_blk_twin:
  assumes "twin d e"
  obtains r x d' e' where "read_blk i ino d = (r, x, d')" "read_blk i ino e = (r, x, e')" "twin d d'" "twin d' e'"
proof -
  obtain b d1 e1 where 1: "block_id i ino d = (b, d1)" "block_id i ino e = (b, e1)" "twin d d1" "twin d1 e1"
    by (rule block_id_twin[OF assms])
  obtain r x d' e' where 2: "dev_read b zero_block d1 = (r, x, d')" "dev_read b zero_block e1 = (r, x, e')"
    "twin d1 d'" "twin d' e'" by (rule dev_read_twin[OF 1(4)])
  show ?thesis using that[of r x d' e'] 1 2 twin_trans[OF 1(3) 2(3)] by (simp add: read_blk_def)
qed

lemma read_middle_twin:
  assumes "twin d e"
  obtains r n x d' e' where "read_middle js k buf ino d = (r, n, x, d')" "read_middle js k buf ino e = (r, n, x, e')"
    "twin d d'" "twin d' e'"
  using assms
proof (induction js arbitrary: d e k buf thesis)
  case Nil
  have "twin d d" using Nil(2) by (simp add: twin_def)
  then show ?case using Nil by simp
next
  case (Cons i js)
  obtain r x d1 e1 where 1: "read_blk (of_int i) ino d = (r, x, d1)" "read_blk (of_int i) ino e = (r, x, e1)"
    "twin d d1" "twin d1 e1" by (rule read_blk_twin[OF Cons.prems(2)])
  show ?case
  proof (cases "r = kSuccess")
    case True
    obtain r2 n x2 d2 e2 where 2:
      "read_middle js (k + kBlockSize) (memcpy buf k x 0 kBlockSize) ino d1 = (r2, n, x2, d2)"
      "read_middle js (k + kBlockSize) (memcpy buf k x 0 kBlockSize) ino e1 = (r2, n, x2, e2)"
      "twin d1 d2" "twin d2 e2" using Cons.IH[OF _ 1(4)] by blast
    show ?thesis using Cons.prems(1)[of r2 n x2 d2 e2] 1 2 True twin_trans[OF 1(3) 2(3)] by simp
  next
    case False
    then show ?thesis using Cons.prems(1)[of kFail k buf d1 e1] 1 by simp
  qed
qed

lemma read_data_twin:
  assumes "twin d e"
  obtains r x ino' d' e' where "read_data offset buf len now ino d = (r, x, ino', d')"
    "read_data offset buf len now ino e = (r, x, ino', e')" "twin d d'" "twin d' e'"
proof -
  define ino1 where "ino1 = update_meta 1 now ino"
  define c where "c = (if offset + len \<ge> di_size ino1 then di_size ino1 - offset else len)"
  define lid where "lid = pos_block offset"
  define rid where "rid = pos_block (offset + c)"
  define loff where "loff = pos_off offset"
  define roff where "roff = pos_off (offset + c)"
  note defs = ino1_def[symmetric] c_def[symmetric] lid_def[symmetric] rid_def[symmetric] loff_def[symmetric] roff_def[symmetric]
  obtain r1 x1 d1 e1 where 1: "read_blk lid ino1 d = (r1, x1, d1)" "read_blk lid ino1 e = (r1, x1, e1)"
    "twin d d1" "twin d1 e1" by (rule read_blk_twin[OF assms])
  obtain r2 n2 x2 d2 e2 where 2:
    "read_middle [sint lid + 1..sint rid - 1] (kBlockSize - loff) (memcpy buf 0 x1 loff (kBlockSize - loff)) ino1 d1 = (r2, n2, x2, d2)"
    "read_middle [sint lid + 1..sint rid - 1] (kBlockSize - loff) (memcpy buf 0 x1 loff (kBlockSize - loff)) ino1 e1 = (r2, n2, x2, e2)"
    "twin d1 d2" "twin d2 e2" by (rule read_middle_twin[OF 1(4)])
  obtain r3 x3 d3 e3 where 3: "read_blk rid ino1 d2 = (r3, x3, d3)" "read_blk rid ino1 e2 = (r3, x3, e3)"
    "twin d2 d3" "twin d3 e3" by (rule read_blk_twin[OF 2(4)])
  have t: "twin d d" "twin d d2" "twin d d3"
    using assms twin_trans[OF 1(3) 2(3)] twin_trans[OF twin_trans[OF 1(3) 2(3)] 3(3)] by (auto simp: twin_def)
  note eqs = 1(1,2) 2(1,2) 3(1,2)
  show ?thesis
  proof (cases "len = 0 \<or> offset > di_size ino1")
    case True
    then show ?thesis using that[OF _ _ t(1) assms] by (cases "len = 0") (simp_all add: read_data_def Let_def defs)
  next
    case False
    then have rd: "read_data offset buf len now ino d' = (if lid = rid then
          (let (r, data, d1) = read_blk lid ino1 d' in
           if r \<noteq> kSuccess then (kFail, buf, ino1, d1) else (sint c, memcpy buf 0 data loff (roff - loff), ino1, d1))
        else
          (let (r, data, d1) = read_blk lid ino1 d' in
           if r \<noteq> kSuccess then (kFail, buf, ino1, d1)
           else
             (let (r2, bufoffset, buf2, d2) = read_middle [sint lid + 1..sint rid - 1]
                    (kBlockSize - loff) (memcpy buf 0 data loff (kBlockSize - loff)) ino1 d1
              in if r2 \<noteq> kSuccess then (kFail, buf2, ino1, d2)
                 else if roff > 0 then
                   (let (r3, data3, d3) = read_blk rid ino1 d2 in
                    if r3 \<noteq> kSuccess then (kFail, buf2, ino1, d3)
                    else (sint c, memcpy buf2 bufoffset data3 0 roff, ino1, d3))
                 else (sint c, buf2, ino1, d2))))" for d'
      unfolding read_data_def Let_def rid_def roff_def lid_def loff_def c_def ino1_def by simp
    consider "lid = rid \<or> r1 \<noteq> kSuccess" | "lid \<noteq> rid" "r1 = kSuccess" "r2 \<noteq> kSuccess \<or> \<not> roff > 0"
      | "lid \<noteq> rid" "r1 = kSuccess" "r2 = kSuccess" "roff > 0" by blast
    then show ?thesis
    proof cases
      case 1
      then show ?thesis using that[OF _ _ \<open>twin d d1\<close> \<open>twin d1 e1\<close>] rd eqs
        by (cases "lid = rid"; cases "r1 = kSuccess") simp_all
    next
      case 2
      then show ?thesis using that[OF _ _ t(2) \<open>twin d2 e2\<close>] rd eqs by (cases "r2 = kSuccess") simp_all
    next
      case 3
      then show ?thesis using that[OF _ _ t(3) \<open>twin d3 e3\<close>] rd eqs by (cases "r3 = kSuccess") simp_all
    qed
  qed
qed

section \<open>Looking up names\<close>

lemma scan_dir_twin:
  assumes "twin d e"
  obtains s ino' d' e' where "scan_dir js blk name now ino d = (s, ino', d')"
    "scan_dir js blk name now ino e = (s, ino', e')" "twin d d'" "twin d' e'"
  using assms
proof (induction js arbitrary: d e blk ino thesis)
  case Nil
  have "twin d d" using Nil(2) by (simp add: twin_def)
  then show ?case using Nil by simp
next
  case (Cons i js)
  obtain r x ino1 d1 e1 where 1:
    "read_data (of_nat (i * sizeof_DirBlock)) blk (of_nat sizeof_DirBlock) now ino d = (r, x, ino1, d1)"
    "read_data (of_nat (i * sizeof_DirBlock)) blk (of_nat sizeof_DirBlock) now ino e = (r, x, ino1, e1)"
    "twin d d1" "twin d1 e1" by (rule read_data_twin[OF Cons.prems(2)])
  obtain s ino2 d2 e2 where 2: "scan_dir js x name now ino1 d1 = (s, ino2, d2)"
    "scan_dir js x name now ino1 e1 = (s, ino2, e2)" "twin d1 d2" "twin d2 e2"
    using Cons.IH[OF _ 1(4)] by blast
  have t: "twin d d2" by (rule twin_trans[OF 1(3) 2(3)])
  show ?case
  proof (cases "r = kFail \<or> scan_entries x name \<noteq> None")
    case True
    then show ?thesis using Cons.prems(1)[OF _ _ 1(3,4)] 1(1,2) by (cases "r = kFail") auto
  next
    case False
    then show ?thesis using Cons.prems(1)[OF _ _ t 2(4)] 1(1,2) 2(1,2) by simp
  qed
qed

lemma inode_find_twin:
  assumes "twin (device fs) e"
  shows "\<exists>r i d' e'. inode_find dirjunk name inode now pos fs = (r, i, fs\<lparr>device := d'\<rparr>) \<and>
     inode_find dirjunk name inode now pos (fs\<lparr>device := e\<rparr>) = (r, i, fs\<lparr>device := e'\<rparr>) \<and>
     twin (device fs) d' \<and> twin e e'"
proof -
  obtain r1 ino d1 e1 where 1: "read_inode pos zero_inode (device fs) = (r1, ino, d1)"
    "read_inode pos zero_inode e = (r1, ino, e1)" "twin (device fs) d1" "twin d1 e1"
    by (rule read_inode_twin[OF assms])
  obtain s ino' d2 e2 where 2: "dir_scan dirjunk name now ino d1 = (s, ino', d2)"
    "dir_scan dirjunk name now ino e1 = (s, ino', e2)" "twin d1 d2" "twin d2 e2"
    unfolding dir_scan_def by (rule scan_dir_twin[OF 1(4)])
  have t: "twin (device fs) d2" "twin e e1" "twin e e2"
    using assms 1(3,4) 2(3,4) by (auto simp: twin_def)
  have g: "getDiskInodePos i (fs\<lparr>device := e\<rparr>) = getDiskInodePos i fs" for i
    by (simp add: getDiskInodePos_def)
  show ?thesis
  proof (cases "r1 = kFail \<or> di_type ino \<noteq> kDirectory")
    case True
    then show ?thesis using 1 t(2) by (cases "r1 = kFail") (auto simp: inode_find_def)
  next
    case False
    then show ?thesis using 1(1,2) 2(1,2) t(1,3) by (cases s) (auto simp: inode_find_def g)
  qed
qed

text \<open>Looking up a name in a directory returns what the blocks of the device say, whatever the cache
  holds and whether or not the directory is well-formed, and changes no block: two file systems
  that present the same blocks give the same result.\<close>

theorem find_reads_only:
  assumes "twin (device fs) e"
  shows "\<exists>r i d' e'. inode_find dirjunk name inode now pos fs = (r, i, fs\<lparr>device := d'\<rparr>) \<and>
     inode_find dirjunk name inode now pos (fs\<lparr>device := e\<rparr>) = (r, i, fs\<lparr>device := e'\<rparr>) \<and>
     twin (device fs) d' \<and> twin e e'"
  by (rule inode_find_twin[OF assms])

definition small_fs :: sbfs where
  "small_fs = \<lparr>super_block = get_super zero_block, device = small_dev 2 (\<lambda>_. False), inode_bitmap = small_bitmap,
     data_bitmap = small_bitmap, inode_area_start_block = 4, data_area_start_block = 10\<rparr>"

theorem find_reads_only_witness:
  "\<exists>r i d'. inode_find zero_block dot Inode_invalid 0 \<lparr>pos_block_id = 4, pos_block_offset = 0\<rparr> small_fs =
      (r, i, small_fs\<lparr>device := d'\<rparr>) \<and> dev_view d' = (\<lambda>_. zero_block)"
proof -
  have "twin (device small_fs) (small_dev 1 (\<lambda>_. False))"
    by (simp add: twin_def small_fs_def small_dev_ok)
  then show ?thesis
    using find_reads_only[of small_fs "small_dev 1 (\<lambda>_. False)" zero_block dot Inode_invalid 0]
    by (fastforce simp: twin_def small_fs_def)
qed

end
