(* ===== verification/Dir_Find.thy ===== *)
theory Dir_Find
  imports Dir_Refine Read_Only
begin

text \<open>
  Looking up a name (\<open>Inode::find\<close>, and the loop it shares with \<open>link\<close>, \<open>unlink\<close> and \<open>remove\<close>): the scan over
  the blocks of a directory finds the first entry with the name. The loop runs over \<open>total_blocks\<close>,
  which counts index blocks, so it can read past the end of the directory; what it finds is right all
  the same.
\<close>

section \<open>The first entry with a name\<close>

definition first_entry :: "u8 list \<Rightarrow> cstring \<Rightarrow> nat \<Rightarrow> nat option" where
  "first_entry bs name q = List.find (\<lambda>q. fst (entry_at bs q) = name) [q..<length bs div 256]"

lemma find_append: "List.find P (xs @ ys) = (case List.find P xs of None \<Rightarrow> List.find P ys | Some x \<Rightarrow> Some x)"
  by (induction xs) auto

lemma find_map: "List.find P (map f xs) = map_option f (List.find (\<lambda>x. P (f x)) xs)"
  by (induction xs) auto

lemma upt_split: "a \<le> b \<Longrightarrow> b \<le> c \<Longrightarrow> [a..<b] @ [b..<c] = [a..<c]"
  by (metis le_add_diff_inverse upt_add_eq_append)

lemma first_entry_step:
  "q \<le> r \<Longrightarrow> r \<le> length bs div 256 \<Longrightarrow> first_entry bs name q =
     (case List.find (\<lambda>q. fst (entry_at bs q) = name) [q..<r] of None \<Rightarrow> first_entry bs name r | Some x \<Rightarrow> Some x)"
  unfolding first_entry_def by (subst find_append[symmetric]) (simp add: upt_split)

lemma map_of_find: "map_of (map f xs) k = map_option (\<lambda>x. snd (f x)) (List.find (\<lambda>x. fst (f x) = k) xs)"
  by (induction xs) auto

lemma map_of_entries: "map_of (entries bs) name = map_option (\<lambda>q. snd (entry_at bs q)) (first_entry bs name 0)"
  by (simp add: entries_def first_entry_def map_of_find)

lemma first_entry_bound: "first_entry bs name q = Some r \<Longrightarrow> q \<le> r \<and> r < length bs div 256 \<and> fst (entry_at bs r) = name"
  by (auto simp: first_entry_def find_Some_iff)

section \<open>Scanning a block\<close>

lemma scan_entries_iff:
  assumes "name_ok name"
  shows "scan_entries x name = List.find (\<lambda>j. entry_name x (256 * j) = name) [0..<16]"
  unfolding scan_entries_def using strcmp_entry_name[of name x] assms
  by (simp add: name_ok_def kDirEntries_def sizeof_DirEntry_def kBlockSize_def mult.commute cong: find_cong)

text \<open>What a block of the directory contributes: the buffer holds the entries of the directory as far as the
  read went, behind them what was there before.\<close>

lemma scan_block:
  assumes n: "name_ok name" and old: "scan_entries x name = None"
    and y: "\<And>b. b < c \<Longrightarrow> y b = bs ! (4096 * i + b)" "\<And>b. c \<le> b \<Longrightarrow> y b = x b"
    and c: "c = 256 * m" "m \<le> 16"
  shows "scan_entries y name = map_option (\<lambda>q. q - 16 * i) (List.find (\<lambda>q. fst (entry_at bs q) = name) [16 * i..<16 * i + m])"
    "j < m \<Longrightarrow> entry_at bs (16 * i + j) = (entry_name y (256 * j), DirEntry_inode y (256 * j))"
proof -
  have e: "entry_at bs (16 * i + j) = (entry_name y (256 * j), DirEntry_inode y (256 * j))" if "j < m" for j
    by (rule entry_at_cong) (use that c in \<open>simp add: y(1) algebra_simps\<close>)
  then show "j < m \<Longrightarrow> entry_at bs (16 * i + j) = (entry_name y (256 * j), DirEntry_inode y (256 * j))" .
  have rest: "entry_name y (256 * j) = entry_name x (256 * j)" if "m \<le> j" for j
    by (rule entry_name_cong) (use that c in \<open>simp add: y(2)\<close>)
  have "List.find (\<lambda>j. entry_name y (256 * j) = name) [m..<16] = None"
    using old rest unfolding scan_entries_iff[OF n] by (auto simp: find_None_iff)
  moreover have "[0..<16] = [0..<m] @ [m..<16]" using c(2) by (simp add: upt_split)
  ultimately have a: "scan_entries y name = List.find (\<lambda>j. entry_name y (256 * j) = name) [0..<m]"
    unfolding scan_entries_iff[OF n] by (simp add: find_append split: option.splits)
  have "map (\<lambda>j. j + 16 * i) [0..<m] = [16 * i..<16 * i + m]" by (simp add: map_add_upt add.commute)
  then have "List.find (\<lambda>q. fst (entry_at bs q) = name) [16 * i..<16 * i + m] =
      map_option (\<lambda>j. j + 16 * i) (List.find (\<lambda>j. fst (entry_at bs (j + 16 * i)) = name) [0..<m])"
    by (simp only: find_map flip: \<open>map (\<lambda>j. j + 16 * i) [0..<m] = _\<close>)
  also have "List.find (\<lambda>j. fst (entry_at bs (j + 16 * i)) = name) [0..<m] = List.find (\<lambda>j. entry_name y (256 * j) = name) [0..<m]"
    by (rule find_cong) (use e in \<open>auto simp: add.commute\<close>)
  finally show "scan_entries y name = map_option (\<lambda>q. q - 16 * i) (List.find (\<lambda>q. fst (entry_at bs q) = name) [16 * i..<16 * i + m])"
    by (simp add: a option.map_comp comp_def option.map_ident)
qed

section \<open>The loop\<close>

text \<open>Rounds past the end of the directory find nothing new.\<close>

lemma read_data_at_end:
  assumes "offset \<ge> di_size ino" "offset + len \<ge> di_size ino" "read_data offset buf len now ino d = (r, buf', ino', d')" "r \<noteq> kFail"
  shows "buf' = buf" "di_size ino' = di_size ino"
proof (atomize (full), cases "len = 0")
  case True
  then show "buf' = buf \<and> di_size ino' = di_size ino" using assms(3) by (auto simp: read_data_def Let_def)
next
  case False
  then have l: "0 < len" by (simp add: word_neq_0_conv)
  show "buf' = buf \<and> di_size ino' = di_size ino"
  proof (cases "offset = di_size ino")
    case True
    then show ?thesis using assms(2-4) \<open>len \<noteq> 0\<close>
      by (auto simp: read_data_def Let_def split: prod.splits if_splits)
  next
    case False
    then show ?thesis using assms read_data_past_end[OF _ l, of ino offset buf now d] by auto
  qed
qed

lemma scan_extra:
  assumes "\<forall>i \<in> set js. unat (di_size ino) \<le> 4096 * i \<and> 4096 * i + 4096 < 2 ^ 32" "scan_entries x name = None"
  shows "fst (scan_dir js x name now ino d) \<in> {Absent, ScanFail}"
  using assms
proof (induction js arbitrary: x ino d)
  case Nil
  then show ?case by simp
next
  case (Cons i js)
  let ?o = "of_nat (i * sizeof_DirBlock) :: u32" and ?l = "of_nat sizeof_DirBlock :: u32"
  obtain r y ino1 d1 where rd: "read_data ?o x ?l now ino d = (r, y, ino1, d1)" by (metis prod_cases4)
  have i: "unat (di_size ino) \<le> 4096 * i" "4096 * i + 4096 < 2 ^ 32" using Cons.prems(1) by simp_all
  have o: "unat ?o = 4096 * i" "unat ?l = 4096"
    using i(2) unat_of_nat_u32[of "i * 4096"] by (simp_all add: sizeof_DirBlock_def kBlockSize_def)
  have le: "di_size ino \<le> ?o" "di_size ino \<le> ?o + ?l"
    using i o by (simp_all add: word_le_nat_alt unat_add_u32)
  show ?case
  proof (cases "r = kFail")
    case True
    then show ?thesis unfolding scan_dir.simps rd by simp
  next
    case False
    note e = read_data_at_end[OF le rd False]
    show ?thesis unfolding scan_dir.simps rd using Cons.IH[of ino1 y d1] Cons.prems e False by simp
  qed
qed

text \<open>The rounds over the blocks of the directory.\<close>

definition scan_result :: "u8 list \<Rightarrow> cstring \<Rightarrow> nat \<Rightarrow> bool \<Rightarrow> scan \<Rightarrow> bool" where
  "scan_result bs name q extra s \<longleftrightarrow> (case first_entry bs name q of
     Some r \<Rightarrow> \<exists>y. s = Found (r div 16) (r mod 16) y \<and> entry_name y (r mod 16 * 256) = name \<and>
       DirEntry_inode y (r mod 16 * 256) = snd (entry_at bs r)
   | None \<Rightarrow> s = Absent \<or> extra \<and> s = ScanFail)"

lemma read_dir_block:
  assumes inv: "file_inv bm ino d" and bs: "bs = fbytes ino d" "256 dvd length bs" "length bs + 8192 < 2 ^ 31" and i: "i < ndata ino"
  obtains m y d' where "read_data (of_nat (i * sizeof_DirBlock)) x (of_nat sizeof_DirBlock) now ino d =
      (int (256 * m), y, update_meta 1 now ino, d')" "dev_ok d'" "dev_view d' = dev_view d" "same_geometry d d'"
    "\<forall>b < 256 * m. y b = bs ! (4096 * i + b)" "\<forall>b \<ge> 256 * m. y b = x b" "m \<le> 16" "16 * i + m \<le> length bs div 256"
    "m < 16 \<longrightarrow> 16 * i + m = length bs div 256"
proof -
  have sz: "4096 * i < unat (di_size ino)" using i by (simp add: unat_data_blocks)
  have len: "length bs = unat (di_size ino)" using bs by simp
  let ?o = "of_nat (i * sizeof_DirBlock) :: u32" and ?l = "of_nat sizeof_DirBlock :: u32"
  have o: "unat ?o = 4096 * i" "unat ?l = 4096"
    using sz bs(3) len unat_of_nat_u32[of "i * 4096"] by (simp_all add: sizeof_DirBlock_def kBlockSize_def)
  obtain e where e: "unat (di_size ino) = 256 * e" using bs(2) len by auto
  define m where "m = min 16 (e - 16 * i)"
  have c: "256 * m = min (unat ?l) (unat (di_size ino) - unat ?o)" unfolding o e m_def by simp
  have r: "?o < di_size ino" "0 < ?l" "unat ?o + unat ?l < 2 ^ 31" using sz o len bs(3) by (simp_all only: word_less_nat_alt) simp_all
  obtain d' where rd: "read_data ?o x ?l now ino d =
      (int (256 * m), filled ino (dev_view d) (unat ?o) x (256 * m), update_meta 1 now ino, d')"
    "dev_ok d'" "dev_view d' = dev_view d" "same_geometry d d'"
    by (rule read_data_ok[OF file_inv_ok[OF inv] r c])
  show ?thesis
  proof (rule that[OF rd])
    show "\<forall>b < 256 * m. filled ino (dev_view d) (unat ?o) x (256 * m) b = bs ! (4096 * i + b)"
      unfolding o using e by (auto simp: filled_def bs(1) m_def fbytes_nth)
    show "16 * i + m \<le> length bs div 256" "m < 16 \<longrightarrow> 16 * i + m = length bs div 256"
      using sz unfolding len e m_def by auto
  qed (simp_all add: filled_def m_def)
qed

lemma first_entry_end: "length bs = unat (di_size ino) \<Longrightarrow> first_entry bs name (16 * ndata ino) = None"
  by (auto simp: first_entry_def unat_data_blocks)

text \<open>From the end of the directory on the scan finds nothing, but a round may fail.\<close>

lemma scan_past_end:
  assumes "length bs = unat (di_size ino)" "N * 4096 < 2 ^ 32" "scan_entries x name = None"
  shows "scan_result bs name (16 * ndata ino) (ndata ino < N) (fst (scan_dir [ndata ino..<N] x name now ino d))"
proof (cases "ndata ino < N")
  case True
  have "unat (di_size ino) \<le> 4096 * j \<and> 4096 * j + 4096 < 2 ^ 32" if "j \<in> set [ndata ino..<N]" for j
    using that assms(2) size_data_blocks[of "di_size ino"] by auto
  then have "fst (scan_dir [ndata ino..<N] x name now ino d) \<in> {Absent, ScanFail}"
    by (intro scan_extra) (use assms(3) in auto)
  then show ?thesis using True first_entry_end[OF assms(1)] by (auto simp: scan_result_def)
next
  case False
  then show ?thesis using first_entry_end[OF assms(1)] by (simp add: scan_result_def)
qed

text \<open>A round that finds the name.\<close>

lemma scan_hit:
  assumes q: "List.find (\<lambda>q. fst (entry_at bs q) = name) [16 * i..<16 * i + m] = Some q"
    and m: "m \<le> 16" "16 * i + m \<le> length bs div 256"
    and e: "\<And>j. j < m \<Longrightarrow> entry_at bs (16 * i + j) = (entry_name y (256 * j), DirEntry_inode y (256 * j))"
  shows "scan_result bs name (16 * i) extra (Found i (q - 16 * i) y)"
proof -
  have b: "16 * i \<le> q" "q < 16 * i + m" using q by (auto simp: find_Some_iff)
  then have dm: "q div 16 = i" using m(1) by auto
  then have dm': "q mod 16 = q - 16 * i" by (metis minus_mult_div_eq_mod)
  have fe: "first_entry bs name (16 * i) = Some q"
    using first_entry_step[of "16 * i" "16 * i + m" bs name] m(2) q by simp
  have "entry_at bs q = (entry_name y ((q - 16 * i) * 256), DirEntry_inode y ((q - 16 * i) * 256))"
    using e[of "q - 16 * i"] b by (simp add: mult.commute[of 256])
  then show ?thesis using first_entry_bound[OF fe] by (simp add: scan_result_def fe dm dm')
qed

lemma scan_ok:
  assumes "file_inv bm ino d" "bs = fbytes ino d" "name_ok name" "256 dvd length bs" "length bs + 8192 < 2 ^ 31"
    and "scan_entries x name = None" "i \<le> ndata ino" "N * 4096 < 2 ^ 32" "ndata ino \<le> N"
  shows "\<exists>s ino' d'. scan_dir [i..<N] x name now ino d = (s, ino', d') \<and> scan_result bs name (16 * i) (ndata ino < N) s \<and>
     (N \<le> ndata ino \<or> first_entry bs name (16 * i) \<noteq> None \<longrightarrow> same_tree ino ino' \<and> same_attrs ino ino' \<and>
        dev_ok d' \<and> dev_view d' = dev_view d \<and> same_geometry d d')"
  using assms
proof (induction "ndata ino - i" arbitrary: i x ino d)
  case 0
  then have i: "i = ndata ino" and len: "length bs = unat (di_size ino)" by simp_all
  have "scan_dir [i..<N] x name now ino d = (Absent, ino, d)" if "N \<le> i" using that by simp
  then show ?case
    using scan_past_end[OF len "0.prems"(8,6), of now d] first_entry_end[OF len] file_inv_parts(2)[OF "0.prems"(1)]
    by (cases "scan_dir [i..<N] x name now ino d") (auto simp: i same_tree_def)
next
  case (Suc k)
  note inv = Suc.prems(1) and bs = Suc.prems(2)
  have i: "i < ndata ino" using Suc.hyps(2) by simp
  define ino1 where "ino1 = update_meta 1 now ino"
  obtain m y d1 where rd: "read_data (of_nat (i * sizeof_DirBlock)) x (of_nat sizeof_DirBlock) now ino d = (int (256 * m), y, ino1, d1)"
    "dev_ok d1" "dev_view d1 = dev_view d" "same_geometry d d1"
    "\<forall>b < 256 * m. y b = bs ! (4096 * i + b)" "\<forall>b \<ge> 256 * m. y b = x b" "m \<le> 16" "16 * i + m \<le> length bs div 256"
    "m < 16 \<longrightarrow> 16 * i + m = length bs div 256"
    unfolding ino1_def by (rule read_dir_block[OF inv bs Suc.prems(4,5) i])
  note sb = scan_block[OF Suc.prems(3,6) rd(5)[rule_format] rd(6)[rule_format] refl rd(7)]
  have st: "same_tree ino ino1" "same_attrs ino ino1" by (simp_all add: ino1_def)
  have inv1: "file_inv bm ino1 d1" using own_stepD(1)[OF own_read[OF inv rd(2,4,3)]] same_tree_facts(2)[OF st(1)] by simp
  have run: "scan_dir [i..<N] x name now ino d = (case scan_entries y name of
      Some j \<Rightarrow> (Found i j y, ino1, d1) | None \<Rightarrow> scan_dir [Suc i..<N] y name now ino1 d1)"
    using i Suc.prems(9) by (simp add: upt_conv_Cons rd(1) del: of_nat_mult)
  show ?case
  proof (cases "List.find (\<lambda>q. fst (entry_at bs q) = name) [16 * i..<16 * i + m]")
    case None
    then have fe: "first_entry bs name (16 * i) = first_entry bs name (16 * Suc i)"
      using first_entry_step[of "16 * i" "16 * i + m" bs name] rd(7-9) by (cases "m = 16") (auto simp: first_entry_def add.commute)
    have "ndata ino1 - Suc i = k" "ndata ino1 = ndata ino" using Suc.hyps(2) by (simp_all add: ino1_def)
    moreover have "bs = fbytes ino1 d1" by (simp add: bs fbytes_def rd(3) ino1_def)
    moreover have se: "scan_entries y name = None" using sb(1) None by simp
    ultimately obtain s ino' d' where r: "scan_dir [Suc i..<N] y name now ino1 d1 = (s, ino', d')"
      "scan_result bs name (16 * Suc i) (ndata ino < N) s"
      "N \<le> ndata ino \<or> first_entry bs name (16 * Suc i) \<noteq> None \<longrightarrow> same_tree ino1 ino' \<and> same_attrs ino1 ino' \<and>
        dev_ok d' \<and> dev_view d' = dev_view d1 \<and> same_geometry d1 d'"
      using Suc.hyps(1)[of ino1 "Suc i" d1 y] inv1 i Suc.prems by auto
    have "scan_dir [i..<N] x name now ino d = (s, ino', d')" using run se r(1) by simp
    moreover have "scan_result bs name (16 * i) (ndata ino < N) s" using r(2) by (simp only: scan_result_def fe)
    moreover have "same_tree ino ino' \<and> same_attrs ino ino' \<and> dev_ok d' \<and> dev_view d' = dev_view d \<and> same_geometry d d'"
      if "N \<le> ndata ino \<or> first_entry bs name (16 * i) \<noteq> None"
    proof -
      have k: "same_tree ino1 ino'" "same_attrs ino1 ino'" "dev_ok d'" "dev_view d' = dev_view d1" "same_geometry d1 d'"
        using r(3) that fe by auto
      have "same_tree ino ino'" using st(1) k(1) by (simp add: same_tree_def)
      then show ?thesis using k rd(3) same_attrs_trans[OF st(2) k(2)] same_geometry_trans[OF rd(4) k(5)] by simp
    qed
    ultimately show ?thesis by blast
  next
    case (Some q)
    have "scan_result bs name (16 * i) (ndata ino < N) (Found i (q - 16 * i) y)"
      by (rule scan_hit[OF Some rd(7,8) sb(2)])
    moreover have "scan_dir [i..<N] x name now ino d = (Found i (q - 16 * i) y, ino1, d1)"
      using run sb(1) Some by simp
    ultimately show ?thesis using st rd(2-4) by blast
  qed
qed

section \<open>The lookup\<close>

lemma DirBlock_new_empty:
  assumes "j < 16"
  shows "entry_name (DirBlock_new m) (256 * j) = []" "DirBlock_new m (256 * j) = 0"
proof -
  have z: "fold (\<lambda>j m. DirEntry_default m (j * sizeof_DirEntry)) [0..<n] m (256 * j) = 0" if "j < n" for n j m
    using that by (induction n) (auto simp: DirEntry_default_def put_u32_outside sizeof_DirEntry_def less_Suc_eq)
  show "DirBlock_new m (256 * j) = 0" using z[of j 16 m] assms by (simp add: DirBlock_new_def kDirEntries_def kBlockSize_def sizeof_DirEntry_def)
  show "entry_name (DirBlock_new m) (256 * j) = []"
    using z[of j 16 m] assms strcmp_entry_name[of "[]" "DirBlock_new m" "256 * j"]
    by (simp add: strcmp_eq_def DirBlock_new_def kDirEntries_def kBlockSize_def sizeof_DirEntry_def)
qed

lemma DirBlock_new_names: "name_ok name \<Longrightarrow> scan_entries (DirBlock_new m) name = None"
  using DirBlock_new_empty(1)[of _ m] by (auto simp: scan_entries_iff find_None_iff name_ok_def)

lemma dir_scan_ok:
  assumes inv: "file_inv bm ino d" and bs: "bs = fbytes ino d" "256 dvd length bs" "length bs + 8192 < 2 ^ 31" and n: "name_ok name"
  shows "\<exists>s ino' d'. dir_scan dirjunk name now ino d = (s, ino', d') \<and> scan_result bs name 0 (23 \<le> ndata ino) s \<and>
     (ndata ino < 23 \<or> first_entry bs name 0 \<noteq> None \<longrightarrow> same_tree ino ino' \<and> same_attrs ino ino' \<and>
        dev_ok d' \<and> dev_view d' = dev_view d \<and> same_geometry d d')"
proof -
  let ?N = "unat (total_blocks (di_size ino))"
  have nd: "ndata ino < 524288" using bs(1,3) by (simp add: unat_data_blocks)
  have N: "ndata ino \<le> ?N" "ndata ino < ?N \<longleftrightarrow> 23 \<le> ndata ino" "?N * 4096 < 2 ^ 32"
    using nd unfolding unat_total_blocks by (auto simp: tree_size_def)
  have N4: "?N \<le> ndata ino \<longleftrightarrow> ndata ino < 23" using N(1,2) by linarith
  show ?thesis
    using scan_ok[OF inv bs(1) n bs(2,3) DirBlock_new_names[OF n] le0 N(3,1), of dirjunk now]
    unfolding dir_scan_def N(2) N4 mult_0_right .
qed

lemma inode_find_ok:
  assumes "fs_inv fs" "contents fs p = Some (t, bs)" "name_ok name"
    and "t = kDirectory \<Longrightarrow> 256 dvd length bs \<and> length bs + 8192 < 2 ^ 31"
  shows "\<exists>fs'. inode_find dirjunk name inode now (getDiskInodePos p fs) fs =
      (case if t = kDirectory then map_of (entries bs) name else None of
         None \<Rightarrow> (kFail, inode, fs')
       | Some k \<Rightarrow> (kSuccess, \<lparr>ino_pos = getDiskInodePos k fs, ino_fs = True\<rparr>, fs')) \<and>
     fs_inv fs' \<and> contents fs' = contents fs \<and> fs' = fs\<lparr>device := device fs'\<rparr> \<and>
     dev_view (device fs') = dev_view (device fs) \<and> attrs fs' = attrs fs"
proof -
  note c = contents_live[OF assms(2)]
  have "twin (device fs) (device fs)" using lay_facts(10)[OF fs_invD(1)[OF assms(1)]] by (rule twin_refl)
  from inode_find_twin[OF this] obtain r i d' where
    tw: "inode_find dirjunk name inode now (getDiskInodePos p fs) fs = (r, i, fs\<lparr>device := d'\<rparr>)" "twin (device fs) d'" by blast
  have "files (fs\<lparr>device := d'\<rparr>) = files fs" using fs_inv_agree(2)[OF assms(1), of d'] tw(2) by (simp_all add: twin_def)
  then have keep: "fs_inv (fs\<lparr>device := d'\<rparr>)" "contents (fs\<lparr>device := d'\<rparr>) = contents fs" "attrs (fs\<lparr>device := d'\<rparr>) = attrs fs"
    using fs_inv_agree[OF assms(1), of d'] tw(2) by (auto simp: twin_def attrs_def)
  obtain d1 where d1: "read_inode (getDiskInodePos p fs) zero_inode (device fs) = (kSuccess, inode_at fs p, d1)"
    "own_step (data_bitmap fs) {} (inode_at fs p) (device fs) (inode_at fs p) d1" "dev_view d1 = dev_view (device fs)"
    by (rule read_live[OF assms(1) c(1)])
  have bs: "bs = fbytes (inode_at fs p) d1" using c(2) d1(3) by (simp add: fbytes_def)
  have sc: "\<exists>s ino' d2. dir_scan dirjunk name now (inode_at fs p) d1 = (s, ino', d2) \<and>
      scan_result bs name 0 (23 \<le> ndata (inode_at fs p)) s" if "t = kDirectory"
    using dir_scan_ok[OF own_stepD(1)[OF d1(2)] bs _ _ assms(3)] assms(4)[OF that] by blast
  have "fst (inode_find dirjunk name inode now (getDiskInodePos p fs) fs) =
      (if t = kDirectory \<and> map_of (entries bs) name \<noteq> None then kSuccess else kFail) \<and>
     fst (snd (inode_find dirjunk name inode now (getDiskInodePos p fs) fs)) =
      (case if t = kDirectory then map_of (entries bs) name else None of None \<Rightarrow> inode
       | Some k \<Rightarrow> \<lparr>ino_pos = getDiskInodePos k fs, ino_fs = True\<rparr>)"
  proof (cases "t = kDirectory")
    case True
    obtain s ino' d2 where s: "dir_scan dirjunk name now (inode_at fs p) d1 = (s, ino', d2)"
      "scan_result bs name 0 (23 \<le> ndata (inode_at fs p)) s"
      using sc[OF True] by blast
    show ?thesis using d1(1) s True c(3) unfolding map_of_entries
      by (auto simp: inode_find_def scan_result_def sizeof_DirEntry_def split: option.splits)
  next
    case False
    then show ?thesis using d1(1) c(3) by (simp add: inode_find_def)
  qed
  moreover have "dev_view d' = dev_view (device fs)" using tw(2) by (simp add: twin_def)
  ultimately show ?thesis using tw(1) keep by (intro exI[of _ "fs\<lparr>device := d'\<rparr>"]) (auto split: option.splits)
qed

text \<open>C27: looking up a name in a directory gives the inode of the first entry with this name, and fails if there
  is none or if the inode is not a directory; no file changes.\<close>

theorem find_spec:
  assumes "fs_inv fs" "contents fs p = Some (t, bs)" "name_ok name"
    and "t = kDirectory \<Longrightarrow> 256 dvd length bs \<and> length bs + 8192 < 2 ^ 31"
  shows "\<exists>fs'. inode_find dirjunk name inode now (getDiskInodePos p fs) fs =
      (case if t = kDirectory then map_of (entries bs) name else None of
         None \<Rightarrow> (kFail, inode, fs')
       | Some k \<Rightarrow> (kSuccess, \<lparr>ino_pos = getDiskInodePos k fs, ino_fs = True\<rparr>, fs')) \<and>
     fs_inv fs' \<and> contents fs' = contents fs"
  using inode_find_ok[OF assms] by blast

theorem find_spec_witness:
  "\<exists>fs'. inode_find zero_block dotdot Inode_invalid 1 (getDiskInodePos 2 new_fs) new_fs =
      (kSuccess, \<lparr>ino_pos = getDiskInodePos 2 new_fs, ino_fs = True\<rparr>, fs') \<and> contents fs' = contents new_fs"
proof -
  obtain bs where b: "contents new_fs = [2 \<mapsto> (kDirectory, bs)]" "entries bs = [(dot, 2), (dotdot, 2)]" "length bs = 512"
    by (rule new_root)
  have c: "contents new_fs 2 = Some (kDirectory, bs)" by (simp add: b(1))
  have n: "256 dvd length bs" "length bs + 8192 < 2 ^ 31" by (simp_all add: b(3))
  have "map_of (entries bs) dotdot = Some 2" by (simp add: b(2) dot_def dotdot_def)
  then show ?thesis
    using find_spec[OF new_ok(1) c name_ok_dots(2), of zero_block Inode_invalid 1] n by auto
qed

end
