(* ===== verification/Dir_Unlink.thy ===== *)
theory Dir_Unlink
  imports Dir_Find
begin

text \<open>
  Taking an entry out of a directory (\<open>Inode::unlink\<close> and \<open>Inode::remove\<close>): the last entry of the directory takes
  its place and the directory gets shorter by one entry.
\<close>

section \<open>Entries\<close>

definition drop_bytes :: "nat \<Rightarrow> u8 list \<Rightarrow> u8 list" where
  "drop_bytes q bs = take (length bs - 256) (pwrite_bytes (256 * q) (drop (length bs - 256) bs) [] bs)"

lemma drop_bytes_nth:
  assumes "256 * q + 256 \<le> length bs" "p < length bs - 256"
  shows "drop_bytes q bs ! p = (if 256 * q \<le> p \<and> p < 256 * q + 256 then bs ! (length bs - 256 + (p - 256 * q)) else bs ! p)"
proof -
  have "p < max (length bs) (256 * q + length (drop (length bs - 256) bs))" using assms by simp
  note n = pwrite_bytes_nth[of "[]", OF _ this]
  show ?thesis using assms n by (simp add: drop_bytes_def)
qed

lemma length_drop_bytes [simp]: "256 * q + 256 \<le> length bs \<Longrightarrow> length (drop_bytes q bs) = length bs - 256"
  by (simp add: drop_bytes_def)

lemma entries_drop_bytes:
  assumes "256 dvd length bs" "q < length bs div 256"
  shows "entries (drop_bytes q bs) = butlast ((entries bs)[q := last (entries bs)])"
proof -
  obtain n where n: "length bs = 256 * n" using assms(1) by blast
  then have q: "q < n" "256 * q + 256 \<le> length bs" using assms(2) by auto
  have e: "entry_at (drop_bytes q bs) k = (if k = q then entry_at bs (n - 1) else entry_at bs k)" if "k < n - 1" for k
  proof -
    have idx: "256 * n + i - 256 = 256 * (n - Suc 0) + i" for i using that by (cases n) auto
    have b: "drop_bytes q bs ! (256 * k + i) = bs ! (256 * (if k = q then n - 1 else k) + i)" if "i < 256" for i
      using drop_bytes_nth[OF q(2), of "256 * k + i"] that \<open>k < n - 1\<close> n idx[of i] by auto
    have c: "entry_at bs j = (entry_name (bytes_mem bs) (256 * j), DirEntry_inode (bytes_mem bs) (256 * j))" for j
      by (rule entry_at_cong) (simp add: bytes_mem_def)
    show ?thesis
      unfolding c by (subst entry_at_cong[of _ k "bytes_mem bs" "256 * (if k = q then n - 1 else k)"]) (use b in \<open>auto simp: bytes_mem_def\<close>)
  qed
  show ?thesis
  proof (rule nth_equalityI)
    show "length (entries (drop_bytes q bs)) = length (butlast ((entries bs)[q := last (entries bs)]))"
      using q n by simp
    fix k assume "k < length (entries (drop_bytes q bs))"
    then have k: "k < n - 1" using q n by simp
    have "last (entries bs) = entry_at bs (n - 1)" using q(1) n by (simp add: entries_def last_map)
    then show "entries (drop_bytes q bs) ! k = butlast ((entries bs)[q := last (entries bs)]) ! k"
      using k e[OF k] q n by (auto simp: entries_def nth_butlast nth_list_update)
  qed
qed

section \<open>Writing and moving entries\<close>

lemma entry_write:
  assumes inv: "file_inv bm ino d" and bs: "bs = fbytes ino d" "length bs < 2 ^ 31" and q: "256 * q + 256 \<le> length bs"
  obtains d' where
    "write_data (of_nat (q div 16 * sizeof_DirBlock + q mod 16 * sizeof_DirEntry)) e (of_nat sizeof_DirEntry) now ino d =
       (256, update_meta 3 now ino, d')"
    "own_step bm {} ino d (update_meta 3 now ino) d'" "fbytes (update_meta 3 now ino) d' = pwrite_bytes (256 * q) (mem_bytes e 256) [] bs"
proof -
  have len: "length bs = unat (di_size ino)" using bs by simp
  let ?l = "of_nat sizeof_DirEntry :: u32" and ?w = "of_nat (q div 16 * sizeof_DirBlock + q mod 16 * sizeof_DirEntry) :: u32"
  have l: "unat ?l = 256" by (simp add: sizeof_DirEntry_def)
  have "q div 16 * 4096 + q mod 16 * 256 = 256 * q" using div_mult_mod_eq[of q 16] by linarith
  then have w: "unat ?w = 256 * q"
    using q len bs(2) unat_of_nat_u32[of "256 * q"] by (simp add: sizeof_DirBlock_def sizeof_DirEntry_def kBlockSize_def del: of_nat_add of_nat_mult)
  have wr: "?w < di_size ino" "0 < ?l" "unat ?w + unat ?l < 2 ^ 31" "256 = min (unat ?l) (unat (di_size ino) - unat ?w)"
    using q len bs(2) unfolding word_less_nat_alt l w by simp_all
  obtain d2 where d2: "write_data ?w e ?l now ino d = (int 256, update_meta 3 now ino, d2)"
    "own_step bm {} ino d (update_meta 3 now ino) d2"
    "\<forall>p < unat (di_size ino). file_byte ino (dev_view d2) p =
       (if unat ?w \<le> p \<and> p < unat ?w + 256 then e (p - unat ?w) else file_byte ino (dev_view d) p)"
    "room bm (dev_view d2) = room bm (dev_view d)"
    by (rule write_data_own[OF inv wr])
  have "fbytes (update_meta 3 now ino) d2 = pwrite_bytes (256 * q) (mem_bytes e 256) [] (fbytes ino d)"
    by (rule fbytes_pwrite[where ?ino2.0 = ino and ?d2.0 = d]) (use q len d2(3)[unfolded w] in simp_all)
  then show ?thesis using that[OF _ d2(2)] d2(1) bs(1) by simp
qed

lemma move_entry:
  assumes inv: "file_inv bm ino d" and bs: "bs = fbytes ino d" "length bs < 2 ^ 31" and q: "256 * q + 256 \<le> length bs"
  obtains last_entry ino1 d1 ino2 d2 where
    "read_data (di_size ino - of_nat sizeof_DirEntry) (DirEntry_default zero_block 0) (of_nat sizeof_DirEntry) now ino d =
       (256, last_entry, ino1, d1)"
    "write_data (of_nat (q div 16 * sizeof_DirBlock + q mod 16 * sizeof_DirEntry)) last_entry (of_nat sizeof_DirEntry) now ino1 d1 =
       (256, ino2, d2)"
    "own_step bm {} ino d ino2 d2" "same_attrs ino ino2" "di_size ino2 = di_size ino"
    "fbytes ino2 d2 = pwrite_bytes (256 * q) (drop (length bs - 256) bs) [] bs"
proof -
  have len: "length bs = unat (di_size ino)" using bs by simp
  let ?l = "of_nat sizeof_DirEntry :: u32" and ?o = "di_size ino - of_nat sizeof_DirEntry"
  have l: "unat ?l = 256" by (simp add: sizeof_DirEntry_def)
  have o: "unat ?o = unat (di_size ino) - 256" using q len l by (subst unat_sub) (simp_all add: word_le_nat_alt)
  have r: "?o < di_size ino" "0 < ?l" "unat ?o + unat ?l < 2 ^ 31" "256 = min (unat ?l) (unat (di_size ino) - unat ?o)"
    using q len bs(2) unfolding word_less_nat_alt l o by simp_all
  obtain d1 where rd: "read_data ?o (DirEntry_default zero_block 0) ?l now ino d =
      (int 256, filled ino (dev_view d) (unat ?o) (DirEntry_default zero_block 0) 256, update_meta 1 now ino, d1)"
    "dev_ok d1" "dev_view d1 = dev_view d" "same_geometry d d1"
    by (rule read_data_ok[OF file_inv_ok[OF inv] r])
  define e where "e = filled ino (dev_view d) (unat ?o) (DirEntry_default zero_block 0) 256"
  define ino1 where "ino1 = update_meta 1 now ino"
  have st: "own_step bm {} ino d ino1 d1"
    using own_step_trans[OF own_read[OF inv rd(2,4,3)] same_tree_step[OF own_stepD(1)[OF own_read[OF inv rd(2,4,3)]], of ino1]]
    by (simp add: ino1_def)
  have b1: "bs = fbytes ino1 d1" by (simp add: bs(1) ino1_def fbytes_def rd(3))
  obtain d2 where d2: "write_data (of_nat (q div 16 * sizeof_DirBlock + q mod 16 * sizeof_DirEntry)) e ?l now ino1 d1 = (256, update_meta 3 now ino1, d2)"
    "own_step bm {} ino1 d1 (update_meta 3 now ino1) d2" "fbytes (update_meta 3 now ino1) d2 = pwrite_bytes (256 * q) (mem_bytes e 256) [] bs"
    by (rule entry_write[OF own_stepD(1)[OF st] b1 bs(2) q])
  have eb: "mem_bytes e 256 = drop (length bs - 256) bs"
    by (rule nth_equalityI) (use q len in \<open>auto simp: e_def filled_def o bs(1) fbytes_nth\<close>)
  show ?thesis
    by (rule that[of e ino1 d1 "update_meta 3 now ino1" d2])
      (use rd(1) d2(1) own_step_trans[OF st d2(2)] d2(3) eb same_attrs_trans[OF same_attrs_meta same_attrs_meta] in
        \<open>simp_all add: e_def ino1_def\<close>)
qed

lemma drop_ok:
  assumes inv: "file_inv bm ino d" and bs: "bs = fbytes ino d" "256 dvd length bs" "length bs \<le> 1047 * 4096"
    and q: "q < length bs div 256" and tot: "ndata ino \<le> tot" and po: "pos_ok bm pos"
  obtains ino' d' where "drop_entry (q div 16) (q mod 16) tot bm now pos ino d = (kSuccess, d')"
    "own_step bm {pos_block_id pos} ino d ino' d'" "same_attrs ino ino'" "fbytes ino' d' = drop_bytes q bs"
    "dev_view d' (pos_block_id pos) = put_inode (dev_view d (pos_block_id pos)) (unat (pos_block_offset pos)) ino'"
proof -
  have len: "length bs = unat (di_size ino)" using bs by simp
  obtain n where n: "length bs = 256 * n" using bs(2) by blast
  have q': "256 * q + 256 \<le> length bs" using q n by simp
  have not_kFail: "(256::int) \<noteq> kFail" by (simp add: kFail_def)
  let ?c = "int (q div 16) \<noteq> int tot - 1 \<or> q mod 16 \<noteq> kDirEntries - 1"
  obtain ino1 d1 where m: "own_step bm {} ino d ino1 d1" "same_attrs ino ino1" "di_size ino1 = di_size ino"
    "take (length bs - 256) (fbytes ino1 d1) = drop_bytes q bs"
    "\<And>r2 x d2. resize (di_size ino1 - of_nat sizeof_DirEntry) bm (Some pos) now ino1 d1 = (r2, x, d2) \<Longrightarrow>
      drop_entry (q div 16) (q mod 16) tot bm now pos ino d = (r2, d2)"
  proof (cases ?c)
    case True
    have l31: "length bs < 2 ^ 31" using bs(3) by simp
    obtain e i1 d1 i2 d2 where mv: "read_data (di_size ino - of_nat sizeof_DirEntry) (DirEntry_default zero_block 0) (of_nat sizeof_DirEntry) now ino d =
       (256, e, i1, d1)" "write_data (of_nat (q div 16 * sizeof_DirBlock + q mod 16 * sizeof_DirEntry)) e (of_nat sizeof_DirEntry) now i1 d1 = (256, i2, d2)"
      "own_step bm {} ino d i2 d2" "same_attrs ino i2" "di_size i2 = di_size ino"
      "fbytes i2 d2 = pwrite_bytes (256 * q) (drop (length bs - 256) bs) [] bs"
      by (rule move_entry[OF inv bs(1) l31 q'])
    have "drop_entry (q div 16) (q mod 16) tot bm now pos ino d = (r2, d3)"
      if "resize (di_size i2 - of_nat sizeof_DirEntry) bm (Some pos) now i2 d2 = (r2, x, d3)" for r2 x d3
      using True that not_kFail unfolding drop_entry_def mv(1) by (simp add: mv(2) del: of_nat_add of_nat_mult)
    then show ?thesis using that[OF mv(3-5)] mv(6) by (simp add: drop_bytes_def)
  next
    case False
    have "n \<le> 16 * ndata ino" using n len by (simp add: unat_data_blocks)
    moreover have "int (q div 16) = int tot - 1" "q mod 16 = 15" using False by (auto simp: kDirEntries_def kBlockSize_def sizeof_DirEntry_def)
    ultimately have "q = n - 1" using tot q n div_mult_mod_eq[of q 16] by simp
    then have "drop_bytes q bs = take (length bs - 256) bs" using n q by (simp add: drop_bytes_def pwrite_bytes_def diff_mult_distrib2)
    moreover have "drop_entry (q div 16) (q mod 16) tot bm now pos ino d = (r2, d2)"
      if "resize (di_size ino - of_nat sizeof_DirEntry) bm (Some pos) now ino d = (r2, x, d2)" for r2 x d2
      using False that by (simp add: drop_entry_def)
    ultimately show ?thesis
      using that[OF same_tree_step[OF inv, of ino]] bs(1) by (simp add: same_tree_def)
  qed
  define sz where "sz = di_size ino1 - of_nat sizeof_DirEntry"
  have "unat (of_nat sizeof_DirEntry :: u32) = 256" by (simp add: sizeof_DirEntry_def)
  then have sz: "unat sz = length bs - 256" "sz \<le> di_size ino1"
    using q' len unfolding sz_def m(3) by (simp_all add: word_le_nat_alt unat_sub)
  have nb: "unat (data_blocks sz) \<le> 1047" using sz(1) bs(3) by (simp add: unat_data_blocks)
  obtain ino2 d2 where g: "resize sz bm (Some pos) now ino1 d1 = (kSuccess, ino2, d2)"
    "own_step bm (pos_blks (Some pos)) ino1 d1 ino2 d2" "di_size ino2 = sz" "same_attrs ino1 ino2"
    "\<forall>p < unat sz. file_byte ino2 (dev_view d2) p = file_byte ino1 (dev_view d1) p"
    "\<forall>pos'. Some pos = Some pos' \<longrightarrow> dev_view d2 (pos_block_id pos') =
       put_inode (dev_view d1 (pos_block_id pos')) (unat (pos_block_offset pos')) ino2"
    by (rule resize_shrink_own[OF own_stepD(1)[OF m(1)] sz(2) nb, of "Some pos"]) (use po in auto)
  have "fbytes ino2 d2 = take (length bs - 256) (fbytes ino1 d1)"
    using g(3,5) sz m(3) len by (simp add: fbytes_def take_map)
  then have fb: "fbytes ino2 d2 = drop_bytes q bs" using m(4) by simp
  have low: "unat (pos_block_id pos) < unat (data_segment_offset bm)" "pos_block_id pos \<notin> bm_region bm"
    using po by (auto simp: pos_ok_def)
  show ?thesis
    by (rule that[OF m(5)[OF g(1)[unfolded sz_def]] _ same_attrs_trans[OF m(2) g(4)] fb])
      (use own_step_trans[OF m(1) g(2)] g(6) own_stepD(5)[OF m(1) low] in \<open>simp_all add: pos_blks_def\<close>)
qed

section \<open>Free space\<close>

lemma card_used:
  assumes "data_ok bm d"
  shows "card (bm_used bm (dev_view d)) = card (used_blks bm (dev_view d))"
proof -
  let ?o = "unat (data_segment_offset bm)" and ?U = "used_blks bm (dev_view d)"
  have "n \<in> (\<lambda>b. unat b - ?o) ` ?U" if n: "n \<in> bm_used bm (dev_view d)" for n
  proof -
    have "?o + n < 2 ^ 32" using n bm_used_finite(2)[of bm "dev_view d"] assms by (auto simp: data_ok_def)
    then have "unat (of_nat (?o + n) :: u32) = ?o + n" by (rule unat_of_nat_u32)
    then show ?thesis using n by (intro image_eqI[of _ _ "of_nat (?o + n)"]) (simp_all add: used_blks_def del: of_nat_add)
  qed
  then have "bm_used bm (dev_view d) = (\<lambda>b. unat b - ?o) ` ?U" by (auto simp: used_blks_def)
  moreover have "inj_on (\<lambda>b. unat b - ?o) ?U" by (rule inj_onI) (auto simp: used_blks_def word_unat_eq_iff)
  ultimately show ?thesis by (simp add: card_image)
qed

text \<open>A step of a file that does not lengthen it uses no more blocks than before.\<close>

lemma own_step_room:
  assumes inv: "file_inv bm ino d" and st: "own_step bm X ino d ino' d'" and le: "ndata ino' \<le> ndata ino" and rm: "room bm (dev_view d) m"
  shows "room bm (dev_view d') m"
proof -
  have c: "card (used_blks bm (dev_view e)) = card (others bm i e) + tree_size (ndata i)" if "file_inv bm i e" for i e
  proof -
    have "inj_on (node_blk i (dev_view e)) (nodes (ndata i))" using file_inv_parts(3)[OF that] by (simp add: tree_ok_def)
    then have "card (blks i e) = tree_size (ndata i)" by (simp add: blks_def card_image card_nodes)
    moreover have "others bm i e \<inter> blks i e = {}" by (auto simp: others_def)
    ultimately show ?thesis
      using card_Un_disjoint[of "others bm i e" "blks i e"] file_inv_parts(5)[OF that] by (simp add: others_def Un_absorb2)
  qed
  have "tree_size (ndata ino') \<le> tree_size (ndata ino)"
    using card_mono[OF card_nodes(1) nodes_mono[OF le]] by (simp add: card_nodes(2))
  then show ?thesis
    using rm c[OF inv] c[OF own_stepD(1)[OF st]] own_stepD(3)[OF st] card_used[OF file_inv_parts(1)[OF inv]]
      card_used[OF file_inv_parts(1)[OF own_stepD(1)[OF st]]]
    by (simp add: room_def)
qed

section \<open>Finding and dropping an entry, over the whole file system\<close>

definition dir_ok :: "u8 list \<Rightarrow> bool" where
  "dir_ok bs \<longleftrightarrow> 256 dvd length bs \<and> length bs \<le> 1047 * 4096"

lemma held_scan:
  assumes inv: "fs_inv fs" and p: "contents fs p = Some (kDirectory, bs)" and bs: "dir_ok bs" and n: "name_ok name"
    and q: "first_entry bs name 0 = Some q"
  obtains cur d1 cur2 y d2 where "read_inode (getDiskInodePos p fs) zero_inode (device fs) = (kSuccess, cur, d1)"
    "di_type cur = kDirectory" "ndata cur2 \<le> unat (total_blocks (di_size cur))"
    "dir_scan dirjunk name now cur d1 = (Found (q div 16) (q mod 16) y, cur2, d2)"
    "DirEntry_inode y (q mod 16 * 256) = snd (entry_at bs q)"
    "held fs ((files fs)(p \<mapsto> cur2)) {p} d2" "cont ((files fs)(p \<mapsto> cur2)) d2 = contents fs" "same_attrs (inode_at fs p) cur2"
    "dev_view d2 = dev_view (device fs)"
proof -
  note f = fs_invD[OF inv] and c = contents_live[OF p] and h0 = held_start[OF inv]
  define cur where "cur = inode_at fs p"
  have F: "files fs p = Some cur" using f(6)[OF c(1)] by (simp add: cur_def)
  obtain d1 where d1: "read_inode (getDiskInodePos p fs) zero_inode (device fs) = (kSuccess, cur, d1)" "held fs (files fs) {} d1"
    "cont (files fs) d1 = cont (files fs) (device fs)" "dev_view d1 = dev_view (device fs)"
    by (rule held_read[OF h0 F]) auto
  have fb: "bs = fbytes cur d1" using c(2) d1(4) by (simp add: cur_def fbytes_def)
  have l: "256 dvd length bs" "length bs + 8192 < 2 ^ 31" using bs by (simp_all add: dir_ok_def)
  obtain s cur2 d2 where sc: "dir_scan dirjunk name now cur d1 = (s, cur2, d2)" "scan_result bs name 0 (23 \<le> ndata cur) s"
    "same_tree cur cur2" "same_attrs cur cur2" "dev_ok d2" "dev_view d2 = dev_view d1" "same_geometry d1 d2"
    using dir_scan_ok[OF heldD(10)[OF d1(2) F] fb l n, of dirjunk now] q by auto
  note inv1 = heldD(10)[OF d1(2) F]
  obtain y where y: "s = Found (q div 16) (q mod 16) y" "DirEntry_inode y (q mod 16 * 256) = snd (entry_at bs q)"
    using sc(2) q by (auto simp: scan_result_def)
  have "own_step (data_bitmap fs) {} cur d1 cur2 d2"
    using own_step_trans[OF own_read[OF inv1 sc(5,7,6)] same_tree_step[OF own_stepD(1)[OF own_read[OF inv1 sc(5,7,6)]] sc(3)]] by simp
  note s = held_step[OF d1(2) F this]
  have "fbytes cur2 d2 = bs" using sc(3,6) by (simp add: fb fbytes_def same_tree_facts(3)[OF sc(3)] same_tree_def)
  moreover have "di_type cur2 = kDirectory" using sc(4) c(3) by (simp add: same_attrs_def cur_def)
  ultimately have ct: "cont ((files fs)(p \<mapsto> cur2)) d2 = contents fs"
    unfolding s(2) d1(3) contents_cont[symmetric] using p by (simp add: fun_upd_idem)
  have tb: "ndata cur2 \<le> unat (total_blocks (di_size cur))"
    using sc(3) unfolding unat_total_blocks by (simp add: same_tree_def tree_size_def)
  show ?thesis
    by (rule that[OF d1(1) _ tb sc(1)[unfolded y(1)] y(2) s(1) ct]) (use c(3) sc(4,6) d1(4) in \<open>simp_all add: cur_def\<close>)
qed

lemma held_drop:
  assumes h: "held fs F S d" and p: "F p = Some ino" and bs: "bs = fbytes ino d" "dir_ok bs" "q < length bs div 256"
    and tot: "ndata ino \<le> tot"
  obtains ino' d' where "drop_entry (q div 16) (q mod 16) tot (data_bitmap fs) now (getDiskInodePos p fs) ino d = (kSuccess, d')"
    "held fs (F(p \<mapsto> ino')) (S - {p}) d'" "cont (F(p \<mapsto> ino')) d' = (cont F d)(p \<mapsto> (di_type ino, drop_bytes q bs))"
    "same_attrs ino ino'" "\<forall>m. room (data_bitmap fs) (dev_view d) m \<longrightarrow> room (data_bitmap fs) (dev_view d') m"
proof -
  note hd = heldD[OF h]
  have l: "256 dvd length bs" "length bs \<le> 1047 * 4096" using bs(2) by (simp_all add: dir_ok_def)
  obtain ino' d' where w: "drop_entry (q div 16) (q mod 16) tot (data_bitmap fs) now (getDiskInodePos p fs) ino d = (kSuccess, d')"
    "own_step (data_bitmap fs) {pos_block_id (getDiskInodePos p fs)} ino d ino' d'" "same_attrs ino ino'" "fbytes ino' d' = drop_bytes q bs"
    "dev_view d' (pos_block_id (getDiskInodePos p fs)) =
       put_inode (dev_view d (pos_block_id (getDiskInodePos p fs))) (unat (pos_block_offset (getDiskInodePos p fs))) ino'"
    by (rule drop_ok[OF hd(10)[OF p] bs(1) l bs(3) tot pos_valid(2)[OF hd(1) hd(6)[OF p]]])
  note s = held_step_pos[OF h p refl w(2,5)]
  have "256 * q + 256 \<le> length bs" using bs(3) by auto
  then have "length (fbytes ino' d') \<le> length (fbytes ino d)" unfolding w(4) by (simp add: bs(1))
  then have "ndata ino' \<le> ndata ino" unfolding unat_data_blocks by (intro div_le_mono) simp
  then have rm: "\<forall>m. room (data_bitmap fs) (dev_view d) m \<longrightarrow> room (data_bitmap fs) (dev_view d') m"
    using own_step_room[OF hd(10)[OF p] w(2)] by blast
  show ?thesis by (rule that[OF w(1) s(1) _ w(3) rm]) (use s(2) w(3,4) in \<open>simp add: same_attrs_def\<close>)
qed

section \<open>Unlink\<close>

lemma first_entry_entries:
  assumes "first_entry bs name 0 = Some q" "snd (entry_at bs q) = k" "dir_ok bs"
  shows "q < length (entries bs)" "entries bs ! q = (name, k)"
    "entries (drop_bytes q bs) = butlast ((entries bs)[q := last (entries bs)])"
proof -
  have qb: "q < length bs div 256" "fst (entry_at bs q) = name" using first_entry_bound[OF assms(1)] by simp_all
  show "q < length (entries bs)" "entries bs ! q = (name, k)" using qb assms(2) by (auto simp: entries_def prod_eq_iff)
  show "entries (drop_bytes q bs) = butlast ((entries bs)[q := last (entries bs)])"
    by (rule entries_drop_bytes) (use assms(3) qb(1) in \<open>simp_all add: dir_ok_def\<close>)
qed

lemma inode_unlink_ok:
  assumes inv: "fs_inv fs" and p: "contents fs p = Some (kDirectory, bs)" and bs: "dir_ok bs" and n: "name_ok name"
    and q: "first_entry bs name 0 = Some q" "snd (entry_at bs q) = k" "k \<in> dom (contents fs)"
  obtains fs' where "inode_unlink dirjunk name inode now (getDiskInodePos p fs) fs =
      (kSuccess, \<lparr>ino_pos = getDiskInodePos k fs, ino_fs = True\<rparr>, fs')"
    "fs_inv fs'" "contents fs' = (contents fs)(p \<mapsto> (kDirectory, drop_bytes q bs))"
    "link_cnt (inode_at fs' k) = link_cnt (inode_at fs k) - 1" "fs' = fs\<lparr>device := device fs'\<rparr>"
    "attrs fs' = (attrs fs)(k \<mapsto> attr_of ((inode_at fs k)\<lparr>link_cnt := link_cnt (inode_at fs k) - 1\<rparr>))"
    "\<forall>m. room (data_bitmap fs) (dev_view (device fs)) m \<longrightarrow> room (data_bitmap fs) (dev_view (device fs')) m"
proof -
  obtain cur d1 cur2 y d2 where c: "read_inode (getDiskInodePos p fs) zero_inode (device fs) = (kSuccess, cur, d1)"
    "di_type cur = kDirectory" "ndata cur2 \<le> unat (total_blocks (di_size cur))"
    "dir_scan dirjunk name now cur d1 = (Found (q div 16) (q mod 16) y, cur2, d2)"
    "DirEntry_inode y (q mod 16 * 256) = snd (entry_at bs q)"
    "held fs ((files fs)(p \<mapsto> cur2)) {p} d2" "cont ((files fs)(p \<mapsto> cur2)) d2 = contents fs" "same_attrs (inode_at fs p) cur2"
    "dev_view d2 = dev_view (device fs)"
    by (rule held_scan[OF inv p bs n q(1)])
  have F: "((files fs)(p \<mapsto> cur2)) p = Some cur2" by simp
  have fb: "bs = fbytes cur2 d2" "di_type cur2 = kDirectory" using fun_cong[OF c(7), of p] p by (simp_all add: cont_def)
  have qb: "q < length bs div 256" using first_entry_bound[OF q(1)] by simp
  obtain cur3 d3 where w: "drop_entry (q div 16) (q mod 16) (unat (total_blocks (di_size cur))) (data_bitmap fs) now (getDiskInodePos p fs) cur2 d2 = (kSuccess, d3)"
    "held fs ((files fs)(p \<mapsto> cur2, p \<mapsto> cur3)) ({p} - {p}) d3"
    "cont ((files fs)(p \<mapsto> cur2, p \<mapsto> cur3)) d3 = (cont ((files fs)(p \<mapsto> cur2)) d2)(p \<mapsto> (di_type cur2, drop_bytes q bs))"
    "same_attrs cur2 cur3" "\<forall>m. room (data_bitmap fs) (dev_view d2) m \<longrightarrow> room (data_bitmap fs) (dev_view d3) m"
    by (rule held_drop[OF c(6) F fb(1) bs qb c(3)])
  define G where "G = (files fs)(p \<mapsto> cur3)"
  have g: "held fs G {} d3" "cont G d3 = (contents fs)(p \<mapsto> (kDirectory, drop_bytes q bs))"
    using w(2,3) c(7) fb(2) by (simp_all add: G_def)
  have lk: "k \<in> live fs" using q(3) by (auto simp: contents_def files_def split: if_splits)
  obtain raw where raw: "G k = Some raw" "link_cnt raw = link_cnt (inode_at fs k)"
    using fs_invD(6)[OF inv lk] c(8) w(4) by (cases "k = p") (auto simp: G_def same_attrs_def)
  obtain d4 where r: "read_inode (getDiskInodePos k fs) zero_inode d3 = (kSuccess, raw, d4)" "held fs G {} d4" "cont G d4 = cont G d3"
    "dev_view d4 = dev_view d3"
    by (rule held_read[OF g(1) raw(1)]) auto
  define raw' where "raw' = raw\<lparr>link_cnt := link_cnt raw - 1\<rparr>"
  have st: "same_tree raw raw'" by (simp add: raw'_def same_tree_def)
  note s = held_step[OF r(2) raw(1) same_tree_step[OF heldD(10)[OF r(2) raw(1)] st]]
  obtain d5 where e: "write_inode (getDiskInodePos k fs) raw' d4 = (kSuccess, d5)" "held fs (G(k \<mapsto> raw')) ({k} - {k}) d5"
    "cont (G(k \<mapsto> raw')) d5 = cont (G(k \<mapsto> raw')) d4"
    by (rule held_write[OF s(1)]) auto
  have "cont (G(k \<mapsto> raw')) d4 = cont G d4"
    unfolding s(2) using raw(1) st same_tree_facts(3)[OF st] by (simp add: cont_def raw'_def fbytes_def fun_eq_iff)
  then have ct: "cont (G(k \<mapsto> raw')) d5 = (contents fs)(p \<mapsto> (kDirectory, drop_bytes q bs))" using e(3) r(3) g(2) by simp
  have e0: "held fs (G(k \<mapsto> raw')) {} d5" using e(2) by simp
  note fin = held_end[OF e0]
  have "inode_unlink dirjunk name inode now (getDiskInodePos p fs) fs =
      (kSuccess, \<lparr>ino_pos = getDiskInodePos k fs, ino_fs = True\<rparr>, fs\<lparr>device := d5\<rparr>)"
    using c(1-5) w(1) r(1) e(1) q(2) by (simp add: inode_unlink_def sizeof_DirEntry_def raw'_def)
  moreover have "link_cnt (inode_at (fs\<lparr>device := d5\<rparr>) k) = link_cnt (inode_at fs k) - 1"
  proof -
    have "files (fs\<lparr>device := d5\<rparr>) k = Some raw'" using fin(2) by simp
    then show ?thesis using raw(2) by (simp add: files_def raw'_def split: if_splits)
  qed
  moreover have "attrs (fs\<lparr>device := d5\<rparr>) = (attrs fs)(k \<mapsto> attr_of ((inode_at fs k)\<lparr>link_cnt := link_cnt (inode_at fs k) - 1\<rparr>))"
  proof
    have fp: "files fs p = Some (inode_at fs p)" "files fs k = Some (inode_at fs k)"
      using fs_invD(6)[OF inv] contents_live(1)[OF p] lk by simp_all
    have "attr_of cur3 = attr_of (inode_at fs p)" using attr_same[OF c(8)] attr_same[OF w(4)] by simp
    then have G: "map_option attr_of (G j) = attrs fs j" for j using fp by (simp add: G_def attrs_def)
    then have "attr_of raw = attr_of (inode_at fs k)" using fp raw(1) G[of k] by (simp add: attrs_def)
    then show "attrs (fs\<lparr>device := d5\<rparr>) j = ((attrs fs)(k \<mapsto> attr_of ((inode_at fs k)\<lparr>link_cnt := link_cnt (inode_at fs k) - 1\<rparr>))) j" for j
      using G[of j] by (simp add: attrs_def fin(2) raw'_def attr_of_def)
  qed
  moreover have "room (data_bitmap fs) (dev_view d5) m" if "room (data_bitmap fs) (dev_view (device fs)) m" for m
    using that w(5) c(9) r(4) room_write_inode[OF s(1) fun_upd_same e(1)] by simp
  ultimately show ?thesis using that[of "fs\<lparr>device := d5\<rparr>"] fin(1) ct[folded fin(3)] by simp
qed

text \<open>Removing the entry of a name from a directory by \<open>unlink\<close>: the entry goes, the last entry of the directory
  takes its place, the link count of the inode it named goes down by one, and no other file changes.\<close>

theorem unlink_refines:
  assumes "fs_inv fs" "contents fs p = Some (kDirectory, bs)" "dir_ok bs" "name_ok name"
    and "map_of (entries bs) name = Some k" "k \<in> dom (contents fs)"
  shows "\<exists>q bs' fs'. inode_unlink dirjunk name inode now (getDiskInodePos p fs) fs =
      (kSuccess, \<lparr>ino_pos = getDiskInodePos k fs, ino_fs = True\<rparr>, fs') \<and> fs_inv fs' \<and>
     contents fs' = (contents fs)(p \<mapsto> (kDirectory, bs')) \<and> q < length (entries bs) \<and> entries bs ! q = (name, k) \<and>
     entries bs' = butlast ((entries bs)[q := last (entries bs)]) \<and>
     link_cnt (inode_at fs' k) = link_cnt (inode_at fs k) - 1"
proof -
  obtain q where q: "first_entry bs name 0 = Some q" "snd (entry_at bs q) = k" using assms(5) by (auto simp: map_of_entries)
  note e = first_entry_entries[OF q assms(3)]
  obtain fs' where "inode_unlink dirjunk name inode now (getDiskInodePos p fs) fs =
      (kSuccess, \<lparr>ino_pos = getDiskInodePos k fs, ino_fs = True\<rparr>, fs')"
    "fs_inv fs'" "contents fs' = (contents fs)(p \<mapsto> (kDirectory, drop_bytes q bs))"
    "link_cnt (inode_at fs' k) = link_cnt (inode_at fs k) - 1"
    using inode_unlink_ok[OF assms(1-4) q assms(6)] by metis
  with e show ?thesis by blast
qed

theorem unlink_refines_witness:
  "\<exists>bs' fs'. inode_unlink zero_block dot Inode_invalid 1 (getDiskInodePos 2 new_fs) new_fs =
      (kSuccess, \<lparr>ino_pos = getDiskInodePos 2 new_fs, ino_fs = True\<rparr>, fs') \<and>
     contents fs' = [2 \<mapsto> (kDirectory, bs')] \<and> entries bs' = [(dotdot, 2)]"
proof -
  obtain bs where b: "contents new_fs = [2 \<mapsto> (kDirectory, bs)]" "entries bs = [(dot, 2), (dotdot, 2)]" "length bs = 512"
    by (rule new_root)
  have c: "contents new_fs 2 = Some (kDirectory, bs)" "dir_ok bs" "map_of (entries bs) dot = Some 2" "2 \<in> dom (contents new_fs)"
    by (simp_all add: b dir_ok_def)
  obtain q bs' fs' where r: "inode_unlink zero_block dot Inode_invalid 1 (getDiskInodePos 2 new_fs) new_fs =
      (kSuccess, \<lparr>ino_pos = getDiskInodePos 2 new_fs, ino_fs = True\<rparr>, fs')"
    "contents fs' = (contents new_fs)(2 \<mapsto> (kDirectory, bs'))" "q < length (entries bs)" "entries bs ! q = (dot, 2)"
    "entries bs' = butlast ((entries bs)[q := last (entries bs)])"
    using unlink_refines[OF new_ok(1) c(1,2) name_ok_dots(1) c(3,4), of zero_block Inode_invalid 1] by blast
  have "q = 0" using r(3,4) b(2) by (cases q) (auto simp: dot_def dotdot_def)
  then have "entries bs' = [(dotdot, 2)]" using r(5) b(2) by simp
  then show ?thesis using r(1,2) b(1) by auto
qed

section \<open>Remove\<close>

text \<open>Giving an inode and all its blocks back.\<close>

lemma held_free:
  assumes h: "held fs F S d" and k: "F k = Some ino"
  obtains d1 ino' d2 where "bitmap_free k (inode_bitmap fs) d = (kSuccess, d1)"
    "resize 0 (data_bitmap fs) None now ino d1 = (kSuccess, ino', d2)"
    "held fs (F(k := None)) (S - {k}) d2" "cont (F(k := None)) d2 = (cont F d)(k := None)"
proof -
  note hd = heldD[OF h]
  note l = lay_facts[OF hd(8), simplified] and bm = lay_bitmaps[OF hd(8), simplified]
  let ?U = "bm_used (inode_bitmap fs) (dev_view d)" and ?n = "unat k - (1 + ibm_blocks fs)"
  have kl: "k \<in> live (fs\<lparr>device := d\<rparr>)" using hd(7) k by auto
  then have n: "?n \<in> ?U" "1 + ibm_blocks fs \<le> unat k" using l(1,7) by (simp_all add: live_def used_blks_def)
  have nb: "?n < bm_slots (inode_bitmap fs)" using n(1) by (simp add: bm_used_def)
  have n32: "?n < 2 ^ 32" using unsigned_less[where 'a = nat, of k] by simp
  have k_eq: "of_nat ?n + data_segment_offset (inode_bitmap fs) = k"
  proof -
    have k32: "unat k < 2 ^ 32" using unsigned_less[where 'a = nat, of k] by simp
    have so: "unat (data_segment_offset (inode_bitmap fs)) = 1 + ibm_blocks fs" using l(1,7) by simp
    show ?thesis unfolding word_unat_eq_iff
      by (subst unat_add_u32; (unfold unat_of_nat_u32[OF n32] so)?) (use n(2) k32 in linarith)+
  qed
  obtain d1 where f: "bitmap_free k (inode_bitmap fs) d = (kSuccess, d1)" "bm_step (inode_bitmap fs) d (?U - {?n}) d1"
    by (rule bitmap_free_ok[OF bm(2) nb n32, unfolded k_eq])
  have st: "dev_ok d1" "same_geometry d d1" "bm_used (inode_bitmap fs) (dev_view d1) = ?U - {?n}"
    "\<And>b. b \<notin> bm_region (inode_bitmap fs) \<Longrightarrow> dev_view d1 b = dev_view d b"
    using f(2) by (auto simp: bm_step_def)
  have V: "dev_view d1 b = dev_view d b"
    if "b \<in> bm_region (data_bitmap fs) \<or> unat (data_segment_offset (data_bitmap fs)) \<le> unat b" for b
    using that lay_disjoint(2)[OF hd(1), of b] by (intro st(4)) auto
  note lw = held_low[OF h st(1,2) V]
  obtain ino' d2 where r: "resize 0 (data_bitmap fs) None now ino d1 = (kSuccess, ino', d2)"
    "own_step (data_bitmap fs) (pos_blks None) ino d1 ino' d2" "di_size ino' = 0" "same_attrs ino ino'"
    "\<forall>p < unat 0. file_byte ino' (dev_view d2) p = file_byte ino (dev_view d1) p"
    "\<forall>pos. None = Some pos \<longrightarrow> dev_view d2 (pos_block_id pos) = put_inode (dev_view d1 (pos_block_id pos)) (unat (pos_block_offset pos)) ino'"
    by (rule resize_shrink_own[OF files_okD(1)[OF lw(1) k], of 0 None]) (simp_all add: unat_data_blocks)
  note s = own_stepD[OF r(2)] and fst = files_step[OF lw(1) k r(2)]
  have low: "dev_view d2 b = dev_view d1 b" if "b \<in> inode_area fs \<or> b \<in> bm_region (inode_bitmap fs)" for b
    using lay_disjoint[OF hd(1), of b] that by (intro s(5)) (auto simp: pos_blks_def)
  have upd: "F(k := None) = (F(k \<mapsto> ino'))(k := None)" by simp
  have fo: "files_ok (data_bitmap fs) (F(k := None)) d2" unfolding upd by (rule files_del[OF fst(1)])
  have "stored (fs\<lparr>device := d\<rparr>) ((F(k := None)) |` (- (S - {k})))"
    by (rule stored_mono[OF hd(5)]) (auto simp: map_le_def restrict_map_def dom_def)
  then have sto: "stored (fs\<lparr>device := d2\<rparr>) ((F(k := None)) |` (- (S - {k})))"
    by (rule stored_view[OF hd(1)]) (use low st(4) lay_disjoint(1)[OF hd(1)] in auto)
  have ok1: "lay_ok (fs\<lparr>device := d1\<rparr>)" using lay_step hd(1) st(1) lw(3) by simp
  have "live (fs\<lparr>device := d2\<rparr>) = live (fs\<lparr>device := d1\<rparr>)" using live_same[OF ok1, of d2] low by simp
  also have "\<dots> = live (fs\<lparr>device := d\<rparr>) - {k}"
    using n(2) l(1,7) by (auto simp: live_def used_blks_def st(3) word_unat_eq_iff)
  finally have lv: "live (fs\<lparr>device := d2\<rparr>) = dom (F(k := None))" using hd(7) by auto
  have super: "super_ok (fs\<lparr>device := d2\<rparr>)"
    using super_step[OF hd(11), of d2] s(5)[of 0] st(4)[OF hd(13)] hd(14,15) by (simp add: pos_blks_def)
  have hl: "held fs (F(k := None)) (S - {k}) d2"
    using hd(1,6) sto lv fo file_inv_parts(2)[OF s(1)] same_geometry_trans[OF lw(3) s(2)] super by (auto simp: held_def split: if_splits)
  have ct: "cont (F(k := None)) d2 = (cont F d)(k := None)"
  proof
    show "cont (F(k := None)) d2 j = ((cont F d)(k := None)) j" for j
      using fst(2)[of j] fun_cong[OF lw(2), of j] by (cases "F j") (auto simp: cont_def)
  qed
  show ?thesis by (rule that[OF f(1) r(1) hl ct])
qed

lemma inode_remove_ok:
  assumes inv: "fs_inv fs" and p: "contents fs p = Some (kDirectory, bs)" and bs: "dir_ok bs" and n: "name_ok name"
    and q: "first_entry bs name 0 = Some q" "snd (entry_at bs q) = k" "k \<in> dom (contents fs)" "k \<noteq> p"
  obtains fs' where "inode_remove dirjunk name now (getDiskInodePos p fs) fs = (kSuccess, fs')" "fs_inv fs'"
    "contents fs' = (if link_cnt (inode_at fs k) = 1 then (contents fs)(p \<mapsto> (kDirectory, drop_bytes q bs), k := None) else contents fs)"
    "attrs fs' = (if link_cnt (inode_at fs k) = 1 then (attrs fs)(k := None) else attrs fs)" "fs' = fs\<lparr>device := device fs'\<rparr>"
proof -
  obtain cur d1 cur2 y d2 where c: "read_inode (getDiskInodePos p fs) zero_inode (device fs) = (kSuccess, cur, d1)"
    "di_type cur = kDirectory" "ndata cur2 \<le> unat (total_blocks (di_size cur))"
    "dir_scan dirjunk name now cur d1 = (Found (q div 16) (q mod 16) y, cur2, d2)"
    "DirEntry_inode y (q mod 16 * 256) = snd (entry_at bs q)"
    "held fs ((files fs)(p \<mapsto> cur2)) {p} d2" "cont ((files fs)(p \<mapsto> cur2)) d2 = contents fs" "same_attrs (inode_at fs p) cur2"
    "dev_view d2 = dev_view (device fs)"
    by (rule held_scan[OF inv p bs n q(1)])
  define F where "F = (files fs)(p \<mapsto> cur2)"
  define del where "del = inode_at fs k"
  have lk: "k \<in> live fs" using q(3) by (auto simp: contents_def files_def split: if_splits)
  have F: "F p = Some cur2" "F k = Some del" using fs_invD(6)[OF inv lk] q(4) by (simp_all add: F_def del_def)
  have fb: "bs = fbytes cur2 d2" "di_type cur2 = kDirectory" using fun_cong[OF c(7), of p] p by (simp_all add: cont_def)
  have qb: "q < length bs div 256" using first_entry_bound[OF q(1)] by simp
  obtain d3 where r: "read_inode (getDiskInodePos k fs) zero_inode d2 = (kSuccess, del, d3)" "held fs F {p} d3" "cont F d3 = cont F d2"
    "dev_view d3 = dev_view d2"
    by (rule held_read[OF c(6)[folded F_def] F(2)]) (use q(4) in simp)
  have ct: "cont F d3 = contents fs" using r(3) c(7) by (simp add: F_def)
  have fb3: "bs = fbytes cur2 d3" using fb(1) r(4) by (simp add: fbytes_def)
  have fp: "files fs p = Some (inode_at fs p)" using fs_invD(6)[OF inv] contents_live(1)[OF p] by simp
  have F0: "map_option attr_of (F j) = attrs fs j" for j using attr_same[OF c(8)] fp by (simp add: F_def attrs_def)
  show ?thesis
  proof (cases "link_cnt del = 1")
    case True
    define del' where "del' = del\<lparr>link_cnt := link_cnt del - 1\<rparr>"
    have st: "same_tree del del'" by (simp add: del'_def same_tree_def)
    note s = held_step[OF r(2) F(2) same_tree_step[OF heldD(10)[OF r(2) F(2)] st]]
    have F2: "(F(k \<mapsto> del')) p = Some cur2" using F(1) q(4) by simp
    obtain cur3 d4 where w: "drop_entry (q div 16) (q mod 16) (unat (total_blocks (di_size cur))) (data_bitmap fs) now (getDiskInodePos p fs) cur2 d3 = (kSuccess, d4)"
      "held fs (F(k \<mapsto> del', p \<mapsto> cur3)) (insert k {p} - {p}) d4"
      "cont (F(k \<mapsto> del', p \<mapsto> cur3)) d4 = (cont (F(k \<mapsto> del')) d3)(p \<mapsto> (di_type cur2, drop_bytes q bs))"
      "same_attrs cur2 cur3" "\<forall>m. room (data_bitmap fs) (dev_view d3) m \<longrightarrow> room (data_bitmap fs) (dev_view d4) m"
      by (rule held_drop[OF s(1) F2 fb3 bs qb c(3)])
    have F3: "(F(k \<mapsto> del', p \<mapsto> cur3)) k = Some del'" using q(4) by simp
    obtain d5 ino' d6 where f: "bitmap_free k (inode_bitmap fs) d4 = (kSuccess, d5)"
      "resize 0 (data_bitmap fs) None now del' d5 = (kSuccess, ino', d6)"
      "held fs ((F(k \<mapsto> del', p \<mapsto> cur3))(k := None)) (insert k {p} - {p} - {k}) d6"
      "cont ((F(k \<mapsto> del', p \<mapsto> cur3))(k := None)) d6 = (cont (F(k \<mapsto> del', p \<mapsto> cur3)) d4)(k := None)"
      by (rule held_free[OF w(2) F3])
    have "insert k {p} - {p} - {k} = {}" by auto
    note e = held_end[OF f(3)[unfolded this]]
    have run: "inode_remove dirjunk name now (getDiskInodePos p fs) fs = (kSuccess, fs\<lparr>device := d6\<rparr>)"
      using c(1-5) w(1) r(1) f(1,2) q(2) True by (simp add: inode_remove_def free_inode_def sizeof_DirEntry_def del'_def)
    have "contents (fs\<lparr>device := d6\<rparr>) = (contents fs)(p \<mapsto> (kDirectory, drop_bytes q bs), k := None)"
      unfolding e(3) f(4) w(3) s(2) ct using q(4) fb(2) by (simp add: fun_upd_twist)
    moreover have "attrs (fs\<lparr>device := d6\<rparr>) = (attrs fs)(k := None)"
    proof
      have "attr_of cur3 = attr_of cur2" by (rule attr_same[OF w(4)])
      then show "attrs (fs\<lparr>device := d6\<rparr>) j = ((attrs fs)(k := None)) j" for j
        using F(1) F0[of j] by (auto simp: attrs_def e(2))
    qed
    ultimately show ?thesis using that[OF run e(1)] True by (simp add: del_def)
  next
    case False
    then have nz: "link_cnt del - 1 \<noteq> 0" by simp
    obtain d4 where w: "write_inode (getDiskInodePos p fs) cur2 d3 = (kSuccess, d4)" "held fs F ({p} - {p}) d4" "cont F d4 = cont F d3"
      by (rule held_write[OF r(2) F(1)])
    have "{p} - {p} = {}" by simp
    note e = held_end[OF w(2)[unfolded this]]
    have run: "inode_remove dirjunk name now (getDiskInodePos p fs) fs = (kSuccess, fs\<lparr>device := d4\<rparr>)"
      using c(1-5) w(1) r(1) q(2) nz by (simp add: inode_remove_def sizeof_DirEntry_def)
    moreover have "attrs (fs\<lparr>device := d4\<rparr>) = attrs fs"
    proof
      show "attrs (fs\<lparr>device := d4\<rparr>) j = attrs fs j" for j using F0[of j] by (simp add: attrs_def e(2))
    qed
    ultimately show ?thesis using that[OF run e(1)] False by (simp add: del_def e(3) w(3) ct)
  qed
qed

text \<open>Removing a name by \<open>remove\<close>: when the inode it names has one link left, the entry goes, the inode is free
  again and its contents are gone; no other file changes. When the inode has more links, nothing changes at all,
  the entry stays and the call still reports success.\<close>

theorem remove_refines:
  assumes "fs_inv fs" "contents fs p = Some (kDirectory, bs)" "dir_ok bs" "name_ok name"
    and "map_of (entries bs) name = Some k" "k \<in> dom (contents fs)" "k \<noteq> p"
  shows "\<exists>q bs' fs'. inode_remove dirjunk name now (getDiskInodePos p fs) fs = (kSuccess, fs') \<and> fs_inv fs' \<and>
     contents fs' = (if link_cnt (inode_at fs k) = 1 then (contents fs)(p \<mapsto> (kDirectory, bs'), k := None) else contents fs) \<and>
     q < length (entries bs) \<and> entries bs ! q = (name, k) \<and> entries bs' = butlast ((entries bs)[q := last (entries bs)])"
proof -
  obtain q where q: "first_entry bs name 0 = Some q" "snd (entry_at bs q) = k" using assms(5) by (auto simp: map_of_entries)
  note e = first_entry_entries[OF q assms(3)]
  obtain fs' where "inode_remove dirjunk name now (getDiskInodePos p fs) fs = (kSuccess, fs')" "fs_inv fs'"
    "contents fs' = (if link_cnt (inode_at fs k) = 1 then (contents fs)(p \<mapsto> (kDirectory, drop_bytes q bs), k := None) else contents fs)"
    using inode_remove_ok[OF assms(1-4) q assms(6,7)] by metis
  with e show ?thesis by blast
qed

lemma new_file:
  obtains k bs ino' fs1 where "inode_create [0x61] (DiskInode_new kFile 0 0 0) Inode_invalid 1 (getDiskInodePos 2 new_fs) new_fs =
      (kSuccess, ino', \<lparr>ino_pos = getDiskInodePos k new_fs, ino_fs = True\<rparr>, fs1)"
    "fs_inv fs1" "contents fs1 = [2 \<mapsto> (kDirectory, bs), k \<mapsto> (kFile, [])]" "k \<noteq> 2" "dir_ok bs"
    "entries bs = [(dot, 2), (dotdot, 2), ([0x61], k)]" "link_cnt (inode_at fs1 k) = 1" "getDiskInodePos 2 fs1 = getDiskInodePos 2 new_fs"
proof -
  obtain old where b: "contents new_fs = [2 \<mapsto> (kDirectory, old)]" "entries old = [(dot, 2), (dotdot, 2)]" "length old = 512"
    by (rule new_root)
  have c: "contents new_fs 2 = Some (kDirectory, old)" by (simp add: b(1))
  have n: "name_ok [0x61]" "256 dvd length old" "di_type (DiskInode_new kFile 0 0 0) = kFile"
    "room_for_entry new_fs (length old) (Suc 0)"
    using new_entry_room by (simp_all add: name_ok_def kMaxDirNameLength_def b(3) DiskInode_new_def)
  obtain k bs ino' fs1 where r: "inode_create [0x61] (DiskInode_new kFile 0 0 0) Inode_invalid 1 (getDiskInodePos 2 new_fs) new_fs =
      (kSuccess, ino', \<lparr>ino_pos = getDiskInodePos k new_fs, ino_fs = True\<rparr>, fs1)" "fs_inv fs1" "k \<notin> dom (contents new_fs)"
    "contents fs1 = (contents new_fs)(2 \<mapsto> (kDirectory, old @ mem_bytes (DirEntry [0x61] k) 256), k \<mapsto> (kFile, bs))"
    "entries (old @ mem_bytes (DirEntry [0x61] k) 256) = entries old @ [([0x61], k)]"
    "entries bs = (if kFile = kDirectory then [(dot, k), (dotdot, 2)] else [])" "256 dvd length bs" 
    "inode_at fs1 k = ino'" "same_attrs (DiskInode_new kFile 0 0 0) ino'" "fs1 = new_fs\<lparr>device := device fs1\<rparr>"
    using inode_create_ok[OF new_ok(1) c n(2,1) fresh_new n(3,4), of Inode_invalid 1] by blast
  have "entries bs = []" using r(6) by (simp add: kFile_def kDirectory_def)
  then have bs: "bs = []" using r(7) by (auto simp: entries_def)
  have "k \<noteq> 2" using r(3) b(1) by auto
  moreover have "link_cnt (inode_at fs1 k) = 1" using r(8,9) by (simp add: same_attrs_def DiskInode_new_def)
  moreover have "getDiskInodePos 2 fs1 = getDiskInodePos 2 new_fs" by (subst r(10)) simp
  moreover have "dir_ok (old @ mem_bytes (DirEntry [0x61] k) 256)" by (simp add: dir_ok_def b(3))
  ultimately show ?thesis using that[OF r(1,2)] r(4,5) b(1,2) bs by simp
qed

theorem remove_refines_witness:
  "\<exists>k ino' fs1 fs2 bs'. inode_create [0x61] (DiskInode_new kFile 0 0 0) Inode_invalid 1 (getDiskInodePos 2 new_fs) new_fs =
      (kSuccess, ino', \<lparr>ino_pos = getDiskInodePos k new_fs, ino_fs = True\<rparr>, fs1) \<and>
     inode_remove zero_block [0x61] 1 (getDiskInodePos 2 new_fs) fs1 = (kSuccess, fs2) \<and>
     contents fs2 = [2 \<mapsto> (kDirectory, bs')] \<and> entries bs' = [(dot, 2), (dotdot, 2)]"
proof -
  obtain k bs ino' fs1 where f: "inode_create [0x61] (DiskInode_new kFile 0 0 0) Inode_invalid 1 (getDiskInodePos 2 new_fs) new_fs =
      (kSuccess, ino', \<lparr>ino_pos = getDiskInodePos k new_fs, ino_fs = True\<rparr>, fs1)"
    "fs_inv fs1" "contents fs1 = [2 \<mapsto> (kDirectory, bs), k \<mapsto> (kFile, [])]" "k \<noteq> 2" "dir_ok bs"
    "entries bs = [(dot, 2), (dotdot, 2), ([0x61], k)]" "link_cnt (inode_at fs1 k) = 1" "getDiskInodePos 2 fs1 = getDiskInodePos 2 new_fs"
    by (rule new_file)
  have c: "contents fs1 2 = Some (kDirectory, bs)" "name_ok [0x61]" "map_of (entries bs) [0x61] = Some k" "k \<in> dom (contents fs1)"
    using f(3,4,6) by (simp_all add: name_ok_def kMaxDirNameLength_def dot_def dotdot_def)
  obtain q bs' fs2 where r: "inode_remove zero_block [0x61] 1 (getDiskInodePos 2 fs1) fs1 = (kSuccess, fs2)"
    "contents fs2 = (if link_cnt (inode_at fs1 k) = 1 then (contents fs1)(2 \<mapsto> (kDirectory, bs'), k := None) else contents fs1)"
    "q < length (entries bs)" "entries bs ! q = ([0x61], k)" "entries bs' = butlast ((entries bs)[q := last (entries bs)])"
    using remove_refines[OF f(2) c(1) f(5) c(2-4) f(4), of zero_block 1] by blast
  have "q = 2" using r(3,4) f(6) by (auto simp: less_Suc_eq dot_def dotdot_def)
  then have "entries bs' = [(dot, 2), (dotdot, 2)]" using r(5) f(6) by simp
  moreover have "contents fs2 = [2 \<mapsto> (kDirectory, bs')]" using r(2) f(3,4,7) by (auto simp: fun_eq_iff)
  ultimately show ?thesis using f(1,8) r(1) by auto
qed

end
