(* ===== verification/Dir_Link.thy ===== *)
theory Dir_Link
  imports Dir_Unlink
begin

text \<open>
  Adding an entry for an existing inode to a directory (\<open>Inode::link\<close>).
\<close>

section \<open>Changing the link count\<close>

lemma held_relink:
  assumes h: "held fs F S d" and k: "F k = Some raw" "k \<notin> S"
  obtains d1 d2 where "read_inode (getDiskInodePos k fs) zero_inode d = (kSuccess, raw, d1)"
    "write_inode (getDiskInodePos k fs) (raw\<lparr>link_cnt := n\<rparr>) d1 = (kSuccess, d2)"
    "held fs (F(k \<mapsto> raw\<lparr>link_cnt := n\<rparr>)) S d2" "cont (F(k \<mapsto> raw\<lparr>link_cnt := n\<rparr>)) d2 = cont F d"
    "room (data_bitmap fs) (dev_view d2) = room (data_bitmap fs) (dev_view d)"
proof -
  obtain d1 where r: "read_inode (getDiskInodePos k fs) zero_inode d = (kSuccess, raw, d1)" "held fs F S d1" "cont F d1 = cont F d"
    "dev_view d1 = dev_view d"
    by (rule held_read[OF h k])
  have st: "same_tree raw (raw\<lparr>link_cnt := n\<rparr>)" by (simp add: same_tree_def)
  note s = held_step[OF r(2) k(1) same_tree_step[OF heldD(10)[OF r(2) k(1)] st]]
  obtain d2 where w: "write_inode (getDiskInodePos k fs) (raw\<lparr>link_cnt := n\<rparr>) d1 = (kSuccess, d2)"
    "held fs (F(k \<mapsto> raw\<lparr>link_cnt := n\<rparr>)) (insert k S - {k}) d2"
    "cont (F(k \<mapsto> raw\<lparr>link_cnt := n\<rparr>)) d2 = cont (F(k \<mapsto> raw\<lparr>link_cnt := n\<rparr>)) d1"
    by (rule held_write[OF s(1) fun_upd_same])
  have "cont F d1 k = Some (di_type raw, fbytes raw d1)" using k(1) by (simp add: cont_def)
  then have "cont (F(k \<mapsto> raw\<lparr>link_cnt := n\<rparr>)) d1 = cont F d1"
    unfolding s(2) using same_tree_facts(3)[OF st] by (intro fun_upd_idem) (simp add: fbytes_def)
  moreover have "insert k S - {k} = S" using k(2) by simp
  ultimately show ?thesis
    using that[OF r(1) w(1)] w(2,3) r(3,4) room_write_inode[OF s(1) fun_upd_same w(1)] by simp
qed

section \<open>Linking under a new name\<close>

lemma held_absent:
  assumes inv: "fs_inv fs" and p: "contents fs p = Some (kDirectory, bs)" and bs: "256 dvd length bs" "length bs \<le> 22 * 4096" and n: "name_ok name"
    and q: "first_entry bs name 0 = None"
  obtains cur d1 cur2 d2 where "read_inode (getDiskInodePos p fs) zero_inode (device fs) = (kSuccess, cur, d1)"
    "di_type cur = kDirectory" "dir_scan dirjunk name now cur d1 = (Absent, cur2, d2)"
    "held fs ((files fs)(p \<mapsto> cur2)) {p} d2" "cont ((files fs)(p \<mapsto> cur2)) d2 = contents fs" "same_attrs (inode_at fs p) cur2"
    "dev_view d2 = dev_view (device fs)" "bs = fbytes cur2 d2" "di_type cur2 = kDirectory"
proof -
  note f = fs_invD[OF inv] and c = contents_live[OF p] and h0 = held_start[OF inv]
  define cur where "cur = inode_at fs p"
  have F: "files fs p = Some cur" using f(6)[OF c(1)] by (simp add: cur_def)
  obtain d1 where d1: "read_inode (getDiskInodePos p fs) zero_inode (device fs) = (kSuccess, cur, d1)" "held fs (files fs) {} d1"
    "cont (files fs) d1 = cont (files fs) (device fs)" "dev_view d1 = dev_view (device fs)"
    by (rule held_read[OF h0 F]) auto
  note inv1 = heldD(10)[OF d1(2) F]
  have fb: "bs = fbytes cur d1" using c(2) d1(4) by (simp add: cur_def fbytes_def)
  have "ndata cur \<le> nblocks (22 * 4096)" unfolding unat_data_blocks by (rule div_le_mono) (use bs(2) fb in simp)
  then have nd: "ndata cur < 23" by simp
  have l: "length bs + 8192 < 2 ^ 31" using bs(2) by simp
  obtain s cur2 d2 where sc: "dir_scan dirjunk name now cur d1 = (s, cur2, d2)" "scan_result bs name 0 (23 \<le> ndata cur) s"
    "same_tree cur cur2" "same_attrs cur cur2" "dev_ok d2" "dev_view d2 = dev_view d1" "same_geometry d1 d2"
    using dir_scan_ok[OF inv1 fb bs(1) l n, of dirjunk now] nd by auto
  have s: "s = Absent" using sc(2) q nd by (simp add: scan_result_def)
  have "own_step (data_bitmap fs) {} cur d1 cur2 d2"
    using own_step_trans[OF own_read[OF inv1 sc(5,7,6)] same_tree_step[OF own_stepD(1)[OF own_read[OF inv1 sc(5,7,6)]] sc(3)]] by simp
  note st = held_step[OF d1(2) F this]
  have b2: "fbytes cur2 d2 = bs" using sc(3,6) by (simp add: fb fbytes_def same_tree_facts(3)[OF sc(3)] same_tree_def)
  moreover have ty: "di_type cur2 = kDirectory" using sc(4) c(3) by (simp add: same_attrs_def cur_def)
  ultimately have ct: "cont ((files fs)(p \<mapsto> cur2)) d2 = contents fs"
    unfolding st(2) d1(3) contents_cont[symmetric] using p by (simp add: fun_upd_idem)
  show ?thesis
    by (rule that[OF d1(1) _ sc(1)[unfolded s] st(1) ct _ _ b2[symmetric] ty]) (use c(3) sc(4,6) d1(4) in \<open>simp_all add: cur_def\<close>)
qed

lemma inode_link_ok:
  assumes inv: "fs_inv fs" and p: "contents fs p = Some (kDirectory, bs)" and bs: "256 dvd length bs" "length bs \<le> 22 * 4096" and n: "name_ok name"
    and q: "name \<notin> fst ` set (entries bs)" and k: "k \<in> dom (contents fs)" "k \<noteq> p"
    and rm: "room (data_bitmap fs) (dev_view (device fs)) (tree_size (nblocks (length bs + 256)) - tree_size (nblocks (length bs)) + r)"
  obtains fs' where "inode_link dirjunk name \<lparr>ino_pos = getDiskInodePos k fs, ino_fs = True\<rparr> replace now (getDiskInodePos p fs) fs = Some (kSuccess, fs')"
    "fs_inv fs'" "contents fs' = (contents fs)(p \<mapsto> (kDirectory, bs @ mem_bytes (DirEntry name k) 256))"
    "entries (bs @ mem_bytes (DirEntry name k) 256) = entries bs @ [(name, k)]" "fs' = fs\<lparr>device := device fs'\<rparr>"
    "attrs fs' = (attrs fs)(k \<mapsto> attr_of ((inode_at fs k)\<lparr>link_cnt := link_cnt (inode_at fs k) + 1\<rparr>))"
    "room (data_bitmap fs) (dev_view (device fs')) r"
proof -
  have "map_of (entries bs) name = None" using q by (simp add: map_of_eq_None_iff)
  then have q0: "first_entry bs name 0 = None" by (simp add: map_of_entries)
  obtain cur d1 cur2 d2 where c: "read_inode (getDiskInodePos p fs) zero_inode (device fs) = (kSuccess, cur, d1)"
    "di_type cur = kDirectory" "dir_scan dirjunk name now cur d1 = (Absent, cur2, d2)"
    "held fs ((files fs)(p \<mapsto> cur2)) {p} d2" "cont ((files fs)(p \<mapsto> cur2)) d2 = contents fs" "same_attrs (inode_at fs p) cur2"
    "dev_view d2 = dev_view (device fs)" "bs = fbytes cur2 d2" "di_type cur2 = kDirectory"
    by (rule held_absent[OF inv p bs n q0])
  define raw where "raw = inode_at fs k"
  have lk: "k \<in> live fs" using k(1) by (auto simp: contents_def files_def split: if_splits)
  have F: "((files fs)(p \<mapsto> cur2)) k = Some raw" "k \<notin> {p}" using fs_invD(6)[OF inv lk] k(2) by (simp_all add: raw_def)
  define raw' where "raw' = raw\<lparr>link_cnt := link_cnt raw + 1\<rparr>"
  define G where "G = (files fs)(p \<mapsto> cur2, k \<mapsto> raw')"
  obtain d3 d4 where lk1: "read_inode (getDiskInodePos k fs) zero_inode d2 = (kSuccess, raw, d3)"
    "write_inode (getDiskInodePos k fs) raw' d3 = (kSuccess, d4)" "held fs G {p} d4" "cont G d4 = cont ((files fs)(p \<mapsto> cur2)) d2"
    "room (data_bitmap fs) (dev_view d4) = room (data_bitmap fs) (dev_view d2)"
    by (rule held_relink[OF c(4) F, of "link_cnt raw + 1", folded raw'_def, folded G_def])
  have Gp: "G p = Some cur2" using k(2) by (simp add: G_def)
  have fb: "bs = fbytes cur2 d4" using fun_cong[OF lk1(4), of p] Gp c(8) by (simp add: cont_def)
  then have len: "unat (di_size cur2) = length bs" by simp
  have rm4: "room (data_bitmap fs) (dev_view d4) (tree_size (nblocks (unat (di_size cur2) + 256)) - tree_size (ndata cur2) + r)"
    using rm lk1(5) c(7) len by (simp add: unat_data_blocks)
  obtain cur3 d5 where a: "append_entries (DirEntry name k) 256 (data_bitmap fs) now cur2 d4 = (kSuccess, cur3, d5)"
    "own_step (data_bitmap fs) {} cur2 d4 cur3 d5" "same_attrs cur2 cur3" "fbytes cur3 d5 = fbytes cur2 d4 @ mem_bytes (DirEntry name k) 256"
    "room (data_bitmap fs) (dev_view d5) r"
    by (rule append_ok[OF heldD(10)[OF lk1(3) Gp] _ _ rm4]) (use len bs(2) in simp_all)
  note st = held_step[OF lk1(3) Gp a(2)]
  obtain d6 where w: "write_inode (getDiskInodePos p fs) cur3 d5 = (kSuccess, d6)" "held fs (G(p \<mapsto> cur3)) (insert p {p} - {p}) d6"
    "cont (G(p \<mapsto> cur3)) d6 = cont (G(p \<mapsto> cur3)) d5"
    by (rule held_write[OF st(1) fun_upd_same])
  have "insert p {p} - {p} = {}" by simp
  note e = held_end[OF w(2)[unfolded this]]
  have ty: "di_type cur3 = kDirectory" using a(3) c(9) by (simp add: same_attrs_def)
  have "inode_link dirjunk name \<lparr>ino_pos = getDiskInodePos k fs, ino_fs = True\<rparr> replace now (getDiskInodePos p fs) fs = Some (kSuccess, fs\<lparr>device := d6\<rparr>)"
    using c(1-3) lk1(1,2) a(1) w(1) by (simp add: inode_link_def update_link_cnt_def raw'_def sizeof_DirEntry_def getDiskInodeId_pos kSuccess_def kFail_def)
  moreover have "contents (fs\<lparr>device := d6\<rparr>) = (contents fs)(p \<mapsto> (kDirectory, bs @ mem_bytes (DirEntry name k) 256))"
    unfolding e(3) w(3) st(2) lk1(4) c(5) by (simp add: ty a(4) fb)
  moreover have "attrs (fs\<lparr>device := d6\<rparr>) = (attrs fs)(k \<mapsto> attr_of raw')"
  proof
    have "files fs p = Some (inode_at fs p)" by (rule fs_invD(6)[OF inv contents_live(1)[OF p]])
    then show "attrs (fs\<lparr>device := d6\<rparr>) j = ((attrs fs)(k \<mapsto> attr_of raw')) j" for j
      using attr_same[OF c(6)] attr_same[OF a(3)] k(2) by (simp add: attrs_def e(2) G_def)
  qed
  moreover have "room (data_bitmap fs) (dev_view d6) r" using a(5) room_write_inode[OF st(1) fun_upd_same w(1)] by simp
  ultimately show ?thesis using that[of "fs\<lparr>device := d6\<rparr>"] e(1) entries_append[OF bs(1) n] by (simp add: raw'_def raw_def)
qed

section \<open>Linking over an entry\<close>

lemma scan_dir_named:
  "scan_dir js blk name now ino d = (Found i j y, ino', d') \<Longrightarrow> strcmp_eq y (j * sizeof_DirEntry) name"
proof (induction js arbitrary: blk ino d)
  case (Cons a js)
  then show ?case by (auto simp: scan_entries_def find_Some_iff split: prod.splits if_splits option.splits)
qed simp

definition put_entry :: "nat \<Rightarrow> cstring \<Rightarrow> u32 \<Rightarrow> u8 list \<Rightarrow> u8 list" where
  "put_entry q name k bs = pwrite_bytes (256 * q) (mem_bytes (DirEntry name k) 256) [] bs"

lemma entries_put_entry:
  assumes "256 dvd length bs" "q < length bs div 256" "name_ok name"
  shows "entries (put_entry q name k bs) = (entries bs)[q := (name, k)]" "length (put_entry q name k bs) = length bs"
proof -
  obtain n where n: "length bs = 256 * n" using assms(1) by blast
  then have q: "q < n" "256 * q + 256 \<le> length bs" using assms(2) by auto
  show l: "length (put_entry q name k bs) = length bs" using q by (simp add: put_entry_def length_pwrite_bytes)
  have nth: "put_entry q name k bs ! x = (if 256 * q \<le> x \<and> x < 256 * q + 256 then DirEntry name k (x - 256 * q) else bs ! x)" if "x < length bs" for x
    using pwrite_bytes_nth[of "[]" "256 * q" bs x "mem_bytes (DirEntry name k) 256"] that q by (simp add: put_entry_def)
  have "entry_at (put_entry q name k bs) x = (if x = q then (name, k) else entry_at bs x)" if x: "x < n" for x
  proof (cases "x = q")
    case True
    have "entry_at (put_entry q name k bs) q = (entry_name (DirEntry name k) 0, DirEntry_inode (DirEntry name k) 0)"
      by (rule entry_at_cong) (use nth q in simp)
    then show ?thesis using True assms(3) by (simp add: entry_name_DirEntry DirEntry_inode_DirEntry)
  next
    case False
    have b: "put_entry q name k bs ! (256 * x + i) = bytes_mem bs (256 * x + i)" if "i < 256" for i
    proof -
      have "256 * x + i < length bs" using x n that by simp
      moreover have "\<not> (256 * q \<le> 256 * x + i \<and> 256 * x + i < 256 * q + 256)" using False that by auto
      ultimately show ?thesis by (simp only: nth if_False bytes_mem_def)
    qed
    from entry_at_cong[OF b] show ?thesis using False by (simp add: entry_at_def)
  qed
  then show "entries (put_entry q name k bs) = (entries bs)[q := (name, k)]"
    using n l by (intro nth_equalityI) (auto simp: entries_def nth_list_update)
qed

lemma inode_relink_ok:
  assumes inv: "fs_inv fs" and p: "contents fs p = Some (kDirectory, bs)" and bs: "dir_ok bs" and n: "name_ok name"
    and q: "first_entry bs name 0 = Some q" and k: "k \<in> dom (contents fs)" "k \<noteq> p"
  obtains fs' where "inode_link dirjunk name \<lparr>ino_pos = getDiskInodePos k fs, ino_fs = True\<rparr> True now (getDiskInodePos p fs) fs = Some (kSuccess, fs')"
    "fs_inv fs'" "contents fs' = (contents fs)(p \<mapsto> (kDirectory, put_entry q name k bs))" "fs' = fs\<lparr>device := device fs'\<rparr>"
    "attrs fs' = (attrs fs)(k \<mapsto> attr_of ((inode_at fs k)\<lparr>link_cnt := link_cnt (inode_at fs k) + 1\<rparr>))"
proof -
  obtain cur d1 cur2 y d2 where c: "read_inode (getDiskInodePos p fs) zero_inode (device fs) = (kSuccess, cur, d1)"
    "di_type cur = kDirectory" "ndata cur2 \<le> unat (total_blocks (di_size cur))"
    "dir_scan dirjunk name now cur d1 = (Found (q div 16) (q mod 16) y, cur2, d2)"
    "DirEntry_inode y (q mod 16 * 256) = snd (entry_at bs q)"
    "held fs ((files fs)(p \<mapsto> cur2)) {p} d2" "cont ((files fs)(p \<mapsto> cur2)) d2 = contents fs" "same_attrs (inode_at fs p) cur2"
    "dev_view d2 = dev_view (device fs)"
    by (rule held_scan[OF inv p bs n q])
  have ny: "entry_name y (q mod 16 * sizeof_DirEntry) = name"
    using scan_dir_named[OF c(4)[unfolded dir_scan_def]] n by (simp add: strcmp_entry_name name_ok_def)
  define raw where "raw = inode_at fs k"
  have lk: "k \<in> live fs" using k(1) by (auto simp: contents_def files_def split: if_splits)
  have F: "((files fs)(p \<mapsto> cur2)) k = Some raw" "k \<notin> {p}" using fs_invD(6)[OF inv lk] k(2) by (simp_all add: raw_def)
  define raw' where "raw' = raw\<lparr>link_cnt := link_cnt raw + 1\<rparr>"
  define G where "G = (files fs)(p \<mapsto> cur2, k \<mapsto> raw')"
  obtain d3 d4 where r: "read_inode (getDiskInodePos k fs) zero_inode d2 = (kSuccess, raw, d3)"
    "write_inode (getDiskInodePos k fs) raw' d3 = (kSuccess, d4)" "held fs G {p} d4" "cont G d4 = cont ((files fs)(p \<mapsto> cur2)) d2"
    "room (data_bitmap fs) (dev_view d4) = room (data_bitmap fs) (dev_view d2)"
    by (rule held_relink[OF c(6) F, of "link_cnt raw + 1", folded raw'_def, folded G_def])
  have Gp: "G p = Some cur2" using k(2) by (simp add: G_def)
  have fb: "bs = fbytes cur2 d4" "di_type cur2 = kDirectory" using fun_cong[OF r(4)[unfolded c(7)], of p] Gp p by (simp_all add: cont_def)
  have l: "length bs < 2 ^ 31" "256 * q + 256 \<le> length bs" using bs first_entry_bound[OF q] by (auto simp: dir_ok_def elim!: dvdE)
  define cur3 where "cur3 = update_meta 3 now cur2"
  obtain d5 where a: "write_data (of_nat (q div 16 * sizeof_DirBlock + q mod 16 * sizeof_DirEntry)) (DirEntry name k) (of_nat sizeof_DirEntry) now cur2 d4 =
      (256, cur3, d5)" "own_step (data_bitmap fs) {} cur2 d4 cur3 d5" "fbytes cur3 d5 = put_entry q name k bs"
    unfolding put_entry_def cur3_def by (rule entry_write[OF heldD(10)[OF r(3) Gp] fb(1) l])
  note st = held_step[OF r(3) Gp a(2)]
  obtain d6 where w: "write_inode (getDiskInodePos p fs) cur3 d5 = (kSuccess, d6)" "held fs (G(p \<mapsto> cur3)) (insert p {p} - {p}) d6"
    "cont (G(p \<mapsto> cur3)) d6 = cont (G(p \<mapsto> cur3)) d5"
    by (rule held_write[OF st(1) fun_upd_same])
  have "insert p {p} - {p} = {}" by simp
  note e = held_end[OF w(2)[unfolded this]]
  have at: "same_attrs cur2 cur3" by (simp add: cur3_def same_attrs_meta)
  have ty: "di_type cur3 = kDirectory" using fb(2) by (simp add: cur3_def)
  have "inode_link dirjunk name \<lparr>ino_pos = getDiskInodePos k fs, ino_fs = True\<rparr> True now (getDiskInodePos p fs) fs = Some (kSuccess, fs\<lparr>device := d6\<rparr>)"
    using c(1,2,4) r(1,2) a(1) w(1) ny by (simp add: inode_link_def update_link_cnt_def raw'_def getDiskInodeId_pos kSuccess_def kFail_def)
  moreover have "contents (fs\<lparr>device := d6\<rparr>) = (contents fs)(p \<mapsto> (kDirectory, put_entry q name k bs))"
    unfolding e(3) w(3) st(2) r(4) c(7) by (simp add: ty a(3))
  moreover have "attrs (fs\<lparr>device := d6\<rparr>) = (attrs fs)(k \<mapsto> attr_of raw')"
  proof
    have "files fs p = Some (inode_at fs p)" by (rule fs_invD(6)[OF inv contents_live(1)[OF p]])
    then show "attrs (fs\<lparr>device := d6\<rparr>) j = ((attrs fs)(k \<mapsto> attr_of raw')) j" for j
      using attr_same[OF c(8)] attr_same[OF at] k(2) by (simp add: attrs_def e(2) G_def)
  qed
  ultimately show ?thesis using that[of "fs\<lparr>device := d6\<rparr>"] e(1) by (simp add: raw'_def raw_def)
qed

lemma list_update_named:
  assumes "distinct (map fst es)" "q < length es" "fst (es ! q) = m"
  shows "map_of (es[q := (m, k)]) y = (if y = m then Some k else map_of es y)" "distinct (map fst (es[q := (m, k)]))"
proof -
  have n: "map fst (es[q := (m, k)]) = map fst es" using assms(2,3) by (simp add: map_update list_update_same_conv)
  then show d: "distinct (map fst (es[q := (m, k)]))" using assms(1) by simp
  show "map_of (es[q := (m, k)]) y = (if y = m then Some k else map_of es y)"
  proof (cases "y = m")
    case True
    then show ?thesis using assms(2) map_of_is_SomeI[OF d, of m k] set_update_memI[OF assms(2)] by simp
  next
    case False
    have "x \<in> set (es[q := (m, k)]) \<longleftrightarrow> x \<in> set es" if "fst x = y" for x
      using that False assms(2,3) by (auto simp: in_set_conv_nth nth_list_update)
    then have "map_of (es[q := (m, k)]) y = Some z \<longleftrightarrow> map_of es y = Some z" for z
      using map_of_eq_Some_iff[OF d] map_of_eq_Some_iff[OF assms(1)] by simp
    then show ?thesis using False by (metis option.exhaust)
  qed
qed

section \<open>Linking, whether the name exists or not\<close>

definition can_link :: "sbfs \<Rightarrow> bool \<Rightarrow> cstring \<Rightarrow> u8 list \<Rightarrow> nat \<Rightarrow> bool" where
  "can_link fs replace name bs r \<longleftrightarrow> 256 dvd length bs \<and> distinct (map fst (entries bs)) \<and>
     (case map_of (entries bs) name of
        None \<Rightarrow> length bs \<le> 22 * 4096 \<and> room (data_bitmap fs) (dev_view (device fs)) (1 + r)
      | Some j \<Rightarrow> replace \<and> dir_ok bs)"

text \<open>The directory \<open>new\<close> is \<open>old\<close> with the name \<open>m\<close> for \<open>k\<close>.\<close>

definition named_in :: "cstring \<Rightarrow> u32 \<Rightarrow> u8 list \<Rightarrow> u8 list \<Rightarrow> bool" where
  "named_in m k old new \<longleftrightarrow> (\<forall>y. map_of (entries new) y = (if y = m then Some k else map_of (entries old) y)) \<and>
     distinct (map fst (entries new)) \<and> set (entries new) \<subseteq> insert (m, k) (set (entries old)) \<and>
     256 dvd length new \<and> length new + 8192 < 2 ^ 31"

lemma named_inD:
  assumes "named_in m k old new"
  shows "map_of (entries new) y = (if y = m then Some k else map_of (entries old) y)" "distinct (map fst (entries new))"
    "set (entries new) \<subseteq> insert (m, k) (set (entries old))" "256 dvd length new" "length new + 8192 < 2 ^ 31"
  using assms by (simp_all add: named_in_def)

lemma one_block_more:
  assumes "length bs \<le> 22 * 4096"
  shows "tree_size (nblocks (length bs + 256)) - tree_size (nblocks (length bs)) \<le> 1"
proof -
  have "nblocks (length bs + 256) \<le> nblocks (length bs + 4096)" by (rule div_le_mono) simp
  moreover have "nblocks (length bs + 4096) = nblocks (length bs) + 1" by simp
  moreover have "nblocks (length bs) \<le> nblocks (22 * 4096)" by (rule div_le_mono) (use assms in simp)
  ultimately show ?thesis by (simp add: tree_size_def)
qed

lemma link_any_ok:
  assumes inv: "fs_inv fs" and d: "contents fs d = Some (kDirectory, old)" "can_link fs replace m old r" "name_ok m"
    and k: "k \<in> dom (contents fs)" "k \<noteq> d"
  obtains fs' new where "inode_link dirjunk m \<lparr>ino_pos = getDiskInodePos k fs, ino_fs = True\<rparr> replace now (getDiskInodePos d fs) fs = Some (kSuccess, fs')"
    "fs_inv fs'" "contents fs' = (contents fs)(d \<mapsto> (kDirectory, new))" "named_in m k old new" "fs' = fs\<lparr>device := device fs'\<rparr>"
    "attrs fs' = (attrs fs)(k \<mapsto> attr_of ((inode_at fs k)\<lparr>link_cnt := link_cnt (inode_at fs k) + 1\<rparr>))"
    "map_of (entries old) m = None \<longrightarrow> room (data_bitmap fs) (dev_view (device fs')) r" "length new \<le> length old + 256"
proof (cases "map_of (entries old) m")
  case (Some j)
  have o: "256 dvd length old" "distinct (map fst (entries old))" "replace = True" "dir_ok old" using d(2) Some by (simp_all add: can_link_def)
  obtain q where q: "first_entry old m 0 = Some q" using Some by (auto simp: map_of_entries)
  obtain fs' where l: "inode_link dirjunk m \<lparr>ino_pos = getDiskInodePos k fs, ino_fs = True\<rparr> True now (getDiskInodePos d fs) fs = Some (kSuccess, fs')"
    "fs_inv fs'" "contents fs' = (contents fs)(d \<mapsto> (kDirectory, put_entry q m k old))" "fs' = fs\<lparr>device := device fs'\<rparr>"
    "attrs fs' = (attrs fs)(k \<mapsto> attr_of ((inode_at fs k)\<lparr>link_cnt := link_cnt (inode_at fs k) + 1\<rparr>))"
    by (rule inode_relink_ok[OF inv d(1) o(4) d(3) q k])
  have qb: "q < length old div 256" "q < length (entries old)" "fst (entries old ! q) = m" using first_entry_bound[OF q] by (simp_all add: entries_def)
  note e = entries_put_entry[OF o(1) qb(1) d(3), of k] and u = list_update_named[OF o(2) qb(2,3), of k]
  have "named_in m k old (put_entry q m k old)"
    using u o(1,4) set_update_subset_insert[of "entries old" q "(m, k)"] unfolding named_in_def e by (simp add: dir_ok_def)
  then show ?thesis by (rule that[unfolded o(3), OF l(1-3) _ l(4,5)]) (use Some e(2) in simp_all)
next
  case None
  have o: "256 dvd length old" "distinct (map fst (entries old))" "length old \<le> 22 * 4096" "room (data_bitmap fs) (dev_view (device fs)) (1 + r)"
    using d(2) None by (simp_all add: can_link_def)
  have new: "m \<notin> fst ` set (entries old)" using None by (simp add: map_of_eq_None_iff)
  have rm: "room (data_bitmap fs) (dev_view (device fs)) (tree_size (nblocks (length old + 256)) - tree_size (nblocks (length old)) + r)"
    using one_block_more[OF o(3)] o(4) by (simp add: room_def)
  obtain fs' where l: "inode_link dirjunk m \<lparr>ino_pos = getDiskInodePos k fs, ino_fs = True\<rparr> replace now (getDiskInodePos d fs) fs = Some (kSuccess, fs')"
    "fs_inv fs'" "contents fs' = (contents fs)(d \<mapsto> (kDirectory, old @ mem_bytes (DirEntry m k) 256))"
    "entries (old @ mem_bytes (DirEntry m k) 256) = entries old @ [(m, k)]" "fs' = fs\<lparr>device := device fs'\<rparr>"
    "attrs fs' = (attrs fs)(k \<mapsto> attr_of ((inode_at fs k)\<lparr>link_cnt := link_cnt (inode_at fs k) + 1\<rparr>))"
    "room (data_bitmap fs) (dev_view (device fs')) r"
    by (rule inode_link_ok[OF inv d(1) o(1,3) d(3) new k rm])
  have "named_in m k old (old @ mem_bytes (DirEntry m k) 256)"
    using o(1-3) None new unfolding named_in_def l(4) by (auto simp: map_add_def split: option.splits)
  then show ?thesis by (rule that[OF l(1-3) _ l(5,6)]) (use l(7) in simp_all)
qed

text \<open>Without \<open>replace\<close>, a name that exists is refused.\<close>

lemma inode_link_refused:
  assumes inv: "fs_inv fs" and p: "contents fs p = Some (kDirectory, bs)" and bs: "dir_ok bs" and n: "name_ok name"
    and q: "first_entry bs name 0 = Some q"
  obtains d' where "inode_link dirjunk name inode False now (getDiskInodePos p fs) fs = Some (kFail, fs\<lparr>device := d'\<rparr>)"
    "fs_inv (fs\<lparr>device := d'\<rparr>)" "contents (fs\<lparr>device := d'\<rparr>) = contents fs"
proof -
  obtain cur d1 cur2 y d2 where c: "read_inode (getDiskInodePos p fs) zero_inode (device fs) = (kSuccess, cur, d1)" "di_type cur = kDirectory"
    "dir_scan dirjunk name now cur d1 = (Found (q div 16) (q mod 16) y, cur2, d2)" "held fs ((files fs)(p \<mapsto> cur2)) {p} d2"
    "dev_view d2 = dev_view (device fs)"
    by (rule held_scan[OF inv p bs n q])
  have "inode_link dirjunk name inode False now (getDiskInodePos p fs) fs = Some (kFail, fs\<lparr>device := d2\<rparr>)"
    using c(1-3) by (simp add: inode_link_def kSuccess_def kFail_def)
  moreover have "dev_blocks d2 = dev_blocks (device fs)" using heldD(3)[OF c(4)] by (simp add: same_geometry_def)
  note fs_inv_agree[OF inv heldD(2)[OF c(4)] this]
  ultimately show ?thesis using that c(5) by simp
qed

end
