(* ===== verification/Name_Tree.thy ===== *)
theory Name_Tree
  imports Dir_Entries "HOL-Library.Multiset"
begin

text \<open>
  The names of a file system, over the contents of its files alone: which inode a list of names leads to from
  the root, that a well-formed file system is a tree under the names other than \<open>"."\<close> and \<open>".."\<close>, and what
  adding and removing an entry does to all paths. The path resolver and the handlers are shown to implement
  this view.
\<close>

section \<open>Lookup\<close>

type_synonym tree = "u32 \<rightharpoonup> u32 \<times> u8 list"

definition dir_of :: "tree \<Rightarrow> u32 \<Rightarrow> (cstring \<times> u32) list" where
  "dir_of C p = (case C p of None \<Rightarrow> [] | Some (t, bs) \<Rightarrow> if t = kDirectory then entries bs else [])"

primrec lookup :: "tree \<Rightarrow> cstring list \<Rightarrow> u32 \<Rightarrow> u32 option" where
  "lookup C [] p = Some p"
| "lookup C (n # ns) p = (case map_of (dir_of C p) n of None \<Rightarrow> None | Some j \<Rightarrow> lookup C ns j)"

definition plain :: "cstring \<Rightarrow> bool" where
  "plain n \<longleftrightarrow> n \<noteq> dot \<and> n \<noteq> dotdot"

definition edge :: "tree \<Rightarrow> u32 \<Rightarrow> cstring \<Rightarrow> u32 \<Rightarrow> bool" where
  "edge C p n j \<longleftrightarrow> plain n \<and> map_of (dir_of C p) n = Some j"

definition dirs_ok :: "tree \<Rightarrow> bool" where
  "dirs_ok C \<longleftrightarrow> (\<forall>p bs. C p = Some (kDirectory, bs) \<longrightarrow> 256 dvd length bs \<and> length bs + 8192 < 2 ^ 31) \<and>
     (\<forall>p. distinct (map fst (dir_of C p)) \<and> snd ` set (dir_of C p) \<subseteq> dom C \<and> [] \<notin> fst ` set (dir_of C p))"

definition dots_ok :: "tree \<Rightarrow> u32 \<Rightarrow> bool" where
  "dots_ok C r \<longleftrightarrow> (\<forall>x j. map_of (dir_of C x) dot = Some j \<longrightarrow> j = x) \<and>
     (\<forall>x j. map_of (dir_of C x) dotdot = Some j \<longrightarrow> j = x \<and> x = r \<or> (\<exists>n. edge C j n x))"

lemma dots_okD:
  assumes "dots_ok C r"
  shows "map_of (dir_of C x) dot = Some j \<Longrightarrow> j = x"
    "map_of (dir_of C x) dotdot = Some j \<Longrightarrow> j = x \<and> x = r \<or> (\<exists>n. edge C j n x)"
  using assms unfolding dots_ok_def by blast+

definition name_tree :: "tree \<Rightarrow> u32 \<Rightarrow> bool" where
  "name_tree C r \<longleftrightarrow> dirs_ok C \<and> dots_ok C r \<and> (\<exists>bs. C r = Some (kDirectory, bs)) \<and> (\<forall>p n. \<not> edge C p n r) \<and>
     (\<forall>p n p' n' j. edge C p n j \<longrightarrow> edge C p' n' j \<longrightarrow> p = p' \<and> n = n')"

lemma dirs_okD:
  assumes "dirs_ok C"
  shows "C p = Some (kDirectory, bs) \<Longrightarrow> 256 dvd length bs \<and> length bs + 8192 < 2 ^ 31"
    "distinct (map fst (dir_of C p))" "map_of (dir_of C p) n = Some j \<Longrightarrow> j \<in> dom C"
    "[] \<notin> fst ` set (dir_of C p)"
proof -
  show "j \<in> dom C" if "map_of (dir_of C p) n = Some j"
  proof -
    have "j \<in> snd ` set (dir_of C p)" using map_of_SomeD[OF that] by force
    moreover have "snd ` set (dir_of C p) \<subseteq> dom C" using assms by (simp add: dirs_ok_def)
    ultimately show ?thesis by blast
  qed
qed (use assms in \<open>auto simp: dirs_ok_def\<close>)

lemma name_treeD:
  assumes "name_tree C r"
  shows "dirs_ok C" "r \<in> dom C" "\<not> edge C p n r" "edge C p n j \<Longrightarrow> edge C p' n' j \<Longrightarrow> p = p'" "edge C p n j \<Longrightarrow> edge C p' n' j \<Longrightarrow> n = n'"
    "dots_ok C r"
proof -
  show "p = p'" if "edge C p n j" "edge C p' n' j" using assms that unfolding name_tree_def by metis
  show "n = n'" if "edge C p n j" "edge C p' n' j" using assms that unfolding name_tree_def by metis
  show "\<not> edge C p n r" using assms by (simp add: name_tree_def)
qed (use assms in \<open>auto simp: name_tree_def\<close>)

lemma edge_dom: "dirs_ok C \<Longrightarrow> edge C p n j \<Longrightarrow> j \<in> dom C"
  by (auto simp: edge_def dest: dirs_okD(3))

lemma lookup_append: "lookup C (ns @ ms) p = (case lookup C ns p of None \<Rightarrow> None | Some q \<Rightarrow> lookup C ms q)"
  by (induction ns arbitrary: p) (auto split: option.splits)

lemma lookup_snoc: "lookup C (ns @ [n]) p = Some j \<longleftrightarrow> (\<exists>q. lookup C ns p = Some q \<and> map_of (dir_of C q) n = Some j)"
  by (auto simp: lookup_append split: option.splits)

lemma lookup_dom: "dirs_ok C \<Longrightarrow> p \<in> dom C \<Longrightarrow> lookup C ns p = Some j \<Longrightarrow> j \<in> dom C"
proof (induction ns arbitrary: p)
  case (Cons n ns)
  then obtain i where i: "map_of (dir_of C p) n = Some i" "lookup C ns i = Some j" by (auto split: option.splits)
  show ?case by (rule Cons.IH[OF Cons.prems(1) dirs_okD(3)[OF Cons.prems(1) i(1)] i(2)])
qed simp

text \<open>A file has only one path.\<close>

lemma lookup_unique:
  assumes "name_tree C r" "lookup C ns r = Some j" "lookup C ms r = Some j" "\<forall>n \<in> set ns. plain n" "\<forall>n \<in> set ms. plain n"
  shows "ns = ms"
  using assms
proof (induction ns arbitrary: ms j rule: rev_induct)
  case Nil
  then show ?case using name_treeD(3)[OF Nil.prems(1)] by (cases ms rule: rev_cases) (auto simp: lookup_snoc edge_def)
next
  case (snoc n ns)
  obtain q where q: "lookup C ns r = Some q" "edge C q n j" using snoc.prems(2,4) by (auto simp: lookup_snoc edge_def)
  show ?case
  proof (cases ms rule: rev_cases)
    case Nil
    then show ?thesis using snoc.prems(1,3) q(2) name_treeD(3) by auto
  next
    case (snoc ms' n')
    then obtain q' where q': "lookup C ms' r = Some q'" "edge C q' n' j"
      using snoc.prems(3,5) by (auto simp: lookup_snoc edge_def)
    have "q' = q" "n' = n" using name_treeD(4,5)[OF snoc.prems(1) q'(2) q(2)] by simp_all
    then show ?thesis using snoc.IH[OF snoc.prems(1) q(1)] q'(1) snoc.prems(4,5) snoc by auto
  qed
qed

section \<open>Changes of the tree\<close>

lemma lookup_same: "dir_of C' = dir_of C \<Longrightarrow> lookup C' ns p = lookup C ns p"
  by (induction ns arbitrary: p) (auto split: option.splits)

lemma lookup_grow:
  assumes "\<And>q n j. map_of (dir_of C q) n = Some j \<Longrightarrow> map_of (dir_of C' q) n = Some j" "lookup C ns p = Some j"
  shows "lookup C' ns p = Some j"
  using assms(2) by (induction ns arbitrary: p) (auto split: option.splits dest: assms(1))

lemma take_snoc_neq: "take (Suc (length ps)) (ns @ [n]) \<noteq> ps @ [m] \<Longrightarrow> take (Suc (length ps)) ns \<noteq> ps @ [m]"
proof
  assume a: "take (Suc (length ps)) (ns @ [n]) \<noteq> ps @ [m]" "take (Suc (length ps)) ns = ps @ [m]"
  have "length (take (Suc (length ps)) ns) = Suc (length ps)" unfolding a(2) by simp
  then have "length ns \<ge> Suc (length ps)" by simp
  then show False using a by simp
qed

text \<open>A path that runs through none of the entries that are taken away leads where it led.\<close>

lemma lookup_cuts:
  assumes "name_tree C r" "lookup C ns r = Some j" "\<forall>n \<in> set ns. plain n"
    and "\<And>q n j. edge C q n j \<Longrightarrow> map_of (dir_of C' q) n \<noteq> Some j \<Longrightarrow>
      \<exists>ps. lookup C ps r = Some q \<and> (\<forall>n \<in> set ps. plain n) \<and> take (Suc (length ps)) ns \<noteq> ps @ [n]"
  shows "lookup C' ns r = Some j"
  using assms(2-4)
proof (induction ns arbitrary: j rule: rev_induct)
  case (snoc n ns)
  obtain q where q: "lookup C ns r = Some q" "edge C q n j" using snoc.prems(1,2) by (auto simp: lookup_snoc edge_def)
  have "lookup C' ns r = Some q"
  proof (rule snoc.IH[OF q(1)])
    show "\<forall>n \<in> set ns. plain n" using snoc.prems(2) by simp
    fix q' n' j' assume "edge C q' n' j'" "map_of (dir_of C' q') n' \<noteq> Some j'"
    from snoc.prems(3)[OF this] obtain ps where "lookup C ps r = Some q'" "\<forall>n \<in> set ps. plain n"
      "take (Suc (length ps)) (ns @ [n]) \<noteq> ps @ [n']" by blast
    then show "\<exists>ps. lookup C ps r = Some q' \<and> (\<forall>n \<in> set ps. plain n) \<and> take (Suc (length ps)) ns \<noteq> ps @ [n']"
      using take_snoc_neq[of ps ns n n'] by blast
  qed
  moreover have "map_of (dir_of C' q) n = Some j"
  proof (rule ccontr)
    assume "map_of (dir_of C' q) n \<noteq> Some j"
    from snoc.prems(3)[OF q(2) this] obtain ps where ps: "lookup C ps r = Some q" "\<forall>n \<in> set ps. plain n"
      "take (Suc (length ps)) (ns @ [n]) \<noteq> ps @ [n]" by blast
    have "ns = ps" using lookup_unique[OF assms(1) q(1) ps(1) _ ps(2)] snoc.prems(2) by simp
    then show False using ps(3) by simp
  qed
  ultimately show ?case by (simp add: lookup_snoc)
qed simp

lemma lookup_cut:
  assumes "name_tree C r" "lookup C ps r = Some p" "\<forall>n \<in> set ps. plain n"
    and "\<And>q n j. edge C q n j \<Longrightarrow> (q, n) \<noteq> (p, name) \<Longrightarrow> map_of (dir_of C' q) n = Some j"
    and "lookup C ns r = Some j" "\<forall>n \<in> set ns. plain n" "take (Suc (length ps)) ns \<noteq> ps @ [name]"
  shows "lookup C' ns r = Some j"
  by (rule lookup_cuts[OF assms(1,5,6)]) (use assms(2-4,7) in blast)

text \<open>Changing the bytes of a file that is not a directory.\<close>

lemma dir_of_file: "C k = Some (t, bs) \<Longrightarrow> t \<noteq> kDirectory \<Longrightarrow> dir_of (C(k \<mapsto> (t, bs'))) = dir_of C"
  by (rule ext) (simp add: dir_of_def)

lemma name_tree_file:
  assumes "name_tree C r" "C k = Some (t, bs)" "t \<noteq> kDirectory"
  shows "name_tree (C(k \<mapsto> (t, bs'))) r"
proof -
  have d: "dom (C(k \<mapsto> (t, bs'))) = dom C" using assms(2) by auto
  have e: "dir_of (C(k \<mapsto> (t, bs'))) = dir_of C" using assms(2,3) by (rule dir_of_file)
  have g: "edge (C(k \<mapsto> (t, bs'))) = edge C" by (intro ext) (simp add: edge_def e)
  have "dirs_ok (C(k \<mapsto> (t, bs')))" using assms(3) name_treeD(1)[OF assms(1)] unfolding dirs_ok_def e d by simp
  moreover have "\<exists>bs. (C(k \<mapsto> (t, bs'))) r = Some (kDirectory, bs)" using assms by (auto simp: name_tree_def)
  ultimately show ?thesis using assms(1) unfolding name_tree_def dots_ok_def e g by blast
qed

text \<open>Adding an entry.\<close>

lemma dir_of_create:
  assumes "C p = Some (kDirectory, old)" "k \<notin> dom C" "entries new = entries old @ [(name, k)]"
    and "entries bs = (if t = kDirectory then [(dot, k), (dotdot, p)] else [])"
  shows "dir_of (C(p \<mapsto> (kDirectory, new), k \<mapsto> (t, bs))) q =
     (if q = p then dir_of C p @ [(name, k)] else if q = k \<and> t = kDirectory then [(dot, k), (dotdot, p)] else dir_of C q)"
proof -
  have "C k = None" using assms(2) by auto
  then show ?thesis using assms by (auto simp: dir_of_def)
qed

lemma lookup_create:
  assumes "C p = Some (kDirectory, old)" "k \<notin> dom C" "entries new = entries old @ [(name, k)]"
    and "entries bs = (if t = kDirectory then [(dot, k), (dotdot, p)] else [])" "lookup C ns r = Some j"
  shows "lookup (C(p \<mapsto> (kDirectory, new), k \<mapsto> (t, bs))) ns r = Some j"
proof (rule lookup_grow[OF _ assms(5)])
  have "dir_of C k = []" using assms(2) by (auto simp: dir_of_def split: option.splits)
  then show "map_of (dir_of (C(p \<mapsto> (kDirectory, new), k \<mapsto> (t, bs))) q) n = Some i" if "map_of (dir_of C q) n = Some i" for q n i
    using that unfolding dir_of_create[OF assms(1-4)] by (auto simp: map_add_Some_iff split: option.splits)
qed

lemma name_tree_create:
  assumes "name_tree C r" "C p = Some (kDirectory, old)" "k \<notin> dom C" "entries new = entries old @ [(name, k)]"
    and "entries bs = (if t = kDirectory then [(dot, k), (dotdot, p)] else [])" "256 dvd length bs" "length bs \<le> 512"
    and "length new = length old + 256" "length new + 8192 < 2 ^ 31" "name \<notin> fst ` set (entries old)" "plain name" "name \<noteq> []"
  shows "name_tree (C(p \<mapsto> (kDirectory, new), k \<mapsto> (t, bs))) r"
proof -
  note d = dir_of_create[OF assms(2-5)] and ok = name_treeD[OF assms(1)]
  define C' where "C' = C(p \<mapsto> (kDirectory, new), k \<mapsto> (t, bs))"
  have kn: "dir_of C k = []" "k \<noteq> p" using assms(2,3) by (auto simp: dir_of_def split: option.splits)
  have op: "dir_of C p = entries old" using assms(2) by (simp add: dir_of_def)
  have dm: "dom C' = insert k (dom C)" using assms(2) by (auto simp: C'_def)
  have ed: "edge C' q n j \<longleftrightarrow> edge C q n j \<or> plain n \<and> q = p \<and> n = name \<and> j = k" for q n j
    using kn assms(10) unfolding edge_def C'_def d
    by (auto simp: op plain_def map_add_def split: option.splits dest!: map_of_SomeD intro: rev_image_eqI)
  have ek: "\<not> edge C q n k" for q n using edge_dom[OF ok(1)] assms(3) by blast
  have "dirs_ok C'"
    unfolding dirs_ok_def
  proof (intro conjI allI impI)
    fix q b assume q: "C' q = Some (kDirectory, b)"
    have "256 dvd length old" using dirs_okD(1)[OF ok(1) assms(2)] by simp
    then show "256 dvd length b" "length b + 8192 < 2 ^ 31"
      using q dirs_okD(1)[OF ok(1), of q b] assms(6-9) by (auto simp: C'_def split: if_splits)
  next
    fix q
    show "distinct (map fst (dir_of C' q))"
      using dirs_okD(2)[OF ok(1), of q] dirs_okD(2)[OF ok(1), of p] assms(10) unfolding C'_def d by (auto simp: op dot_def dotdot_def)
    have "snd ` set (dir_of C q) \<subseteq> dom C" "snd ` set (dir_of C p) \<subseteq> dom C" "p \<in> dom C"
      using ok(1) assms(2) by (auto simp: dirs_ok_def)
    then show "snd ` set (dir_of C' q) \<subseteq> dom C'" unfolding dm unfolding C'_def d by auto
    show "[] \<notin> fst ` set (dir_of C' q)"
      using dirs_okD(4)[OF ok(1), of q] dirs_okD(4)[OF ok(1), of p] assms(12) unfolding C'_def d by (auto simp: dot_def dotdot_def)
  qed
  moreover have "dots_ok C' r"
  proof -
    have a: "map_of (dir_of C' x) n = (if x = k \<and> t = kDirectory then [dot \<mapsto> k, dotdot \<mapsto> p] n else map_of (dir_of C x) n)"
      if "n \<noteq> name" for x n
      using that kn unfolding C'_def d by (auto simp: map_add_def fun_upd_def dot_def dotdot_def split: option.splits)
    have "dot \<noteq> name" "dotdot \<noteq> name" using assms(11) by (auto simp: plain_def)
    note a' = a[OF this(1)] a[OF this(2)]
    have "j = x \<and> x = r \<or> (\<exists>n. edge C' j n x)" if j: "map_of (dir_of C' x) dotdot = Some j" for x j
    proof (cases "x = k \<and> t = kDirectory")
      case True
      then show ?thesis using j assms(11) unfolding a'(2) ed by (auto simp: dotdot_def dot_def)
    next
      case False
      then have "map_of (dir_of C x) dotdot = Some j" using j unfolding a'(2) by (auto split: if_splits)
      from dots_okD(2)[OF ok(6) this] show ?thesis unfolding ed by blast
    qed
    moreover have "j = x" if "map_of (dir_of C' x) dot = Some j" for x j
      using that dots_okD(1)[OF ok(6), of x j] unfolding a'(1) by (auto simp: dot_def dotdot_def split: if_splits)
    ultimately show ?thesis unfolding dots_ok_def by blast
  qed
  moreover have "\<exists>bs. C' r = Some (kDirectory, bs)" using assms(1,3) by (auto simp: C'_def name_tree_def)
  moreover have "\<not> edge C' q n r" for q n using ok(2,3) assms(3) unfolding ed by auto
  moreover have "q = q' \<and> n = n'" if "edge C' q n j" "edge C' q' n' j" for q n q' n' j
    using that ek ok(4,5) unfolding ed by blast
  ultimately show ?thesis unfolding name_tree_def C'_def by blast
qed

text \<open>Removing an entry, and the file it names.\<close>

lemma map_of_drop:
  assumes "distinct (map fst es)" "q < length es" "es ! q = (name, k)"
  shows "map_of (butlast (es[q := last es])) n = (if n = name then None else map_of es n)"
    "distinct (map fst (butlast (es[q := last es])))" "set (butlast (es[q := last es])) \<subseteq> set es"
proof -
  obtain es' l where es: "es = es' @ [l]" using assms(2) by (cases es rule: rev_cases) auto
  define ds where "ds = butlast (es[q := last es])"
  have m: "mset es = mset ((name, k) # ds)"
  proof (cases "q < length es'")
    case True
    then have "ds = es'[q := l]" "es' ! q = (name, k)" using assms(3) by (simp_all add: ds_def es list_update_append butlast_append nth_append)
    moreover have "(name, k) \<in># mset es'" using True calculation(2) by (metis nth_mem set_mset_mset)
    ultimately show ?thesis using mset_update[OF True, of l] by (simp add: es)
  next
    case False
    then have "ds = es'" "l = (name, k)" using assms(2,3) by (auto simp: ds_def es list_update_append nth_append)
    then show ?thesis by (simp add: es)
  qed
  have s: "set es = insert (name, k) (set ds)" using mset_eq_setD[OF m] by simp
  have "mset (map fst es) = mset (map fst ((name, k) # ds))" unfolding mset_map m ..
  then have "distinct (map fst ((name, k) # ds))" using mset_eq_imp_distinct_iff assms(1) by blast
  then have d: "distinct (map fst ds)" "name \<notin> fst ` set ds" by simp_all
  show "distinct (map fst (butlast (es[q := last es])))" using d(1) by (simp add: ds_def)
  show "set (butlast (es[q := last es])) \<subseteq> set es" using s by (auto simp: ds_def)
  have "map_of ds n = Some j \<longleftrightarrow> n \<noteq> name \<and> map_of es n = Some j" for j
  proof -
    have "(n, j) \<in> set ds \<Longrightarrow> n \<noteq> name" using d(2) by force
    then show ?thesis unfolding map_of_eq_Some_iff[OF d(1)] map_of_eq_Some_iff[OF assms(1)] s by auto
  qed
  then show "map_of (butlast (es[q := last es])) n = (if n = name then None else map_of es n)"
    unfolding ds_def[symmetric] using d(2) by (simp add: map_of_eq_None_iff) (metis not_None_eq)
qed

lemma named_once:
  assumes "name_tree C r" "edge C p name k" "\<And>n j. \<not> edge C k n j" "(n, k) \<in> set (dir_of C x)" "x \<noteq> k"
  shows "x = p" "n = name"
proof -
  note ok = name_treeD[OF assms(1)]
  have m: "map_of (dir_of C x) n = Some k" using assms(4) dirs_okD(2)[OF ok(1)] by (rule map_of_is_SomeI[rotated])
  have "k \<noteq> r" using assms(2) ok(3) by auto
  then have "n \<noteq> dot" "n \<noteq> dotdot" using m ok(6) assms(3,5) unfolding dots_ok_def by blast+
  then have "edge C x n k" using m by (simp add: edge_def plain_def)
  then show "x = p" "n = name" using ok(4,5)[OF _ assms(2)] by blast+
qed

lemma name_tree_remove:
  assumes "name_tree C r" "C p = Some (kDirectory, bs)" "edge C p name k" "\<And>n j. \<not> edge C k n j"
    and q: "q < length (entries bs)" "entries bs ! q = (name, k)" "entries bs' = butlast ((entries bs)[q := last (entries bs)])"
    and "length bs' = length bs - 256" "k \<noteq> p"
  defines "C' \<equiv> C(p \<mapsto> (kDirectory, bs'), k := None)"
  shows "name_tree C' r" "edge C' x n j \<longleftrightarrow> edge C x n j \<and> (x, n) \<noteq> (p, name)"
proof -
  note ok = name_treeD[OF assms(1)] and once = named_once[OF assms(1,3,4)]
  have dp: "dir_of C p = entries bs" using assms(2) by (simp add: dir_of_def)
  note m = map_of_drop[OF dirs_okD(2)[OF ok(1), of p, unfolded dp] q(1,2), folded q(3)]
  have d: "dir_of C' x = (if x = p then entries bs' else if x = k then [] else dir_of C x)" for x
    using assms(9) by (auto simp: C'_def dir_of_def)
  show ed: "edge C' x n j \<longleftrightarrow> edge C x n j \<and> (x, n) \<noteq> (p, name)" for x n j
    using assms(4,9) by (auto simp: edge_def d m(1) dp split: if_splits)
  have nk: "k \<notin> snd ` set (dir_of C' x)" for x
  proof
    assume "k \<in> snd ` set (dir_of C' x)"
    then obtain n where n: "(n, k) \<in> set (dir_of C' x)" by auto
    then have x: "x \<noteq> k" "(n, k) \<in> set (dir_of C x)" using m(3) assms(9) by (auto simp: d dp split: if_splits)
    have e: "x = p" "n = name" by (rule once[OF x(2,1)])+
    have "map_of (entries bs') name = Some k" using n e m(2) by (simp add: d)
    then show False using m(1)[of name] by simp
  qed
  have "dirs_ok C'"
    unfolding dirs_ok_def
  proof (intro conjI allI impI)
    fix x b assume x: "C' x = Some (kDirectory, b)"
    then show "256 dvd length b" "length b + 8192 < 2 ^ 31"
      using dirs_okD(1)[OF ok(1), of x b] dirs_okD(1)[OF ok(1) assms(2)] assms(8) by (auto simp: C'_def split: if_splits)
  next
    fix x
    show "distinct (map fst (dir_of C' x))" using dirs_okD(2)[OF ok(1), of x] m(2) by (simp add: d)
    have sub: "snd ` set (dir_of C x) \<subseteq> dom C" for x using ok(1) by (simp add: dirs_ok_def)
    have "snd ` set (entries bs') \<subseteq> dom C" using image_mono[OF m(3), of snd] sub[of p] unfolding dp by (rule order_trans)
    then have "snd ` set (dir_of C' x) \<subseteq> dom C" using sub[of x] by (simp add: d)
    moreover have "dom C' = dom C - {k}" using assms(2,9) by (auto simp: C'_def)
    ultimately show "snd ` set (dir_of C' x) \<subseteq> dom C'" using nk[of x] by blast
    show "[] \<notin> fst ` set (dir_of C' x)"
      using dirs_okD(4)[OF ok(1), of x] dirs_okD(4)[OF ok(1), of p] m(3) by (auto simp: d dp split: if_splits)
  qed
  moreover have "dots_ok C' r"
  proof -
    have pl: "plain name" using assms(3) by (simp add: edge_def)
    have s: "map_of (dir_of C' x) n = Some j \<Longrightarrow> map_of (dir_of C x) n = Some j" for x n j
      using m(1)[of n] by (auto simp: d dp split: if_splits)
    have "\<exists>n. edge C' j n x" if j: "map_of (dir_of C' x) dotdot = Some j" "\<not> (j = x \<and> x = r)" for x j
    proof -
      obtain n where n: "edge C j n x" using dots_okD(2)[OF ok(6) s[OF j(1)]] j(2) by blast
      have "x \<noteq> k" using j(1) assms(9) by (auto simp: d split: if_splits)
      then have "(j, n) \<noteq> (p, name)" using n assms(3) by (auto simp: edge_def)
      then show ?thesis using n ed by blast
    qed
    then show ?thesis using ok(6) s unfolding dots_ok_def by blast
  qed
  moreover have "\<exists>bs. C' r = Some (kDirectory, bs)"
    using assms(1,3) ok(3) by (auto simp: C'_def name_tree_def)
  ultimately show "name_tree C' r" using ok(3-5) unfolding name_tree_def ed by blast
qed

end
