(* ===== verification/Path_Resolver.thy ===== *)
theory Path_Resolver
  imports Inode_Ops "HOL-Library.List_Lexorder"
begin

text \<open>
  Path lookup, \<open>src/path_resolver.cpp\<close>, with its cache of resolved paths (\<open>PATH_CACHE\<close> is defined
  in the build). Strings are lists of bytes without NUL.

  The cache is a \<open>std::map\<close> ordered by its keys: here the list of its entries in that order, with
  the lexicographic order of \<open>std::string\<close> on unsigned bytes. An iterator is the key it points
  to, None for \<open>end()\<close>. What C++ leaves undefined or ends with an exception (an iterator to an erased
  entry that is dereferenced, a null \<open>fs\<close> pointer, \<open>substr\<close> beyond the end) is the result None of
  an operation.
\<close>

section \<open>Strings\<close>

definition slash :: u8 where
  "slash = 0x2F"

text \<open>\<open>s.find(c, start)\<close> and \<open>s.rfind(c)\<close>; None is \<open>npos\<close>.\<close>

definition find_char :: "u8 \<Rightarrow> cstring \<Rightarrow> nat \<Rightarrow> nat option" where
  "find_char c s start = List.find (\<lambda>i. s ! i = c) [start..<length s]"

definition rfind_char :: "u8 \<Rightarrow> cstring \<Rightarrow> nat option" where
  "rfind_char c s = List.find (\<lambda>i. s ! i = c) (rev [0..<length s])"

text \<open>For the empty string \<open>size() - 1\<close> is \<open>npos\<close>.\<close>

definition removeEndSlash :: "cstring \<Rightarrow> cstring" where
  "removeEndSlash path =
     (if rfind_char slash path = (if path = [] then None else Some (length path - 1))
      then take (length path - 1) path else path)"

text \<open>\<open>s.substr(1)\<close>, which throws on the empty string.\<close>

definition substr1 :: "cstring \<Rightarrow> cstring option" where
  "substr1 s = (if s = [] then None else Some (drop 1 s))"

function split_loop :: "cstring \<Rightarrow> u8 \<Rightarrow> bool \<Rightarrow> nat \<Rightarrow> cstring list" where
  "split_loop s delim reserve_prev start =
     (case find_char delim s start of
        Some e \<Rightarrow> (if reserve_prev then take e s else take (e - start) (drop start s)) #
          split_loop s delim reserve_prev (e + 1)
      | None \<Rightarrow> [if reserve_prev then s else drop start s])"
  by pat_completeness auto

termination
  by (relation "measure (\<lambda>(s, delim, rp, start). Suc (length s) - start)")
    (auto simp: find_char_def find_Some_iff)

declare split_loop.simps [simp del]

definition split_path :: "cstring \<Rightarrow> u8 \<Rightarrow> bool \<Rightarrow> cstring list" where
  "split_path s delim reserve_prev = split_loop s delim reserve_prev 0"

section \<open>The cache\<close>

record PathCacheValue =
  pcv_inode :: Inode
  visited :: bool

type_synonym path_cache = "(cstring \<times> PathCacheValue) list"

record PathResolver =
  path_cache :: path_cache
  clock_iter :: "cstring option"
  cur_cache_size :: u64
  max_cache_size :: u64

definition PathResolver_new :: "u64 \<Rightarrow> PathResolver" where
  "PathResolver_new path_cache_size =
     \<lparr>path_cache = [], clock_iter = None, cur_cache_size = 0, max_cache_size = path_cache_size\<rparr>"

text \<open>\<open>path_cache_[k] = v\<close>, \<open>path_cache_.erase(it)\<close>, the assignment to \<open>it->second.visited\<close> and the
  successor of an iterator.\<close>

primrec cache_put :: "cstring \<Rightarrow> PathCacheValue \<Rightarrow> path_cache \<Rightarrow> path_cache" where
  "cache_put k v [] = [(k, v)]"
| "cache_put k v (e # c) =
     (if k = fst e then (k, v) # c else if k < fst e then (k, v) # e # c else e # cache_put k v c)"

definition cache_erase :: "cstring \<Rightarrow> path_cache \<Rightarrow> path_cache" where
  "cache_erase k c = filter (\<lambda>e. fst e \<noteq> k) c"

definition set_visited :: "cstring \<Rightarrow> bool \<Rightarrow> path_cache \<Rightarrow> path_cache" where
  "set_visited k b c = map (\<lambda>(k', v). if k' = k then (k', v\<lparr>visited := b\<rparr>) else (k', v)) c"

definition iter_succ :: "cstring \<Rightarrow> path_cache \<Rightarrow> cstring option" where
  "iter_succ k c = (case dropWhile (\<lambda>e. fst e \<noteq> k) c of a # b # r \<Rightarrow> Some (fst b) | _ \<Rightarrow> None)"

text \<open>\<open>PathResolver::next\<close>\<close>

definition iter_next :: "cstring \<Rightarrow> path_cache \<Rightarrow> cstring" where
  "iter_next k c = (case iter_succ k c of Some k' \<Rightarrow> k' | None \<Rightarrow> fst (hd c))"

text \<open>\<open>sizeof(path_cache_key_t) + sizeof(path_cache_val_t)\<close> beside the length of the key: 32 bytes
  for a \<open>std::string\<close>, 24 for an inode and a flag.\<close>

definition entry_size :: "cstring \<Rightarrow> u64" where
  "entry_size k = of_nat (length k) + 32 + 24"

section \<open>Eviction\<close>

text \<open>The inner loop of \<open>evict\<close>: the hand of the clock moves on, clearing the flags it passes.\<close>

definition visited_count :: "path_cache \<Rightarrow> nat" where
  "visited_count c = length (filter (\<lambda>e. visited (snd e)) c)"

lemma set_visited_less:
  assumes "map_of c k = Some v" "visited v"
  shows "visited_count (set_visited k False c) < visited_count c"
proof -
  have le: "visited_count (set_visited k False c) \<le> visited_count c" for c :: path_cache
    by (induction c) (auto simp: visited_count_def set_visited_def split: if_splits)
  show ?thesis using assms
  proof (induction c)
    case (Cons e c)
    then show ?case
      using le[of c] by (cases e, cases "fst e = k")
        (auto simp: visited_count_def set_visited_def split: if_splits)
  qed simp
qed

function clock_spin :: "path_cache \<Rightarrow> cstring \<Rightarrow> (path_cache \<times> cstring) option" where
  "clock_spin c k =
     (case map_of c k of None \<Rightarrow> None
      | Some v \<Rightarrow> if visited v then clock_spin (set_visited k False c) (iter_next k (set_visited k False c))
                 else Some (c, k))"
  by pat_completeness auto

termination
  by (relation "measure (\<lambda>(c, k). visited_count c)") (auto simp: set_visited_less)

declare clock_spin.simps [simp del]

lemma clock_spin_keys:
  "clock_spin c k = Some (c', k') \<Longrightarrow> map fst c' = map fst c \<and> k' \<in> fst ` set c'"
proof (induction c k rule: clock_spin.induct)
  case (1 c k)
  have keys: "map fst (set_visited k False c) = map fst c"
    by (auto simp: set_visited_def)
  show ?case
    using 1 keys
    by (subst (asm) clock_spin.simps, cases "map_of c k")
      (auto dest: map_of_SomeD split: if_splits intro: rev_image_eqI)
qed

lemma cache_erase_less:
  assumes "clock_spin c k0 = Some (c1, k)"
  shows "length (cache_erase k c1) < length c"
proof -
  have "map fst c1 = map fst c" "k \<in> fst ` set c1" using clock_spin_keys[OF assms] by auto
  then have "length c1 = length c" by (metis length_map)
  moreover have "length (cache_erase k c1) < length c1"
    unfolding cache_erase_def using \<open>k \<in> fst ` set c1\<close> by (auto intro!: length_filter_less)
  ultimately show ?thesis by simp
qed

text \<open>The outer loop: \<open>n\<close> is \<open>cur_size\<close>.\<close>

function evict_loop ::
  "u64 \<Rightarrow> u64 \<Rightarrow> path_cache \<Rightarrow> cstring option \<Rightarrow> (u64 \<times> path_cache \<times> cstring option) option" where
  "evict_loop sz n c it =
     (if n < sz \<and> c \<noteq> [] then
        (case clock_spin c (case it of None \<Rightarrow> fst (hd c) | Some k \<Rightarrow> k) of
           None \<Rightarrow> None
         | Some (c1, k) \<Rightarrow> evict_loop sz (n + entry_size k) (cache_erase k c1) (iter_succ k c1))
      else Some (n, c, it))"
  by pat_completeness auto

termination
  by (relation "measure (\<lambda>(sz, n, c, it). length c)") (auto dest: cache_erase_less)

declare evict_loop.simps [simp del]

definition evict :: "u64 \<Rightarrow> PathResolver \<Rightarrow> PathResolver option" where
  "evict sz pr =
     (case evict_loop sz 0 (path_cache pr) (clock_iter pr) of None \<Rightarrow> None
      | Some (n, c, it) \<Rightarrow> Some (pr\<lparr>path_cache := c, clock_iter := it, cur_cache_size := n\<rparr>))"

section \<open>Resolving\<close>

text \<open>The lookup in the cache: the last prefix of the path that is cached gives the starting inode
  and the number of path components done.\<close>

primrec lookup_cache :: "nat list \<Rightarrow> cstring list \<Rightarrow> Inode \<Rightarrow> nat \<Rightarrow> path_cache \<Rightarrow> Inode \<times> nat \<times> path_cache" where
  "lookup_cache [] cache_vec cur_inode cur_path_index c = (cur_inode, cur_path_index, c)"
| "lookup_cache (i # js) cache_vec cur_inode cur_path_index c =
     (case map_of c (cache_vec ! i) of
        Some v \<Rightarrow> lookup_cache js cache_vec (pcv_inode v) (i + 1) (set_visited (cache_vec ! i) True c)
      | None \<Rightarrow> lookup_cache js cache_vec cur_inode cur_path_index c)"

text \<open>\<open>cur_inode.find(name, &next_inode)\<close> through the pointer \<open>cur_inode.fs\<close>.\<close>

definition find_in :: "mem \<Rightarrow> cstring \<Rightarrow> u32 \<Rightarrow> Inode \<Rightarrow> sbfs \<Rightarrow> (int \<times> Inode \<times> sbfs) option" where
  "find_in dirjunk name now inode fs =
     (if \<not> ino_fs inode then None else Some (inode_find dirjunk name Inode_invalid now (ino_pos inode) fs))"

text \<open>The update of the cache after a component is resolved.\<close>

definition cache_insert :: "cstring \<Rightarrow> Inode \<Rightarrow> PathResolver \<Rightarrow> PathResolver option" where
  "cache_insert key inode pr =
     (let cur_size_increase = entry_size key;
          size_to_evict = cur_cache_size pr + cur_size_increase - max_cache_size pr
      in case (if size_to_evict > 0 then evict size_to_evict pr else Some pr) of
           None \<Rightarrow> None
         | Some pr1 \<Rightarrow> Some (pr1\<lparr>path_cache :=
             cache_put key \<lparr>pcv_inode = inode, visited = True\<rparr> (path_cache pr1)\<rparr>))"

primrec resolve_parts ::
  "nat list \<Rightarrow> mem \<Rightarrow> u32 \<Rightarrow> cstring list \<Rightarrow> cstring list \<Rightarrow> Inode \<Rightarrow> PathResolver \<Rightarrow> sbfs \<Rightarrow>
   (Inode \<times> PathResolver \<times> sbfs) option" where
  "resolve_parts [] dirjunk now path_vec cache_vec cur_inode pr fs = Some (cur_inode, pr, fs)"
| "resolve_parts (i # js) dirjunk now path_vec cache_vec cur_inode pr fs =
     (case find_in dirjunk (path_vec ! i) now cur_inode fs of
        None \<Rightarrow> None
      | Some (r, next_inode, fs1) \<Rightarrow>
          if r = kFail then Some (Inode_invalid, pr, fs1)
          else (case cache_insert (cache_vec ! i) next_inode pr of
                  None \<Rightarrow> None
                | Some pr1 \<Rightarrow> resolve_parts js dirjunk now path_vec cache_vec next_inode pr1 fs1))"

text \<open>\<open>removeEndSlash(path).substr(1)\<close>\<close>

definition no_both_slash :: "cstring \<Rightarrow> cstring option" where
  "no_both_slash path = substr1 (removeEndSlash path)"

definition resolve ::
  "mem \<Rightarrow> u32 \<Rightarrow> cstring \<Rightarrow> PathResolver \<Rightarrow> sbfs \<Rightarrow> (Inode \<times> PathResolver \<times> sbfs) option" where
  "resolve dirjunk now path pr fs =
     (if path = [] \<or> hd path \<noteq> slash then Some (Inode_invalid, pr, fs)
      else if path = [slash] then Some (fs_root fs, pr, fs)
      else (case no_both_slash path of None \<Rightarrow> None
            | Some s \<Rightarrow>
                (let path_vec = split_path s slash False;
                     cache_vec = split_path s slash True;
                     (cur_inode, cur_path_index, c) =
                       lookup_cache [0..<length cache_vec] cache_vec (fs_root fs) 0 (path_cache pr)
                 in resolve_parts [cur_path_index..<length path_vec] dirjunk now path_vec cache_vec cur_inode
                      (pr\<lparr>path_cache := c\<rparr>) fs)))"

primrec walk :: "cstring list \<Rightarrow> mem \<Rightarrow> u32 \<Rightarrow> Inode \<Rightarrow> sbfs \<Rightarrow> (Inode \<times> sbfs) option" where
  "walk [] dirjunk now cur_inode fs = Some (cur_inode, fs)"
| "walk (p # ps) dirjunk now cur_inode fs =
     (case find_in dirjunk p now cur_inode fs of
        None \<Rightarrow> None
      | Some (r, next_inode, fs1) \<Rightarrow>
          if r = kFail then Some (Inode_invalid, fs1) else walk ps dirjunk now next_inode fs1)"

definition resolveNoCache :: "mem \<Rightarrow> u32 \<Rightarrow> cstring \<Rightarrow> sbfs \<Rightarrow> (Inode \<times> sbfs) option" where
  "resolveNoCache dirjunk now path fs =
     (if path = [] \<or> hd path \<noteq> slash then Some (Inode_invalid, fs)
      else if path = [slash] then Some (fs_root fs, fs)
      else (case no_both_slash path of None \<Rightarrow> None
            | Some s \<Rightarrow> walk (split_path s slash False) dirjunk now (fs_root fs) fs))"

section \<open>Invalidation\<close>

primrec erase_prefix :: "cstring \<Rightarrow> path_cache \<Rightarrow> path_cache" where
  "erase_prefix prefix [] = []"
| "erase_prefix prefix (e # c) =
     (if take (length prefix) (fst e) = prefix then erase_prefix prefix c else e # erase_prefix prefix c)"

definition removePrefix :: "cstring \<Rightarrow> PathResolver \<Rightarrow> PathResolver option" where
  "removePrefix prefix pr =
     (case no_both_slash prefix of None \<Rightarrow> None
      | Some start \<Rightarrow>
          (let c = path_cache pr;
               before = takeWhile (\<lambda>e. fst e < start) c;
               from_lower_bound = dropWhile (\<lambda>e. fst e < start) c
           in Some (pr\<lparr>path_cache := before @ erase_prefix start from_lower_bound\<rparr>)))"

section \<open>Splitting paths\<close>

primrec join :: "u8 \<Rightarrow> cstring list \<Rightarrow> cstring" where
  "join d [] = []"
| "join d (p # ps) = (if ps = [] then p else p @ d # join d ps)"

lemma find_char_Some:
  "find_char c s start = Some e \<Longrightarrow>
     start \<le> e \<and> e < length s \<and> s ! e = c \<and> c \<notin> set (take (e - start) (drop start s)) \<and>
     drop start s = take (e - start) (drop start s) @ c # drop (e + 1) s"
proof -
  assume "find_char c s start = Some e"
  then obtain i where i: "i < length s - start" "e = start + i" "s ! e = c" "\<forall>j < i. s ! (start + j) \<noteq> c"
    by (auto simp: find_char_def find_Some_iff)
  have "drop start s = take i (drop start s) @ c # drop (e + 1) s"
    using i id_take_nth_drop[of i "drop start s"] by (simp add: add.commute)
  moreover have "c \<notin> set (take i (drop start s))" using i by (auto simp: in_set_conv_nth)
  ultimately show ?thesis using i by auto
qed

lemma find_char_None: "find_char c s start = None \<Longrightarrow> c \<notin> set (drop start s)"
  by (auto simp: find_char_def find_None_iff in_set_conv_nth)

lemma split_loop_parts:
  "start \<le> length s \<Longrightarrow> rp = False \<Longrightarrow> join d (split_loop s d rp start) = drop start s \<and>
     split_loop s d rp start \<noteq> [] \<and> (\<forall>p \<in> set (split_loop s d rp start). d \<notin> set p)"
proof (induction s d rp start rule: split_loop.induct)
  case (1 s d rp start)
  show ?case
  proof (cases "find_char d s start")
    case None
    then show ?thesis using 1 find_char_None[OF None] by (subst (1 2 3) split_loop.simps) simp
  next
    case (Some e)
    note f = find_char_Some[OF Some]
    have IH: "join d (split_loop s d rp (e + 1)) = drop (e + 1) s \<and> split_loop s d rp (e + 1) \<noteq> [] \<and>
        (\<forall>p \<in> set (split_loop s d rp (e + 1)). d \<notin> set p)"
      using 1 Some f by simp
    have eq: "split_loop s d rp start = take (e - start) (drop start s) # split_loop s d rp (e + 1)"
      using Some 1 by (subst split_loop.simps) simp
    show ?thesis unfolding eq using IH f by auto
  qed
qed

lemma split_loop_prefixes:
  "start \<le> length s \<Longrightarrow> rp \<Longrightarrow> length (split_loop s d rp start) = length (split_loop s d False start) \<and>
     (\<forall>i < length (split_loop s d rp start). split_loop s d rp start ! i =
        take start s @ join d (take (Suc i) (split_loop s d False start)))"
proof (induction s d rp start rule: split_loop.induct)
  case (1 s d rp start)
  show ?case
  proof (cases "find_char d s start")
    case None
    have "split_loop s d rp start = [s]" "split_loop s d False start = [drop start s]"
      using None 1 by (subst split_loop.simps, simp)+
    then show ?thesis by simp
  next
    case (Some e)
    note f = find_char_Some[OF Some]
    have eq: "split_loop s d rp start = take e s # split_loop s d rp (e + 1)"
      "split_loop s d False start = take (e - start) (drop start s) # split_loop s d False (e + 1)"
      using Some 1 by (subst split_loop.simps, simp)+
    have te: "take e s = take start s @ take (e - start) (drop start s)"
      using f by (metis le_add_diff_inverse take_add)
    have te1: "take (e + 1) s = take e s @ [d]" using f by (simp add: take_Suc_conv_app_nth)
    have IH: "length (split_loop s d rp (e + 1)) = length (split_loop s d False (e + 1)) \<and>
        (\<forall>i < length (split_loop s d rp (e + 1)). split_loop s d rp (e + 1) ! i =
          take (e + 1) s @ join d (take (Suc i) (split_loop s d False (e + 1))))"
      using 1 Some f by simp
    have ne: "split_loop s d False (e + 1) \<noteq> []" using split_loop_parts[of "e + 1" s False d] f by simp
    show ?thesis
    proof (intro conjI allI impI)
      show "length (split_loop s d rp start) = length (split_loop s d False start)" using IH eq by simp
      fix i assume i: "i < length (split_loop s d rp start)"
      show "split_loop s d rp start ! i = take start s @ join d (take (Suc i) (split_loop s d False start))"
      proof (cases i)
        case 0
        then show ?thesis by (simp add: eq te)
      next
        case (Suc i')
        have "split_loop s d rp (e + 1) ! i' = take (e + 1) s @ join d (take (Suc i') (split_loop s d False (e + 1)))"
          using IH i Suc eq by simp
        then show ?thesis using Suc ne te te1 by (simp add: eq)
      qed
    qed
  qed
qed

text \<open>Splitting at a delimiter loses nothing: the parts, none of which contains the delimiter, joined
  by it are the string again; with \<open>reserve_prev\<close> the \<open>i\<close>-th part is the prefix of the string up to
  the end of its \<open>i\<close>-th part, so that the keys of the cache and the components of a path match.\<close>

theorem split_spec:
  "join d (split_path s d False) = s \<and> (\<forall>p \<in> set (split_path s d False). d \<notin> set p) \<and>
   length (split_path s d True) = length (split_path s d False) \<and>
   (\<forall>i < length (split_path s d False). split_path s d True ! i = join d (take (Suc i) (split_path s d False)))"
  using split_loop_parts[of 0 s False d] split_loop_prefixes[of 0 s True d] by (simp add: split_path_def)

theorem split_spec_witness:
  "join 0x2F (split_path [1, 0x2F, 2] 0x2F False) = [1, 0x2F, 2] \<and>
   split_path [1, 0x2F, 2] 0x2F True ! 0 = join 0x2F (take 1 (split_path [1, 0x2F, 2] 0x2F False))"
proof -
  have "split_path [1, 0x2F, 2] 0x2F False = [[1], [2]]"
    by (simp add: split_path_def split_loop.simps find_char_def upt_rec)
  then show ?thesis using split_spec[of "0x2F" "[1, 0x2F, 2]"] by simp
qed

section \<open>Invalidation removes a prefix\<close>

lemma le_append: "(xs :: u8 list) \<le> xs @ ys"
  by (induction xs) auto

lemma less_not_prefix: "(k :: cstring) < p \<Longrightarrow> take (length p) k \<noteq> p"
  by (metis append_take_drop_id le_append leD)

lemma erase_prefix_filter: "erase_prefix p c = filter (\<lambda>e. take (length p) (fst e) \<noteq> p) c"
  by (induction c) auto

lemma removePrefix_filter:
  "takeWhile (\<lambda>e. fst e < p) c @ erase_prefix p (dropWhile (\<lambda>e. fst e < p) c) =
     filter (\<lambda>e. take (length p) (fst e) \<noteq> p) c"
proof -
  have "filter (\<lambda>e. take (length p) (fst e) \<noteq> p) (takeWhile (\<lambda>e. fst e < p) c) = takeWhile (\<lambda>e. fst e < p) c"
    by (auto simp: filter_id_conv dest!: set_takeWhileD less_not_prefix)
  then show ?thesis
    by (metis erase_prefix_filter filter_append takeWhile_dropWhile_id)
qed

lemma removePrefix_eq:
  "removePrefix p pr = (if p = [] \<or> p = [slash] then None
     else Some (pr\<lparr>path_cache := filter (\<lambda>e. take (length (tl (removeEndSlash p))) (fst e) \<noteq> tl (removeEndSlash p))
        (path_cache pr)\<rparr>))"
proof -
  have len: "length (removeEndSlash p) + 1 \<ge> length p" "length p \<ge> length (removeEndSlash p)"
    by (auto simp: removeEndSlash_def)
  have "removeEndSlash p = [] \<longleftrightarrow> p = [] \<or> p = [slash]"
  proof
    assume e: "removeEndSlash p = []"
    then show "p = [] \<or> p = [slash]"
      by (cases p) (auto simp: removeEndSlash_def rfind_char_def find_Some_iff split: if_splits)
  next
    assume "p = [] \<or> p = [slash]"
    then show "removeEndSlash p = []" by (auto simp: removeEndSlash_def rfind_char_def)
  qed
  then show ?thesis
    by (auto simp: removePrefix_def no_both_slash_def substr1_def Let_def removePrefix_filter drop_Suc)
qed

text \<open>Starting at the lower bound is an optimisation only: \<open>removePrefix\<close> takes out exactly the
  entries whose key starts with the path without its slashes, whatever the cache holds. It ends in
  an exception exactly for the paths without anything between them.\<close>

theorem removePrefix_spec:
  "removePrefix p pr = (if p = [] \<or> p = [slash] then None
     else Some (pr\<lparr>path_cache := filter (\<lambda>e. take (length (tl (removeEndSlash p))) (fst e) \<noteq> tl (removeEndSlash p))
        (path_cache pr)\<rparr>))"
  by (rule removePrefix_eq)

section \<open>Eviction\<close>

text \<open>The keys of a \<open>std::map\<close> are in order, and an iterator points to an entry or is \<open>end()\<close>.\<close>

definition cache_sorted :: "path_cache \<Rightarrow> bool" where
  "cache_sorted c \<longleftrightarrow> sorted_wrt (<) (map fst c)"

definition iter_ok :: "path_cache \<Rightarrow> cstring option \<Rightarrow> bool" where
  "iter_ok c it \<longleftrightarrow> (case it of None \<Rightarrow> True | Some k \<Rightarrow> k \<in> fst ` set c)"

definition pr_ok :: "PathResolver \<Rightarrow> bool" where
  "pr_ok pr \<longleftrightarrow> cache_sorted (path_cache pr) \<and> iter_ok (path_cache pr) (clock_iter pr)"

lemma map_fst_set_visited [simp]: "map fst (set_visited k b c) = map fst c"
  by (auto simp: set_visited_def)

lemma keys_set_visited [simp]: "fst ` set (set_visited k b c) = fst ` set c"
  by (metis list.set_map map_fst_set_visited)

lemma cache_sorted_distinct: "cache_sorted c \<Longrightarrow> distinct (map fst c)"
  by (auto simp: cache_sorted_def strict_sorted_iff)

lemma iter_succ_key:
  assumes "iter_succ k c = Some k'"
  shows "k' \<in> fst ` set c"
proof -
  obtain a b r where r: "dropWhile (\<lambda>e. fst e \<noteq> k) c = a # b # r" "k' = fst b"
    using assms by (auto simp: iter_succ_def split: list.splits)
  then have "b \<in> set (dropWhile (\<lambda>e. fst e \<noteq> k) c)" by simp
  then have "b \<in> set c" by (rule set_dropWhileD)
  then show ?thesis using r by simp
qed

lemma iter_next_key: "c \<noteq> [] \<Longrightarrow> iter_next k c \<in> fst ` set c"
  by (auto simp: iter_next_def iter_succ_key split: option.splits)

lemma iter_succ_erase:
  assumes "cache_sorted c" "iter_succ k c = Some k'"
  shows "k' \<in> fst ` set (cache_erase k c)"
proof -
  obtain a b r where r: "dropWhile (\<lambda>e. fst e \<noteq> k) c = a # b # r" "k' = fst b"
    using assms(2) by (auto simp: iter_succ_def split: list.splits)
  then have c: "c = takeWhile (\<lambda>e. fst e \<noteq> k) c @ a # b # r" by (metis takeWhile_dropWhile_id)
  have "fst a = k" using hd_dropWhile[of "\<lambda>e. fst e \<noteq> k" c] r by simp
  moreover have "distinct (map fst (takeWhile (\<lambda>e. fst e \<noteq> k) c @ a # b # r))"
    using cache_sorted_distinct[OF assms(1)] c by metis
  ultimately have "fst b \<noteq> k" by auto
  moreover have "b \<in> set c" by (subst c) simp
  ultimately show ?thesis using r by (auto simp: cache_erase_def)
qed

lemma clock_spin_total:
  "k \<in> fst ` set c \<Longrightarrow> \<exists>c' k'. clock_spin c k = Some (c', k')"
proof (induction c k rule: clock_spin.induct)
  case (1 c k)
  then obtain v where v: "map_of c k = Some v" by (metis map_of_eq_None_iff not_None_eq)
  have "set_visited k False c \<noteq> []" using 1(2) by (auto simp: set_visited_def)
  then show ?case
    using v 1(1)[OF v] iter_next_key[of "set_visited k False c" k] by (subst clock_spin.simps) auto
qed

lemma cache_sorted_erase: "cache_sorted c \<Longrightarrow> cache_sorted (cache_erase k c)"
  by (auto simp: cache_sorted_def cache_erase_def sorted_wrt_map intro: sorted_wrt_filter)

lemma evict_loop_total:
  "cache_sorted c \<Longrightarrow> iter_ok c it \<Longrightarrow> \<exists>n' c' it'. evict_loop sz n c it = Some (n', c', it') \<and>
     (sz \<le> n' \<or> c' = []) \<and> cache_sorted c' \<and> iter_ok c' it' \<and> fst ` set c' \<subseteq> fst ` set c"
proof (induction sz n c it rule: evict_loop.induct)
  case (1 sz n c it)
  show ?case
  proof (cases "n < sz \<and> c \<noteq> []")
    case True
    define k0 where "k0 = (case it of None \<Rightarrow> fst (hd c) | Some k \<Rightarrow> k)"
    have "k0 \<in> fst ` set c" using True 1(3) by (auto simp: k0_def iter_ok_def split: option.splits)
    then obtain c1 k where s: "clock_spin c k0 = Some (c1, k)" using clock_spin_total by blast
    note ks = clock_spin_keys[OF s]
    have sc: "cache_sorted c1" using ks 1(2) by (simp add: cache_sorted_def)
    have e1: "cache_sorted (cache_erase k c1)" by (rule cache_sorted_erase[OF sc])
    have e2: "iter_ok (cache_erase k c1) (iter_succ k c1)"
      using iter_succ_erase[OF sc] by (auto simp: iter_ok_def split: option.splits)
    have "fst ` set (cache_erase k c1) \<subseteq> fst ` set c1" by (auto simp: cache_erase_def)
    also have "fst ` set c1 = fst ` set c" using ks by (metis list.set_map)
    finally have sub: "fst ` set (cache_erase k c1) \<subseteq> fst ` set c" .
    have eq: "evict_loop sz n c it = evict_loop sz (n + entry_size k) (cache_erase k c1) (iter_succ k c1)"
      using True s[unfolded k0_def] by (subst evict_loop.simps) simp
    obtain n' c' it' where "evict_loop sz (n + entry_size k) (cache_erase k c1) (iter_succ k c1) = Some (n', c', it')"
      "sz \<le> n' \<or> c' = []" "cache_sorted c'" "iter_ok c' it'" "fst ` set c' \<subseteq> fst ` set (cache_erase k c1)"
      using 1(1)[OF True s[unfolded k0_def] refl e1 e2] by (elim exE conjE)
    then show ?thesis unfolding eq using sub by (intro exI[of _ n'] exI[of _ c'] exI[of _ it']) auto
  next
    case False
    then show ?thesis using 1(2,3) by (subst evict_loop.simps) auto
  qed
qed

text \<open>C38: \<open>evict\<close> returns on every cache whose clock hand is valid: both of its loops end and no invalid
  iterator is used. It stops when it has evicted the size asked for or the cache is empty, keeps the
  order of the cache and leaves the hand valid.\<close>

theorem evict_returns:
  assumes "pr_ok pr"
  shows "\<exists>pr'. evict sz pr = Some pr' \<and> pr_ok pr' \<and> (sz \<le> cur_cache_size pr' \<or> path_cache pr' = []) \<and>
     fst ` set (path_cache pr') \<subseteq> fst ` set (path_cache pr)"
  using evict_loop_total[of "path_cache pr" "clock_iter pr" sz 0] assms
  by (auto simp: pr_ok_def evict_def)

lemma visited_entries_ok: "pr_ok (PathResolver_new m)"
  by (simp add: pr_ok_def PathResolver_new_def cache_sorted_def iter_ok_def)

theorem evict_returns_witness:
  "\<exists>pr'. evict 100 ((PathResolver_new 0)\<lparr>path_cache := [([1], \<lparr>pcv_inode = Inode_invalid, visited = True\<rparr>),
      ([2], \<lparr>pcv_inode = Inode_invalid, visited = True\<rparr>)]\<rparr>) = Some pr'"
  using evict_returns[of "(PathResolver_new 0)\<lparr>path_cache := [([1], \<lparr>pcv_inode = Inode_invalid, visited = True\<rparr>),
      ([2], \<lparr>pcv_inode = Inode_invalid, visited = True\<rparr>)]\<rparr>" 100]
  by (auto simp: pr_ok_def PathResolver_new_def cache_sorted_def iter_ok_def)

section \<open>What the cache can hold\<close>

text \<open>The invariant of the path cache of the running system, for paths of less than 8 MB: \<open>cur_cache_size_\<close>
  is at most the size of one entry, so \<open>cur_cache_size_ + cur_size_increase - max_cache_size_\<close> wraps around,
  and everything is evicted before an entry is added.\<close>

definition pr_inv :: "PathResolver \<Rightarrow> bool" where
  "pr_inv pr \<longleftrightarrow> max_cache_size pr = of_nat kPathCacheSize \<and> clock_iter pr = None \<and>
     length (path_cache pr) \<le> 1 \<and> unat (cur_cache_size pr) < 2 ^ 24 \<and>
     (\<forall>k \<in> fst ` set (path_cache pr). length k < 2 ^ 23)"

lemma unat_entry_size: "length k < 2 ^ 23 \<Longrightarrow> unat (entry_size k) = length k + 56"
  by (simp add: entry_size_def unat_word_ariths unat_of_nat)

lemma evict_loop_empties:
  assumes "length c \<le> 1" "2 ^ 24 \<le> unat sz" "\<forall>k \<in> fst ` set c. length k < 2 ^ 23"
  obtains n' where "evict_loop sz 0 c None = Some (n', [], None)" "unat n' < 2 ^ 24"
proof (cases c)
  case Nil
  then have "evict_loop sz 0 c None = Some (0, [], None)" by (subst evict_loop.simps) simp
  then show ?thesis using that by simp
next
  case (Cons e c')
  then have c: "c = [e]" using assms(1) by simp
  obtain c1 where s: "clock_spin c (fst e) = Some (c1, fst e)" "map fst c1 = [fst e]"
    using clock_spin_total[of "fst e" c] clock_spin_keys[of c "fst e"] c by fastforce
  then obtain v where c1: "c1 = [(fst e, v)]" by auto
  have z: "0 < sz" using assms(2) by (auto simp: word_less_nat_alt)
  have "evict_loop sz 0 c None = evict_loop sz (entry_size (fst e)) [] None"
    using s c c1 z by (subst evict_loop.simps) (simp add: cache_erase_def iter_succ_def)
  also have "\<dots> = Some (entry_size (fst e), [], None)" by (subst evict_loop.simps) simp
  finally show ?thesis using that unat_entry_size[of "fst e"] assms(3) c by simp
qed

lemma cache_insert_one:
  assumes inv: "pr_inv pr" and k: "length key < 2 ^ 23"
  obtains pr' where "cache_insert key inode pr = Some pr'" "pr_inv pr'"
    "path_cache pr' = [(key, \<lparr>pcv_inode = inode, visited = True\<rparr>)]"
proof -
  define sz where "sz = cur_cache_size pr + entry_size key - max_cache_size pr"
  have sum: "unat (cur_cache_size pr + entry_size key) < 2 ^ 25"
    using inv k unat_entry_size[OF k] by (simp add: pr_inv_def unat_word_ariths)
  have max: "unat (max_cache_size pr) = 2 ^ 25" using inv by (simp add: pr_inv_def const_defs)
  have big: "2 ^ 24 \<le> unat sz" unfolding sz_def unat_sub_if' using sum max by simp
  obtain n' where ev: "evict_loop sz 0 (path_cache pr) None = Some (n', [], None)" "unat n' < 2 ^ 24"
    using evict_loop_empties[OF _ big] inv by (auto simp: pr_inv_def)
  define pr' where "pr' = pr\<lparr>path_cache := [(key, \<lparr>pcv_inode = inode, visited = True\<rparr>)], clock_iter := None,
    cur_cache_size := n'\<rparr>"
  have "0 < sz" using big by (auto simp: word_less_nat_alt)
  moreover have "evict sz pr = Some (pr\<lparr>path_cache := [], clock_iter := None, cur_cache_size := n'\<rparr>)"
    using ev inv by (simp add: evict_def pr_inv_def)
  ultimately have "cache_insert key inode pr = Some pr'"
    unfolding cache_insert_def Let_def sz_def[symmetric] by (simp add: pr'_def)
  moreover have "pr_inv pr'" using ev inv k by (simp add: pr_inv_def pr'_def)
  ultimately show ?thesis using that by (simp add: pr'_def)
qed

lemma lookup_cache_keys:
  "lookup_cache is cv i n c = (i', n', c') \<Longrightarrow> map fst c' = map fst c"
  by (induction "is" arbitrary: i n c) (auto split: option.splits)

lemma resolve_parts_inv:
  assumes "pr_inv pr" "\<forall>k \<in> set cv. length k < 2 ^ 23" "set js \<subseteq> {..<length cv}"
    and "resolve_parts js dirjunk now pv cv inode pr fs = Some (inode', pr', fs')"
  shows "pr_inv pr'"
  using assms
proof (induction js arbitrary: inode pr fs)
  case (Cons j js)
  have k: "length (cv ! j) < 2 ^ 23" using Cons.prems(2,3) by auto
  obtain r inode1 fs1 where f: "find_in dirjunk (pv ! j) now inode fs = Some (r, inode1, fs1)"
    using Cons.prems(4) by (cases "find_in dirjunk (pv ! j) now inode fs") auto
  obtain pr1 where ci: "cache_insert (cv ! j) inode1 pr = Some pr1" "pr_inv pr1"
    by (rule cache_insert_one[OF Cons.prems(1) k])
  show ?case
  proof (cases "r = kFail")
    case True
    then show ?thesis using Cons.prems f by simp
  next
    case False
    then show ?thesis using Cons.IH[OF ci(2) Cons.prems(2)] Cons.prems(3,4) f ci(1) by simp
  qed
qed simp

lemma split_prefix_short: "k \<in> set (split_path s d True) \<Longrightarrow> length k \<le> length s"
proof -
  have "rp \<Longrightarrow> k \<in> set (split_loop s d rp start) \<Longrightarrow> length k \<le> length s" for rp start
    by (induction s d rp start rule: split_loop.induct, subst (asm) split_loop.simps) (auto split: option.splits)
  then show "k \<in> set (split_path s d True) \<Longrightarrow> length k \<le> length s" by (simp add: split_path_def)
qed

lemma resolve_inv:
  assumes inv: "pr_inv pr" and l: "length path < 2 ^ 23"
    and r: "resolve dirjunk now path pr fs = Some (inode, pr', fs')"
  shows "pr_inv pr'"
proof (cases "path = [] \<or> hd path \<noteq> slash \<or> path = [slash]")
  case True
  then show ?thesis using inv r by (auto simp: resolve_def split: if_splits)
next
  case False
  obtain s where s: "no_both_slash path = Some s" using r False by (auto simp: resolve_def split: option.splits)
  define cv where "cv = split_path s slash True"
  obtain i n c where lc: "lookup_cache [0..<length cv] cv (fs_root fs) 0 (path_cache pr) = (i, n, c)"
    by (metis prod_cases3)
  have keys: "map fst c = map fst (path_cache pr)" by (rule lookup_cache_keys[OF lc])
  have "length c = length (path_cache pr)" by (metis keys length_map)
  moreover have "fst ` set c = fst ` set (path_cache pr)" by (metis keys list.set_map)
  ultimately have inv1: "pr_inv (pr\<lparr>path_cache := c\<rparr>)"
    using inv by (simp add: pr_inv_def)
  have ls: "length s < 2 ^ 23"
    using s l by (auto simp: no_both_slash_def substr1_def removeEndSlash_def split: if_splits)
  have sv: "length (split_path s slash False) = length cv" using split_loop_prefixes[of 0 s True slash]
    by (simp add: split_path_def cv_def)
  show ?thesis
  proof (rule resolve_parts_inv[OF inv1])
    show "\<forall>k \<in> set cv. length k < 2 ^ 23" using split_prefix_short ls by (fastforce simp: cv_def)
    show "set [n..<length (split_path s slash False)] \<subseteq> {..<length cv}" using sv by auto
    show "resolve_parts [n..<length (split_path s slash False)] dirjunk now (split_path s slash False) cv i
        (pr\<lparr>path_cache := c\<rparr>) fs = Some (inode, pr', fs')"
      using r False s lc by (simp add: resolve_def cv_def Let_def)
  qed
qed

lemma removePrefix_inv: "pr_inv pr \<Longrightarrow> removePrefix p pr = Some pr' \<Longrightarrow> pr_inv pr'"
  by (auto simp: pr_inv_def removePrefix_def Let_def removePrefix_filter split: option.splits
      intro: order_trans[OF length_filter_le])

text \<open>The states of the resolver that the handlers can reach, with the size of the cache that
  \<open>init_vfs\<close> passes and paths of less than 8 MB.\<close>

inductive pr_reach :: "PathResolver \<Rightarrow> bool" where
  pr_start: "pr_reach (PathResolver_new (of_nat kPathCacheSize))"
| pr_resolved: "pr_reach pr \<Longrightarrow> length path < 2 ^ 23 \<Longrightarrow>
    resolve dirjunk now path pr fs = Some (inode, pr', fs') \<Longrightarrow> pr_reach pr'"
| pr_removed: "pr_reach pr \<Longrightarrow> removePrefix p pr = Some pr' \<Longrightarrow> pr_reach pr'"

lemma pr_reach_inv: "pr_reach pr \<Longrightarrow> pr_inv pr"
proof (induction rule: pr_reach.induct)
  case pr_start
  then show ?case by (simp add: pr_inv_def PathResolver_new_def)
qed (auto intro: resolve_inv removePrefix_inv)

text \<open>In every reachable state the path cache holds at most one entry, although it has room for 32
  MB of them, and the hand of its clock is \<open>end()\<close>, so that \<open>removePrefix\<close> never leaves it dangling.\<close>

theorem path_cache_holds_one:
  assumes "pr_reach pr"
  shows "length (path_cache pr) \<le> 1 \<and> clock_iter pr = None"
  using pr_reach_inv[OF assms] by (simp add: pr_inv_def)

theorem path_cache_holds_one_witness:
  "length (path_cache (PathResolver_new (of_nat kPathCacheSize))) \<le> 1"
  using path_cache_holds_one[OF pr_start] by simp

end
