(* ===== verification/Path_Lookup.thy ===== *)
theory Path_Lookup
  imports Path_Resolver Read_Only
begin

text \<open>
  The path cache does not change what a path resolves to: with a cache whose entries agree with the
  directories, \<open>resolve\<close> returns what \<open>resolveNoCache\<close> returns, and the cache still agrees
  afterwards.
\<close>

section \<open>Joining and splitting\<close>

lemma join_eq_single:
  assumes "join d qs = p" "d \<notin> set p" "qs \<noteq> []"
  shows "qs = [p]"
  using assms by (cases qs) (auto split: if_splits)

lemma join_inj:
  assumes "join d ps = join d qs" "ps \<noteq> []" "qs \<noteq> []" "\<forall>p \<in> set ps. d \<notin> set p" "\<forall>p \<in> set qs. d \<notin> set p"
  shows "ps = qs"
  using assms
proof (induction ps arbitrary: qs)
  case (Cons p ps)
  obtain q qs' where q: "qs = q # qs'" using Cons.prems(3) by (cases qs) auto
  show ?case
  proof (cases "ps = [] \<or> qs' = []")
    case True
    then show ?thesis
    proof
      assume e: "ps = []"
      have "join d qs = p" using Cons.prems(1)[symmetric] e by simp
      then have "qs = [p]" by (rule join_eq_single) (use Cons.prems(3,4) in auto)
      then show ?thesis using e by simp
    next
      assume e: "qs' = []"
      have "join d (p # ps) = q" using Cons.prems(1) q e by (simp del: join.simps(2)) simp
      then have "p # ps = [q]" by (rule join_eq_single) (use Cons.prems(5) q in auto)
      then show ?thesis using e q by simp
    qed
  next
    case False
    have eq: "p @ d # join d ps = q @ d # join d qs'" using Cons.prems(1) q False by simp
    have "takeWhile (\<lambda>x. x \<noteq> d) (p @ d # join d ps) = p" "takeWhile (\<lambda>x. x \<noteq> d) (q @ d # join d qs') = q"
      using Cons.prems(4,5) q by (auto intro: takeWhile_tail[THEN trans] simp: takeWhile_append2)
    then have "p = q" using eq by simp
    then have "join d ps = join d qs'" using eq by simp
    then show ?thesis using Cons.IH[of qs'] Cons.prems(4,5) False q \<open>p = q\<close> by simp
  qed
qed simp

lemmas split_facts = split_loop_parts[of 0 _ False, simplified, folded split_path_def]

lemma split_prefix:
  assumes "i < length (split_path s d False)"
  shows "split_path (split_path s d True ! i) d False = take (Suc i) (split_path s d False)"
proof (rule join_inj)
  have "split_path s d True ! i = join d (take (Suc i) (split_path s d False))"
    using split_loop_prefixes[of 0 s True d] assms by (simp add: split_path_def)
  then show "join d (split_path (split_path s d True ! i) d False) = join d (take (Suc i) (split_path s d False))"
    using split_facts by metis
  show "take (Suc i) (split_path s d False) \<noteq> []" using split_facts by auto
  show "\<forall>p \<in> set (take (Suc i) (split_path s d False)). d \<notin> set p" using split_facts by (meson in_set_takeD)
qed (use split_facts in auto)

section \<open>File systems that present the same blocks\<close>

definition fs_twin :: "sbfs \<Rightarrow> sbfs \<Rightarrow> bool" where
  "fs_twin fs g \<longleftrightarrow> g = fs\<lparr>device := device g\<rparr> \<and> twin (device fs) (device g)"

lemma fs_twin_refl: "dev_ok (device fs) \<Longrightarrow> fs_twin fs fs"
  by (simp add: fs_twin_def twin_refl)

lemma fs_twin_sym: "fs_twin fs g \<Longrightarrow> fs_twin g fs"
  unfolding fs_twin_def by (metis sbfs.surjective sbfs.update_convs(2) twin_sym)

lemma fs_twin_trans: "fs_twin fs g \<Longrightarrow> fs_twin g h \<Longrightarrow> fs_twin fs h"
  unfolding fs_twin_def by (metis sbfs.surjective sbfs.update_convs(2) twin_trans)

lemma fs_twin_root [simp]: "fs_twin fs g \<Longrightarrow> fs_root g = fs_root fs"
  by (metis fs_root_def fs_twin_def sbfs.select_convs(1) sbfs.surjective sbfs.update_convs(2))

lemma find_in_twin:
  assumes "fs_twin fs g" "ino_fs inode"
  obtains r i fs1 g1 where "find_in dirjunk name now inode fs = Some (r, i, fs1)"
    "find_in dirjunk name now inode g = Some (r, i, g1)" "fs_twin fs fs1" "fs_twin fs1 g1"
    "r = kFail \<or> ino_fs i"
proof -
  obtain r i d' e' where f: "inode_find dirjunk name Inode_invalid now (ino_pos inode) fs = (r, i, fs\<lparr>device := d'\<rparr>)"
    "inode_find dirjunk name Inode_invalid now (ino_pos inode) (fs\<lparr>device := device g\<rparr>) = (r, i, fs\<lparr>device := e'\<rparr>)"
    "twin (device fs) d'" "twin (device g) e'"
    using inode_find_twin[of fs "device g" dirjunk name Inode_invalid now "ino_pos inode"] assms(1)
    by (auto simp: fs_twin_def)
  have g: "g = fs\<lparr>device := device g\<rparr>" "twin (device fs) (device g)" using assms(1) by (auto simp: fs_twin_def)
  have "r = kFail \<or> ino_fs i" using f(1) by (auto simp: inode_find_def Let_def split: prod.splits if_splits scan.splits)
  moreover have "fs_twin fs (fs\<lparr>device := d'\<rparr>)" "fs_twin (fs\<lparr>device := d'\<rparr>) (fs\<lparr>device := e'\<rparr>)"
    using f(3,4) g(2) by (auto simp: fs_twin_def twin_def)
  moreover have "find_in dirjunk name now inode g = Some (r, i, fs\<lparr>device := e'\<rparr>)"
    by (subst g(1)) (simp add: find_in_def assms(2) f(2))
  ultimately show ?thesis using that f(1) assms(2) by (simp add: find_in_def)
qed

lemma walk_twin:
  assumes "fs_twin fs g" "ino_fs inode"
  obtains i fs1 g1 where "walk ps dirjunk now inode fs = Some (i, fs1)" "walk ps dirjunk now inode g = Some (i, g1)"
    "fs_twin fs fs1" "fs_twin fs1 g1"
  using assms
proof (induction ps arbitrary: inode fs g thesis)
  case Nil
  have "fs_twin fs fs" using Nil(2) fs_twin_sym fs_twin_trans by blast
  then show ?case using Nil by simp
next
  case (Cons p ps)
  obtain r i fs1 g1 where f: "find_in dirjunk p now inode fs = Some (r, i, fs1)"
    "find_in dirjunk p now inode g = Some (r, i, g1)" "fs_twin fs fs1" "fs_twin fs1 g1" "r = kFail \<or> ino_fs i"
    by (rule find_in_twin[OF Cons.prems(2,3)])
  show ?case
  proof (cases "r = kFail")
    case True
    then show ?thesis using Cons.prems(1) f by simp
  next
    case False
    then have "ino_fs i" using f(5) by simp
    then obtain j fs2 g2 where w: "walk ps dirjunk now i fs1 = Some (j, fs2)" "walk ps dirjunk now i g1 = Some (j, g2)"
      "fs_twin fs1 fs2" "fs_twin fs2 g2" using Cons.IH[OF _ f(4)] by blast
    have "fs_twin fs fs2" by (rule fs_twin_trans[OF f(3) w(3)])
    then show ?thesis using Cons.prems(1)[OF _ _ _ w(4)] f(1,2) w(1,2) False by simp
  qed
qed

lemma walk_append:
  assumes "walk ps dirjunk now inode fs = Some (i, fs1)" "ino_fs i"
  shows "walk (ps @ qs) dirjunk now inode fs = walk qs dirjunk now i fs1"
  using assms
  by (induction ps arbitrary: inode fs) (auto simp: Inode_invalid_def split: option.splits prod.splits if_splits)

section \<open>Agreement of the cache\<close>

definition inodes_of :: "path_cache \<Rightarrow> (cstring \<times> Inode) set" where
  "inodes_of c = (\<lambda>e. (fst e, pcv_inode (snd e))) ` set c"

definition coherent :: "mem \<Rightarrow> u32 \<Rightarrow> path_cache \<Rightarrow> sbfs \<Rightarrow> bool" where
  "coherent dirjunk now c fs \<longleftrightarrow> (\<forall>(k, i) \<in> inodes_of c. ino_fs i \<and>
     (\<exists>fs1. walk (split_path k slash False) dirjunk now (fs_root fs) fs = Some (i, fs1)))"

lemma inodes_of_set_visited [simp]: "inodes_of (set_visited k b c) = inodes_of c"
  by (force simp: inodes_of_def set_visited_def image_iff)

lemma inodes_of_spin: "clock_spin c k = Some (c', k') \<Longrightarrow> inodes_of c' = inodes_of c"
  by (induction c k rule: clock_spin.induct, subst (asm) clock_spin.simps) (auto split: option.splits if_splits)

lemma inodes_of_evict: "evict_loop sz n c it = Some (n', c', it') \<Longrightarrow> inodes_of c' \<subseteq> inodes_of c"
proof (induction sz n c it rule: evict_loop.induct)
  case (1 sz n c it)
  define k0 where "k0 = (case it of None \<Rightarrow> fst (hd c) | Some k \<Rightarrow> k)"
  have er: "inodes_of (cache_erase k c1) \<subseteq> inodes_of c1" for k c1 by (auto simp: inodes_of_def cache_erase_def)
  show ?case
  proof (cases "n < sz \<and> c \<noteq> []")
    case True
    then obtain c1 k where s: "clock_spin c k0 = Some (c1, k)"
      using 1(2) by (subst (asm) evict_loop.simps) (auto simp: k0_def split: option.splits)
    have "evict_loop sz n c it = evict_loop sz (n + entry_size k) (cache_erase k c1) (iter_succ k c1)"
      using True s by (subst evict_loop.simps) (simp add: k0_def)
    then have "evict_loop sz (n + entry_size k) (cache_erase k c1) (iter_succ k c1) = Some (n', c', it')"
      using 1(2) by simp
    then have "inodes_of c' \<subseteq> inodes_of (cache_erase k c1)" using 1(1)[OF True s[unfolded k0_def] refl] by simp
    then show ?thesis using er[of k c1] inodes_of_spin[OF s] by simp
  next
    case False
    then show ?thesis using 1(2) by (subst (asm) evict_loop.simps) (simp split: if_splits)
  qed
qed

lemma inodes_of_put: "inodes_of (cache_put k v c) \<subseteq> insert (k, pcv_inode v) (inodes_of c)"
  by (induction c) (auto simp: inodes_of_def)

lemma keys_put: "fst ` set (cache_put k v c) = insert k (fst ` set c)"
  by (induction c) auto

lemma sorted_put: "cache_sorted c \<Longrightarrow> cache_sorted (cache_put k v c)"
proof (induction c)
  case (Cons e c)
  have e: "\<forall>x \<in> fst ` set c. fst e < x" "cache_sorted c" using Cons.prems by (auto simp: cache_sorted_def)
  have step: "cache_sorted (x # c') \<longleftrightarrow> (\<forall>y \<in> fst ` set c'. fst x < y) \<and> cache_sorted c'" for x c'
    by (auto simp: cache_sorted_def)
  consider "k = fst e" | "k < fst e" | "fst e < k" using linorder_less_linear by blast
  then show ?case
  proof cases
    case 1
    then show ?thesis using e by (simp add: step)
  next
    case 2
    then have "\<forall>y \<in> fst ` set c. k < y" using e(1) less_trans by blast
    then show ?thesis using e 2 by (simp add: step)
  next
    case 3
    then have "cache_put k v (e # c) = e # cache_put k v c" by auto
    then show ?thesis using Cons.IH[OF e(2)] e(1) 3 by (simp add: step keys_put)
  qed
qed (simp add: cache_sorted_def)

lemma map_of_inodes: "map_of c k = Some v \<Longrightarrow> (k, pcv_inode v) \<in> inodes_of c"
  by (force simp: inodes_of_def dest: map_of_SomeD)

lemma cache_insert_ok:
  assumes "pr_ok pr"
  obtains pr' where "cache_insert key inode pr = Some pr'" "pr_ok pr'"
    "inodes_of (path_cache pr') \<subseteq> insert (key, inode) (inodes_of (path_cache pr))"
proof -
  define sz where "sz = cur_cache_size pr + entry_size key - max_cache_size pr"
  obtain n c it where ev: "evict_loop sz 0 (path_cache pr) (clock_iter pr) = Some (n, c, it)" "cache_sorted c" "iter_ok c it"
    using evict_loop_total[of "path_cache pr" "clock_iter pr" sz 0] assms by (auto simp: pr_ok_def)
  obtain pr1 where p1: "(if sz > 0 then evict sz pr else Some pr) = Some pr1" "pr_ok pr1"
    "inodes_of (path_cache pr1) \<subseteq> inodes_of (path_cache pr)"
  proof (cases "sz > 0")
    case True
    then show ?thesis
      using that[of "pr\<lparr>path_cache := c, clock_iter := it, cur_cache_size := n\<rparr>"] ev inodes_of_evict[OF ev(1)]
      by (simp add: evict_def pr_ok_def)
  next
    case False
    then show ?thesis using that assms by simp
  qed
  define pr' where "pr' = pr1\<lparr>path_cache := cache_put key \<lparr>pcv_inode = inode, visited = True\<rparr> (path_cache pr1)\<rparr>"
  have "cache_insert key inode pr = Some pr'"
    unfolding cache_insert_def Let_def sz_def[symmetric] using p1(1) by (simp add: pr'_def)
  moreover have "pr_ok pr'"
    using p1(2) by (auto simp: pr_ok_def pr'_def sorted_put iter_ok_def keys_put split: option.splits)
  moreover have "inodes_of (path_cache pr') \<subseteq> insert (key, inode) (inodes_of (path_cache pr))"
    using p1(3) inodes_of_put[of key "\<lparr>pcv_inode = inode, visited = True\<rparr>" "path_cache pr1"] by (auto simp: pr'_def)
  ultimately show ?thesis by (rule that)
qed

lemma coherent_twin:
  assumes "coherent dirjunk now c fs" "fs_twin fs g"
  shows "coherent dirjunk now c g"
proof -
  have root: "ino_fs (fs_root fs)" by (simp add: fs_root_def)
  have "\<exists>g1. walk ps dirjunk now (fs_root g) g = Some (i, g1)"
    if "walk ps dirjunk now (fs_root fs) fs = Some (i, fs1)" for ps i fs1
    using walk_twin[OF assms(2) root, of ps dirjunk now] that fs_twin_root[OF assms(2)] by (metis option.inject prod.inject)
  then show ?thesis using assms(1) unfolding coherent_def by fastforce
qed

lemma lookup_cache_ok:
  assumes coh: "coherent dirjunk now c fs" and pv: "pv = split_path s slash False" "cv = split_path s slash True"
    and js: "\<forall>j \<in> set js. j < length pv"
    and start: "walk (take n pv) dirjunk now (fs_root fs) fs = Some (i, fs1)" "ino_fs i" "n \<le> length pv"
    and res: "lookup_cache js cv i n c = (i', n', c')"
  shows "(\<exists>fs2. walk (take n' pv) dirjunk now (fs_root fs) fs = Some (i', fs2)) \<and> ino_fs i' \<and> n' \<le> length pv \<and>
     inodes_of c' = inodes_of c \<and> map fst c' = map fst c"
  using assms
proof (induction js arbitrary: i n c fs1)
  case (Cons j js)
  show ?case
  proof (cases "map_of c (cv ! j)")
    case None
    then show ?thesis using Cons.IH[OF Cons.prems(1-3) _ Cons.prems(5-7)] Cons.prems(4,8) by simp
  next
    case (Some v)
    have j: "j < length pv" using Cons.prems(4) by simp
    have sp: "split_path (cv ! j) slash False = take (Suc j) pv" using split_prefix[of j s slash] j pv by simp
    obtain fs2 where w: "walk (take (Suc j) pv) dirjunk now (fs_root fs) fs = Some (pcv_inode v, fs2)" "ino_fs (pcv_inode v)"
      using Cons.prems(1) map_of_inodes[OF Some] sp unfolding coherent_def by fastforce
    have coh': "coherent dirjunk now (set_visited (cv ! j) True c) fs"
      using Cons.prems(1) by (simp add: coherent_def)
    show ?thesis
      using Cons.IH[OF coh' Cons.prems(2,3) _ w] j Cons.prems(4,8) Some by simp
  qed
qed auto

lemma resolve_parts_ok:
  assumes "pv = split_path s slash False" "cv = split_path s slash True" "n \<le> length pv"
    and "walk (take n pv) dirjunk now (fs_root fs) fs = Some (i, fs1)" "ino_fs i"
    and "fs_twin fs g" "pr_ok pr" "coherent dirjunk now (path_cache pr) fs"
  shows "\<exists>j pr' g' fs'. resolve_parts [n..<length pv] dirjunk now pv cv i pr g = Some (j, pr', g') \<and>
     walk pv dirjunk now (fs_root fs) fs = Some (j, fs') \<and> fs_twin fs g' \<and> pr_ok pr' \<and>
     coherent dirjunk now (path_cache pr') fs \<and>
     fst ` inodes_of (path_cache pr') \<subseteq> fst ` inodes_of (path_cache pr) \<union> set cv"
  using assms
proof (induction "length pv - n" arbitrary: n i g pr fs1)
  case 0
  then show ?case by simp
next
  case (Suc m)
  have n: "n < length pv" "[n..<length pv] = n # [Suc n..<length pv]" using Suc.hyps(2) by (auto simp: upt_conv_Cons)
  have root: "ino_fs (fs_root fs)" by (simp add: fs_root_def)
  have ref: "fs_twin fs fs" using Suc.prems(6) fs_twin_sym fs_twin_trans by blast
  have t1: "fs_twin fs fs1" using walk_twin[OF ref root, of "take n pv" dirjunk now] Suc.prems(4)
    by (metis option.inject prod.inject)
  have tg: "fs_twin fs1 g" using t1 Suc.prems(6) fs_twin_sym fs_twin_trans by blast
  obtain r k fs2 g2 where f: "find_in dirjunk (pv ! n) now i fs1 = Some (r, k, fs2)"
    "find_in dirjunk (pv ! n) now i g = Some (r, k, g2)" "fs_twin fs1 fs2" "fs_twin fs2 g2" "r = kFail \<or> ino_fs k"
    by (rule find_in_twin[OF tg Suc.prems(5)])
  have tg2: "fs_twin fs g2" using t1 f(3,4) fs_twin_trans by blast
  show ?case
  proof (cases "r = kFail")
    case True
    have "walk (take n pv @ drop n pv) dirjunk now (fs_root fs) fs = walk (drop n pv) dirjunk now i fs1"
      by (rule walk_append[OF Suc.prems(4,5)])
    also have "\<dots> = Some (Inode_invalid, fs2)"
      using f(1) True n(1) by (subst Cons_nth_drop_Suc[OF n(1), symmetric]) simp
    finally show ?thesis using n f(2) True tg2 Suc.prems(7,8) by simp
  next
    case False
    have w: "walk (take (Suc n) pv) dirjunk now (fs_root fs) fs = Some (k, fs2)"
      using walk_append[OF Suc.prems(4,5), of "[pv ! n]"] f(1) False n(1) by (simp add: take_Suc_conv_app_nth)
    obtain pr1 where ci: "cache_insert (cv ! n) k pr = Some pr1" "pr_ok pr1"
      "inodes_of (path_cache pr1) \<subseteq> insert (cv ! n, k) (inodes_of (path_cache pr))"
      by (rule cache_insert_ok[OF Suc.prems(7)])
    have k: "ino_fs k" using f(5) False by simp
    have sp: "split_path (cv ! n) slash False = take (Suc n) pv"
      using split_prefix[of n s slash] n(1) Suc.prems(1,2) by simp
    have coh: "coherent dirjunk now (path_cache pr1) fs"
      using Suc.prems(8) ci(3) w sp k unfolding coherent_def by fastforce
    have "m = length pv - Suc n" "Suc n \<le> length pv" using Suc.hyps(2) n(1) by auto
    from Suc.hyps(1)[OF this(1) Suc.prems(1,2) this(2) w k tg2 ci(2) coh]
    obtain j pr' g' fs' where r: "resolve_parts [Suc n..<length pv] dirjunk now pv cv k pr1 g2 = Some (j, pr', g')"
      "walk pv dirjunk now (fs_root fs) fs = Some (j, fs')" "fs_twin fs g'" "pr_ok pr'" "coherent dirjunk now (path_cache pr') fs"
      "fst ` inodes_of (path_cache pr') \<subseteq> fst ` inodes_of (path_cache pr1) \<union> set cv"
      by blast
    have "length cv = length pv" using split_loop_prefixes[of 0 s True slash] Suc.prems(1,2) by (simp add: split_path_def)
    then have "cv ! n \<in> set cv" using n(1) by simp
    then have "insert (cv ! n) (fst ` inodes_of (path_cache pr)) \<subseteq> fst ` inodes_of (path_cache pr) \<union> set cv" by simp
    with image_mono[OF ci(3), of fst] have "fst ` inodes_of (path_cache pr1) \<subseteq> fst ` inodes_of (path_cache pr) \<union> set cv"
      unfolding image_insert fst_conv by (rule order_trans)
    then have "fst ` inodes_of (path_cache pr') \<subseteq> fst ` inodes_of (path_cache pr) \<union> set cv"
      by (intro order_trans[OF r(6)] Un_least) simp_all
    then show ?thesis using n(2) f(2) ci(1) False r(1-5) by simp
  qed
qed

lemma resolve_cache_ok:
  assumes "dev_ok (device fs)" "pr_ok pr" "coherent dirjunk now (path_cache pr) fs"
  shows "\<exists>i pr' fs' fs''. resolve dirjunk now path pr fs = Some (i, pr', fs') \<and>
     resolveNoCache dirjunk now path fs = Some (i, fs'') \<and> fs_twin fs fs' \<and> pr_ok pr' \<and>
     coherent dirjunk now (path_cache pr') fs' \<and>
     (\<forall>k \<in> fst ` inodes_of (path_cache pr'). k \<in> fst ` inodes_of (path_cache pr) \<or>
        (\<exists>s n. path \<noteq> [slash] \<and> no_both_slash path = Some s \<and> n < length (split_path s slash False) \<and>
           split_path k slash False = take (Suc n) (split_path s slash False)))"
proof (cases "path = [] \<or> hd path \<noteq> slash \<or> path = [slash]")
  case True
  then obtain i where "resolve dirjunk now path pr fs = Some (i, pr, fs)" "resolveNoCache dirjunk now path fs = Some (i, fs)"
    by (cases "path = [] \<or> hd path \<noteq> slash") (simp_all add: resolve_def resolveNoCache_def)
  then show ?thesis using assms fs_twin_refl[OF assms(1)] by blast
next
  case False
  then have "length path > 1" by (cases path) auto
  then have "removeEndSlash path \<noteq> []" by (auto simp: removeEndSlash_def)
  then obtain s where s: "no_both_slash path = Some s" by (auto simp: no_both_slash_def substr1_def)
  define pv where "pv = split_path s slash False"
  define cv where "cv = split_path s slash True"
  have len: "length cv = length pv" using split_loop_prefixes[of 0 s True slash] by (simp add: split_path_def pv_def cv_def)
  obtain i n c where lc: "lookup_cache [0..<length cv] cv (fs_root fs) 0 (path_cache pr) = (i, n, c)"
    by (metis prod_cases3)
  have root: "walk (take 0 pv) dirjunk now (fs_root fs) fs = Some (fs_root fs, fs)" "ino_fs (fs_root fs)"
    by (simp_all add: fs_root_def)
  obtain fs1 where w: "walk (take n pv) dirjunk now (fs_root fs) fs = Some (i, fs1)" "ino_fs i" "n \<le> length pv"
    "inodes_of c = inodes_of (path_cache pr)" "map fst c = map fst (path_cache pr)"
    using lookup_cache_ok[OF assms(3) pv_def cv_def _ root _ lc] len by auto
  have keys: "fst ` set c = fst ` set (path_cache pr)" by (metis w(5) list.set_map)
  have pr: "pr_ok (pr\<lparr>path_cache := c\<rparr>)" "coherent dirjunk now (path_cache (pr\<lparr>path_cache := c\<rparr>)) fs"
    using assms(2,3) w(4,5) keys 
    by (simp_all add: pr_ok_def cache_sorted_def iter_ok_def coherent_def split: option.splits)
  obtain j pr' g' fs' where r: "resolve_parts [n..<length pv] dirjunk now pv cv i (pr\<lparr>path_cache := c\<rparr>) fs = Some (j, pr', g')"
    "walk pv dirjunk now (fs_root fs) fs = Some (j, fs')" "fs_twin fs g'" "pr_ok pr'" "coherent dirjunk now (path_cache pr') fs"
    "fst ` inodes_of (path_cache pr') \<subseteq> fst ` inodes_of (path_cache (pr\<lparr>path_cache := c\<rparr>)) \<union> set cv"
    using resolve_parts_ok[OF pv_def cv_def w(3,1,2) fs_twin_refl[OF assms(1)] pr] by blast
  have "resolve dirjunk now path pr fs = Some (j, pr', g')"
    using False s lc[unfolded cv_def] r(1)[unfolded pv_def cv_def] by (simp add: resolve_def Let_def)
  moreover have "resolveNoCache dirjunk now path fs = Some (j, fs')"
    using False s r(2)[unfolded pv_def] by (simp add: resolveNoCache_def)
  moreover have "k \<in> fst ` inodes_of (path_cache pr) \<or> (\<exists>s n. path \<noteq> [slash] \<and> no_both_slash path = Some s \<and>
      n < length (split_path s slash False) \<and> split_path k slash False = take (Suc n) (split_path s slash False))"
    if "k \<in> fst ` inodes_of (path_cache pr')" for k
  proof -
    have "k \<in> fst ` inodes_of (path_cache pr) \<union> set cv" using subsetD[OF r(6) that] w(4) by simp
    then consider "k \<in> fst ` inodes_of (path_cache pr)" | n where "n < length cv" "k = cv ! n"
      unfolding Un_iff in_set_conv_nth by blast
    then show ?thesis
    proof cases
      case 2
      then show ?thesis using split_prefix[of n s slash] len s False unfolding pv_def cv_def by auto
    qed simp
  qed
  ultimately show ?thesis using r(3,4) coherent_twin[OF r(5,3)] by blast
qed

end
