(* ===== verification/Fd_Manager.thy ===== *)
theory Fd_Manager
  imports Sbfs
begin

text \<open>
  The table of open files, \<open>class FDManager\<close> of \<open>include/fd_manager.h\<close>: handles to inodes, and a
  count of the open handles of each inode. A \<open>std::map<Inode, \<dots>>\<close> identifies inodes by
  \<open>Inode::operator<\<close>, that is by their positions, so \<open>reference_count\<close> is a map from positions.
\<close>

section \<open>State and operations\<close>

record FDManager =
  fd_map :: "u64 \<rightharpoonup> Inode"
  reference_count :: "Position \<rightharpoonup> u64"
  fd_counter :: u64

definition FDManager_new :: FDManager where
  "FDManager_new = \<lparr>fd_map = Map.empty, reference_count = Map.empty, fd_counter = 10\<rparr>"

text \<open>\<open>delta\<close> is an int, converted to \<open>uint64_t\<close>.\<close>

definition deltaRefCnt :: "Inode \<Rightarrow> int \<Rightarrow> FDManager \<Rightarrow> FDManager" where
  "deltaRefCnt inode delta m =
     m\<lparr>reference_count := (reference_count m)(ino_pos inode \<mapsto>
        (case reference_count m (ino_pos inode) of None \<Rightarrow> word_of_int delta
         | Some n \<Rightarrow> n + word_of_int delta))\<rparr>"

text \<open>\<open>std::map::insert\<close> keeps an entry that is already there.\<close>

definition fd_open :: "Inode \<Rightarrow> FDManager \<Rightarrow> u64 \<times> FDManager" where
  "fd_open inode m =
     (let fd = fd_counter m;
          m1 = m\<lparr>fd_counter := fd + 1,
                 fd_map := (if fd_map m fd = None then (fd_map m)(fd \<mapsto> inode) else fd_map m)\<rparr>
      in (fd, deltaRefCnt inode 1 m1))"

definition fd_get :: "u64 \<Rightarrow> FDManager \<Rightarrow> Inode option" where
  "fd_get fd m = (if fd = 0 then None else fd_map m fd)"

definition fd_close :: "u64 \<Rightarrow> FDManager \<Rightarrow> FDManager" where
  "fd_close fd m =
     (if fd = 0 then m
      else (case fd_map m fd of None \<Rightarrow> m
            | Some inode \<Rightarrow> (deltaRefCnt inode (-1) m)\<lparr>fd_map := (fd_map m)(fd := None)\<rparr>))"

definition isOpen :: "Inode \<Rightarrow> FDManager \<Rightarrow> bool" where
  "isOpen inode m \<longleftrightarrow> (case reference_count m (ino_pos inode) of None \<Rightarrow> False | Some n \<Rightarrow> n > 0)"

section \<open>Handles\<close>

text \<open>What a client of the table relies on: opening returns a handle that was not in use and adds it,
  closing removes it, and every other handle keeps its inode. \<open>ok n\<close> says that \<open>n\<close> more opens do
  not exhaust the handles.\<close>

datatype 'i handle_op = Open 'i | Close u64

primrec handle_step :: "('i \<Rightarrow> 't \<Rightarrow> u64 \<times> 't) \<Rightarrow> (u64 \<Rightarrow> 't \<Rightarrow> 't) \<Rightarrow> 'i handle_op \<Rightarrow> 't \<Rightarrow> 't" where
  "handle_step opn cls (Open i) t = snd (opn i t)"
| "handle_step opn cls (Close h) t = cls h t"

locale handle_table =
  fixes opn :: "'i \<Rightarrow> 't \<Rightarrow> u64 \<times> 't" and get :: "u64 \<Rightarrow> 't \<Rightarrow> 'i option" and cls :: "u64 \<Rightarrow> 't \<Rightarrow> 't"
    and ok :: "nat \<Rightarrow> 't \<Rightarrow> bool"
  assumes opn_fresh: "ok (Suc n) t \<Longrightarrow> get (fst (opn i t)) t = None"
    and opn_nonzero: "ok (Suc n) t \<Longrightarrow> fst (opn i t) \<noteq> 0"
    and get_opn: "ok (Suc n) t \<Longrightarrow> get h (snd (opn i t)) = (if h = fst (opn i t) then Some i else get h t)"
    and get_cls: "ok n t \<Longrightarrow> get h (cls h' t) = (if h = h' then None else get h t)"
    and ok_opn: "ok (Suc n) t \<Longrightarrow> ok n (snd (opn i t))"
    and ok_cls: "ok n t \<Longrightarrow> ok n (cls h t)"
    and ok_less: "ok (Suc n) t \<Longrightarrow> ok n t"
begin

lemma get_run:
  assumes "ok (length ops) t" "get h t = Some i" "Close h \<notin> set ops"
  shows "get h (fold (handle_step opn cls) ops t) = Some i"
  using assms
proof (induction ops arbitrary: t)
  case (Cons op ops)
  show ?case
  proof (cases op)
    case (Open j)
    have "ok (length ops) (snd (opn j t))" using ok_opn Cons.prems(1) by simp
    moreover have "get h (snd (opn j t)) = Some i"
      using get_opn[of "length ops" t h j] opn_fresh[of "length ops" t j] Cons.prems by auto
    ultimately show ?thesis using Cons Open by simp
  next
    case (Close h')
    have "ok (length (op # ops)) (cls h' t)" using ok_cls Cons.prems(1) by blast
    moreover have "get h (cls h' t) = Some i" using get_cls Cons.prems Close by auto
    ultimately show ?thesis using Cons Close ok_less by simp
  qed
qed simp

lemma open_run:
  assumes "ok (Suc (length ops)) t" "Close (fst (opn i t)) \<notin> set ops"
  shows "get (fst (opn i t)) (fold (handle_step opn cls) ops (snd (opn i t))) = Some i"
  using assms get_run ok_opn get_opn by simp

end

text \<open>The invariant of the table: the handles in use lie between 10 and the counter, and the count of
  an inode is the number of its handles.\<close>

definition handles_of :: "Position \<Rightarrow> FDManager \<Rightarrow> u64 set" where
  "handles_of p m = {fd. \<exists>i. fd_map m fd = Some i \<and> ino_pos i = p}"

definition ref_count :: "Position \<Rightarrow> FDManager \<Rightarrow> nat" where
  "ref_count p m = (case reference_count m p of None \<Rightarrow> 0 | Some n \<Rightarrow> unat n)"

definition fd_inv :: "FDManager \<Rightarrow> bool" where
  "fd_inv m \<longleftrightarrow> 10 \<le> fd_counter m \<and> dom (fd_map m) \<subseteq> {10..<fd_counter m} \<and>
     (\<forall>p. ref_count p m = card (handles_of p m))"

definition fd_room :: "nat \<Rightarrow> FDManager \<Rightarrow> bool" where
  "fd_room n m \<longleftrightarrow> fd_inv m \<and> unat (fd_counter m) + n < 2 ^ 64"

lemma fd_inv_new: "fd_inv FDManager_new"
  by (simp add: fd_inv_def FDManager_new_def ref_count_def handles_of_def)

lemma fd_invD:
  assumes "fd_inv m"
  shows "fd_map m fd = Some i \<Longrightarrow> 10 \<le> fd \<and> fd < fd_counter m" "fd_map m (fd_counter m) = None"
    "fd_map m 0 = None" "ref_count p m = card (handles_of p m)" "finite (handles_of p m)"
  using assms by (auto simp: fd_inv_def subset_iff)

lemma handles_open:
  assumes "fd_inv m"
  shows "handles_of p (snd (fd_open i m)) =
     (if p = ino_pos i then insert (fd_counter m) (handles_of p m) else handles_of p m)"
    "fd_counter m \<notin> handles_of p m"
  using fd_invD(2)[OF assms]
  by (auto simp: handles_of_def fd_open_def deltaRefCnt_def Let_def split: if_splits)

lemma handles_close:
  assumes "fd_inv m" "fd_map m fd = Some i"
  shows "handles_of p (fd_close fd m) = handles_of p m - {fd}" "fd \<in> handles_of p m \<longleftrightarrow> p = ino_pos i"
  using fd_invD(3)[OF assms(1)] assms(2) by (auto simp: handles_of_def fd_close_def deltaRefCnt_def)

lemma unat_less_u64: "unat (a :: u64) + n < 2 ^ 64 \<Longrightarrow> unat (a + of_nat n) = unat a + n"
  by (simp add: unat_word_ariths unat_of_nat)

lemma card_handles_bound:
  assumes "fd_inv m"
  shows "card (handles_of p m) \<le> unat (fd_counter m) - 10"
proof -
  have "unat ` handles_of p m \<subseteq> {10..<unat (fd_counter m)}"
    using fd_invD(1)[OF assms] by (auto simp: handles_of_def word_less_nat_alt word_le_nat_alt)
  then have "card (unat ` handles_of p m) \<le> card {10..<unat (fd_counter m)}" by (intro card_mono) auto
  moreover have "card (unat ` handles_of p m) = card (handles_of p m)"
    by (intro card_image inj_onI) (simp add: word_unat_eq_iff)
  ultimately show ?thesis by simp
qed

lemma ref_count_delta:
  assumes "0 \<le> int (ref_count (ino_pos i) m) + k" "int (ref_count (ino_pos i) m) + k < 2 ^ 64"
  shows "int (ref_count p (deltaRefCnt i k m)) =
     (if p = ino_pos i then int (ref_count p m) + k else int (ref_count p m))"
proof (cases "p = ino_pos i")
  case True
  have "int (unat (n + word_of_int k)) = int (unat n) + k" if "0 \<le> int (unat n) + k" "int (unat n) + k < 2 ^ 64"
    for n :: u64
  proof -
    have "uint (n + word_of_int k) = (uint n + k) mod 2 ^ 64"
      by (simp add: uint_word_ariths uint_word_of_int mod_add_right_eq)
    also have "\<dots> = uint n + k" using that by simp
    finally show ?thesis by simp
  qed
  moreover have "int (unat (word_of_int k :: u64)) = k" if "0 \<le> k" "k < 2 ^ 64"
    using that by (simp add: uint_word_of_int)
  ultimately show ?thesis
    using assms True by (cases "reference_count m (ino_pos i)") (auto simp: ref_count_def deltaRefCnt_def)
next
  case False
  then show ?thesis by (simp add: ref_count_def deltaRefCnt_def)
qed

lemma ref_count_frame [simp]:
  "ref_count p (m\<lparr>fd_map := f\<rparr>) = ref_count p m" "ref_count p (m\<lparr>fd_counter := c\<rparr>) = ref_count p m"
  by (simp_all add: ref_count_def)

lemma fd_inv_open:
  assumes "fd_inv m" "unat (fd_counter m) + 1 < 2 ^ 64"
  shows "fd_inv (snd (fd_open i m))"
proof -
  define m1 where "m1 = m\<lparr>fd_counter := fd_counter m + 1, fd_map := (fd_map m)(fd_counter m \<mapsto> i)\<rparr>"
  have eq: "snd (fd_open i m) = deltaRefCnt i 1 m1"
    using fd_invD(2)[OF assms(1)] by (simp add: fd_open_def m1_def Let_def)
  have rcm: "ref_count p m1 = card (handles_of p m)" for p
    using fd_invD(4)[OF assms(1)] by (simp add: m1_def)
  have cb: "card (handles_of p m) < 2 ^ 64 - 1" for p
    using card_handles_bound[OF assms(1), of p] assms(2) by simp
  have c: "fd_counter m < fd_counter m + 1" "10 \<le> fd_counter m + 1"
    using assms unat_less_u64[of "fd_counter m" 1] by (auto simp: word_less_nat_alt word_le_nat_alt fd_inv_def)
  have "ref_count p (snd (fd_open i m)) = card (handles_of p (snd (fd_open i m)))" for p
    using ref_count_delta[of i m1 1 p] rcm cb[of "ino_pos i"] fd_invD(5)[OF assms(1), of p]
      handles_open(1)[OF assms(1), of p i] handles_open(2)[OF assms(1), of p]
    unfolding eq by (cases "p = ino_pos i") simp_all
  moreover have "dom (fd_map (snd (fd_open i m))) \<subseteq> {10..<fd_counter m + 1}"
    using c assms(1) by (auto simp: eq deltaRefCnt_def m1_def fd_inv_def subset_iff intro: less_trans split: if_splits)
  ultimately show ?thesis using c by (simp add: fd_inv_def eq deltaRefCnt_def m1_def)
qed

lemma fd_inv_close:
  assumes "fd_inv m"
  shows "fd_inv (fd_close fd m)"
proof (cases "fd = 0 \<or> fd_map m fd = None")
  case True
  then show ?thesis using assms by (auto simp: fd_close_def)
next
  case False
  then obtain i where i: "fd \<noteq> 0" "fd_map m fd = Some i" by auto
  have eq: "fd_close fd m = (deltaRefCnt i (-1) m)\<lparr>fd_map := (fd_map m)(fd := None)\<rparr>"
    using i by (simp add: fd_close_def)
  have cb: "card (handles_of p m) < 2 ^ 64" for p
    using card_handles_bound[OF assms, of p] unsigned_less[where 'a = nat, of "fd_counter m"] by simp
  have pos: "0 < card (handles_of (ino_pos i) m)"
    using handles_close(2)[OF assms i(2), of "ino_pos i"] fd_invD(5)[OF assms] by (auto simp: card_gt_0_iff)
  have "ref_count p (fd_close fd m) = card (handles_of p (fd_close fd m))" for p
    using ref_count_delta[of i m "-1" p] fd_invD(4)[OF assms] cb[of "ino_pos i"] pos
      handles_close[OF assms i(2)] fd_invD(5)[OF assms]
    by (cases "p = ino_pos i") (simp_all add: eq card_Diff_singleton)
  moreover have "dom (fd_map (fd_close fd m)) \<subseteq> {10..<fd_counter m}"
    using assms by (auto simp: eq fd_inv_def)
  ultimately show ?thesis using assms by (simp add: fd_inv_def eq deltaRefCnt_def)
qed

interpretation fdm: handle_table fd_open fd_get fd_close fd_room
proof
  fix n t i
  assume "fd_room (Suc n) t"
  then have inv: "fd_inv t" and c: "unat (fd_counter t) + 1 < 2 ^ 64" "unat (fd_counter t) + Suc n < 2 ^ 64"
    by (auto simp: fd_room_def)
  have nz: "fd_counter t \<noteq> 0" using inv by (auto simp: fd_inv_def)
  have m: "fst (fd_open i t) = fd_counter t" "fd_map (snd (fd_open i t)) = (fd_map t)(fd_counter t \<mapsto> i)"
    "fd_counter (snd (fd_open i t)) = fd_counter t + 1"
    using fd_invD(2)[OF inv] by (auto simp: fd_open_def Let_def deltaRefCnt_def)
  show "fd_get (fst (fd_open i t)) t = None" using fd_invD(2)[OF inv] m by (simp add: fd_get_def)
  show "fst (fd_open i t) \<noteq> 0" using nz m by simp
  show "fd_get h (snd (fd_open i t)) = (if h = fst (fd_open i t) then Some i else fd_get h t)" for h
    using nz m by (simp add: fd_get_def)
  show "fd_room n (snd (fd_open i t))"
    using fd_inv_open[OF inv c(1)] unat_less_u64[of "fd_counter t" 1] m c by (simp add: fd_room_def)
  show "fd_room n t" using inv c by (simp add: fd_room_def)
next
  fix n t h h'
  assume "fd_room n t"
  then show "fd_room n (fd_close h t)" using fd_inv_close[of t h]
    by (auto simp: fd_room_def fd_close_def deltaRefCnt_def split: option.splits if_splits)
  show "fd_get h (fd_close h' t) = (if h = h' then None else fd_get h t)"
    using \<open>fd_room n t\<close> by (auto simp: fd_room_def fd_get_def fd_close_def deltaRefCnt_def split: option.splits)
qed

section \<open>Reachable tables\<close>

text \<open>The tables that \<open>sb_create\<close>, \<open>sb_open\<close> and \<open>sb_release\<close> can reach from the start, as long as the
  64-bit counter has not been used up.\<close>

inductive fd_reach :: "FDManager \<Rightarrow> bool" where
  fd_start: "fd_reach FDManager_new"
| fd_opened: "fd_reach m \<Longrightarrow> unat (fd_counter m) + 1 < 2 ^ 64 \<Longrightarrow> fd_reach (snd (fd_open i m))"
| fd_closed: "fd_reach m \<Longrightarrow> fd_reach (fd_close fd m)"

lemma fd_reach_inv: "fd_reach m \<Longrightarrow> fd_inv m"
  by (induction rule: fd_reach.induct) (auto intro: fd_inv_new fd_inv_open fd_inv_close)

text \<open>C37: in every reachable table the count of an inode is the number of its open handles, no handle
  is 0, which stands for a file that is not open, and \<open>isOpen\<close> holds exactly for the inodes that have
  an open handle.\<close>

theorem open_files_counted:
  assumes "fd_reach m"
  shows "ref_count (ino_pos i) m = card {fd. \<exists>j. fd_get fd m = Some j \<and> ino_pos j = ino_pos i} \<and>
     (isOpen i m \<longleftrightarrow> (\<exists>fd j. fd_get fd m = Some j \<and> ino_pos j = ino_pos i)) \<and> fd_map m 0 = None"
proof -
  have inv: "fd_inv m" by (rule fd_reach_inv[OF assms])
  have hs: "handles_of p m = {fd. \<exists>j. fd_get fd m = Some j \<and> ino_pos j = p}" for p
    using fd_invD(3)[OF inv] by (auto simp: handles_of_def fd_get_def)
  have "isOpen i m \<longleftrightarrow> 0 < ref_count (ino_pos i) m"
    by (auto simp: isOpen_def ref_count_def word_less_nat_alt split: option.splits)
  also have "\<dots> \<longleftrightarrow> handles_of (ino_pos i) m \<noteq> {}"
    using fd_invD(4,5)[OF inv] by (simp add: card_gt_0_iff)
  finally show ?thesis using hs fd_invD(3,4)[OF inv] by auto
qed

theorem open_files_counted_witness:
  "isOpen Inode_invalid (fd_close 10 (snd (fd_open Inode_invalid (snd (fd_open Inode_invalid FDManager_new)))))"
proof -
  define m where "m = fd_close 10 (snd (fd_open Inode_invalid (snd (fd_open Inode_invalid FDManager_new))))"
  have "fd_reach m"
    unfolding m_def by (intro fd_closed fd_opened fd_start) (simp_all add: fd_open_def FDManager_new_def Let_def deltaRefCnt_def)
  moreover have "fd_get 11 m = Some Inode_invalid"
    by (simp add: m_def fd_get_def fd_close_def fd_open_def FDManager_new_def Let_def deltaRefCnt_def)
  ultimately show ?thesis using open_files_counted[of m Inode_invalid] by (auto simp: m_def)
qed

text \<open>An inode that has been opened is what its handle gives, whatever is opened and closed in
  between, until that handle is closed.\<close>

theorem handle_valid_until_closed:
  assumes "fd_reach m" "unat (fd_counter m) + Suc (length ops) < 2 ^ 64" "fd_open i m = (fd, m')" "Close fd \<notin> set ops"
  shows "fd_get fd (fold (handle_step fd_open fd_close) ops m') = Some i"
  using fdm.open_run[of ops m i] fd_reach_inv[OF assms(1)] assms(2-4) by (simp add: fd_room_def)

theorem handle_valid_until_closed_witness:
  "fd_get 10 (fold (handle_step fd_open fd_close) [Open Inode_invalid, Close 11] (snd (fd_open Inode_invalid FDManager_new))) =
     Some Inode_invalid"
  using handle_valid_until_closed[of FDManager_new "[Open Inode_invalid, Close 11]" Inode_invalid 10
      "snd (fd_open Inode_invalid FDManager_new)"] fd_start
  by (simp add: fd_open_def FDManager_new_def Let_def)

end
