(* ===== verification/Vfs.thy ===== *)
theory Vfs
  imports Path_Resolver Fd_Manager "HOL-Library.Monad_Syntax"
begin

text \<open>
  The FUSE handlers of \<open>src/vfs.cpp\<close>. Each handler runs under the mutex \<open>mtx\<close> from its first to its
  last statement, so a handler is one atomic function on the state: the file system, the path
  resolver and the table of open files, the three globals of the file.

  A handler returns its int result, its outputs and the new state; the result None is the end of
  the process: a null or dangling pointer that is used, or an exception. \<open>fuse_file_info *fi\<close> is
  None when it is null and its field \<open>fh\<close> otherwise. The arguments \<open>dirjunk\<close> and \<open>junk\<close> are the
  uninitialised memory of a directory block and of an \<open>Inode\<close> on the stack; \<open>now\<close>, \<open>uid\<close> and \<open>gid\<close>
  are what \<open>time\<close>, \<open>getuid\<close> and \<open>getgid\<close> return. \<open>rt_assert\<close> has no effect: the build defines
  \<open>NDEBUG\<close>.
\<close>

section \<open>State\<close>

record vfs =
  v_fs :: sbfs
  v_path :: PathResolver
  v_fd :: FDManager

record env =
  e_now :: u32
  e_uid :: u16
  e_gid :: u16
  e_dirjunk :: mem
  e_junk :: Inode

definition ENOENT :: int where
  "ENOENT = 2"

definition EIO :: int where
  "EIO = 5"

definition EBADF :: int where
  "EBADF = 9"

definition ENOTDIR :: int where
  "ENOTDIR = 20"

definition EINVAL :: int where
  "EINVAL = 22"

definition ENOTEMPTY :: int where
  "ENOTEMPTY = 39"

section \<open>Helpers\<close>

definition splitFromLastSlash :: "cstring \<Rightarrow> cstring \<times> cstring" where
  "splitFromLastSlash path =
     (case rfind_char slash path of None \<Rightarrow> ([], path)
      | Some pos \<Rightarrow> (take (pos + 1) path, drop (pos + 1) path))"

text \<open>\<open>path_resolver->resolve(path)\<close> on the state of the handlers.\<close>

definition vfs_resolve :: "env \<Rightarrow> cstring \<Rightarrow> vfs \<Rightarrow> (Inode \<times> vfs) option" where
  "vfs_resolve e path v =
     (case resolve (e_dirjunk e) (e_now e) path (v_path v) (v_fs v) of None \<Rightarrow> None
      | Some (inode, pr, fs) \<Rightarrow> Some (inode, v\<lparr>v_path := pr, v_fs := fs\<rparr>))"

definition vfs_removePrefix :: "cstring \<Rightarrow> vfs \<Rightarrow> vfs option" where
  "vfs_removePrefix path v =
     (case removePrefix path (v_path v) of None \<Rightarrow> None | Some pr \<Rightarrow> Some (v\<lparr>v_path := pr\<rparr>))"

text \<open>A method of an \<open>Inode\<close> object works through the object's pointer \<open>fs\<close>.\<close>

definition on_inode :: "Inode \<Rightarrow> (Position \<Rightarrow> sbfs \<Rightarrow> 'a) \<Rightarrow> vfs \<Rightarrow> 'a option" where
  "on_inode inode f v = (if ino_fs inode then Some (f (ino_pos inode) (v_fs v)) else None)"

definition init_vfs ::
  "env \<Rightarrow> (int \<Rightarrow> block) \<Rightarrow> sbfs \<Rightarrow> disk \<Rightarrow> nat option \<Rightarrow> nat \<Rightarrow> bool \<Rightarrow> vfs option" where
  "init_vfs e cjunk fs0 dk st sz is_open =
     (if \<not> is_open
      then Some (fs_create cjunk (e_dirjunk e) (e_now e) (e_uid e) (e_gid e) fs0 dk sz
             (of_nat kFSDataBlocks) (of_nat kInodeBitmapBlocks))
      else fs_open cjunk fs0 st dk) \<bind> (\<lambda>fs.
     Some \<lparr>v_fs = fs, v_path = PathResolver_new (of_nat kPathCacheSize), v_fd = FDManager_new\<rparr>)"

definition sb_destroy :: "vfs \<Rightarrow> dev" where
  "sb_destroy v = snd (dev_sync_all (device (v_fs v)))"

section \<open>Attributes\<close>

text \<open>\<open>func\<close> works on the disk inode and on the variables \<open>x\<close> that the lambda captures by reference.\<close>

definition sb_rmw_diskinode ::
  "env \<Rightarrow> cstring \<Rightarrow> u64 option \<Rightarrow> (DiskInode \<Rightarrow> 'x \<Rightarrow> int \<times> DiskInode \<times> 'x) \<Rightarrow> 'x \<Rightarrow> vfs \<Rightarrow>
   (int \<times> 'x \<times> vfs) option" where
  "sb_rmw_diskinode e path fi func x v =
     (case (case fi of None \<Rightarrow> None | Some fh \<Rightarrow> if fh = 0 then None else fd_get fh (v_fd v)) of
        Some inode \<Rightarrow> Some (inode, v)
      | None \<Rightarrow> vfs_resolve e path v) \<bind> (\<lambda>(inode, v1).
      if \<not> Inode_isValid inode then Some (- ENOENT, x, v1)
      else
        on_inode inode (\<lambda>pos fs. read_inode pos zero_inode (device fs)) v1 \<bind> (\<lambda>(r, disk_inode, d1).
        let v2 = v1\<lparr>v_fs := (v_fs v1)\<lparr>device := d1\<rparr>\<rparr> in
        if r = kFail then Some (- EIO, x, v2)
        else
          (let (ret, disk_inode1, x1) = func disk_inode x in
           if ret \<noteq> kSuccess then Some (ret, x1, v2)
           else
             on_inode inode (\<lambda>pos fs. write_inode pos disk_inode1 (device fs)) v2 \<bind> (\<lambda>(r2, d2).
             let v3 = v2\<lparr>v_fs := (v_fs v2)\<lparr>device := d2\<rparr>\<rparr> in
             if r2 = kFail then Some (- EIO, x1, v3) else Some (0, x1, v3)))))"

record stat =
  st_mode :: u32
  st_atime :: u64
  st_mtime :: u64
  st_ctime :: u64
  st_size :: u64
  st_nlink :: u64
  st_uid :: u32
  st_gid :: u32
  st_blocks :: u64
  st_blksize :: u64

definition sb_getattr :: "env \<Rightarrow> cstring \<Rightarrow> stat \<Rightarrow> u64 option \<Rightarrow> vfs \<Rightarrow> (int \<times> stat \<times> vfs) option" where
  "sb_getattr e path stbuf fi v =
     sb_rmw_diskinode e path fi (\<lambda>disk_inode st.
       (kSuccess, disk_inode,
        st\<lparr>st_mode := ucast (di_mode disk_inode), st_atime := ucast (access_time disk_inode),
           st_mtime := ucast (modify_time disk_inode), st_ctime := ucast (change_time disk_inode),
           st_size := ucast (di_size disk_inode), st_nlink := ucast (link_cnt disk_inode),
           st_uid := ucast (di_uid disk_inode), st_gid := ucast (di_gid disk_inode),
           st_blocks := ucast (total_blocks (di_size disk_inode)), st_blksize := of_nat kBlockSize\<rparr>)) stbuf v"

definition sb_chmod :: "env \<Rightarrow> cstring \<Rightarrow> u32 \<Rightarrow> u64 option \<Rightarrow> vfs \<Rightarrow> (int \<times> unit \<times> vfs) option" where
  "sb_chmod e path mode fi v =
     sb_rmw_diskinode e path fi (\<lambda>disk_inode x. (kSuccess, disk_inode\<lparr>di_mode := ucast mode\<rparr>, x)) () v"

definition sb_chown :: "env \<Rightarrow> cstring \<Rightarrow> u32 \<Rightarrow> u32 \<Rightarrow> u64 option \<Rightarrow> vfs \<Rightarrow> (int \<times> unit \<times> vfs) option" where
  "sb_chown e path uid gid fi v =
     sb_rmw_diskinode e path fi
       (\<lambda>disk_inode x. (kSuccess, disk_inode\<lparr>di_uid := ucast uid, di_gid := ucast gid\<rparr>, x)) () v"

text \<open>\<open>tv_sec + tv_nsec / 1000000000.0\<close>, converted to \<open>uint32_t\<close>: the quotient and the sum are IEEE
  doubles, rounded to nearest with ties to even. A positive double is \<open>m / 2 ^ k\<close>, a pair \<open>(m, k)\<close>
  with \<open>m\<close> of 53 bits; \<open>scale a b\<close> is that \<open>k\<close> for the quotient of \<open>a\<close> and \<open>b\<close>. Only
  non-negative times have a defined conversion.\<close>

function scale :: "nat \<Rightarrow> nat \<Rightarrow> nat" where
  "scale a b = (if a = 0 \<or> b * 2 ^ 52 \<le> a then 0 else Suc (scale (2 * a) b))"
  by pat_completeness auto

termination
  by (relation "measure (\<lambda>(a, b). b * 2 ^ 52 - a)") auto

declare scale.simps [simp del]

definition div_rne :: "nat \<Rightarrow> nat \<Rightarrow> nat" where
  "div_rne a b =
     (let q = a div b; r = a mod b in if b < 2 * r \<or> (2 * r = b \<and> odd q) then q + 1 else q)"

definition double_div :: "nat \<Rightarrow> nat \<Rightarrow> nat \<times> nat" where
  "double_div a b = (let k = scale a b in (div_rne (a * 2 ^ k) b, k))"

definition double_add :: "nat \<Rightarrow> nat \<times> nat \<Rightarrow> nat \<times> nat" where
  "double_add n x = double_div (n * 2 ^ snd x + fst x) (2 ^ snd x)"

definition timespec_secs :: "nat \<times> nat \<Rightarrow> u32" where
  "timespec_secs tv = (let x = double_add (fst tv) (double_div (snd tv) 1000000000) in of_nat (fst x div 2 ^ snd x))"

definition sb_utimens ::
  "env \<Rightarrow> cstring \<Rightarrow> nat \<times> nat \<Rightarrow> nat \<times> nat \<Rightarrow> u64 option \<Rightarrow> vfs \<Rightarrow> (int \<times> unit \<times> vfs) option" where
  "sb_utimens e path tv0 tv1 fi v =
     sb_rmw_diskinode e path fi
       (\<lambda>disk_inode x. (kSuccess, disk_inode\<lparr>access_time := timespec_secs tv0, modify_time := timespec_secs tv1\<rparr>, x)) () v"

record statvfs =
  f_bsize :: u64
  f_frsize :: u64
  f_blocks :: u64
  f_bfree :: u64
  f_bavail :: u64
  f_files :: u64
  f_ffree :: u64
  f_favail :: u64
  f_namemax :: u64

definition sb_statfs :: "statvfs \<Rightarrow> int \<times> statvfs" where
  "sb_statfs stbuf =
     (0, stbuf\<lparr>f_bsize := of_nat kBlockSize, f_frsize := of_nat kBlockSize,
          f_blocks := of_nat (kDiskSize div kBlockSize), f_bfree := of_nat (kDiskSize div kBlockSize),
          f_bavail := of_nat (kDiskSize div kBlockSize), f_files := of_nat (kInodeBitmapBlocks * kBlockSize * 8),
          f_ffree := of_nat (kInodeBitmapBlocks * kBlockSize * 8),
          f_favail := of_nat (kInodeBitmapBlocks * kBlockSize * 8), f_namemax := 255\<rparr>)"

section \<open>Directories\<close>

text \<open>\<open>mkdir\<close> does not look at the result of \<open>create\<close>, and neither does \<open>sb_create\<close>.\<close>

definition sb_mkdir :: "env \<Rightarrow> cstring \<Rightarrow> u32 \<Rightarrow> vfs \<Rightarrow> (int \<times> vfs) option" where
  "sb_mkdir e path mode v =
     (let (parent, child) = splitFromLastSlash path in
      vfs_resolve e parent v \<bind> (\<lambda>(parent_inode, v1).
      if \<not> Inode_isValid parent_inode then Some (- ENOENT, v1)
      else
        (let disk_inode = DiskInode_new kDirectory (e_now e) (e_uid e) (e_gid e);
             disk_inode = disk_inode\<lparr>di_mode := di_mode disk_inode OR ucast (mode AND 0x1FF)\<rparr>
         in on_inode parent_inode (inode_create child disk_inode (e_junk e) (e_now e)) v1 \<bind>
              (\<lambda>(ret, _, _, fs2). Some (0, v1\<lparr>v_fs := fs2\<rparr>)))))"

definition sb_create :: "env \<Rightarrow> cstring \<Rightarrow> u32 \<Rightarrow> u64 option \<Rightarrow> vfs \<Rightarrow> (int \<times> u64 option \<times> vfs) option" where
  "sb_create e path mode fi v =
     (let (parent, child) = splitFromLastSlash path in
      vfs_resolve e parent v \<bind> (\<lambda>(parent_inode, v1).
      if \<not> Inode_isValid parent_inode then Some (- ENOENT, fi, v1)
      else
        (let disk_inode = DiskInode_new kFile (e_now e) (e_uid e) (e_gid e);
             disk_inode = disk_inode\<lparr>di_mode := di_mode disk_inode OR ucast (mode AND 0x1FF)\<rparr>
         in on_inode parent_inode (inode_create child disk_inode (e_junk e) (e_now e)) v1 \<bind>
              (\<lambda>(_, _, child_inode, fs2).
               case fi of None \<Rightarrow> None
               | Some _ \<Rightarrow>
                   (let (fd, m) = fd_open child_inode (v_fd v1)
                    in Some (0, Some fd, v1\<lparr>v_fs := fs2, v_fd := m\<rparr>))))))"

text \<open>The loop of \<open>readdir\<close>: \<open>names\<close> are the names handed to \<open>filler\<close> so far. The block buffer is
  constructed anew in every round; a failed read leaves in it what it has written so far.\<close>

primrec readdir_blocks ::
  "nat list \<Rightarrow> env \<Rightarrow> Position \<Rightarrow> cstring list \<Rightarrow> sbfs \<Rightarrow> cstring list \<times> sbfs" where
  "readdir_blocks [] e pos names fs = (names, fs)"
| "readdir_blocks (i # js) e pos names fs =
     (let (dir_ret, dir_block, fs1) = inode_read_data (of_nat (i * sizeof_DirBlock)) (DirBlock_new (e_dirjunk e))
            (of_nat sizeof_DirBlock) (e_now e) pos fs;
          new = map (\<lambda>j. entry_name dir_block (j * sizeof_DirEntry))
            (filter (\<lambda>j. DirEntry_isValid dir_block (j * sizeof_DirEntry)) [0..<kDirEntries])
      in readdir_blocks js e pos (names @ new) fs1)"

definition sb_readdir :: "env \<Rightarrow> cstring \<Rightarrow> vfs \<Rightarrow> (int \<times> cstring list \<times> vfs) option" where
  "sb_readdir e path v =
     vfs_resolve e path v \<bind> (\<lambda>(inode, v1).
     if \<not> Inode_isValid inode then Some (- ENOENT, [], v1)
     else
       on_inode inode (\<lambda>pos fs. read_inode pos (DiskInode_new kDirectory (e_now e) (e_uid e) (e_gid e))
         (device fs)) v1 \<bind> (\<lambda>(inode_ret, disk_inode, d1).
       let v2 = v1\<lparr>v_fs := (v_fs v1)\<lparr>device := d1\<rparr>\<rparr> in
       if di_type disk_inode \<noteq> kDirectory then Some (- ENOTDIR, [], v2)
       else
         (let (names, fs3) = readdir_blocks [0..<unat (total_blocks (di_size disk_inode))] e (ino_pos inode) [] (v_fs v2)
          in Some (0, names, v2\<lparr>v_fs := fs3\<rparr>))))"

definition sb_rmdir :: "env \<Rightarrow> cstring \<Rightarrow> vfs \<Rightarrow> (int \<times> vfs) option" where
  "sb_rmdir e path v =
     (let (parent, child) = splitFromLastSlash path in
      vfs_resolve e parent v \<bind> (\<lambda>(parent_inode, v1).
      if \<not> Inode_isValid parent_inode then Some (- ENOENT, v1)
      else
        on_inode parent_inode (inode_find (e_dirjunk e) child (e_junk e) (e_now e)) v1 \<bind>
        (\<lambda>(find_ret, child_inode, fs2).
        let v2 = v1\<lparr>v_fs := fs2\<rparr> in
        if find_ret = kFail then Some (- ENOENT, v2)
        else
          on_inode child_inode (\<lambda>pos fs. read_inode pos (DiskInode_new kDirectory (e_now e) (e_uid e) (e_gid e))
            (device fs)) v2 \<bind> (\<lambda>(inode_ret, disk_inode, d3).
          let v3 = v2\<lparr>v_fs := (v_fs v2)\<lparr>device := d3\<rparr>\<rparr> in
          if di_type disk_inode \<noteq> kDirectory then Some (- ENOTDIR, v3)
          else if total_blocks (di_size disk_inode) > 1 then Some (- ENOTEMPTY, v3)
          else
            on_inode child_inode (inode_read_data 0 (DirBlock_new (e_dirjunk e)) (of_nat sizeof_DirBlock) (e_now e)) v3 \<bind>
            (\<lambda>(dir_ret, dir_block, fs4).
            let v4 = v3\<lparr>v_fs := fs4\<rparr> in
            if (\<exists>j \<in> set [0..<kDirEntries]. DirEntry_isValid dir_block (j * sizeof_DirEntry) \<and>
                  \<not> strcmp_eq dir_block (j * sizeof_DirEntry) dot \<and>
                  \<not> strcmp_eq dir_block (j * sizeof_DirEntry) dotdot)
            then Some (- ENOTEMPTY, v4)
            else
              on_inode parent_inode (inode_remove (e_dirjunk e) child (e_now e)) v4 \<bind> (\<lambda>(_, fs5).
              vfs_removePrefix path (v4\<lparr>v_fs := fs5\<rparr>) \<bind> (\<lambda>v6. Some (0, v6))))))))"

definition sb_unlink :: "env \<Rightarrow> cstring \<Rightarrow> vfs \<Rightarrow> (int \<times> vfs) option" where
  "sb_unlink e path v =
     (let (parent, child) = splitFromLastSlash path in
      vfs_resolve e parent v \<bind> (\<lambda>(parent_inode, v1).
      if \<not> Inode_isValid parent_inode then Some (- ENOENT, v1)
      else
        on_inode parent_inode (inode_find (e_dirjunk e) child (e_junk e) (e_now e)) v1 \<bind>
        (\<lambda>(find_ret, child_inode, fs2).
        let v2 = v1\<lparr>v_fs := fs2\<rparr> in
        if find_ret = kFail then Some (- ENOENT, v2)
        else
          on_inode parent_inode (inode_remove (e_dirjunk e) child (e_now e)) v2 \<bind> (\<lambda>(_, fs3).
          vfs_removePrefix path (v2\<lparr>v_fs := fs3\<rparr>) \<bind> (\<lambda>v4. Some (0, v4))))))"

definition RENAME_NOREPLACE :: u32 where
  "RENAME_NOREPLACE = 1"

definition RENAME_EXCHANGE :: u32 where
  "RENAME_EXCHANGE = 2"

text \<open>The first \<open>link\<close> of an exchange uses the default \<open>replace = false\<close>. The new parent is not tested
  for validity.\<close>

definition link_in :: "env \<Rightarrow> Inode \<Rightarrow> cstring \<Rightarrow> Inode \<Rightarrow> bool \<Rightarrow> vfs \<Rightarrow> (int \<times> sbfs) option" where
  "link_in e dir name inode replace v =
     on_inode dir (inode_link (e_dirjunk e) name inode replace (e_now e)) v \<bind> (\<lambda>res. res)"

text \<open>\<open>rename\<close> in two parts. The first one finds both directories and takes the old name out of the old one: it ends the handler
  with an error (\<open>Inl\<close>), or hands on the inodes of the two directories and of the file (\<open>Inr\<close>).\<close>

definition rename_unlink :: "env \<Rightarrow> cstring \<Rightarrow> cstring \<Rightarrow> vfs \<Rightarrow> ((int + Inode \<times> Inode \<times> Inode) \<times> vfs) option" where
  "rename_unlink e oldpath newpath v =
     (let (old_parent, old_child) = splitFromLastSlash oldpath in
      vfs_resolve e old_parent v \<bind> (\<lambda>(old_parent_inode, v1).
      if \<not> Inode_isValid old_parent_inode then Some (Inl (- ENOENT), v1)
      else
        (let (new_parent, new_child) = splitFromLastSlash newpath in
         vfs_resolve e new_parent v1 \<bind> (\<lambda>(new_parent_inode, v2).
         on_inode old_parent_inode (inode_unlink (e_dirjunk e) old_child (e_junk e) (e_now e)) v2 \<bind>
         (\<lambda>(unlink_ret, old_child_inode, fs3).
         let v3 = v2\<lparr>v_fs := fs3\<rparr> in
         if unlink_ret = kFail then Some (Inl (- ENOENT), v3)
         else Some (Inr (old_parent_inode, new_parent_inode, old_child_inode), v3))))))"

text \<open>The second part links the file under its new name.\<close>

definition rename_link :: "env \<Rightarrow> cstring \<Rightarrow> cstring \<Rightarrow> u32 \<Rightarrow> Inode \<times> Inode \<times> Inode \<Rightarrow> vfs \<Rightarrow> (int \<times> vfs) option" where
  "rename_link e oldpath newpath flags inodes v3 =
     (let (old_parent_inode, new_parent_inode, old_child_inode) = inodes;
          (_, old_child) = splitFromLastSlash oldpath; (_, new_child) = splitFromLastSlash newpath;
          replace = (flags AND RENAME_NOREPLACE = 0);
          exchange = (flags AND RENAME_EXCHANGE \<noteq> 0)
      in (if exchange then
            on_inode new_parent_inode (inode_unlink (e_dirjunk e) new_child (e_junk e) (e_now e)) v3 \<bind>
            (\<lambda>(_, new_child_inode, fs4).
             link_in e old_parent_inode old_child new_child_inode False (v3\<lparr>v_fs := fs4\<rparr>) \<bind>
             (\<lambda>(_, fs5). Some (v3\<lparr>v_fs := fs5\<rparr>)))
          else Some v3) \<bind> (\<lambda>v5.
         link_in e new_parent_inode new_child old_child_inode replace v5 \<bind> (\<lambda>(_, fs6).
         vfs_removePrefix oldpath (v5\<lparr>v_fs := fs6\<rparr>) \<bind> (\<lambda>v7.
         vfs_removePrefix newpath v7 \<bind> (\<lambda>v8. Some (0, v8))))))"

definition sb_rename :: "env \<Rightarrow> cstring \<Rightarrow> cstring \<Rightarrow> u32 \<Rightarrow> vfs \<Rightarrow> (int \<times> vfs) option" where
  "sb_rename e oldpath newpath flags v =
     rename_unlink e oldpath newpath v \<bind> (\<lambda>(res, v3).
     case res of Inl ret \<Rightarrow> Some (ret, v3) | Inr inodes \<Rightarrow> rename_link e oldpath newpath flags inodes v3)"

section \<open>Open files\<close>

definition sb_open :: "env \<Rightarrow> cstring \<Rightarrow> u64 option \<Rightarrow> vfs \<Rightarrow> (int \<times> u64 option \<times> vfs) option" where
  "sb_open e path fi v =
     vfs_resolve e path v \<bind> (\<lambda>(inode, v1).
     if \<not> Inode_isValid inode then Some (- ENOENT, fi, v1)
     else (case fi of None \<Rightarrow> None
           | Some _ \<Rightarrow> (let (fd, m) = fd_open inode (v_fd v1) in Some (0, Some fd, v1\<lparr>v_fd := m\<rparr>))))"

definition sb_release :: "u64 option \<Rightarrow> vfs \<Rightarrow> (int \<times> u64 option \<times> vfs) option" where
  "sb_release fi v =
     (case fi of None \<Rightarrow> None
      | Some fh \<Rightarrow> Some (0, Some 0, v\<lparr>v_fd := fd_close fh (v_fd v)\<rparr>))"

text \<open>\<open>offset\<close> is a 64-bit \<open>off_t\<close>, cut to 32 bits by the call of \<open>read_data\<close>.\<close>

definition sb_read ::
  "env \<Rightarrow> mem \<Rightarrow> u64 \<Rightarrow> u64 \<Rightarrow> u64 option \<Rightarrow> vfs \<Rightarrow> (int \<times> mem \<times> vfs) option" where
  "sb_read e buf sz offset fi v =
     (if sz > 0xFFFFFFFF then Some (- EINVAL, buf, v)
      else (case fi of None \<Rightarrow> None
        | Some fh \<Rightarrow>
            (case fd_get fh (v_fd v) of None \<Rightarrow> Some (- EBADF, buf, v)
             | Some inode \<Rightarrow>
                 on_inode inode (inode_read_data (ucast offset) buf (ucast sz) (e_now e)) v \<bind>
                 (\<lambda>(ret, buf1, fs1).
                  if ret = kFail then Some (- EIO, buf1, v\<lparr>v_fs := fs1\<rparr>)
                  else Some (ret, buf1, v\<lparr>v_fs := fs1\<rparr>)))))"

definition sb_write ::
  "env \<Rightarrow> mem \<Rightarrow> u64 \<Rightarrow> u64 \<Rightarrow> u64 option \<Rightarrow> vfs \<Rightarrow> (int \<times> vfs) option" where
  "sb_write e buf sz offset fi v =
     (if sz > 0xFFFFFFFF then Some (- EINVAL, v)
      else (case fi of None \<Rightarrow> None
        | Some fh \<Rightarrow>
            (case fd_get fh (v_fd v) of None \<Rightarrow> Some (- EBADF, v)
             | Some inode \<Rightarrow>
                 on_inode inode (inode_write_data (ucast offset) buf (ucast sz) (e_now e)) v \<bind>
                 (\<lambda>(ret, fs1).
                  if ret = kFail then Some (- EIO, v\<lparr>v_fs := fs1\<rparr>) else Some (ret, v\<lparr>v_fs := fs1\<rparr>)))))"

text \<open>\<open>off\<close> is signed: a negative length passes the test and is cut to 32 bits.\<close>

definition sb_truncate :: "env \<Rightarrow> cstring \<Rightarrow> u64 \<Rightarrow> u64 option \<Rightarrow> vfs \<Rightarrow> (int \<times> vfs) option" where
  "sb_truncate e path off fi v =
     (if sint off > 0xFFFFFFFF then Some (- EINVAL, v)
      else (case fi of None \<Rightarrow> None
        | Some fh \<Rightarrow>
            (case fd_get fh (v_fd v) of Some inode \<Rightarrow> Some (inode, v) | None \<Rightarrow> vfs_resolve e path v) \<bind>
            (\<lambda>(inode, v1).
             if fd_get fh (v_fd v) = None \<and> \<not> Inode_isValid inode then Some (- ENOENT, v1)
             else
               on_inode inode (inode_resize (ucast off) (e_now e)) v1 \<bind> (\<lambda>(ret, fs2).
               if ret = kFail then Some (- EIO, v1\<lparr>v_fs := fs2\<rparr>) else Some (0, v1\<lparr>v_fs := fs2\<rparr>)))))"

definition sb_fsync :: "int \<Rightarrow> u64 option \<Rightarrow> vfs \<Rightarrow> (int \<times> vfs) option" where
  "sb_fsync datasync fi v =
     (case fi of None \<Rightarrow> None
      | Some fh \<Rightarrow>
          (case fd_get fh (v_fd v) of None \<Rightarrow> Some (- EBADF, v)
           | Some inode \<Rightarrow>
               on_inode inode (inode_sync (datasync = 0)) v \<bind> (\<lambda>(ret, fs1).
               if ret = kFail then Some (- EIO, v\<lparr>v_fs := fs1\<rparr>) else Some (0, v\<lparr>v_fs := fs1\<rparr>))))"

end
