(* ===== verification/Vfs_Paths.thy ===== *)
theory Vfs_Paths
  imports Name_Tree Path_Lookup Dir_Unlink Vfs
begin

text \<open>
  The invariant of the running program (\<open>vfs_inv\<close>): a well-formed file system whose names form a tree, and a
  path cache that agrees with it. Under this invariant \<open>resolve\<close>, with its cache, its string handling and
  its directory scans, computes the lookup in the tree of names.
\<close>

section \<open>Paths as strings\<close>

definition comp_ok :: "cstring \<Rightarrow> bool" where
  "comp_ok n \<longleftrightarrow> name_ok n \<and> slash \<notin> set n \<and> plain n"

definition path_of :: "cstring list \<Rightarrow> cstring" where
  "path_of ps = concat (map (\<lambda>p. slash # p) ps)"

text \<open>Lists of components, and the strings that name them, with or without a slash at the end. The length of a path
  is far above what the kernel passes on.\<close>

definition path_ok :: "cstring list \<Rightarrow> bool" where
  "path_ok ps \<longleftrightarrow> (\<forall>p \<in> set ps. comp_ok p) \<and> length (path_of ps) + 1 < 2 ^ 23"

definition names_path :: "cstring \<Rightarrow> cstring list \<Rightarrow> bool" where
  "names_path path ps \<longleftrightarrow> path_ok ps \<and> (path = path_of ps \<and> ps \<noteq> [] \<or> path = path_of ps @ [slash])"

lemma path_of_join: "ps \<noteq> [] \<Longrightarrow> path_of ps = slash # join slash ps"
  by (induction ps) (auto simp: path_of_def)

lemma path_of_snoc [simp]: "path_of (ps @ [n]) = path_of ps @ slash # n"
  by (simp add: path_of_def)

lemma rfind_last:
  assumes "c \<notin> set ys"
  shows "rfind_char c (xs @ c # ys) = Some (length xs)"
  unfolding rfind_char_def find_Some_iff
proof (intro exI[of _ "length ys"] conjI allI impI)
  let ?s = "xs @ c # ys"
  have n: "rev [0..<length ?s] ! i = length ?s - Suc i" if "i < length ?s" for i using that by (simp add: rev_nth del: upt_Suc)
  then show "length ys < length (rev [0..<length ?s])" "?s ! (rev [0..<length ?s] ! length ys) = c" "length xs = rev [0..<length ?s] ! length ys"
    using n[of "length ys"] by (simp_all del: upt_Suc)
  fix j assume j: "j < length ys"
  then have "rev [0..<length ?s] ! j = length xs + Suc (length ys - Suc j)" using n[of j] by (simp del: upt_Suc)
  then have "?s ! (rev [0..<length ?s] ! j) = ys ! (length ys - Suc j)" by (simp only: nth_append_length_plus nth_Cons_Suc)
  moreover have "ys ! (length ys - Suc j) \<in> set ys" using j by simp
  ultimately show "?s ! (rev [0..<length ?s] ! j) \<noteq> c" using assms by metis
qed

lemma removeEndSlash_cases:
  "removeEndSlash (xs @ [slash]) = xs"
  "slash \<notin> set n \<Longrightarrow> n \<noteq> [] \<Longrightarrow> removeEndSlash (xs @ slash # n) = xs @ slash # n"
  using rfind_last[of slash "[]" xs] rfind_last[of slash n xs] by (simp_all add: removeEndSlash_def)

lemma names_path_parts:
  assumes "names_path path ps" "path \<noteq> [slash]"
  shows "ps \<noteq> []" "no_both_slash path = Some (join slash ps)" "split_path (join slash ps) slash False = ps"
    "path \<noteq> []" "hd path = slash"
proof -
  show ne: "ps \<noteq> []" using assms by (auto simp: names_path_def path_of_def)
  have ok: "\<forall>p \<in> set ps. comp_ok p" using assms(1) by (simp add: names_path_def path_ok_def)
  obtain qs n where ps: "ps = qs @ [n]" using ne by (cases ps rule: rev_cases) auto
  have n: "n \<noteq> []" "slash \<notin> set n" using ok ps by (simp_all add: comp_ok_def name_ok_def)
  have p: "path = path_of ps \<or> path = path_of ps @ [slash]" using assms(1) by (auto simp: names_path_def)
  have "removeEndSlash (path_of ps) = path_of ps" unfolding ps path_of_snoc using removeEndSlash_cases(2) n by blast
  moreover have "removeEndSlash (path_of ps @ [slash]) = path_of ps" by (rule removeEndSlash_cases(1))
  ultimately have "removeEndSlash path = path_of ps" using p by blast
  then show "no_both_slash path = Some (join slash ps)" by (simp add: no_both_slash_def substr1_def path_of_join[OF ne])
  show "split_path (join slash ps) slash False = ps"
    by (rule join_inj[of slash]) (use split_facts ne ok in \<open>auto simp: comp_ok_def\<close>)
  show "path \<noteq> []" "hd path = slash" using p path_of_join[OF ne] by auto
qed

lemma names_path_root: "names_path [slash] ps \<Longrightarrow> ps = []"
  by (cases ps) (auto simp: names_path_def path_ok_def path_of_def comp_ok_def name_ok_def)

lemma split_parent:
  assumes "path_ok (ps @ [n])"
  shows "splitFromLastSlash (path_of (ps @ [n])) = (path_of ps @ [slash], n)" "names_path (path_of ps @ [slash]) ps"
  using rfind_last[of slash n "path_of ps"] assms by (auto simp: splitFromLastSlash_def comp_ok_def names_path_def path_ok_def)

section \<open>The invariant\<close>

abbreviation inode_of :: "sbfs \<Rightarrow> u32 \<Rightarrow> Inode" where
  "inode_of fs k \<equiv> \<lparr>ino_pos = getDiskInodePos k fs, ino_fs = True\<rparr>"

definition root_id :: "sbfs \<Rightarrow> u32" where
  "root_id fs = getDiskInodeId (ino_pos (fs_root fs)) fs"

definition cache_ok :: "sbfs \<Rightarrow> path_cache \<Rightarrow> bool" where
  "cache_ok fs c \<longleftrightarrow> (\<forall>(key, i) \<in> inodes_of c. (\<forall>n \<in> set (split_path key slash False). comp_ok n) \<and>
     (\<exists>k. lookup (contents fs) (split_path key slash False) (root_id fs) = Some k \<and> i = inode_of fs k))"

text \<open>Every inode has one link: no handler makes a second one.\<close>

definition links_one :: "sbfs \<Rightarrow> bool" where
  "links_one fs \<longleftrightarrow> (\<forall>i a. attrs fs i = Some a \<longrightarrow> snd (snd (snd a)) = 1)"

definition vfs_inv :: "vfs \<Rightarrow> bool" where
  "vfs_inv v \<longleftrightarrow> fs_inv (v_fs v) \<and> fs_root (v_fs v) = inode_of (v_fs v) (root_id (v_fs v)) \<and>
     name_tree (contents (v_fs v)) (root_id (v_fs v)) \<and> pr_inv (v_path v) \<and> cache_ok (v_fs v) (path_cache (v_path v)) \<and>
     links_one (v_fs v)"

lemma fs_device_simps [simp]:
  "getDiskInodePos k (fs\<lparr>device := d\<rparr>) = getDiskInodePos k fs" "fs_root (fs\<lparr>device := d\<rparr>) = fs_root fs"
  "root_id (fs\<lparr>device := d\<rparr>) = root_id fs"
  by (simp_all add: getDiskInodePos_def fs_root_def root_id_def getDiskInodeId_def)

lemma pr_inv_ok: "pr_inv pr \<Longrightarrow> pr_ok pr"
  by (cases "path_cache pr") (auto simp: pr_inv_def pr_ok_def cache_sorted_def iter_ok_def)

lemma vfs_invD:
  assumes "vfs_inv v"
  shows "fs_inv (v_fs v)" "fs_root (v_fs v) = inode_of (v_fs v) (root_id (v_fs v))"
    "name_tree (contents (v_fs v)) (root_id (v_fs v))" "pr_ok (v_path v)" "cache_ok (v_fs v) (path_cache (v_path v))"
    "dirs_ok (contents (v_fs v))" "root_id (v_fs v) \<in> dom (contents (v_fs v))" "links_one (v_fs v)"
    "pr_inv (v_path v)"
proof -
  show "pr_ok (v_path v)" using assms pr_inv_ok by (simp add: vfs_inv_def)
  show t: "name_tree (contents (v_fs v)) (root_id (v_fs v))" using assms by (simp add: vfs_inv_def)
  show "dirs_ok (contents (v_fs v))" "root_id (v_fs v) \<in> dom (contents (v_fs v))" by (rule name_treeD[OF t])+
qed (use assms in \<open>simp_all add: vfs_inv_def\<close>)

lemma inode_of_valid:
  assumes "fs_inv fs" "k \<in> dom (contents fs)"
  shows "Inode_isValid (inode_of fs k)"
proof -
  have k: "k \<in> live fs" using assms(2) by (auto simp: contents_def files_def split: if_splits)
  note l = fs_invD(1)[OF assms(1)]
  have "unat (pos_block_id (getDiskInodePos k fs)) < dev_blocks (device fs)" "dev_blocks (device fs) < 2 ^ 32"
    using pos_ok_used(1)[OF lay_bitmaps(1)[OF l] pos_valid(2)[OF l fs_invD(5)[OF assms(1) k]]] lay_facts(9)[OF l] by simp_all
  then have "unat (pos_block_id (getDiskInodePos k fs)) < 2 ^ 32 - 1" by simp
  moreover have "unat (- 1 :: u32) = 2 ^ 32 - 1" by (simp add: unsigned_minus_1_eq_mask mask_eq_exp_minus_1)
  ultimately show ?thesis by (auto simp: Inode_isValid_def Position_isValid_def)
qed

section \<open>Resolving a path is a lookup in the tree\<close>

definition res_inode :: "sbfs \<Rightarrow> u32 option \<Rightarrow> Inode" where
  "res_inode fs r = (case r of None \<Rightarrow> Inode_invalid | Some k \<Rightarrow> inode_of fs k)"

lemma walk_lookup:
  assumes "fs_inv fs" "dirs_ok (contents fs)" "k \<in> dom (contents fs)" "\<forall>n \<in> set ns. name_ok n"
  shows "\<exists>fs1. walk ns dirjunk now (inode_of fs k) fs = Some (res_inode fs (lookup (contents fs) ns k), fs1)"
  using assms
proof (induction ns arbitrary: k fs)
  case Nil
  then show ?case by (simp add: res_inode_def)
next
  case (Cons n ns)
  obtain t bs where c: "contents fs k = Some (t, bs)" using Cons.prems(3) by auto
  have d: "dir_of (contents fs) k = (if t = kDirectory then entries bs else [])" by (simp add: dir_of_def c)
  have ok: "t = kDirectory \<Longrightarrow> 256 dvd length bs \<and> length bs + 8192 < 2 ^ 31" using dirs_okD(1)[OF Cons.prems(2)] c by simp
  have nm: "name_ok n" using Cons.prems(4) by simp
  obtain fs1 where f: "inode_find dirjunk n Inode_invalid now (getDiskInodePos k fs) fs =
      (case if t = kDirectory then map_of (entries bs) n else None of None \<Rightarrow> (kFail, Inode_invalid, fs1)
       | Some j \<Rightarrow> (kSuccess, inode_of fs j, fs1))" "fs_inv fs1" "contents fs1 = contents fs" "fs1 = fs\<lparr>device := device fs1\<rparr>"
    using inode_find_ok[OF Cons.prems(1) c nm ok, of dirjunk Inode_invalid now] by blast
  show ?case
  proof (cases "map_of (dir_of (contents fs) k) n")
    case None
    then show ?thesis using f(1) by (simp add: find_in_def d res_inode_def split: if_splits)
  next
    case (Some j)
    have j: "j \<in> dom (contents fs1)" unfolding f(3) by (rule dirs_okD(3)[OF Cons.prems(2) Some])
    have pos: "getDiskInodePos i fs1 = getDiskInodePos i fs" for i by (subst f(4)) simp
    have "find_in dirjunk n now (inode_of fs k) fs = Some (kSuccess, inode_of fs j, fs1)"
      using f(1) Some by (simp add: find_in_def d split: if_splits)
    moreover have "\<exists>fs2. walk ns dirjunk now (inode_of fs1 j) fs1 = Some (res_inode fs1 (lookup (contents fs1) ns j), fs2)"
      by (rule Cons.IH[OF f(2) _ j]) (use Cons.prems(2,4) f(3) in simp_all)
    moreover have "kSuccess \<noteq> kFail" by (simp add: kSuccess_def kFail_def)
    moreover have "res_inode fs1 = res_inode fs" by (rule ext) (simp add: res_inode_def pos split: option.splits)
    ultimately show ?thesis using Some f(3) by (simp add: pos)
  qed
qed

lemma cache_coherent:
  assumes "vfs_inv v"
  shows "coherent dirjunk now (path_cache (v_path v)) (v_fs v)"
  unfolding coherent_def
proof (intro ballI, clarify)
  fix key i assume e: "(key, i) \<in> inodes_of (path_cache (v_path v))"
  note inv = vfs_invD[OF assms]
  obtain k where k: "\<forall>n \<in> set (split_path key slash False). comp_ok n"
    "lookup (contents (v_fs v)) (split_path key slash False) (root_id (v_fs v)) = Some k" "i = inode_of (v_fs v) k"
    using inv(5) e unfolding cache_ok_def by blast
  have "\<forall>n \<in> set (split_path key slash False). name_ok n" using k(1) by (simp add: comp_ok_def)
  from walk_lookup[OF inv(1,6,7) this, of dirjunk now]
  show "ino_fs i \<and> (\<exists>fs1. walk (split_path key slash False) dirjunk now (fs_root (v_fs v)) (v_fs v) = Some (i, fs1))"
    using k(2,3) inv(2) by (simp add: res_inode_def)
qed

lemma fs_twin_kept:
  assumes "fs_inv fs" "fs_twin fs g"
  shows "fs_inv g" "contents g = contents fs" "getDiskInodePos k g = getDiskInodePos k fs" "fs_root g = fs_root fs"
    "root_id g = root_id fs" "g = fs\<lparr>device := device g\<rparr>" "dev_view (device g) = dev_view (device fs)"
    "attrs g = attrs fs" "files g = files fs" "live g = live fs"
proof -
  have g: "g = fs\<lparr>device := device g\<rparr>" "twin (device fs) (device g)" using assms(2) by (simp_all add: fs_twin_def)
  show "g = fs\<lparr>device := device g\<rparr>" "dev_view (device g) = dev_view (device fs)" using g by (simp_all add: twin_def)
  have "fs_inv (fs\<lparr>device := device g\<rparr>)" "contents (fs\<lparr>device := device g\<rparr>) = contents fs"
    "files (fs\<lparr>device := device g\<rparr>) = files fs" "live (fs\<lparr>device := device g\<rparr>) = live fs"
    using fs_inv_agree[OF assms(1), of "device g"] g(2) by (simp_all add: twin_def)
  then show "fs_inv g" "contents g = contents fs" and f: "files g = files fs" and "live g = live fs" using g(1) by metis+
  show "attrs g = attrs fs" by (rule ext) (simp add: attrs_def f)
  show "getDiskInodePos k g = getDiskInodePos k fs" "fs_root g = fs_root fs" "root_id g = root_id fs" by (subst g(1), simp)+
qed

lemma resolve_ok:
  assumes inv: "vfs_inv v" and p: "names_path path ps"
  obtains pr' fs' where "resolve dirjunk now path (v_path v) (v_fs v) =
      Some (res_inode (v_fs v) (lookup (contents (v_fs v)) ps (root_id (v_fs v))), pr', fs')"
    "fs_twin (v_fs v) fs'" "pr_inv pr'" "cache_ok fs' (path_cache pr')"
proof -
  note i = vfs_invD[OF inv]
  let ?fs = "v_fs v"
  have dev: "dev_ok (device ?fs)" by (rule lay_facts(10)[OF fs_invD(1)[OF i(1)]])
  obtain ino pr' fs' fs'' where r: "resolve dirjunk now path (v_path v) ?fs = Some (ino, pr', fs')"
    "resolveNoCache dirjunk now path ?fs = Some (ino, fs'')" "fs_twin ?fs fs'" "pr_ok pr'"
    "coherent dirjunk now (path_cache pr') fs'"
    "\<forall>k \<in> fst ` inodes_of (path_cache pr'). k \<in> fst ` inodes_of (path_cache (v_path v)) \<or>
        (\<exists>s n. path \<noteq> [slash] \<and> no_both_slash path = Some s \<and> n < length (split_path s slash False) \<and>
           split_path k slash False = take (Suc n) (split_path s slash False))"
    using resolve_cache_ok[OF dev i(4) cache_coherent[OF inv, of dirjunk now], of path] by blast
  note t = fs_twin_kept[OF i(1) r(3)]
  have ok: "\<forall>p \<in> set ps. comp_ok p" using p by (simp add: names_path_def path_ok_def)
  then have nm: "\<forall>p \<in> set ps. name_ok p" by (simp add: comp_ok_def)
  have ino: "ino = res_inode ?fs (lookup (contents ?fs) ps (root_id ?fs))"
  proof (cases "path = [slash]")
    case True
    then show ?thesis using r(2) names_path_root[of ps] p i(2) by (auto simp: resolveNoCache_def res_inode_def)
  next
    case False
    note s = names_path_parts[OF p False]
    show ?thesis using r(2) walk_lookup[OF i(1,6,7) nm, of dirjunk now] False s i(2) by (auto simp: resolveNoCache_def)
  qed
  have "cache_ok fs' (path_cache pr')"
    unfolding cache_ok_def
  proof (intro ballI, clarify)
    fix key j assume e: "(key, j) \<in> inodes_of (path_cache pr')"
    define ns where "ns = split_path key slash False"
    have "key \<in> fst ` inodes_of (path_cache pr')" using e by force
    from bspec[OF r(6) this] have cs: "\<forall>n \<in> set ns. comp_ok n"
    proof (elim disjE exE conjE)
      assume "key \<in> fst ` inodes_of (path_cache (v_path v))"
      then show ?thesis using i(5) unfolding cache_ok_def ns_def by auto
    next
      fix s n assume s: "path \<noteq> [slash]" "no_both_slash path = Some s" "split_path key slash False = take (Suc n) (split_path s slash False)"
      have "ns = take (Suc n) ps" using names_path_parts(2,3)[OF p s(1)] s(2,3) by (simp add: ns_def)
      then show ?thesis using ok by (meson in_set_takeD)
    qed
    obtain fs1 where w: "ino_fs j" "walk ns dirjunk now (fs_root fs') fs' = Some (j, fs1)"
      using r(5) e unfolding coherent_def ns_def by blast
    have "\<forall>n \<in> set ns. name_ok n" using cs by (simp add: comp_ok_def)
    from walk_lookup[OF t(1) _ _ this, of "root_id fs'" dirjunk now] have "j = res_inode fs' (lookup (contents fs') ns (root_id fs'))"
      using i(2,6,7) w(2) by (simp add: t(2-5))
    then have "\<exists>k. lookup (contents fs') ns (root_id fs') = Some k \<and> j = inode_of fs' k"
      using w(1) by (auto simp: res_inode_def Inode_invalid_def split: option.splits)
    with cs show "(\<forall>n \<in> set (split_path key slash False). comp_ok n) \<and>
        (\<exists>k. lookup (contents fs') (split_path key slash False) (root_id fs') = Some k \<and> j = inode_of fs' k)"
      by (simp add: ns_def)
  qed
  moreover have "length path < 2 ^ 23" using p by (auto simp: names_path_def path_ok_def)
  from resolve_inv[OF i(9) this r(1)] have "pr_inv pr'" .
  ultimately show ?thesis using that[OF r(1)[unfolded ino] r(3)] by blast
qed

lemma vfs_resolve_ok:
  assumes inv: "vfs_inv v" and p: "names_path path ps"
  obtains v' where "vfs_resolve e path v = Some (res_inode (v_fs v) (lookup (contents (v_fs v)) ps (root_id (v_fs v))), v')"
    "vfs_inv v'" "fs_twin (v_fs v) (v_fs v')" "v_fd v' = v_fd v"
proof -
  obtain pr' fs' where r: "resolve (e_dirjunk e) (e_now e) path (v_path v) (v_fs v) =
      Some (res_inode (v_fs v) (lookup (contents (v_fs v)) ps (root_id (v_fs v))), pr', fs')"
    "fs_twin (v_fs v) fs'" "pr_inv pr'" "cache_ok fs' (path_cache pr')"
    by (rule resolve_ok[OF assms])
  note i = vfs_invD[OF inv] and t = fs_twin_kept[OF vfs_invD(1)[OF inv] r(2)]
  show ?thesis
    by (rule that[of "v\<lparr>v_path := pr', v_fs := fs'\<rparr>"])
      (use r i t(1-5,8) in \<open>simp_all add: vfs_resolve_def vfs_inv_def links_one_def\<close>)
qed

section \<open>The initial state\<close>

lemma name_tree_root:
  assumes "entries bs = [(dot, r), (dotdot, r)]" "length bs = 512"
  shows "name_tree [r \<mapsto> (kDirectory, bs)] r"
proof -
  have d: "dir_of [r \<mapsto> (kDirectory, bs)] p = (if p = r then [(dot, r), (dotdot, r)] else [])" for p
    using assms(1) by (simp add: dir_of_def)
  have e: "\<not> edge [r \<mapsto> (kDirectory, bs)] p n j" for p n j by (auto simp: edge_def plain_def d split: if_splits)
  have "dirs_ok [r \<mapsto> (kDirectory, bs)]" unfolding dirs_ok_def d using assms(2) by (auto simp: dot_def dotdot_def split: if_splits)
  moreover have "dots_ok [r \<mapsto> (kDirectory, bs)] r" by (auto simp: dots_ok_def d dot_def dotdot_def split: if_splits)
  ultimately show ?thesis by (auto simp: name_tree_def e)
qed

lemma pr_new: "pr_inv (PathResolver_new (of_nat kPathCacheSize))" "inodes_of (path_cache (PathResolver_new n)) = {}"
  by (simp_all add: pr_inv_def PathResolver_new_def inodes_of_def)

lemma fresh_vfs:
  assumes "create_args dk sz tot ibb" "v_fs v = fs_create cjunk dirjunk now uid gid fs0 dk sz tot ibb"
    and "v_path v = PathResolver_new (of_nat kPathCacheSize)"
  shows "vfs_inv v" "\<exists>bs. contents (v_fs v) = [root_id (v_fs v) \<mapsto> (kDirectory, bs)] \<and> entries bs = [(dot, root_id (v_fs v)), (dotdot, root_id (v_fs v))]"
    "root_id (v_fs v) = inode_area_start_block (v_fs v)"
proof -
  let ?fs = "v_fs v"
  note c = create_ok[OF assms(1,2)]
  show r: "root_id ?fs = inode_area_start_block ?fs" by (simp add: root_id_def c(2) getDiskInodeId_pos)
  have root: "fs_root ?fs = inode_of ?fs (root_id ?fs)" unfolding r c(2)[symmetric] by (simp add: fs_root_def)
  obtain bs where bs: "contents ?fs = [root_id ?fs \<mapsto> (kDirectory, bs)]" "entries bs = [(dot, root_id ?fs), (dotdot, root_id ?fs)]" "length bs = 512"
    using c(3) r by auto
  then show "\<exists>bs. contents ?fs = [root_id ?fs \<mapsto> (kDirectory, bs)] \<and> entries bs = [(dot, root_id ?fs), (dotdot, root_id ?fs)]" by blast
  have "files ?fs j = (if j = root_id ?fs then Some (root_inode now uid gid (data_area_start_block ?fs)) else None)" for j
    using fun_cong[OF bs(1), of j] c(10) r by (auto simp: contents_def files_def split: if_splits)
  then have "links_one ?fs" by (auto simp: links_one_def attrs_def attr_of_def root_inode_def DiskInode_new_def Let_def split: if_splits)
  then show "vfs_inv v"
    using c(1) root name_tree_root[OF bs(2,3)] pr_new(1) pr_new(2)[of "of_nat kPathCacheSize"] assms(3) by (simp add: vfs_inv_def bs(1) cache_ok_def)
qed

definition new_env :: env where
  "new_env = \<lparr>e_now = 0, e_uid = 0, e_gid = 0, e_dirjunk = zero_block, e_junk = Inode_invalid\<rparr>"

lemma config_args:
  assumes "no_faults dk" "dk_blocks dk = 0"
  shows "create_args dk kDiskSize (of_nat kFSDataBlocks) (of_nat kInodeBitmapBlocks)"
  using assms by (simp add: create_args_def const_defs)

text \<open>Starting the program on an empty disk file with the sizes of \<open>config.h\<close> gives a state with the invariant, whose
  only file is the root directory.\<close>

theorem init_establishes:
  assumes "no_faults dk" "dk_blocks dk = 0" "init_vfs e cjunk fs0 dk st kDiskSize False = r"
  shows "\<exists>v. r = Some v \<and> vfs_inv v \<and> (\<exists>bs. contents (v_fs v) = [root_id (v_fs v) \<mapsto> (kDirectory, bs)] \<and>
     entries bs = [(dot, root_id (v_fs v)), (dotdot, root_id (v_fs v))])"
proof -
  from fresh_vfs[OF config_args[OF assms(1,2)], of "the r" cjunk "e_dirjunk e" "e_now e" "e_uid e" "e_gid e" fs0]
  show ?thesis using assms(3) by (auto simp: init_vfs_def)
qed

theorem init_establishes_witness:
  "\<exists>v. init_vfs new_env (\<lambda>_. zero_block) blank_fs empty_disk None kDiskSize False = Some v \<and> vfs_inv v"
  using init_establishes[of empty_disk, OF _ _ refl] by (fastforce simp: empty_disk_def no_faults_def)

definition new_vfs :: vfs where
  "new_vfs = \<lparr>v_fs = new_fs, v_path = PathResolver_new (of_nat kPathCacheSize), v_fd = FDManager_new\<rparr>"

lemma new_vfs_ok: "vfs_inv new_vfs" "root_id new_fs = 2"
  using fresh_vfs(1,3)[OF new_args, of new_vfs] new_facts(2) by (simp_all add: new_vfs_def new_fs_def)

text \<open>C22: in a state with the invariant, resolving a path gives the inode that its components lead to from the root,
  through the entries of the directories, or an invalid inode if there is none. It keeps the invariant, changes
  no file, and the path cache, whatever it holds, makes no difference.\<close>

theorem resolve_refines:
  assumes "vfs_inv v" "names_path path ps"
  shows "\<exists>v'. vfs_resolve e path v = Some (case lookup (contents (v_fs v)) ps (root_id (v_fs v)) of None \<Rightarrow> Inode_invalid
       | Some k \<Rightarrow> \<lparr>ino_pos = getDiskInodePos k (v_fs v), ino_fs = True\<rparr>, v') \<and>
     vfs_inv v' \<and> contents (v_fs v') = contents (v_fs v) \<and> v_fd v' = v_fd v"
  by (rule vfs_resolve_ok[OF assms, of e]) (use fs_twin_kept(2)[OF vfs_invD(1)[OF assms(1)]] in \<open>auto simp: res_inode_def\<close>)

theorem resolve_refines_witness:
  "\<exists>v'. vfs_resolve new_env [slash, 0x61] new_vfs =
     Some (Inode_invalid, v') \<and> contents (v_fs v') = contents new_fs"
proof -
  obtain bs where b: "contents new_fs = [2 \<mapsto> (kDirectory, bs)]" "entries bs = [(dot, 2), (dotdot, 2)]" "length bs = 512"
    by (rule new_root)
  have p: "names_path [slash, 0x61] [[0x61]]"
    by (simp add: names_path_def path_ok_def comp_ok_def path_of_def name_ok_def kMaxDirNameLength_def slash_def plain_def dot_def dotdot_def)
  have "lookup (contents (v_fs new_vfs)) [[0x61]] (root_id (v_fs new_vfs)) = None"
    using new_vfs_ok(2) b by (simp add: new_vfs_def dir_of_def dot_def dotdot_def)
  then show ?thesis using resolve_refines[OF new_vfs_ok(1) p, of new_env] by (auto simp: new_vfs_def)
qed

section \<open>Without the cache\<close>

text \<open>C36: with a cache that agrees with the directories, \<open>resolve\<close> never fails to return, gives the same
  inode as the lookup without a cache, leaves the file system as it was and the cache in agreement
  and in order.\<close>

theorem resolve_cache_transparent:
  assumes "dev_ok (device fs)" "pr_ok pr" "coherent dirjunk now (path_cache pr) fs"
  shows "\<exists>i pr' fs' fs''. resolve dirjunk now path pr fs = Some (i, pr', fs') \<and>
     resolveNoCache dirjunk now path fs = Some (i, fs'') \<and> fs_twin fs fs' \<and> pr_ok pr' \<and>
     coherent dirjunk now (path_cache pr') fs'"
  using resolve_cache_ok[OF assms, of path] by blast

text \<open>A cache with the entry \<open>"."\<close> of the root, and no room for more.\<close>

definition dot_cache :: PathResolver where
  "dot_cache = \<lparr>path_cache = [(dot, \<lparr>pcv_inode = fs_root new_fs, visited = True\<rparr>)], clock_iter = None,
     cur_cache_size = 0, max_cache_size = 100\<rparr>"

lemma dot_found:
  obtains fs' where "inode_find zero_block dot Inode_invalid 0 (ino_pos (fs_root new_fs)) new_fs = (kSuccess, fs_root new_fs, fs')"
proof -
  obtain bs where b: "contents new_fs = [2 \<mapsto> (kDirectory, bs)]" "entries bs = [(dot, 2), (dotdot, 2)]" "length bs = 512"
    by (rule new_root)
  have c: "contents new_fs 2 = Some (kDirectory, bs)" by (simp add: b(1))
  have "256 dvd length bs" "length bs + 8192 < 2 ^ 31" by (simp_all add: b(3))
  moreover have root: "fs_root new_fs = inode_of new_fs 2" using vfs_invD(2)[OF new_vfs_ok(1)] new_vfs_ok(2) by (simp add: new_vfs_def)
  moreover have "map_of (entries bs) dot = Some 2" by (simp add: b(2))
  ultimately show ?thesis using inode_find_ok[OF new_ok(1) c name_ok_dots(1), of zero_block Inode_invalid 0] that by auto
qed

lemma dot_paths: "split_path [46, slash, 46] slash False = [dot, dot]" "split_path [46, slash, 46] slash True = [dot, [46, slash, 46]]"
   "split_path dot slash False = [dot]"
  by (subst split_path_def, (subst split_loop.simps, simp add: find_char_def slash_def dot_def upt_rec)+)+


lemma dot_coherent: "dev_ok (device new_fs)" "pr_ok dot_cache" "coherent zero_block 0 (path_cache dot_cache) new_fs"
proof -
  obtain fs' where f: "inode_find zero_block dot Inode_invalid 0 (ino_pos (fs_root new_fs)) new_fs = (kSuccess, fs_root new_fs, fs')" by (rule dot_found)
  have r: "ino_fs (fs_root new_fs)" by (simp add: fs_root_def)
  show "coherent zero_block 0 (path_cache dot_cache) new_fs"
    using f r by (simp add: coherent_def inodes_of_def dot_cache_def dot_paths find_in_def kSuccess_def kFail_def)
qed (use lay_facts(10)[OF fs_invD(1)[OF new_ok(1)]] in \<open>simp_all add: dot_cache_def pr_ok_def cache_sorted_def iter_ok_def\<close>)

text \<open>The walk starts at the cached entry of the first component, and the entry of the second one takes its place.\<close>

lemma dot_run:
  obtains fs' where "resolve zero_block 0 [slash, 46, slash, 46] dot_cache new_fs =
     Some (fs_root new_fs, \<lparr>path_cache = [([46, slash, 46], \<lparr>pcv_inode = fs_root new_fs, visited = True\<rparr>)], clock_iter = None,
       cur_cache_size = 57, max_cache_size = 100\<rparr>, fs')"
proof -
  obtain fs' where f: "inode_find zero_block dot Inode_invalid 0 (ino_pos (fs_root new_fs)) new_fs = (kSuccess, fs_root new_fs, fs')" by (rule dot_found)
  have r: "ino_fs (fs_root new_fs)" by (simp add: fs_root_def)
  have n: "no_both_slash [slash, 46, slash, 46] = Some [46, slash, 46]"
    by (simp add: no_both_slash_def removeEndSlash_def substr1_def rfind_char_def slash_def upt_rec)
  have sp: "clock_spin [(dot, \<lparr>pcv_inode = fs_root new_fs, visited = True\<rparr>)] dot = Some ([(dot, \<lparr>pcv_inode = fs_root new_fs, visited = False\<rparr>)], dot)"
    by (subst clock_spin.simps, simp add: set_visited_def iter_next_def iter_succ_def, subst clock_spin.simps, simp)
  have ev: "evict_loop (- 41) 0 [(dot, \<lparr>pcv_inode = fs_root new_fs, visited = True\<rparr>)] None = Some (57, [], None)"
    by (subst evict_loop.simps, simp add: word_gt_0 sp cache_erase_def iter_succ_def entry_size_def dot_def[symmetric], subst evict_loop.simps, simp add: dot_def)
  have "cache_insert [46, slash, 46] (fs_root new_fs) dot_cache = Some \<lparr>path_cache = [([46, slash, 46], \<lparr>pcv_inode = fs_root new_fs, visited = True\<rparr>)], clock_iter = None,
       cur_cache_size = 57, max_cache_size = 100\<rparr>"
    using ev by (simp add: word_gt_0 cache_insert_def dot_cache_def entry_size_def evict_def)
  moreover have "dot \<noteq> [46, slash, 46]" "[46, slash, 46] \<noteq> dot" by (simp_all add: dot_def)
  ultimately show ?thesis using that f r n
    by (simp add: resolve_def Let_def dot_paths find_in_def dot_cache_def set_visited_def kSuccess_def kFail_def upt_rec)
qed

theorem resolve_cache_transparent_witness:
  "\<exists>pr fs' fs''. map fst (path_cache dot_cache) = [dot] \<and> map fst (path_cache pr) = [[46, slash, 46]] \<and>
     resolve zero_block 0 [slash, 46, slash, 46] dot_cache new_fs = Some (inode_of new_fs 2, pr, fs') \<and>
     resolveNoCache zero_block 0 [slash, 46, slash, 46] new_fs = Some (inode_of new_fs 2, fs'') \<and> coherent zero_block 0 (path_cache pr) fs'"
proof -
  obtain fs1 where r: "resolve zero_block 0 [slash, 46, slash, 46] dot_cache new_fs =
     Some (fs_root new_fs, \<lparr>path_cache = [([46, slash, 46], \<lparr>pcv_inode = fs_root new_fs, visited = True\<rparr>)], clock_iter = None,
       cur_cache_size = 57, max_cache_size = 100\<rparr>, fs1)" by (rule dot_run)
  have root: "fs_root new_fs = inode_of new_fs 2" using vfs_invD(2)[OF new_vfs_ok(1)] new_vfs_ok(2) by (simp add: new_vfs_def)
  have "map fst (path_cache dot_cache) = [dot]" by (simp add: dot_cache_def)
  then show ?thesis
    using resolve_cache_transparent[OF dot_coherent, of "[slash, 46, slash, 46]"] r root by auto
qed

end
