(* ===== verification/Vfs_Refine.thy ===== *)
theory Vfs_Refine
  imports Vfs_Paths
begin

text \<open>
  The handlers of \<open>src/vfs.cpp\<close> on the tree of names: which file each of them creates, removes, reads or
  writes, by path or by handle, and that every one of them keeps the invariant.
\<close>

section \<open>Changing the file system under the invariant\<close>

lemma vfs_inv_fd [simp]: "vfs_inv (v\<lparr>v_fd := m\<rparr>) = vfs_inv v" "vfs_inv (v\<lparr>v_fs := fs, v_fd := m\<rparr>) = vfs_inv (v\<lparr>v_fs := fs\<rparr>)"
  by (simp_all add: vfs_inv_def)

lemma fs_device_eq:
  assumes "fs' = fs\<lparr>device := device fs'\<rparr>"
  shows "getDiskInodePos k fs' = getDiskInodePos k fs" "fs_root fs' = fs_root fs" "root_id fs' = root_id fs"
  by (subst assms, simp)+

text \<open>The cache \<open>c\<close> holds entries of the cache before; every path it still knows leads where it led before.\<close>

lemma vfs_inv_update:
  assumes inv: "vfs_inv v" and fs': "fs_inv fs'" "fs' = (v_fs v)\<lparr>device := device fs'\<rparr>"
    and t: "name_tree (contents fs') (root_id (v_fs v))" "links_one fs'"
    and pr: "v_fs v' = fs'" "pr_inv (v_path v')" "inodes_of (path_cache (v_path v')) \<subseteq> inodes_of (path_cache (v_path v))"
    and keep: "\<And>key i k. (key, i) \<in> inodes_of (path_cache (v_path v')) \<Longrightarrow> \<forall>n \<in> set (split_path key slash False). comp_ok n \<Longrightarrow>
      lookup (contents (v_fs v)) (split_path key slash False) (root_id (v_fs v)) = Some k \<Longrightarrow>
      lookup (contents fs') (split_path key slash False) (root_id (v_fs v)) = Some k"
  shows "vfs_inv v'"
proof -
  note i = vfs_invD[OF inv] and e = fs_device_eq[OF fs'(2)]
  have "cache_ok fs' (path_cache (v_path v'))"
    unfolding cache_ok_def e
  proof (intro ballI, clarify)
    fix key j assume k: "(key, j) \<in> inodes_of (path_cache (v_path v'))"
    then obtain x where x: "\<forall>n \<in> set (split_path key slash False). comp_ok n" "j = inode_of (v_fs v) x"
      "lookup (contents (v_fs v)) (split_path key slash False) (root_id (v_fs v)) = Some x"
      using i(5) pr(3) unfolding cache_ok_def by blast
    show "(\<forall>n \<in> set (split_path key slash False). comp_ok n) \<and>
        (\<exists>k. lookup (contents fs') (split_path key slash False) (root_id (v_fs v)) = Some k \<and> j = inode_of (v_fs v) k)"
      using x keep[OF k x(1,3)] by blast
  qed
  then show ?thesis using fs'(1) t pr(1,2) i(2) e by (simp add: vfs_inv_def)
qed

lemma one_link: "links_one fs \<Longrightarrow> contents fs k = Some c \<Longrightarrow> link_cnt (inode_at fs k) = 1"
  by (auto simp: links_one_def attrs_def contents_def files_def attr_of_def split: if_splits)

section \<open>Creating files and directories\<close>

lemma room_for_entry_twin:
  assumes "fs_inv fs" "fs_twin fs g"
  shows "room_for_entry g sz m = room_for_entry fs sz m"
proof -
  note t = fs_twin_kept[OF assms]
  have "data_bitmap g = data_bitmap fs" "super_block g = super_block fs" by (subst t(6), simp)+
  then show ?thesis by (simp add: room_for_entry_def t(7,10))
qed

lemma create_in:
  assumes inv: "vfs_inv v" and path: "path_ok (ps @ [n])"
    and p: "lookup (contents (v_fs v)) ps (root_id (v_fs v)) = Some p" "contents (v_fs v) p = Some (kDirectory, old)"
    and new: "n \<notin> fst ` set (entries old)" and rm: "room_for_entry (v_fs v) (length old) (Suc m)" "length old + 8448 < 2 ^ 31"
    and ino: "fresh_inode ino" "di_type ino = t" "link_cnt ino = 1"
  obtains k ne bs ino' fs' v1 where "vfs_resolve e (path_of ps @ [slash]) v = Some (inode_of (v_fs v) p, v1)"
    "Inode_isValid (inode_of (v_fs v) p)" "v_fd v1 = v_fd v"
    "inode_create n ino junk now (getDiskInodePos p (v_fs v)) (v_fs v1) = (kSuccess, ino', inode_of fs' k, fs')"
    "vfs_inv (v1\<lparr>v_fs := fs'\<rparr>)" "k \<notin> dom (contents (v_fs v))" "root_id fs' = root_id (v_fs v)"
    "contents fs' = (contents (v_fs v))(p \<mapsto> (kDirectory, ne), k \<mapsto> (t, bs))" "entries ne = entries old @ [(n, k)]"
    "entries bs = (if t = kDirectory then [(dot, k), (dotdot, p)] else [])" "t \<noteq> kDirectory \<longrightarrow> bs = []"
    "lookup (contents fs') (ps @ [n]) (root_id fs') = Some k" "room (data_bitmap fs') (dev_view (device fs')) m"
    "attrs fs' = (attrs (v_fs v))(k \<mapsto> attr_of ino)" "fs' = (v_fs v)\<lparr>device := device fs'\<rparr>"
proof -
  note i = vfs_invD[OF inv]
  let ?fs = "v_fs v" and ?C = "contents (v_fs v)"
  obtain v1 where v1: "vfs_resolve e (path_of ps @ [slash]) v = Some (res_inode ?fs (lookup ?C ps (root_id ?fs)), v1)" "vfs_inv v1"
    "fs_twin ?fs (v_fs v1)" "v_fd v1 = v_fd v"
    by (rule vfs_resolve_ok[OF inv split_parent(2)[OF path]])
  note t = fs_twin_kept[OF i(1) v1(3)]
  have cn: "comp_ok n" using path by (simp add: path_ok_def)
  then have nm: "name_ok n" by (simp add: comp_ok_def)
  have dv: "256 dvd length old" using dirs_okD(1)[OF i(6) p(2)] by simp
  have p1: "contents (v_fs v1) p = Some (kDirectory, old)" using p(2) t(2) by simp
  have rm1: "room_for_entry (v_fs v1) (length old) (Suc m)" using rm(1) room_for_entry_twin[OF i(1) v1(3)] by simp
  obtain k bs ino' fs' where c: "inode_create n ino junk now (getDiskInodePos p (v_fs v1)) (v_fs v1) =
      (kSuccess, ino', inode_of (v_fs v1) k, fs')" "fs_inv fs'" "k \<notin> dom (contents (v_fs v1))"
    "contents fs' = (contents (v_fs v1))(p \<mapsto> (kDirectory, old @ mem_bytes (DirEntry n k) 256), k \<mapsto> (t, bs))"
    "entries (old @ mem_bytes (DirEntry n k) 256) = entries old @ [(n, k)]"
    "entries bs = (if t = kDirectory then [(dot, k), (dotdot, p)] else [])" "length bs \<le> 512" "256 dvd length bs"
    "room (data_bitmap fs') (dev_view (device fs')) m" "fs' = (v_fs v1)\<lparr>device := device fs'\<rparr>"
    "attrs fs' = (attrs (v_fs v1))(k \<mapsto> attr_of ino)"
    using inode_create_ok[OF t(1) p1 dv nm ino(1,2) rm1, of junk now] by blast
  define ne where "ne = old @ mem_bytes (DirEntry n k) 256"
  have C': "contents fs' = ?C(p \<mapsto> (kDirectory, ne), k \<mapsto> (t, bs))" using c(4) t(2) by (simp add: ne_def)
  have kn: "k \<notin> dom ?C" using c(3) t(2) by simp
  have ne: "entries ne = entries old @ [(n, k)]" "length ne = length old + 256" using c(5) by (simp_all add: ne_def)
  have d: "fs' = ?fs\<lparr>device := device fs'\<rparr>" using c(10) by (subst (asm) t(6)) simp
  note e = fs_device_eq[OF d]
  have nt: "name_tree (contents fs') (root_id ?fs)"
    unfolding C' by (rule name_tree_create) (use i(3) p(2) kn ne c(6-8) rm(2) new cn in \<open>auto simp: comp_ok_def name_ok_def\<close>)
  have "links_one fs'" using i(8) c(11) t(8) ino(3) by (auto simp: links_one_def attr_of_def)
  note up = vfs_inv_update[OF v1(2) c(2,10) _ this]
  have keep: "lookup (contents fs') ns (root_id ?fs) = Some j" if "lookup ?C ns (root_id ?fs) = Some j" for ns j
    unfolding C' by (rule lookup_create[OF p(2) kn ne(1) c(6) that])
  have "vfs_inv (v1\<lparr>v_fs := fs'\<rparr>)"
    by (rule up) (use nt keep t(2,5) vfs_invD(9)[OF v1(2)] in simp_all)
  moreover have "lookup (contents fs') (ps @ [n]) (root_id fs') = Some k"
    unfolding lookup_snoc e(3)
  proof (intro exI conjI)
    show "lookup (contents fs') ps (root_id ?fs) = Some p" by (rule keep[OF p(1)])
    have "map_of (entries old) n = None" using new by (simp add: map_of_eq_None_iff)
    then show "map_of (dir_of (contents fs') p) n = Some k"
      unfolding C' dir_of_create[OF p(2) kn ne(1) c(6)] using p(2) by (simp add: dir_of_def map_add_def)
  qed
  moreover have "t \<noteq> kDirectory \<longrightarrow> bs = []" using c(6,8) by (auto simp: entries_def)
  moreover have "attrs fs' = (attrs ?fs)(k \<mapsto> attr_of ino)" using c(11) t(8) by simp
  ultimately show ?thesis
    using that[of v1 ino' k fs' ne bs] v1(1,4) p(1) c(1,6,9) C' kn ne(1) d e t(3) inode_of_valid[OF i(1), of p] p(2)
    by (simp add: res_inode_def domI)
qed

definition points :: "vfs \<Rightarrow> u64 \<Rightarrow> u32 \<Rightarrow> bool" where
  "points v fd k \<longleftrightarrow> fd_get fd (v_fd v) = Some (inode_of (v_fs v) k)"

definition can_create :: "vfs \<Rightarrow> cstring list \<Rightarrow> cstring \<Rightarrow> u32 \<Rightarrow> u8 list \<Rightarrow> nat \<Rightarrow> bool" where
  "can_create v ps n p old m \<longleftrightarrow> path_ok (ps @ [n]) \<and>
     lookup (contents (v_fs v)) ps (root_id (v_fs v)) = Some p \<and> contents (v_fs v) p = Some (kDirectory, old) \<and>
     n \<notin> fst ` set (entries old) \<and> room_for_entry (v_fs v) (length old) (Suc m) \<and> length old + 8448 < 2 ^ 31"

lemma new_mode:
  "fresh_inode ((DiskInode_new t now uid gid)\<lparr>di_mode := x\<rparr>)" "di_type ((DiskInode_new t now uid gid)\<lparr>di_mode := x\<rparr>) = t"
  "link_cnt ((DiskInode_new t now uid gid)\<lparr>di_mode := x\<rparr>) = 1"
  by (simp_all add: fresh_inode_def DiskInode_new_def DiskInode_wf_def)

lemma sb_create_ok:
  assumes inv: "vfs_inv v" and cc: "can_create v ps n p old m" and fd: "fd_room (Suc h) (v_fd v)"
  obtains k ne fd v' where "sb_create e (path_of (ps @ [n])) mode (Some x) v = Some (0, Some fd, v')" "vfs_inv v'"
    "k \<notin> dom (contents (v_fs v))" "contents (v_fs v') = (contents (v_fs v))(p \<mapsto> (kDirectory, ne), k \<mapsto> (kFile, []))"
    "entries ne = entries old @ [(n, k)]" "lookup (contents (v_fs v')) (ps @ [n]) (root_id (v_fs v')) = Some k"
    "points v' fd k" "fd_get fd (v_fd v) = None" "\<forall>g. g \<noteq> fd \<longrightarrow> fd_get g (v_fd v') = fd_get g (v_fd v)" "fd_room h (v_fd v')"
    "room (data_bitmap (v_fs v')) (dev_view (device (v_fs v'))) m" "v_fs v' = (v_fs v)\<lparr>device := device (v_fs v')\<rparr>" "fd \<noteq> 0"
proof -
  note c = cc[unfolded can_create_def]
  define ino where "ino = (DiskInode_new kFile (e_now e) (e_uid e) (e_gid e))\<lparr>di_mode :=
      di_mode (DiskInode_new kFile (e_now e) (e_uid e) (e_gid e)) OR ucast (mode AND 0x1FF)\<rparr>"
  obtain k ne bs ino' fs' v1 where r: "vfs_resolve e (path_of ps @ [slash]) v = Some (inode_of (v_fs v) p, v1)"
    "Inode_isValid (inode_of (v_fs v) p)" "v_fd v1 = v_fd v"
    "inode_create n ino (e_junk e) (e_now e) (getDiskInodePos p (v_fs v)) (v_fs v1) = (kSuccess, ino', inode_of fs' k, fs')"
    "vfs_inv (v1\<lparr>v_fs := fs'\<rparr>)" "k \<notin> dom (contents (v_fs v))" "root_id fs' = root_id (v_fs v)"
    "contents fs' = (contents (v_fs v))(p \<mapsto> (kDirectory, ne), k \<mapsto> (kFile, bs))" "entries ne = entries old @ [(n, k)]"
    "entries bs = (if kFile = kDirectory then [(dot, k), (dotdot, p)] else [])" "kFile \<noteq> kDirectory \<longrightarrow> bs = []"
    "lookup (contents fs') (ps @ [n]) (root_id fs') = Some k" "room (data_bitmap fs') (dev_view (device fs')) m"
    "attrs fs' = (attrs (v_fs v))(k \<mapsto> attr_of ino)" "fs' = (v_fs v)\<lparr>device := device fs'\<rparr>"
    by (rule create_in[OF inv, of ps n p old m ino kFile e "e_junk e" "e_now e"]) (use c in \<open>simp_all add: ino_def new_mode\<close>)
  have bs: "bs = []" using r(11) by (simp add: kFile_def kDirectory_def)
  obtain fd mm where o: "fd_open (inode_of fs' k) (v_fd v) = (fd, mm)" by fastforce
  note get = fdm.get_opn[OF fd, of _ "inode_of fs' k"] and fresh = fdm.opn_fresh[OF fd, of "inode_of fs' k"]
    and nz = fdm.opn_nonzero[OF fd, of "inode_of fs' k"] and rm = fdm.ok_opn[OF fd, of "inode_of fs' k"]
  define v' where "v' = v1\<lparr>v_fs := fs', v_fd := mm\<rparr>"
  have run: "sb_create e (path_of (ps @ [n])) mode (Some x) v = Some (0, Some fd, v')"
    using r(1-4) o c split_parent(1)[of ps n] unfolding sb_create_def by (simp add: on_inode_def ino_def v'_def Let_def)
  show ?thesis
    by (rule that[OF run _ r(6)]) (use r(5,8,9,12,13,15) bs get fresh nz rm o in \<open>simp_all add: v'_def points_def\<close>)
qed

lemma sb_mkdir_ok:
  assumes inv: "vfs_inv v" and cc: "can_create v ps n p old m"
  obtains k ne bs v' where "sb_mkdir e (path_of (ps @ [n])) mode v = Some (0, v')" "vfs_inv v'"
    "k \<notin> dom (contents (v_fs v))" "contents (v_fs v') = (contents (v_fs v))(p \<mapsto> (kDirectory, ne), k \<mapsto> (kDirectory, bs))"
    "entries ne = entries old @ [(n, k)]" "entries bs = [(dot, k), (dotdot, p)]" "v_fd v' = v_fd v"
    "lookup (contents (v_fs v')) (ps @ [n]) (root_id (v_fs v')) = Some k"
    "room (data_bitmap (v_fs v')) (dev_view (device (v_fs v'))) m" "v_fs v' = (v_fs v)\<lparr>device := device (v_fs v')\<rparr>"
proof -
  note c = cc[unfolded can_create_def]
  define ino where "ino = (DiskInode_new kDirectory (e_now e) (e_uid e) (e_gid e))\<lparr>di_mode :=
      di_mode (DiskInode_new kDirectory (e_now e) (e_uid e) (e_gid e)) OR ucast (mode AND 0x1FF)\<rparr>"
  obtain k ne bs ino' fs' v1 where r: "vfs_resolve e (path_of ps @ [slash]) v = Some (inode_of (v_fs v) p, v1)"
    "Inode_isValid (inode_of (v_fs v) p)" "v_fd v1 = v_fd v"
    "inode_create n ino (e_junk e) (e_now e) (getDiskInodePos p (v_fs v)) (v_fs v1) = (kSuccess, ino', inode_of fs' k, fs')"
    "vfs_inv (v1\<lparr>v_fs := fs'\<rparr>)" "k \<notin> dom (contents (v_fs v))" "root_id fs' = root_id (v_fs v)"
    "contents fs' = (contents (v_fs v))(p \<mapsto> (kDirectory, ne), k \<mapsto> (kDirectory, bs))" "entries ne = entries old @ [(n, k)]"
    "entries bs = (if kDirectory = kDirectory then [(dot, k), (dotdot, p)] else [])" "kDirectory \<noteq> kDirectory \<longrightarrow> bs = []"
    "lookup (contents fs') (ps @ [n]) (root_id fs') = Some k" "room (data_bitmap fs') (dev_view (device fs')) m"
    "attrs fs' = (attrs (v_fs v))(k \<mapsto> attr_of ino)" "fs' = (v_fs v)\<lparr>device := device fs'\<rparr>"
    by (rule create_in[OF inv, of ps n p old m ino kDirectory e "e_junk e" "e_now e"]) (use c in \<open>simp_all add: ino_def new_mode\<close>)
  have run: "sb_mkdir e (path_of (ps @ [n])) mode v = Some (0, v1\<lparr>v_fs := fs'\<rparr>)"
    using r(1-4) c split_parent(1)[of ps n] unfolding sb_mkdir_def by (simp add: on_inode_def ino_def Let_def)
  show ?thesis by (rule that[OF run r(5,6)]) (use r(3,8-10,12,13,15) in simp_all)
qed

text \<open>C5: \<open>create\<close> makes an empty file under the name given, in the directory that the rest of the path leads to,
  and returns a new handle of it; it changes no other file and no other handle, and keeps the invariant.\<close>

theorem sb_create_refines:
  assumes "vfs_inv v" "can_create v ps n p old 0" "fd_room (Suc h) (v_fd v)"
  shows "\<exists>k ne fd v'. sb_create e (path_of (ps @ [n])) mode (Some x) v = Some (0, Some fd, v') \<and> vfs_inv v' \<and>
     k \<notin> dom (contents (v_fs v)) \<and> contents (v_fs v') = (contents (v_fs v))(p \<mapsto> (kDirectory, ne), k \<mapsto> (kFile, [])) \<and>
     entries ne = entries old @ [(n, k)] \<and> lookup (contents (v_fs v')) (ps @ [n]) (root_id (v_fs v')) = Some k \<and>
     points v' fd k \<and> fd_get fd (v_fd v) = None \<and> (\<forall>g. g \<noteq> fd \<longrightarrow> fd_get g (v_fd v') = fd_get g (v_fd v))"
  by (rule sb_create_ok[OF assms, of e mode x]) blast

text \<open>C11: \<open>mkdir\<close> makes a directory with the entries \<open>"."\<close> and \<open>".."\<close> for itself and its parent, under the name given,
  in the directory that the rest of the path leads to; it changes no other file and keeps the invariant.\<close>

theorem sb_mkdir_refines:
  assumes "vfs_inv v" "can_create v ps n p old 0"
  shows "\<exists>k ne bs v'. sb_mkdir e (path_of (ps @ [n])) mode v = Some (0, v') \<and> vfs_inv v' \<and>
     k \<notin> dom (contents (v_fs v)) \<and> contents (v_fs v') = (contents (v_fs v))(p \<mapsto> (kDirectory, ne), k \<mapsto> (kDirectory, bs)) \<and>
     entries ne = entries old @ [(n, k)] \<and> entries bs = [(dot, k), (dotdot, p)] \<and>
     lookup (contents (v_fs v')) (ps @ [n]) (root_id (v_fs v')) = Some k \<and> v_fd v' = v_fd v"
  by (rule sb_mkdir_ok[OF assms, of e mode]) blast

section \<open>Reading and writing through a handle\<close>

lemma ucast_u32: "unat (x :: u64) < 2 ^ 32 \<Longrightarrow> unat (ucast x :: u32) = unat x"
  by (rule unat_ucast_32)

text \<open>A file that is not a directory gets new bytes.\<close>

lemma vfs_file_update:
  assumes inv: "vfs_inv v" and k: "contents (v_fs v) k = Some (t, old)" "t \<noteq> kDirectory"
    and fs': "fs_inv fs'" "fs' = (v_fs v)\<lparr>device := device fs'\<rparr>" "attrs fs' = attrs (v_fs v)"
    and c: "contents fs' = (contents (v_fs v))(k \<mapsto> (t, bs))"
  shows "vfs_inv (v\<lparr>v_fs := fs'\<rparr>)"
proof -
  note i = vfs_invD[OF inv]
  have d: "dir_of (contents fs') = dir_of (contents (v_fs v))" unfolding c using k by (rule dir_of_file)
  have nt: "name_tree (contents fs') (root_id (v_fs v))" unfolding c using i(3) k by (rule name_tree_file)
  have lk: "links_one fs'" using i(8) fs'(3) by (simp add: links_one_def)
  show ?thesis
    by (rule vfs_inv_update[OF inv fs'(1,2) nt lk]) (use i(9) lookup_same[OF d] in simp_all)
qed

lemma vfs_attr_update:
  assumes inv: "vfs_inv v" and fs': "fs_inv fs'" "fs' = (v_fs v)\<lparr>device := device fs'\<rparr>" "links_one fs'"
    and c: "contents fs' = contents (v_fs v)"
  shows "vfs_inv (v\<lparr>v_fs := fs'\<rparr>)"
  by (rule vfs_inv_update[OF inv fs'(1,2) _ fs'(3)]) (use vfs_invD[OF inv] c in simp_all)

lemma sb_write_ok:
  assumes inv: "vfs_inv v" and h: "points v fd k" and k: "contents (v_fs v) k = Some (t, old)" "t \<noteq> kDirectory"
    and sz: "0 < sz" "unat off + unat sz < 2 ^ 31" and rm: "room_for (v_fs v) k (max (length old) (unat off + unat sz))"
  obtains hole v' where "sb_write e buf sz off (Some fd) v = Some (int (unat sz), v')" "vfs_inv v'" "length hole = unat off - length old"
    "contents (v_fs v') = (contents (v_fs v))(k \<mapsto> (t, pwrite_bytes (unat off) (mem_bytes buf (unat sz)) hole old))"
    "v' = v\<lparr>v_fs := (v_fs v)\<lparr>device := device (v_fs v')\<rparr>\<rparr>"
proof -
  note i = vfs_invD[OF inv]
  have u: "unat (ucast sz :: u32) = unat sz" "unat (ucast off :: u32) = unat off" using sz(2) by (simp_all add: ucast_u32)
  have s: "(0 :: u32) < ucast sz" using sz(1) u(1) by (simp add: word_less_nat_alt)
  have le: "\<not> sz > 0xFFFFFFFF" using sz(2) by (simp add: word_less_nat_alt)
  obtain fs' hole where w: "inode_write_data (ucast off) buf (ucast sz) (e_now e) (getDiskInodePos k (v_fs v)) (v_fs v) = (int (unat sz), fs')"
    "fs_inv fs'" "length hole = unat off - length old"
    "contents fs' = (contents (v_fs v))(k \<mapsto> (t, pwrite_bytes (unat off) (mem_bytes buf (unat sz)) hole old))"
    "attrs fs' = attrs (v_fs v)" "fs' = (v_fs v)\<lparr>device := device fs'\<rparr>"
    using inode_write_contents[OF i(1) k(1) s, of "ucast off" buf "e_now e"] sz(2) rm unfolding u by blast
  have run: "sb_write e buf sz off (Some fd) v = Some (int (unat sz), v\<lparr>v_fs := fs'\<rparr>)"
    using le h w(1) count_not_kFail(2)[of "unat sz"] by (simp add: sb_write_def points_def on_inode_def)
  show ?thesis
    by (rule that[OF run vfs_file_update[OF inv k w(2,6,5,4)] w(3)]) (use w(4,6) in simp_all)
qed

lemma sb_read_ok:
  assumes inv: "vfs_inv v" and h: "points v fd k" and k: "contents (v_fs v) k = Some (t, old)"
    and sz: "0 < sz" "unat off + unat sz < 2 ^ 31" "unat off < length old"
  obtains buf' v' where "sb_read e buf sz off (Some fd) v = Some (int (length (take (unat sz) (drop (unat off) old))), buf', v')"
    "vfs_inv v'" "contents (v_fs v') = contents (v_fs v)" "v' = v\<lparr>v_fs := (v_fs v)\<lparr>device := device (v_fs v')\<rparr>\<rparr>"
    "mem_bytes buf' (length (take (unat sz) (drop (unat off) old))) = take (unat sz) (drop (unat off) old)"
    "\<forall>x \<ge> length (take (unat sz) (drop (unat off) old)). buf' x = buf x"
proof -
  note i = vfs_invD[OF inv]
  define n where "n = length (take (unat sz) (drop (unat off) old))"
  have u: "unat (ucast sz :: u32) = unat sz" "unat (ucast off :: u32) = unat off" using sz(2) by (simp_all add: ucast_u32)
  have s: "(0 :: u32) < ucast sz" using sz(1) u(1) by (simp add: word_less_nat_alt)
  have le: "\<not> sz > 0xFFFFFFFF" using sz(2) by (simp add: word_less_nat_alt)
  obtain r buf' fs' where w: "inode_read_data (ucast off) buf (ucast sz) (e_now e) (getDiskInodePos k (v_fs v)) (v_fs v) = (r, buf', fs')"
    "fs_inv fs'" "contents fs' = contents (v_fs v)" "attrs fs' = attrs (v_fs v)" "fs' = (v_fs v)\<lparr>device := device fs'\<rparr>"
    "r = int n" "mem_bytes buf' (nat r) = take (unat sz) (drop (unat off) old)" "\<forall>x \<ge> nat r. buf' x = buf x"
    using inode_read_contents[OF i(1) k s, of "ucast off" buf "e_now e"] sz(2,3) unfolding u n_def by auto
  have lk: "links_one fs'" using i(8) w(4) by (simp add: links_one_def)
  have run: "sb_read e buf sz off (Some fd) v = Some (int n, buf', v\<lparr>v_fs := fs'\<rparr>)"
    using le h w(1,6) count_not_kFail(2)[of n] by (simp add: sb_read_def points_def on_inode_def)
  show ?thesis
    by (rule that[OF run[unfolded n_def] vfs_attr_update[OF inv w(2,5) lk w(3)]]) (use w(3,5-8) in \<open>simp_all add: n_def\<close>)
qed

lemma sb_open_ok:
  assumes inv: "vfs_inv v" and p: "names_path path ps" "lookup (contents (v_fs v)) ps (root_id (v_fs v)) = Some k"
    and fd: "fd_room (Suc h) (v_fd v)"
  obtains fd v' where "sb_open e path (Some x) v = Some (0, Some fd, v')" "vfs_inv v'" "contents (v_fs v') = contents (v_fs v)"
    "points v' fd k" "fd_get fd (v_fd v) = None" "\<forall>g. g \<noteq> fd \<longrightarrow> fd_get g (v_fd v') = fd_get g (v_fd v)" "fd_room h (v_fd v')"
    "fs_twin (v_fs v) (v_fs v')" "fd \<noteq> 0"
proof -
  note i = vfs_invD[OF inv]
  obtain v1 where v1: "vfs_resolve e path v = Some (res_inode (v_fs v) (lookup (contents (v_fs v)) ps (root_id (v_fs v))), v1)" "vfs_inv v1"
    "fs_twin (v_fs v) (v_fs v1)" "v_fd v1 = v_fd v"
    by (rule vfs_resolve_ok[OF inv p(1)])
  note t = fs_twin_kept[OF i(1) v1(3)]
  have kd: "k \<in> dom (contents (v_fs v))" by (rule lookup_dom[OF i(6,7) p(2)])
  obtain fd mm where o: "fd_open (inode_of (v_fs v) k) (v_fd v) = (fd, mm)" by fastforce
  note get = fdm.get_opn[OF fd, of _ "inode_of (v_fs v) k"] and fresh = fdm.opn_fresh[OF fd, of "inode_of (v_fs v) k"]
    and nz = fdm.opn_nonzero[OF fd, of "inode_of (v_fs v) k"] and rm = fdm.ok_opn[OF fd, of "inode_of (v_fs v) k"]
  have run: "sb_open e path (Some x) v = Some (0, Some fd, v1\<lparr>v_fd := mm\<rparr>)"
    using v1(1,4) p(2) o inode_of_valid[OF i(1) kd] by (simp add: sb_open_def res_inode_def)
  show ?thesis
    by (rule that[OF run]) (use v1(2-4) t(2,3) get fresh nz rm o in \<open>simp_all add: points_def\<close>)
qed

text \<open>C9: \<open>write\<close> through a handle puts the bytes of the buffer into the file at the offset, the file growing as
  needed; every other file, the handles and the invariant stay.\<close>

theorem sb_write_refines:
  assumes "vfs_inv v" "points v fd k" "contents (v_fs v) k = Some (t, old)" "t \<noteq> kDirectory" "0 < sz" "unat off + unat sz < 2 ^ 31"
    and "room_for (v_fs v) k (max (length old) (unat off + unat sz))"
  shows "\<exists>hole v'. sb_write e buf sz off (Some fd) v = Some (int (unat sz), v') \<and> vfs_inv v' \<and> length hole = unat off - length old \<and>
     contents (v_fs v') = (contents (v_fs v))(k \<mapsto> (t, pwrite_bytes (unat off) (mem_bytes buf (unat sz)) hole old)) \<and> v_fd v' = v_fd v"
proof -
  obtain hole v' where r: "sb_write e buf sz off (Some fd) v = Some (int (unat sz), v')" "vfs_inv v'" "length hole = unat off - length old"
    "contents (v_fs v') = (contents (v_fs v))(k \<mapsto> (t, pwrite_bytes (unat off) (mem_bytes buf (unat sz)) hole old))"
    "v' = v\<lparr>v_fs := (v_fs v)\<lparr>device := device (v_fs v')\<rparr>\<rparr>"
    by (rule sb_write_ok[OF assms])
  have "v_fd v' = v_fd v" by (subst r(5)) simp
  with r show ?thesis by blast
qed

text \<open>The offset is cut to 32 bits without a test: a write behind the first 4 GiB goes to the offset modulo 4 GiB.\<close>

theorem offsets_wrap: "sb_write e buf sz (off + 0x100000000) fi v = sb_write e buf sz off fi v"
proof -
  have "(ucast (off + 0x100000000) :: u32) = ucast off"
    by transfer (simp add: take_bit_eq_mod mod_mod_cancel)
  then show ?thesis by (simp only: sb_write_def)
qed

text \<open>C10: \<open>read\<close> through a handle puts the bytes of the file from the offset on, clipped at the end of the file, into the
  buffer, leaves the rest of the buffer, returns their number and changes no file and no handle.\<close>

theorem sb_read_refines:
  assumes "vfs_inv v" "points v fd k" "contents (v_fs v) k = Some (t, bs)" "0 < sz" "unat off + unat sz < 2 ^ 31" "unat off < length bs"
    and "got = take (unat sz) (drop (unat off) bs)"
  shows "\<exists>buf' v'. sb_read e buf sz off (Some fd) v = Some (int (length got), buf', v') \<and> mem_bytes buf' (length got) = got \<and>
     (\<forall>x \<ge> length got. buf' x = buf x) \<and> vfs_inv v' \<and> contents (v_fs v') = contents (v_fs v) \<and> v_fd v' = v_fd v"
proof -
  obtain buf' v' where r: "sb_read e buf sz off (Some fd) v = Some (int (length got), buf', v')"
    "vfs_inv v'" "contents (v_fs v') = contents (v_fs v)" "v' = v\<lparr>v_fs := (v_fs v)\<lparr>device := device (v_fs v')\<rparr>\<rparr>"
    "mem_bytes buf' (length got) = got" "\<forall>x \<ge> length got. buf' x = buf x"
    unfolding assms(7) by (rule sb_read_ok[OF assms(1-6)])
  have "v_fd v' = v_fd v" by (subst r(4)) simp
  with r show ?thesis by blast
qed

text \<open>C4: a file that is created, written and released can be opened again under its path, and reading it there
  gives the bytes that were written.\<close>

theorem written_file_reads_back:
  assumes "vfs_inv v" "can_create v ps n p old (tree_size (nblocks (unat sz)))" "fd_room 2 (v_fd v)" "0 < sz" "unat sz < 2 ^ 31"
  shows "\<exists>fd v1 v2 v3 fd' v4 buf' v5. sb_create e1 (path_of (ps @ [n])) mode (Some x1) v = Some (0, Some fd, v1) \<and>
     sb_write e2 buf sz 0 (Some fd) v1 = Some (int (unat sz), v2) \<and> sb_release (Some fd) v2 = Some (0, Some 0, v3) \<and>
     sb_open e4 (path_of (ps @ [n])) (Some x4) v3 = Some (0, Some fd', v4) \<and>
     sb_read e5 buf0 sz 0 (Some fd') v4 = Some (int (unat sz), buf', v5) \<and>
     mem_bytes buf' (unat sz) = mem_bytes buf (unat sz) \<and> vfs_inv v5 \<and> contents (v_fs v5) = contents (v_fs v2)"
proof -
  have fdr: "fd_room (Suc 1) (v_fd v)" using assms(3) by (simp add: numeral_2_eq_2)
  obtain k ne fd v1 where c: "sb_create e1 (path_of (ps @ [n])) mode (Some x1) v = Some (0, Some fd, v1)" "vfs_inv v1"
    "k \<notin> dom (contents (v_fs v))" "contents (v_fs v1) = (contents (v_fs v))(p \<mapsto> (kDirectory, ne), k \<mapsto> (kFile, []))"
    "entries ne = entries old @ [(n, k)]" "lookup (contents (v_fs v1)) (ps @ [n]) (root_id (v_fs v1)) = Some k"
    "points v1 fd k" "fd_get fd (v_fd v) = None" "\<forall>g. g \<noteq> fd \<longrightarrow> fd_get g (v_fd v1) = fd_get g (v_fd v)" "fd_room 1 (v_fd v1)"
    "room (data_bitmap (v_fs v1)) (dev_view (device (v_fs v1))) (tree_size (nblocks (unat sz)))"
    "v_fs v1 = (v_fs v)\<lparr>device := device (v_fs v1)\<rparr>" "fd \<noteq> 0"
    by (rule sb_create_ok[OF assms(1,2) fdr])
  have k1: "contents (v_fs v1) k = Some (kFile, [])" "kFile \<noteq> kDirectory" by (simp_all add: c(4) kFile_def kDirectory_def)
  have rm: "room_for (v_fs v1) k (max (length ([] :: u8 list)) (unat (0 :: u64) + unat sz))"
    using c(11) by (simp add: room_for_def room_def)
  have s0: "unat (0 :: u64) + unat sz < 2 ^ 31" using assms(5) by simp
  obtain hole v2 where w: "sb_write e2 buf sz 0 (Some fd) v1 = Some (int (unat sz), v2)" "vfs_inv v2" "length hole = unat (0 :: u64) - length ([] :: u8 list)"
    "contents (v_fs v2) = (contents (v_fs v1))(k \<mapsto> (kFile, pwrite_bytes (unat (0 :: u64)) (mem_bytes buf (unat sz)) hole []))"
    "v2 = v1\<lparr>v_fs := (v_fs v1)\<lparr>device := device (v_fs v2)\<rparr>\<rparr>"
    by (rule sb_write_ok[OF c(2,7) k1 assms(4) s0 rm])
  have k2: "contents (v_fs v2) k = Some (kFile, mem_bytes buf (unat sz))" using w(4) by (simp add: pwrite_bytes_def)
  have root: "root_id (v_fs v2) = root_id (v_fs v1)" by (subst w(5)) simp
  have "dir_of (contents (v_fs v2)) = dir_of (contents (v_fs v1))" unfolding w(4) using k1 by (rule dir_of_file)
  from trans[OF lookup_same[OF this] c(6)] have lk: "lookup (contents (v_fs v2)) (ps @ [n]) (root_id (v_fs v2)) = Some k" unfolding root .
  define v3 where "v3 = v2\<lparr>v_fd := fd_close fd (v_fd v2)\<rparr>"
  have rel: "sb_release (Some fd) v2 = Some (0, Some 0, v3)" by (simp add: sb_release_def v3_def)
  have fd2: "v_fd v2 = v_fd v1" by (subst w(5)) simp
  have "fd_room (Suc 0) (v_fd v2)" using c(10) fd2 by simp
  then have fr: "fd_room (Suc 0) (v_fd v3)" by (simp add: v3_def fdm.ok_cls)
  have path: "names_path (path_of (ps @ [n])) (ps @ [n])" using assms(2) by (simp add: names_path_def can_create_def)
  have inv3: "vfs_inv v3" using w(2) by (simp add: v3_def)
  obtain fd' v4 where o: "sb_open e4 (path_of (ps @ [n])) (Some x4) v3 = Some (0, Some fd', v4)" "vfs_inv v4"
    "contents (v_fs v4) = contents (v_fs v3)" "points v4 fd' k"
    by (rule sb_open_ok[OF inv3 path _ fr, of k e4 x4]) (use lk in \<open>simp_all add: v3_def\<close>)
  have k4: "contents (v_fs v4) k = Some (kFile, mem_bytes buf (unat sz))" using o(3) k2 by (simp add: v3_def)
  have pos: "unat (0 :: u64) < length (mem_bytes buf (unat sz))" using assms(4) by (simp add: word_less_nat_alt)
  obtain buf' v5 where r: "sb_read e5 buf0 sz 0 (Some fd') v4 =
      Some (int (length (take (unat sz) (drop (unat (0 :: u64)) (mem_bytes buf (unat sz))))), buf', v5)" "vfs_inv v5"
    "contents (v_fs v5) = contents (v_fs v4)"
    "mem_bytes buf' (length (take (unat sz) (drop (unat (0 :: u64)) (mem_bytes buf (unat sz))))) = take (unat sz) (drop (unat (0 :: u64)) (mem_bytes buf (unat sz)))"
    by (rule sb_read_ok[OF o(2,4) k4 assms(4) s0 pos])
  show ?thesis using c(1) w(1) rel o(1,3) r by (simp add: v3_def)
qed

section \<open>A run of the new file system\<close>

lemma new_can_create:
  assumes "m \<le> 32766"
  obtains bs where "can_create new_vfs [] [0x61] 2 bs m" "entries bs = [(dot, 2), (dotdot, 2)]" "contents new_fs = [2 \<mapsto> (kDirectory, bs)]"
proof -
  obtain bs where b: "contents new_fs = [2 \<mapsto> (kDirectory, bs)]" "entries bs = [(dot, 2), (dotdot, 2)]" "length bs = 512"
    by (rule new_root)
  have "path_ok [[0x61]]"
    by (simp add: path_ok_def path_of_def comp_ok_def name_ok_def kMaxDirNameLength_def slash_def plain_def dot_def dotdot_def)
  moreover have "room_for_entry new_fs 512 (Suc m)" using new_entry_room[of "Suc m"] assms by simp
  ultimately have "can_create new_vfs [] [0x61] 2 bs m"
    using b new_vfs_ok(2) by (simp add: can_create_def new_vfs_def dot_def dotdot_def)
  then show ?thesis by (rule that[OF _ b(2,1)])
qed

lemma new_fd_room: "n < 1000 \<Longrightarrow> fd_room n (v_fd new_vfs)"
  using fd_inv_new by (simp add: fd_room_def new_vfs_def) (simp add: FDManager_new_def)

theorem sb_create_refines_witness:
  "\<exists>k ne fd v'. sb_create new_env [slash, 0x61] 0 (Some 0) new_vfs = Some (0, Some fd, v') \<and>
     contents (v_fs v') = [2 \<mapsto> (kDirectory, ne), k \<mapsto> (kFile, [])] \<and> entries ne = [(dot, 2), (dotdot, 2), ([0x61], k)] \<and> points v' fd k"
proof -
  obtain bs where b: "can_create new_vfs [] [0x61] 2 bs 0" "entries bs = [(dot, 2), (dotdot, 2)]" "contents new_fs = [2 \<mapsto> (kDirectory, bs)]"
    by (rule new_can_create[of 0]) auto
  have "path_of ([] @ [[0x61]]) = [slash, 0x61]" by (simp add: path_of_def)
  with sb_create_refines[OF new_vfs_ok(1) b(1) new_fd_room, of 0 new_env 0 0] show ?thesis
    using b(2,3) by (auto simp: new_vfs_def)
qed

theorem sb_mkdir_refines_witness:
  "\<exists>k ne bs v'. sb_mkdir new_env [slash, 0x61] 0 new_vfs = Some (0, v') \<and>
     contents (v_fs v') = [2 \<mapsto> (kDirectory, ne), k \<mapsto> (kDirectory, bs)] \<and> entries ne = [(dot, 2), (dotdot, 2), ([0x61], k)] \<and>
     entries bs = [(dot, k), (dotdot, 2)]"
proof -
  obtain bs where b: "can_create new_vfs [] [0x61] 2 bs 0" "entries bs = [(dot, 2), (dotdot, 2)]" "contents new_fs = [2 \<mapsto> (kDirectory, bs)]"
    by (rule new_can_create[of 0]) auto
  have "path_of ([] @ [[0x61]]) = [slash, 0x61]" by (simp add: path_of_def)
  with sb_mkdir_refines[OF new_vfs_ok(1) b(1), of new_env 0] show ?thesis
    using b(2,3) by (auto simp: new_vfs_def)
qed

text \<open>A state with an open file.\<close>

lemma open_file:
  assumes "m \<le> 32766"
  obtains k ne fd v where "vfs_inv v" "points v fd k" "contents (v_fs v) = [2 \<mapsto> (kDirectory, ne), k \<mapsto> (kFile, [])]" "k \<noteq> 2"
    "room (data_bitmap (v_fs v)) (dev_view (device (v_fs v))) m" "lookup (contents (v_fs v)) [[0x61]] (root_id (v_fs v)) = Some k"
    "entries ne = [(dot, 2), (dotdot, 2), ([0x61], k)]" "root_id (v_fs v) = 2" "fd_room 500 (v_fd v)" "fd \<noteq> 0"
    "ibm_blocks (v_fs v) = 1"
proof -
  obtain bs where b: "can_create new_vfs [] [0x61] 2 bs m" "entries bs = [(dot, 2), (dotdot, 2)]" "contents new_fs = [2 \<mapsto> (kDirectory, bs)]"
    by (rule new_can_create[OF assms])
  have "fd_room (Suc 500) (v_fd new_vfs)" by (rule new_fd_room) simp
  then obtain k ne fd v where c: "sb_create new_env (path_of ([] @ [[0x61]])) 0 (Some 0) new_vfs = Some (0, Some fd, v)" "vfs_inv v"
    "k \<notin> dom (contents (v_fs new_vfs))" "contents (v_fs v) = (contents (v_fs new_vfs))(2 \<mapsto> (kDirectory, ne), k \<mapsto> (kFile, []))"
    "entries ne = entries bs @ [([0x61], k)]" "lookup (contents (v_fs v)) ([] @ [[0x61]]) (root_id (v_fs v)) = Some k"
    "points v fd k" "fd_get fd (v_fd new_vfs) = None" "\<forall>g. g \<noteq> fd \<longrightarrow> fd_get g (v_fd v) = fd_get g (v_fd new_vfs)" "fd_room 500 (v_fd v)"
    "room (data_bitmap (v_fs v)) (dev_view (device (v_fs v))) m" "v_fs v = (v_fs new_vfs)\<lparr>device := device (v_fs v)\<rparr>" "fd \<noteq> 0"
    by (rule sb_create_ok[OF new_vfs_ok(1) b(1), of 500 new_env 0 0])
  have r: "root_id (v_fs v) = 2" using new_vfs_ok(2) by (subst c(12)) (simp add: new_vfs_def)
  have "ibm_blocks (v_fs v) = 1" using new_facts(3) by (subst c(12)) (simp add: new_vfs_def)
  moreover have k: "k \<noteq> 2" using c(3) b(3) by (auto simp: new_vfs_def)
  moreover have "lookup (contents (v_fs v)) [[0x61]] (root_id (v_fs v)) = Some k" using c(6) unfolding append_Nil .
  ultimately show ?thesis using that[OF c(2,7) _ k c(11)] c(4,5,10,13) b(2,3) r by (simp add: new_vfs_def)
qed

theorem sb_write_refines_witness:
  "\<exists>v fd k v'. sb_write new_env (\<lambda>_. 7) 5000 0 (Some fd) v = Some (5000, v') \<and> contents (v_fs v') k = Some (kFile, replicate 5000 7)"
proof -
  obtain k ne fd v where o: "vfs_inv v" "points v fd k" "contents (v_fs v) = [2 \<mapsto> (kDirectory, ne), k \<mapsto> (kFile, [])]" "k \<noteq> 2"
    "room (data_bitmap (v_fs v)) (dev_view (device (v_fs v))) 100"
    by (rule open_file[of 100]) auto
  have c: "contents (v_fs v) k = Some (kFile, [])" "kFile \<noteq> kDirectory" "(0 :: u64) < 5000" "unat (0 :: u64) + unat (5000 :: u64) < 2 ^ 31"
    by (simp_all add: o(3) kFile_def kDirectory_def)
  have rm: "room_for (v_fs v) k (max (length ([] :: u8 list)) (unat (0 :: u64) + unat (5000 :: u64)))"
    using o(5) by (simp add: room_for_def room_def tree_size_def)
  have "mem_bytes (\<lambda>_. 7) 5000 = replicate 5000 (7 :: u8)" by (simp add: mem_bytes_def map_replicate_const)
  then obtain v' where "sb_write new_env (\<lambda>_. 7) 5000 0 (Some fd) v = Some (5000, v')"
    "contents (v_fs v') = (contents (v_fs v))(k \<mapsto> (kFile, replicate 5000 7))"
    using sb_write_refines[OF o(1,2) c rm, of new_env "\<lambda>_. 7"] by (auto simp: pwrite_bytes_def)
  then show ?thesis by (intro exI[of _ v] exI[of _ fd] exI[of _ k] exI[of _ v']) simp
qed

theorem sb_read_refines_witness:
  "\<exists>v fd k buf' v'. contents (v_fs v) k = Some (kFile, replicate 5000 7) \<and>
     sb_read new_env zero_block 2000 4000 (Some fd) v = Some (1000, buf', v') \<and> mem_bytes buf' 1000 = replicate 1000 7"
proof -
  obtain k ne fd v where o: "vfs_inv v" "points v fd k" "contents (v_fs v) = [2 \<mapsto> (kDirectory, ne), k \<mapsto> (kFile, [])]" "k \<noteq> 2"
    "room (data_bitmap (v_fs v)) (dev_view (device (v_fs v))) 100"
    by (rule open_file[of 100]) auto
  have c: "contents (v_fs v) k = Some (kFile, [])" "kFile \<noteq> kDirectory" "(0 :: u64) < 5000" "unat (0 :: u64) + unat (5000 :: u64) < 2 ^ 31"
    by (simp_all add: o(3) kFile_def kDirectory_def)
  have rm: "room_for (v_fs v) k (max (length ([] :: u8 list)) (unat (0 :: u64) + unat (5000 :: u64)))"
    using o(5) by (simp add: room_for_def room_def tree_size_def)
  obtain hole v1 where w: "vfs_inv v1" "length hole = unat (0 :: u64) - length ([] :: u8 list)"
    "contents (v_fs v1) = (contents (v_fs v))(k \<mapsto> (kFile, pwrite_bytes (unat (0 :: u64)) (mem_bytes (\<lambda>_. 7) (unat (5000 :: u64))) hole []))"
    "v1 = v\<lparr>v_fs := (v_fs v)\<lparr>device := device (v_fs v1)\<rparr>\<rparr>"
    by (rule sb_write_ok[OF o(1,2) c rm, of new_env "\<lambda>_. 7"])
  have "mem_bytes (\<lambda>_. 7) 5000 = replicate 5000 (7 :: u8)" by (simp add: mem_bytes_def map_replicate_const)
  then have k1: "contents (v_fs v1) k = Some (kFile, replicate 5000 7)" using w(2) by (simp add: w(3) pwrite_bytes_def)
  have p1: "points v1 fd k" using o(2) by (subst w(4)) (simp add: points_def)
  show ?thesis
    using sb_read_refines[OF w(1) p1 k1, of 2000 4000 _ new_env zero_block, OF _ _ _ refl] k1 by auto
qed

theorem written_file_reads_back_witness:
  "\<exists>fd v1 v2 v3 fd' v4 buf' v5. sb_create new_env [slash, 0x61] 0 (Some 0) new_vfs = Some (0, Some fd, v1) \<and>
     sb_write new_env (\<lambda>_. 7) 5000 0 (Some fd) v1 = Some (5000, v2) \<and> sb_release (Some fd) v2 = Some (0, Some 0, v3) \<and>
     sb_open new_env [slash, 0x61] (Some 0) v3 = Some (0, Some fd', v4) \<and>
     sb_read new_env zero_block 5000 0 (Some fd') v4 = Some (5000, buf', v5) \<and> mem_bytes buf' 5000 = replicate 5000 7"
proof -
  have sz: "tree_size (nblocks (unat (5000 :: u64))) \<le> 32766" "(0 :: u64) < 5000" "unat (5000 :: u64) < 2 ^ 31" by (simp_all add: tree_size_def)
  obtain bs where b: "can_create new_vfs [] [0x61] 2 bs (tree_size (nblocks (unat (5000 :: u64))))"
    by (rule new_can_create[OF sz(1)]) auto
  have "path_of ([] @ [[0x61]]) = [slash, 0x61]" by (simp add: path_of_def)
  moreover have "mem_bytes (\<lambda>_. 7) 5000 = replicate 5000 (7 :: u8)" by (simp add: mem_bytes_def map_replicate_const)
  ultimately show ?thesis
    using written_file_reads_back[OF new_vfs_ok(1) b new_fd_room sz(2,3), of new_env 0 0 new_env "\<lambda>_. 7" new_env 0 new_env zero_block]
    by (auto simp del: path_of_snoc)
qed

end
