(* ===== verification/Vfs_Remove.thy ===== *)
theory Vfs_Remove
  imports Vfs_Refine
begin

text \<open>
  The handlers that take names away, and the one that lists them: \<open>unlink\<close>, \<open>rmdir\<close> and \<open>readdir\<close>. What they
  remove from the path cache is enough: every path that stays in it still leads where it led before.
\<close>

section \<open>Invalidation of the path cache\<close>

lemma join_append: "xs \<noteq> [] \<Longrightarrow> join d (xs @ ys) = join d xs @ (if ys = [] then [] else d # join d ys)"
  by (induction xs) auto

lemma inodes_of_filter: "inodes_of (filter (\<lambda>e. P (fst e)) c) = {(k, i) \<in> inodes_of c. P k}"
  by (force simp: inodes_of_def)

lemma vfs_removePrefix_ok:
  assumes "path_ok (ps @ [n])" "pr_inv (v_path v)"
  obtains pr' where "vfs_removePrefix (path_of (ps @ [n])) v = Some (v\<lparr>v_path := pr'\<rparr>)" "pr_inv pr'"
    "inodes_of (path_cache pr') \<subseteq> inodes_of (path_cache (v_path v))"
    "\<forall>(key, i) \<in> inodes_of (path_cache pr'). take (Suc (length ps)) (split_path key slash False) \<noteq> ps @ [n]"
proof -
  define s where "s = join slash (ps @ [n])"
  have cn: "slash \<notin> set n" "n \<noteq> []" using assms(1) by (auto simp: path_ok_def comp_ok_def name_ok_def)
  have pj: "path_of (ps @ [n]) = slash # s" unfolding s_def by (rule path_of_join) simp
  have re: "removeEndSlash (path_of (ps @ [n])) = path_of (ps @ [n])"
    unfolding path_of_snoc using removeEndSlash_cases(2) cn by blast
  have "s \<noteq> []" using cn(2) by (cases ps) (auto simp: s_def)
  then have ne: "\<not> (path_of (ps @ [n]) = [] \<or> path_of (ps @ [n]) = [slash])" using pj by simp
  define pr' where "pr' = (v_path v)\<lparr>path_cache := filter (\<lambda>e. take (length s) (fst e) \<noteq> s) (path_cache (v_path v))\<rparr>"
  have rp: "removePrefix (path_of (ps @ [n])) (v_path v) = Some pr'"
    unfolding removePrefix_eq re using ne by (simp add: pj pr'_def del: path_of_snoc)
  have io: "inodes_of (path_cache pr') = {(k, i) \<in> inodes_of (path_cache (v_path v)). take (length s) k \<noteq> s}"
    using inodes_of_filter[of "\<lambda>k. take (length s) k \<noteq> s" "path_cache (v_path v)"] by (simp add: pr'_def)
  have "take (Suc (length ps)) (split_path key slash False) \<noteq> ps @ [n]" if "(key, i) \<in> inodes_of (path_cache pr')" for key i
  proof
    assume t: "take (Suc (length ps)) (split_path key slash False) = ps @ [n]"
    define rest where "rest = drop (Suc (length ps)) (split_path key slash False)"
    have "split_path key slash False = (ps @ [n]) @ rest" unfolding rest_def t[symmetric] by simp
    then have "key = join slash ((ps @ [n]) @ rest)" using split_facts[of slash key] by metis
    then have "take (length s) key = s" by (simp add: join_append[of "ps @ [n]"] s_def del: append_assoc)
    then show False using that io by auto
  qed
  then have "\<forall>(key, i) \<in> inodes_of (path_cache pr'). take (Suc (length ps)) (split_path key slash False) \<noteq> ps @ [n]" by blast
  then show ?thesis
    using that[of pr'] rp removePrefix_inv[OF assms(2) rp] io by (auto simp: vfs_removePrefix_def)
qed

section \<open>Removing a name\<close>

lemma remove_ok:
  assumes inv: "vfs_inv v" and path: "path_ok (ps @ [n])" and p: "lookup (contents (v_fs v)) ps (root_id (v_fs v)) = Some p"
    "contents (v_fs v) p = Some (kDirectory, bs)" "dir_ok bs" "map_of (entries bs) n = Some k" "k \<noteq> p"
    and leaf: "\<And>m j. \<not> edge (contents (v_fs v)) k m j"
  obtains q bs' fs' v' where "inode_remove dirjunk n now (getDiskInodePos p (v_fs v)) (v_fs v) = (kSuccess, fs')"
    "vfs_removePrefix (path_of (ps @ [n])) (v\<lparr>v_fs := fs'\<rparr>) = Some v'" "vfs_inv v'" "v_fd v' = v_fd v"
    "contents (v_fs v') = (contents (v_fs v))(p \<mapsto> (kDirectory, bs'), k := None)"
    "q < length (entries bs)" "entries bs ! q = (n, k)" "entries bs' = butlast ((entries bs)[q := last (entries bs)])"
proof -
  note i = vfs_invD[OF inv]
  let ?C = "contents (v_fs v)"
  have cn: "comp_ok n" and cps: "\<forall>x \<in> set ps. plain x" using path by (auto simp: path_ok_def comp_ok_def)
  then have nm: "name_ok n" "plain n" by (simp_all add: comp_ok_def)
  have dp: "dir_of ?C p = entries bs" using p(2) by (simp add: dir_of_def)
  have kd: "k \<in> dom ?C" using dirs_okD(3)[OF i(6)] p(4) dp by metis
  have ed: "edge ?C p n k" using p(4) nm(2) by (simp add: edge_def dp)
  obtain q where q: "first_entry bs n 0 = Some q" "snd (entry_at bs q) = k" using p(4) by (auto simp: map_of_entries)
  note fe = first_entry_entries[OF q p(3)]
  obtain kc where kc: "?C k = Some kc" using kd by auto
  have l1: "link_cnt (inode_at (v_fs v) k) = 1" by (rule one_link[OF i(8) kc])
  obtain fs' where r: "inode_remove dirjunk n now (getDiskInodePos p (v_fs v)) (v_fs v) = (kSuccess, fs')" "fs_inv fs'"
    "contents fs' = ?C(p \<mapsto> (kDirectory, drop_bytes q bs), k := None)" "attrs fs' = (attrs (v_fs v))(k := None)"
    "fs' = (v_fs v)\<lparr>device := device fs'\<rparr>"
    by (rule inode_remove_ok[OF i(1) p(2,3) nm(1) q kd p(5), unfolded if_P[OF l1]])
  have "q < length bs div 256" using fe(1) by simp
  then have len: "length (drop_bytes q bs) = length bs - 256" using length_drop_bytes[of q bs] by linarith
  note nt = name_tree_remove[OF i(3) p(2) ed leaf fe len p(5), folded r(3)]
  have lk: "links_one fs'" using i(8) r(4) by (auto simp: links_one_def)
  obtain pr' where pr: "vfs_removePrefix (path_of (ps @ [n])) (v\<lparr>v_fs := fs'\<rparr>) = Some (v\<lparr>v_fs := fs', v_path := pr'\<rparr>)" "pr_inv pr'"
    "inodes_of (path_cache pr') \<subseteq> inodes_of (path_cache (v_path v))"
    "\<forall>(key, i) \<in> inodes_of (path_cache pr'). take (Suc (length ps)) (split_path key slash False) \<noteq> ps @ [n]"
    by (rule vfs_removePrefix_ok[OF path, of "v\<lparr>v_fs := fs'\<rparr>"]) (use i(9) in simp_all)
  have "vfs_inv (v\<lparr>v_fs := fs', v_path := pr'\<rparr>)"
  proof (rule vfs_inv_update[OF inv r(2,5) nt(1) lk])
    fix key j x assume e: "(key, j) \<in> inodes_of (path_cache (v_path (v\<lparr>v_fs := fs', v_path := pr'\<rparr>)))"
      "\<forall>n \<in> set (split_path key slash False). comp_ok n" "lookup ?C (split_path key slash False) (root_id (v_fs v)) = Some x"
    have e1: "take (Suc (length ps)) (split_path key slash False) \<noteq> ps @ [n]" using e(1) pr(4) by auto
    have e2: "\<forall>n \<in> set (split_path key slash False). plain n" using e(2) by (simp add: comp_ok_def)
    show "lookup (contents fs') (split_path key slash False) (root_id (v_fs v)) = Some x"
      by (rule lookup_cut[OF i(3) p(1) cps _ e(3) e2 e1]) (use nt(2) in \<open>auto simp: edge_def\<close>)
  qed (use pr(2,3) in simp_all)
  then show ?thesis using that[OF r(1) pr(1)] r(3) fe by simp
qed

lemma find_child:
  assumes inv: "vfs_inv v" and p: "contents (v_fs v) p = Some (kDirectory, bs)" "name_ok n"
  obtains v' where "inode_find dirjunk n junk now (getDiskInodePos p (v_fs v)) (v_fs v) =
      (case map_of (entries bs) n of None \<Rightarrow> (kFail, junk, v_fs v') | Some k \<Rightarrow> (kSuccess, inode_of (v_fs v) k, v_fs v'))"
    "v' = v\<lparr>v_fs := v_fs v'\<rparr>" "vfs_inv v'" "contents (v_fs v') = contents (v_fs v)" "v_fs v' = (v_fs v)\<lparr>device := device (v_fs v')\<rparr>"
proof -
  note i = vfs_invD[OF inv]
  obtain fs' where f: "inode_find dirjunk n junk now (getDiskInodePos p (v_fs v)) (v_fs v) =
      (case map_of (entries bs) n of None \<Rightarrow> (kFail, junk, fs') | Some k \<Rightarrow> (kSuccess, inode_of (v_fs v) k, fs'))"
    "fs_inv fs'" "contents fs' = contents (v_fs v)" "fs' = (v_fs v)\<lparr>device := device fs'\<rparr>" "attrs fs' = attrs (v_fs v)"
    using inode_find_ok[OF i(1) p dirs_okD(1)[OF i(6) p(1)], of dirjunk junk now] unfolding if_P[OF refl] by blast
  have "links_one fs'" using i(8) f(5) by (simp add: links_one_def)
  then have "vfs_inv (v\<lparr>v_fs := fs'\<rparr>)" by (rule vfs_attr_update[OF inv f(2,4) _ f(3)])
  then show ?thesis by (intro that[of "v\<lparr>v_fs := fs'\<rparr>"]) (use f(1,3,4) in \<open>simp_all split: option.splits\<close>)
qed

definition removes :: "tree \<Rightarrow> u32 \<Rightarrow> cstring \<Rightarrow> u32 \<Rightarrow> tree \<Rightarrow> bool" where
  "removes C p n k C' \<longleftrightarrow> (\<exists>q bs bs'. C p = Some (kDirectory, bs) \<and> C' = C(p \<mapsto> (kDirectory, bs'), k := None) \<and>
     q < length (entries bs) \<and> entries bs ! q = (n, k) \<and> entries bs' = butlast ((entries bs)[q := last (entries bs)]))"

lemma sb_unlink_ok:
  assumes "vfs_inv v" "path_ok (ps @ [n])" "lookup (contents (v_fs v)) ps (root_id (v_fs v)) = Some p"
    and "contents (v_fs v) p = Some (kDirectory, bs)" "dir_ok bs"
    and "\<And>k. map_of (entries bs) n = Some k \<Longrightarrow> \<exists>t c. contents (v_fs v) k = Some (t, c) \<and> t \<noteq> kDirectory"
  shows "\<exists>v'. (case map_of (entries bs) n of
        None \<Rightarrow> sb_unlink e (path_of (ps @ [n])) v = Some (- ENOENT, v') \<and> contents (v_fs v') = contents (v_fs v)
      | Some k \<Rightarrow> sb_unlink e (path_of (ps @ [n])) v = Some (0, v') \<and> removes (contents (v_fs v)) p n k (contents (v_fs v'))) \<and>
     vfs_inv v' \<and> v_fd v' = v_fd v"
proof -
  note i = vfs_invD[OF assms(1)]
  have nm: "name_ok n" using assms(2) by (simp add: path_ok_def comp_ok_def)
  note sp = split_parent[OF assms(2)]
  obtain v1 where v1: "vfs_resolve e (path_of ps @ [slash]) v = Some (res_inode (v_fs v) (lookup (contents (v_fs v)) ps (root_id (v_fs v))), v1)"
    "vfs_inv v1" "fs_twin (v_fs v) (v_fs v1)" "v_fd v1 = v_fd v"
    by (rule vfs_resolve_ok[OF assms(1) sp(2)])
  note t = fs_twin_kept[OF i(1) v1(3)]
  have p1: "contents (v_fs v1) p = Some (kDirectory, bs)" using assms(4) t(2) by simp
  obtain v2 where f: "inode_find (e_dirjunk e) n (e_junk e) (e_now e) (getDiskInodePos p (v_fs v1)) (v_fs v1) =
      (case map_of (entries bs) n of None \<Rightarrow> (kFail, e_junk e, v_fs v2) | Some k \<Rightarrow> (kSuccess, inode_of (v_fs v1) k, v_fs v2))"
    "v2 = v1\<lparr>v_fs := v_fs v2\<rparr>" "vfs_inv v2" "contents (v_fs v2) = contents (v_fs v1)" "v_fs v2 = (v_fs v1)\<lparr>device := device (v_fs v2)\<rparr>"
    by (rule find_child[OF v1(2) p1 nm])
  note ee = fs_device_eq[OF f(5)]
  have valid: "Inode_isValid (inode_of (v_fs v) p)" by (rule inode_of_valid[OF i(1)]) (use assms(4) in auto)
  have r1: "vfs_resolve e (path_of ps @ [slash]) v = Some (inode_of (v_fs v) p, v1)" using v1(1) assms(3) by (simp add: res_inode_def)
  have fd2: "v_fd v2 = v_fd v" using v1(4) by (subst f(2)) simp
  show ?thesis
  proof (cases "map_of (entries bs) n")
    case None
    have "sb_unlink e (path_of (ps @ [n])) v = Some (- ENOENT, v2)"
      using None r1 valid f(1) f(2)[symmetric] unfolding sb_unlink_def sp(1) by (simp add: on_inode_def t(3))
    then show ?thesis using None f(3,4) t(2) fd2 by auto
  next
    case (Some k)
    obtain ty c where k: "contents (v_fs v) k = Some (ty, c)" "ty \<noteq> kDirectory" using assms(6)[OF Some] by blast
    have kp: "k \<noteq> p" using k assms(4) by auto
    have leaf: "\<not> edge (contents (v_fs v2)) k m j" for m j using k f(4) t(2) by (simp add: edge_def dir_of_def)
    have p2: "lookup (contents (v_fs v2)) ps (root_id (v_fs v2)) = Some p" "contents (v_fs v2) p = Some (kDirectory, bs)"
      using assms(3,4) f(4) t(2,5) ee(3) by simp_all
    obtain q bs' fs3 v4 where r: "inode_remove (e_dirjunk e) n (e_now e) (getDiskInodePos p (v_fs v2)) (v_fs v2) = (kSuccess, fs3)"
      "vfs_removePrefix (path_of (ps @ [n])) (v2\<lparr>v_fs := fs3\<rparr>) = Some v4" "vfs_inv v4" "v_fd v4 = v_fd v2"
      "contents (v_fs v4) = (contents (v_fs v2))(p \<mapsto> (kDirectory, bs'), k := None)"
      "q < length (entries bs)" "entries bs ! q = (n, k)" "entries bs' = butlast ((entries bs)[q := last (entries bs)])"
      by (rule remove_ok[OF f(3) assms(2) p2 assms(5) Some kp leaf])
    have "v2\<lparr>v_fs := fs3\<rparr> = v1\<lparr>v_fs := fs3\<rparr>" by (subst f(2)) simp
    then have "sb_unlink e (path_of (ps @ [n])) v = Some (0, v4)"
      using Some r1 valid f(1) f(2)[symmetric] r(1,2) unfolding sb_unlink_def sp(1) by (simp add: on_inode_def t(3) ee(1))
    moreover have "removes (contents (v_fs v)) p n k (contents (v_fs v4))"
      unfolding removes_def using assms(4) r(5-8) f(4) t(2) by auto
    ultimately show ?thesis using Some r(3,4) fd2 by auto
  qed
qed

text \<open>C6: \<open>unlink\<close> of a file removes its name from the directory that the rest of the path leads to, and the file;
  it changes no other file and keeps the invariant, so no path in the cache leads to the removed file. If the
  directory has no such name, the call fails with \<open>ENOENT\<close> and changes nothing.\<close>

theorem sb_unlink_refines:
  assumes "vfs_inv v" "path_ok (ps @ [n])" "lookup (contents (v_fs v)) ps (root_id (v_fs v)) = Some p"
    and "contents (v_fs v) p = Some (kDirectory, bs)" "dir_ok bs"
    and "\<And>k. map_of (entries bs) n = Some k \<Longrightarrow> \<exists>t c. contents (v_fs v) k = Some (t, c) \<and> t \<noteq> kDirectory"
  shows "\<exists>v'. (case map_of (entries bs) n of
        None \<Rightarrow> sb_unlink e (path_of (ps @ [n])) v = Some (- ENOENT, v') \<and> contents (v_fs v') = contents (v_fs v)
      | Some k \<Rightarrow> sb_unlink e (path_of (ps @ [n])) v = Some (0, v') \<and> removes (contents (v_fs v)) p n k (contents (v_fs v'))) \<and>
     vfs_inv v' \<and> v_fd v' = v_fd v"
  by (rule sb_unlink_ok[OF assms])

section \<open>The names in a block\<close>

lemma valid_name: "DirEntry_isValid m p \<longleftrightarrow> entry_name m p \<noteq> []"
proof -
  have "[0..<kMaxDirNameLength + 1] = 0 # [1..<kMaxDirNameLength + 1]" by (simp add: upt_conv_Cons del: upt_Suc)
  then show ?thesis unfolding entry_name_def by (simp add: DirEntry_isValid_def del: upt_Suc)
qed

lemma block_names:
  assumes y: "\<And>b. b < 256 * m \<Longrightarrow> y b = bs ! (4096 * i + b)" "\<And>b. 256 * m \<le> b \<Longrightarrow> y b = DirBlock_new junk b" and m: "m \<le> 16"
  shows "map (\<lambda>j. entry_name y (j * sizeof_DirEntry)) (filter (\<lambda>j. DirEntry_isValid y (j * sizeof_DirEntry)) [0..<kDirEntries]) =
     filter (\<lambda>n. n \<noteq> []) (map (\<lambda>q. fst (entry_at bs q)) [16 * i..<16 * i + m])"
proof -
  have k: "kDirEntries = 16" "sizeof_DirEntry = 256" by (simp_all add: kDirEntries_def kBlockSize_def sizeof_DirEntry_def)
  have lo: "entry_name y (j * 256) = fst (entry_at bs (16 * i + j))" if "j < m" for j
  proof -
    have "entry_at bs (16 * i + j) = (entry_name y (j * 256), DirEntry_inode y (j * 256))"
      by (rule entry_at_cong) (use that in \<open>simp add: y(1) algebra_simps\<close>)
    then show ?thesis by simp
  qed
  have hi: "entry_name y (j * 256) = []" if "m \<le> j" "j < 16" for j
  proof -
    have "entry_name y (j * 256) = entry_name (DirBlock_new junk) (256 * j)"
      by (rule entry_name_cong) (use that in \<open>simp add: y(2) mult.commute\<close>)
    then show ?thesis using DirBlock_new_empty(1)[OF that(2)] by simp
  qed
  have "map (\<lambda>j. entry_name y (j * 256)) [m..<16] = replicate (16 - m) []"
    by (rule nth_equalityI) (use hi[of "m + _"] in \<open>simp_all add: add_mult_distrib\<close>)
  moreover have "[0..<16] = [0..<m] @ [m..<16]" using m by (simp add: upt_split)
  ultimately have "map (\<lambda>j. entry_name y (j * 256)) [0..<16] =
      map (\<lambda>j. fst (entry_at bs (16 * i + j))) [0..<m] @ replicate (16 - m) []"
    using lo by simp
  moreover have "map (\<lambda>j. fst (entry_at bs (16 * i + j))) [0..<m] = map (\<lambda>q. fst (entry_at bs q)) [16 * i..<16 * i + m]"
    by (rule nth_equalityI) simp_all
  ultimately have "filter (\<lambda>n. n \<noteq> []) (map (\<lambda>j. entry_name y (j * 256)) [0..<16]) =
      filter (\<lambda>n. n \<noteq> []) (map (\<lambda>q. fst (entry_at bs q)) [16 * i..<16 * i + m])"
    by (simp only: filter_append) simp
  then show ?thesis unfolding k valid_name filter_map comp_def by simp
qed

text \<open>Reading a block of a directory into a fresh buffer.\<close>

lemma read_block_names:
  assumes inv: "vfs_inv v" and d: "contents (v_fs v) k = Some (kDirectory, bs)" and i: "4096 * i \<le> length bs"
  obtains r y m v' where "inode_read_data (of_nat (i * sizeof_DirBlock)) (DirBlock_new junk) (of_nat sizeof_DirBlock) now
      (getDiskInodePos k (v_fs v)) (v_fs v) = (r, y, v_fs v')" "v' = v\<lparr>v_fs := v_fs v'\<rparr>" "vfs_inv v'" "contents (v_fs v') = contents (v_fs v)"
    "map (\<lambda>j. entry_name y (j * sizeof_DirEntry)) (filter (\<lambda>j. DirEntry_isValid y (j * sizeof_DirEntry)) [0..<kDirEntries]) =
       map (\<lambda>q. fst (entry_at bs q)) [16 * i..<16 * i + m]" "m = min 16 (length bs div 256 - 16 * i)"
    "v_fs v' = (v_fs v)\<lparr>device := device (v_fs v')\<rparr>"
proof -
  note iv = vfs_invD[OF inv]
  have b: "256 dvd length bs" "length bs + 8192 < 2 ^ 31" using dirs_okD(1)[OF iv(6) d] by simp_all
  let ?o = "of_nat (i * sizeof_DirBlock) :: u32" and ?l = "of_nat sizeof_DirBlock :: u32"
  have o: "unat ?o = 4096 * i" "unat ?l = 4096"
    using i b(2) unat_of_nat_u32[of "i * 4096"] by (simp_all add: sizeof_DirBlock_def kBlockSize_def)
  define m where "m = min 16 (length bs div 256 - 16 * i)"
  have l: "0 < ?l" "unat ?o + unat ?l < 2 ^ 31" "unat ?o < length bs \<or> unat ?o = length bs"
    using i b(2) unfolding word_less_nat_alt o by auto
  obtain r y fs' where w: "inode_read_data ?o (DirBlock_new junk) ?l now (getDiskInodePos k (v_fs v)) (v_fs v) = (r, y, fs')"
    "fs_inv fs'" "contents fs' = contents (v_fs v)" "attrs fs' = attrs (v_fs v)" "fs' = (v_fs v)\<lparr>device := device fs'\<rparr>"
    "nat r = length (take 4096 (drop (4096 * i) bs))" "mem_bytes y (nat r) = take 4096 (drop (4096 * i) bs)" "\<forall>x \<ge> nat r. y x = DirBlock_new junk x"
    using inode_read_contents[OF iv(1) d l(1,2), of "DirBlock_new junk" now] l(3) unfolding o by (auto simp: kFail_def mem_bytes_def)
  have n: "length (take 4096 (drop (4096 * i) bs)) = 256 * m" using b(1) by (auto simp: m_def elim!: dvdE)
  have lk: "links_one fs'" using iv(8) w(4) by (simp add: links_one_def)
  have y1: "y b = bs ! (4096 * i + b)" if "b < 256 * m" for b
  proof -
    have "y b = mem_bytes y (nat r) ! b" using that w(6) n by simp
    also have "\<dots> = take 4096 (drop (4096 * i) bs) ! b" by (simp only: w(7))
    also have "\<dots> = bs ! (4096 * i + b)" using that n i by simp
    finally show ?thesis .
  qed
  have "map (\<lambda>j. entry_name y (j * sizeof_DirEntry)) (filter (\<lambda>j. DirEntry_isValid y (j * sizeof_DirEntry)) [0..<kDirEntries]) =
      filter (\<lambda>n. n \<noteq> []) (map (\<lambda>q. fst (entry_at bs q)) [16 * i..<16 * i + m])"
    by (rule block_names[OF y1]) (use w(6,8) n in \<open>simp_all add: m_def\<close>)
  moreover have "filter (\<lambda>n. n \<noteq> []) (map (\<lambda>q. fst (entry_at bs q)) [16 * i..<16 * i + m]) = map (\<lambda>q. fst (entry_at bs q)) [16 * i..<16 * i + m]"
  proof -
    have "[] \<notin> fst ` set (entries bs)" using dirs_okD(4)[OF iv(6), of k] d by (simp add: dir_of_def)
    then have ne: "fst (entry_at bs q) \<noteq> []" if "q < length bs div 256" for q using that by (force simp: entries_def)
    have "q < length bs div 256" if "q \<in> set [16 * i..<16 * i + m]" for q using that by (auto simp: m_def)
    then show ?thesis unfolding filter_id_conv using ne by simp
  qed
  ultimately have nm: "map (\<lambda>j. entry_name y (j * sizeof_DirEntry)) (filter (\<lambda>j. DirEntry_isValid y (j * sizeof_DirEntry)) [0..<kDirEntries]) =
      map (\<lambda>q. fst (entry_at bs q)) [16 * i..<16 * i + m]" by (rule trans)
  show ?thesis
  proof (rule that[of r y "v\<lparr>v_fs := fs'\<rparr>" m])
    show "vfs_inv (v\<lparr>v_fs := fs'\<rparr>)" by (rule vfs_attr_update[OF inv w(2,5) lk w(3)])
    show "v_fs (v\<lparr>v_fs := fs'\<rparr>) = (v_fs v)\<lparr>device := device (v_fs (v\<lparr>v_fs := fs'\<rparr>))\<rparr>" using w(5) by simp
  qed (simp_all only: w(1) nm m_def, simp_all add: w(3))
qed

section \<open>Listing a directory\<close>

lemma readdir_blocks_ok:
  assumes "vfs_inv v" "contents (v_fs v) k = Some (kDirectory, bs)" "N = nblocks (length bs)" "i \<le> N"
    and "p = getDiskInodePos k (v_fs v)"
  shows "\<exists>v'. readdir_blocks [i..<N] e p names (v_fs v) =
      (names @ map (\<lambda>q. fst (entry_at bs q)) [16 * i..<length bs div 256], v_fs v') \<and> v' = v\<lparr>v_fs := v_fs v'\<rparr> \<and> vfs_inv v' \<and>
     contents (v_fs v') = contents (v_fs v)"
  using assms
proof (induction "N - i" arbitrary: i names v)
  case 0
  then have "[16 * i..<length bs div 256] = []" by auto
  then show ?case using 0 by (intro exI[of _ v]) simp
next
  case (Suc x)
  have i: "i < N" "4096 * i < length bs" using Suc.hyps(2) Suc.prems(3) by auto
  obtain r y m v1 where r: "inode_read_data (of_nat (i * sizeof_DirBlock)) (DirBlock_new (e_dirjunk e)) (of_nat sizeof_DirBlock) (e_now e)
      (getDiskInodePos k (v_fs v)) (v_fs v) = (r, y, v_fs v1)" "v1 = v\<lparr>v_fs := v_fs v1\<rparr>" "vfs_inv v1" "contents (v_fs v1) = contents (v_fs v)"
    "map (\<lambda>j. entry_name y (j * sizeof_DirEntry)) (filter (\<lambda>j. DirEntry_isValid y (j * sizeof_DirEntry)) [0..<kDirEntries]) =
       map (\<lambda>q. fst (entry_at bs q)) [16 * i..<16 * i + m]" "m = min 16 (length bs div 256 - 16 * i)"
    "v_fs v1 = (v_fs v)\<lparr>device := device (v_fs v1)\<rparr>"
    by (rule read_block_names[OF Suc.prems(1,2) less_imp_le[OF i(2)]])
  note ee = fs_device_eq[OF r(7)]
  define names1 where "names1 = names @ map (\<lambda>q. fst (entry_at bs q)) [16 * i..<16 * i + m]"
  have "\<exists>v'. readdir_blocks [Suc i..<N] e p names1 (v_fs v1) =
      (names1 @ map (\<lambda>q. fst (entry_at bs q)) [16 * Suc i..<length bs div 256], v_fs v') \<and> v' = v1\<lparr>v_fs := v_fs v'\<rparr> \<and> vfs_inv v' \<and>
     contents (v_fs v') = contents (v_fs v1)"
    by (rule Suc.hyps(1)) (use Suc.hyps(2) Suc.prems r(3,4) i ee in simp_all)
  then obtain v' where v': "readdir_blocks [Suc i..<N] e p names1 (v_fs v1) =
      (names1 @ map (\<lambda>q. fst (entry_at bs q)) [16 * Suc i..<length bs div 256], v_fs v')" "v' = v1\<lparr>v_fs := v_fs v'\<rparr>" "vfs_inv v'"
     "contents (v_fs v') = contents (v_fs v1)" by blast
  have "[16 * i..<16 * i + m] @ [16 * Suc i..<length bs div 256] = [16 * i..<length bs div 256]"
  proof (cases "m = 16")
    case True
    then have "16 * i + m = 16 * Suc i" "16 * Suc i \<le> length bs div 256" using r(6) i(2) by auto
    then show ?thesis using upt_split[of "16 * i" "16 * i + m" "length bs div 256"] by (simp add: add.commute)
  next
    case False
    then have "16 * i + m = length bs div 256" using r(6) i(2) Suc.prems by auto
    then show ?thesis using False r(6) by auto
  qed
  then have nm: "names1 @ map (\<lambda>q. fst (entry_at bs q)) [16 * Suc i..<length bs div 256] =
      names @ map (\<lambda>q. fst (entry_at bs q)) [16 * i..<length bs div 256]"
    unfolding names1_def append_assoc map_append[symmetric] by simp
  have "readdir_blocks [i..<N] e p names (v_fs v) = readdir_blocks [Suc i..<N] e p names1 (v_fs v1)"
    unfolding upt_conv_Cons[OF i(1)] readdir_blocks.simps Suc.prems(5) r(1) by (simp add: r(5) names1_def)
  moreover have "v' = v\<lparr>v_fs := v_fs v'\<rparr>" using v'(2) by (subst (asm) r(2)) simp
  ultimately show ?case using v' nm r(4) by auto
qed

text \<open>Reading the inode of a file, as the handlers do before they look at its type and size.\<close>

lemma read_disk_inode:
  assumes inv: "vfs_inv v" and k: "contents (v_fs v) k = Some (t, bs)"
  obtains ino d where "read_inode (getDiskInodePos k (v_fs v)) buf (device (v_fs v)) = (kSuccess, ino, d)" "ino = inode_at (v_fs v) k"
    "di_type ino = t" "unat (di_size ino) = length bs" "vfs_inv (v\<lparr>v_fs := (v_fs v)\<lparr>device := d\<rparr>\<rparr>)"
    "contents ((v_fs v)\<lparr>device := d\<rparr>) = contents (v_fs v)"
proof -
  note i = vfs_invD[OF inv] and c = contents_live[OF k]
  define ino where "ino = inode_at (v_fs v) k"
  obtain d where d: "read_inode (getDiskInodePos k (v_fs v)) buf (device (v_fs v)) = (kSuccess, ino, d)" "held (v_fs v) (files (v_fs v)) {} d"
    "cont (files (v_fs v)) d = cont (files (v_fs v)) (device (v_fs v))" "dev_view d = dev_view (device (v_fs v))"
    by (rule held_read[OF held_start[OF i(1)], of k ino buf]) (use fs_invD(6)[OF i(1) c(1)] in \<open>simp_all add: ino_def\<close>)
  note e = held_end[OF d(2)]
  have ct: "contents ((v_fs v)\<lparr>device := d\<rparr>) = contents (v_fs v)" unfolding e(3) d(3) by (simp only: contents_cont)
  have "attrs ((v_fs v)\<lparr>device := d\<rparr>) = attrs (v_fs v)" by (rule ext) (simp add: attrs_def e(2))
  then have "links_one ((v_fs v)\<lparr>device := d\<rparr>)" using i(8) by (simp add: links_one_def)
  then have "vfs_inv (v\<lparr>v_fs := (v_fs v)\<lparr>device := d\<rparr>\<rparr>)" by (intro vfs_attr_update[OF inv e(1) _ _ ct]) simp_all
  then show ?thesis using that[OF d(1) ino_def _ _ _ ct] c by (simp add: ino_def)
qed

lemma total_blocks_small: "length bs = unat (di_size ino) \<Longrightarrow> length bs \<le> 22 * 4096 \<Longrightarrow> unat (total_blocks (di_size ino)) = nblocks (length bs)"
proof -
  assume a: "length bs = unat (di_size ino)" "length bs \<le> 22 * 4096"
  have "nblocks (length bs) \<le> nblocks (22 * 4096)" by (rule div_le_mono) (use a(2) in simp)
  then have "nblocks (length bs) \<le> 22" by simp
  then show ?thesis unfolding unat_total_blocks unat_data_blocks a(1) by (simp add: tree_size_def)
qed

lemma sb_readdir_ok:
  assumes "vfs_inv v" "names_path path ps"
    and "\<forall>k t bs. lookup (contents (v_fs v)) ps (root_id (v_fs v)) = Some k \<and> contents (v_fs v) k = Some (t, bs) \<longrightarrow>
      length bs \<le> 22 * 4096"
  shows "\<exists>v'. (case lookup (contents (v_fs v)) ps (root_id (v_fs v)) of
        None \<Rightarrow> sb_readdir e path v = Some (- ENOENT, [], v')
      | Some k \<Rightarrow> (case contents (v_fs v) k of None \<Rightarrow> False
          | Some (t, bs) \<Rightarrow> sb_readdir e path v =
              (if t = kDirectory then Some (0, map fst (entries bs), v') else Some (- ENOTDIR, [], v')))) \<and>
     vfs_inv v' \<and> contents (v_fs v') = contents (v_fs v) \<and> v_fd v' = v_fd v"
proof -
  note i = vfs_invD[OF assms(1)]
  obtain v1 where v1: "vfs_resolve e path v = Some (res_inode (v_fs v) (lookup (contents (v_fs v)) ps (root_id (v_fs v))), v1)"
    "vfs_inv v1" "fs_twin (v_fs v) (v_fs v1)" "v_fd v1 = v_fd v"
    by (rule vfs_resolve_ok[OF assms(1,2)])
  note t = fs_twin_kept[OF i(1) v1(3)]
  show ?thesis
  proof (cases "lookup (contents (v_fs v)) ps (root_id (v_fs v))")
    case None
    have "\<not> Inode_isValid Inode_invalid" by (simp add: Inode_isValid_def Inode_invalid_def Position_isValid_def Position_invalid_def)
    then have "sb_readdir e path v = Some (- ENOENT, [], v1)" using None v1(1) by (simp add: sb_readdir_def res_inode_def)
    then show ?thesis using None v1(2,4) t(2) by auto
  next
    case (Some k)
    have "k \<in> dom (contents (v_fs v))" by (rule lookup_dom[OF i(6,7) Some])
    then obtain ty bs where k: "contents (v_fs v) k = Some (ty, bs)" by auto
    have valid: "Inode_isValid (inode_of (v_fs v) k)" by (rule inode_of_valid[OF i(1)]) (use k in auto)
    have k1: "contents (v_fs v1) k = Some (ty, bs)" using k t(2) by simp
    obtain ino d where r: "read_inode (getDiskInodePos k (v_fs v1)) (DiskInode_new kDirectory (e_now e) (e_uid e) (e_gid e)) (device (v_fs v1)) = (kSuccess, ino, d)"
      "ino = inode_at (v_fs v1) k" "di_type ino = ty" "unat (di_size ino) = length bs" "vfs_inv (v1\<lparr>v_fs := (v_fs v1)\<lparr>device := d\<rparr>\<rparr>)"
      "contents ((v_fs v1)\<lparr>device := d\<rparr>) = contents (v_fs v1)"
      by (rule read_disk_inode[OF v1(2) k1])
    define v2 where "v2 = v1\<lparr>v_fs := (v_fs v1)\<lparr>device := d\<rparr>\<rparr>"
    have c2: "contents (v_fs v2) = contents (v_fs v)" using r(6) t(2) by (simp add: v2_def)
    have pos: "getDiskInodePos k (v_fs v2) = getDiskInodePos k (v_fs v)" by (simp add: v2_def t(3))
    show ?thesis
    proof (cases "ty = kDirectory")
      case True
      have k2: "contents (v_fs v2) k = Some (kDirectory, bs)" using k c2 True by simp
      have tb: "unat (total_blocks (di_size ino)) = nblocks (length bs)" by (rule total_blocks_small) (use r(4) assms(3) Some k in simp_all)
      obtain v3 where v3: "readdir_blocks [0..<nblocks (length bs)] e (getDiskInodePos k (v_fs v)) [] (v_fs v2) =
          ([] @ map (\<lambda>q. fst (entry_at bs q)) [16 * 0..<length bs div 256], v_fs v3)" "v3 = v2\<lparr>v_fs := v_fs v3\<rparr>" "vfs_inv v3"
        "contents (v_fs v3) = contents (v_fs v2)"
        using readdir_blocks_ok[OF r(5)[folded v2_def] k2 refl le0 pos[symmetric], of e "[]"] by blast
      have fd: "v_fd v3 = v_fd v" using v1(4) by (subst v3(2)) (simp add: v2_def)
      have "sb_readdir e path v = Some (0, map fst (entries bs), v3)"
        using Some v1(1) valid r(1,3) True v3(1)[unfolded v2_def] v3(2)[unfolded v2_def, symmetric] t(3) tb
        by (simp add: sb_readdir_def res_inode_def on_inode_def entries_def comp_def)
      then show ?thesis using Some k True v3(3,4) c2 fd by auto
    next
      case False
      have "sb_readdir e path v = Some (- ENOTDIR, [], v2)"
        using Some v1(1) valid r(1,3) False t(3) by (simp add: sb_readdir_def res_inode_def on_inode_def v2_def)
      then show ?thesis using Some k False r(5)[folded v2_def] c2 v1(4) by (auto simp: v2_def)
    qed
  qed
qed


section \<open>Removing a directory\<close>

lemma strcmp_dots: "strcmp_eq m p dot \<longleftrightarrow> entry_name m p = dot" "strcmp_eq m p dotdot \<longleftrightarrow> entry_name m p = dotdot"
  using name_ok_dots by (auto simp: name_ok_def strcmp_entry_name)

lemma block_plain:
  "(\<exists>j \<in> set [0..<kDirEntries]. DirEntry_isValid y (j * sizeof_DirEntry) \<and> \<not> strcmp_eq y (j * sizeof_DirEntry) dot \<and>
      \<not> strcmp_eq y (j * sizeof_DirEntry) dotdot) \<longleftrightarrow>
   (\<exists>m \<in> set (map (\<lambda>j. entry_name y (j * sizeof_DirEntry)) (filter (\<lambda>j. DirEntry_isValid y (j * sizeof_DirEntry)) [0..<kDirEntries])). plain m)"
  unfolding strcmp_dots plain_def by auto

lemma total_blocks_one: "length bs = unat (di_size ino) \<Longrightarrow> total_blocks (di_size ino) > 1 \<longleftrightarrow> 4096 < length bs"
proof -
  assume a: "length bs = unat (di_size ino)"
  have "1 < nblocks (length bs) \<longleftrightarrow> 4096 < length bs" by auto
  then show ?thesis unfolding word_less_nat_alt unat_total_blocks unat_data_blocks a by (auto simp: tree_size_def)
qed

definition holds_names :: "u8 list \<Rightarrow> bool" where
  "holds_names bs \<longleftrightarrow> 4096 < length bs \<or> (\<exists>m \<in> fst ` set (entries bs). plain m)"

text \<open>What \<open>rmdir\<close> does after the type and the size are found to be right: the test of the names, and the removal.\<close>

definition rmdir_tail :: "env \<Rightarrow> cstring \<Rightarrow> cstring \<Rightarrow> Inode \<Rightarrow> Inode \<Rightarrow> vfs \<Rightarrow> (int \<times> vfs) option" where
  "rmdir_tail e path n dir kid v =
     on_inode kid (inode_read_data 0 (DirBlock_new (e_dirjunk e)) (of_nat sizeof_DirBlock) (e_now e)) v \<bind> (\<lambda>(dir_ret, dir_block, fs4).
       if \<exists>m \<in> set (map (\<lambda>j. entry_name dir_block (j * sizeof_DirEntry))
            (filter (\<lambda>j. DirEntry_isValid dir_block (j * sizeof_DirEntry)) [0..<kDirEntries])). plain m
       then Some (- ENOTEMPTY, v\<lparr>v_fs := fs4\<rparr>)
       else on_inode dir (inode_remove (e_dirjunk e) n (e_now e)) (v\<lparr>v_fs := fs4\<rparr>) \<bind> (\<lambda>(_, fs5).
         vfs_removePrefix path (v\<lparr>v_fs := fs5\<rparr>) \<bind> (\<lambda>v6. Some (0, v6))))"

lemma rmdir_start:
  assumes inv: "vfs_inv v" and path: "path_ok (ps @ [n])" "lookup (contents (v_fs v)) ps (root_id (v_fs v)) = Some p"
    and p: "contents (v_fs v) p = Some (kDirectory, bs)" "map_of (entries bs) n = Some k" and k: "contents (v_fs v) k = Some (t, kbs)"
  obtains v3 where "vfs_inv v3" "contents (v_fs v3) = contents (v_fs v)" "v_fd v3 = v_fd v" "root_id (v_fs v3) = root_id (v_fs v)"
    "\<forall>x. getDiskInodePos x (v_fs v3) = getDiskInodePos x (v_fs v)"
    "sb_rmdir e (path_of (ps @ [n])) v = (if t \<noteq> kDirectory then Some (- ENOTDIR, v3) else if 4096 < length kbs then Some (- ENOTEMPTY, v3)
       else rmdir_tail e (path_of (ps @ [n])) n (inode_of (v_fs v) p) (inode_of (v_fs v) k) v3)"
proof -
  note i = vfs_invD[OF inv] and sp = split_parent[OF path(1)]
  have nm: "name_ok n" using path(1) by (simp add: path_ok_def comp_ok_def)
  obtain v1 where v1: "vfs_resolve e (path_of ps @ [slash]) v = Some (res_inode (v_fs v) (lookup (contents (v_fs v)) ps (root_id (v_fs v))), v1)"
    "vfs_inv v1" "fs_twin (v_fs v) (v_fs v1)" "v_fd v1 = v_fd v"
    by (rule vfs_resolve_ok[OF inv sp(2)])
  note t = fs_twin_kept[OF i(1) v1(3)]
  have p1: "contents (v_fs v1) p = Some (kDirectory, bs)" using p(1) t(2) by simp
  obtain v2 where f0: "inode_find (e_dirjunk e) n (e_junk e) (e_now e) (getDiskInodePos p (v_fs v1)) (v_fs v1) =
      (case map_of (entries bs) n of None \<Rightarrow> (kFail, e_junk e, v_fs v2) | Some k \<Rightarrow> (kSuccess, inode_of (v_fs v1) k, v_fs v2))"
    "v2 = v1\<lparr>v_fs := v_fs v2\<rparr>" "vfs_inv v2" "contents (v_fs v2) = contents (v_fs v1)" "v_fs v2 = (v_fs v1)\<lparr>device := device (v_fs v2)\<rparr>"
    by (rule find_child[OF v1(2) p1 nm])
  have f: "inode_find (e_dirjunk e) n (e_junk e) (e_now e) (getDiskInodePos p (v_fs v)) (v_fs v1) = (kSuccess, inode_of (v_fs v) k, v_fs v2)"
    using f0(1) p(2) t(3) by simp
  note ee = fs_device_eq[OF f0(5)]
  have pos2: "getDiskInodePos x (v_fs v2) = getDiskInodePos x (v_fs v)" for x using ee(1) t(3) by simp
  have c2: "contents (v_fs v2) = contents (v_fs v)" "v_fd v2 = v_fd v" using f0(4) t(2) v1(4) by simp (subst f0(2), simp add: v1(4))
  have valid: "Inode_isValid (inode_of (v_fs v) p)" by (rule inode_of_valid[OF i(1)]) (use p(1) in auto)
  have r1: "vfs_resolve e (path_of ps @ [slash]) v = Some (inode_of (v_fs v) p, v1)" using v1(1) path(2) by (simp add: res_inode_def)
  have k2: "contents (v_fs v2) k = Some (t, kbs)" using k c2 by simp
  obtain ino d where r: "read_inode (getDiskInodePos k (v_fs v2)) (DiskInode_new kDirectory (e_now e) (e_uid e) (e_gid e)) (device (v_fs v2)) = (kSuccess, ino, d)"
    "ino = inode_at (v_fs v2) k" "di_type ino = t" "unat (di_size ino) = length kbs" "vfs_inv (v2\<lparr>v_fs := (v_fs v2)\<lparr>device := d\<rparr>\<rparr>)"
    "contents ((v_fs v2)\<lparr>device := d\<rparr>) = contents (v_fs v2)"
    by (rule read_disk_inode[OF f0(3) k2])
  note tb = total_blocks_one[OF r(4)[symmetric]]
  have up: "v1\<lparr>v_fs := x\<rparr> = v2\<lparr>v_fs := x\<rparr>" for x by (subst f0(2)) simp
  have "sb_rmdir e (path_of (ps @ [n])) v = (if t \<noteq> kDirectory then Some (- ENOTDIR, v2\<lparr>v_fs := (v_fs v2)\<lparr>device := d\<rparr>\<rparr>)
      else if 4096 < length kbs then Some (- ENOTEMPTY, v2\<lparr>v_fs := (v_fs v2)\<lparr>device := d\<rparr>\<rparr>)
      else rmdir_tail e (path_of (ps @ [n])) n (inode_of (v_fs v) p) (inode_of (v_fs v) k) (v2\<lparr>v_fs := (v_fs v2)\<lparr>device := d\<rparr>\<rparr>))"
    unfolding sb_rmdir_def sp(1) Let_def block_plain rmdir_tail_def
    using r1 valid f r(1,3) tb up pos2 by (simp add: on_inode_def cong: if_cong)
  with r(5) show ?thesis by (intro that) (use r(6) c2 ee(3) t(5) pos2 in simp_all)
qed

lemma rmdir_tail_ok:
  assumes inv: "vfs_inv v" and k: "contents (v_fs v) k = Some (kDirectory, kbs)" "length kbs \<le> 4096"
  obtains v4 where "vfs_inv v4" "contents (v_fs v4) = contents (v_fs v)" "v_fd v4 = v_fd v" "root_id (v_fs v4) = root_id (v_fs v)"
    "getDiskInodePos p (v_fs v4) = getDiskInodePos p (v_fs v)"
    "rmdir_tail e path n (inode_of (v_fs v) p) (inode_of (v_fs v) k) v = (if \<exists>m \<in> fst ` set (entries kbs). plain m then Some (- ENOTEMPTY, v4)
       else case inode_remove (e_dirjunk e) n (e_now e) (getDiskInodePos p (v_fs v4)) (v_fs v4) of (_, fs5) \<Rightarrow>
         vfs_removePrefix path (v4\<lparr>v_fs := fs5\<rparr>) \<bind> (\<lambda>v6. Some (0, v6)))"
proof -
  have i0: "4096 * 0 \<le> length kbs" by simp
  obtain rr y m v4 where b: "inode_read_data (of_nat (0 * sizeof_DirBlock)) (DirBlock_new (e_dirjunk e)) (of_nat sizeof_DirBlock) (e_now e)
      (getDiskInodePos k (v_fs v)) (v_fs v) = (rr, y, v_fs v4)" "v4 = v\<lparr>v_fs := v_fs v4\<rparr>" "vfs_inv v4" "contents (v_fs v4) = contents (v_fs v)"
    "map (\<lambda>j. entry_name y (j * sizeof_DirEntry)) (filter (\<lambda>j. DirEntry_isValid y (j * sizeof_DirEntry)) [0..<kDirEntries]) =
       map (\<lambda>q. fst (entry_at kbs q)) [16 * 0..<16 * 0 + m]" "m = min 16 (length kbs div 256 - 16 * 0)"
    "v_fs v4 = (v_fs v)\<lparr>device := device (v_fs v4)\<rparr>"
    by (rule read_block_names[OF inv k(1) i0])
  note e4 = fs_device_eq[OF b(7)]
  have "length kbs div 256 \<le> 16" using div_le_mono[OF k(2), of 256] by simp
  then have "m = length kbs div 256" using b(6) by simp
  then have names: "set (map (\<lambda>j. entry_name y (j * sizeof_DirEntry)) (filter (\<lambda>j. DirEntry_isValid y (j * sizeof_DirEntry)) [0..<kDirEntries])) =
      fst ` set (entries kbs)" unfolding b(5) by (simp add: entries_def image_image)
  have up: "v\<lparr>v_fs := x\<rparr> = v4\<lparr>v_fs := x\<rparr>" for x by (subst b(2)) simp
  have on: "on_inode (inode_of (v_fs v) k) (inode_read_data 0 (DirBlock_new (e_dirjunk e)) (of_nat sizeof_DirBlock) (e_now e)) v = Some (rr, y, v_fs v4)"
    using b(1) by (simp add: on_inode_def)
  have "rmdir_tail e path n (inode_of (v_fs v) p) (inode_of (v_fs v) k) v = (if \<exists>m \<in> fst ` set (entries kbs). plain m then Some (- ENOTEMPTY, v4)
       else case inode_remove (e_dirjunk e) n (e_now e) (getDiskInodePos p (v_fs v4)) (v_fs v4) of (_, fs5) \<Rightarrow>
         vfs_removePrefix path (v4\<lparr>v_fs := fs5\<rparr>) \<bind> (\<lambda>v6. Some (0, v6)))"
    unfolding rmdir_tail_def on bind.simps prod.case names up e4(1) by (simp add: on_inode_def)
  then show ?thesis by (rule that[OF b(3,4) _ e4(3) e4(1), rotated]) (subst b(2), simp)
qed

lemma sb_rmdir_ok:
  assumes "vfs_inv v" "path_ok (ps @ [n])" "lookup (contents (v_fs v)) ps (root_id (v_fs v)) = Some p"
    and "contents (v_fs v) p = Some (kDirectory, bs)" "dir_ok bs" "map_of (entries bs) n = Some k"
    and "contents (v_fs v) k = Some (t, kbs)"
  shows "\<exists>v'. sb_rmdir e (path_of (ps @ [n])) v =
       Some (if t \<noteq> kDirectory then - ENOTDIR else if holds_names kbs then - ENOTEMPTY else 0, v') \<and> vfs_inv v' \<and> v_fd v' = v_fd v \<and>
     (if t \<noteq> kDirectory \<or> holds_names kbs then contents (v_fs v') = contents (v_fs v)
      else removes (contents (v_fs v)) p n k (contents (v_fs v')))"
proof -
  obtain v3 where v3: "vfs_inv v3" "contents (v_fs v3) = contents (v_fs v)" "v_fd v3 = v_fd v" "root_id (v_fs v3) = root_id (v_fs v)"
    "\<forall>x. getDiskInodePos x (v_fs v3) = getDiskInodePos x (v_fs v)"
    "sb_rmdir e (path_of (ps @ [n])) v = (if t \<noteq> kDirectory then Some (- ENOTDIR, v3) else if 4096 < length kbs then Some (- ENOTEMPTY, v3)
       else rmdir_tail e (path_of (ps @ [n])) n (inode_of (v_fs v) p) (inode_of (v_fs v) k) v3)"
    by (rule rmdir_start[OF assms(1-4,6,7)])
  show ?thesis
  proof (cases "t \<noteq> kDirectory \<or> 4096 < length kbs")
    case True
    then show ?thesis using v3 by (auto simp: holds_names_def intro!: exI[of _ v3])
  next
    case False
    then have k: "contents (v_fs v3) k = Some (kDirectory, kbs)" "length kbs \<le> 4096" "t = kDirectory" using assms(7) v3(2) by simp_all
    obtain v4 where v4: "vfs_inv v4" "contents (v_fs v4) = contents (v_fs v3)" "v_fd v4 = v_fd v3" "root_id (v_fs v4) = root_id (v_fs v3)"
      "getDiskInodePos p (v_fs v4) = getDiskInodePos p (v_fs v3)"
      "rmdir_tail e (path_of (ps @ [n])) n (inode_of (v_fs v3) p) (inode_of (v_fs v3) k) v3 = (if \<exists>m \<in> fst ` set (entries kbs). plain m then Some (- ENOTEMPTY, v4)
         else case inode_remove (e_dirjunk e) n (e_now e) (getDiskInodePos p (v_fs v4)) (v_fs v4) of (_, fs5) \<Rightarrow>
           vfs_removePrefix (path_of (ps @ [n])) (v4\<lparr>v_fs := fs5\<rparr>) \<bind> (\<lambda>v6. Some (0, v6)))"
      by (rule rmdir_tail_ok[OF v3(1) k(1,2)])
    note run = v3(6)[unfolded v3(5)[rule_format, symmetric] v4(6)]
    show ?thesis
    proof (cases "\<exists>m \<in> fst ` set (entries kbs). plain m")
      case True
      then show ?thesis using run k(3) False v3(2,3) v4(1-3) by (auto simp: holds_names_def intro!: exI[of _ v4])
    next
      case leaf: False
      have dk: "dir_of (contents (v_fs v4)) k = entries kbs" using k(1) v4(2) by (simp add: dir_of_def)
      have lf: "\<not> edge (contents (v_fs v4)) k m j" for m j
        using leaf unfolding edge_def dk by (metis domI dom_map_of_conv_image_fst)
      have p4: "lookup (contents (v_fs v4)) ps (root_id (v_fs v4)) = Some p" "contents (v_fs v4) p = Some (kDirectory, bs)"
        using assms(3,4) v3(2,4) v4(2,4) by simp_all
      have "edge (contents (v_fs v4)) p n k" using p4(2) assms(2,6) by (simp add: edge_def dir_of_def path_ok_def comp_ok_def)
      then have kp: "k \<noteq> p" using lf by auto
      obtain q bs' fs5 v6 where rm: "inode_remove (e_dirjunk e) n (e_now e) (getDiskInodePos p (v_fs v4)) (v_fs v4) = (kSuccess, fs5)"
        "vfs_removePrefix (path_of (ps @ [n])) (v4\<lparr>v_fs := fs5\<rparr>) = Some v6" "vfs_inv v6" "v_fd v6 = v_fd v4"
        "contents (v_fs v6) = (contents (v_fs v4))(p \<mapsto> (kDirectory, bs'), k := None)"
        "q < length (entries bs)" "entries bs ! q = (n, k)" "entries bs' = butlast ((entries bs)[q := last (entries bs)])"
        by (rule remove_ok[OF v4(1) assms(2) p4 assms(5,6) kp lf])
      have "sb_rmdir e (path_of (ps @ [n])) v = Some (0, v6)"
        using run leaf False rm(1,2) by (simp del: path_of_snoc)
      moreover have "removes (contents (v_fs v)) p n k (contents (v_fs v6))"
        unfolding removes_def using assms(4) rm(5-8) v4(2) v3(2) by auto
      ultimately show ?thesis using k(2,3) leaf rm(3,4) v4(3) v3(3) by (auto simp: holds_names_def intro!: exI[of _ v6])
    qed
  qed
qed

text \<open>C12: \<open>rmdir\<close> removes a directory that holds no names but \<open>"."\<close> and \<open>".."\<close>, and its name in the directory above. It
  refuses a directory with other names with \<open>ENOTEMPTY\<close>, a file, an empty one too, with \<open>ENOTDIR\<close>, and then changes nothing; it
  keeps the invariant.\<close>

theorem sb_rmdir_refines:
  assumes "vfs_inv v" "path_ok (ps @ [n])" "lookup (contents (v_fs v)) ps (root_id (v_fs v)) = Some p"
    and "contents (v_fs v) p = Some (kDirectory, bs)" "dir_ok bs" "map_of (entries bs) n = Some k"
    and "contents (v_fs v) k = Some (t, kbs)"
  shows "\<exists>v'. sb_rmdir e (path_of (ps @ [n])) v =
       Some (if t \<noteq> kDirectory then - ENOTDIR else if holds_names kbs then - ENOTEMPTY else 0, v') \<and> vfs_inv v' \<and> v_fd v' = v_fd v \<and>
     (if t \<noteq> kDirectory \<or> holds_names kbs then contents (v_fs v') = contents (v_fs v)
      else removes (contents (v_fs v)) p n k (contents (v_fs v')))"
  by (rule sb_rmdir_ok[OF assms])

section \<open>Witnesses\<close>

lemma new_dir_ok:
  assumes "vfs_inv v" "contents (v_fs v) p = Some (kDirectory, bs)" "length (entries bs) = 3"
  shows "dir_ok bs"
proof -
  have "256 dvd length bs" using dirs_okD(1)[OF vfs_invD(6)[OF assms(1)] assms(2)] by simp
  then have "length bs = 768" using assms(3) by (auto simp: entries_def elim!: dvdE)
  then show ?thesis by (simp add: dir_ok_def)
qed

lemma path_a: "path_ok ([] @ [[0x61]])" "path_of ([] @ [[0x61]]) = [slash, 0x61]"
  by (simp_all add: path_ok_def path_of_def comp_ok_def name_ok_def kMaxDirNameLength_def slash_def plain_def dot_def dotdot_def)

lemma path_b: "path_ok ([] @ [[0x62]])" "path_of ([] @ [[0x62]]) = [slash, 0x62]"
  by (simp_all add: path_ok_def path_of_def comp_ok_def name_ok_def kMaxDirNameLength_def slash_def plain_def dot_def dotdot_def)

theorem sb_unlink_refines_witness:
  "\<exists>v k v' ne ne'. contents (v_fs v) = [2 \<mapsto> (kDirectory, ne), k \<mapsto> (kFile, [])] \<and> sb_unlink new_env [slash, 0x61] v = Some (0, v') \<and>
     contents (v_fs v') = [2 \<mapsto> (kDirectory, ne')] \<and> entries ne' = [(dot, 2), (dotdot, 2)] \<and> vfs_inv v'"
proof -
  obtain k ne fd v where o: "vfs_inv v" "points v fd k" "contents (v_fs v) = [2 \<mapsto> (kDirectory, ne), k \<mapsto> (kFile, [])]" "k \<noteq> 2"
    "entries ne = [(dot, 2), (dotdot, 2), ([0x61], k)]" "root_id (v_fs v) = 2"
    by (rule open_file[of 100]) auto
  have a: "dot \<noteq> [0x61]" "dotdot \<noteq> [0x61]" by (simp_all add: dot_def dotdot_def)
  have p: "lookup (contents (v_fs v)) [] (root_id (v_fs v)) = Some 2" "contents (v_fs v) 2 = Some (kDirectory, ne)"
    using o(3,4,6) by simp_all
  have d: "dir_ok ne" by (rule new_dir_ok[OF o(1) p(2)]) (simp add: o(5))
  have m: "map_of (entries ne) [0x61] = Some k" using a by (simp add: o(5))
  have f: "\<exists>t c. contents (v_fs v) j = Some (t, c) \<and> t \<noteq> kDirectory" if "map_of (entries ne) [0x61] = Some j" for j
    using that m by (simp add: o(3) kFile_def kDirectory_def)
  obtain v' where r: "sb_unlink new_env [slash, 0x61] v = Some (0, v')" "removes (contents (v_fs v)) 2 [0x61] k (contents (v_fs v'))" "vfs_inv v'"
    using sb_unlink_refines[OF o(1) path_a(1) p d f, of new_env] m unfolding path_a(2) by auto
  obtain q bs' where q: "contents (v_fs v') = (contents (v_fs v))(2 \<mapsto> (kDirectory, bs'), k := None)" "q < length (entries ne)"
    "entries ne ! q = ([0x61], k)" "entries bs' = butlast ((entries ne)[q := last (entries ne)])"
    using r(2) p(2) unfolding removes_def by auto
  have "q = 2" using q(2,3) a unfolding o(5) by (auto simp: less_Suc_eq numeral_3_eq_3 numeral_2_eq_2)
  then have "entries bs' = [(dot, 2), (dotdot, 2)]" using q(4) unfolding o(5) by (simp add: numeral_2_eq_2)
  moreover have "contents (v_fs v') = [2 \<mapsto> (kDirectory, bs')]" using q(1) o(3,4) by (auto simp: fun_eq_iff)
  ultimately show ?thesis using o(3) r(1,3) by blast
qed


theorem sb_rmdir_refines_witness:
  "(\<exists>v k v' ne bs. contents (v_fs v) = [2 \<mapsto> (kDirectory, ne), k \<mapsto> (kDirectory, bs)] \<and> sb_rmdir new_env [slash, 0x61] v = Some (0, v') \<and>
     contents (v_fs v') k = None \<and> vfs_inv v') \<and>
   (\<exists>v k v' ne. contents (v_fs v) = [2 \<mapsto> (kDirectory, ne), k \<mapsto> (kFile, [])] \<and> sb_rmdir new_env [slash, 0x61] v = Some (- ENOTDIR, v') \<and>
     contents (v_fs v') = contents (v_fs v))"
proof (rule conjI)
  obtain k ne fd v where o: "vfs_inv v" "contents (v_fs v) = [2 \<mapsto> (kDirectory, ne), k \<mapsto> (kFile, [])]" "k \<noteq> 2"
    "entries ne = [(dot, 2), (dotdot, 2), ([0x61], k)]" "root_id (v_fs v) = 2"
    by (rule open_file[of 100]) auto
  have p: "lookup (contents (v_fs v)) [] (root_id (v_fs v)) = Some 2" "contents (v_fs v) 2 = Some (kDirectory, ne)"
    "contents (v_fs v) k = Some (kFile, [])"
    using o(2,3,5) by simp_all
  have d: "dir_ok ne" by (rule new_dir_ok[OF o(1) p(2)]) (simp add: o(4))
  have m: "map_of (entries ne) [0x61] = Some k" by (simp add: o(4) dot_def dotdot_def)
  have "kFile \<noteq> kDirectory" by (simp add: kFile_def kDirectory_def)
  then obtain v' where "sb_rmdir new_env [slash, 0x61] v = Some (- ENOTDIR, v')" "contents (v_fs v') = contents (v_fs v)"
    using sb_rmdir_refines[OF o(1) path_a(1) p(1,2) d m p(3), of new_env] unfolding path_a(2) by auto
  then show "\<exists>v k v' ne. contents (v_fs v) = [2 \<mapsto> (kDirectory, ne), k \<mapsto> (kFile, [])] \<and> sb_rmdir new_env [slash, 0x61] v = Some (- ENOTDIR, v') \<and>
     contents (v_fs v') = contents (v_fs v)"
    using o(2) by (intro exI[of _ v] exI[of _ k] exI[of _ v'] exI[of _ ne]) simp
next
  obtain old where b: "can_create new_vfs [] [0x61] 2 old 0" "entries old = [(dot, 2), (dotdot, 2)]" "contents new_fs = [2 \<mapsto> (kDirectory, old)]"
    by (rule new_can_create[of 0]) auto
  obtain k ne bs v where c: "sb_mkdir new_env (path_of ([] @ [[0x61]])) 0 new_vfs = Some (0, v)" "vfs_inv v"
    "k \<notin> dom (contents (v_fs new_vfs))" "contents (v_fs v) = (contents (v_fs new_vfs))(2 \<mapsto> (kDirectory, ne), k \<mapsto> (kDirectory, bs))"
    "entries ne = entries old @ [([0x61], k)]" "entries bs = [(dot, k), (dotdot, 2)]" "v_fd v = v_fd new_vfs"
    "lookup (contents (v_fs v)) ([] @ [[0x61]]) (root_id (v_fs v)) = Some k"
    "room (data_bitmap (v_fs v)) (dev_view (device (v_fs v))) 0" "v_fs v = (v_fs new_vfs)\<lparr>device := device (v_fs v)\<rparr>"
    by (rule sb_mkdir_ok[OF new_vfs_ok(1) b(1), of new_env 0])
  have root: "root_id (v_fs v) = 2" using new_vfs_ok(2) by (subst c(10)) (simp add: new_vfs_def)
  have k2: "k \<noteq> 2" using c(3) b(3) by (auto simp: new_vfs_def)
  have cv: "contents (v_fs v) = [2 \<mapsto> (kDirectory, ne), k \<mapsto> (kDirectory, bs)]" using c(4) b(3) by (simp add: new_vfs_def)
  have p: "lookup (contents (v_fs v)) [] (root_id (v_fs v)) = Some 2" "contents (v_fs v) 2 = Some (kDirectory, ne)"
    "contents (v_fs v) k = Some (kDirectory, bs)"
    using cv k2 root by simp_all
  have d: "dir_ok ne" by (rule new_dir_ok[OF c(2) p(2)]) (simp add: c(5) b(2))
  have m: "map_of (entries ne) [0x61] = Some k" by (simp add: c(5) b(2) dot_def dotdot_def)
  have "256 dvd length bs" using dirs_okD(1)[OF vfs_invD(6)[OF c(2)] p(3)] by simp
  moreover have "length (entries bs) = 2" by (simp add: c(6))
  ultimately have "length bs = 512" by (auto simp: entries_def elim!: dvdE)
  then have h: "\<not> holds_names bs" by (auto simp: holds_names_def c(6) plain_def)
  obtain v' where r: "sb_rmdir new_env [slash, 0x61] v = Some (0, v')" "vfs_inv v'" "removes (contents (v_fs v)) 2 [0x61] k (contents (v_fs v'))"
    using sb_rmdir_refines[OF c(2) path_a(1) p(1,2) d m p(3), of new_env] h unfolding path_a(2) by auto
  have "contents (v_fs v') k = None" using r(3) unfolding removes_def by auto
  then show "\<exists>v k v' ne bs. contents (v_fs v) = [2 \<mapsto> (kDirectory, ne), k \<mapsto> (kDirectory, bs)] \<and>
      sb_rmdir new_env [slash, 0x61] v = Some (0, v') \<and> contents (v_fs v') k = None \<and> vfs_inv v'"
    using cv r(1,2) by blast
qed

end
