(* ===== verification/Vfs_Attr.thy ===== *)
theory Vfs_Attr
  imports Vfs_Remove
begin

text \<open>
  The handlers that read or change the inode of a file, by path or by handle: \<open>getattr\<close>, \<open>chmod\<close>, \<open>chown\<close>, \<open>utimens\<close> and
  \<open>truncate\<close>, and what the handlers do when a path leads nowhere.
\<close>

section \<open>The file a request is about\<close>

text \<open>An open handle counts; without one, the path does.\<close>

definition open_handle :: "vfs \<Rightarrow> u64 option \<Rightarrow> u64 option" where
  "open_handle v fi = (case fi of None \<Rightarrow> None | Some fh \<Rightarrow> if fh = 0 \<or> fd_get fh (v_fd v) = None then None else Some fh)"

definition target :: "vfs \<Rightarrow> cstring \<Rightarrow> u64 option \<Rightarrow> u32 \<Rightarrow> bool" where
  "target v path fi k \<longleftrightarrow> k \<in> dom (contents (v_fs v)) \<and> (case open_handle v fi of Some fh \<Rightarrow> points v fh k
     | None \<Rightarrow> \<exists>ps. names_path path ps \<and> lookup (contents (v_fs v)) ps (root_id (v_fs v)) = Some k)"

lemma target_inode:
  assumes "vfs_inv v" "target v path fi k"
  obtains v1 where "(case (case fi of None \<Rightarrow> None | Some fh \<Rightarrow> if fh = 0 then None else fd_get fh (v_fd v)) of
        Some inode \<Rightarrow> Some (inode, v) | None \<Rightarrow> vfs_resolve e path v) = Some (inode_of (v_fs v) k, v1)"
    "vfs_inv v1" "fs_twin (v_fs v) (v_fs v1)" "v_fd v1 = v_fd v"
proof (cases "open_handle v fi")
  case None
  then obtain ps where ps: "names_path path ps" "lookup (contents (v_fs v)) ps (root_id (v_fs v)) = Some k"
    using assms(2) by (auto simp: target_def)
  have h: "(case fi of None \<Rightarrow> None | Some fh \<Rightarrow> if fh = 0 then None else fd_get fh (v_fd v)) = None"
    using None by (auto simp: open_handle_def split: option.splits if_splits)
  obtain v1 where v1: "vfs_resolve e path v = Some (res_inode (v_fs v) (lookup (contents (v_fs v)) ps (root_id (v_fs v))), v1)"
    "vfs_inv v1" "fs_twin (v_fs v) (v_fs v1)" "v_fd v1 = v_fd v"
    by (rule vfs_resolve_ok[OF assms(1) ps(1)])
  show ?thesis by (rule that[OF _ v1(2-4)]) (simp add: h v1(1) ps(2) res_inode_def)
next
  case (Some fh)
  then have "(case fi of None \<Rightarrow> None | Some fh \<Rightarrow> if fh = 0 then None else fd_get fh (v_fd v)) = Some (inode_of (v_fs v) k)"
    using assms(2) by (auto simp: open_handle_def target_def points_def split: option.splits if_splits)
  moreover have "fs_twin (v_fs v) (v_fs v)"
    using twin_refl[OF lay_facts(10)[OF fs_invD(1)[OF vfs_invD(1)[OF assms(1)]]]] by (simp add: fs_twin_def)
  ultimately show ?thesis using that assms(1) by simp
qed

section \<open>Changing an inode\<close>

lemma rmw_ok:
  assumes inv: "vfs_inv v" and k: "target v path fi k"
    and f: "func (inode_at (v_fs v) k) x = (kSuccess, ino', x')" "same_tree (inode_at (v_fs v) k) ino'"
      "di_type ino' = di_type (inode_at (v_fs v) k)" "link_cnt ino' = link_cnt (inode_at (v_fs v) k)"
  obtains v' where "sb_rmw_diskinode e path fi func x v = Some (0, x', v')" "vfs_inv v'" "contents (v_fs v') = contents (v_fs v)"
    "files (v_fs v') = (files (v_fs v))(k \<mapsto> ino')" "v_fd v' = v_fd v" "v_fs v' = (v_fs v)\<lparr>device := device (v_fs v')\<rparr>"
proof -
  note i = vfs_invD[OF inv]
  obtain v1 where v1: "(case (case fi of None \<Rightarrow> None | Some fh \<Rightarrow> if fh = 0 then None else fd_get fh (v_fd v)) of
        Some inode \<Rightarrow> Some (inode, v) | None \<Rightarrow> vfs_resolve e path v) = Some (inode_of (v_fs v) k, v1)"
    "vfs_inv v1" "fs_twin (v_fs v) (v_fs v1)" "v_fd v1 = v_fd v"
    by (rule target_inode[OF inv k])
  note t = fs_twin_kept[OF i(1) v1(3)] and i1 = vfs_invD[OF v1(2)]
  have kd: "k \<in> dom (contents (v_fs v))" using k by (simp add: target_def)
  then have kl: "k \<in> live (v_fs v)" by (auto simp: contents_def files_def split: if_splits)
  define ino where "ino = inode_at (v_fs v) k"
  have F: "files (v_fs v1) k = Some ino" using fs_invD(6)[OF i(1) kl] t(9) by (simp add: ino_def)
  have valid: "Inode_isValid (inode_of (v_fs v) k)" by (rule inode_of_valid[OF i(1) kd])
  obtain d1 where r: "read_inode (getDiskInodePos k (v_fs v1)) zero_inode (device (v_fs v1)) = (kSuccess, ino, d1)"
    "held (v_fs v1) (files (v_fs v1)) {} d1" "cont (files (v_fs v1)) d1 = cont (files (v_fs v1)) (device (v_fs v1))"
    by (rule held_read[OF held_start[OF i1(1)] F, of zero_inode]) simp_all
  note st = held_step[OF r(2) F same_tree_step[OF heldD(10)[OF r(2) F] f(2)[folded ino_def]]]
  obtain d2 where w: "write_inode (getDiskInodePos k (v_fs v1)) ino' d1 = (kSuccess, d2)"
    "held (v_fs v1) ((files (v_fs v1))(k \<mapsto> ino')) ({k} - {k}) d2"
    "cont ((files (v_fs v1))(k \<mapsto> ino')) d2 = cont ((files (v_fs v1))(k \<mapsto> ino')) d1"
    by (rule held_write[OF st(1) fun_upd_same])
  have h0: "held (v_fs v1) ((files (v_fs v1))(k \<mapsto> ino')) {} d2" using w(2) by simp
  note e = held_end[OF h0]
  define v' where "v' = v1\<lparr>v_fs := (v_fs v1)\<lparr>device := d2\<rparr>\<rparr>"
  have "cont (files (v_fs v1)) d1 k = Some (di_type ino, fbytes ino d1)" using F by (simp add: cont_def)
  then have "(cont (files (v_fs v1)) d1)(k \<mapsto> (di_type ino', fbytes ino' d1)) = cont (files (v_fs v1)) d1"
    using same_tree_facts(3)[OF f(2)] f(2,3) by (intro fun_upd_idem) (simp add: fbytes_def same_tree_def ino_def)
  then have c': "contents (v_fs v') = contents (v_fs v1)" unfolding v'_def using e(3) w(3) st(2) r(3) by (simp add: contents_cont)
  have "attrs ((v_fs v1)\<lparr>device := d2\<rparr>) = (attrs (v_fs v1))(k \<mapsto> attr_of ino')" by (rule attrs_files[OF e(2)])
  moreover have "link_cnt ino' = 1"
  proof -
    obtain c where "contents (v_fs v) k = Some c" using kd by auto
    from one_link[OF i(8) this] show ?thesis by (simp add: f(4))
  qed
  ultimately have lk: "links_one ((v_fs v1)\<lparr>device := d2\<rparr>)" using i1(8) by (auto simp: links_one_def attr_of_def)
  have "vfs_inv v'" unfolding v'_def by (rule vfs_attr_update[OF v1(2) e(1) _ lk]) (use c' in \<open>simp_all add: v'_def\<close>)
  moreover have "sb_rmw_diskinode e path fi func x v = Some (0, x', v')"
    using r(1) w(1) f(1) unfolding sb_rmw_diskinode_def v1(1) by (simp add: valid on_inode_def t(3) v'_def ino_def)
  moreover have "v_fs v' = (v_fs v)\<lparr>device := device (v_fs v')\<rparr>" unfolding v'_def by (subst t(6)) simp
  moreover have "contents (v_fs v') = contents (v_fs v)" "files (v_fs v') = (files (v_fs v))(k \<mapsto> ino')" "v_fd v' = v_fd v"
    using c' t(2,9) e(2) v1(4) by (simp_all add: v'_def)
  ultimately show ?thesis by (intro that[of v'])
qed

section \<open>Attributes\<close>

lemma attrs_inode: "attrs fs k = Some (m, u, g, l) \<Longrightarrow> di_mode (inode_at fs k) = m \<and> di_uid (inode_at fs k) = u \<and> di_gid (inode_at fs k) = g \<and> link_cnt (inode_at fs k) = l"
  by (auto simp: attrs_def files_def attr_of_def split: if_splits)

lemma unat_u32_u64 [simp]: "unat (ucast (x :: u32) :: u64) = unat x"
  using unsigned_less[where 'a = nat, of x] by (simp add: unsigned_ucast_eq take_bit_nat_eq_self)

text \<open>C16: \<open>getattr\<close>, by handle or by path, reports the mode, owner, group and size of the file, one link and the block
  size; it changes no file and no attribute.\<close>

theorem sb_getattr_refines:
  assumes "vfs_inv v" "target v path fi k" "contents (v_fs v) k = Some (t, bs)" "attrs (v_fs v) k = Some (m, u, g, l)"
  shows "\<exists>st v'. sb_getattr e path stbuf fi v = Some (0, st, v') \<and> st_mode st = ucast m \<and> st_uid st = ucast u \<and> st_gid st = ucast g \<and>
     st_nlink st = 1 \<and> unat (st_size st) = length bs \<and> st_blksize st = 4096 \<and>
     vfs_inv v' \<and> contents (v_fs v') = contents (v_fs v) \<and> attrs (v_fs v') = attrs (v_fs v) \<and> v_fd v' = v_fd v"
proof -
  define ino where "ino = inode_at (v_fs v) k"
  have a: "di_mode ino = m" "di_uid ino = u" "di_gid ino = g" using attrs_inode[OF assms(4)] by (simp_all add: ino_def)
  have l: "link_cnt ino = 1" unfolding ino_def by (rule one_link[OF vfs_invD(8)[OF assms(1)] assms(3)])
  have sz: "unat (di_size ino) = length bs" using contents_live[OF assms(3)] by (simp add: ino_def)
  have F: "files (v_fs v) k = Some ino" using contents_live(1)[OF assms(3)] by (simp add: files_def ino_def)
  define f where "f = (\<lambda>(i :: DiskInode) st. (kSuccess, i, st\<lparr>st_mode := ucast (di_mode i), st_atime := ucast (access_time i),
    st_mtime := ucast (modify_time i), st_ctime := ucast (change_time i), st_size := ucast (di_size i), st_nlink := ucast (link_cnt i),
    st_uid := ucast (di_uid i), st_gid := ucast (di_gid i), st_blocks := ucast (total_blocks (di_size i)), st_blksize := of_nat kBlockSize\<rparr> :: stat))"
  define st where "st = snd (snd (f ino stbuf))"
  have fi: "f (inode_at (v_fs v) k) stbuf = (kSuccess, ino, st)" by (simp add: f_def st_def ino_def)
  obtain v' where r: "sb_rmw_diskinode e path fi f stbuf v = Some (0, st, v')" "vfs_inv v'" "contents (v_fs v') = contents (v_fs v)"
    "files (v_fs v') = (files (v_fs v))(k \<mapsto> ino)" "v_fd v' = v_fd v" "v_fs v' = (v_fs v)\<lparr>device := device (v_fs v')\<rparr>"
    by (rule rmw_ok[where func = f and x = stbuf, OF assms(1,2) fi]) (simp_all add: same_tree_def ino_def)
  have "attrs (v_fs v') = attrs (v_fs v)" using attrs_files[OF r(4)] F by (auto simp: attrs_def)
  moreover have "st_mode st = ucast m" "st_uid st = ucast u" "st_gid st = ucast g" "st_nlink st = 1" "unat (st_size st) = length bs" "st_blksize st = 4096"
    using a l sz by (simp_all add: st_def f_def kBlockSize_def)
  moreover have "sb_getattr e path stbuf fi v = Some (0, st, v')" using r(1) unfolding sb_getattr_def f_def .
  ultimately show ?thesis using r(2,3,5) by blast
qed


text \<open>The time of \<open>utimens\<close> is rounded by the addition of doubles: a time within half of the spacing of doubles there below
  a full second is stored as that next second, although it has not been reached.\<close>

theorem utimens_rounds_up: "timespec_secs (1700000000, 999999999) = 1700000001"
  by (simp add: timespec_secs_def double_add_def double_div_def div_rne_def scale.simps)

section \<open>Truncation\<close>

definition truncates :: "vfs \<Rightarrow> cstring \<Rightarrow> u64 \<Rightarrow> u32 \<Rightarrow> bool" where
  "truncates v path fh k \<longleftrightarrow> (case fd_get fh (v_fd v) of Some inode \<Rightarrow> inode = inode_of (v_fs v) k
     | None \<Rightarrow> \<exists>ps. names_path path ps \<and> lookup (contents (v_fs v)) ps (root_id (v_fs v)) = Some k)"

lemma small_off:
  assumes "unat (off :: u64) < 2 ^ 32"
  shows "\<not> sint off > 0xFFFFFFFF"
proof -
  obtain n where n: "off = of_nat n" "n < 2 ^ 32" using assms that[of "unat off"] by simp
  then have "sint off = int n" by (simp add: signed_of_nat signed_take_bit_int_eq_self)
  then show ?thesis using n(2) by simp
qed

text \<open>\<open>fi->fh\<close> is read before anything is known of \<open>fi\<close>.\<close>

lemma sb_truncate_null: "unat off < 2 ^ 32 \<Longrightarrow> sb_truncate e path off None v = None"
  using small_off by (simp add: sb_truncate_def)

lemma sb_truncate_ok:
  assumes "vfs_inv v" "truncates v path fh k" "contents (v_fs v) k = Some (t, old)" "t = kFile \<or> t = kDirectory" "unat off < 2 ^ 32"
    and "if unat off > length old then room_for (v_fs v) k (unat off) else unat off \<le> 1047 * 4096"
  shows "\<exists>hole v'. sb_truncate e path off (Some fh) v = Some (if t = kFile then 0 else - EIO, v') \<and> vfs_inv v' \<and> v_fd v' = v_fd v \<and>
     length hole = unat off - length old \<and> contents (v_fs v') =
       (if t = kFile then (contents (v_fs v))(k \<mapsto> (t, ftruncate_bytes (unat off) hole old)) else contents (v_fs v))"
proof -
  note i = vfs_invD[OF assms(1)]
  have kd: "k \<in> dom (contents (v_fs v))" using assms(3) by auto
  note valid = inode_of_valid[OF i(1) kd]
  obtain v1 where v1: "(case fd_get fh (v_fd v) of Some inode \<Rightarrow> Some (inode, v) | None \<Rightarrow> vfs_resolve e path v) = Some (inode_of (v_fs v) k, v1)"
    "vfs_inv v1" "fs_twin (v_fs v) (v_fs v1)" "v_fd v1 = v_fd v"
  proof (cases "fd_get fh (v_fd v)")
    case None
    then obtain ps where ps: "names_path path ps" "lookup (contents (v_fs v)) ps (root_id (v_fs v)) = Some k"
      using assms(2) by (auto simp: truncates_def)
    obtain v1 where v1: "vfs_resolve e path v = Some (res_inode (v_fs v) (lookup (contents (v_fs v)) ps (root_id (v_fs v))), v1)"
      "vfs_inv v1" "fs_twin (v_fs v) (v_fs v1)" "v_fd v1 = v_fd v"
      by (rule vfs_resolve_ok[OF assms(1) ps(1)])
    show ?thesis by (rule that[OF _ v1(2-4)]) (simp add: None v1(1) ps(2) res_inode_def)
  next
    case (Some inode)
    have "fs_twin (v_fs v) (v_fs v)" using twin_refl[OF lay_facts(10)[OF fs_invD(1)[OF i(1)]]] by (simp add: fs_twin_def)
    then show ?thesis using that assms(1,2) Some by (simp add: truncates_def)
  qed
  note tw = fs_twin_kept[OF i(1) v1(3)]
  have u: "unat (ucast off :: u32) = unat off" using assms(5) by (simp add: ucast_u32)
  note small = small_off[OF assms(5)]
  have k1: "contents (v_fs v1) k = Some (t, old)" using assms(3) tw(2) by simp
  have "data_bitmap (v_fs v1) = data_bitmap (v_fs v)" by (subst tw(6)) simp
  moreover have "inode_at (v_fs v1) k = inode_at (v_fs v) k"
    using fun_cong[OF tw(9), of k] contents_live(1)[OF assms(3)] contents_live(1)[OF k1] by (simp add: files_def)
  ultimately have rm: "if unat (ucast off :: u32) > length old then room_for (v_fs v1) k (unat (ucast off :: u32)) else unat (ucast off :: u32) \<le> 1047 * 4096"
    using assms(6) unfolding u by (auto simp: room_for_def tw(7) split: if_splits)
  obtain fs' hole where r: "inode_resize (ucast off) (e_now e) (getDiskInodePos k (v_fs v1)) (v_fs v1) = (if t = kFile then kSuccess else kFail, fs')"
    "fs_inv fs'" "length hole = unat off - length old"
    "contents fs' = (if t = kFile then (contents (v_fs v1))(k \<mapsto> (t, ftruncate_bytes (unat off) hole old)) else contents (v_fs v1))"
    "attrs fs' = attrs (v_fs v1)" "fs' = (v_fs v1)\<lparr>device := device fs'\<rparr>"
    using inode_resize_contents[OF tw(1) k1 rm, of "e_now e"] unfolding u by blast
  have run: "sb_truncate e path off (Some fh) v = Some (if t = kFile then 0 else - EIO, v1\<lparr>v_fs := fs'\<rparr>)"
    using small v1(1) valid r(1) unfolding sb_truncate_def by (simp add: on_inode_def tw(3) kSuccess_def kFail_def)
  have "vfs_inv (v1\<lparr>v_fs := fs'\<rparr>)"
  proof (cases "t = kFile")
    case True
    then have "t \<noteq> kDirectory" "contents fs' = (contents (v_fs v1))(k \<mapsto> (t, ftruncate_bytes (unat off) hole old))"
      using r(4) by (simp_all add: kFile_def kDirectory_def)
    from vfs_file_update[OF v1(2) k1 this(1) r(2,6,5) this(2)] show ?thesis .
  next
    case False
    have "links_one fs'" using vfs_invD(8)[OF v1(2)] r(5) by (simp add: links_one_def)
    from vfs_attr_update[OF v1(2) r(2,6) this] False r(4) show ?thesis by simp
  qed
  then show ?thesis using run r(3,4) tw(2) v1(4) by (intro exI[of _ hole] exI[of _ "v1\<lparr>v_fs := fs'\<rparr>"]) simp
qed

text \<open>C14: \<open>truncate\<close> called with a \<open>fuse_file_info\<close> cuts or lengthens the bytes of the file to the size given and changes no other
  file: the file of the handle, or the file at the path when the handle is not open. On a directory it fails with \<open>EIO\<close> and changes
  nothing. A file may shrink to at most 1047 blocks. Called with a null \<open>fuse_file_info\<close>, which is what libfuse passes for a file that
  is not open, the handler uses the null pointer and the process ends.\<close>

theorem sb_truncate_refines:
  assumes "vfs_inv v" "truncates v path fh k" "contents (v_fs v) k = Some (t, old)" "t = kFile \<or> t = kDirectory" "unat off < 2 ^ 32"
    and "if unat off > length old then room_for (v_fs v) k (unat off) else unat off \<le> 1047 * 4096"
  shows "\<exists>hole v'. sb_truncate e path off (Some fh) v = Some (if t = kFile then 0 else - EIO, v') \<and> vfs_inv v' \<and> v_fd v' = v_fd v \<and>
     length hole = unat off - length old \<and> contents (v_fs v') =
       (if t = kFile then (contents (v_fs v))(k \<mapsto> (t, ftruncate_bytes (unat off) hole old)) else contents (v_fs v)) \<and>
     sb_truncate e path off None v = None"
  using sb_truncate_ok[OF assms] sb_truncate_null[OF assms(5)] by blast

section \<open>Paths that lead nowhere\<close>

definition refused :: "(int \<times> vfs) option \<Rightarrow> vfs \<Rightarrow> bool" where
  "refused res v \<longleftrightarrow> (\<exists>v'. res = Some (- ENOENT, v') \<and> vfs_inv v' \<and> contents (v_fs v') = contents (v_fs v) \<and>
     attrs (v_fs v') = attrs (v_fs v) \<and> v_fd v' = v_fd v)"

definition no_out :: "(int \<times> 'a \<times> vfs) option \<Rightarrow> (int \<times> vfs) option" where
  "no_out = map_option (\<lambda>(r, _, v). (r, v))"

lemma resolve_nowhere:
  assumes "vfs_inv v" "names_path path ps" "lookup (contents (v_fs v)) ps (root_id (v_fs v)) = None"
  obtains v' where "vfs_resolve e path v = Some (Inode_invalid, v')" "refused (Some (- ENOENT, v')) v"
proof -
  obtain v1 where v1: "vfs_resolve e path v = Some (res_inode (v_fs v) (lookup (contents (v_fs v)) ps (root_id (v_fs v))), v1)"
    "vfs_inv v1" "fs_twin (v_fs v) (v_fs v1)" "v_fd v1 = v_fd v"
    by (rule vfs_resolve_ok[OF assms(1,2)])
  note t = fs_twin_kept[OF vfs_invD(1)[OF assms(1)] v1(3)]
  show ?thesis by (rule that[of v1]) (use v1 t assms(3) in \<open>simp_all add: res_inode_def refused_def\<close>)
qed

lemma invalid_not_valid [simp]: "\<not> Inode_isValid Inode_invalid"
  by (simp add: Inode_isValid_def Inode_invalid_def Position_isValid_def Position_invalid_def)

text \<open>C18: a path that leads nowhere makes \<open>open\<close> and \<open>readdir\<close> fail with \<open>ENOENT\<close>, also \<open>getattr\<close>, \<open>chmod\<close>, \<open>chown\<close> and \<open>utimens\<close>
  unless an open handle is given, and \<open>truncate\<close> when a handle is given that is not open. If the directory above the name is missing,
  so do \<open>create\<close>, \<open>mkdir\<close>, \<open>unlink\<close>, \<open>rmdir\<close> and, for the old path, \<open>rename\<close>. Nothing changes. The new path of \<open>rename\<close> is not
  covered: a missing directory there ends the process (\<open>rename_to_nowhere\<close>).\<close>

theorem missing_path_refused:
  assumes "vfs_inv v" "names_path path ps" "lookup (contents (v_fs v)) ps (root_id (v_fs v)) = None"
    and "path_ok (qs @ [n])" "lookup (contents (v_fs v)) qs (root_id (v_fs v)) = None"
    and "open_handle v fi = None" "fd_get fh (v_fd v) = None" "unat off < 2 ^ 32"
  shows "\<forall>res \<in> set [no_out (sb_open e path fo v), no_out (sb_readdir e path v), no_out (sb_getattr e path st fi v),
      no_out (sb_chmod e path mode fi v), no_out (sb_chown e path uid gid fi v), no_out (sb_utimens e path tv0 tv1 fi v),
      sb_truncate e path off (Some fh) v, no_out (sb_create e (path_of (qs @ [n])) mode fo v), sb_mkdir e (path_of (qs @ [n])) mode v,
      sb_unlink e (path_of (qs @ [n])) v, sb_rmdir e (path_of (qs @ [n])) v, sb_rename e (path_of (qs @ [n])) newpath flags v]. refused res v"
proof -
  obtain v1 where r1: "vfs_resolve e path v = Some (Inode_invalid, v1)" "refused (Some (- ENOENT, v1)) v"
    by (rule resolve_nowhere[OF assms(1-3)])
  note sp = split_parent[OF assms(4)]
  obtain v2 where r2: "vfs_resolve e (path_of qs @ [slash]) v = Some (Inode_invalid, v2)" "refused (Some (- ENOENT, v2)) v"
    by (rule resolve_nowhere[OF assms(1) sp(2) assms(5)])
  have h: "(case fi of None \<Rightarrow> None | Some fh \<Rightarrow> if fh = 0 then None else fd_get fh (v_fd v)) = None"
    using assms(6) by (auto simp: open_handle_def split: option.splits if_splits)
  have "sb_open e path fo v = Some (- ENOENT, fo, v1)" "sb_readdir e path v = Some (- ENOENT, [], v1)"
    "sb_getattr e path st fi v = Some (- ENOENT, st, v1)" "sb_chmod e path mode fi v = Some (- ENOENT, (), v1)"
    "sb_chown e path uid gid fi v = Some (- ENOENT, (), v1)" "sb_utimens e path tv0 tv1 fi v = Some (- ENOENT, (), v1)"
    "sb_truncate e path off (Some fh) v = Some (- ENOENT, v1)"
    using r1(1) small_off[OF assms(8)] assms(7)
    by (simp_all add: sb_open_def sb_readdir_def sb_getattr_def sb_chmod_def sb_chown_def sb_utimens_def sb_rmw_diskinode_def sb_truncate_def h)
  moreover have "sb_create e (path_of (qs @ [n])) mode fo v = Some (- ENOENT, fo, v2)" "sb_mkdir e (path_of (qs @ [n])) mode v = Some (- ENOENT, v2)"
    "sb_unlink e (path_of (qs @ [n])) v = Some (- ENOENT, v2)" "sb_rmdir e (path_of (qs @ [n])) v = Some (- ENOENT, v2)"
    "sb_rename e (path_of (qs @ [n])) newpath flags v = Some (- ENOENT, v2)"
    using r2(1) unfolding sb_create_def sb_mkdir_def sb_unlink_def sb_rmdir_def sb_rename_def rename_unlink_def sp(1) by simp_all
  ultimately show ?thesis using r1(2) r2(2) by (simp add: no_out_def del: path_of_snoc)
qed

section \<open>Witnesses\<close>

definition zero_stat :: stat where
  "zero_stat = \<lparr>st_mode = 0, st_atime = 0, st_mtime = 0, st_ctime = 0, st_size = 0, st_nlink = 0, st_uid = 0, st_gid = 0, st_blocks = 0, st_blksize = 0\<rparr>"

lemma new_target: "target new_vfs [slash] None 2"
proof -
  obtain bs where b: "contents new_fs = [2 \<mapsto> (kDirectory, bs)]" by (rule new_root)
  have "names_path [slash] []" by (simp add: names_path_def path_ok_def path_of_def)
  then show ?thesis using b new_vfs_ok(2) by (auto simp: target_def open_handle_def new_vfs_def intro: exI[of _ "[]"])
qed

lemma new_attrs: obtains m u g l where "attrs new_fs 2 = Some (m, u, g, l)"
proof -
  obtain bs where b: "contents new_fs = [2 \<mapsto> (kDirectory, bs)]" by (rule new_root)
  have "contents new_fs 2 = Some (kDirectory, bs)" by (simp add: b)
  then have "files new_fs 2 = Some (inode_at new_fs 2)" using contents_live(1)[of new_fs 2] by (simp add: files_def)
  then show ?thesis using that by (simp add: attrs_def attr_of_def)
qed

theorem sb_getattr_refines_witness:
  "\<exists>st v'. sb_getattr new_env [slash] zero_stat None new_vfs = Some (0, st, v') \<and> st_size st = 512 \<and> st_nlink st = 1"
proof -
  obtain bs where b: "contents new_fs = [2 \<mapsto> (kDirectory, bs)]" "length bs = 512" by (rule new_root)
  obtain m u g l where a: "attrs new_fs 2 = Some (m, u, g, l)" by (rule new_attrs)
  have c: "contents (v_fs new_vfs) 2 = Some (kDirectory, bs)" "attrs (v_fs new_vfs) 2 = Some (m, u, g, l)"
    using a b(1) by (simp_all add: new_vfs_def)
  obtain st v' where "sb_getattr new_env [slash] zero_stat None new_vfs = Some (0, st, v')" "unat (st_size st) = 512" "st_nlink st = 1"
    using sb_getattr_refines[OF new_vfs_ok(1) new_target c, of new_env zero_stat] b(2) by auto
  moreover from this(2) have "st_size st = 512" by (simp add: word_unat_eq_iff)
  ultimately show ?thesis by blast
qed


theorem sb_truncate_refines_witness:
  "\<exists>v fd k v' hole. contents (v_fs v) k = Some (kFile, []) \<and> sb_truncate new_env [slash, 0x61] 5000 (Some fd) v = Some (0, v') \<and>
     contents (v_fs v') k = Some (kFile, hole) \<and> length hole = 5000 \<and> sb_truncate new_env [slash, 0x61] 5000 None v = None"
proof -
  obtain k ne fd v where o: "vfs_inv v" "points v fd k" "contents (v_fs v) = [2 \<mapsto> (kDirectory, ne), k \<mapsto> (kFile, [])]" "k \<noteq> 2"
    "room (data_bitmap (v_fs v)) (dev_view (device (v_fs v))) 100"
    by (rule open_file[of 100]) auto
  have c: "contents (v_fs v) k = Some (kFile, [])" "truncates v [slash, 0x61] fd k" "unat (5000 :: u64) < 2 ^ 32"
    using o(2) by (simp_all add: o(3) truncates_def points_def)
  have rm: "if unat (5000 :: u64) > length ([] :: u8 list) then room_for (v_fs v) k (unat (5000 :: u64)) else unat (5000 :: u64) \<le> 1047 * 4096"
    using o(5) by (simp add: room_for_def room_def tree_size_def)
  obtain hole v' where "sb_truncate new_env [slash, 0x61] 5000 (Some fd) v = Some (0, v')" "length hole = 5000"
    "sb_truncate new_env [slash, 0x61] 5000 None v = None"
    "contents (v_fs v') = (contents (v_fs v))(k \<mapsto> (kFile, ftruncate_bytes 5000 hole []))"
    using sb_truncate_refines[OF o(1) c(2,1) disjI1[OF refl] c(3) rm, of new_env] by auto
  then show ?thesis using c(1) by (intro exI[of _ v] exI[of _ fd] exI[of _ k] exI[of _ v'] exI[of _ hole]) (simp add: ftruncate_bytes_def)
qed

theorem missing_path_refused_witness:
  "refused (sb_mkdir new_env [slash, 0x61, slash, 0x62] 0 new_vfs) new_vfs \<and> refused (no_out (sb_open new_env [slash, 0x61] (Some 0) new_vfs)) new_vfs \<and>
   refused (no_out (sb_getattr new_env [slash, 0x61] zero_stat (Some 7) new_vfs)) new_vfs \<and>
   refused (sb_truncate new_env [slash, 0x61] 100 (Some 7) new_vfs) new_vfs"
proof -
  obtain bs where b: "contents new_fs = [2 \<mapsto> (kDirectory, bs)]" "entries bs = [(dot, 2), (dotdot, 2)]" by (rule new_root)
  have p: "names_path [slash, 0x61] [[0x61]]" "path_ok ([[0x61]] @ [[0x62]])" "path_of ([[0x61]] @ [[0x62]]) = [slash, 0x61, slash, 0x62]"
    by (simp_all add: names_path_def path_ok_def comp_ok_def path_of_def name_ok_def kMaxDirNameLength_def slash_def plain_def dot_def dotdot_def)
  have l: "lookup (contents (v_fs new_vfs)) [[0x61]] (root_id (v_fs new_vfs)) = None"
    using new_vfs_ok(2) b by (simp add: new_vfs_def dir_of_def dot_def dotdot_def)
  have h: "open_handle new_vfs (Some 7) = None" "fd_get 7 (v_fd new_vfs) = None" "unat (100 :: u64) < 2 ^ 32"
    by (simp_all add: open_handle_def new_vfs_def fd_get_def FDManager_new_def)
  from missing_path_refused[OF new_vfs_ok(1) p(1) l p(2) l h, of new_env "Some 0" zero_stat 0] show ?thesis unfolding p(3) by simp
qed

end
