(* ===== verification/Name_Steps.thy ===== *)
theory Name_Steps
  imports Dir_Link Vfs_Attr
begin

text \<open>
  Names that change their inode: what \<open>unlink\<close> and \<open>link\<close> do to the names in one directory, and what several such steps together
  do to the tree of names. \<open>rename\<close> is made of these steps.
\<close>

section \<open>Rewiring the tree\<close>

lemma dir_of_upd: "dir_of (C(p \<mapsto> (kDirectory, bs))) x = (if x = p then entries bs else dir_of C x)"
  by (simp add: dir_of_def)

text \<open>\<open>ch\<close> gives, for the names that change, a pair of directory and name, the inode they lead to afterwards. An inode that gets a name
  loses its old one, and gets one name only.\<close>

definition rewired :: "tree \<Rightarrow> u32 \<Rightarrow> (u32 \<times> cstring \<rightharpoonup> u32 option) \<Rightarrow> tree \<Rightarrow> bool" where
  "rewired C r ch C2 \<longleftrightarrow> name_tree C r \<and> dirs_ok C2 \<and> (\<exists>b. C2 r = Some (kDirectory, b)) \<and> (\<forall>x y t. ch (x, y) = Some t \<longrightarrow> plain y) \<and>
     (\<forall>x y. map_of (dir_of C2 x) y = (case ch (x, y) of None \<Rightarrow> map_of (dir_of C x) y | Some t \<Rightarrow> t)) \<and>
     (\<forall>e k. ch e = Some (Some k) \<longrightarrow> (\<exists>p n. edge C p n k \<and> ch (p, n) \<noteq> None)) \<and>
     (\<forall>e e' k. ch e = Some (Some k) \<longrightarrow> ch e' = Some (Some k) \<longrightarrow> e = e')"

text \<open>A directory that changes its name stays in its parent: the code leaves its entry \<open>".."\<close> alone.\<close>

definition tidy :: "tree \<Rightarrow> (u32 \<times> cstring \<rightharpoonup> u32 option) \<Rightarrow> bool" where
  "tidy C ch \<longleftrightarrow> (\<forall>x y k. edge C x y k \<longrightarrow> ch (x, y) \<noteq> None \<longrightarrow> dir_of C k = [] \<or> (\<exists>y'. ch (x, y') = Some (Some k)))"

lemma rewiredD:
  assumes "rewired C r ch C2"
  shows "name_tree C r" "dirs_ok C2" "\<exists>b. C2 r = Some (kDirectory, b)" "ch (x, y) = Some t \<Longrightarrow> plain y"
    "map_of (dir_of C2 x) y = (case ch (x, y) of None \<Rightarrow> map_of (dir_of C x) y | Some t \<Rightarrow> t)"
    "ch e = Some (Some k) \<Longrightarrow> \<exists>p n. edge C p n k \<and> ch (p, n) \<noteq> None" "ch e = Some (Some k) \<Longrightarrow> ch e' = Some (Some k) \<Longrightarrow> e = e'"
  using assms unfolding rewired_def by blast+

lemma rewired_edge:
  assumes "rewired C r ch C2"
  shows "edge C2 x y k \<longleftrightarrow> (case ch (x, y) of None \<Rightarrow> edge C x y k | Some t \<Rightarrow> t = Some k)"
  using rewiredD(4)[OF assms, of x y] by (simp add: edge_def rewiredD(5)[OF assms] split: option.splits)

lemma rewired_dots:
  assumes "rewired C r ch C2" "tidy C ch"
  shows "dots_ok C2 r"
proof -
  note D = dots_okD[OF name_treeD(6)[OF rewiredD(1)[OF assms(1)]]]
  have "ch (x, dot) = None" "ch (x, dotdot) = None" for x
    using rewiredD(4)[OF assms(1), of x] by (auto simp: plain_def intro: ccontr)
  then have s: "map_of (dir_of C2 x) dot = map_of (dir_of C x) dot" "map_of (dir_of C2 x) dotdot = map_of (dir_of C x) dotdot" for x
    by (simp_all add: rewiredD(5)[OF assms(1)])
  have "\<exists>y. edge C2 j y x" if j: "map_of (dir_of C x) dotdot = Some j" "edge C j y x" for x j y
  proof (cases "ch (j, y) = None")
    case True
    then have "edge C2 j y x" using j(2) by (simp add: rewired_edge[OF assms(1)])
    then show ?thesis ..
  next
    case False
    then obtain y' where "ch (j, y') = Some (Some x)" using assms(2) j unfolding tidy_def by fastforce
    then have "edge C2 j y' x" by (simp add: rewired_edge[OF assms(1)])
    then show ?thesis ..
  qed
  then show ?thesis unfolding dots_ok_def s using D by metis
qed

lemma rewired_tree:
  assumes "rewired C r ch C2" "tidy C ch"
  shows "name_tree C2 r"
  unfolding name_tree_def
proof (intro conjI allI impI)
  note R = rewiredD[OF assms(1)] and T = name_treeD[OF rewiredD(1)[OF assms(1)]] and E = rewired_edge[OF assms(1)]
  show "dirs_ok C2" "dots_ok C2 r" "\<exists>b. C2 r = Some (kDirectory, b)" by (fact R(2) rewired_dots[OF assms] R(3))+
  show "\<not> edge C2 x y r" for x y using T(3) R(6)[of "(x, y)" r] by (auto simp: E split: option.splits)
  have old: "ch (x, y) \<noteq> None" if a: "edge C x y k" "ch e = Some (Some k)" for x y k e
  proof -
    obtain p n where "edge C p n k" "ch (p, n) \<noteq> None" using R(6)[OF a(2)] by blast
    then show ?thesis using T(4,5)[OF a(1), of p n] by auto
  qed
  fix x y x' y' k assume e: "edge C2 x y k" "edge C2 x' y' k"
  have "(x, y) = (x', y')"
    using e old[of x y k "(x', y')"] old[of x' y' k "(x, y)"] R(7)[of "(x, y)" k "(x', y')"] T(4,5)[of x y k x' y'] by (auto simp: E split: option.splits)
  then show "x = x'" "y = y'" by simp_all
qed

lemma rewired_lookup:
  assumes rw: "rewired C r ch C2" and ns: "lookup C ns r = Some j" "\<forall>a \<in> set ns. plain a"
    and cut: "\<And>x y. ch (x, y) \<noteq> None \<Longrightarrow> \<exists>ps. lookup C ps r = Some x \<and> (\<forall>n \<in> set ps. plain n) \<and> take (Suc (length ps)) ns \<noteq> ps @ [y]"
  shows "lookup C2 ns r = Some j"
proof (rule lookup_cuts[OF rewiredD(1)[OF rw] ns])
  fix x y i assume "edge C x y i" "map_of (dir_of C2 x) y \<noteq> Some i"
  then have "ch (x, y) \<noteq> None" by (auto simp: edge_def rewiredD(5)[OF rw] split: option.splits)
  then show "\<exists>ps. lookup C ps r = Some x \<and> (\<forall>n \<in> set ps. plain n) \<and> take (Suc (length ps)) ns \<noteq> ps @ [y]" by (rule cut)
qed

lemma rewired_lookup2:
  assumes "rewired C r ch C2" "\<And>e. ch e \<noteq> None \<Longrightarrow> e = (p, n) \<or> e = (d, m)"
    and "lookup C ps r = Some p" "\<forall>a \<in> set ps. plain a" "lookup C ds r = Some d" "\<forall>a \<in> set ds. plain a"
    and "lookup C ns r = Some j" "\<forall>a \<in> set ns. plain a" "take (Suc (length ps)) ns \<noteq> ps @ [n]" "take (Suc (length ds)) ns \<noteq> ds @ [m]"
  shows "lookup C2 ns r = Some j"
  by (rule rewired_lookup[OF assms(1,7,8)]) (use assms(2-6,9,10) in blast)

text \<open>The path of a directory does not run through a file, nor through an entry of the directory itself.\<close>

lemma not_through:
  assumes t: "name_tree C r" and ps: "lookup C ps r = Some p" "\<forall>a \<in> set ps. plain a" "edge C p n k"
    and ds: "lookup C ds r = Some d" "\<forall>a \<in> set ds. plain a" "d \<noteq> k" "dir_of C k = [] \<or> d = p"
  shows "take (Suc (length ps)) ds \<noteq> ps @ [n]"
proof
  assume tk: "take (Suc (length ps)) ds = ps @ [n]"
  define rest where "rest = drop (Suc (length ps)) ds"
  have e: "ds = (ps @ [n]) @ rest" using tk by (metis append_take_drop_id rest_def)
  have "lookup C (ps @ [n]) r = Some k" using ps(1,3) by (auto simp: lookup_snoc edge_def)
  then have l: "lookup C rest k = Some d" using ds(1) unfolding e by (simp add: lookup_append split: option.splits)
  show False
  proof (cases "d = p")
    case True
    from lookup_unique[OF t ds(1)[unfolded True] ps(1) ds(2) ps(2)] e show False by simp
  next
    case False
    then show False using l ds(3,4) by (cases rest) auto
  qed
qed

lemma edge_not_self:
  assumes "name_tree C r" "lookup C ps r = Some p" "\<forall>a \<in> set ps. plain a" "edge C p n k"
  shows "k \<noteq> p"
proof
  assume "k = p"
  then have "lookup C (ps @ [n]) r = Some p" "plain n" using assms(2,4) by (simp_all add: lookup_snoc edge_def)
  from lookup_unique[OF assms(1) this(1) assms(2)] assms(3) this(2) show False by simp
qed

lemma root_is_dir: "name_tree C r \<Longrightarrow> \<exists>b. C r = Some (kDirectory, b)"
  by (simp add: name_tree_def)

section \<open>Steps of the file system\<close>

text \<open>The name \<open>n\<close> in the directory \<open>p\<close> leads to \<open>t\<close> afterwards; no other name and no other file changes.\<close>

definition named :: "sbfs \<Rightarrow> u32 \<Rightarrow> cstring \<Rightarrow> u32 option \<Rightarrow> sbfs \<Rightarrow> bool" where
  "named fs p n t fs' \<longleftrightarrow> fs_inv fs' \<and> fs' = fs\<lparr>device := device fs'\<rparr> \<and> dirs_ok (contents fs') \<and> dom (contents fs') = dom (contents fs) \<and>
     (\<forall>x. x \<noteq> p \<longrightarrow> contents fs' x = contents fs x) \<and>
     (\<forall>x y. map_of (dir_of (contents fs') x) y = (if x = p \<and> y = n then t else map_of (dir_of (contents fs) x) y)) \<and>
     (\<exists>b b'. contents fs p = Some (kDirectory, b) \<and> contents fs' p = Some (kDirectory, b') \<and>
        length b' + (if t = None then 256 else 0) \<le> length b + (if t = None then 0 else 256))"

lemma namedD:
  assumes "named fs p n t fs'"
  shows "fs_inv fs'" "fs' = fs\<lparr>device := device fs'\<rparr>" "dirs_ok (contents fs')" "dom (contents fs') = dom (contents fs)"
    "x \<noteq> p \<Longrightarrow> contents fs' x = contents fs x"
    "map_of (dir_of (contents fs') x) y = (if x = p \<and> y = n then t else map_of (dir_of (contents fs) x) y)"
  using assms unfolding named_def by blast+

lemma named_dir:
  assumes "named fs p n t fs'" "contents fs x = Some (kDirectory, b)"
  obtains b' where "contents fs' x = Some (kDirectory, b')" "map_of (entries b') y = (if x = p \<and> y = n then t else map_of (entries b) y)"
    "length b' + (if x = p \<and> t = None then 256 else 0) \<le> length b + (if x = p \<and> t \<noteq> None then 256 else 0)"
proof -
  obtain b' where b': "contents fs' x = Some (kDirectory, b')"
    "length b' + (if x = p \<and> t = None then 256 else 0) \<le> length b + (if x = p \<and> t \<noteq> None then 256 else 0)"
    using assms unfolding named_def by (cases "x = p"; cases t) auto
  then show ?thesis using that[OF b'(1) _ b'(2)] namedD(6)[OF assms(1), of x y] assms(2) by (simp add: dir_of_def)
qed

lemma named_geometry:
  assumes "named fs p n t fs'"
  shows "data_bitmap fs' = data_bitmap fs" "getDiskInodePos k fs' = getDiskInodePos k fs"
  by (subst namedD(2)[OF assms], simp)+

text \<open>The link count of \<open>k\<close> changes by \<open>c\<close>.\<close>

definition relinked :: "sbfs \<Rightarrow> u32 \<Rightarrow> u16 \<Rightarrow> sbfs \<Rightarrow> bool" where
  "relinked fs k c fs' \<longleftrightarrow> attrs fs' = (attrs fs)(k := map_option (\<lambda>(m, u, g, l). (m, u, g, l + c)) (attrs fs k))"

lemma relinkedI:
  assumes "k \<in> dom (contents fs)" "attrs fs' = (attrs fs)(k \<mapsto> attr_of ((inode_at fs k)\<lparr>link_cnt := link_cnt (inode_at fs k) + c\<rparr>))"
  shows "relinked fs k c fs'"
proof -
  have "attrs fs k = Some (attr_of (inode_at fs k))" using assms(1) by (auto simp: contents_def attrs_def files_def split: if_splits)
  then show ?thesis using assms(2) by (simp add: relinked_def attr_of_def)
qed

lemma unlink_step:
  assumes inv: "fs_inv fs" "dirs_ok (contents fs)" and p: "contents fs p = Some (kDirectory, bs)" "dir_ok bs" "map_of (entries bs) n = Some k" "name_ok n"
  obtains fs' where "inode_unlink dirjunk n junk now (getDiskInodePos p fs) fs = (kSuccess, inode_of fs k, fs')"
    "named fs p n None fs'" "relinked fs k (- 1) fs'"
    "\<forall>m. room (data_bitmap fs) (dev_view (device fs)) m \<longrightarrow> room (data_bitmap fs) (dev_view (device fs')) m"
proof -
  let ?C = "contents fs"
  obtain q where q: "first_entry bs n 0 = Some q" "snd (entry_at bs q) = k" using p(3) by (auto simp: map_of_entries)
  have dp: "dir_of ?C p = entries bs" using p(1) by (simp add: dir_of_def)
  have k: "k \<in> dom ?C" using dirs_okD(3)[OF inv(2), of p n k] p(3) dp by simp
  obtain fs' where u: "inode_unlink dirjunk n junk now (getDiskInodePos p fs) fs = (kSuccess, inode_of fs k, fs')" "fs_inv fs'"
    "contents fs' = ?C(p \<mapsto> (kDirectory, drop_bytes q bs))" "fs' = fs\<lparr>device := device fs'\<rparr>"
    "attrs fs' = (attrs fs)(k \<mapsto> attr_of ((inode_at fs k)\<lparr>link_cnt := link_cnt (inode_at fs k) - 1\<rparr>))"
    "\<forall>m. room (data_bitmap fs) (dev_view (device fs)) m \<longrightarrow> room (data_bitmap fs) (dev_view (device fs')) m"
    by (rule inode_unlink_ok[OF inv(1) p(1,2,4) q k])
  note fe = first_entry_entries[OF q p(2)]
  note dr = map_of_drop[OF dirs_okD(2)[OF inv(2), of p, unfolded dp] fe(1,2), folded fe(3)]
  have len: "length (drop_bytes q bs) = length bs - 256" "256 \<le> length bs" using fe(1) length_drop_bytes[of q bs] by (auto simp: entries_def)
  have dm: "dom (contents fs') = dom ?C" using p(1) by (auto simp: u(3))
  have dv: "256 dvd length bs" "length bs + 8192 < 2 ^ 31" using dirs_okD(1)[OF inv(2) p(1)] by simp_all
  have sub: "set (dir_of (contents fs') x) \<subseteq> set (dir_of ?C x)" for x using dr(3) dp by (simp add: u(3) dir_of_upd)
  have "dirs_ok (contents fs')"
    unfolding dirs_ok_def dm
  proof (intro conjI allI impI)
    fix x b assume "contents fs' x = Some (kDirectory, b)"
    then show "256 dvd length b" "length b + 8192 < 2 ^ 31" using dirs_okD(1)[OF inv(2), of x b] dv len by (auto simp: u(3) split: if_splits)
  next
    fix x
    show "distinct (map fst (dir_of (contents fs') x))" using dr(2) dirs_okD(2)[OF inv(2), of x] by (simp add: u(3) dir_of_upd)
    have "snd ` set (dir_of ?C x) \<subseteq> dom ?C" using inv(2) by (simp add: dirs_ok_def)
    then show "snd ` set (dir_of (contents fs') x) \<subseteq> dom ?C" using image_mono[OF sub, of snd x] by blast
    show "[] \<notin> fst ` set (dir_of (contents fs') x)" using image_mono[OF sub, of fst x] dirs_okD(4)[OF inv(2), of x] by blast
  qed
  moreover have "map_of (dir_of (contents fs') x) y = (if x = p \<and> y = n then None else map_of (dir_of ?C x) y)" for x y
    using dr(1) dp by (simp add: u(3) dir_of_upd)
  ultimately have "named fs p n None fs'" unfolding named_def using u(2,4) dm p(1) len by (simp add: u(3))
  moreover have "relinked fs k (- 1) fs'" by (rule relinkedI[OF k]) (simp add: u(5))
  ultimately show ?thesis using that[OF u(1)] u(6) by blast
qed

lemma link_step:
  assumes inv: "fs_inv fs" "dirs_ok (contents fs)" and d: "contents fs d = Some (kDirectory, old)" "can_link fs replace m old r" "name_ok m" "m \<noteq> []"
    and k: "k \<in> dom (contents fs)" "k \<noteq> d"
  obtains fs' where "inode_link dirjunk m (inode_of fs k) replace now (getDiskInodePos d fs) fs = Some (kSuccess, fs')"
    "named fs d m (Some k) fs'" "relinked fs k 1 fs'" "map_of (entries old) m = None \<longrightarrow> room (data_bitmap fs) (dev_view (device fs')) r"
proof -
  let ?C = "contents fs"
  obtain fs' new where l: "inode_link dirjunk m (inode_of fs k) replace now (getDiskInodePos d fs) fs = Some (kSuccess, fs')" "fs_inv fs'"
    "contents fs' = ?C(d \<mapsto> (kDirectory, new))" "named_in m k old new" "fs' = fs\<lparr>device := device fs'\<rparr>"
    "attrs fs' = (attrs fs)(k \<mapsto> attr_of ((inode_at fs k)\<lparr>link_cnt := link_cnt (inode_at fs k) + 1\<rparr>))"
    "map_of (entries old) m = None \<longrightarrow> room (data_bitmap fs) (dev_view (device fs')) r" "length new \<le> length old + 256"
    by (rule link_any_ok[OF inv(1) d(1-3) k])
  note nd = named_inD[OF l(4)]
  have dp: "dir_of ?C d = entries old" using d(1) by (simp add: dir_of_def)
  have dm: "dom (contents fs') = dom ?C" using d(1) by (auto simp: l(3))
  have sub: "set (dir_of (contents fs') x) \<subseteq> insert (m, k) (set (dir_of ?C x))" for x using nd(3) dp by (auto simp: l(3) dir_of_upd)
  have "dirs_ok (contents fs')"
    unfolding dirs_ok_def dm
  proof (intro conjI allI impI)
    fix x b assume "contents fs' x = Some (kDirectory, b)"
    then show "256 dvd length b" "length b + 8192 < 2 ^ 31" using dirs_okD(1)[OF inv(2), of x b] nd(4,5) by (auto simp: l(3) split: if_splits)
  next
    fix x
    show "distinct (map fst (dir_of (contents fs') x))" using nd(2) dirs_okD(2)[OF inv(2), of x] by (simp add: l(3) dir_of_upd)
    have "snd ` set (dir_of ?C x) \<subseteq> dom ?C" using inv(2) by (simp add: dirs_ok_def)
    then show "snd ` set (dir_of (contents fs') x) \<subseteq> dom ?C" using image_mono[OF sub, of snd x] k(1) by (simp only: image_insert snd_conv) blast
    show "[] \<notin> fst ` set (dir_of (contents fs') x)" using image_mono[OF sub, of fst x] dirs_okD(4)[OF inv(2), of x] d(4) by auto
  qed
  moreover have "map_of (dir_of (contents fs') x) y = (if x = d \<and> y = m then Some k else map_of (dir_of ?C x) y)" for x y
    using nd(1) dp by (simp add: l(3) dir_of_upd)
  ultimately have "named fs d m (Some k) fs'" unfolding named_def using l(2,5,8) dm d(1) by (simp add: l(3))
  moreover have "relinked fs k 1 fs'" by (rule relinkedI[OF k(1) l(6)])
  ultimately show ?thesis using that[OF l(1)] l(7) by blast
qed

end
