(* ===== verification/Vfs_Rename.thy ===== *)
theory Vfs_Rename
  imports Name_Steps
begin

text \<open>
  \<open>rename\<close>: a name is taken out of one directory and put into another, or into the same one, for the same inode. In
  between, the file has no name at all. With \<open>RENAME_EXCHANGE\<close> two names change places.
\<close>

section \<open>The handler\<close>

lemma resolve_parent:
  assumes "vfs_inv v" "path_ok (ps @ [n])" "lookup (contents (v_fs v)) ps (root_id (v_fs v)) = Some p" "p \<in> dom (contents (v_fs v))"
  obtains v1 where "vfs_resolve e (path_of ps @ [slash]) v = Some (inode_of (v_fs v) p, v1)" "Inode_isValid (inode_of (v_fs v) p)"
    "vfs_inv v1" "fs_twin (v_fs v) (v_fs v1)" "v_fd v1 = v_fd v"
  by (rule vfs_resolve_ok[OF assms(1) split_parent(2)[OF assms(2)], of e])
    (use that assms(3) inode_of_valid[OF vfs_invD(1)[OF assms(1)] assms(4)] in \<open>simp add: res_inode_def\<close>)

text \<open>\<open>rename\<close> after its two directories are found: what it does with the inodes of the old and of the new one.\<close>

definition rename_tail :: "env \<Rightarrow> Inode \<Rightarrow> cstring \<Rightarrow> Inode \<Rightarrow> cstring \<Rightarrow> cstring \<Rightarrow> cstring \<Rightarrow> u32 \<Rightarrow> vfs \<Rightarrow> (int \<times> vfs) option" where
  "rename_tail e old_dir n new_dir m oldpath newpath flags v2 =
     on_inode old_dir (inode_unlink (e_dirjunk e) n (e_junk e) (e_now e)) v2 \<bind> (\<lambda>(unlink_ret, old_child, fs3).
     let v3 = v2\<lparr>v_fs := fs3\<rparr> in
     if unlink_ret = kFail then Some (- ENOENT, v3)
     else (if flags AND RENAME_EXCHANGE \<noteq> 0 then
             on_inode new_dir (inode_unlink (e_dirjunk e) m (e_junk e) (e_now e)) v3 \<bind> (\<lambda>(_, new_child, fs4).
             link_in e old_dir n new_child False (v3\<lparr>v_fs := fs4\<rparr>) \<bind> (\<lambda>(_, fs5). Some (v3\<lparr>v_fs := fs5\<rparr>)))
           else Some v3) \<bind> (\<lambda>v5.
       link_in e new_dir m old_child (flags AND RENAME_NOREPLACE = 0) v5 \<bind> (\<lambda>(_, fs6).
       vfs_removePrefix oldpath (v5\<lparr>v_fs := fs6\<rparr>) \<bind> (\<lambda>v7. vfs_removePrefix newpath v7 \<bind> (\<lambda>v8. Some (0, v8))))))"

lemma rename_resolved:
  assumes "vfs_inv v" "path_ok (ps @ [n])" "path_ok (ds @ [m])"
    and "lookup (contents (v_fs v)) ps (root_id (v_fs v)) = Some p" "p \<in> dom (contents (v_fs v))"
    and "lookup (contents (v_fs v)) ds (root_id (v_fs v)) = Some d" "d \<in> dom (contents (v_fs v))"
  obtains v2 where "vfs_inv v2" "fs_twin (v_fs v) (v_fs v2)" "v_fd v2 = v_fd v"
    "sb_rename e (path_of (ps @ [n])) (path_of (ds @ [m])) flags v =
       rename_tail e (inode_of (v_fs v2) p) n (inode_of (v_fs v2) d) m (path_of (ps @ [n])) (path_of (ds @ [m])) flags v2"
proof -
  note i = vfs_invD[OF assms(1)] and sp1 = split_parent[OF assms(2)] and sp2 = split_parent[OF assms(3)]
  obtain v1 where v1: "vfs_resolve e (path_of ps @ [slash]) v = Some (inode_of (v_fs v) p, v1)" "Inode_isValid (inode_of (v_fs v) p)"
    "vfs_inv v1" "fs_twin (v_fs v) (v_fs v1)" "v_fd v1 = v_fd v"
    by (rule resolve_parent[OF assms(1,2,4,5)])
  note t1 = fs_twin_kept[OF i(1) v1(4)]
  have l2: "lookup (contents (v_fs v1)) ds (root_id (v_fs v1)) = Some d" "d \<in> dom (contents (v_fs v1))" using assms(6,7) t1(2,5) by simp_all
  obtain v2 where v2: "vfs_resolve e (path_of ds @ [slash]) v1 = Some (inode_of (v_fs v1) d, v2)" "Inode_isValid (inode_of (v_fs v1) d)"
    "vfs_inv v2" "fs_twin (v_fs v1) (v_fs v2)" "v_fd v2 = v_fd v1"
    by (rule resolve_parent[OF v1(3) assms(3) l2])
  note t2 = fs_twin_kept[OF t1(1) v2(4)]
  have pos: "getDiskInodePos x (v_fs v2) = getDiskInodePos x (v_fs v)" "getDiskInodePos x (v_fs v1) = getDiskInodePos x (v_fs v)" for x
    using t1(3) t2(3) by simp_all
  show ?thesis
  proof (rule that[OF v2(3) fs_twin_trans[OF v1(4) v2(4)]])
    show "v_fd v2 = v_fd v" using v1(5) v2(5) by simp
    show "sb_rename e (path_of (ps @ [n])) (path_of (ds @ [m])) flags v =
       rename_tail e (inode_of (v_fs v2) p) n (inode_of (v_fs v2) d) m (path_of (ps @ [n])) (path_of (ds @ [m])) flags v2"
      using v1(1,2) v2(1)[unfolded pos] unfolding rename_tail_def pos
      by (cases "on_inode (inode_of (v_fs v) p) (inode_unlink (e_dirjunk e) n (e_junk e) (e_now e)) v2")
        (auto simp: sb_rename_def rename_unlink_def rename_link_def sp1(1) sp2(1) Let_def simp del: path_of_snoc)
  qed
qed

text \<open>At the end the cached paths through the two names are dropped; the others lead where they led.\<close>

lemma rename_caches:
  assumes inv: "vfs_inv v" and path: "path_ok (ps @ [n])" "path_ok (ds @ [m])" and fs': "fs_inv fs'" "fs' = (v_fs v)\<lparr>device := device fs'\<rparr>"
    "attrs fs' = attrs (v_fs v)" and rw: "rewired (contents (v_fs v)) (root_id (v_fs v)) ch (contents fs')" "tidy (contents (v_fs v)) ch"
    and ch: "\<And>e. ch e \<noteq> None \<Longrightarrow> e = (p, n) \<or> e = (d, m)"
    and pd: "lookup (contents (v_fs v)) ps (root_id (v_fs v)) = Some p" "lookup (contents (v_fs v)) ds (root_id (v_fs v)) = Some d"
  obtains v7 v8 where "vfs_removePrefix (path_of (ps @ [n])) (v\<lparr>v_fs := fs'\<rparr>) = Some v7" "vfs_removePrefix (path_of (ds @ [m])) v7 = Some v8"
    "vfs_inv v8" "v_fs v8 = fs'" "v_fd v8 = v_fd v"
proof -
  note i = vfs_invD[OF inv]
  obtain pr1 where r1: "vfs_removePrefix (path_of (ps @ [n])) (v\<lparr>v_fs := fs'\<rparr>) = Some (v\<lparr>v_fs := fs', v_path := pr1\<rparr>)" "pr_inv pr1"
    "inodes_of (path_cache pr1) \<subseteq> inodes_of (path_cache (v_path v))"
    "\<forall>(key, i) \<in> inodes_of (path_cache pr1). take (Suc (length ps)) (split_path key slash False) \<noteq> ps @ [n]"
    by (rule vfs_removePrefix_ok[OF path(1), of "v\<lparr>v_fs := fs'\<rparr>"]) (use i(9) in simp_all)
  obtain pr2 where r2: "vfs_removePrefix (path_of (ds @ [m])) (v\<lparr>v_fs := fs', v_path := pr1\<rparr>) = Some (v\<lparr>v_fs := fs', v_path := pr2\<rparr>)" "pr_inv pr2"
    "inodes_of (path_cache pr2) \<subseteq> inodes_of (path_cache pr1)"
    "\<forall>(key, i) \<in> inodes_of (path_cache pr2). take (Suc (length ds)) (split_path key slash False) \<noteq> ds @ [m]"
    by (rule vfs_removePrefix_ok[OF path(2), of "v\<lparr>v_fs := fs', v_path := pr1\<rparr>"]) (use r1(2) in simp_all)
  have pl: "\<forall>a \<in> set ps. plain a" "\<forall>a \<in> set ds. plain a" using path by (simp_all add: path_ok_def comp_ok_def)
  have lk: "links_one fs'" using i(8) fs'(3) by (simp add: links_one_def)
  have "vfs_inv (v\<lparr>v_fs := fs', v_path := pr2\<rparr>)"
  proof (rule vfs_inv_update[OF inv fs'(1,2) rewired_tree[OF rw] lk])
    fix key j x assume e: "(key, j) \<in> inodes_of (path_cache (v_path (v\<lparr>v_fs := fs', v_path := pr2\<rparr>)))"
      "\<forall>n \<in> set (split_path key slash False). comp_ok n" "lookup (contents (v_fs v)) (split_path key slash False) (root_id (v_fs v)) = Some x"
    have e1: "take (Suc (length ps)) (split_path key slash False) \<noteq> ps @ [n]" "take (Suc (length ds)) (split_path key slash False) \<noteq> ds @ [m]"
      using e(1) r1(4) r2(3,4) by auto
    have e2: "\<forall>n \<in> set (split_path key slash False). plain n" using e(2) by (simp add: comp_ok_def)
    show "lookup (contents fs') (split_path key slash False) (root_id (v_fs v)) = Some x"
      by (rule rewired_lookup2[OF rw(1) ch pd(1) pl(1) pd(2) pl(2) e(3) e2 e1])
  qed (use r2(2,3) r1(3) in auto)
  then show ?thesis by (rule that[OF r1(1) r2(1)]) simp_all
qed

section \<open>Moving a name\<close>

text \<open>What \<open>rename\<close> needs of the new name: it is new and there is room for an entry, or it is the name of another file that may be
  replaced.\<close>

definition new_name_ok :: "sbfs \<Rightarrow> bool \<Rightarrow> cstring \<Rightarrow> u32 \<Rightarrow> u8 list \<Rightarrow> bool" where
  "new_name_ok fs replace m k old \<longleftrightarrow>
     (case map_of (entries old) m of
        None \<Rightarrow> length old \<le> 22 * 4096 \<and> room (data_bitmap fs) (dev_view (device fs)) 1
      | Some j \<Rightarrow> replace \<and> dir_ok old \<and> j \<noteq> k \<and> (\<exists>t c. contents fs j = Some (t, c) \<and> t \<noteq> kDirectory))"

lemma new_name_twin:
  assumes "fs_inv fs" "fs_twin fs g" "new_name_ok fs replace m k old"
  shows "new_name_ok g replace m k old"
proof -
  note t = fs_twin_kept[OF assms(1,2)]
  have bm: "data_bitmap g = data_bitmap fs" by (subst t(6)) simp
  from assms(3) show ?thesis unfolding new_name_ok_def t(2,7) bm .
qed

definition moving :: "u32 \<Rightarrow> cstring \<Rightarrow> u32 \<Rightarrow> u32 \<Rightarrow> cstring \<Rightarrow> (u32 \<times> cstring \<rightharpoonup> u32 option)" where
  "moving p n k d m = [(p, n) \<mapsto> None, (d, m) \<mapsto> Some k]"

lemma relinked_back: "relinked a k (- 1) b \<Longrightarrow> attrs c = attrs b \<Longrightarrow> relinked c k 1 d \<Longrightarrow> attrs d = attrs a"
  by (cases "attrs a k") (auto simp: relinked_def fun_eq_iff)

lemma relink_ok:
  assumes inv: "vfs_inv v" and p: "contents (v_fs v) p = Some (kDirectory, bs)" "dir_ok bs" "map_of (entries bs) n = Some k" "comp_ok n"
    and d: "contents (v_fs v) d = Some (kDirectory, old)" "new_name_ok (v_fs v) replace m k old" "comp_ok m" and k: "k \<noteq> d"
  obtains fs3 fs6 where "inode_unlink dirjunk n junk now (getDiskInodePos p (v_fs v)) (v_fs v) = (kSuccess, inode_of (v_fs v) k, fs3)"
    "inode_link dirjunk m (inode_of (v_fs v) k) replace now (getDiskInodePos d (v_fs v)) fs3 = Some (kSuccess, fs6)" "fs_inv fs6"
    "fs6 = (v_fs v)\<lparr>device := device fs6\<rparr>" "attrs fs6 = attrs (v_fs v)" "rewired (contents (v_fs v)) (root_id (v_fs v)) (moving p n k d m) (contents fs6)"
    "\<forall>j. j \<noteq> p \<longrightarrow> j \<noteq> d \<longrightarrow> contents fs6 j = contents (v_fs v) j"
proof -
  note i = vfs_invD[OF inv]
  let ?C = "contents (v_fs v)"
  have nm: "name_ok n" "name_ok m" "plain n" "plain m" "m \<noteq> []" using p(4) d(3) by (simp_all add: comp_ok_def name_ok_def)
  obtain fs3 where u: "inode_unlink dirjunk n junk now (getDiskInodePos p (v_fs v)) (v_fs v) = (kSuccess, inode_of (v_fs v) k, fs3)"
    "named (v_fs v) p n None fs3" "relinked (v_fs v) k (- 1) fs3"
    "\<forall>m. room (data_bitmap (v_fs v)) (dev_view (device (v_fs v))) m \<longrightarrow> room (data_bitmap (v_fs v)) (dev_view (device fs3)) m"
    by (rule unlink_step[OF i(1,6) p(1-3) nm(1)])
  note N = namedD[OF u(2)] and G = named_geometry[OF u(2)]
  obtain old1 where o: "contents fs3 d = Some (kDirectory, old1)" "map_of (entries old1) m = (if d = p \<and> m = n then None else map_of (entries old) m)"
    "length old1 \<le> length old"
    by (rule named_dir[OF u(2) d(1), of m]) (auto split: if_splits)
  have mo: "map_of (entries old1) m = map_of (entries old) m" using o(2) d(1,2) p(1,3) by (auto simp: new_name_ok_def)
  have e1: "256 dvd length old1" "distinct (map fst (entries old1))"
    using dirs_okD(1)[OF N(3) o(1)] dirs_okD(2)[OF N(3), of d] o(1) by (simp_all add: dir_of_def)
  have cl: "can_link fs3 replace m old1 0"
    using d(2) u(4) e1 o(3) by (auto simp: new_name_ok_def can_link_def G(1) mo dir_ok_def split: option.splits)
  have kd: "k \<in> dom ?C" using dirs_okD(3)[OF i(6), of p n k] p(1,3) by (simp add: dir_of_def)
  obtain fs6 where l: "inode_link dirjunk m (inode_of fs3 k) replace now (getDiskInodePos d fs3) fs3 = Some (kSuccess, fs6)"
    "named fs3 d m (Some k) fs6" "relinked fs3 k 1 fs6"
    by (rule link_step[OF N(1,3) o(1) cl nm(2,5) kd[folded N(4)] k])
  note M = namedD[OF l(2)]
  have "rewired ?C (root_id (v_fs v)) (moving p n k d m) (contents fs6)"
    unfolding rewired_def
  proof (intro conjI allI impI)
    show "\<exists>b. contents fs6 (root_id (v_fs v)) = Some (kDirectory, b)"
      using root_is_dir[OF i(3)] named_dir[OF u(2)] named_dir[OF l(2)] by metis
    show "\<exists>p' n'. edge ?C p' n' k' \<and> moving p n k d m (p', n') \<noteq> None" if "moving p n k d m e = Some (Some k')" for e k'
      using that p(1,3) nm(3) by (intro exI[of _ p] exI[of _ n]) (auto simp: moving_def edge_def dir_of_def split: if_splits)
  qed (use i(3) M(3,6) N(6) nm(3,4) in \<open>auto simp: moving_def split: if_splits\<close>)
  moreover have "fs6 = (v_fs v)\<lparr>device := device fs6\<rparr>" using M(2) by (subst (asm) N(2)) simp
  moreover have "\<forall>j. j \<noteq> p \<longrightarrow> j \<noteq> d \<longrightarrow> contents fs6 j = ?C j" using M(5) N(5) by simp
  ultimately show ?thesis using that[OF u(1) l(1)[unfolded G(2)] M(1)] relinked_back[OF u(3) refl l(3)] by blast
qed

lemma moving_tidy:
  assumes "edge C p n k" "dir_of C k = [] \<or> d = p" "\<And>j. map_of (dir_of C d) m = Some j \<Longrightarrow> j = k \<or> dir_of C j = []"
  shows "tidy C (moving p n k d m)"
  unfolding tidy_def
proof (intro allI impI)
  fix x y j assume e: "edge C x y j" "moving p n k d m (x, y) \<noteq> None"
  have "j = k \<or> dir_of C j = []" "j = k \<Longrightarrow> (x, y) = (d, m) \<or> (x, y) = (p, n)"
    using e assms(1,3) by (auto simp: moving_def edge_def split: if_splits)
  then show "dir_of C j = [] \<or> (\<exists>y'. moving p n k d m (x, y') = Some (Some j))"
    using assms(2) by (auto simp: moving_def)
qed

lemma sb_rename_ok:
  assumes "vfs_inv v" "path_ok (ps @ [n])" "path_ok (ds @ [m])" "flags AND RENAME_EXCHANGE = 0"
    and "lookup (contents (v_fs v)) ps (root_id (v_fs v)) = Some p" "contents (v_fs v) p = Some (kDirectory, bs)" "dir_ok bs"
    and "lookup (contents (v_fs v)) ds (root_id (v_fs v)) = Some d" "contents (v_fs v) d = Some (kDirectory, old)"
    and "map_of (entries bs) n = Some k" "contents (v_fs v) k = Some (t, c)" "t \<noteq> kDirectory \<or> d = p"
    and "new_name_ok (v_fs v) (flags AND RENAME_NOREPLACE = 0) m k old"
  shows "\<exists>v'. sb_rename e (path_of (ps @ [n])) (path_of (ds @ [m])) flags v = Some (0, v') \<and> vfs_inv v' \<and> v_fd v' = v_fd v \<and>
     lookup (contents (v_fs v')) (ds @ [m]) (root_id (v_fs v')) = Some k \<and> attrs (v_fs v') = attrs (v_fs v) \<and>
     (\<forall>x y. map_of (dir_of (contents (v_fs v')) x) y =
        (if x = d \<and> y = m then Some k else if x = p \<and> y = n then None else map_of (dir_of (contents (v_fs v)) x) y)) \<and>
     (\<forall>j. j \<noteq> p \<longrightarrow> j \<noteq> d \<longrightarrow> contents (v_fs v') j = contents (v_fs v) j)"
proof -
  note i = vfs_invD[OF assms(1)]
  let ?C = "contents (v_fs v)"
  have cn: "comp_ok n" "comp_ok m" "\<forall>a \<in> set ps. plain a" "\<forall>a \<in> set ds. plain a" using assms(2,3) by (auto simp: path_ok_def comp_ok_def)
  have ed: "edge ?C p n k" using cn(1) assms(6,10) by (simp add: edge_def dir_of_def comp_ok_def)
  have kd: "k \<noteq> d" using edge_not_self[OF i(3) assms(5) cn(3) ed] assms(9,11,12) by auto
  have dm: "p \<in> dom ?C" "d \<in> dom ?C" using assms(6,9) by auto
  obtain v2 where v2: "vfs_inv v2" "fs_twin (v_fs v) (v_fs v2)" "v_fd v2 = v_fd v"
    "sb_rename e (path_of (ps @ [n])) (path_of (ds @ [m])) flags v =
       rename_tail e (inode_of (v_fs v2) p) n (inode_of (v_fs v2) d) m (path_of (ps @ [n])) (path_of (ds @ [m])) flags v2"
    by (rule rename_resolved[OF assms(1-3,5) dm(1) assms(8) dm(2)])
  note t = fs_twin_kept[OF i(1) v2(2)]
  note h2 = assms(6,9)[folded t(2)] and nn = new_name_twin[OF i(1) v2(2) assms(13)]
  obtain fs3 fs6 where u: "inode_unlink (e_dirjunk e) n (e_junk e) (e_now e) (getDiskInodePos p (v_fs v2)) (v_fs v2) = (kSuccess, inode_of (v_fs v2) k, fs3)"
    "inode_link (e_dirjunk e) m (inode_of (v_fs v2) k) (flags AND RENAME_NOREPLACE = 0) (e_now e) (getDiskInodePos d (v_fs v2)) fs3 = Some (kSuccess, fs6)"
    "fs_inv fs6" "fs6 = (v_fs v2)\<lparr>device := device fs6\<rparr>" "attrs fs6 = attrs (v_fs v2)"
    "rewired (contents (v_fs v2)) (root_id (v_fs v2)) (moving p n k d m) (contents fs6)" "\<forall>j. j \<noteq> p \<longrightarrow> j \<noteq> d \<longrightarrow> contents fs6 j = contents (v_fs v2) j"
    by (rule relink_ok[OF v2(1) h2(1) assms(7,10) cn(1) h2(2) nn cn(2) kd])
  have kf: "dir_of ?C k = [] \<or> d = p" using assms(11,12) by (auto simp: dir_of_def)
  have ch: "x = (p, n) \<or> x = (d, m)" if "moving p n k d m x \<noteq> None" for x using that by (auto simp: moving_def split: if_splits)
  have ty: "tidy ?C (moving p n k d m)"
    by (rule moving_tidy[OF ed kf]) (use assms(9,13) in \<open>auto simp: new_name_ok_def dir_of_def\<close>)
  have p2: "lookup (contents (v_fs v2)) ps (root_id (v_fs v2)) = Some p" "lookup (contents (v_fs v2)) ds (root_id (v_fs v2)) = Some d"
    using assms(5,8) t(2,5) by simp_all
  obtain v7 v8 where r: "vfs_removePrefix (path_of (ps @ [n])) (v2\<lparr>v_fs := fs6\<rparr>) = Some v7" "vfs_removePrefix (path_of (ds @ [m])) v7 = Some v8"
    "vfs_inv v8" "v_fs v8 = fs6" "v_fd v8 = v_fd v2"
    by (rule rename_caches[OF v2(1) assms(2,3) u(3-6) ty[folded t(2)] ch p2])
  have "sb_rename e (path_of (ps @ [n])) (path_of (ds @ [m])) flags v = Some (0, v8)"
    using v2(4) u(1,2) r(1,2) assms(4) by (simp add: rename_tail_def on_inode_def link_in_def kSuccess_def kFail_def del: path_of_snoc)
  moreover have names: "map_of (dir_of (contents fs6) x) y = (if x = d \<and> y = m then Some k else if x = p \<and> y = n then None else map_of (dir_of ?C x) y)" for x y
    unfolding rewiredD(5)[OF u(6)] t(2) by (simp add: moving_def)
  moreover have "lookup (contents fs6) ds (root_id (v_fs v2)) = Some d"
    by (rule rewired_lookup2[OF u(6) ch p2(1) cn(3) p2(2) cn(4) p2(2) cn(4)])
      (use not_through[OF i(3) assms(5) cn(3) ed assms(8) cn(4) kd[symmetric] kf] in simp_all)
  then have "lookup (contents (v_fs v8)) (ds @ [m]) (root_id (v_fs v8)) = Some k"
    unfolding r(4) fs_device_eq(3)[OF u(4)] by (simp add: lookup_snoc names)
  ultimately show ?thesis using r(3-5) u(5,7) v2(3) t(2,8) by (intro exI[of _ v8]) simp
qed

text \<open>C7: \<open>rename\<close> moves the name: the new path leads to the same file, the old name is gone and every other name leads where it
  led; the bytes and the attributes of all files that are not one of the two directories stay, and the invariant holds. The new
  name does not exist yet, or it is the name of another file that may be replaced; that file loses its name and stays on the disk.
  Directories move within their parent only.\<close>

theorem sb_rename_refines:
  assumes "vfs_inv v" "path_ok (ps @ [n])" "path_ok (ds @ [m])" "flags AND RENAME_EXCHANGE = 0"
    and "lookup (contents (v_fs v)) ps (root_id (v_fs v)) = Some p" "contents (v_fs v) p = Some (kDirectory, bs)" "dir_ok bs"
    and "lookup (contents (v_fs v)) ds (root_id (v_fs v)) = Some d" "contents (v_fs v) d = Some (kDirectory, old)"
    and "map_of (entries bs) n = Some k" "contents (v_fs v) k = Some (t, c)" "t \<noteq> kDirectory \<or> d = p"
    and "new_name_ok (v_fs v) (flags AND RENAME_NOREPLACE = 0) m k old"
  shows "\<exists>v'. sb_rename e (path_of (ps @ [n])) (path_of (ds @ [m])) flags v = Some (0, v') \<and> vfs_inv v' \<and> v_fd v' = v_fd v \<and>
     lookup (contents (v_fs v')) (ds @ [m]) (root_id (v_fs v')) = Some k \<and> attrs (v_fs v') = attrs (v_fs v) \<and>
     (\<forall>x y. map_of (dir_of (contents (v_fs v')) x) y =
        (if x = d \<and> y = m then Some k else if x = p \<and> y = n then None else map_of (dir_of (contents (v_fs v)) x) y)) \<and>
     (\<forall>j. j \<noteq> p \<longrightarrow> j \<noteq> d \<longrightarrow> contents (v_fs v') j = contents (v_fs v) j)"
  by (rule sb_rename_ok[OF assms])

text \<open>C19: \<open>rename\<close> to a path whose directory does not exist finds that out too late. Its first part takes the old name, and no other
  name, out of its directory; the second part then works on an inode without a file system, and the process ends there, instead
  of returning \<open>ENOENT\<close>.\<close>

theorem rename_to_nowhere:
  assumes "vfs_inv v" "path_ok (ps @ [n])" "path_ok (ds @ [m])"
    and "lookup (contents (v_fs v)) ps (root_id (v_fs v)) = Some p" "contents (v_fs v) p = Some (kDirectory, bs)" "dir_ok bs"
    and "map_of (entries bs) n = Some k" "lookup (contents (v_fs v)) ds (root_id (v_fs v)) = None"
  shows "\<exists>inodes v3. rename_unlink e (path_of (ps @ [n])) (path_of (ds @ [m])) v = Some (Inr inodes, v3) \<and>
     (\<forall>x y. map_of (dir_of (contents (v_fs v3)) x) y = (if x = p \<and> y = n then None else map_of (dir_of (contents (v_fs v)) x) y)) \<and>
     rename_link e (path_of (ps @ [n])) (path_of (ds @ [m])) flags inodes v3 = None \<and>
     sb_rename e (path_of (ps @ [n])) (path_of (ds @ [m])) flags v = None"
proof -
  note i = vfs_invD[OF assms(1)] and sp1 = split_parent[OF assms(2)] and sp2 = split_parent[OF assms(3)]
  have nm: "name_ok n" using assms(2) by (simp add: path_ok_def comp_ok_def)
  have "p \<in> dom (contents (v_fs v))" using assms(5) by auto
  then obtain v1 where v1: "vfs_resolve e (path_of ps @ [slash]) v = Some (inode_of (v_fs v) p, v1)" "Inode_isValid (inode_of (v_fs v) p)"
    "vfs_inv v1" "fs_twin (v_fs v) (v_fs v1)" "v_fd v1 = v_fd v"
    by (rule resolve_parent[OF assms(1,2,4)])
  note t1 = fs_twin_kept[OF i(1) v1(4)]
  have "lookup (contents (v_fs v1)) ds (root_id (v_fs v1)) = None" using assms(8) t1(2,5) by simp
  then obtain v2 where v2: "vfs_resolve e (path_of ds @ [slash]) v1 = Some (Inode_invalid, v2)" "vfs_inv v2" "fs_twin (v_fs v1) (v_fs v2)"
    using vfs_resolve_ok[OF v1(3) sp2(2), of e thesis] by (simp add: res_inode_def)
  note t2 = fs_twin_kept[OF t1(1) v2(3)] and i2 = vfs_invD[OF v2(2)]
  have pos: "getDiskInodePos x (v_fs v2) = getDiskInodePos x (v_fs v)" for x using t1(3) t2(3) by simp
  have p2: "contents (v_fs v2) p = Some (kDirectory, bs)" using assms(5) t1(2) t2(2) by simp
  obtain fs3 where u: "inode_unlink (e_dirjunk e) n (e_junk e) (e_now e) (getDiskInodePos p (v_fs v2)) (v_fs v2) = (kSuccess, inode_of (v_fs v2) k, fs3)"
    "named (v_fs v2) p n None fs3"
    by (rule unlink_step[OF i2(1,6) p2 assms(6,7) nm])
  define inodes where "inodes = (inode_of (v_fs v) p, Inode_invalid, inode_of (v_fs v2) k)"
  have nofs: "\<not> ino_fs Inode_invalid" by (simp add: Inode_invalid_def)
  have one: "rename_unlink e (path_of (ps @ [n])) (path_of (ds @ [m])) v = Some (Inr inodes, v2\<lparr>v_fs := fs3\<rparr>)"
    unfolding rename_unlink_def sp1(1) sp2(1) inodes_def using v1(1,2) v2(1) u(1)
    by (simp add: pos on_inode_def kSuccess_def kFail_def Let_def del: path_of_snoc)
  moreover have two: "rename_link e (path_of (ps @ [n])) (path_of (ds @ [m])) flags inodes (v2\<lparr>v_fs := fs3\<rparr>) = None"
    unfolding rename_link_def sp1(1) sp2(1) inodes_def using nofs by (simp add: on_inode_def link_in_def Let_def)
  moreover have "sb_rename e (path_of (ps @ [n])) (path_of (ds @ [m])) flags v = None"
    unfolding sb_rename_def one by (simp add: two del: path_of_snoc)
  moreover have "map_of (dir_of (contents fs3) x) y = (if x = p \<and> y = n then None else map_of (dir_of (contents (v_fs v)) x) y)" for x y
    using namedD(6)[OF u(2)] t1(2) t2(2) by simp
  ultimately show ?thesis by (intro exI[of _ inodes] exI[of _ "v2\<lparr>v_fs := fs3\<rparr>"]) simp
qed

section \<open>Files to rename\<close>

text \<open>One open file \<open>/a\<close>, with room for another one.\<close>

lemma open_file_room:
  obtains k ne fd v where "vfs_inv v" "points v fd k" "contents (v_fs v) = [2 \<mapsto> (kDirectory, ne), k \<mapsto> (kFile, [])]" "k \<noteq> 2"
    "entries ne = [(dot, 2), (dotdot, 2), ([0x61], k)]" "root_id (v_fs v) = 2" "fd_room (Suc 0) (v_fd v)"
    "lookup (contents (v_fs v)) [] (root_id (v_fs v)) = Some 2" "contents (v_fs v) 2 = Some (kDirectory, ne)" "contents (v_fs v) k = Some (kFile, [])"
    "dir_ok ne" "length ne = 768" "map_of (entries ne) [0x61] = Some k" "room_for_entry (v_fs v) (length ne) (Suc 2)"
proof -
  obtain k ne fd v where o: "vfs_inv v" "points v fd k" "contents (v_fs v) = [2 \<mapsto> (kDirectory, ne), k \<mapsto> (kFile, [])]" "k \<noteq> 2"
    "room (data_bitmap (v_fs v)) (dev_view (device (v_fs v))) 100" "lookup (contents (v_fs v)) [[0x61]] (root_id (v_fs v)) = Some k"
    "entries ne = [(dot, 2), (dotdot, 2), ([0x61], k)]" "root_id (v_fs v) = 2" "fd_room 500 (v_fd v)" "fd \<noteq> 0"
    "ibm_blocks (v_fs v) = 1"
    by (rule open_file[of 100]) auto
  have p: "lookup (contents (v_fs v)) [] (root_id (v_fs v)) = Some 2" "contents (v_fs v) 2 = Some (kDirectory, ne)" "contents (v_fs v) k = Some (kFile, [])"
    using o(3,4,8) by simp_all
  have ok: "dir_ok ne" by (rule new_dir_ok[OF o(1) p(2)]) (simp add: o(7))
  then have l: "length ne = 768" using arg_cong[OF o(7), of length] by (auto simp: dir_ok_def elim!: dvdE)
  have fd: "fd_room (Suc 0) (v_fd v)" using o(9) by (simp add: fd_room_def)
  have n: "map_of (entries ne) [0x61] = Some k" by (simp add: o(7) dot_def dotdot_def)
  have "live (v_fs v) = dom (contents (v_fs v))" by (auto simp: contents_def files_def split: if_splits)
  then have "card (live (v_fs v)) = 2" using o(3,4) by simp
  then have "room_for_entry (v_fs v) (length ne) (Suc 2)" using o(5,11) l by (simp add: room_for_entry_def room_def tree_size_def)
  then show ?thesis by (rule that[OF o(1-4,7,8) fd p ok l n])
qed

text \<open>Two files, \<open>/a\<close> and \<open>/b\<close>.\<close>

lemma two_files:
  obtains j k ne v where "vfs_inv v" "contents (v_fs v) = [2 \<mapsto> (kDirectory, ne), k \<mapsto> (kFile, []), j \<mapsto> (kFile, [])]" "j \<noteq> k" "j \<noteq> 2" "k \<noteq> 2"
    "root_id (v_fs v) = 2" "dir_ok ne" "map_of (entries ne) [0x61] = Some k" "map_of (entries ne) [0x62] = Some j"
    "length ne = 1024" "room (data_bitmap (v_fs v)) (dev_view (device (v_fs v))) 2"
proof -
  obtain k ne fd v where o: "vfs_inv v" "points v fd k" "contents (v_fs v) = [2 \<mapsto> (kDirectory, ne), k \<mapsto> (kFile, [])]" "k \<noteq> 2"
    "entries ne = [(dot, 2), (dotdot, 2), ([0x61], k)]" "root_id (v_fs v) = 2" "fd_room (Suc 0) (v_fd v)"
    "lookup (contents (v_fs v)) [] (root_id (v_fs v)) = Some 2" "contents (v_fs v) 2 = Some (kDirectory, ne)" "contents (v_fs v) k = Some (kFile, [])"
    "dir_ok ne" "length ne = 768" "map_of (entries ne) [0x61] = Some k" "room_for_entry (v_fs v) (length ne) (Suc 2)"
    by (rule open_file_room)
  have cc: "can_create v [] [0x62] 2 ne 2" using path_b(1) o(5,8,9,12,14) by (simp add: can_create_def dot_def dotdot_def)
  obtain j ne' v' where c: "vfs_inv v'" "j \<notin> dom (contents (v_fs v))" "contents (v_fs v') = (contents (v_fs v))(2 \<mapsto> (kDirectory, ne'), j \<mapsto> (kFile, []))"
    "entries ne' = entries ne @ [([0x62], j)]" "v_fs v' = (v_fs v)\<lparr>device := device (v_fs v')\<rparr>"
    "room (data_bitmap (v_fs v')) (dev_view (device (v_fs v'))) 2"
    by (rule sb_create_ok[OF o(1) cc o(7), of new_env 0 0])
  have j: "j \<noteq> k" "j \<noteq> 2" using c(2) o(3) by auto
  have ct: "contents (v_fs v') = [2 \<mapsto> (kDirectory, ne'), k \<mapsto> (kFile, []), j \<mapsto> (kFile, [])]" using c(3) o(3,4) by (simp add: fun_upd_twist)
  then have "256 dvd length ne'" using dirs_okD(1)[OF vfs_invD(6)[OF c(1)], of 2 ne'] o(4) j by simp
  then have len: "length ne' = 1024" using arg_cong[OF c(4), of length] o(12) by (auto simp: entries_def elim!: dvdE)
  then have ok: "dir_ok ne'" by (simp add: dir_ok_def)
  have "root_id (v_fs v') = 2" using fs_device_eq(3)[OF c(5)] o(6) by simp
  then show ?thesis by (rule that[OF c(1) ct j o(4) _ ok _ _ len c(6)]) (simp_all add: c(4) o(5) dot_def dotdot_def)
qed

lemma one_file:
  obtains k ne v where "vfs_inv v" "room (data_bitmap (v_fs v)) (dev_view (device (v_fs v))) 1" "root_id (v_fs v) = 2"
    "lookup (contents (v_fs v)) [[0x61]] (root_id (v_fs v)) = Some k" "entries ne = [(dot, 2), (dotdot, 2), ([0x61], k)]"
    "lookup (contents (v_fs v)) [] (root_id (v_fs v)) = Some 2" "contents (v_fs v) 2 = Some (kDirectory, ne)" "contents (v_fs v) k = Some (kFile, [])"
    "dir_ok ne" "length ne \<le> 22 * 4096" "map_of (entries ne) [0x61] = Some k" "[0x62] \<notin> fst ` set (entries ne)"
proof -
  obtain k ne fd v where o: "vfs_inv v" "points v fd k" "contents (v_fs v) = [2 \<mapsto> (kDirectory, ne), k \<mapsto> (kFile, [])]" "k \<noteq> 2"
    "room (data_bitmap (v_fs v)) (dev_view (device (v_fs v))) 1" "lookup (contents (v_fs v)) [[0x61]] (root_id (v_fs v)) = Some k"
    "entries ne = [(dot, 2), (dotdot, 2), ([0x61], k)]" "root_id (v_fs v) = 2"
    by (rule open_file[of 1]) auto
  have p: "lookup (contents (v_fs v)) [] (root_id (v_fs v)) = Some 2" "contents (v_fs v) 2 = Some (kDirectory, ne)" "contents (v_fs v) k = Some (kFile, [])"
    using o(3,4,8) by simp_all
  have ok: "dir_ok ne" by (rule new_dir_ok[OF o(1) p(2)]) (simp add: o(7))
  then have "length ne = 768" using arg_cong[OF o(7), of length] by (auto simp: dir_ok_def elim!: dvdE)
  then have l: "length ne \<le> 22 * 4096" by simp
  have n: "map_of (entries ne) [0x61] = Some k" "[0x62] \<notin> fst ` set (entries ne)" by (simp_all add: o(7) dot_def dotdot_def)
  show ?thesis by (rule that[OF o(1,5,8,6,7) p ok l n])
qed

theorem sb_rename_refines_witness:
  "\<exists>v k v'. lookup (contents (v_fs v)) [[0x61]] 2 = Some k \<and> sb_rename new_env [slash, 0x61] [slash, 0x62] 0 v = Some (0, v') \<and>
     lookup (contents (v_fs v')) [[0x62]] (root_id (v_fs v')) = Some k \<and> map_of (dir_of (contents (v_fs v')) 2) [0x61] = None"
proof -
  obtain k ne v where o: "vfs_inv v" "room (data_bitmap (v_fs v)) (dev_view (device (v_fs v))) 1" "root_id (v_fs v) = 2"
    "lookup (contents (v_fs v)) [[0x61]] (root_id (v_fs v)) = Some k" "entries ne = [(dot, 2), (dotdot, 2), ([0x61], k)]"
    "lookup (contents (v_fs v)) [] (root_id (v_fs v)) = Some 2" "contents (v_fs v) 2 = Some (kDirectory, ne)" "contents (v_fs v) k = Some (kFile, [])"
    "dir_ok ne" "length ne \<le> 22 * 4096" "map_of (entries ne) [0x61] = Some k" "[0x62] \<notin> fst ` set (entries ne)"
    by (rule one_file)
  have t: "kFile \<noteq> kDirectory \<or> (2 :: u32) = 2" "(0 :: u32) AND RENAME_EXCHANGE = 0" by simp_all
  have "map_of (entries ne) [0x62] = None" using o(12) by (simp add: map_of_eq_None_iff)
  then have nn: "new_name_ok (v_fs v) ((0 :: u32) AND RENAME_NOREPLACE = 0) [0x62] k ne" using o(2,10) by (simp add: new_name_ok_def)
  from sb_rename_refines[OF o(1) path_a(1) path_b(1) t(2) o(6,7,9) o(6,7,11,8) t(1) nn, of new_env]
  obtain v' where r: "sb_rename new_env [slash, 0x61] [slash, 0x62] 0 v = Some (0, v')" "lookup (contents (v_fs v')) ([] @ [[0x62]]) (root_id (v_fs v')) = Some k"
    "map_of (dir_of (contents (v_fs v')) 2) [0x61] = None"
    unfolding path_a(2) path_b(2) by auto
  then show ?thesis using o(3,4) by (intro exI[of _ v] exI[of _ k] exI[of _ v']) simp
qed

theorem rename_to_nowhere_witness:
  "\<exists>v inodes v3. map_of (dir_of (contents (v_fs v)) 2) [0x61] \<noteq> None \<and>
     rename_unlink new_env [slash, 0x61] [slash, 0x62, slash, 0x63] v = Some (Inr inodes, v3) \<and> map_of (dir_of (contents (v_fs v3)) 2) [0x61] = None \<and>
     sb_rename new_env [slash, 0x61] [slash, 0x62, slash, 0x63] 0 v = None"
proof -
  obtain k ne v where o: "vfs_inv v" "room (data_bitmap (v_fs v)) (dev_view (device (v_fs v))) 1" "root_id (v_fs v) = 2"
    "lookup (contents (v_fs v)) [[0x61]] (root_id (v_fs v)) = Some k" "entries ne = [(dot, 2), (dotdot, 2), ([0x61], k)]"
    "lookup (contents (v_fs v)) [] (root_id (v_fs v)) = Some 2" "contents (v_fs v) 2 = Some (kDirectory, ne)" "contents (v_fs v) k = Some (kFile, [])"
    "dir_ok ne" "length ne \<le> 22 * 4096" "map_of (entries ne) [0x61] = Some k" "[0x62] \<notin> fst ` set (entries ne)"
    by (rule one_file)
  have b: "path_ok ([[0x62]] @ [[0x63]])" "path_of ([[0x62]] @ [[0x63]]) = [slash, 0x62, slash, 0x63]"
    by (simp_all add: path_ok_def path_of_def comp_ok_def name_ok_def kMaxDirNameLength_def slash_def plain_def dot_def dotdot_def)
  have l: "lookup (contents (v_fs v)) [[0x62]] (root_id (v_fs v)) = None" using o(3,5,7) by (simp add: dir_of_def dot_def dotdot_def)
  obtain inodes v3 where r: "rename_unlink new_env [slash, 0x61] [slash, 0x62, slash, 0x63] v = Some (Inr inodes, v3)"
    "map_of (dir_of (contents (v_fs v3)) 2) [0x61] = None" "sb_rename new_env [slash, 0x61] [slash, 0x62, slash, 0x63] 0 v = None"
    using rename_to_nowhere[OF o(1) path_a(1) b(1) o(6,7,9,11) l, of new_env 0] unfolding path_a(2) b(2) by auto
  have "map_of (dir_of (contents (v_fs v)) 2) [0x61] \<noteq> None" using o(7,11) by (simp add: dir_of_def)
  with r show ?thesis by (intro exI[of _ v] exI[of _ inodes] exI[of _ v3]) simp
qed

end
