(* ===== verification/Vfs_Hazards.thy ===== *)
theory Vfs_Hazards
  imports Vfs_Rename
begin

text \<open>
  What the handlers do outside the requests that keep the invariant: calls that succeed although they should be refused, and what
  they leave behind. Each theorem states the behaviour for every state in which the call is made.
\<close>

section \<open>Removing an open file\<close>

text \<open>\<open>unlink\<close> frees the inode of a file at once, also when the file is open: every handle of the file then names an inode
  that is free, and that the next file created may get.\<close>

theorem unlink_leaves_dangling_handle:
  assumes "vfs_inv v" "path_ok (ps @ [n])" "lookup (contents (v_fs v)) ps (root_id (v_fs v)) = Some p"
    and "contents (v_fs v) p = Some (kDirectory, bs)" "dir_ok bs" "map_of (entries bs) n = Some k"
    and "contents (v_fs v) k = Some (t, c)" "t \<noteq> kDirectory" "fd_get fd (v_fd v) = Some inode" "inode = inode_of (v_fs v) k"
  shows "\<exists>v'. sb_unlink e (path_of (ps @ [n])) v = Some (0, v') \<and> vfs_inv v' \<and> fd_get fd (v_fd v') = Some inode \<and>
     contents (v_fs v') k = None"
proof -
  obtain v' where v': "sb_unlink e (path_of (ps @ [n])) v = Some (0, v')" "removes (contents (v_fs v)) p n k (contents (v_fs v'))"
    "vfs_inv v'" "v_fd v' = v_fd v"
    using sb_unlink_ok[OF assms(1-5), of e] assms(6-8) by (auto simp del: path_of_snoc)
  then show ?thesis using assms(9) by (auto simp: removes_def simp del: path_of_snoc)
qed

section \<open>Creating under a name that exists, and under a file\<close>

lemma lookup_same_map: "(\<And>x y. map_of (dir_of C' x) y = map_of (dir_of C x) y) \<Longrightarrow> lookup C' ns p = lookup C ns p"
  by (induction ns arbitrary: p) (auto split: option.splits)

text \<open>C21: \<open>create\<close> of a name that exists already succeeds. It takes a new inode and appends a second entry with the same name; the
  path leads to the old file as before, and so does every other path, so none leads to the new file, which the handle returned names.\<close>

theorem create_twice_hides_file:
  assumes "vfs_inv v" "path_ok (ps @ [n])" "lookup (contents (v_fs v)) ps (root_id (v_fs v)) = Some p"
    and "contents (v_fs v) p = Some (kDirectory, old)" "map_of (entries old) n = Some j"
    and "room_for_entry (v_fs v) (length old) 1" "fd_room 1 (v_fd v)"
  shows "\<exists>k ne fd v'. sb_create e (path_of (ps @ [n])) mode (Some x) v = Some (0, Some fd, v') \<and> fs_inv (v_fs v') \<and>
     k \<notin> dom (contents (v_fs v)) \<and> contents (v_fs v') = (contents (v_fs v))(p \<mapsto> (kDirectory, ne), k \<mapsto> (kFile, [])) \<and>
     entries ne = entries old @ [(n, k)] \<and> map_of (entries ne) n = Some j \<and> points v' fd k \<and>
     (\<forall>qs. lookup (contents (v_fs v')) qs (root_id (v_fs v')) = lookup (contents (v_fs v)) qs (root_id (v_fs v))) \<and>
     (\<forall>qs. lookup (contents (v_fs v')) qs (root_id (v_fs v')) \<noteq> Some k)"
proof -
  note i = vfs_invD[OF assms(1)] and sp = split_parent[OF assms(2)]
  define ino where "ino = (DiskInode_new kFile (e_now e) (e_uid e) (e_gid e))\<lparr>di_mode :=
      di_mode (DiskInode_new kFile (e_now e) (e_uid e) (e_gid e)) OR ucast (mode AND 0x1FF)\<rparr>"
  have ino: "fresh_inode ino" "di_type ino = kFile" by (simp_all add: ino_def new_mode)
  obtain v1 where v1: "vfs_resolve e (path_of ps @ [slash]) v = Some (inode_of (v_fs v) p, v1)" "Inode_isValid (inode_of (v_fs v) p)"
    "vfs_inv v1" "fs_twin (v_fs v) (v_fs v1)" "v_fd v1 = v_fd v"
    by (rule resolve_parent[OF assms(1-3)]) (use assms(4) in auto)
  note t = fs_twin_kept[OF i(1) v1(4)]
  have nm: "name_ok n" using assms(2) by (simp add: path_ok_def comp_ok_def)
  have dv: "256 dvd length old" using dirs_okD(1)[OF i(6) assms(4)] by simp
  have p1: "contents (v_fs v1) p = Some (kDirectory, old)" using assms(4) t(2) by simp
  have rm: "room_for_entry (v_fs v1) (length old) (Suc 0)" using assms(6) room_for_entry_twin[OF i(1) v1(4)] by simp
  obtain k bs ino' fs' where c: "inode_create n ino (e_junk e) (e_now e) (getDiskInodePos p (v_fs v1)) (v_fs v1) =
      (kSuccess, ino', inode_of (v_fs v1) k, fs')" "fs_inv fs'" "k \<notin> dom (contents (v_fs v1))"
    "contents fs' = (contents (v_fs v1))(p \<mapsto> (kDirectory, old @ mem_bytes (DirEntry n k) 256), k \<mapsto> (kFile, bs))"
    "entries (old @ mem_bytes (DirEntry n k) 256) = entries old @ [(n, k)]"
    "entries bs = (if kFile = kDirectory then [(dot, k), (dotdot, p)] else [])" "256 dvd length bs" "fs' = (v_fs v1)\<lparr>device := device fs'\<rparr>"
    using inode_create_ok[OF t(1) p1 dv nm ino rm, of "e_junk e" "e_now e"] by blast
  have bs: "bs = []" using c(6,7) by (auto simp: entries_def kFile_def kDirectory_def)
  obtain fd m where o: "fd_open (inode_of (v_fs v1) k) (v_fd v) = (fd, m)" by fastforce
  note fdr = assms(7)[unfolded One_nat_def]
  have get: "fd_get fd m = Some (inode_of (v_fs v1) k)" using fdm.get_opn[OF fdr, of fd "inode_of (v_fs v1) k"] o by simp
  have run: "sb_create e (path_of (ps @ [n])) mode (Some x) v = Some (0, Some fd, v1\<lparr>v_fs := fs', v_fd := m\<rparr>)"
    using v1(1,2,5) c(1) o t(3) unfolding sb_create_def sp(1) by (simp add: on_inode_def ino_def Let_def)
  have m: "map_of (entries old @ [(n, k)]) n = Some j" using assms(5) by (simp add: map_add_def)
  have "map_of (dir_of (contents fs') x) y = map_of (dir_of (contents (v_fs v)) x) y" for x y
    using c(3,5) assms(4,5) t(2) by (auto simp: c(4) dir_of_def kFile_def kDirectory_def map_add_def split: option.splits)
  then have lk: "lookup (contents fs') qs x = lookup (contents (v_fs v)) qs x" for qs x by (rule lookup_same_map)
  have nk: "lookup (contents (v_fs v)) qs (root_id (v_fs v)) \<noteq> Some k" for qs using lookup_dom[OF i(6,7)] c(3) t(2) by metis
  show ?thesis
    using run c(2-5) bs t(2,5) get fs_device_eq(1,3)[OF c(8)] m lk nk
    by (intro exI[of _ k] exI[of _ "old @ mem_bytes (DirEntry n k) 256"] exI[of _ fd] exI[of _ "v1\<lparr>v_fs := fs', v_fd := m\<rparr>"]) (simp add: points_def)
qed

text \<open>\<open>create\<close> and \<open>mkdir\<close> below a path that leads to a file, not to a directory, report success and create nothing; the handle that
  \<open>create\<close> returns names whatever the uninitialised \<open>Inode\<close> on its stack held.\<close>

theorem create_in_file_dangles:
  assumes "vfs_inv v" "path_ok (ps @ [n])" "lookup (contents (v_fs v)) ps (root_id (v_fs v)) = Some p"
    and "contents (v_fs v) p = Some (t, bs)" "t \<noteq> kDirectory" "fd_room 1 (v_fd v)"
  shows "\<exists>fd v1 v2. sb_create e (path_of (ps @ [n])) mode (Some x) v = Some (0, Some fd, v1) \<and> fd_get fd (v_fd v1) = Some (e_junk e) \<and>
     contents (v_fs v1) = contents (v_fs v) \<and> sb_mkdir e (path_of (ps @ [n])) mode v = Some (0, v2) \<and> contents (v_fs v2) = contents (v_fs v)"
proof -
  note i = vfs_invD[OF assms(1)] and sp = split_parent[OF assms(2)]
  obtain v1 where v1: "vfs_resolve e (path_of ps @ [slash]) v = Some (inode_of (v_fs v) p, v1)" "Inode_isValid (inode_of (v_fs v) p)"
    "vfs_inv v1" "fs_twin (v_fs v) (v_fs v1)" "v_fd v1 = v_fd v"
    by (rule resolve_parent[OF assms(1-3)]) (use assms(4) in auto)
  note tw = fs_twin_kept[OF i(1) v1(4)]
  have p1: "contents (v_fs v1) p = Some (t, bs)" using assms(4) tw(2) by simp
  obtain ino d where d: "read_inode (getDiskInodePos p (v_fs v1)) zero_inode (device (v_fs v1)) = (kSuccess, ino, d)" "ino = inode_at (v_fs v1) p"
    "di_type ino = t" "unat (di_size ino) = length bs" "vfs_inv (v1\<lparr>v_fs := (v_fs v1)\<lparr>device := d\<rparr>\<rparr>)"
    "contents ((v_fs v1)\<lparr>device := d\<rparr>) = contents (v_fs v1)"
    by (rule read_disk_inode[OF v1(3) p1])
  have cr: "inode_create n new junk now (getDiskInodePos p (v_fs v)) (v_fs v1) = (kFail, new, junk, (v_fs v1)\<lparr>device := d\<rparr>)" for new junk now
    using d(1,3) assms(5) tw(3) by (simp add: inode_create_def)
  obtain fd m where o: "fd_open (e_junk e) (v_fd v) = (fd, m)" by fastforce
  have get: "fd_get fd m = Some (e_junk e)" using fdm.get_opn[OF assms(6)[unfolded One_nat_def], of fd "e_junk e"] o by simp
  have "sb_create e (path_of (ps @ [n])) mode (Some x) v = Some (0, Some fd, v1\<lparr>v_fs := (v_fs v1)\<lparr>device := d\<rparr>, v_fd := m\<rparr>)"
    "sb_mkdir e (path_of (ps @ [n])) mode v = Some (0, v1\<lparr>v_fs := (v_fs v1)\<lparr>device := d\<rparr>\<rparr>)"
    using v1(1,2,5) cr o unfolding sb_create_def sb_mkdir_def sp(1) by (simp_all add: on_inode_def Let_def)
  then show ?thesis using get d(6) tw(2) by auto
qed

section \<open>Renaming onto a name that exists\<close>

text \<open>A file that loses its only entry has none left.\<close>

lemma no_name_left:
  assumes t: "name_tree C r" and e: "edge C d m j" "C j = Some (t, c)" "t \<noteq> kDirectory"
    and D: "\<And>x y. map_of (dir_of C2 x) y = Some j \<Longrightarrow> (x, y) \<noteq> (d, m) \<and> map_of (dir_of C x) y = Some j"
  shows "map_of (dir_of C2 x) y \<noteq> Some j"
proof
  assume "map_of (dir_of C2 x) y = Some j"
  note xy = D[OF this]
  have j: "dir_of C j = []" using e(2,3) by (simp add: dir_of_def)
  have "y = dot \<or> y = dotdot"
  proof (rule ccontr)
    assume "\<not> (y = dot \<or> y = dotdot)"
    then have "edge C x y j" using xy by (simp add: edge_def plain_def)
    from name_treeD(4,5)[OF t this e(1)] xy show False by simp
  qed
  then show False using dots_okD[OF name_treeD(6)[OF t], of x j] xy j by (auto simp: edge_def)
qed

text \<open>\<open>rename\<close> of a file onto a file that exists writes the new entry over the old one and forgets the file that was there: its
  inode stays allocated with all its bytes, and no entry of any directory leads to it any more.\<close>

theorem rename_replace_leaks:
  assumes "vfs_inv v" "path_ok (ps @ [n])" "path_ok (ds @ [m])" "flags AND RENAME_EXCHANGE = 0" "flags AND RENAME_NOREPLACE = 0"
    and "lookup (contents (v_fs v)) ps (root_id (v_fs v)) = Some p" "contents (v_fs v) p = Some (kDirectory, bs)" "dir_ok bs"
    and "lookup (contents (v_fs v)) ds (root_id (v_fs v)) = Some d" "contents (v_fs v) d = Some (kDirectory, old)" "dir_ok old"
    and "map_of (entries bs) n = Some k" "contents (v_fs v) k = Some (s, c)" "s \<noteq> kDirectory"
    and "map_of (entries old) m = Some j" "contents (v_fs v) j = Some (t, c')" "t \<noteq> kDirectory" "k \<noteq> j"
  shows "\<exists>v'. sb_rename e (path_of (ps @ [n])) (path_of (ds @ [m])) flags v = Some (0, v') \<and> vfs_inv v' \<and>
     map_of (dir_of (contents (v_fs v')) d) m = Some k \<and> contents (v_fs v') j = Some (t, c') \<and>
     (\<forall>x y. map_of (dir_of (contents (v_fs v')) x) y \<noteq> Some j)"
proof -
  note i = vfs_invD[OF assms(1)]
  have "new_name_ok (v_fs v) (flags AND RENAME_NOREPLACE = 0) m k old" using assms(5,11,15-18) by (auto simp: new_name_ok_def)
  from sb_rename_ok[OF assms(1-4,6-10,12,13) disjI1[OF assms(14)] this, of e]
  obtain v' where r: "sb_rename e (path_of (ps @ [n])) (path_of (ds @ [m])) flags v = Some (0, v')" "vfs_inv v'"
    "\<forall>x y. map_of (dir_of (contents (v_fs v')) x) y =
       (if x = d \<and> y = m then Some k else if x = p \<and> y = n then None else map_of (dir_of (contents (v_fs v)) x) y)"
    "\<forall>j. j \<noteq> p \<longrightarrow> j \<noteq> d \<longrightarrow> contents (v_fs v') j = contents (v_fs v) j"
    by blast
  have "comp_ok m" using assms(3) by (simp add: path_ok_def)
  then have ed: "edge (contents (v_fs v)) d m j" using assms(10,15) by (simp add: edge_def dir_of_def comp_ok_def)
  have "j \<noteq> p" "j \<noteq> d" using assms(7,10,16,17) by auto
  then have "contents (v_fs v') j = Some (t, c')" using r(4) assms(16) by simp
  moreover have "map_of (dir_of (contents (v_fs v')) x) y \<noteq> Some j" for x y
    by (rule no_name_left[OF i(3) ed assms(16,17)]) (use r(3) assms(18) in \<open>auto split: if_splits\<close>)
  ultimately show ?thesis using r(1-3) by auto
qed

lemma drop_both:
  assumes "path_ok (ps @ [n])" "path_ok (ds @ [m])" "vfs_inv v"
  obtains pr where "vfs_removePrefix (path_of (ps @ [n])) (v\<lparr>v_fs := fs\<rparr>) \<bind> (\<lambda>v7. vfs_removePrefix (path_of (ds @ [m])) v7 \<bind> (\<lambda>v8. Some (0 :: int, v8))) =
     Some (0, v\<lparr>v_fs := fs, v_path := pr\<rparr>)"
proof -
  obtain pr1 where r1: "vfs_removePrefix (path_of (ps @ [n])) (v\<lparr>v_fs := fs\<rparr>) = Some (v\<lparr>v_fs := fs, v_path := pr1\<rparr>)" "pr_inv pr1"
    by (rule vfs_removePrefix_ok[OF assms(1), of "v\<lparr>v_fs := fs\<rparr>"]) (use vfs_invD(9)[OF assms(3)] in simp_all)
  obtain pr2 where "vfs_removePrefix (path_of (ds @ [m])) (v\<lparr>v_fs := fs, v_path := pr1\<rparr>) = Some (v\<lparr>v_fs := fs, v_path := pr2\<rparr>)"
    by (rule vfs_removePrefix_ok[OF assms(2), of "v\<lparr>v_fs := fs, v_path := pr1\<rparr>"]) (use r1(2) in simp_all)
  then show ?thesis using that[of pr2] r1(1) by (simp del: path_of_snoc)
qed

text \<open>C20: \<open>rename\<close> with \<open>RENAME_NOREPLACE\<close> onto a name that exists takes the old name away, is refused the new one, and reports success: the
  file that was to be renamed stays on the disk and no entry of any directory leads to it any more.\<close>

theorem rename_noreplace_loses:
  assumes "vfs_inv v" "path_ok (ps @ [n])" "path_ok (ds @ [m])" "flags AND RENAME_EXCHANGE = 0" "flags AND RENAME_NOREPLACE \<noteq> 0"
    and "lookup (contents (v_fs v)) ps (root_id (v_fs v)) = Some p" "contents (v_fs v) p = Some (kDirectory, bs)" "dir_ok bs"
    and "lookup (contents (v_fs v)) ds (root_id (v_fs v)) = Some d" "contents (v_fs v) d = Some (kDirectory, old)" "dir_ok old"
    and "map_of (entries bs) n = Some k" "contents (v_fs v) k = Some (t, c)" "t \<noteq> kDirectory" "map_of (entries old) m = Some j" "k \<noteq> j"
  shows "\<exists>v'. sb_rename e (path_of (ps @ [n])) (path_of (ds @ [m])) flags v = Some (0, v') \<and> fs_inv (v_fs v') \<and>
     map_of (dir_of (contents (v_fs v')) d) m = Some j \<and> contents (v_fs v') k = Some (t, c) \<and>
     (\<forall>x y. map_of (dir_of (contents (v_fs v')) x) y \<noteq> Some k)"
proof -
  note i = vfs_invD[OF assms(1)]
  let ?C = "contents (v_fs v)"
  have cn: "comp_ok n" "name_ok n" "name_ok m" using assms(2,3) by (auto simp: path_ok_def comp_ok_def)
  have dm: "p \<in> dom ?C" "d \<in> dom ?C" using assms(7,10) by auto
  obtain v2 where v2: "vfs_inv v2" "fs_twin (v_fs v) (v_fs v2)" "v_fd v2 = v_fd v"
    "sb_rename e (path_of (ps @ [n])) (path_of (ds @ [m])) flags v =
       rename_tail e (inode_of (v_fs v2) p) n (inode_of (v_fs v2) d) m (path_of (ps @ [n])) (path_of (ds @ [m])) flags v2"
    by (rule rename_resolved[OF assms(1-3,6) dm(1) assms(9) dm(2)])
  note t = fs_twin_kept[OF i(1) v2(2)] and i2 = vfs_invD[OF v2(1)]
  note h2 = assms(7,10)[folded t(2)]
  obtain fs3 where u: "inode_unlink (e_dirjunk e) n (e_junk e) (e_now e) (getDiskInodePos p (v_fs v2)) (v_fs v2) = (kSuccess, inode_of (v_fs v2) k, fs3)"
    "named (v_fs v2) p n None fs3"
    by (rule unlink_step[OF i2(1,6) h2(1) assms(8,12) cn(2)])
  note N = namedD[OF u(2)]
  obtain old1 where o: "contents fs3 d = Some (kDirectory, old1)" "map_of (entries old1) m = (if d = p \<and> m = n then None else map_of (entries old) m)"
    "length old1 \<le> length old"
    by (rule named_dir[OF u(2) h2(2), of m]) (auto split: if_splits)
  have mj: "map_of (entries old1) m = Some j" using o(2) assms(7,10,12,15,16) by auto
  then obtain r where r: "first_entry old1 m 0 = Some r" by (auto simp: map_of_entries)
  have ok: "dir_ok old1" using dirs_okD(1)[OF N(3) o(1)] o(3) assms(11) by (simp add: dir_ok_def)
  obtain d' where l: "inode_link (e_dirjunk e) m (inode_of (v_fs v2) k) False (e_now e) (getDiskInodePos d fs3) fs3 = Some (kFail, fs3\<lparr>device := d'\<rparr>)"
    "fs_inv (fs3\<lparr>device := d'\<rparr>)" "contents (fs3\<lparr>device := d'\<rparr>) = contents fs3"
    by (rule inode_link_refused[OF N(1) o(1) ok cn(3) r])
  obtain pr where pr: "vfs_removePrefix (path_of (ps @ [n])) (v2\<lparr>v_fs := fs3\<lparr>device := d'\<rparr>\<rparr>) \<bind> (\<lambda>v7. vfs_removePrefix (path_of (ds @ [m])) v7 \<bind> (\<lambda>v8. Some (0 :: int, v8))) =
     Some (0, v2\<lparr>v_fs := fs3\<lparr>device := d'\<rparr>, v_path := pr\<rparr>)"
    by (rule drop_both[OF assms(2,3) v2(1)])
  have run: "sb_rename e (path_of (ps @ [n])) (path_of (ds @ [m])) flags v = Some (0, v2\<lparr>v_fs := fs3\<lparr>device := d'\<rparr>, v_path := pr\<rparr>)"
    unfolding v2(4) using u(1) l(1)[unfolded named_geometry(2)[OF u(2)]] pr assms(4,5)
    by (simp add: rename_tail_def on_inode_def link_in_def kSuccess_def kFail_def del: path_of_snoc)
  have ed: "edge ?C p n k" using cn(1) assms(7,12) by (simp add: edge_def dir_of_def comp_ok_def)
  have "map_of (dir_of (contents fs3) x) y \<noteq> Some k" for x y
    by (rule no_name_left[OF i(3) ed assms(13,14)]) (use N(6) t(2) in \<open>auto split: if_splits\<close>)
  moreover have "k \<noteq> p" using assms(7,13,14) by auto
  then have "contents fs3 k = Some (t, c)" using N(5) assms(13) t(2) by simp
  ultimately show ?thesis
    using run l(2,3) o(1) mj by (intro exI[of _ "v2\<lparr>v_fs := fs3\<lparr>device := d'\<rparr>, v_path := pr\<rparr>"]) (auto simp: dir_of_def)
qed

section \<open>Moving a directory to another one\<close>

text \<open>\<open>rename\<close> of a directory into another directory succeeds and leaves the entry \<open>".."\<close> of the moved directory as it was, so it still leads to the old
  parent.\<close>

theorem rename_keeps_dotdot:
  assumes "vfs_inv v" "path_ok (ps @ [n])" "path_ok (ds @ [m])" "flags AND RENAME_EXCHANGE = 0"
    and "lookup (contents (v_fs v)) ps (root_id (v_fs v)) = Some p" "contents (v_fs v) p = Some (kDirectory, bs)" "dir_ok bs"
    and "lookup (contents (v_fs v)) ds (root_id (v_fs v)) = Some d" "contents (v_fs v) d = Some (kDirectory, old)" "d \<noteq> p" "d \<noteq> k"
    and "map_of (entries bs) n = Some k" "contents (v_fs v) k = Some (kDirectory, kbs)" "map_of (entries kbs) dotdot = Some p"
    and "new_name_ok (v_fs v) (flags AND RENAME_NOREPLACE = 0) m k old"
  shows "\<exists>v'. sb_rename e (path_of (ps @ [n])) (path_of (ds @ [m])) flags v = Some (0, v') \<and> fs_inv (v_fs v') \<and>
     map_of (dir_of (contents (v_fs v')) d) m = Some k \<and> map_of (dir_of (contents (v_fs v')) p) n = None \<and>
     contents (v_fs v') k = Some (kDirectory, kbs) \<and> map_of (entries kbs) dotdot = Some p"
proof -
  note i = vfs_invD[OF assms(1)]
  let ?C = "contents (v_fs v)"
  have cn: "comp_ok n" "comp_ok m" "\<forall>a \<in> set ps. plain a" using assms(2,3) by (auto simp: path_ok_def comp_ok_def)
  have ed: "edge ?C p n k" using cn(1) assms(6,12) by (simp add: edge_def dir_of_def comp_ok_def)
  note kp = edge_not_self[OF i(3) assms(5) cn(3) ed]
  have dm: "p \<in> dom ?C" "d \<in> dom ?C" using assms(6,9) by auto
  obtain v2 where v2: "vfs_inv v2" "fs_twin (v_fs v) (v_fs v2)" "v_fd v2 = v_fd v"
    "sb_rename e (path_of (ps @ [n])) (path_of (ds @ [m])) flags v =
       rename_tail e (inode_of (v_fs v2) p) n (inode_of (v_fs v2) d) m (path_of (ps @ [n])) (path_of (ds @ [m])) flags v2"
    by (rule rename_resolved[OF assms(1-3,5) dm(1) assms(8) dm(2)])
  note t = fs_twin_kept[OF i(1) v2(2)]
  note h2 = assms(6,9)[folded t(2)] and nn = new_name_twin[OF i(1) v2(2) assms(15)]
  obtain fs3 fs6 where u: "inode_unlink (e_dirjunk e) n (e_junk e) (e_now e) (getDiskInodePos p (v_fs v2)) (v_fs v2) = (kSuccess, inode_of (v_fs v2) k, fs3)"
    "inode_link (e_dirjunk e) m (inode_of (v_fs v2) k) (flags AND RENAME_NOREPLACE = 0) (e_now e) (getDiskInodePos d (v_fs v2)) fs3 = Some (kSuccess, fs6)"
    "fs_inv fs6" "rewired (contents (v_fs v2)) (root_id (v_fs v2)) (moving p n k d m) (contents fs6)"
    "\<forall>j. j \<noteq> p \<longrightarrow> j \<noteq> d \<longrightarrow> contents fs6 j = contents (v_fs v2) j"
    by (rule relink_ok[OF v2(1) h2(1) assms(7,12) cn(1) h2(2) nn cn(2) assms(11)[symmetric]])
  obtain pr where pr: "vfs_removePrefix (path_of (ps @ [n])) (v2\<lparr>v_fs := fs6\<rparr>) \<bind> (\<lambda>v7. vfs_removePrefix (path_of (ds @ [m])) v7 \<bind> (\<lambda>v8. Some (0 :: int, v8))) =
     Some (0, v2\<lparr>v_fs := fs6, v_path := pr\<rparr>)"
    by (rule drop_both[OF assms(2,3) v2(1)])
  have "sb_rename e (path_of (ps @ [n])) (path_of (ds @ [m])) flags v = Some (0, v2\<lparr>v_fs := fs6, v_path := pr\<rparr>)"
    unfolding v2(4) using u(1,2) pr assms(4) by (simp add: rename_tail_def on_inode_def link_in_def kSuccess_def kFail_def del: path_of_snoc)
  moreover have "contents fs6 k = Some (kDirectory, kbs)" using u(5) kp assms(11,13) t(2) by simp
  ultimately show ?thesis
    using u(3) assms(10,14) rewiredD(5)[OF u(4)] by (intro exI[of _ "v2\<lparr>v_fs := fs6, v_path := pr\<rparr>"]) (simp add: moving_def)
qed

section \<open>The calls on one and on two files\<close>

theorem unlink_leaves_dangling_handle_witness:
  "\<exists>v fd k inode v'. contents (v_fs v) k = Some (kFile, []) \<and> fd_get fd (v_fd v) = Some inode \<and> sb_unlink new_env [slash, 0x61] v = Some (0, v') \<and>
     fd_get fd (v_fd v') = Some inode \<and> contents (v_fs v') k = None"
proof -
  obtain k ne fd v where o: "vfs_inv v" "points v fd k" "contents (v_fs v) = [2 \<mapsto> (kDirectory, ne), k \<mapsto> (kFile, [])]" "k \<noteq> 2"
    "entries ne = [(dot, 2), (dotdot, 2), ([0x61], k)]" "root_id (v_fs v) = 2" "fd_room (Suc 0) (v_fd v)"
    "lookup (contents (v_fs v)) [] (root_id (v_fs v)) = Some 2" "contents (v_fs v) 2 = Some (kDirectory, ne)" "contents (v_fs v) k = Some (kFile, [])"
    "dir_ok ne" "length ne = 768" "map_of (entries ne) [0x61] = Some k" "room_for_entry (v_fs v) (length ne) (Suc 2)"
    by (rule open_file_room)
  have g: "fd_get fd (v_fd v) = Some (inode_of (v_fs v) k)" "kFile \<noteq> kDirectory" using o(2) by (simp_all add: points_def kFile_def kDirectory_def)
  from unlink_leaves_dangling_handle[OF o(1) path_a(1) o(8,9,11,13,10) g(2,1) refl, of new_env]
  show ?thesis unfolding path_a(2) using o(10) g(1) by blast
qed

theorem create_twice_hides_file_witness:
  "\<exists>v j k ne fd v'. contents (v_fs v) j = Some (kFile, []) \<and> sb_create new_env [slash, 0x61] 0 (Some 0) v = Some (0, Some fd, v') \<and>
     entries ne = [(dot, 2), (dotdot, 2), ([0x61], j), ([0x61], k)] \<and> contents (v_fs v') 2 = Some (kDirectory, ne) \<and> points v' fd k \<and> j \<noteq> k \<and>
     (\<forall>qs. lookup (contents (v_fs v')) qs (root_id (v_fs v')) \<noteq> Some k)"
proof -
  obtain k ne fd v where o: "vfs_inv v" "points v fd k" "contents (v_fs v) = [2 \<mapsto> (kDirectory, ne), k \<mapsto> (kFile, [])]" "k \<noteq> 2"
    "entries ne = [(dot, 2), (dotdot, 2), ([0x61], k)]" "root_id (v_fs v) = 2" "fd_room (Suc 0) (v_fd v)"
    "lookup (contents (v_fs v)) [] (root_id (v_fs v)) = Some 2" "contents (v_fs v) 2 = Some (kDirectory, ne)" "contents (v_fs v) k = Some (kFile, [])"
    "dir_ok ne" "length ne = 768" "map_of (entries ne) [0x61] = Some k" "room_for_entry (v_fs v) (length ne) (Suc 2)"
    by (rule open_file_room)
  have r: "room_for_entry (v_fs v) (length ne) 1" "fd_room 1 (v_fd v)" using o(7,14) by (simp_all add: room_for_entry_def room_def)
  from create_twice_hides_file[OF o(1) path_a(1) o(8,9,13) r, of new_env 0 0]
  obtain i ne' fd' v' where c: "sb_create new_env [slash, 0x61] 0 (Some 0) v = Some (0, Some fd', v')" "i \<notin> dom (contents (v_fs v))"
    "contents (v_fs v') = (contents (v_fs v))(2 \<mapsto> (kDirectory, ne'), i \<mapsto> (kFile, []))" "entries ne' = entries ne @ [([0x61], i)]" "points v' fd' i"
    "\<forall>qs. lookup (contents (v_fs v')) qs (root_id (v_fs v')) \<noteq> Some i"
    unfolding path_a(2) by blast
  have "i \<noteq> 2" "k \<noteq> i" using c(2) o(3) by auto
  then have "contents (v_fs v') 2 = Some (kDirectory, ne')" "k \<noteq> i" "entries ne' = [(dot, 2), (dotdot, 2), ([0x61], k), ([0x61], i)]"
    using c(3,4) o(5) by simp_all
  then show ?thesis using o(10) c(1,5,6) by blast
qed

theorem create_in_file_dangles_witness:
  "\<exists>v fd v1. vfs_inv v \<and> sb_create new_env [slash, 0x61, slash, 0x62] 0 (Some 0) v = Some (0, Some fd, v1) \<and> contents (v_fs v1) = contents (v_fs v)"
proof -
  obtain k ne fd v where o: "vfs_inv v" "points v fd k" "contents (v_fs v) = [2 \<mapsto> (kDirectory, ne), k \<mapsto> (kFile, [])]" "k \<noteq> 2"
    "entries ne = [(dot, 2), (dotdot, 2), ([0x61], k)]" "root_id (v_fs v) = 2" "fd_room (Suc 0) (v_fd v)"
    "lookup (contents (v_fs v)) [] (root_id (v_fs v)) = Some 2" "contents (v_fs v) 2 = Some (kDirectory, ne)" "contents (v_fs v) k = Some (kFile, [])"
    "dir_ok ne" "length ne = 768" "map_of (entries ne) [0x61] = Some k" "room_for_entry (v_fs v) (length ne) (Suc 2)"
    by (rule open_file_room)
  have b: "path_ok ([[0x61]] @ [[0x62]])" "path_of ([[0x61]] @ [[0x62]]) = [slash, 0x61, slash, 0x62]"
    by (simp_all add: path_ok_def path_of_def comp_ok_def name_ok_def kMaxDirNameLength_def slash_def plain_def dot_def dotdot_def)
  have l: "lookup (contents (v_fs v)) [[0x61]] (root_id (v_fs v)) = Some k" "kFile \<noteq> kDirectory" "fd_room 1 (v_fd v)"
    using o(6,7,9,13) by (simp_all add: dir_of_def kFile_def kDirectory_def)
  from create_in_file_dangles[OF o(1) b(1) l(1) o(10) l(2,3), of new_env 0 0] show ?thesis unfolding b(2) using o(1) by blast
qed

theorem rename_replace_leaks_witness:
  "\<exists>v j k v'. contents (v_fs v) j = Some (kFile, []) \<and> contents (v_fs v) k = Some (kFile, []) \<and>
     sb_rename new_env [slash, 0x61] [slash, 0x62] 0 v = Some (0, v') \<and> contents (v_fs v') j = Some (kFile, []) \<and>
     (\<forall>x y. map_of (dir_of (contents (v_fs v')) x) y \<noteq> Some j)"
proof -
  obtain j k ne v where o: "vfs_inv v" "contents (v_fs v) = [2 \<mapsto> (kDirectory, ne), k \<mapsto> (kFile, []), j \<mapsto> (kFile, [])]" "j \<noteq> k" "j \<noteq> 2" "k \<noteq> 2"
    "root_id (v_fs v) = 2" "dir_ok ne" "map_of (entries ne) [0x61] = Some k" "map_of (entries ne) [0x62] = Some j"
    by (rule two_files)
  have c: "contents (v_fs v) 2 = Some (kDirectory, ne)" "contents (v_fs v) j = Some (kFile, [])" "contents (v_fs v) k = Some (kFile, [])"
    "lookup (contents (v_fs v)) [] (root_id (v_fs v)) = Some 2" "kFile \<noteq> kDirectory" "k \<noteq> j"
    using o(2-6) by (auto simp: kFile_def kDirectory_def)
  have f: "(0 :: u32) AND RENAME_EXCHANGE = 0" "(0 :: u32) AND RENAME_NOREPLACE = 0" by simp_all
  from rename_replace_leaks[OF o(1) path_a(1) path_b(1) f c(4,1) o(7) c(4,1) o(7,8) c(3,5) o(9) c(2,5,6), of new_env]
  show ?thesis unfolding path_a(2) path_b(2) using c(2,3) by blast
qed

theorem rename_noreplace_loses_witness:
  "\<exists>v k v'. contents (v_fs v) k = Some (kFile, []) \<and> sb_rename new_env [slash, 0x61] [slash, 0x62] RENAME_NOREPLACE v = Some (0, v') \<and>
     contents (v_fs v') k = Some (kFile, []) \<and> (\<forall>x y. map_of (dir_of (contents (v_fs v')) x) y \<noteq> Some k)"
proof -
  obtain j k ne v where o: "vfs_inv v" "contents (v_fs v) = [2 \<mapsto> (kDirectory, ne), k \<mapsto> (kFile, []), j \<mapsto> (kFile, [])]" "j \<noteq> k" "j \<noteq> 2" "k \<noteq> 2"
    "root_id (v_fs v) = 2" "dir_ok ne" "map_of (entries ne) [0x61] = Some k" "map_of (entries ne) [0x62] = Some j"
    by (rule two_files)
  have c: "contents (v_fs v) 2 = Some (kDirectory, ne)" "contents (v_fs v) k = Some (kFile, [])"
    "lookup (contents (v_fs v)) [] (root_id (v_fs v)) = Some 2" "kFile \<noteq> kDirectory" "k \<noteq> j"
    using o(2-6) by (auto simp: kFile_def kDirectory_def)
  have f: "RENAME_NOREPLACE AND RENAME_EXCHANGE = 0" "RENAME_NOREPLACE AND RENAME_NOREPLACE \<noteq> 0"
    by (simp_all add: RENAME_NOREPLACE_def RENAME_EXCHANGE_def)
  from rename_noreplace_loses[OF o(1) path_a(1) path_b(1) f c(3,1) o(7) c(3,1) o(7,8) c(2,4) o(9) c(5), of new_env]
  show ?thesis unfolding path_a(2) path_b(2) using c(2) by blast
qed

text \<open>Two directories, \<open>/a\<close> and \<open>/b\<close>.\<close>

lemma two_dirs:
  obtains k d ne kb db v where "vfs_inv v" "contents (v_fs v) = [2 \<mapsto> (kDirectory, ne), k \<mapsto> (kDirectory, kb), d \<mapsto> (kDirectory, db)]"
    "d \<noteq> k" "d \<noteq> 2" "k \<noteq> 2" "root_id (v_fs v) = 2" "dir_ok ne" "map_of (entries ne) [0x61] = Some k" "map_of (entries ne) [0x62] = Some d"
    "entries kb = [(dot, k), (dotdot, 2)]" "entries db = [(dot, d), (dotdot, 2)]" "room (data_bitmap (v_fs v)) (dev_view (device (v_fs v))) 1"
proof -
  obtain bs where b: "can_create new_vfs [] [0x61] 2 bs 100" "entries bs = [(dot, 2), (dotdot, 2)]" "contents new_fs = [2 \<mapsto> (kDirectory, bs)]"
    by (rule new_can_create[of 100]) auto
  obtain k ne kb v where c: "vfs_inv v" "k \<notin> dom (contents (v_fs new_vfs))"
    "contents (v_fs v) = (contents (v_fs new_vfs))(2 \<mapsto> (kDirectory, ne), k \<mapsto> (kDirectory, kb))"
    "entries ne = entries bs @ [([0x61], k)]" "entries kb = [(dot, k), (dotdot, 2)]"
    "room (data_bitmap (v_fs v)) (dev_view (device (v_fs v))) 100" "v_fs v = (v_fs new_vfs)\<lparr>device := device (v_fs v)\<rparr>"
    by (rule sb_mkdir_ok[OF new_vfs_ok(1) b(1), of new_env 0])
  have k: "k \<noteq> 2" using c(2) b(3) by (auto simp: new_vfs_def)
  have ct: "contents (v_fs v) = [2 \<mapsto> (kDirectory, ne), k \<mapsto> (kDirectory, kb)]" using c(3) b(3) by (simp add: new_vfs_def)
  have ok: "dir_ok ne" by (rule new_dir_ok[OF c(1), of 2]) (use ct k c(4) b(2) in simp_all)
  have "length (entries ne) = 3" by (simp add: c(4) b(2))
  then have l: "length ne = 768" using ok by (auto simp: dir_ok_def entries_def elim!: dvdE)
  have r: "root_id (v_fs v) = 2" "ibm_blocks (v_fs v) = 1" using new_vfs_ok(2) new_facts(3) by (subst c(7), simp add: new_vfs_def)+
  have "live (v_fs v) = dom (contents (v_fs v))" by (auto simp: contents_def files_def split: if_splits)
  then have "card (live (v_fs v)) = 2" using ct k by simp
  then have "room_for_entry (v_fs v) (length ne) (Suc 1)" using c(6) r(2) l by (simp add: room_for_entry_def room_def tree_size_def)
  then have cc: "can_create v [] [0x62] 2 ne 1" using path_b(1) ct k c(4) b(2) r(1) l by (simp add: can_create_def dot_def dotdot_def)
  obtain d ne' db v' where w: "vfs_inv v'" "d \<notin> dom (contents (v_fs v))"
    "contents (v_fs v') = (contents (v_fs v))(2 \<mapsto> (kDirectory, ne'), d \<mapsto> (kDirectory, db))"
    "entries ne' = entries ne @ [([0x62], d)]" "entries db = [(dot, d), (dotdot, 2)]"
    "room (data_bitmap (v_fs v')) (dev_view (device (v_fs v'))) 1" "v_fs v' = (v_fs v)\<lparr>device := device (v_fs v')\<rparr>"
    by (rule sb_mkdir_ok[OF c(1) cc, of new_env 0])
  have d: "d \<noteq> k" "d \<noteq> 2" using w(2) ct by auto
  have ct': "contents (v_fs v') = [2 \<mapsto> (kDirectory, ne'), k \<mapsto> (kDirectory, kb), d \<mapsto> (kDirectory, db)]" using w(3) ct k by (simp add: fun_upd_twist)
  then have "256 dvd length ne'" using dirs_okD(1)[OF vfs_invD(6)[OF w(1)], of 2 ne'] k d by simp
  then have "length ne' = 1024" using arg_cong[OF w(4), of length] l by (auto simp: entries_def elim!: dvdE)
  then have ok': "dir_ok ne'" by (simp add: dir_ok_def)
  have "root_id (v_fs v') = 2" using fs_device_eq(3)[OF w(7)] r(1) by simp
  then show ?thesis by (rule that[OF w(1) ct' d k _ ok' _ _ c(5) w(5,6)]) (simp_all add: w(4) c(4) b(2) dot_def dotdot_def)
qed

theorem rename_keeps_dotdot_witness:
  "\<exists>v k d kbs v'. contents (v_fs v) k = Some (kDirectory, kbs) \<and> sb_rename new_env [slash, 0x61] [slash, 0x62, slash, 0x63] 0 v = Some (0, v') \<and>
     map_of (dir_of (contents (v_fs v')) d) [0x63] = Some k \<and> d \<noteq> 2 \<and> contents (v_fs v') k = Some (kDirectory, kbs) \<and> map_of (entries kbs) dotdot = Some 2"
proof -
  obtain k d ne kb db v where o: "vfs_inv v" "contents (v_fs v) = [2 \<mapsto> (kDirectory, ne), k \<mapsto> (kDirectory, kb), d \<mapsto> (kDirectory, db)]"
    "d \<noteq> k" "d \<noteq> 2" "k \<noteq> 2" "root_id (v_fs v) = 2" "dir_ok ne" "map_of (entries ne) [0x61] = Some k" "map_of (entries ne) [0x62] = Some d"
    "entries kb = [(dot, k), (dotdot, 2)]" "entries db = [(dot, d), (dotdot, 2)]" "room (data_bitmap (v_fs v)) (dev_view (device (v_fs v))) 1"
    by (rule two_dirs)
  have c: "contents (v_fs v) 2 = Some (kDirectory, ne)" "contents (v_fs v) k = Some (kDirectory, kb)" "contents (v_fs v) d = Some (kDirectory, db)"
    "lookup (contents (v_fs v)) [] (root_id (v_fs v)) = Some 2" "lookup (contents (v_fs v)) [[0x62]] (root_id (v_fs v)) = Some d"
    using o(2-6,9) by (simp_all add: dir_of_def)
  have b: "path_ok ([[0x62]] @ [[0x63]])" "path_of ([[0x62]] @ [[0x63]]) = [slash, 0x62, slash, 0x63]"
    by (simp_all add: path_ok_def path_of_def comp_ok_def name_ok_def kMaxDirNameLength_def slash_def plain_def dot_def dotdot_def)
  have dd: "map_of (entries kb) dotdot = Some 2" by (simp add: o(10) dot_def dotdot_def)
  have "256 dvd length db" using dirs_okD(1)[OF vfs_invD(6)[OF o(1)] c(3)] by simp
  moreover have "length (entries db) = 2" by (simp add: o(11))
  ultimately have "length db = 512" by (auto simp: entries_def elim!: dvdE)
  then have nn: "new_name_ok (v_fs v) ((0 :: u32) AND RENAME_NOREPLACE = 0) [0x63] k db" using o(11,12) by (simp add: new_name_ok_def dot_def dotdot_def)
  have f: "(0 :: u32) AND RENAME_EXCHANGE = 0" by simp
  from rename_keeps_dotdot[OF o(1) path_a(1) b(1) f c(4,1) o(7) c(5,3) o(4,3,8) c(2) dd nn, of new_env]
  show ?thesis unfolding path_a(2) b(2) using c(2) o(4) dd by blast
qed

end
