(* ===== verification/Vfs_Exchange.thy ===== *)
theory Vfs_Exchange
  imports Vfs_Rename
begin

text \<open>
  \<open>rename\<close> with \<open>RENAME_EXCHANGE\<close>: both names are taken out of their directories and put back, each for the inode of the other.
\<close>

section \<open>Two names change places\<close>

definition swapping :: "u32 \<Rightarrow> cstring \<Rightarrow> u32 \<Rightarrow> u32 \<Rightarrow> cstring \<Rightarrow> u32 \<Rightarrow> (u32 \<times> cstring \<rightharpoonup> u32 option)" where
  "swapping p n k d m j = [(p, n) \<mapsto> Some j, (d, m) \<mapsto> Some k]"

lemma swapping_tidy:
  assumes "edge C p n k" "edge C d m j" "dir_of C k = [] \<and> dir_of C j = [] \<or> d = p" "(p, n) \<noteq> (d, m)"
  shows "tidy C (swapping p n k d m j)"
  unfolding tidy_def
proof (intro allI impI)
  fix x y i assume e: "edge C x y i" "swapping p n k d m j (x, y) \<noteq> None"
  then have "x = p \<and> y = n \<and> i = k \<or> x = d \<and> y = m \<and> i = j" using assms(1,2) by (auto simp: swapping_def edge_def split: if_splits)
  then show "dir_of C i = [] \<or> (\<exists>y'. swapping p n k d m j (x, y') = Some (Some i))"
  proof
    assume x: "x = p \<and> y = n \<and> i = k"
    then have "d = p \<Longrightarrow> swapping p n k d m j (x, m) = Some (Some i)" by (simp add: swapping_def)
    then show ?thesis using x assms(3) by blast
  next
    assume x: "x = d \<and> y = m \<and> i = j"
    then have "d = p \<Longrightarrow> swapping p n k d m j (x, n) = Some (Some i)" using assms(4) by (auto simp: swapping_def)
    then show ?thesis using x assms(3) by blast
  qed
qed

lemma swapping_rewired:
  assumes "name_tree C r" "edge C p n k" "edge C d m j" "k \<noteq> j" "(p, n) \<noteq> (d, m)" "dirs_ok C2" "\<exists>b. C2 r = Some (kDirectory, b)"
    and D: "\<forall>x y. map_of (dir_of C2 x) y = (if x = d \<and> y = m then Some k else if x = p \<and> y = n then Some j else map_of (dir_of C x) y)"
  shows "rewired C r (swapping p n k d m j) C2"
  unfolding rewired_def
proof (intro conjI allI impI)
  have pl: "plain n" "plain m" using assms(2,3) by (simp_all add: edge_def)
  show "plain y" if "swapping p n k d m j (x, y) = Some t" for x y t using that pl by (auto simp: swapping_def split: if_splits)
  show "map_of (dir_of C2 x) y = (case swapping p n k d m j (x, y) of None \<Rightarrow> map_of (dir_of C x) y | Some t \<Rightarrow> t)" for x y
    unfolding D[rule_format] by (simp add: swapping_def)
  show "\<exists>p' n'. edge C p' n' x \<and> swapping p n k d m j (p', n') \<noteq> None" if "swapping p n k d m j e = Some (Some x)" for e x
  proof -
    have "x = k \<or> x = j" using that by (auto simp: swapping_def split: if_splits)
    moreover have "swapping p n k d m j (p, n) \<noteq> None" "swapping p n k d m j (d, m) \<noteq> None" by (simp_all add: swapping_def)
    ultimately show ?thesis using assms(2,3) by blast
  qed
  show "e = e'" if "swapping p n k d m j e = Some (Some x)" "swapping p n k d m j e' = Some (Some x)" for e e' x
    using that assms(4) by (auto simp: swapping_def split: if_splits)
qed (fact assms)+

lemma dir_linkable:
  assumes "dirs_ok (contents fs)" "contents fs x = Some (kDirectory, b)" "map_of (entries b) y = None" "length b \<le> 22 * 4096"
    and "room (data_bitmap fs) (dev_view (device fs)) (1 + r)"
  shows "can_link fs replace y b r"
  using dirs_okD(1)[OF assms(1,2)] dirs_okD(2)[OF assms(1), of x] assms(2-5) by (simp add: can_link_def dir_of_def)

text \<open>First both names are taken out; \<open>room\<close> for two more blocks stays.\<close>

lemma swap_out:
  assumes inv: "fs_inv fs" "dirs_ok (contents fs)"
    and p: "contents fs p = Some (kDirectory, bs)" "map_of (entries bs) n = Some k" "name_ok n" "length bs \<le> 22 * 4096"
    and d: "contents fs d = Some (kDirectory, old)" "map_of (entries old) m = Some j" "name_ok m" "length old \<le> 22 * 4096"
    and ne: "(p, n) \<noteq> (d, m)" and rm: "room (data_bitmap fs) (dev_view (device fs)) 2"
  obtains fs3 fs4 bs4 old4 where
    "inode_unlink dirjunk n junk now (getDiskInodePos p fs) fs = (kSuccess, inode_of fs k, fs3)" "named fs p n None fs3" "relinked fs k (- 1) fs3"
    "inode_unlink dirjunk m junk now (getDiskInodePos d fs) fs3 = (kSuccess, inode_of fs j, fs4)" "named fs3 d m None fs4" "relinked fs3 j (- 1) fs4"
    "contents fs4 p = Some (kDirectory, bs4)" "map_of (entries bs4) n = None" "length bs4 \<le> 22 * 4096"
    "contents fs4 d = Some (kDirectory, old4)" "map_of (entries old4) m = None" "length old4 + 256 \<le> 22 * 4096"
    "room (data_bitmap fs4) (dev_view (device fs4)) (1 + 1)"
proof -
  have ok: "dir_ok bs" using dirs_okD(1)[OF inv(2) p(1)] p(4) by (simp add: dir_ok_def)
  obtain fs3 where u: "inode_unlink dirjunk n junk now (getDiskInodePos p fs) fs = (kSuccess, inode_of fs k, fs3)"
    "named fs p n None fs3" "relinked fs k (- 1) fs3"
    "\<forall>m. room (data_bitmap fs) (dev_view (device fs)) m \<longrightarrow> room (data_bitmap fs) (dev_view (device fs3)) m"
    by (rule unlink_step[OF inv p(1) ok p(2,3)])
  note N3 = namedD[OF u(2)] and G3 = named_geometry[OF u(2)]
  obtain old3 where o3: "contents fs3 d = Some (kDirectory, old3)" "map_of (entries old3) m = (if d = p \<and> m = n then None else map_of (entries old) m)"
    "length old3 \<le> length old"
    by (rule named_dir[OF u(2) d(1), of m]) (auto split: if_splits)
  have m3: "map_of (entries old3) m = Some j" using o3(2) ne d(2) by auto
  have ok3: "dir_ok old3" using dirs_okD(1)[OF N3(3) o3(1)] o3(3) d(4) by (auto simp: dir_ok_def)
  obtain fs4 where w: "inode_unlink dirjunk m junk now (getDiskInodePos d fs3) fs3 = (kSuccess, inode_of fs3 j, fs4)"
    "named fs3 d m None fs4" "relinked fs3 j (- 1) fs4"
    "\<forall>m. room (data_bitmap fs3) (dev_view (device fs3)) m \<longrightarrow> room (data_bitmap fs3) (dev_view (device fs4)) m"
    by (rule unlink_step[OF N3(1,3) o3(1) ok3 m3 d(3)])
  obtain bs3 where b3: "contents fs3 p = Some (kDirectory, bs3)" "map_of (entries bs3) n = None" "length bs3 \<le> length bs"
    by (rule named_dir[OF u(2) p(1), of n]) auto
  obtain bs4 where b4: "contents fs4 p = Some (kDirectory, bs4)" "map_of (entries bs4) n = None" "length bs4 \<le> length bs3"
    by (rule named_dir[OF w(2) b3(1), of n]) (use b3(2) in \<open>auto split: if_splits\<close>)
  obtain old4 where o4: "contents fs4 d = Some (kDirectory, old4)" "map_of (entries old4) m = None" "length old4 + 256 \<le> length old3"
    by (rule named_dir[OF w(2) o3(1), of m]) auto
  have "room (data_bitmap fs4) (dev_view (device fs4)) (1 + 1)"
    using rm u(4) w(4) by (simp add: G3 named_geometry(1)[OF w(2)] numeral_2_eq_2)
  then show ?thesis
    using that[OF u(1-3) w(1)[unfolded G3] w(2,3) b4(1,2) _ o4(1,2)] b3(3) b4(3) p(4) o3(3) o4(3) d(4) by simp
qed

text \<open>Then both are put back. Both inodes keep their link counts.\<close>

lemma swap_ok:
  assumes inv: "fs_inv fs" "dirs_ok (contents fs)"
    and p: "contents fs p = Some (kDirectory, bs)" "map_of (entries bs) n = Some k" "comp_ok n" "length bs \<le> 22 * 4096"
    and d: "contents fs d = Some (kDirectory, old)" "map_of (entries old) m = Some j" "comp_ok m" "length old \<le> 22 * 4096"
    and ne: "(p, n) \<noteq> (d, m)" "k \<noteq> d" "j \<noteq> p" and rm: "room (data_bitmap fs) (dev_view (device fs)) 2"
  obtains fs3 fs4 fs5 fs6 where
    "inode_unlink dirjunk n junk now (getDiskInodePos p fs) fs = (kSuccess, inode_of fs k, fs3)"
    "inode_unlink dirjunk m junk now (getDiskInodePos d fs) fs3 = (kSuccess, inode_of fs j, fs4)"
    "inode_link dirjunk n (inode_of fs j) False now (getDiskInodePos p fs) fs4 = Some (kSuccess, fs5)"
    "inode_link dirjunk m (inode_of fs k) replace now (getDiskInodePos d fs) fs5 = Some (kSuccess, fs6)"
    "fs_inv fs6" "fs6 = fs\<lparr>device := device fs6\<rparr>" "attrs fs6 = attrs fs" "dirs_ok (contents fs6)"
    "\<forall>x. x \<noteq> p \<longrightarrow> x \<noteq> d \<longrightarrow> contents fs6 x = contents fs x"
    "\<forall>x y. map_of (dir_of (contents fs6) x) y = (if x = d \<and> y = m then Some k else if x = p \<and> y = n then Some j else map_of (dir_of (contents fs) x) y)"
    "\<forall>x b. contents fs x = Some (kDirectory, b) \<longrightarrow> (\<exists>b. contents fs6 x = Some (kDirectory, b))"
proof -
  have nm: "name_ok n" "name_ok m" "m \<noteq> []" "n \<noteq> []" using p(3) d(3) by (simp_all add: comp_ok_def name_ok_def)
  have kj: "k \<in> dom (contents fs)" "j \<in> dom (contents fs)"
    using dirs_okD(3)[OF inv(2), of p n k] dirs_okD(3)[OF inv(2), of d m j] p(1,2) d(1,2) by (simp_all add: dir_of_def)
  obtain fs3 fs4 bs4 old4 where u: "inode_unlink dirjunk n junk now (getDiskInodePos p fs) fs = (kSuccess, inode_of fs k, fs3)" "named fs p n None fs3" "relinked fs k (- 1) fs3"
    and w: "inode_unlink dirjunk m junk now (getDiskInodePos d fs) fs3 = (kSuccess, inode_of fs j, fs4)" "named fs3 d m None fs4" "relinked fs3 j (- 1) fs4"
    and b4: "contents fs4 p = Some (kDirectory, bs4)" "map_of (entries bs4) n = None" "length bs4 \<le> 22 * 4096"
    and o4: "contents fs4 d = Some (kDirectory, old4)" "map_of (entries old4) m = None" "length old4 + 256 \<le> 22 * 4096"
    and rm4: "room (data_bitmap fs4) (dev_view (device fs4)) (1 + 1)"
    by (rule swap_out[OF inv p(1,2) nm(1) p(4) d(1,2) nm(2) d(4) ne(1) rm])
  note N3 = namedD[OF u(2)] and N4 = namedD[OF w(2)]
  note G4 = named_geometry[OF w(2), unfolded named_geometry[OF u(2)]]
  have j4: "j \<in> dom (contents fs4)" using kj(2) N3(4) N4(4) by simp
  obtain fs5 where l: "inode_link dirjunk n (inode_of fs4 j) False now (getDiskInodePos p fs4) fs4 = Some (kSuccess, fs5)"
    "named fs4 p n (Some j) fs5" "relinked fs4 j 1 fs5" "map_of (entries bs4) n = None \<longrightarrow> room (data_bitmap fs4) (dev_view (device fs5)) 1"
    by (rule link_step[OF N4(1,3) b4(1) dir_linkable[OF N4(3) b4 rm4] nm(1,4) j4 ne(3)])
  note N5 = namedD[OF l(2)] and G5 = named_geometry[OF l(2), unfolded G4]
  obtain old5 where o5: "contents fs5 d = Some (kDirectory, old5)" "map_of (entries old5) m = (if d = p \<and> m = n then Some j else map_of (entries old4) m)"
    "length old5 \<le> length old4 + 256"
    by (rule named_dir[OF l(2) o4(1), of m]) (auto split: if_splits)
  have m5: "map_of (entries old5) m = None" "length old5 \<le> 22 * 4096" using o5(2,3) o4(2,3) ne(1) by auto
  have rm5: "room (data_bitmap fs5) (dev_view (device fs5)) (1 + 0)" using l(4) b4(2) by (simp add: G4 G5)
  have k5: "k \<in> dom (contents fs5)" using kj(1) N3(4) N4(4) N5(4) by simp
  obtain fs6 where z: "inode_link dirjunk m (inode_of fs5 k) replace now (getDiskInodePos d fs5) fs5 = Some (kSuccess, fs6)"
    "named fs5 d m (Some k) fs6" "relinked fs5 k 1 fs6"
    by (rule link_step[OF N5(1,3) o5(1) dir_linkable[OF N5(3) o5(1) m5 rm5] nm(2,3) k5 ne(2)])
  note N6 = namedD[OF z(2)]
  have "attrs fs5 = attrs fs3" by (rule relinked_back[OF w(3) refl l(3)])
  then have at: "attrs fs6 = attrs fs" by (rule relinked_back[OF u(3) _ z(3)])
  have "fs5 = fs\<lparr>device := device fs5\<rparr>" using N5(2) by (subst (asm) N4(2), subst (asm) N3(2)) simp
  then have e6: "fs6 = fs\<lparr>device := device fs6\<rparr>" using N6(2) by (metis sbfs.surjective sbfs.update_convs(2))
  have "\<exists>b'. contents fs6 x = Some (kDirectory, b')" if "contents fs x = Some (kDirectory, b)" for x b
    using that named_dir[OF u(2)] named_dir[OF w(2)] named_dir[OF l(2)] named_dir[OF z(2)] by metis
  then show ?thesis
    using that[OF u(1) w(1) l(1)[unfolded G4] z(1)[unfolded G5] N6(1) e6 at N6(3)] N3(5,6) N4(5,6) N5(5,6) N6(5,6) ne(1) by auto
qed

section \<open>The handler\<close>

text \<open>The two names lead to inodes that are not directories, or lie in one directory.\<close>

lemma sb_exchange_ok:
  assumes "vfs_inv v" "path_ok (ps @ [n])" "path_ok (ds @ [m])" "flags AND RENAME_EXCHANGE \<noteq> 0"
    and "lookup (contents (v_fs v)) ps (root_id (v_fs v)) = Some p" "contents (v_fs v) p = Some (kDirectory, bs)" "length bs \<le> 22 * 4096"
    and "lookup (contents (v_fs v)) ds (root_id (v_fs v)) = Some d" "contents (v_fs v) d = Some (kDirectory, old)" "length old \<le> 22 * 4096"
    and "map_of (entries bs) n = Some k" "map_of (entries old) m = Some j" "(p, n) \<noteq> (d, m)"
    and "contents (v_fs v) k = Some (s, c)" "contents (v_fs v) j = Some (t, c')" "s \<noteq> kDirectory \<and> t \<noteq> kDirectory \<or> d = p"
    and "room (data_bitmap (v_fs v)) (dev_view (device (v_fs v))) 2"
  shows "\<exists>v'. sb_rename e (path_of (ps @ [n])) (path_of (ds @ [m])) flags v = Some (0, v') \<and> vfs_inv v' \<and> v_fd v' = v_fd v \<and>
     lookup (contents (v_fs v')) (ps @ [n]) (root_id (v_fs v')) = Some j \<and> lookup (contents (v_fs v')) (ds @ [m]) (root_id (v_fs v')) = Some k \<and>
     attrs (v_fs v') = attrs (v_fs v) \<and>
     (\<forall>x y. map_of (dir_of (contents (v_fs v')) x) y =
        (if x = d \<and> y = m then Some k else if x = p \<and> y = n then Some j else map_of (dir_of (contents (v_fs v)) x) y)) \<and>
     (\<forall>x. x \<noteq> p \<longrightarrow> x \<noteq> d \<longrightarrow> contents (v_fs v') x = contents (v_fs v) x)"
proof -
  note i = vfs_invD[OF assms(1)]
  let ?C = "contents (v_fs v)" and ?ch = "swapping p n k d m j"
  have cn: "comp_ok n" "comp_ok m" "\<forall>a \<in> set ps. plain a" "\<forall>a \<in> set ds. plain a" using assms(2,3) by (auto simp: path_ok_def comp_ok_def)
  have ed: "edge ?C p n k" "edge ?C d m j" using cn(1,2) assms(6,9,11,12) by (simp_all add: edge_def dir_of_def comp_ok_def)
  have kj: "k \<noteq> j" using name_treeD(4,5)[OF i(3) ed(1), of d m] ed(2) assms(13) by auto
  note self = edge_not_self[OF i(3) assms(5) cn(3) ed(1)] edge_not_self[OF i(3) assms(8) cn(4) ed(2)]
  have kd: "k \<noteq> d" "j \<noteq> p" using self assms(6,9,14-16) by auto
  have fl: "dir_of ?C k = [] \<and> dir_of ?C j = [] \<or> d = p" using assms(14-16) by (auto simp: dir_of_def)
  have dm: "p \<in> dom ?C" "d \<in> dom ?C" using assms(6,9) by auto
  obtain v2 where v2: "vfs_inv v2" "fs_twin (v_fs v) (v_fs v2)" "v_fd v2 = v_fd v"
    "sb_rename e (path_of (ps @ [n])) (path_of (ds @ [m])) flags v =
       rename_tail e (inode_of (v_fs v2) p) n (inode_of (v_fs v2) d) m (path_of (ps @ [n])) (path_of (ds @ [m])) flags v2"
    by (rule rename_resolved[OF assms(1-3,5) dm(1) assms(8) dm(2)])
  note tw = fs_twin_kept[OF i(1) v2(2)] and i2 = vfs_invD[OF v2(1)]
  have rm: "room (data_bitmap (v_fs v2)) (dev_view (device (v_fs v2))) 2"
    using assms(17) unfolding tw(7) by (subst tw(6)) simp
  note h2 = assms(6,9)[folded tw(2)]
  obtain fs3 fs4 fs5 fs6 where u:
    "inode_unlink (e_dirjunk e) n (e_junk e) (e_now e) (getDiskInodePos p (v_fs v2)) (v_fs v2) = (kSuccess, inode_of (v_fs v2) k, fs3)"
    "inode_unlink (e_dirjunk e) m (e_junk e) (e_now e) (getDiskInodePos d (v_fs v2)) fs3 = (kSuccess, inode_of (v_fs v2) j, fs4)"
    "inode_link (e_dirjunk e) n (inode_of (v_fs v2) j) False (e_now e) (getDiskInodePos p (v_fs v2)) fs4 = Some (kSuccess, fs5)"
    "inode_link (e_dirjunk e) m (inode_of (v_fs v2) k) (flags AND RENAME_NOREPLACE = 0) (e_now e) (getDiskInodePos d (v_fs v2)) fs5 = Some (kSuccess, fs6)"
    and s: "fs_inv fs6" "fs6 = (v_fs v2)\<lparr>device := device fs6\<rparr>" "attrs fs6 = attrs (v_fs v2)" "dirs_ok (contents fs6)"
    "\<forall>x. x \<noteq> p \<longrightarrow> x \<noteq> d \<longrightarrow> contents fs6 x = contents (v_fs v2) x"
    "\<forall>x y. map_of (dir_of (contents fs6) x) y = (if x = d \<and> y = m then Some k else if x = p \<and> y = n then Some j else map_of (dir_of (contents (v_fs v2)) x) y)"
    "\<forall>x b. contents (v_fs v2) x = Some (kDirectory, b) \<longrightarrow> (\<exists>b. contents fs6 x = Some (kDirectory, b))"
    by (rule swap_ok[OF i2(1,6) h2(1) assms(11) cn(1) assms(7) h2(2) assms(12) cn(2) assms(10,13) kd rm])
  have rw: "rewired (contents (v_fs v2)) (root_id (v_fs v2)) ?ch (contents fs6)"
    by (rule swapping_rewired[OF i2(3) ed[folded tw(2)] kj assms(13) s(4) _ s(6)]) (use root_is_dir[OF i2(3)] s(7) in blast)
  have ch: "x = (p, n) \<or> x = (d, m)" if "?ch x \<noteq> None" for x using that by (auto simp: swapping_def split: if_splits)
  have ty: "tidy ?C ?ch" by (rule swapping_tidy[OF ed fl assms(13)])
  have p2: "lookup (contents (v_fs v2)) ps (root_id (v_fs v2)) = Some p" "lookup (contents (v_fs v2)) ds (root_id (v_fs v2)) = Some d"
    using assms(5,8) tw(2,5) by simp_all
  obtain v7 v8 where r: "vfs_removePrefix (path_of (ps @ [n])) (v2\<lparr>v_fs := fs6\<rparr>) = Some v7" "vfs_removePrefix (path_of (ds @ [m])) v7 = Some v8"
    "vfs_inv v8" "v_fs v8 = fs6" "v_fd v8 = v_fd v2"
    by (rule rename_caches[OF v2(1) assms(2,3) s(1-3) rw ty[folded tw(2)] ch p2])
  have "sb_rename e (path_of (ps @ [n])) (path_of (ds @ [m])) flags v = Some (0, v8)"
    using v2(4) u r(1,2) assms(4) by (simp add: rename_tail_def on_inode_def link_in_def kSuccess_def kFail_def del: path_of_snoc)
  moreover have "lookup (contents fs6) ps (root_id (v_fs v2)) = Some p"
    by (rule rewired_lookup2[OF rw ch p2(1) cn(3) p2(2) cn(4) p2(1) cn(3)])
      (use not_through[OF i(3) assms(8) cn(4) ed(2) assms(5) cn(3)] fl kd in auto)
  moreover have "lookup (contents fs6) ds (root_id (v_fs v2)) = Some d"
    by (rule rewired_lookup2[OF rw ch p2(1) cn(3) p2(2) cn(4) p2(2) cn(4)])
      (use not_through[OF i(3) assms(5) cn(3) ed(1) assms(8) cn(4)] fl kd in auto)
  ultimately show ?thesis
    using assms(13) r(3-5) s(3,5,6) v2(3) tw(2,8) fs_device_eq(3)[OF s(2)] by (intro exI[of _ v8]) (auto simp: lookup_snoc)
qed

text \<open>C8: \<open>rename\<close> with \<open>RENAME_EXCHANGE\<close> lets two names change places: each path leads to what the other one led to, every other name leads where
  it led, and the bytes and the attributes of all files that are not one of the two directories stay; the invariant holds. Directories change
  places within one directory only.\<close>

theorem sb_exchange_refines:
  assumes "vfs_inv v" "path_ok (ps @ [n])" "path_ok (ds @ [m])" "flags AND RENAME_EXCHANGE \<noteq> 0"
    and "lookup (contents (v_fs v)) ps (root_id (v_fs v)) = Some p" "contents (v_fs v) p = Some (kDirectory, bs)" "length bs \<le> 22 * 4096"
    and "lookup (contents (v_fs v)) ds (root_id (v_fs v)) = Some d" "contents (v_fs v) d = Some (kDirectory, old)" "length old \<le> 22 * 4096"
    and "map_of (entries bs) n = Some k" "map_of (entries old) m = Some j" "(p, n) \<noteq> (d, m)"
    and "contents (v_fs v) k = Some (s, c)" "contents (v_fs v) j = Some (t, c')" "s \<noteq> kDirectory \<and> t \<noteq> kDirectory \<or> d = p"
    and "room (data_bitmap (v_fs v)) (dev_view (device (v_fs v))) 2"
  shows "\<exists>v'. sb_rename e (path_of (ps @ [n])) (path_of (ds @ [m])) flags v = Some (0, v') \<and> vfs_inv v' \<and> v_fd v' = v_fd v \<and>
     lookup (contents (v_fs v')) (ps @ [n]) (root_id (v_fs v')) = Some j \<and> lookup (contents (v_fs v')) (ds @ [m]) (root_id (v_fs v')) = Some k \<and>
     attrs (v_fs v') = attrs (v_fs v) \<and>
     (\<forall>x y. map_of (dir_of (contents (v_fs v')) x) y =
        (if x = d \<and> y = m then Some k else if x = p \<and> y = n then Some j else map_of (dir_of (contents (v_fs v)) x) y)) \<and>
     (\<forall>x. x \<noteq> p \<longrightarrow> x \<noteq> d \<longrightarrow> contents (v_fs v') x = contents (v_fs v) x)"
  by (rule sb_exchange_ok[OF assms])

theorem sb_exchange_refines_witness:
  "\<exists>v j k v'. j \<noteq> k \<and> lookup (contents (v_fs v)) [[0x61]] 2 = Some k \<and> lookup (contents (v_fs v)) [[0x62]] 2 = Some j \<and>
     sb_rename new_env [slash, 0x61] [slash, 0x62] RENAME_EXCHANGE v = Some (0, v') \<and>
     lookup (contents (v_fs v')) [[0x61]] (root_id (v_fs v')) = Some j \<and> lookup (contents (v_fs v')) [[0x62]] (root_id (v_fs v')) = Some k"
proof -
  obtain j k ne v where o: "vfs_inv v" "contents (v_fs v) = [2 \<mapsto> (kDirectory, ne), k \<mapsto> (kFile, []), j \<mapsto> (kFile, [])]" "j \<noteq> k" "j \<noteq> 2" "k \<noteq> 2"
    "root_id (v_fs v) = 2" "dir_ok ne" "map_of (entries ne) [0x61] = Some k" "map_of (entries ne) [0x62] = Some j"
    "length ne = 1024" "room (data_bitmap (v_fs v)) (dev_view (device (v_fs v))) 2"
    by (rule two_files)
  have c: "contents (v_fs v) 2 = Some (kDirectory, ne)" "contents (v_fs v) k = Some (kFile, [])" "contents (v_fs v) j = Some (kFile, [])"
    "lookup (contents (v_fs v)) [] (root_id (v_fs v)) = Some 2" "kFile \<noteq> kDirectory \<and> kFile \<noteq> kDirectory \<or> (2 :: u32) = 2" "length ne \<le> 22 * 4096"
    using o(2-6,10) by simp_all
  have f: "RENAME_EXCHANGE AND RENAME_EXCHANGE \<noteq> 0" "(2 :: u32, [0x61 :: u8]) \<noteq> (2, [0x62])" by (simp_all add: RENAME_EXCHANGE_def)
  have l: "lookup (contents (v_fs v)) [[0x61]] 2 = Some k" "lookup (contents (v_fs v)) [[0x62]] 2 = Some j" using c(1) o(8,9) by (simp_all add: dir_of_def)
  from sb_exchange_refines[OF o(1) path_a(1) path_b(1) f(1) c(4,1,6) c(4,1,6) o(8,9) f(2) c(2,3,5) o(11), of new_env]
  show ?thesis unfolding append_Nil path_a(2)[unfolded append_Nil] path_b(2)[unfolded append_Nil] using o(3) l by blast
qed

end
