(* ===== verification/Vfs_Sync.thy ===== *)
theory Vfs_Sync
  imports Vfs_Attr
begin

text \<open>
  What is on disk. Reading and syncing never take a block away from the disk that is up to date there: a slot of the cache
  that is given up is written back first. When \<open>fsync\<close> reports success, all data of the file is on disk.
\<close>

section \<open>Blocks that are up to date on disk\<close>

definition on_disk :: "dev \<Rightarrow> blk_id_t \<Rightarrow> bool" where
  "on_disk d b \<longleftrightarrow> dk_data (dev_file d) b = dev_view d b"

definition calm :: "dev \<Rightarrow> dev \<Rightarrow> bool" where
  "calm d d' \<longleftrightarrow> dev_ok d' \<and> dev_view d' = dev_view d \<and> same_geometry d d' \<and> (\<forall>b. on_disk d b \<longrightarrow> on_disk d' b)"

lemma calm_refl: "dev_ok d \<Longrightarrow> calm d d"
  by (simp add: calm_def)

lemma calm_trans: "calm d d1 \<Longrightarrow> calm d1 d2 \<Longrightarrow> calm d d2"
  unfolding calm_def using same_geometry_trans by auto

lemma calmD:
  assumes "calm d d'"
  shows "dev_ok d'" "dev_view d' = dev_view d" "same_geometry d d'" "on_disk d b \<Longrightarrow> on_disk d' b"
  using assms by (simp_all add: calm_def)

text \<open>What the disk file holds changes to what the device presents only.\<close>

definition settles :: "dev \<Rightarrow> dev \<Rightarrow> bool" where
  "settles d d' \<longleftrightarrow> (\<forall>b. dk_data (dev_file d') b = dk_data (dev_file d) b \<or> dk_data (dev_file d') b = dev_view d b)"

lemma calm_settles: "dev_ok d' \<Longrightarrow> dev_view d' = dev_view d \<Longrightarrow> same_geometry d d' \<Longrightarrow> settles d d' \<Longrightarrow> calm d d'"
  unfolding calm_def settles_def on_disk_def by metis

lemma settles_file: "dk_data (dev_file d') = dk_data (dev_file d) \<Longrightarrow> settles d d'"
  by (simp add: settles_def)

lemma settles_write:
  assumes "snd (write_to_disk b blk dk) = dk'" "blk = dev_view d b" "dev_file d = dk" "dev_file d' = dk'"
  shows "settles d d'"
proof -
  have "dk_data (snd (write_to_disk b blk dk)) \<in> {dk_data dk, (dk_data dk)(b := blk)}"
    by (simp add: write_to_disk_def pwrite_blk_def Let_def)
  then show ?thesis using assms by (auto simp: settles_def)
qed

lemma read_from_disk_data: "dk_data (snd (snd (read_from_disk b buf dk))) = dk_data dk" "dk_data (snd (snd (pread_blk b buf dk))) = dk_data dk"
  by (simp_all add: read_from_disk_def pread_blk_def Let_def split: prod.splits)

lemma lru_alloc_settles:
  assumes "dev_ok d"
  shows "settles d (snd (snd (lru_alloc d)))"
proof -
  obtain k where inv: "cache_inv_at {} k (dev_cache d) (dev_file d)" using assms by (auto simp: dev_ok_def cache_inv_def)
  let ?c = "dev_cache d" and ?s = "LRU_last (dev_cache d)"
  let ?b = "word_of_int (bs_id (buf_st ?c ?s)) :: u32"
  show ?thesis
  proof (cases "FREE_first ?c = -1 \<and> ?s \<noteq> -1 \<and> is_dirty (buf_st ?c ?s)")
    case True
    have "0 \<le> ?s" "?s < k" using alloc_evict_inv(2,3)[OF inv] True by simp_all
    then have "hashtable ?c ?b = Some ?s" using slots_okD[OF cache_inv_atD(4)[OF inv], of ?s] True by auto
    then have v: "buf_blk ?c ?s = dev_view d ?b" by (simp add: dev_view_def)
    show ?thesis
      by (rule settles_write[OF refl v refl]) (use True in \<open>simp add: lru_alloc_def Let_def split: prod.splits\<close>)
  next
    case False
    then show ?thesis by (intro settles_file) (auto simp: lru_alloc_def Let_def)
  qed
qed

lemma get_page_settles:
  assumes "dev_ok d"
  shows "settles d (snd (snd (get_page b d)))"
proof (cases "hashtable (dev_cache d) b")
  case None
  obtain r s d1 where a: "lru_alloc d = (r, s, d1)" by (metis prod_cases3)
  define c1 where "c1 = set_st s (\<lambda>st. st\<lparr>bs_id := sint b\<rparr>) (dev_cache d1)"
  obtain r' x dk where rd: "read_from_disk b (buf_blk c1 s) (dev_file d1) = (r', x, dk)" by (metis prod_cases3)
  have dk: "dk_data dk = dk_data (dev_file d1)" using read_from_disk_data(1)[of b "buf_blk c1 s" "dev_file d1"] by (simp add: rd)
  have "dev_file (snd (snd (get_page b d))) = dk" using None a rd by (simp add: get_page_def Let_def c1_def)
  then show ?thesis using lru_alloc_settles[OF assms] dk by (simp add: a settles_def)
next
  case (Some s)
  then show ?thesis by (intro settles_file) (simp add: get_page_def)
qed

lemma lru_upsert_settles:
  assumes "dev_ok d"
  shows "settles d (snd (lru_upsert b blk d))"
proof -
  obtain r s d1 where a: "get_page b d = (r, s, d1)" by (metis prod_cases3)
  have "dev_file (snd (lru_upsert b blk d)) = dev_file d1" by (simp add: lru_upsert_def a Let_def)
  then show ?thesis using get_page_settles[OF assms, of b] by (simp add: a settles_def)
qed

section \<open>Reads and syncs are calm\<close>

lemma dev_read_settles:
  assumes "dev_ok d"
  shows "settles d (snd (snd (dev_read b buf d)))"
proof (cases "hashtable (dev_cache d) b")
  case None
  obtain k x dk where p: "pread_blk b buf (dev_file d) = (k, x, dk)" by (metis prod_cases3)
  have dk: "dk = (dev_file d)\<lparr>dk_ios := Suc (dk_ios (dev_file d))\<rparr>" using p by (auto simp: pread_blk_def Let_def split: if_splits)
  define d2 where "d2 = d\<lparr>dev_file := dk\<rparr>"
  have d2: "dev_ok d2" "dev_view d2 = dev_view d" "dk_data (dev_file d2) = dk_data (dev_file d)"
    using assms by (simp_all add: d2_def dk dev_ok_def cache_inv_def)
  have "dev_file (snd (snd (dev_read b buf d))) = (if k then dev_file (snd (lru_upsert b x d2)) else dk)"
    using None p by (simp add: dev_read_def lru_get_def d2_def split: prod.splits)
  then show ?thesis using lru_upsert_settles[OF d2(1), of b x] d2(2,3) by (auto simp: settles_def d2_def)
next
  case (Some s)
  then show ?thesis by (intro settles_file) (simp add: dev_read_def lru_get_def kSuccess_def kFail_def)
qed

lemma dev_read_calm:
  assumes "dev_ok d" "dev_read b buf d = (r, x, d')"
  shows "calm d d'"
proof (cases "unat b < dev_blocks d")
  case True
  obtain e where e: "dev_read b buf d = (kSuccess, dev_view d b, e)" "dev_ok e" "dev_view e = dev_view d" "same_geometry d e"
    by (rule dev_read_ok[OF assms(1) True])
  then show ?thesis using assms dev_read_settles[OF assms(1), of b buf] by (intro calm_settles) auto
next
  case False
  obtain k where inv: "cache_inv_at {} k (dev_cache d) (dev_file d)" using assms(1) by (auto simp: dev_ok_def cache_inv_def)
  have "hashtable (dev_cache d) b = None"
    using False hash_okD(4)[OF cache_inv_atD(3)[OF inv]] by (cases "hashtable (dev_cache d) b") auto
  then have "d' = d\<lparr>dev_file := (dev_file d)\<lparr>dk_ios := Suc (dk_ios (dev_file d))\<rparr>\<rparr>"
    using assms(2) False by (auto simp: dev_read_def lru_get_def pread_blk_def Let_def split: if_splits)
  then show ?thesis using assms(1) by (intro calm_settles settles_file) (simp_all add: dev_ok_def cache_inv_def same_geometry_def)
qed

lemma dev_sync_calm:
  assumes "dev_ok d" "dev_sync b d = (r, d')"
  shows "calm d d'" "r \<noteq> kFail \<Longrightarrow> r = kSuccess \<and> on_disk d' b"
proof -
  have "calm d d' \<and> (r \<noteq> kFail \<longrightarrow> r = kSuccess \<and> on_disk d' b)"
  proof (cases "hashtable (dev_cache d) b")
    case None
    then show ?thesis using assms calm_refl by (simp add: dev_sync_def lru_sync_miss)
  next
    case (Some s)
    obtain e where e: "lru_sync b d = (kSuccess, e)" "dev_ok e" "dev_view e = dev_view d" "same_geometry d e" "dk_data (dev_file e) b = dev_view d b"
      by (rule lru_sync_hit[OF assms(1) Some]) auto
    have "settles d e"
    proof (cases "is_dirty (buf_st (dev_cache d) s)")
      case True
      have v: "buf_blk (dev_cache d) s = dev_view d b" using Some by (simp add: dev_view_def)
      show ?thesis by (rule settles_write[OF refl v refl]) (use e(1) True Some in \<open>auto simp: lru_sync_def Let_def split: prod.splits\<close>)
    next
      case False
      then show ?thesis using e(1) Some by (intro settles_file) (auto simp: lru_sync_def Let_def)
    qed
    then show ?thesis using e assms(2) calm_settles[OF e(2-4)] by (simp add: dev_sync_def on_disk_def)
  qed
  then show "calm d d'" "r \<noteq> kFail \<Longrightarrow> r = kSuccess \<and> on_disk d' b" by simp_all
qed

lemma read_inode_calm:
  assumes "dev_ok d" "read_inode pos buf d = (r, x, d')"
  shows "calm d d'"
  using assms dev_read_calm[OF assms(1), of "pos_block_id pos" zero_block]
  by (auto simp: read_inode_def split: prod.splits if_splits)

lemma block_id_calm:
  assumes "dev_ok d" "block_id i ino d = (b, d')"
  shows "calm d d'"
proof -
  obtain r1 y1 d1 where r1: "dev_read (indirect1 ino) zero_block d = (r1, y1, d1)" by (metis prod_cases3)
  obtain r2 y2 d2 where r2: "dev_read (indirect2 ino) zero_block d = (r2, y2, d2)" by (metis prod_cases3)
  define c where "c = get_u32 y2 (4 * ((unat i - INODE_DIRECT_COUNT - INODE_INDIRECT_COUNT) div INODE_INDIRECT_COUNT))"
  obtain r3 y3 d3 where r3: "dev_read c zero_block d2 = (r3, y3, d3)" by (metis prod_cases3)
  note c1 = dev_read_calm[OF assms(1) r1] and c2 = dev_read_calm[OF assms(1) r2]
  note c3 = calm_trans[OF c2 dev_read_calm[OF calmD(1)[OF c2] r3]]
  have "d' \<in> {d, d1, d2, d3}"
    using assms(2) r3 by (auto simp: block_id_def Let_def r1 r2 c_def split: if_splits)
  then show ?thesis using c1 c2 c3 calm_refl[OF assms(1)] by auto
qed

section \<open>Syncing a file\<close>

lemma file_inv_calm: "file_inv bm ino d \<Longrightarrow> calm d d' \<Longrightarrow> file_inv bm ino d'"
  using own_stepD(1)[OF own_read] calmD by blast

lemma sync_data_blocks_ok:
  assumes "file_inv bm ino d" "set js \<subseteq> {..<ndata ino}" "sync_data_blocks js ino d = (r, d')"
  shows "calm d d' \<and> (r \<noteq> kFail \<longrightarrow> r = kSuccess \<and> (\<forall>i \<in> set js. on_disk d' (node_blk ino (dev_view d) (Data i))))"
  using assms
proof (induction js arbitrary: d)
  case Nil
  then show ?case using calm_refl file_inv_parts(2)[OF Nil(1)] by simp
next
  case (Cons i js)
  have i: "i < ndata ino" using Cons.prems(2) by simp
  obtain d1 where b: "block_id (of_nat i) ino d = (node_blk ino (dev_view d) (Data i), d1)" "dev_ok d1" "dev_view d1 = dev_view d" "same_geometry d d1"
    by (rule block_id_ok[OF file_inv_ok[OF Cons.prems(1)] i])
  define b0 where "b0 = node_blk ino (dev_view d) (Data i)"
  obtain r2 d2 where s: "dev_sync b0 d1 = (r2, d2)" by fastforce
  note c1 = block_id_calm[OF file_inv_parts(2)[OF Cons.prems(1)] b(1)] and c2 = dev_sync_calm[OF b(2) s]
  note c = calm_trans[OF c1 c2(1)]
  show ?case
  proof (cases "r2 = kFail")
    case True
    then show ?thesis using Cons.prems(3) b(1) s c by (simp add: b0_def[symmetric] kSuccess_def kFail_def)
  next
    case False
    then have ok: "r2 = kSuccess" "on_disk d2 b0" using c2(2) by simp_all
    then have "sync_data_blocks js ino d2 = (r, d')" using Cons.prems(3) b(1) s by (simp add: b0_def[symmetric])
    from Cons.IH[OF file_inv_calm[OF Cons.prems(1) c] _ this] Cons.prems(2)
    have ih: "calm d2 d'" "r \<noteq> kFail \<longrightarrow> r = kSuccess \<and> (\<forall>i \<in> set js. on_disk d' (node_blk ino (dev_view d2) (Data i)))" by simp_all
    then show ?thesis using calm_trans[OF c ih(1)] calmD(4)[OF ih(1) ok(2)] calmD(2)[OF c] by (simp add: b0_def)
  qed
qed

lemma inode_sync_ok:
  assumes inv: "fs_inv fs" and k: "contents fs k = Some (t, bs)"
  obtains ret d' where "inode_sync md (getDiskInodePos k fs) fs = (ret, fs\<lparr>device := d'\<rparr>)" "calm (device fs) d'"
    "ret = kFail \<or> ret = kSuccess \<and> (\<forall>i < ndata (inode_at fs k). on_disk d' (node_blk (inode_at fs k) (dev_view (device fs)) (Data i))) \<and>
       (md \<longrightarrow> on_disk d' (pos_block_id (getDiskInodePos k fs)))"
proof -
  note c = contents_live[OF k]
  define ino where "ino = inode_at fs k"
  have F: "files fs k = Some ino" using fs_invD(6)[OF inv c(1)] by (simp add: ino_def)
  obtain d1 where r: "read_inode (getDiskInodePos k fs) zero_inode (device fs) = (kSuccess, ino, d1)" "held fs (files fs) {} d1"
    "cont (files fs) d1 = cont (files fs) (device fs)" "dev_view d1 = dev_view (device fs)"
    by (rule held_read[OF held_start[OF inv] F, of zero_inode]) simp_all
  have c1: "calm (device fs) d1" by (rule read_inode_calm[OF lay_facts(10)[OF fs_invD(1)[OF inv]] r(1)])
  obtain r2 d2 where s: "sync_data_blocks [0..<ndata ino] ino d1 = (r2, d2)" by fastforce
  have sb: "calm d1 d2" "r2 \<noteq> kFail \<Longrightarrow> r2 = kSuccess \<and> (\<forall>i < ndata ino. on_disk d2 (node_blk ino (dev_view (device fs)) (Data i)))"
    using sync_data_blocks_ok[OF heldD(10)[OF r(2) F] _ s, unfolded set_upt atLeast0LessThan, OF order_refl] r(4) by auto
  note c2 = calm_trans[OF c1 sb(1)]
  have sd: "sync_data False ino d1 = (if r2 = kSuccess then kSuccess else kFail, d2)" using s by (simp add: sync_data_def)
  obtain r3 d3 where t: "dev_sync (pos_block_id (getDiskInodePos k fs)) d2 = (r3, d3)" by fastforce
  note ds = dev_sync_calm[OF calmD(1)[OF c2] t] and c3 = calm_trans[OF c2 dev_sync_calm(1)[OF calmD(1)[OF c2] t]]
  have ne: "kSuccess \<noteq> kFail" by (simp add: kSuccess_def kFail_def)
  consider "r2 = kFail" | "r2 \<noteq> kFail" "md" | "r2 \<noteq> kFail" "\<not> md" by blast
  then show ?thesis
  proof cases
    case 1
    then have "inode_sync md (getDiskInodePos k fs) fs = (kFail, fs\<lparr>device := d2\<rparr>)" using r(1) sd ne by (simp add: inode_sync_def)
    then show ?thesis by (rule that[OF _ c2]) simp
  next
    case 2
    have run: "inode_sync md (getDiskInodePos k fs) fs = (if r3 = kFail then kFail else kSuccess, fs\<lparr>device := d3\<rparr>)"
      using r(1) sd ne 2 sb(2) t by (simp add: inode_sync_def)
    have "\<forall>i < ndata ino. on_disk d3 (node_blk ino (dev_view (device fs)) (Data i))" using sb(2)[OF 2(1)] calmD(4)[OF ds(1)] by blast
    then show ?thesis by (intro that[OF run c3]) (use ds(2) in \<open>auto simp: ino_def\<close>)
  next
    case 3
    have run: "inode_sync md (getDiskInodePos k fs) fs = (kSuccess, fs\<lparr>device := d2\<rparr>)"
      using r(1) sd ne 3 sb(2) by (simp add: inode_sync_def)
    then show ?thesis by (rule that[OF _ c2]) (use sb(2)[OF 3(1)] 3(2) in \<open>simp add: ino_def\<close>)
  qed
qed

text \<open>The byte of a file on the disk itself, in the block where the file has it.\<close>

definition disk_byte :: "vfs \<Rightarrow> DiskInode \<Rightarrow> nat \<Rightarrow> u8" where
  "disk_byte v ino p = dk_data (dev_file (device (v_fs v))) (node_blk ino (dev_view (device (v_fs v))) (Data (p div kBlockSize))) (p mod kBlockSize)"

lemma sb_fsync_ok:
  assumes "vfs_inv v" "points v fd k" "contents (v_fs v) k = Some (t, bs)"
  shows "\<exists>ret v'. sb_fsync datasync (Some fd) v = Some (ret, v') \<and> vfs_inv v' \<and> contents (v_fs v') = contents (v_fs v) \<and>
     files (v_fs v') = files (v_fs v) \<and> v_fd v' = v_fd v \<and> (ret = 0 \<or> ret = - EIO) \<and>
     (ret = 0 \<longrightarrow> map (disk_byte v' (inode_at (v_fs v) k)) [0..<length bs] = bs \<and>
        (datasync = 0 \<longrightarrow> get_inode (dk_data (dev_file (device (v_fs v'))) (pos_block_id (getDiskInodePos k (v_fs v))))
           (unat (pos_block_offset (getDiskInodePos k (v_fs v)))) = inode_at (v_fs v) k))"
proof -
  note i = vfs_invD[OF assms(1)] and c = contents_live[OF assms(3)]
  let ?ino = "inode_at (v_fs v) k" and ?V = "dev_view (device (v_fs v))"
  obtain ret d' where s: "inode_sync (datasync = 0) (getDiskInodePos k (v_fs v)) (v_fs v) = (ret, (v_fs v)\<lparr>device := d'\<rparr>)" "calm (device (v_fs v)) d'"
    "ret = kFail \<or> ret = kSuccess \<and> (\<forall>i < ndata ?ino. on_disk d' (node_blk ?ino ?V (Data i))) \<and>
       (datasync = 0 \<longrightarrow> on_disk d' (pos_block_id (getDiskInodePos k (v_fs v))))"
    by (rule inode_sync_ok[OF i(1) assms(3)])
  define v' where "v' = v\<lparr>v_fs := (v_fs v)\<lparr>device := d'\<rparr>\<rparr>"
  note cd = calmD[OF s(2)] and ag = fs_inv_agree[OF i(1), of d']
  have k: "fs_inv (v_fs v')" "files (v_fs v') = files (v_fs v)" "contents (v_fs v') = contents (v_fs v)"
    using ag cd(1-3) by (simp_all add: v'_def same_geometry_def)
  have "attrs (v_fs v') = attrs (v_fs v)" by (rule ext) (simp add: attrs_def k(2))
  then have "links_one (v_fs v')" using i(8) by (simp add: links_one_def)
  then have inv: "vfs_inv v'" unfolding v'_def using k(1,3) by (intro vfs_attr_update[OF assms(1)]) (simp_all add: v'_def)
  have ne: "kSuccess \<noteq> kFail" by (simp add: kSuccess_def kFail_def)
  have run: "sb_fsync datasync (Some fd) v = Some (if ret = kFail then - EIO else 0, v')"
    using assms(2) s(1) by (simp add: sb_fsync_def points_def on_inode_def v'_def)
  have "map (disk_byte v' ?ino) [0..<length bs] = bs \<and> (datasync = 0 \<longrightarrow> get_inode (dk_data (dev_file (device (v_fs v')))
      (pos_block_id (getDiskInodePos k (v_fs v)))) (unat (pos_block_offset (getDiskInodePos k (v_fs v)))) = ?ino)" if ok: "ret \<noteq> kFail"
  proof
    have od: "\<forall>i < ndata ?ino. on_disk d' (node_blk ?ino ?V (Data i))" "datasync = 0 \<Longrightarrow> on_disk d' (pos_block_id (getDiskInodePos k (v_fs v)))"
      using s(3) ok by auto
    have "disk_byte v' ?ino p = bs ! p" if p: "p < length bs" for p
    proof -
      have b: "length bs = unat (di_size ?ino)" "bs ! p = file_byte ?ino ?V p" using c(2) p by (simp_all add: fbytes_nth)
      have "p div kBlockSize < ndata ?ino" using p b(1) by (simp add: unat_data_blocks kBlockSize_def)
      then have "on_disk d' (node_blk ?ino ?V (Data (p div kBlockSize)))" using od(1) by blast
      then show ?thesis using b(2) cd(2) by (simp add: disk_byte_def file_byte_def on_disk_def v'_def)
    qed
    then show "map (disk_byte v' ?ino) [0..<length bs] = bs" by (intro nth_equalityI) simp_all
    show "datasync = 0 \<longrightarrow> get_inode (dk_data (dev_file (device (v_fs v'))) (pos_block_id (getDiskInodePos k (v_fs v))))
      (unat (pos_block_offset (getDiskInodePos k (v_fs v)))) = ?ino"
      using od(2) cd(2) by (auto simp: on_disk_def v'_def inode_at_def Let_def)
  qed
  then show ?thesis using run inv k by (intro exI[of _ "if ret = kFail then - EIO else 0"] exI[of _ v']) (auto simp: v'_def EIO_def)
qed

text \<open>C15: when \<open>fsync\<close> reports success, every byte of the file is on the disk itself, in the block where the file has it, and
  so is its inode unless only the data is asked for. Otherwise it reports \<open>EIO\<close>; in either case no file changes.\<close>

theorem sb_fsync_durable:
  assumes "vfs_inv v" "points v fd k" "contents (v_fs v) k = Some (t, bs)"
  shows "\<exists>ret v'. sb_fsync datasync (Some fd) v = Some (ret, v') \<and> vfs_inv v' \<and> contents (v_fs v') = contents (v_fs v) \<and>
     (ret = 0 \<or> ret = - EIO) \<and> (ret = 0 \<longrightarrow> map (disk_byte v' (inode_at (v_fs v) k)) [0..<length bs] = bs \<and>
        (datasync = 0 \<longrightarrow> get_inode (dk_data (dev_file (device (v_fs v'))) (pos_block_id (getDiskInodePos k (v_fs v))))
           (unat (pos_block_offset (getDiskInodePos k (v_fs v)))) = inode_at (v_fs v) k))"
  using sb_fsync_ok[OF assms, of datasync] by blast

lemma sync_empty:
  assumes inv: "vfs_inv v" and h: "points v fd k" and k: "contents (v_fs v) k = Some (t, [])"
  shows "\<exists>v'. sb_fsync 0 (Some fd) v = Some (0, v')"
proof -
  note i = vfs_invD[OF inv] and c = contents_live[OF k]
  let ?p = "getDiskInodePos k (v_fs v)" and ?d = "device (v_fs v)"
  note hd = heldD[OF held_start[OF i(1)]]
  have F: "files (v_fs v) k = Some (inode_at (v_fs v) k)" using fs_invD(6)[OF i(1) c(1)] .
  have pb: "unat (pos_block_id ?p) < dev_blocks ?d" using pos_ok_used(1)[OF hd(9) pos_valid(2)[OF hd(1) hd(6)[OF F]]] .
  obtain d1 where r: "dev_read (pos_block_id ?p) zero_block ?d = (kSuccess, dev_view ?d (pos_block_id ?p), d1)" "dev_ok d1" "dev_view d1 = dev_view ?d"
    "same_geometry ?d d1" "hashtable (dev_cache d1) (pos_block_id ?p) \<noteq> None"
    by (rule dev_read_ok[OF hd(2) pb])
  then obtain s where s: "hashtable (dev_cache d1) (pos_block_id ?p) = Some s" by auto
  obtain d2 where d2: "lru_sync (pos_block_id ?p) d1 = (kSuccess, d2)" by (rule lru_sync_hit[OF r(2) s]) auto
  have ne: "kSuccess \<noteq> kFail" by (simp add: kSuccess_def kFail_def)
  have "read_inode ?p zero_inode ?d = (kSuccess, inode_at (v_fs v) k, d1)" using r(1) ne by (simp add: read_inode_def inode_at_def Let_def)
  moreover have "unat (data_blocks (di_size (inode_at (v_fs v) k))) = 0" using arg_cong[OF c(2), of length] by (simp add: unat_data_blocks)
  ultimately have "inode_sync True ?p (v_fs v) = (kSuccess, (v_fs v)\<lparr>device := d2\<rparr>)"
    using d2 ne by (simp add: inode_sync_def sync_data_def dev_sync_def)
  then show ?thesis using h ne by (simp add: sb_fsync_def points_def on_inode_def)
qed

theorem sb_fsync_durable_witness:
  "\<exists>v fd k v'. contents (v_fs v) k = Some (kFile, []) \<and> sb_fsync 0 (Some fd) v = Some (0, v') \<and>
     get_inode (dk_data (dev_file (device (v_fs v'))) (pos_block_id (getDiskInodePos k (v_fs v))))
       (unat (pos_block_offset (getDiskInodePos k (v_fs v)))) = inode_at (v_fs v) k"
proof -
  obtain k ne fd v where o: "vfs_inv v" "points v fd k" "contents (v_fs v) = [2 \<mapsto> (kDirectory, ne), k \<mapsto> (kFile, [])]"
    by (rule open_file[of 100]) auto
  have c: "contents (v_fs v) k = Some (kFile, [])" by (simp add: o(3))
  obtain v' where r: "sb_fsync 0 (Some fd) v = Some (0, v')" using sync_empty[OF o(1,2) c] by blast
  show ?thesis using sb_fsync_durable[OF o(1,2) c, of 0] r c by (intro exI[of _ v] exI[of _ fd] exI[of _ k] exI[of _ v']) auto
qed

end
