(* ===== verification/Server.thy ===== *)
theory Server
  imports Vfs_Exchange Vfs_Sync
begin

text \<open>
  The program as a whole (\<open>src/main.cpp\<close>): the options, the table of handlers, and the service of requests one after the
  other. libfuse is not part of the repository: how it parses the options is the argument \<open>parse\<close>, and what it asks for
  is the sequence of requests. \<open>proper\<close> says which requests the handlers are shown to answer, and the locale
  \<open>request_server\<close> what follows for the states that the program reaches.
\<close>

section \<open>Options\<close>

record options =
  disk_path :: cstring
  is_open :: int

text \<open>\<open>"/tmp/disk"\<close> and \<open>false\<close>\<close>

definition default_opt :: options where
  "default_opt = \<lparr>disk_path = [0x2F, 0x74, 0x6D, 0x70, 0x2F, 0x64, 0x69, 0x73, 0x6B], is_open = 0\<rparr>"

section \<open>The table of handlers\<close>

text \<open>A request names a handler and gives the arguments that the handler looks at: not the path where the handle says all, nor
  the offset and the flags of \<open>readdir\<close>. \<open>fi\<close> is None for a null pointer, otherwise the field \<open>fh\<close>. A reply is the value returned with
  what the handler writes through its pointers.\<close>

datatype request =
    Readdir cstring
  | Getattr cstring stat "u64 option"
  | Mkdir cstring u32
  | Rmdir cstring
  | Create cstring u32 "u64 option"
  | Unlink cstring
  | Rename cstring cstring u32
  | Open cstring "u64 option"
  | Release "u64 option"
  | ReadFile mem u64 u64 "u64 option"
  | WriteFile mem u64 u64 "u64 option"
  | Truncate cstring u64 "u64 option"
  | Fsync int "u64 option"
  | Utimens cstring "nat \<times> nat" "nat \<times> nat" "u64 option"
  | Chmod cstring u32 "u64 option"
  | Chown cstring u32 u32 "u64 option"
  | Statfs statvfs

datatype reply =
    is_Status: Status (code: int)
  | is_Names: Names (code: int) "cstring list"
  | is_Attr: Attr (code: int) stat
  | is_Handle: Handle (code: int) "u64 option"
  | is_Bytes: Bytes (code: int) mem
  | is_FsStat: FsStat (code: int) statvfs

definition with_out :: "('a \<Rightarrow> reply) \<Rightarrow> ('a \<times> vfs) option \<Rightarrow> (reply \<times> vfs) option" where
  "with_out f = map_option (\<lambda>(x, v). (f x, v))"

definition with_out2 :: "(int \<Rightarrow> 'a \<Rightarrow> reply) \<Rightarrow> (int \<times> 'a \<times> vfs) option \<Rightarrow> (reply \<times> vfs) option" where
  "with_out2 f = map_option (\<lambda>(r, x, v). (f r x, v))"

primrec sb_op :: "env \<Rightarrow> request \<Rightarrow> vfs \<Rightarrow> (reply \<times> vfs) option" where
  "sb_op e (Readdir path) v = with_out2 Names (sb_readdir e path v)"
| "sb_op e (Getattr path stbuf fi) v = with_out2 Attr (sb_getattr e path stbuf fi v)"
| "sb_op e (Mkdir path mode) v = with_out Status (sb_mkdir e path mode v)"
| "sb_op e (Rmdir path) v = with_out Status (sb_rmdir e path v)"
| "sb_op e (Create path mode fi) v = with_out2 Handle (sb_create e path mode fi v)"
| "sb_op e (Unlink path) v = with_out Status (sb_unlink e path v)"
| "sb_op e (Rename oldpath newpath flags) v = with_out Status (sb_rename e oldpath newpath flags v)"
| "sb_op e (Open path fi) v = with_out2 Handle (sb_open e path fi v)"
| "sb_op e (Release fi) v = with_out2 Handle (sb_release fi v)"
| "sb_op e (ReadFile buf sz offset fi) v = with_out2 Bytes (sb_read e buf sz offset fi v)"
| "sb_op e (WriteFile buf sz offset fi) v = with_out Status (sb_write e buf sz offset fi v)"
| "sb_op e (Truncate path off fi) v = with_out Status (sb_truncate e path off fi v)"
| "sb_op e (Fsync datasync fi) v = with_out Status (sb_fsync datasync fi v)"
| "sb_op e (Utimens path tv0 tv1 fi) v = with_out2 (\<lambda>r _. Status r) (sb_utimens e path tv0 tv1 fi v)"
| "sb_op e (Chmod path mode fi) v = with_out2 (\<lambda>r _. Status r) (sb_chmod e path mode fi v)"
| "sb_op e (Chown path uid gid fi) v = with_out2 (\<lambda>r _. Status r) (sb_chown e path uid gid fi v)"
| "sb_op e (Statfs stbuf) v = (let (r, st) = sb_statfs stbuf in Some (FsStat r st, v))"

section \<open>The main function\<close>

text \<open>\<open>host\<close> gives for a path the file there, and its size as \<open>stat\<close> reports it. A failure of the parser is logged only.\<close>

definition main_init ::
  "(cstring list \<Rightarrow> options \<Rightarrow> int \<times> options) \<Rightarrow> cstring list \<Rightarrow> (cstring \<Rightarrow> disk \<times> nat option) \<Rightarrow>
   env \<Rightarrow> (int \<Rightarrow> block) \<Rightarrow> sbfs \<Rightarrow> vfs option" where
  "main_init parse argv host e cjunk fs0 =
     (let (_, opt) = parse argv default_opt; (dk, st) = host (disk_path opt)
      in init_vfs e cjunk fs0 dk st kDiskSize (is_open opt \<noteq> 0))"

primrec serve :: "(env \<times> request) list \<Rightarrow> vfs \<Rightarrow> (reply list \<times> vfs) option" where
  "serve [] v = Some ([], v)"
| "serve (q # qs) v =
     sb_op (fst q) (snd q) v \<bind> (\<lambda>(r, v1). serve qs v1 \<bind> (\<lambda>(rs, v2). Some (r # rs, v2)))"

text \<open>The replies, and the device when the program ends; None when it ends before that.\<close>

definition main_run ::
  "(cstring list \<Rightarrow> options \<Rightarrow> int \<times> options) \<Rightarrow> cstring list \<Rightarrow> (cstring \<Rightarrow> disk \<times> nat option) \<Rightarrow>
   env \<Rightarrow> (int \<Rightarrow> block) \<Rightarrow> sbfs \<Rightarrow> (env \<times> request) list \<Rightarrow> (reply list \<times> dev) option" where
  "main_run parse argv host e cjunk fs0 qs =
     main_init parse argv host e cjunk fs0 \<bind> (\<lambda>v0.
     serve qs v0 \<bind> (\<lambda>(rs, v). Some (rs, sb_destroy v)))"

section \<open>Replies\<close>

text \<open>The error codes a handler may return, and the form of its reply.\<close>

primrec reply_ok :: "request \<Rightarrow> reply \<Rightarrow> bool" where
  "reply_ok (Readdir path) r \<longleftrightarrow> is_Names r \<and> code r \<in> {0, - ENOENT, - ENOTDIR}"
| "reply_ok (Getattr path st fi) r \<longleftrightarrow> is_Attr r \<and> code r \<in> {0, - ENOENT, - EIO}"
| "reply_ok (Mkdir path mode) r \<longleftrightarrow> is_Status r \<and> code r \<in> {0, - ENOENT}"
| "reply_ok (Rmdir path) r \<longleftrightarrow> is_Status r \<and> code r \<in> {0, - ENOENT, - ENOTDIR, - ENOTEMPTY}"
| "reply_ok (Create path mode fi) r \<longleftrightarrow> is_Handle r \<and> code r \<in> {0, - ENOENT}"
| "reply_ok (Unlink path) r \<longleftrightarrow> is_Status r \<and> code r \<in> {0, - ENOENT}"
| "reply_ok (Rename oldpath newpath flags) r \<longleftrightarrow> is_Status r \<and> code r \<in> {0, - ENOENT}"
| "reply_ok (Open path fi) r \<longleftrightarrow> is_Handle r \<and> code r \<in> {0, - ENOENT}"
| "reply_ok (Release fi) r \<longleftrightarrow> r = Handle 0 (Some 0)"
| "reply_ok (ReadFile buf sz offset fi) r \<longleftrightarrow> is_Bytes r \<and> code r \<noteq> kFail"
| "reply_ok (WriteFile buf sz offset fi) r \<longleftrightarrow> is_Status r \<and> code r \<noteq> kFail"
| "reply_ok (Truncate path off fi) r \<longleftrightarrow> is_Status r \<and> code r \<in> {0, - EINVAL, - ENOENT, - EIO}"
| "reply_ok (Fsync datasync fi) r \<longleftrightarrow> is_Status r \<and> code r \<in> {0, - EBADF, - EIO}"
| "reply_ok (Utimens path tv0 tv1 fi) r \<longleftrightarrow> is_Status r \<and> code r \<in> {0, - ENOENT, - EIO}"
| "reply_ok (Chmod path mode fi) r \<longleftrightarrow> is_Status r \<and> code r \<in> {0, - ENOENT, - EIO}"
| "reply_ok (Chown path uid gid fi) r \<longleftrightarrow> is_Status r \<and> code r \<in> {0, - ENOENT, - EIO}"
| "reply_ok (Statfs st) r \<longleftrightarrow> is_FsStat r \<and> code r = 0"

lemma rmw_code:
  assumes "sb_rmw_diskinode e path fi (\<lambda>i x. (kSuccess, g i, h i x)) x v = Some (r, x', v')"
  shows "r \<in> {0, - ENOENT, - EIO}"
  using assms unfolding sb_rmw_diskinode_def
  by (auto simp: Let_def on_inode_def bind_eq_Some_conv split: prod.splits if_splits) (metis prod.exhaust)

lemma attr_code:
  "sb_getattr e path st fi v = Some (r, st', v') \<Longrightarrow> r \<in> {0, - ENOENT, - EIO}"
  "sb_chmod e path mode fi v = Some (r, y, v') \<Longrightarrow> r \<in> {0, - ENOENT, - EIO}"
  "sb_chown e path uid gid fi v = Some (r, y, v') \<Longrightarrow> r \<in> {0, - ENOENT, - EIO}"
  "sb_utimens e path tv0 tv1 fi v = Some (r, y, v') \<Longrightarrow> r \<in> {0, - ENOENT, - EIO}"
  unfolding sb_getattr_def sb_chmod_def sb_chown_def sb_utimens_def by (rule rmw_code, assumption)+

lemma name_code:
  "sb_mkdir e path mode v = Some (r, v') \<Longrightarrow> r \<in> {0, - ENOENT}" "sb_create e path mode fi v = Some (r, fi', v') \<Longrightarrow> r \<in> {0, - ENOENT}"
  "sb_unlink e path v = Some (r, v') \<Longrightarrow> r \<in> {0, - ENOENT}" "sb_open e path fi v = Some (r, fi', v') \<Longrightarrow> r \<in> {0, - ENOENT}"
  "sb_readdir e path v = Some (r, ns, v') \<Longrightarrow> r \<in> {0, - ENOENT, - ENOTDIR}"
  unfolding sb_mkdir_def sb_create_def sb_unlink_def sb_open_def sb_readdir_def Let_def
  by (auto simp: bind_eq_Some_conv split: if_splits option.splits prod.splits) (metis prod.exhaust)+

lemma fsync_code: "sb_fsync datasync fi v = Some (r, v') \<Longrightarrow> r \<in> {0, - EBADF, - EIO}"
  unfolding sb_fsync_def by (auto simp: bind_eq_Some_conv split: if_splits option.splits prod.splits)

lemma truncate_code: "sb_truncate e path off fi v = Some (r, v') \<Longrightarrow> r \<in> {0, - EINVAL, - ENOENT, - EIO}"
  unfolding sb_truncate_def by (auto simp: bind_eq_Some_conv split: if_splits option.splits prod.splits)

lemma rmdir_code: "sb_rmdir e path v = Some (r, v') \<Longrightarrow> r \<in> {0, - ENOENT, - ENOTDIR, - ENOTEMPTY}"
  unfolding sb_rmdir_def Let_def by (auto simp: bind_eq_Some_conv split: if_splits prod.splits)

lemma rename_code: "sb_rename e oldpath newpath flags v = Some (r, v') \<Longrightarrow> r \<in> {0, - ENOENT}"
  unfolding sb_rename_def rename_unlink_def rename_link_def Let_def by (auto simp: bind_eq_Some_conv split: if_splits prod.splits)

lemma io_code:
  "sb_read e buf sz off fi v = Some (r, buf', v') \<Longrightarrow> r \<noteq> kFail" "sb_write e buf sz off fi v = Some (r, v') \<Longrightarrow> r \<noteq> kFail"
  unfolding sb_read_def sb_write_def
  by (auto simp: bind_eq_Some_conv kFail_def EINVAL_def EBADF_def EIO_def split: if_splits option.splits prod.splits)

lemma op_reply:
  assumes "sb_op e q v = Some (r, v')"
  shows "reply_ok q r"
proof (cases q)
  case (Release fi)
  then show ?thesis using assms by (auto simp: with_out2_def sb_release_def split: option.splits)
qed (use assms in \<open>auto simp: with_out_def with_out2_def sb_statfs_def
    dest: attr_code name_code fsync_code truncate_code rmdir_code rename_code io_code\<close>)

section \<open>Requests the program can answer\<close>

definition missing :: "vfs \<Rightarrow> cstring \<Rightarrow> bool" where
  "missing v path \<longleftrightarrow> (\<exists>ps. names_path path ps \<and> lookup (contents (v_fs v)) ps (root_id (v_fs v)) = None)"

definition no_parent :: "vfs \<Rightarrow> cstring \<Rightarrow> bool" where
  "no_parent v path \<longleftrightarrow> (\<exists>ps n. path = path_of (ps @ [n]) \<and> path_ok (ps @ [n]) \<and> lookup (contents (v_fs v)) ps (root_id (v_fs v)) = None)"

text \<open>The entry that a path ends with: its directory, with its bytes, and its name.\<close>

definition in_dir :: "vfs \<Rightarrow> cstring \<Rightarrow> cstring list \<Rightarrow> u32 \<Rightarrow> u8 list \<Rightarrow> cstring \<Rightarrow> bool" where
  "in_dir v path ps p bs n \<longleftrightarrow> path = path_of (ps @ [n]) \<and> path_ok (ps @ [n]) \<and>
     lookup (contents (v_fs v)) ps (root_id (v_fs v)) = Some p \<and> contents (v_fs v) p = Some (kDirectory, bs)"

definition open_file_of :: "vfs \<Rightarrow> u64 option \<Rightarrow> u64 \<Rightarrow> u32 \<Rightarrow> u32 \<Rightarrow> u8 list \<Rightarrow> bool" where
  "open_file_of v fi fd k t bs \<longleftrightarrow> fi = Some fd \<and> points v fd k \<and> contents (v_fs v) k = Some (t, bs)"

definition attr_target :: "vfs \<Rightarrow> cstring \<Rightarrow> u64 option \<Rightarrow> bool" where
  "attr_target v path fi \<longleftrightarrow> (\<exists>k. target v path fi k) \<or> open_handle v fi = None \<and> missing v path"

text \<open>\<open>proper v q\<close>: the request names existing files, or a missing path; handles are open and their file is not removed; the
  name of a new file is new; there is room for what is written, and sizes and directories are within the bounds that the handlers
  are shown to be correct for.\<close>

primrec proper :: "vfs \<Rightarrow> request \<Rightarrow> bool" where
  "proper v (Readdir path) \<longleftrightarrow> (\<exists>ps. names_path path ps \<and> (\<forall>k t bs. lookup (contents (v_fs v)) ps (root_id (v_fs v)) = Some k \<and>
     contents (v_fs v) k = Some (t, bs) \<longrightarrow> length bs \<le> 22 * 4096))"
| "proper v (Getattr path st fi) \<longleftrightarrow> attr_target v path fi"
| "proper v (Mkdir path mode) \<longleftrightarrow> no_parent v path \<or> (\<exists>ps n p old. path = path_of (ps @ [n]) \<and> can_create v ps n p old 0)"
| "proper v (Rmdir path) \<longleftrightarrow> no_parent v path \<or> (\<exists>ps p bs n k t kbs. in_dir v path ps p bs n \<and> dir_ok bs \<and>
     map_of (entries bs) n = Some k \<and> contents (v_fs v) k = Some (t, kbs))"
| "proper v (Create path mode fi) \<longleftrightarrow> no_parent v path \<or> fi \<noteq> None \<and> fd_room 1 (v_fd v) \<and>
     (\<exists>ps n p old. path = path_of (ps @ [n]) \<and> can_create v ps n p old 0)"
| "proper v (Unlink path) \<longleftrightarrow> no_parent v path \<or> (\<exists>ps p bs n. in_dir v path ps p bs n \<and> dir_ok bs \<and>
     (\<forall>k. map_of (entries bs) n = Some k \<longrightarrow> (\<exists>t c. contents (v_fs v) k = Some (t, c) \<and> t \<noteq> kDirectory)))"
| "proper v (Rename oldpath newpath flags) \<longleftrightarrow> no_parent v oldpath \<or>
     (\<exists>ps p bs n k s c ds d old m. in_dir v oldpath ps p bs n \<and> map_of (entries bs) n = Some k \<and> contents (v_fs v) k = Some (s, c) \<and> in_dir v newpath ds d old m \<and>
        (if flags AND RENAME_EXCHANGE = 0
         then dir_ok bs \<and> (s \<noteq> kDirectory \<or> d = p) \<and> new_name_ok (v_fs v) (flags AND RENAME_NOREPLACE = 0) m k old
         else (\<exists>j t c'. map_of (entries old) m = Some j \<and> contents (v_fs v) j = Some (t, c') \<and> (p, n) \<noteq> (d, m) \<and> (s \<noteq> kDirectory \<and> t \<noteq> kDirectory \<or> d = p) \<and>
           length bs \<le> 22 * 4096 \<and> length old \<le> 22 * 4096 \<and> room (data_bitmap (v_fs v)) (dev_view (device (v_fs v))) 2)))"
| "proper v (Open path fi) \<longleftrightarrow> missing v path \<or> fi \<noteq> None \<and> fd_room 1 (v_fd v) \<and>
     (\<exists>ps k. names_path path ps \<and> lookup (contents (v_fs v)) ps (root_id (v_fs v)) = Some k)"
| "proper v (Release fi) \<longleftrightarrow> fi \<noteq> None"
| "proper v (ReadFile buf sz off fi) \<longleftrightarrow> (\<exists>fd k t bs. open_file_of v fi fd k t bs \<and> 0 < sz \<and> unat off + unat sz < 2 ^ 31 \<and> unat off < length bs)"
| "proper v (WriteFile buf sz off fi) \<longleftrightarrow> (\<exists>fd k t bs. open_file_of v fi fd k t bs \<and> t \<noteq> kDirectory \<and> 0 < sz \<and> unat off + unat sz < 2 ^ 31 \<and>
     room_for (v_fs v) k (max (length bs) (unat off + unat sz)))"
| "proper v (Truncate path off fi) \<longleftrightarrow> (\<exists>fh k t bs. fi = Some fh \<and> truncates v path fh k \<and> contents (v_fs v) k = Some (t, bs) \<and>
     (t = kFile \<or> t = kDirectory) \<and> unat off < 2 ^ 32 \<and>
     (if unat off > length bs then room_for (v_fs v) k (unat off) else unat off \<le> 1047 * 4096))"
| "proper v (Fsync datasync fi) \<longleftrightarrow> (\<exists>fd k t bs. open_file_of v fi fd k t bs)"
| "proper v (Utimens path tv0 tv1 fi) \<longleftrightarrow> attr_target v path fi"
| "proper v (Chmod path mode fi) \<longleftrightarrow> attr_target v path fi"
| "proper v (Chown path uid gid fi) \<longleftrightarrow> attr_target v path fi"
| "proper v (Statfs st) \<longleftrightarrow> True"

text \<open>What each handler does with such a request: it returns, and the invariant holds again.\<close>

definition returns :: "('a \<times> vfs) option \<Rightarrow> bool" where
  "returns res \<longleftrightarrow> (\<exists>x v'. res = Some (x, v') \<and> vfs_inv v')"

lemma returns_out: "returns res \<Longrightarrow> returns (with_out f res)" "returns (map_option (\<lambda>(r, x, v). ((r, x), v)) res2) \<Longrightarrow> returns (with_out2 g res2)"
  by (auto simp: returns_def with_out_def with_out2_def)

lemma refused_returns: "refused res v \<Longrightarrow> returns res"
  by (auto simp: refused_def returns_def)

lemma no_parent_returns:
  assumes "vfs_inv v" "no_parent v path"
  shows "returns (sb_mkdir e path mode v)" "returns (sb_unlink e path v)" "returns (sb_rmdir e path v)" "returns (sb_rename e path newpath flags v)"
    "returns (with_out2 Handle (sb_create e path mode fi v))"
proof -
  obtain qs n where p: "path = path_of (qs @ [n])" "path_ok (qs @ [n])" "lookup (contents (v_fs v)) qs (root_id (v_fs v)) = None"
    using assms(2) by (auto simp: no_parent_def)
  note sp = split_parent[OF p(2)]
  obtain v2 where r: "vfs_resolve e (path_of qs @ [slash]) v = Some (Inode_invalid, v2)" "refused (Some (- ENOENT, v2)) v"
    by (rule resolve_nowhere[OF assms(1) sp(2) p(3)])
  have inv: "vfs_inv v2" using r(2) by (simp add: refused_def)
  show "returns (sb_mkdir e path mode v)" "returns (sb_unlink e path v)" "returns (sb_rmdir e path v)" "returns (sb_rename e path newpath flags v)"
    "returns (with_out2 Handle (sb_create e path mode fi v))"
    unfolding p(1) sb_create_def sb_mkdir_def sb_unlink_def sb_rmdir_def sb_rename_def rename_unlink_def sp(1)
    using r(1) inv by (simp_all add: returns_def with_out2_def)
qed

lemma rmw_returns:
  assumes "vfs_inv v" "attr_target v path fi" "\<And>i. same_tree i (g i) \<and> di_type (g i) = di_type i \<and> link_cnt (g i) = link_cnt i"
  shows "returns (with_out2 f (sb_rmw_diskinode e path fi (\<lambda>i x. (kSuccess, g i, h i x)) x v))"
proof (cases "\<exists>k. target v path fi k")
  case True
  then obtain k where k: "target v path fi k" by blast
  let ?i = "inode_at (v_fs v) k"
  obtain v' where "sb_rmw_diskinode e path fi (\<lambda>i x. (kSuccess, g i, h i x)) x v = Some (0, h ?i x, v')" "vfs_inv v'"
    by (rule rmw_ok[OF assms(1) k, of "\<lambda>i x. (kSuccess, g i, h i x)" x "g ?i" "h ?i x" e]) (use assms(3)[of ?i] in simp_all)
  then show ?thesis by (simp add: returns_def with_out2_def)
next
  case False
  then obtain ps where o: "open_handle v fi = None" "names_path path ps" "lookup (contents (v_fs v)) ps (root_id (v_fs v)) = None"
    using assms(2) by (auto simp: attr_target_def missing_def)
  obtain v1 where r: "vfs_resolve e path v = Some (Inode_invalid, v1)" "refused (Some (- ENOENT, v1)) v"
    by (rule resolve_nowhere[OF assms(1) o(2,3)])
  have "(case fi of None \<Rightarrow> None | Some fh \<Rightarrow> if fh = 0 then None else fd_get fh (v_fd v)) = None"
    using o(1) by (auto simp: open_handle_def split: option.splits if_splits)
  then show ?thesis using r by (simp add: sb_rmw_diskinode_def returns_def with_out2_def refused_def)
qed

lemma attr_returns:
  assumes "vfs_inv v" "attr_target v path fi"
  shows "returns (with_out2 f (sb_getattr e path st fi v))" "returns (with_out2 f1 (sb_chmod e path mode fi v))"
    "returns (with_out2 f1 (sb_chown e path uid gid fi v))" "returns (with_out2 f1 (sb_utimens e path tv0 tv1 fi v))"
  unfolding sb_getattr_def sb_chmod_def sb_chown_def sb_utimens_def by (rule rmw_returns[OF assms], simp add: same_tree_def)+

lemma make_returns:
  assumes "vfs_inv v"
  shows "proper v (Mkdir path mode) \<Longrightarrow> returns (sb_mkdir e path mode v)"
    "proper v (Create path mode fi) \<Longrightarrow> returns (with_out2 Handle (sb_create e path mode fi v))"
proof -
  assume a: "proper v (Mkdir path mode)"
  show "returns (sb_mkdir e path mode v)"
  proof (cases "no_parent v path")
    case False
    then obtain ps n p old where c: "path = path_of (ps @ [n])" "can_create v ps n p old 0" using a by (auto simp del: path_of_snoc)
    show ?thesis unfolding c(1) by (rule sb_mkdir_ok[OF assms c(2), of e mode]) (simp add: returns_def del: path_of_snoc)
  qed (rule no_parent_returns(1)[OF assms])
next
  assume a: "proper v (Create path mode fi)"
  show "returns (with_out2 Handle (sb_create e path mode fi v))"
  proof (cases "no_parent v path")
    case False
    then obtain ps n p old x where c: "path = path_of (ps @ [n])" "can_create v ps n p old 0" "fi = Some x" "fd_room (Suc 0) (v_fd v)"
      using a by (auto simp del: path_of_snoc)
    show ?thesis unfolding c(1,3) by (rule sb_create_ok[OF assms c(2,4), of e mode x]) (simp add: returns_def with_out2_def del: path_of_snoc)
  qed (rule no_parent_returns(5)[OF assms])
qed

lemma remove_returns:
  assumes "vfs_inv v"
  shows "proper v (Unlink path) \<Longrightarrow> returns (sb_unlink e path v)" "proper v (Rmdir path) \<Longrightarrow> returns (sb_rmdir e path v)"
proof -
  assume a: "proper v (Unlink path)"
  show "returns (sb_unlink e path v)"
  proof (cases "no_parent v path")
    case False
    then obtain ps p bs n where c: "in_dir v path ps p bs n" "dir_ok bs"
      "\<forall>k. map_of (entries bs) n = Some k \<longrightarrow> (\<exists>t c. contents (v_fs v) k = Some (t, c) \<and> t \<noteq> kDirectory)" using a by auto
    note d = c(1)[unfolded in_dir_def]
    have "\<exists>v'. (\<exists>r. sb_unlink e (path_of (ps @ [n])) v = Some (r, v')) \<and> vfs_inv v'"
      using sb_unlink_ok[OF assms _ _ _ c(2), of ps n p e] d c(3) by (cases "map_of (entries bs) n") (auto simp del: path_of_snoc)
    then show ?thesis using d by (auto simp: returns_def)
  qed (rule no_parent_returns(2)[OF assms])
next
  assume a: "proper v (Rmdir path)"
  show "returns (sb_rmdir e path v)"
  proof (cases "no_parent v path")
    case False
    then obtain ps p bs n k t kbs where c: "in_dir v path ps p bs n" "dir_ok bs" "map_of (entries bs) n = Some k" "contents (v_fs v) k = Some (t, kbs)"
      using a by auto
    note d = c(1)[unfolded in_dir_def]
    show ?thesis using sb_rmdir_ok[OF assms _ _ _ c(2-4), of ps p e] d by (auto simp: returns_def)
  qed (rule no_parent_returns(3)[OF assms])
qed

lemma rename_returns:
  assumes "vfs_inv v" "proper v (Rename oldpath newpath flags)"
  shows "returns (sb_rename e oldpath newpath flags v)"
proof (cases "no_parent v oldpath")
  case False
  then obtain ps p bs n k s c ds d old m where h: "in_dir v oldpath ps p bs n" "map_of (entries bs) n = Some k" "contents (v_fs v) k = Some (s, c)"
    "in_dir v newpath ds d old m" and f: "if flags AND RENAME_EXCHANGE = 0
         then dir_ok bs \<and> (s \<noteq> kDirectory \<or> d = p) \<and> new_name_ok (v_fs v) (flags AND RENAME_NOREPLACE = 0) m k old
         else (\<exists>j t c'. map_of (entries old) m = Some j \<and> contents (v_fs v) j = Some (t, c') \<and> (p, n) \<noteq> (d, m) \<and> (s \<noteq> kDirectory \<and> t \<noteq> kDirectory \<or> d = p) \<and>
           length bs \<le> 22 * 4096 \<and> length old \<le> 22 * 4096 \<and> room (data_bitmap (v_fs v)) (dev_view (device (v_fs v))) 2)"
    using assms(2) unfolding proper.simps by blast
  have a: "oldpath = path_of (ps @ [n])" "path_ok (ps @ [n])" "lookup (contents (v_fs v)) ps (root_id (v_fs v)) = Some p" "contents (v_fs v) p = Some (kDirectory, bs)"
    using h(1) by (simp_all add: in_dir_def del: path_of_snoc)
  have b: "newpath = path_of (ds @ [m])" "path_ok (ds @ [m])" "lookup (contents (v_fs v)) ds (root_id (v_fs v)) = Some d" "contents (v_fs v) d = Some (kDirectory, old)"
    using h(4) by (simp_all add: in_dir_def del: path_of_snoc)
  have "\<exists>v'. sb_rename e (path_of (ps @ [n])) (path_of (ds @ [m])) flags v = Some (0, v') \<and> vfs_inv v'"
  proof (cases "flags AND RENAME_EXCHANGE = 0")
    case True
    then have g: "dir_ok bs" "s \<noteq> kDirectory \<or> d = p" "new_name_ok (v_fs v) (flags AND RENAME_NOREPLACE = 0) m k old" using f by simp_all
    show ?thesis using sb_rename_ok[OF assms(1) a(2) b(2) True a(3,4) g(1) b(3,4) h(2,3) g(2,3), of e] by blast
  next
    case False
    then obtain j t c' where g: "map_of (entries old) m = Some j" "contents (v_fs v) j = Some (t, c')" "(p, n) \<noteq> (d, m)" "s \<noteq> kDirectory \<and> t \<noteq> kDirectory \<or> d = p"
      "length bs \<le> 22 * 4096" "length old \<le> 22 * 4096" "room (data_bitmap (v_fs v)) (dev_view (device (v_fs v))) 2" using f by (simp only: if_False) blast
    show ?thesis using sb_exchange_ok[OF assms(1) a(2) b(2) False a(3,4) g(5) b(3,4) g(6) h(2) g(1,3) h(3) g(2,4,7), of e] by blast
  qed
  then show ?thesis unfolding a(1) b(1) by (auto simp: returns_def simp del: path_of_snoc)
qed (rule no_parent_returns(4)[OF assms(1)])

lemma path_returns:
  assumes "vfs_inv v"
  shows "proper v (Readdir path) \<Longrightarrow> returns (with_out2 Names (sb_readdir e path v))"
    "proper v (Open path fi) \<Longrightarrow> returns (with_out2 Handle (sb_open e path fi v))"
proof -
  assume "proper v (Readdir path)"
  then obtain ps where c: "names_path path ps" "\<forall>k t bs. lookup (contents (v_fs v)) ps (root_id (v_fs v)) = Some k \<and>
     contents (v_fs v) k = Some (t, bs) \<longrightarrow> length bs \<le> 22 * 4096" by auto
  let ?l = "lookup (contents (v_fs v)) ps (root_id (v_fs v))"
  obtain v' where v': "case ?l of None \<Rightarrow> sb_readdir e path v = Some (- ENOENT, [], v')
      | Some k \<Rightarrow> (case contents (v_fs v) k of None \<Rightarrow> False
          | Some (t, bs) \<Rightarrow> sb_readdir e path v = (if t = kDirectory then Some (0, map fst (entries bs), v') else Some (- ENOTDIR, [], v')))"
    "vfs_inv v'"
    using sb_readdir_ok[OF assms c, of e] by blast
  have "\<exists>r ns. sb_readdir e path v = Some (r, ns, v')"
    using v'(1) by (simp split: option.splits prod.splits if_splits)
  then show "returns (with_out2 Names (sb_readdir e path v))"
    using v'(2) by (auto simp: returns_def with_out2_def)
next
  assume a: "proper v (Open path fi)"
  show "returns (with_out2 Handle (sb_open e path fi v))"
  proof (cases "missing v path")
    case True
    then obtain ps where p: "names_path path ps" "lookup (contents (v_fs v)) ps (root_id (v_fs v)) = None" by (auto simp: missing_def)
    show ?thesis by (rule resolve_nowhere[OF assms p, of e]) (auto simp: sb_open_def returns_def with_out2_def refused_def)
  next
    case False
    then obtain ps k x where c: "names_path path ps" "lookup (contents (v_fs v)) ps (root_id (v_fs v)) = Some k" "fi = Some x" "fd_room (Suc 0) (v_fd v)"
      using a by auto
    show ?thesis unfolding c(3) by (rule sb_open_ok[OF assms c(1,2,4), of e x]) (simp add: returns_def with_out2_def)
  qed
qed

lemma file_returns:
  assumes "vfs_inv v"
  shows "proper v (ReadFile buf sz off fi) \<Longrightarrow> returns (with_out2 Bytes (sb_read e buf sz off fi v))"
    "proper v (WriteFile buf sz off fi) \<Longrightarrow> returns (sb_write e buf sz off fi v)"
    "proper v (Truncate path off fi) \<Longrightarrow> returns (sb_truncate e path off fi v)"
    "proper v (Fsync datasync fi) \<Longrightarrow> returns (sb_fsync datasync fi v)"
proof -
  assume "proper v (ReadFile buf sz off fi)"
  then obtain fd k t bs where c: "open_file_of v fi fd k t bs" "0 < sz" "unat off + unat sz < 2 ^ 31" "unat off < length bs" by auto
  note o = c(1)[unfolded open_file_of_def]
  show "returns (with_out2 Bytes (sb_read e buf sz off fi v))"
    by (rule sb_read_ok[OF assms _ _ c(2-4), of fd k t e buf]) (use o in \<open>simp_all add: returns_def with_out2_def\<close>)
next
  assume "proper v (WriteFile buf sz off fi)"
  then obtain fd k t bs where c: "open_file_of v fi fd k t bs" "t \<noteq> kDirectory" "0 < sz" "unat off + unat sz < 2 ^ 31"
    "room_for (v_fs v) k (max (length bs) (unat off + unat sz))" by auto
  note o = c(1)[unfolded open_file_of_def]
  show "returns (sb_write e buf sz off fi v)"
    by (rule sb_write_ok[OF assms _ _ c(2-5), of fd e buf]) (use o in \<open>simp_all add: returns_def\<close>)
next
  assume "proper v (Truncate path off fi)"
  then obtain fh k t bs where c: "fi = Some fh" "truncates v path fh k" "contents (v_fs v) k = Some (t, bs)" "t = kFile \<or> t = kDirectory" "unat off < 2 ^ 32"
    "if unat off > length bs then room_for (v_fs v) k (unat off) else unat off \<le> 1047 * 4096" unfolding proper.simps by blast
  show "returns (sb_truncate e path off fi v)" unfolding c(1) using sb_truncate_ok[OF assms c(2-6), of e] by (auto simp: returns_def)
next
  assume "proper v (Fsync datasync fi)"
  then obtain fd k t bs where c: "fi = Some fd" "points v fd k" "contents (v_fs v) k = Some (t, bs)" by (auto simp: open_file_of_def)
  show "returns (sb_fsync datasync fi v)" unfolding c(1) using sb_fsync_ok[OF assms c(2,3), of datasync] by (auto simp: returns_def)
qed

lemma sb_op_returns:
  assumes "vfs_inv v" "proper v q"
  shows "returns (sb_op e q v)"
proof (cases q)
  case (Release fi)
  then show ?thesis using assms by (auto simp: returns_def with_out2_def sb_release_def)
next
  case (Statfs st)
  then show ?thesis using assms by (simp add: returns_def sb_statfs_def)
next
  case (Mkdir path mode)
  then show ?thesis using returns_out(1)[OF make_returns(1)[OF assms(1)]] assms(2) by (simp del: proper.simps)
next
  case (Rmdir path)
  then show ?thesis using returns_out(1)[OF remove_returns(2)[OF assms(1)]] assms(2) by (simp del: proper.simps)
next
  case (Unlink path)
  then show ?thesis using returns_out(1)[OF remove_returns(1)[OF assms(1)]] assms(2) by (simp del: proper.simps)
next
  case (Rename oldpath newpath flags)
  then show ?thesis using returns_out(1)[OF rename_returns[OF assms(1)]] assms(2) by (simp del: proper.simps)
next
  case (WriteFile buf sz off fi)
  then show ?thesis using returns_out(1)[OF file_returns(2)[OF assms(1)]] assms(2) by (simp del: proper.simps)
next
  case (Truncate path off fi)
  then show ?thesis using returns_out(1)[OF file_returns(3)[OF assms(1)]] assms(2) by (simp del: proper.simps)
next
  case (Fsync datasync fi)
  then show ?thesis using returns_out(1)[OF file_returns(4)[OF assms(1)]] assms(2) by (simp del: proper.simps)
qed (use assms attr_returns make_returns(2) path_returns file_returns(1) in \<open>simp_all del: proper.simps add: proper.simps(2,14,15,16)\<close>)

section \<open>Servers\<close>

text \<open>The states that a server reaches by answering requests that fit.\<close>

inductive reaches :: "('s \<Rightarrow> 'q \<Rightarrow> bool) \<Rightarrow> ('e \<Rightarrow> 'q \<Rightarrow> 's \<Rightarrow> ('r \<times> 's) option) \<Rightarrow> 's \<Rightarrow> 's \<Rightarrow> bool"
  for fits answer s0 where
  start: "reaches fits answer s0 s0"
| step: "reaches fits answer s0 s \<Longrightarrow> fits s q \<Longrightarrow> answer e q s = Some (r, s') \<Longrightarrow> reaches fits answer s0 s'"

locale request_server =
  fixes ok :: "'s \<Rightarrow> bool" and fits :: "'s \<Rightarrow> 'q \<Rightarrow> bool" and answer :: "'e \<Rightarrow> 'q \<Rightarrow> 's \<Rightarrow> ('r \<times> 's) option"
  assumes answers: "ok s \<Longrightarrow> fits s q \<Longrightarrow> \<exists>r s'. answer e q s = Some (r, s') \<and> ok s'"
begin

lemma reach_ok: "reaches fits answer s0 s \<Longrightarrow> ok s0 \<Longrightarrow> ok s"
proof (induction rule: reaches.induct)
  case (step s q e r s')
  then show ?case using answers[of s q e] by auto
qed

lemma reach_live: "reaches fits answer s0 s \<Longrightarrow> ok s0 \<Longrightarrow> fits s q \<Longrightarrow> \<exists>r s'. answer e q s = Some (r, s') \<and> ok s'"
  by (rule answers[OF reach_ok])

end

interpretation srv: request_server vfs_inv proper sb_op
  by unfold_locales (use sb_op_returns in \<open>auto simp: returns_def\<close>)

end
