(* ===== verification/Vfs_Total.thy ===== *)
theory Vfs_Total
  imports Server
begin

text \<open>
  Requests in any state, whatever the disk holds and whichever of its reads and writes fail: the handlers neither use a null pointer nor
  an iterator to an erased entry, and no exception of \<open>substr\<close> leaves them. The files need no invariant here; what the handlers rely on is
  that every inode in the path cache has its pointer \<open>fs\<close>, and the conditions of \<open>posed\<close>: they exclude the calls that are known to end
  the process (a null \<open>fi\<close>, the handle of a failed \<open>create\<close>, \<open>rename\<close> to a missing directory), the root as a name to remove, and
  lengths beyond the bounds of the model. Memory accesses inside a buffer, on a disk whose inodes or entries are corrupt, are not the subject of this theory.
\<close>

section \<open>Inodes with a file system\<close>

definition hooked :: "vfs \<Rightarrow> bool" where
  "hooked v \<longleftrightarrow> pr_inv (v_path v) \<and> (\<forall>(key, i) \<in> inodes_of (path_cache (v_path v)). ino_fs i)"

lemma hookedD:
  assumes "hooked v"
  shows "pr_inv (v_path v)" "(key, i) \<in> inodes_of (path_cache (v_path v)) \<Longrightarrow> ino_fs i"
  using assms unfolding hooked_def by auto

lemma hooked_fs [simp]: "hooked (v\<lparr>v_fs := fs\<rparr>) = hooked v" "hooked (v\<lparr>v_fd := m\<rparr>) = hooked v"
  by (simp_all add: hooked_def)

lemma hooked_init: "init_vfs e cjunk fs0 dk st sz b = Some v \<Longrightarrow> hooked v"
  by (auto simp: hooked_def init_vfs_def pr_inv_def PathResolver_new_def inodes_of_def bind_eq_Some_conv)

text \<open>A handle is good if its inode has a file system. The handle that a failed \<open>create\<close> returns need not be: it stands for an
  uninitialised \<open>Inode\<close>.\<close>

definition good_handle :: "vfs \<Rightarrow> u64 option \<Rightarrow> bool" where
  "good_handle v fi \<longleftrightarrow> (\<forall>fh i. fi = Some fh \<longrightarrow> fd_get fh (v_fd v) = Some i \<longrightarrow> ino_fs i)"

section \<open>The resolver\<close>

lemma inode_find_hooked: "inode_find dirjunk name inode now pos fs = (r, i, fs') \<Longrightarrow> r \<noteq> kFail \<Longrightarrow> ino_fs i"
  by (auto simp: inode_find_def Let_def split: prod.splits if_splits scan.splits)

lemma inode_unlink_hooked: "inode_unlink dirjunk name inode now pos fs = (r, i, fs') \<Longrightarrow> r \<noteq> kFail \<Longrightarrow> ino_fs i"
  by (auto simp: inode_unlink_def Let_def split: prod.splits if_splits scan.splits)

lemma inode_create_hooked: "inode_create name ino inode now pos fs = (r, ino', i, fs') \<Longrightarrow> i = inode \<or> ino_fs i"
  by (auto simp: inode_create_def Let_def split: prod.splits if_splits)

lemma inode_link_returns: "ino_fs inode \<Longrightarrow> \<exists>r fs'. inode_link dirjunk name inode replace now pos fs = Some (r, fs')"
  by (auto simp: inode_link_def update_link_cnt_def Let_def split: prod.splits scan.splits option.splits)

lemma lookup_cache_hooked:
  assumes "lookup_cache js cv i n c = (i', n', c')" "ino_fs i" "\<forall>(key, i) \<in> inodes_of c. ino_fs i"
  shows "ino_fs i' \<and> inodes_of c' = inodes_of c"
  using assms
proof (induction js arbitrary: i n c)
  case (Cons j js)
  show ?case
  proof (cases "map_of c (cv ! j)")
    case (Some x)
    then have "ino_fs (pcv_inode x)" using Cons.prems(3) map_of_inodes[OF Some] by auto
    then show ?thesis using Cons.IH[of "pcv_inode x" "j + 1" "set_visited (cv ! j) True c"] Cons.prems Some by simp
  qed (use Cons in simp)
qed simp

lemma resolve_parts_hooked:
  assumes "pr_inv pr" "\<forall>(key, i) \<in> inodes_of (path_cache pr). ino_fs i" "ino_fs i"
    and "\<forall>k \<in> set cv. length k < 2 ^ 23" "set js \<subseteq> {..<length cv}"
  obtains i' pr' fs' where "resolve_parts js dirjunk now pv cv i pr fs = Some (i', pr', fs')" "i' = Inode_invalid \<or> ino_fs i'"
    "pr_inv pr'" "\<forall>(key, i) \<in> inodes_of (path_cache pr'). ino_fs i"
  using assms
proof (induction js arbitrary: i pr fs thesis)
  case (Cons j js)
  obtain r i1 fs1 where f: "inode_find dirjunk (pv ! j) Inode_invalid now (ino_pos i) fs = (r, i1, fs1)" by (metis prod_cases3)
  have k: "length (cv ! j) < 2 ^ 23" using Cons.prems(5,6) by auto
  show ?case
  proof (cases "r = kFail")
    case True
    then show ?thesis using Cons.prems(1)[of Inode_invalid pr fs1] Cons.prems(2-4) f by (simp add: find_in_def)
  next
    case False
    note h = inode_find_hooked[OF f False]
    obtain pr1 where c: "cache_insert (cv ! j) i1 pr = Some pr1" "pr_inv pr1" "path_cache pr1 = [(cv ! j, \<lparr>pcv_inode = i1, visited = True\<rparr>)]"
      by (rule cache_insert_one[OF Cons.prems(2) k])
    have c1: "\<forall>(key, i) \<in> inodes_of (path_cache pr1). ino_fs i" using h by (simp add: c(3) inodes_of_def)
    have js: "set js \<subseteq> {..<length cv}" using Cons.prems(6) by simp
    obtain i' pr' fs' where r: "resolve_parts js dirjunk now pv cv i1 pr1 fs1 = Some (i', pr', fs')" "i' = Inode_invalid \<or> ino_fs i'"
      "pr_inv pr'" "\<forall>(key, i) \<in> inodes_of (path_cache pr'). ino_fs i"
      by (rule Cons.IH[OF _ c(2) c1 h Cons.prems(5) js])
    then show ?thesis using Cons.prems(1)[of i' pr' fs'] Cons.prems(4) f c(1) False by (simp add: find_in_def)
  qed
qed simp

definition short :: "cstring \<Rightarrow> bool" where
  "short path \<longleftrightarrow> length path < 2 ^ 23"

lemma no_both_slash_returns:
  assumes "path \<noteq> []" "path \<noteq> [slash]"
  obtains s where "no_both_slash path = Some s" "length s < length path"
proof -
  have "removeEndSlash path \<noteq> []"
    using assms by (cases path rule: rev_cases) (auto simp: removeEndSlash_def rfind_char_def find_Some_iff)
  moreover have "length (removeEndSlash path) \<le> length path" by (simp add: removeEndSlash_def)
  ultimately show ?thesis using that[of "drop 1 (removeEndSlash path)"] by (cases "removeEndSlash path") (auto simp: no_both_slash_def substr1_def)
qed

lemma vfs_resolve_hooked:
  assumes "hooked v" "short path"
  obtains i v' where "vfs_resolve e path v = Some (i, v')" "i = Inode_invalid \<or> ino_fs i" "hooked v'" "v_fd v' = v_fd v"
proof (cases "path = [] \<or> hd path \<noteq> slash \<or> path = [slash]")
  case True
  then show ?thesis using that assms(1) by (cases "path = [slash]") (auto simp: vfs_resolve_def resolve_def fs_root_def)
next
  case False
  note h = hookedD[OF assms(1)]
  obtain s where s: "no_both_slash path = Some s" "length s < length path" using no_both_slash_returns False by blast
  define cv where "cv = split_path s slash True"
  obtain i n c where lc: "lookup_cache [0..<length cv] cv (fs_root (v_fs v)) 0 (path_cache (v_path v)) = (i, n, c)" by (metis prod_cases3)
  have hk: "\<forall>(key, i) \<in> inodes_of (path_cache (v_path v)). ino_fs i" using h(2) by auto
  have c: "ino_fs i" "inodes_of c = inodes_of (path_cache (v_path v))"
    using lookup_cache_hooked[OF lc _ hk] by (simp_all add: fs_root_def)
  have keys: "map fst c = map fst (path_cache (v_path v))" by (rule lookup_cache_keys[OF lc])
  have "length c = length (path_cache (v_path v))" "fst ` set c = fst ` set (path_cache (v_path v))"
    by (metis keys length_map) (metis keys list.set_map)
  then have inv: "pr_inv ((v_path v)\<lparr>path_cache := c\<rparr>)" using h(1) by (simp add: pr_inv_def)
  have hc: "\<forall>(key, i) \<in> inodes_of (path_cache ((v_path v)\<lparr>path_cache := c\<rparr>)). ino_fs i" using hk c(2) by simp
  have k: "\<forall>k \<in> set cv. length k < 2 ^ 23" using split_prefix_short assms(2) s(2) by (fastforce simp: cv_def short_def)
  have js: "set [n..<length (split_path s slash False)] \<subseteq> {..<length cv}" using split_loop_prefixes[of 0 s True slash] by (auto simp: split_path_def cv_def)
  obtain i' pr' fs' where r: "resolve_parts [n..<length (split_path s slash False)] (e_dirjunk e) (e_now e) (split_path s slash False) cv i
      ((v_path v)\<lparr>path_cache := c\<rparr>) (v_fs v) = Some (i', pr', fs')" "i' = Inode_invalid \<or> ino_fs i'"
    "pr_inv pr'" "\<forall>(key, i) \<in> inodes_of (path_cache pr'). ino_fs i"
    by (rule resolve_parts_hooked[OF inv hc c(1) k js])
  have "vfs_resolve e path v = Some (i', v\<lparr>v_path := pr', v_fs := fs'\<rparr>)"
    using False s(1) lc r(1) by (simp add: vfs_resolve_def resolve_def Let_def cv_def)
  then show ?thesis using that[OF _ r(2)] r(3,4) by (simp add: hooked_def)
qed

lemma vfs_removePrefix_hooked:
  assumes "hooked v" "path \<noteq> []" "path \<noteq> [slash]"
  obtains v' where "vfs_removePrefix path v = Some v'" "hooked v'"
proof -
  obtain s where s: "no_both_slash path = Some s" by (rule no_both_slash_returns[OF assms(2,3)])
  obtain pr' where r: "removePrefix path (v_path v) = Some pr'" "set (path_cache pr') \<subseteq> set (path_cache (v_path v))"
    by (auto simp: removePrefix_def s Let_def removePrefix_filter)
  have "inodes_of (path_cache pr') \<subseteq> inodes_of (path_cache (v_path v))" using r(2) by (auto simp: inodes_of_def)
  then have "hooked (v\<lparr>v_path := pr'\<rparr>)" using assms(1) removePrefix_inv[OF _ r(1)] by (auto simp: hooked_def)
  then show ?thesis using that r(1) by (simp add: vfs_removePrefix_def)
qed

section \<open>Handlers\<close>

text \<open>A handler returns, in a state with good pointers; \<open>st\<close> takes the state out of what it returns.\<close>

definition safe :: "('x \<Rightarrow> vfs) \<Rightarrow> 'x option \<Rightarrow> bool" where
  "safe st r \<longleftrightarrow> (\<exists>x. r = Some x \<and> hooked (st x))"

lemma safe_Some [simp]: "safe st (Some x) = hooked (st x)"
  by (simp add: safe_def)

lemma safe_if: "(c \<Longrightarrow> safe st a) \<Longrightarrow> (\<not> c \<Longrightarrow> safe st b) \<Longrightarrow> safe st (if c then a else b)"
  by simp

lemma safe_resolve:
  assumes "hooked v" "short path" "\<And>i v1. hooked v1 \<Longrightarrow> i = Inode_invalid \<or> ino_fs i \<Longrightarrow> v_fd v1 = v_fd v \<Longrightarrow> safe st (f (i, v1))"
  shows "safe st (vfs_resolve e path v \<bind> f)"
  by (rule vfs_resolve_hooked[OF assms(1,2), of e]) (use assms(3) in auto)

lemma safe_removePrefix:
  assumes "hooked v" "path \<noteq> []" "path \<noteq> [slash]" "\<And>v1. hooked v1 \<Longrightarrow> safe st (f v1)"
  shows "safe st (vfs_removePrefix path v \<bind> f)"
  by (rule vfs_removePrefix_hooked[OF assms(1-3)]) (use assms(4) in auto)

lemma safe_inode:
  assumes "ino_fs i" "\<And>x. x = f (ino_pos i) (v_fs v) \<Longrightarrow> safe st (g x)"
  shows "safe st (on_inode i f v \<bind> g)"
  using assms by (simp add: on_inode_def)

lemma short_parent: "splitFromLastSlash path = (par, ch) \<Longrightarrow> short path \<Longrightarrow> short par"
  by (auto simp: splitFromLastSlash_def short_def split: option.splits)

lemma rmw_safe:
  assumes "hooked v" "short path" "good_handle v fi"
  shows "safe (snd \<circ> snd) (sb_rmw_diskinode e path fi func x v)"
proof -
  have k: "safe (snd \<circ> snd) (if \<not> Inode_isValid i then Some (- ENOENT, x, v1)
      else on_inode i (\<lambda>pos fs. read_inode pos zero_inode (device fs)) v1 \<bind> (\<lambda>(r, disk_inode, d1).
        let v2 = v1\<lparr>v_fs := (v_fs v1)\<lparr>device := d1\<rparr>\<rparr> in
        if r = kFail then Some (- EIO, x, v2)
        else (let (ret, disk_inode1, x1) = func disk_inode x in
           if ret \<noteq> kSuccess then Some (ret, x1, v2)
           else on_inode i (\<lambda>pos fs. write_inode pos disk_inode1 (device fs)) v2 \<bind> (\<lambda>(r2, d2).
             let v3 = v2\<lparr>v_fs := (v_fs v2)\<lparr>device := d2\<rparr>\<rparr> in
             if r2 = kFail then Some (- EIO, x1, v3) else Some (0, x1, v3)))))"
    if "hooked v1" "i = Inode_invalid \<or> ino_fs i" for i v1
  proof (cases "i = Inode_invalid")
    case False
    then have i: "ino_fs i" using that(2) by simp
    show ?thesis using that(1) i by (auto simp: on_inode_def Let_def split: prod.splits)
  qed (use that(1) in simp)
  show ?thesis
  proof (cases "case fi of None \<Rightarrow> None | Some fh \<Rightarrow> if fh = 0 then None else fd_get fh (v_fd v)")
    case None
    show ?thesis unfolding sb_rmw_diskinode_def None by (simp only: option.case, rule safe_resolve[OF assms(1,2)]) (use k in simp)
  next
    case (Some i)
    then have "ino_fs i" using assms(3) by (auto simp: good_handle_def split: option.splits if_splits)
    then show ?thesis unfolding sb_rmw_diskinode_def Some using k[OF assms(1), of i] by simp
  qed
qed

lemma attr_safe:
  assumes "hooked v" "short path" "good_handle v fi"
  shows "safe (snd \<circ> snd) (sb_getattr e path st fi v)" "safe (snd \<circ> snd) (sb_chmod e path mode fi v)"
    "safe (snd \<circ> snd) (sb_chown e path uid gid fi v)" "safe (snd \<circ> snd) (sb_utimens e path tv0 tv1 fi v)"
  unfolding sb_getattr_def sb_chmod_def sb_chown_def sb_utimens_def by (rule rmw_safe[OF assms])+

lemma make_safe:
  assumes "hooked v" "short path"
  shows "safe snd (sb_mkdir e path mode v)" "fi \<noteq> None \<Longrightarrow> safe (snd \<circ> snd) (sb_create e path mode fi v)"
proof -
  obtain par ch where sp: "splitFromLastSlash path = (par, ch)" by fastforce
  note sh = short_parent[OF sp assms(2)]
  show "safe snd (sb_mkdir e path mode v)"
    unfolding sb_mkdir_def sp Let_def prod.case
    by (rule safe_resolve[OF assms(1) sh]) (auto simp: on_inode_def split: prod.splits)
  assume j: "fi \<noteq> None"
  show "safe (snd \<circ> snd) (sb_create e path mode fi v)"
    unfolding sb_create_def sp Let_def prod.case
    by (rule safe_resolve[OF assms(1) sh]) (use j in \<open>auto simp: on_inode_def split: prod.splits\<close>)
qed

lemma remove_safe:
  assumes "hooked v" "short path" "path \<noteq> []" "path \<noteq> [slash]"
  shows "safe snd (sb_unlink e path v)" "safe snd (sb_rmdir e path v)"
proof -
  obtain par ch where sp: "splitFromLastSlash path = (par, ch)" by fastforce
  note sh = short_parent[OF sp assms(2)]
  have rp: "safe snd (vfs_removePrefix path v1 \<bind> (\<lambda>v2. Some (0, v2)))" if "hooked v1" for v1
    by (rule safe_removePrefix[OF that assms(3,4)]) simp
  show "safe snd (sb_unlink e path v)"
    unfolding sb_unlink_def sp Let_def prod.case
    by (rule safe_resolve[OF assms(1) sh]) (auto simp: on_inode_def intro: rp split: prod.splits)
  show "safe snd (sb_rmdir e path v)"
    unfolding sb_rmdir_def sp Let_def prod.case
    by (rule safe_resolve[OF assms(1) sh]) (auto simp: on_inode_def intro: rp split: prod.splits dest: inode_find_hooked)
qed

lemma path_safe:
  assumes "hooked v" "short path"
  shows "safe (snd \<circ> snd) (sb_readdir e path v)" "fi \<noteq> None \<Longrightarrow> safe (snd \<circ> snd) (sb_open e path fi v)"
proof -
  show "safe (snd \<circ> snd) (sb_readdir e path v)"
    unfolding sb_readdir_def Let_def
    by (rule safe_resolve[OF assms]) (auto simp: on_inode_def split: prod.splits)
  assume fi: "fi \<noteq> None"
  show "safe (snd \<circ> snd) (sb_open e path fi v)"
    unfolding sb_open_def by (rule safe_resolve[OF assms]) (use fi in \<open>auto split: prod.splits\<close>)
qed

lemma handle_safe:
  assumes "hooked v" "fi \<noteq> None" "good_handle v fi"
  shows "safe (snd \<circ> snd) (sb_read e buf sz off fi v)" "safe snd (sb_write e buf sz off fi v)"
    "safe snd (sb_fsync datasync fi v)" "short path \<Longrightarrow> safe snd (sb_truncate e path len fi v)"
proof -
  obtain fh where fh: "fi = Some fh" using assms(2) by auto
  have h: "fd_get fh (v_fd v) = Some i \<Longrightarrow> ino_fs i" for i using assms(3) fh by (simp add: good_handle_def)
  show "safe (snd \<circ> snd) (sb_read e buf sz off fi v)" "safe snd (sb_write e buf sz off fi v)" "safe snd (sb_fsync datasync fi v)"
    using assms(1) h by (auto simp: fh sb_read_def sb_write_def sb_fsync_def on_inode_def split: option.splits prod.splits)
  assume p: "short path"
  show "safe snd (sb_truncate e path len fi v)"
  proof (cases "fd_get fh (v_fd v)")
    case None
    show ?thesis
      unfolding sb_truncate_def fh option.case None
      by (rule safe_if) (use assms(1) in \<open>auto simp: on_inode_def split: prod.splits intro!: safe_resolve[OF assms(1) p]\<close>)
  next
    case (Some i)
    then show ?thesis using assms(1) h[OF Some] by (auto simp: sb_truncate_def fh on_inode_def split: prod.splits)
  qed
qed

text \<open>\<open>rename\<close> tests its first directory only. Its first part returns in any case.\<close>

lemma rename_unlink_safe:
  assumes "hooked v" "short oldpath" "short newpath"
  obtains res v3 where "rename_unlink e oldpath newpath v = Some (res, v3)" "hooked v3"
    "\<forall>d1 d2 i. res = Inr (d1, d2, i) \<longrightarrow> ino_fs d1 \<and> ino_fs i"
proof -
  obtain par ch where sp: "splitFromLastSlash oldpath = (par, ch)" by fastforce
  obtain par2 ch2 where sp2: "splitFromLastSlash newpath = (par2, ch2)" by fastforce
  obtain d1 v1 where v1: "vfs_resolve e par v = Some (d1, v1)" "d1 = Inode_invalid \<or> ino_fs d1" "hooked v1"
    by (rule vfs_resolve_hooked[OF assms(1) short_parent[OF sp assms(2)]])
  obtain d2 v2 where v2: "vfs_resolve e par2 v1 = Some (d2, v2)" "d2 = Inode_invalid \<or> ino_fs d2" "hooked v2"
    by (rule vfs_resolve_hooked[OF v1(3) short_parent[OF sp2 assms(3)]])
  show ?thesis
  proof (cases "Inode_isValid d1")
    case True
    then have d1: "ino_fs d1" using v1(2) by auto
    obtain r c fs3 where u: "inode_unlink (e_dirjunk e) ch (e_junk e) (e_now e) (ino_pos d1) (v_fs v2) = (r, c, fs3)" by (metis prod_cases3)
    have run: "rename_unlink e oldpath newpath v = Some (if r = kFail then Inl (- ENOENT) else Inr (d1, d2, c), v2\<lparr>v_fs := fs3\<rparr>)"
      using True d1 v1(1) v2(1) u by (simp add: rename_unlink_def sp sp2 on_inode_def)
    show ?thesis by (rule that[OF run]) (use v2(3) d1 inode_unlink_hooked[OF u] in auto)
  next
    case False
    then have "rename_unlink e oldpath newpath v = Some (Inl (- ENOENT), v1)" using v1(1) by (simp add: rename_unlink_def sp)
    then show ?thesis using that v1(3) by simp
  qed
qed

text \<open>Its second part returns if the new directory was found and, for an exchange, the new name in it.\<close>

lemma rename_link_safe:
  assumes "hooked v" "oldpath \<noteq> []" "oldpath \<noteq> [slash]" "newpath \<noteq> []" "newpath \<noteq> [slash]" "ino_fs d1" "ino_fs d2" "ino_fs i"
    and "flags AND RENAME_EXCHANGE \<noteq> 0 \<Longrightarrow>
      fst (inode_unlink (e_dirjunk e) (snd (splitFromLastSlash newpath)) (e_junk e) (e_now e) (ino_pos d2) (v_fs v)) \<noteq> kFail"
  shows "safe snd (rename_link e oldpath newpath flags (d1, d2, i) v)"
proof -
  obtain par ch where sp: "splitFromLastSlash oldpath = (par, ch)" by fastforce
  obtain par2 ch2 where sp2: "splitFromLastSlash newpath = (par2, ch2)" by fastforce
  have ends: "safe snd (vfs_removePrefix oldpath w \<bind> (\<lambda>v7. vfs_removePrefix newpath v7 \<bind> (\<lambda>v8. Some (0, v8))))" if "hooked w" for w
    by (rule safe_removePrefix[OF that assms(2,3)], rule safe_removePrefix[OF _ assms(4,5)]) auto
  have link: "safe snd (link_in e d2 ch2 i (flags AND RENAME_NOREPLACE = 0) w \<bind> (\<lambda>(_, fs6).
      vfs_removePrefix oldpath (w\<lparr>v_fs := fs6\<rparr>) \<bind> (\<lambda>v7. vfs_removePrefix newpath v7 \<bind> (\<lambda>v8. Some (0, v8)))))" if "hooked w" for w
  proof -
    obtain r6 fs6 where "inode_link (e_dirjunk e) ch2 i (flags AND RENAME_NOREPLACE = 0) (e_now e) (ino_pos d2) (v_fs w) = Some (r6, fs6)"
      using inode_link_returns[OF assms(8)] by blast
    then show ?thesis using ends[of "w\<lparr>v_fs := fs6\<rparr>"] that assms(7) by (simp add: link_in_def on_inode_def)
  qed
  show ?thesis
  proof (cases "flags AND RENAME_EXCHANGE = 0")
    case False
    obtain r c fs4 where u: "inode_unlink (e_dirjunk e) ch2 (e_junk e) (e_now e) (ino_pos d2) (v_fs v) = (r, c, fs4)" by (metis prod_cases3)
    then have "ino_fs c" using assms(9)[OF False] inode_unlink_hooked[OF u] by (simp add: sp2)
    then obtain r5 fs5 where l: "inode_link (e_dirjunk e) ch c False (e_now e) (ino_pos d1) fs4 = Some (r5, fs5)"
      using inode_link_returns by blast
    have "link_in e d1 ch c False (v\<lparr>v_fs := fs4\<rparr>) = Some (r5, fs5)" using l assms(6) by (simp add: link_in_def on_inode_def)
    then show ?thesis using link[of "v\<lparr>v_fs := fs5\<rparr>"] assms(1,7) False u by (simp add: rename_link_def sp sp2 on_inode_def)
  qed (use link[OF assms(1)] in \<open>simp add: rename_link_def sp sp2\<close>)
qed

text \<open>The condition on the second path of \<open>rename\<close>.\<close>

definition new_place_found :: "env \<Rightarrow> cstring \<Rightarrow> cstring \<Rightarrow> u32 \<Rightarrow> vfs \<Rightarrow> bool" where
  "new_place_found e oldpath newpath flags v \<longleftrightarrow>
     (case rename_unlink e oldpath newpath v of Some (Inr (_, d2, _), v3) \<Rightarrow> ino_fs d2 \<and> (flags AND RENAME_EXCHANGE \<noteq> 0 \<longrightarrow>
        fst (inode_unlink (e_dirjunk e) (snd (splitFromLastSlash newpath)) (e_junk e) (e_now e) (ino_pos d2) (v_fs v3)) \<noteq> kFail)
      | _ \<Rightarrow> True)"

lemma rename_safe:
  assumes "hooked v" "short oldpath" "short newpath" "oldpath \<noteq> []" "oldpath \<noteq> [slash]" "newpath \<noteq> []" "newpath \<noteq> [slash]"
    and "new_place_found e oldpath newpath flags v"
  shows "safe snd (sb_rename e oldpath newpath flags v)"
proof -
  obtain res v3 where r: "rename_unlink e oldpath newpath v = Some (res, v3)" "hooked v3"
    "\<forall>d1 d2 i. res = Inr (d1, d2, i) \<longrightarrow> ino_fs d1 \<and> ino_fs i"
    by (rule rename_unlink_safe[OF assms(1-3)])
  show ?thesis
  proof (cases res)
    case (Inr inodes)
    obtain d1 d2 i where "inodes = (d1, d2, i)" by (cases inodes) simp
    then have i: "res = Inr (d1, d2, i)" "ino_fs d1" "ino_fs i" using Inr r(3) by simp_all
    note run = r(1)[unfolded i(1)]
    have d2: "ino_fs d2" "flags AND RENAME_EXCHANGE \<noteq> 0 \<Longrightarrow>
        fst (inode_unlink (e_dirjunk e) (snd (splitFromLastSlash newpath)) (e_junk e) (e_now e) (ino_pos d2) (v_fs v3)) \<noteq> kFail"
      using assms(8) by (simp_all add: new_place_found_def run)
    show ?thesis using rename_link_safe[OF r(2) assms(4-7) i(2) d2(1) i(3) d2(2)] by (simp add: sb_rename_def run)
  qed (use r in \<open>simp add: sb_rename_def\<close>)
qed

section \<open>Any sequence of requests\<close>

text \<open>What a request must not be, to get a reply. \<open>fi\<close> is not null where the handler uses it, and is not the handle that a failed
  \<open>create\<close> returned; paths are shorter than 8 MB; nothing removes or renames the root; \<open>rename\<close> finds the directory of the new path, and
  an exchange the new name; a read or a write ends below 4 GiB.\<close>

primrec posed :: "env \<Rightarrow> vfs \<Rightarrow> request \<Rightarrow> bool" where
  "posed e v (Readdir path) \<longleftrightarrow> short path"
| "posed e v (Getattr path st fi) \<longleftrightarrow> short path \<and> good_handle v fi"
| "posed e v (Mkdir path mode) \<longleftrightarrow> short path"
| "posed e v (Rmdir path) \<longleftrightarrow> short path \<and> path \<noteq> [] \<and> path \<noteq> [slash]"
| "posed e v (Create path mode fi) \<longleftrightarrow> short path \<and> fi \<noteq> None"
| "posed e v (Unlink path) \<longleftrightarrow> short path \<and> path \<noteq> [] \<and> path \<noteq> [slash]"
| "posed e v (Rename oldpath newpath flags) \<longleftrightarrow> short oldpath \<and> short newpath \<and> oldpath \<noteq> [] \<and> oldpath \<noteq> [slash] \<and>
     newpath \<noteq> [] \<and> newpath \<noteq> [slash] \<and> new_place_found e oldpath newpath flags v"
| "posed e v (Open path fi) \<longleftrightarrow> short path \<and> fi \<noteq> None"
| "posed e v (Release fi) \<longleftrightarrow> fi \<noteq> None"
| "posed e v (ReadFile buf sz off fi) \<longleftrightarrow> fi \<noteq> None \<and> good_handle v fi \<and> unat off + unat sz < 2 ^ 32"
| "posed e v (WriteFile buf sz off fi) \<longleftrightarrow> fi \<noteq> None \<and> good_handle v fi \<and> unat off + unat sz < 2 ^ 32"
| "posed e v (Truncate path off fi) \<longleftrightarrow> short path \<and> fi \<noteq> None \<and> good_handle v fi"
| "posed e v (Fsync datasync fi) \<longleftrightarrow> fi \<noteq> None \<and> good_handle v fi"
| "posed e v (Utimens path tv0 tv1 fi) \<longleftrightarrow> short path \<and> good_handle v fi"
| "posed e v (Chmod path mode fi) \<longleftrightarrow> short path \<and> good_handle v fi"
| "posed e v (Chown path uid gid fi) \<longleftrightarrow> short path \<and> good_handle v fi"
| "posed e v (Statfs st) \<longleftrightarrow> True"

lemma safe_out:
  "safe snd r \<Longrightarrow> safe snd (with_out f r)" "safe (snd \<circ> snd) r' \<Longrightarrow> safe snd (with_out2 g r')"
  by (auto simp: safe_def with_out_def with_out2_def)

lemma release_safe: "hooked v \<Longrightarrow> fi \<noteq> None \<Longrightarrow> safe (snd \<circ> snd) (sb_release fi v)"
  by (auto simp: sb_release_def)

lemma sb_op_safe:
  assumes "hooked v" "posed e v q"
  shows "safe snd (sb_op e q v)"
  by (cases q) (use assms in \<open>simp_all add: sb_statfs_def safe_out attr_safe make_safe remove_safe path_safe handle_safe release_safe rename_safe\<close>)

text \<open>The server of the requests that are posed with their environment.\<close>

definition sb_op_env :: "unit \<Rightarrow> env \<times> request \<Rightarrow> vfs \<Rightarrow> (reply \<times> vfs) option" where
  "sb_op_env _ q v = sb_op (fst q) (snd q) v"

interpretation robust: request_server hooked "\<lambda>v q. posed (fst q) v (snd q)" sb_op_env
  by unfold_locales (use sb_op_safe in \<open>force simp: sb_op_env_def safe_def\<close>)

text \<open>Each request is posed in the state in which it is served.\<close>

primrec posed_run :: "(env \<times> request) list \<Rightarrow> vfs \<Rightarrow> bool" where
  "posed_run [] v \<longleftrightarrow> True"
| "posed_run (q # qs) v \<longleftrightarrow> posed (fst q) v (snd q) \<and> (\<forall>r v1. sb_op (fst q) (snd q) v = Some (r, v1) \<longrightarrow> posed_run qs v1)"

lemma serve_all:
  assumes "hooked v" "posed_run qs v"
  shows "\<exists>rs v'. serve qs v = Some (rs, v') \<and> length rs = length qs"
  using assms
proof (induction qs arbitrary: v)
  case (Cons q qs)
  obtain r v1 where r: "sb_op (fst q) (snd q) v = Some (r, v1)" "hooked v1"
    using robust.answers[OF Cons.prems(1), of q "()"] Cons.prems(2) by (auto simp: sb_op_env_def)
  then show ?case using Cons.IH[OF r(2)] Cons.prems(2) by auto
qed simp

text \<open>C3: the program does not end before its requests do. Once it has started, whatever the disk file holds and whichever reads and
  writes fail, a run of requests that are posed gets a reply to each of them, and the program reaches its end: no handler uses a null
  pointer \<open>fi\<close> or \<open>fs\<close>, an iterator to an erased entry or \<open>substr\<close> of the empty string. Excluded is a start that is told to open a disk file that
  \<open>stat\<close> does not find or that has another magic number: the code goes on with uninitialised pointers then.\<close>

theorem main_never_dies:
  assumes "main_init parse argv host e cjunk fs0 = Some v0" "posed_run qs v0"
  shows "\<exists>rs d. main_run parse argv host e cjunk fs0 qs = Some (rs, d) \<and> length rs = length qs"
proof -
  have "hooked v0" using assms(1) unfolding main_init_def by (auto simp: Let_def intro: hooked_init split: prod.splits)
  from serve_all[OF this assms(2)] show ?thesis by (auto simp: main_run_def assms(1))
qed

section \<open>A run on any disk\<close>

lemma root_found:
  assumes "fst (splitFromLastSlash newpath) = [slash]" "flags AND RENAME_EXCHANGE = 0"
  shows "new_place_found e oldpath newpath flags v"
proof -
  obtain ch2 where sp2: "splitFromLastSlash newpath = ([slash], ch2)" using assms(1) by (cases "splitFromLastSlash newpath") auto
  have root: "vfs_resolve e [slash] w = Some (fs_root (v_fs w), w)" "ino_fs (fs_root (v_fs w))" for w
    by (simp_all add: vfs_resolve_def resolve_def fs_root_def)
  show ?thesis using assms(2)
    by (auto simp: new_place_found_def rename_unlink_def sp2 root Let_def bind_eq_Some_conv split: option.splits sum.splits prod.splits if_splits)
qed

theorem main_never_dies_witness:
  "\<forall>host fs0. \<exists>rs d. main_run (\<lambda>argv opt. (0, opt)) [] host new_env (\<lambda>_. zero_block) fs0
     [(new_env, ReadFile zero_block 100 0 (Some 10)), (new_env, Mkdir [slash, 0x61] 0), (new_env, Rename [slash, 0x61] [slash, 0x62] 0),
      (new_env, Rmdir [slash, 0x62])] = Some (rs, d) \<and> length rs = 4"
proof (intro allI)
  fix host fs0
  define qs where "qs = [(new_env, ReadFile zero_block 100 0 (Some 10)), (new_env, Mkdir [slash, 0x61] 0),
      (new_env, Rename [slash, 0x61] [slash, 0x62] 0), (new_env, Rmdir [slash, 0x62])]"
  have "splitFromLastSlash [slash, 0x62] = ([slash], [0x62])" by (simp add: splitFromLastSlash_def rfind_char_def slash_def upt_rec)
  then have p: "new_place_found new_env [slash, 0x61] [slash, 0x62] 0 v" for v by (intro root_found) simp_all
  obtain v0 where v0: "main_init (\<lambda>argv opt. (0, opt)) [] host new_env (\<lambda>_. zero_block) fs0 = Some v0" "v_fd v0 = FDManager_new"
    by (cases "host (disk_path default_opt)") (simp add: main_init_def init_vfs_def default_opt_def)
  have "good_handle v0 (Some 10)" by (simp add: good_handle_def v0(2) fd_get_def FDManager_new_def)
  then have "posed_run qs v0" using p by (simp add: qs_def short_def del: sb_op.simps)
  from main_never_dies[OF v0(1) this]
  show "\<exists>rs d. main_run (\<lambda>argv opt. (0, opt)) [] host new_env (\<lambda>_. zero_block) fs0
     [(new_env, ReadFile zero_block 100 0 (Some 10)), (new_env, Mkdir [slash, 0x61] 0), (new_env, Rename [slash, 0x61] [slash, 0x62] 0),
      (new_env, Rmdir [slash, 0x62])] = Some (rs, d) \<and> length rs = 4"
    by (simp add: qs_def eval_nat_numeral)
qed

end
