(* ===== verification/Spec2Isabelle.thy ===== *)
theory Spec2Isabelle
  imports Vfs_Hazards Vfs_Total
begin

text \<open>
  SBFS is a file system in user space: a FUSE server that keeps its files in one disk file of the host. This development models
  the whole of the server and proves that the handlers do to the files what they are asked to.

  \<^bold>\<open>The program and its model.\<close> The parts, from the disk upwards, with the theories that model them:

  \<^item> \<open>include/config.h\<close>, \<open>include/blk.h\<close>: constants, blocks, machine integers, bytes in memory. Theory \<open>Prelude\<close>: blocks are maps from
    byte numbers to 8-bit words, integers are words of the width the code gives them, \<open>put_u32\<close> and \<open>get_u32\<close> are the
    pointer casts.
  \<^item> \<open>src/blk_dev.cpp\<close>, \<open>src/blk_cache.cpp\<close>, \<open>src/lru_cache.cpp\<close>: the block device with its write-back cache. Theories \<open>Disk\<close> (the
    host file, with a schedule of faults), \<open>Lru_Cache\<close> (the array of slots, its free list, its LRU list, the hash table),
    \<open>Blk_Dev\<close> (both builds). A device is the record \<open>dev\<close>; \<open>dev_view\<close> is the contents of its blocks as a client sees them.
  \<^item> \<open>src/bitmap.cpp\<close>: allocation of inodes and blocks. Theory \<open>Bitmap\<close>.
  \<^item> \<open>include/fs_layout.h\<close>, \<open>src/disk_inode.cpp\<close>: on-disk structures, and files as trees of direct and indirect blocks. Theories
    \<open>Fs_Layout\<close>, \<open>Disk_Inode\<close> (all operations), \<open>Inode_Map\<close> (reading and writing), \<open>Inode_Grow\<close>, \<open>Inode_Shrink\<close>, \<open>File_Step\<close>
    (what an operation on one file leaves of the others, \<open>resize\<close> to a smaller size).
  \<^item> \<open>src/inode.cpp\<close>, \<open>src/sbfs.cpp\<close>, \<open>include/fs.h\<close>, \<open>include/inode.h\<close>: inodes, directories, formatting and opening. Theories
    \<open>Inode_Ops\<close> and \<open>Sbfs\<close> (all operations, over the record \<open>sbfs\<close>), \<open>Fs_State\<close> (the invariant \<open>fs_inv\<close> and the abstraction
    \<open>contents\<close>, a map from inode numbers to types and byte lists), \<open>Fs_Steps\<close>, \<open>Fs_Format\<close>, \<open>Fs_Refine\<close>, \<open>Dir_Entries\<close>,
    \<open>Dir_Refine\<close>, \<open>Dir_Find\<close>, \<open>Dir_Unlink\<close>, \<open>Dir_Link\<close>, \<open>Read_Only\<close>.
  \<^item> \<open>src/path_resolver.cpp\<close>: paths, and the cache of resolved paths with its clock. Theories \<open>Path_Resolver\<close>, \<open>Path_Lookup\<close>.
  \<^item> \<open>include/fd_manager.h\<close>: handles of open files. Theory \<open>Fd_Manager\<close>.
  \<^item> \<open>src/vfs.cpp\<close>, \<open>include/vfs.h\<close>: the FUSE handlers over the three globals, the record \<open>vfs\<close>. Theories \<open>Vfs\<close> (all handlers),
    \<open>Name_Tree\<close> (the directories as a tree of names), \<open>Vfs_Paths\<close> (the invariant \<open>vfs_inv\<close>, starting, resolving), \<open>Vfs_Refine\<close>
    (create, mkdir, open, read, write), \<open>Vfs_Remove\<close> (unlink, readdir, rmdir), \<open>Vfs_Attr\<close> (getattr, chmod, chown, utimens,
    truncate, missing paths), \<open>Name_Steps\<close> (what one \<open>unlink\<close> or \<open>link\<close> and several of them do to the tree), \<open>Vfs_Rename\<close> and
    \<open>Vfs_Exchange\<close> (rename), \<open>Vfs_Sync\<close> (fsync), \<open>Vfs_Hazards\<close> (calls that succeed and should be refused).
  \<^item> \<open>src/main.cpp\<close>: options, the table of handlers, the run. Theories \<open>Server\<close>, \<open>Vfs_Total\<close> (requests in any state) and this one.

  Handlers are functions from the state to the new state and the result. Failures that the code reports are the
  values \<open>kFail\<close> and the negated error numbers; undefined behaviour (a null pointer, an invalid iterator, an exception that
  nothing catches) is the result None. So is the start of the program if \<open>SBFileSystem::open\<close> fails (\<open>fs_open\<close>): it returns an object whose
  pointers are not initialised, and no caller tests for that. A handler that the mutex makes atomic is one step.

  \<^bold>\<open>What is shown.\<close>

  \<^item> Cache and device: the cache is invisible to its clients (\<open>cache_transparent\<close>, through the locale \<open>block_store\<close>, which both builds
    interpret), and \<open>sync_all\<close> makes everything durable. Bitmaps satisfy the locale \<open>allocator\<close>.
  \<^item> Files: reading and writing through the block tree is reading and writing a byte list (locale \<open>byte_file\<close>); growing and
    shrinking keep the bytes and use exactly the blocks that enter or leave the tree, so no two files share a block.
  \<^item> File system: \<open>fs_inv\<close> says that the layout is that of the super block, that block 0 holds the super block, that every inode in use
    has a well-formed tree of its own blocks and that exactly the blocks in these trees are marked in the bitmap. \<open>create\<close>
    establishes it, \<open>open\<close> finds the same files again after \<open>sync_all\<close>, and the operations of inodes refine operations on
    \<open>contents\<close>.
  \<^item> Handlers: \<open>vfs_inv\<close> adds that the directories form a tree, that every inode has one link, and that every cached path leads to the
    inode that the directories lead to. Each handler keeps it and does to \<open>contents\<close> what its name says: the \<open>_refines\<close>
    theorems. \<open>fsync\<close> puts the bytes of the file on the disk itself.
  \<^item> The program: \<open>Server\<close> states when a request is \<open>proper\<close> and interprets the locale \<open>request_server\<close>, from which \<open>main_answers\<close>
    follows: the program started on an empty disk file answers proper requests for ever. \<open>main_run_survives\<close> adds that a later run that
    opens the disk file has exactly the files that the first one ended with. Where nothing is known of the disk, \<open>main_never_dies\<close> shows that the
    program, once started, still replies to every request of a run in which each request is \<open>posed\<close> in the state that it meets, whatever the disk
    file holds and whichever reads and writes fail. \<open>posed\<close> leaves out the calls that end the process: a null \<open>fi\<close> where the handler uses it, the
    handle of a failed \<open>create\<close>, \<open>rename\<close> to a directory, or an exchange with a name, that is not found.
    \<open>Vfs_Total\<close> interprets \<open>request_server\<close> a second time, for the weaker invariant \<open>hooked\<close>.
  \<^item> Flaws of the code that the model shows are theorems as well, e.g. \<open>shrink_destroys_super_block\<close>, \<open>resize_exposes_old_data\<close>,
    \<open>eviction_takes_newest\<close>, \<open>path_cache_holds_one\<close>, \<open>inode_slots_overrun\<close>, \<open>rename_to_nowhere\<close>, \<open>offsets_wrap\<close>, \<open>utimens_rounds_up\<close>, and those of
    \<open>Vfs_Hazards\<close>: \<open>create_twice_hides_file\<close>, \<open>create_in_file_dangles\<close>, \<open>unlink_leaves_dangling_handle\<close>, \<open>rename_replace_leaks\<close>,
    \<open>rename_noreplace_loses\<close>, \<open>rename_keeps_dotdot\<close>. \<open>sb_truncate_refines\<close> shows as well that \<open>truncate\<close> with a null \<open>fi\<close>, which libfuse passes for
    a file that is not open, ends the process.

  \<^bold>\<open>Bounds.\<close> Reads and writes end below 2 GiB, because \<open>read_data\<close> and \<open>write_data\<close> return lengths as int. \<open>sb_read_refines\<close> is about offsets
    inside the file; \<open>inode_read_refines\<close> also covers its end, where the code returns 0 or, if the file fills its last block, possibly \<open>kFail\<close>,
    and what lies past the end. A file is shrunk to at most 1047
    data blocks, because longer ones meet the flaw above. Directories that \<open>readdir\<close> and \<open>link\<close> work on have at most 22 blocks,
    because their loops count index blocks. Operations that allocate are given room in the bitmaps (\<open>room_for\<close>,
    \<open>room_for_entry\<close>); handles have room in the 64-bit counter (\<open>fd_room\<close>). Paths consist of non-empty names of at most 251
    bytes without a slash or NUL (\<open>path_ok\<close>). The loops of the code are primitive recursion over the lists of their indices; the
    eviction loop of the path cache, which is not bounded by a counter, is shown to end (\<open>evict_returns\<close>).
    Disk faults are part of the model of the device, of the theorems of \<open>Blk_Dev\<close> and of \<open>Vfs_Total\<close>; the theorems on what files hold
    are about a disk without faults. \<open>Vfs_Total\<close> is about pointers and exceptions: it does not say that memory accesses inside a block buffer
    stay in range on a disk whose inodes are corrupt.

  \<^bold>\<open>Not modelled.\<close> \<open>test/test_rocksdb.cpp\<close>, a load test of a database. Logging, the \<open>print\<close> methods and assertions that are compiled out.
    libfuse: its parser of options is an argument, its requests are a list; the callback of \<open>readdir\<close> is the list of names that it
    is given. Within one handler \<open>time(nullptr)\<close> has one value; \<open>posix_memalign\<close> succeeds. The host file is its blocks: its
    size is a multiple of the block size.

  \<^bold>\<open>What remains.\<close> What a handler leaves of the files when a read or a write of the disk fails in its middle has no theorem; neither has the state
    after a crash without \<open>sync_all\<close>, beyond the file that \<open>fsync\<close> reports as written. A directory that moves to another parent breaks the invariant
    (\<open>rename_keeps_dotdot\<close>), and so do the other calls of \<open>Vfs_Hazards\<close> that leave two entries of one name or a handle of a free inode: what the
    handlers do after them is modelled and not specified.
\<close>

section \<open>Starting the program\<close>

text \<open>The parser leaves \<open>is_open\<close> at 0, and the disk file it names is empty and works.\<close>

definition fresh_start :: "(cstring list \<Rightarrow> options \<Rightarrow> int \<times> options) \<Rightarrow> cstring list \<Rightarrow> (cstring \<Rightarrow> disk \<times> nat option) \<Rightarrow> bool" where
  "fresh_start parse argv host \<longleftrightarrow> (let opt = snd (parse argv default_opt); dk = fst (host (disk_path opt))
     in is_open opt = 0 \<and> no_faults dk \<and> dk_blocks dk = 0)"

text \<open>The parser sets \<open>is_open\<close>, and the path it gives is that of the file \<open>dk\<close>, whose size \<open>stat\<close> reports.\<close>

definition open_start :: "(cstring list \<Rightarrow> options \<Rightarrow> int \<times> options) \<Rightarrow> cstring list \<Rightarrow> (cstring \<Rightarrow> disk \<times> nat option) \<Rightarrow> disk \<Rightarrow> bool" where
  "open_start parse argv host dk \<longleftrightarrow> (let opt = snd (parse argv default_opt)
     in is_open opt \<noteq> 0 \<and> host (disk_path opt) = (dk, Some (dk_blocks dk * kBlockSize)))"

lemma fresh_started:
  assumes "fresh_start parse argv host"
  obtains v dk where "main_init parse argv host e cjunk fs0 = Some v" "create_args dk kDiskSize (of_nat kFSDataBlocks) (of_nat kInodeBitmapBlocks)"
    "v_fs v = fs_create cjunk (e_dirjunk e) (e_now e) (e_uid e) (e_gid e) fs0 dk kDiskSize (of_nat kFSDataBlocks) (of_nat kInodeBitmapBlocks)"
    "v_path v = PathResolver_new (of_nat kPathCacheSize)" "v_fd v = FDManager_new"
proof -
  let ?dk = "fst (host (disk_path (snd (parse argv default_opt))))"
  have f: "is_open (snd (parse argv default_opt)) = 0" "no_faults ?dk" "dk_blocks ?dk = 0" using assms(1) by (simp_all add: fresh_start_def Let_def)
  let ?fs = "fs_create cjunk (e_dirjunk e) (e_now e) (e_uid e) (e_gid e) fs0 ?dk kDiskSize (of_nat kFSDataBlocks) (of_nat kInodeBitmapBlocks)"
  have "main_init parse argv host e cjunk fs0 = Some \<lparr>v_fs = ?fs, v_path = PathResolver_new (of_nat kPathCacheSize), v_fd = FDManager_new\<rparr>"
    using f(1) by (simp add: main_init_def init_vfs_def case_prod_unfold Let_def)
  then show ?thesis by (rule that[OF _ config_args[OF f(2,3)]]) simp_all
qed

lemma main_starts:
  assumes "fresh_start parse argv host"
  obtains v where "main_init parse argv host e cjunk fs0 = Some v" "vfs_inv v"
  by (rule fresh_started[OF assms, of e cjunk fs0]) (use that fresh_vfs(1) in blast)

text \<open>C2: the program keeps answering. Told to make a file system on an empty disk file it starts, and in every state it reaches by
  answering proper requests the invariant holds and every further proper request is answered, in the form of its handler, with the invariant kept.\<close>

theorem main_answers:
  assumes "fresh_start parse argv host"
  shows "\<exists>v0. main_init parse argv host e0 cjunk fs0 = Some v0 \<and> (\<forall>v. reaches proper sb_op v0 v \<longrightarrow> vfs_inv v \<and>
     (\<forall>e q. proper v q \<longrightarrow> (\<exists>r v'. sb_op e q v = Some (r, v') \<and> vfs_inv v' \<and> reply_ok q r)))"
proof -
  obtain v0 where v0: "main_init parse argv host e0 cjunk fs0 = Some v0" "vfs_inv v0" by (rule main_starts[OF assms])
  then show ?thesis using srv.reach_ok[OF _ v0(2)] srv.reach_live[OF _ v0(2)] op_reply by blast
qed

section \<open>A run and the next\<close>

text \<open>Each request is proper in the state in which it is served.\<close>

primrec proper_run :: "(env \<times> request) list \<Rightarrow> vfs \<Rightarrow> bool" where
  "proper_run [] v \<longleftrightarrow> True"
| "proper_run (q # qs) v \<longleftrightarrow> proper v (snd q) \<and> (\<forall>r v1. sb_op (fst q) (snd q) v = Some (r, v1) \<longrightarrow> proper_run qs v1)"

lemma serve_ok:
  assumes "vfs_inv v" "proper_run qs v"
  shows "\<exists>rs v'. serve qs v = Some (rs, v') \<and> vfs_inv v' \<and> list_all2 reply_ok (map snd qs) rs"
  using assms
proof (induction qs arbitrary: v)
  case (Cons q qs)
  obtain r v1 where r: "sb_op (fst q) (snd q) v = Some (r, v1)" "vfs_inv v1"
    using srv.answers[OF Cons.prems(1), of "snd q" "fst q"] Cons.prems(2) by auto
  then obtain rs v' where "serve qs v1 = Some (rs, v')" "vfs_inv v'" "list_all2 reply_ok (map snd qs) rs"
    using Cons.IH[OF r(2)] Cons.prems(2) by auto
  then show ?case using r(1) op_reply[OF r(1)] by simp
qed simp

text \<open>A process that opens the disk file of one that has ended.\<close>

lemma open_starts:
  assumes "vfs_inv v" "open_start parse argv host (dev_file (sb_destroy v))"
  obtains v' where "main_init parse argv host e cjunk fs0 = Some v'" "vfs_inv v'" "contents (v_fs v') = contents (v_fs v)" "v_fd v' = FDManager_new"
proof -
  note i = vfs_invD[OF assms(1)]
  let ?sz = "dev_blocks (device (v_fs v)) * kBlockSize"
  obtain d fs where o: "dev_sync_all (device (v_fs v)) = (kSuccess, d)" "fs_open cjunk fs0 (Some ?sz) (dev_file d) = Some fs"
    "fs_inv fs" "files fs = files (v_fs v)" "contents fs = contents (v_fs v)" "fs_root fs = fs_root (v_fs v)"
    "\<And>k. getDiskInodePos k fs = getDiskInodePos k (v_fs v)" "\<And>p. getDiskInodeId p fs = getDiskInodeId p (v_fs v)"
    by (rule open_ok[OF i(1) refl, of cjunk fs0]) blast
  have g: "dev_blocks d = dev_blocks (device (v_fs v))"
    using lru_sync_all_ok[OF lay_facts(10)[OF fs_invD(1)[OF i(1)]]] o(1) unfolding dev_sync_all_def same_geometry_def by (metis prod.inject)
  have s: "host (disk_path (snd (parse argv default_opt))) = (dev_file d, Some ?sz)" "is_open (snd (parse argv default_opt)) \<noteq> 0"
    using assms(2) g o(1) by (simp_all add: open_start_def Let_def sb_destroy_def)
  define v' where "v' = \<lparr>v_fs = fs, v_path = PathResolver_new (of_nat kPathCacheSize), v_fd = FDManager_new\<rparr>"
  have run: "main_init parse argv host e cjunk fs0 = Some v'"
    using s o(2) by (simp add: v'_def main_init_def init_vfs_def case_prod_unfold Let_def)
  have r: "root_id fs = root_id (v_fs v)" by (simp add: root_id_def o(6,8))
  have "attrs fs = attrs (v_fs v)" by (rule ext) (simp add: attrs_def o(4))
  then have "links_one fs" using assms(1) by (simp add: links_one_def vfs_inv_def)
  moreover have "fs_root fs = inode_of fs (root_id fs)" using assms(1) by (simp add: vfs_inv_def o(6,7) r)
  ultimately have "vfs_inv v'" using assms(1) o(3) pr_new(1) pr_new(2)[of "of_nat kPathCacheSize"]
    by (simp add: vfs_inv_def v'_def o(5) r cache_ok_def)
  then show ?thesis by (rule that[OF run]) (simp_all add: v'_def o(5))
qed

text \<open>C1: a run of the program on an empty disk file that is asked only proper requests starts, answers them all, in order, and ends.
  Whatever memory, options and host the next process has, if it is told to open that disk file it starts, with
  the invariant and with exactly the files that the first run ended with.\<close>

theorem main_run_survives:
  assumes "fresh_start parse argv host"
  shows "\<exists>v0. main_init parse argv host e cjunk fs0 = Some v0 \<and> (proper_run qs v0 \<longrightarrow>
     (\<exists>rs v d. serve qs v0 = Some (rs, v) \<and> main_run parse argv host e cjunk fs0 qs = Some (rs, d) \<and> list_all2 reply_ok (map snd qs) rs \<and>
       (\<forall>parse2 argv2 host2 e2 cjunk2 fs2. open_start parse2 argv2 host2 (dev_file d) \<longrightarrow>
          (\<exists>v'. main_init parse2 argv2 host2 e2 cjunk2 fs2 = Some v' \<and> vfs_inv v' \<and> contents (v_fs v') = contents (v_fs v)))))"
proof -
  obtain v0 where v0: "main_init parse argv host e cjunk fs0 = Some v0" "vfs_inv v0" by (rule main_starts[OF assms])
  have served: "\<exists>rs v. serve qs v0 = Some (rs, v) \<and> vfs_inv v \<and> list_all2 reply_ok (map snd qs) rs" if "proper_run qs v0"
    using serve_ok[OF v0(2) that] by blast
  have reopened: "\<exists>v'. main_init parse2 argv2 host2 e2 cjunk2 fs2 = Some v' \<and> vfs_inv v' \<and> contents (v_fs v') = contents (v_fs v)"
    if "vfs_inv v" "open_start parse2 argv2 host2 (dev_file (sb_destroy v))" for v parse2 argv2 host2 e2 cjunk2 fs2
    by (rule open_starts[OF that, of e2 cjunk2 fs2]) blast
  have "\<exists>rs v d. serve qs v0 = Some (rs, v) \<and> main_run parse argv host e cjunk fs0 qs = Some (rs, d) \<and> list_all2 reply_ok (map snd qs) rs \<and>
       (\<forall>parse2 argv2 host2 e2 cjunk2 fs2. open_start parse2 argv2 host2 (dev_file d) \<longrightarrow>
          (\<exists>v'. main_init parse2 argv2 host2 e2 cjunk2 fs2 = Some v' \<and> vfs_inv v' \<and> contents (v_fs v') = contents (v_fs v)))"
    if run: "proper_run qs v0"
  proof -
    obtain rs v where s: "serve qs v0 = Some (rs, v)" "vfs_inv v" "list_all2 reply_ok (map snd qs) rs" using served[OF run] by blast
    have "main_run parse argv host e cjunk fs0 qs = Some (rs, sb_destroy v)" by (simp add: main_run_def v0(1) s(1))
    then show ?thesis using s reopened[OF s(2)] by blast
  qed
  then show ?thesis using v0(1) by blast
qed

section \<open>Replies\<close>

text \<open>C23: every handler answers in its own form, and with 0 or one of the error codes it can return; \<open>read\<close> and \<open>write\<close> turn
  the internal failure value into an error code. This holds in every state, whatever the request.\<close>

theorem replies_typed:
  assumes "sb_op e q v = Some (r, v')"
  shows "reply_ok q r"
  by (rule op_reply[OF assms])

section \<open>A first run\<close>

definition plain_parse :: "int \<Rightarrow> cstring list \<Rightarrow> options \<Rightarrow> int \<times> options" where
  "plain_parse b argv opt = (0, opt\<lparr>is_open := b\<rparr>)"

definition first_vfs :: vfs where
  "first_vfs = the (main_init (plain_parse 0) [] (\<lambda>_. (empty_disk, None)) new_env (\<lambda>_. zero_block) blank_fs)"

abbreviation create_a :: "env \<times> request" where
  "create_a \<equiv> (new_env, Create [slash, 0x61] 0 (Some 0))"

lemma first_start: "fresh_start (plain_parse 0) [] (\<lambda>_. (empty_disk, None))"
  by (simp add: fresh_start_def plain_parse_def empty_disk_def no_faults_def)

lemma first_started:
  obtains dk where "main_init (plain_parse 0) [] (\<lambda>_. (empty_disk, None)) new_env (\<lambda>_. zero_block) blank_fs = Some first_vfs"
    "create_args dk kDiskSize (of_nat kFSDataBlocks) (of_nat kInodeBitmapBlocks)"
    "v_fs first_vfs = fs_create (\<lambda>_. zero_block) (e_dirjunk new_env) (e_now new_env) (e_uid new_env) (e_gid new_env) blank_fs dk kDiskSize (of_nat kFSDataBlocks) (of_nat kInodeBitmapBlocks)"
    "v_path first_vfs = PathResolver_new (of_nat kPathCacheSize)" "v_fd first_vfs = FDManager_new"
  by (rule fresh_started[OF first_start, of new_env "\<lambda>_. zero_block" blank_fs]) (use that in \<open>auto simp: first_vfs_def\<close>)

lemma first_inv: "main_init (plain_parse 0) [] (\<lambda>_. (empty_disk, None)) new_env (\<lambda>_. zero_block) blank_fs = Some first_vfs" "vfs_inv first_vfs"
  by (rule first_started, assumption) (rule main_starts[OF first_start, of new_env "\<lambda>_. zero_block" blank_fs], simp add: first_vfs_def)

lemma first_can_create: "\<exists>bs. can_create first_vfs [] [0x61] (root_id (v_fs first_vfs)) bs 0"
proof -
  obtain dk where s: "create_args dk kDiskSize (of_nat kFSDataBlocks) (of_nat kInodeBitmapBlocks)"
    "v_fs first_vfs = fs_create (\<lambda>_. zero_block) (e_dirjunk new_env) (e_now new_env) (e_uid new_env) (e_gid new_env) blank_fs dk kDiskSize (of_nat kFSDataBlocks) (of_nat kInodeBitmapBlocks)"
    "v_path first_vfs = PathResolver_new (of_nat kPathCacheSize)"
    by (rule first_started)
  let ?fs = "v_fs first_vfs"
  note c = create_ok[OF s(1,2)] and lay = fs_invD(1)[OF create_ok(1)[OF s(1,2)]] and r = fresh_vfs(3)[OF s]
  obtain bs where b: "contents ?fs = [root_id ?fs \<mapsto> (kDirectory, bs)]" "entries bs = [(dot, root_id ?fs), (dotdot, root_id ?fs)]" "length bs = 512"
    using c(3) r by auto
  have bl: "ibm_blocks ?fs = 1" "dbm_blocks ?fs = 127" using c(7,8) by (simp_all add: const_defs)
  have "dom (contents ?fs) = {root_id ?fs}" by (simp add: b(1))
  moreover have "dom (contents ?fs) = live ?fs" by (auto simp: contents_def files_def dom_def)
  ultimately have "live ?fs = {root_id ?fs}" by simp
  moreover have "room (data_bitmap ?fs) (dev_view (device ?fs)) (tree_size (nblocks (512 + 256)) - tree_size (nblocks 512) + Suc 0)"
    using used_slots[OF lay_bitmaps(1)[OF lay], of "dev_view (device ?fs)"] c(9) lay_bitmaps(4)[OF lay] bl by (simp add: room_def tree_size_def)
  ultimately have "room_for_entry ?fs 512 (Suc 0)" using bl by (simp add: room_for_entry_def)
  then show ?thesis using b path_a by (intro exI[of _ bs]) (simp add: can_create_def dot_def dotdot_def)
qed

lemma create_a_proper: "proper first_vfs (snd create_a)"
proof -
  obtain dk where "v_fd first_vfs = FDManager_new" by (rule first_started)
  then have "fd_room 1 (v_fd first_vfs)" using fd_inv_new by (simp add: fd_room_def) (simp add: FDManager_new_def)
  moreover have "\<exists>ps n p old. [slash, 0x61] = path_of (ps @ [n]) \<and> can_create first_vfs ps n p old 0"
    using first_can_create path_a(2)[symmetric] by blast
  ultimately show ?thesis unfolding snd_conv proper.simps by blast
qed

theorem replies_typed_witness: "\<exists>r v. sb_op (fst create_a) (snd create_a) first_vfs = Some (r, v) \<and> is_Handle r \<and> code r \<in> {0, - ENOENT}"
proof -
  obtain r v where s: "sb_op (fst create_a) (snd create_a) first_vfs = Some (r, v)"
    using srv.answers[OF first_inv(2) create_a_proper, of new_env] by auto
  show ?thesis using replies_typed[OF s] s by simp
qed

theorem main_answers_witness: "\<exists>r v. sb_op (fst create_a) (snd create_a) first_vfs = Some (r, v) \<and> vfs_inv v"
proof -
  have "\<forall>v. reaches proper sb_op first_vfs v \<longrightarrow> vfs_inv v \<and> (\<forall>e q. proper v q \<longrightarrow> (\<exists>r v'. sb_op e q v = Some (r, v') \<and> vfs_inv v' \<and> reply_ok q r))"
    using main_answers[OF first_start, of new_env "\<lambda>_. zero_block" blank_fs] unfolding first_inv(1) by blast
  then show ?thesis using reaches.start[of proper sb_op first_vfs] create_a_proper by blast
qed

theorem main_run_survives_witness:
  "\<exists>rs v d v'. serve [create_a] first_vfs = Some (rs, v) \<and>
     main_init (plain_parse 1) [] (\<lambda>_. (dev_file d, Some (dk_blocks (dev_file d) * kBlockSize))) new_env (\<lambda>_. zero_block) blank_fs = Some v' \<and>
     contents (v_fs v') = contents (v_fs v) \<and> main_run (plain_parse 0) [] (\<lambda>_. (empty_disk, None)) new_env (\<lambda>_. zero_block) blank_fs [create_a] = Some (rs, d)"
proof -
  have "proper_run [create_a] first_vfs" using create_a_proper by (simp del: proper.simps sb_op.simps)
  then obtain rs v d where r: "serve [create_a] first_vfs = Some (rs, v)"
    "main_run (plain_parse 0) [] (\<lambda>_. (empty_disk, None)) new_env (\<lambda>_. zero_block) blank_fs [create_a] = Some (rs, d)"
    "\<forall>parse2 argv2 host2 e2 cjunk2 fs2. open_start parse2 argv2 host2 (dev_file d) \<longrightarrow>
        (\<exists>v'. main_init parse2 argv2 host2 e2 cjunk2 fs2 = Some v' \<and> vfs_inv v' \<and> contents (v_fs v') = contents (v_fs v))"
    using main_run_survives[OF first_start, of new_env "\<lambda>_. zero_block" blank_fs "[create_a]"] unfolding first_inv(1) by blast
  have "open_start (plain_parse 1) [] (\<lambda>_. (dev_file d, Some (dk_blocks (dev_file d) * kBlockSize))) (dev_file d)"
    by (simp add: open_start_def plain_parse_def)
  then show ?thesis using r by blast
qed

end
